(* ===== verification/Sqsh_Prelude.thy ===== *)
theory Sqsh_Prelude
  imports Main "HOL-Library.Word" "HOL-Library.Code_Target_Nat"
begin

text \<open>
  Shared vocabulary of the development: bytes, C integers at their width, the error
  codes of \<^verbatim>\<open>include/sqsh_error.h\<close>, the result of a C function that reports an error and
  changes an object in place, little-endian loads and stores on byte lists, and the generic
  list lemmas the components use.

  Conventions.
  \<^item> \<^verbatim>\<open>size_t\<close> and \<^verbatim>\<open>uint64_t\<close> values are natural numbers below \<open>2 ^ 64\<close> (an LP64 target);
    checked arithmetic is \<open>add_overflow\<close>, \<open>sub_overflow\<close>, \<open>mul_overflow\<close>, unchecked
    arithmetic that can wrap is \<open>wrap_add\<close>, \<open>wrap_sub\<close>.
  \<^item> A function that returns an \<^verbatim>\<open>int\<close> error code and mutates an object returns the pair of
    the code and the object after the call, on the error paths too.
  \<^item> \<open>Fault\<close> stands for an access outside the memory the program was given (undefined
    behaviour in C). No reachable computation should produce it: that is memory safety.
  \<^item> \<open>Diverge\<close> stands for a loop that used up its bound; the theorems show it does not
    happen.
\<close>

section \<open>Bytes and results\<close>

type_synonym byte = "8 word"

named_theorems sqsh_simps \<open>unfolding rules of small wrappers\<close>

datatype sqsh_error =
    SQSH_ERROR_SUPERBLOCK_TOO_SMALL | SQSH_ERROR_WRONG_MAGIC | SQSH_ERROR_BLOCKSIZE_MISMATCH
  | SQSH_ERROR_SIZE_MISMATCH | SQSH_ERROR_COMPRESSION_INIT | SQSH_ERROR_COMPRESSION_UNSUPPORTED
  | SQSH_ERROR_COMPRESSION_DECOMPRESS | SQSH_ERROR_UNKNOWN_FILE_TYPE | SQSH_ERROR_NOT_A_DIRECTORY
  | SQSH_ERROR_NOT_A_FILE | SQSH_ERROR_MALLOC_FAILED | SQSH_ERROR_MUTEX_INIT_FAILED
  | SQSH_ERROR_MUTEX_LOCK_FAILED | SQSH_ERROR_MUTEX_DESTROY_FAILED | SQSH_ERROR_OUT_OF_BOUNDS
  | SQSH_ERROR_INTEGER_OVERFLOW | SQSH_ERROR_NO_SUCH_FILE | SQSH_ERROR_NO_SUCH_XATTR
  | SQSH_ERROR_NO_FRAGMENT_TABLE | SQSH_ERROR_NO_EXTENDED_DIRECTORY | SQSH_ERROR_NO_EXPORT_TABLE
  | SQSH_ERROR_NO_XATTR_TABLE | SQSH_ERROR_NO_COMPRESSION_OPTIONS | SQSH_ERROR_MAPPER_INIT
  | SQSH_ERROR_MAPPER_MAP | SQSH_ERROR_CURL_INVALID_RANGE_HEADER | SQSL_ERROR_ELEMENT_NOT_FOUND
  | SQSH_ERROR_INVALID_ARGUMENT | SQSH_ERROR_WALKER_CANNOT_GO_UP
  | SQSH_ERROR_WALKER_CANNOT_GO_DOWN | SQSH_ERROR_CORRUPTED_INODE
  | SQSH_ERROR_CORRUPTED_DIRECTORY_ENTRY | SQSH_ERROR_INTERNAL
  | SQSH_ERROR_INODE_MAP_IS_INCONSISTENT | SQSH_ERROR_XATTR_SIZE_MISMATCH
  | SQSH_ERROR_UNSUPPORTED_VERSION | SQSH_ERROR_TOO_MANY_SYMLINKS_FOLLOWED
  | SQSH_ERROR_CORRUPTED_DIRECTORY_HEADER | SQSH_ERROR_COMPRESSION_FINISHED
  | SQSH_ERROR_NO_SUCH_ELEMENT | SQSH_ERROR_DIRECTORY_RECURSION
  | SQSH_ERROR_INODE_PARENT_MISMATCH | SQSH_ERROR_INODE_PARENT_UNSET
  | SQSH_ERROR_NOT_A_SYMLINK | SQSH_ERROR_CORRUPTED_XATTR
  | Errno nat \<comment> \<open>an error code of code outside the repository\<close>

datatype rv = Ok | Err sqsh_error | Fault | Diverge

text \<open>
  \<open>andthen\<close> is the \<^verbatim>\<open>if (rv < 0) goto out;\<close> idiom: the continuation runs on the object
  only when the call before it succeeded.
\<close>

definition andthen :: "rv \<times> 's \<Rightarrow> ('s \<Rightarrow> rv \<times> 's) \<Rightarrow> rv \<times> 's" where
  "andthen r f = (case r of (Ok, s) \<Rightarrow> f s | (e, s) \<Rightarrow> (e, s))"

lemma andthen_simps [simp]:
  "andthen (Ok, s) f = f s"
  "andthen (Err e, s) f = (Err e, s)"
  "andthen (Fault, s) f = (Fault, s)"
  "andthen (Diverge, s) f = (Diverge, s)"
  by (simp_all add: andthen_def)

lemma andthen_error [simp]: "e \<noteq> Ok \<Longrightarrow> andthen (e, s) f = (e, s)"
  by (cases e) simp_all

lemma andthen_Ok_iff:
  "andthen r f = (Ok, t) \<longleftrightarrow> (\<exists>s. r = (Ok, s) \<and> f s = (Ok, t))"
  by (auto simp: andthen_def split: prod.splits rv.splits)

lemma andthen_assoc: "andthen (andthen r f) g = andthen r (\<lambda>s. andthen (f s) g)"
  by (simp add: andthen_def split: prod.splits rv.splits)

lemma andthen_cong [fundef_cong]:
  "r = r' \<Longrightarrow> (\<And>s. r' = (Ok, s) \<Longrightarrow> f s = g s) \<Longrightarrow> andthen r f = andthen r' g"
  by (auto simp: andthen_def split: prod.splits rv.splits)

lemma andthen_split:
  "P (andthen r f) \<longleftrightarrow>
     (\<forall>s. r = (Ok, s) \<longrightarrow> P (f s)) \<and> (\<forall>e s. r = (e, s) \<longrightarrow> e \<noteq> Ok \<longrightarrow> P (e, s))"
  by (auto simp: andthen_def split: prod.splits rv.splits)

text \<open>A call is \<open>safe\<close> when it neither faults nor diverges.\<close>

definition safe_rv :: "rv \<Rightarrow> bool" where
  "safe_rv r \<longleftrightarrow> r \<noteq> Fault \<and> r \<noteq> Diverge"

lemma safe_rv_simps [simp]:
  "safe_rv Ok" "safe_rv (Err e)" "\<not> safe_rv Fault" "\<not> safe_rv Diverge"
  by (simp_all add: safe_rv_def)

lemma safe_rvE: "safe_rv r \<Longrightarrow> (r = Ok \<Longrightarrow> P) \<Longrightarrow> (\<And>e. r = Err e \<Longrightarrow> P) \<Longrightarrow> P"
  by (cases r) auto

section \<open>C integer arithmetic\<close>

text \<open>
  The three overflow builtins of \<^verbatim>\<open>include/sqsh_common.h\<close> compute with unbounded precision
  and report when the result does not fit the destination, whose width is the first argument.
\<close>

definition add_overflow :: "nat \<Rightarrow> nat \<Rightarrow> nat \<Rightarrow> nat option" where
  "add_overflow w a b = (if a + b < 2 ^ w then Some (a + b) else None)"

definition sub_overflow :: "nat \<Rightarrow> nat \<Rightarrow> nat \<Rightarrow> nat option" where
  "sub_overflow w a b = (if b \<le> a \<and> a - b < 2 ^ w then Some (a - b) else None)"

definition mul_overflow :: "nat \<Rightarrow> nat \<Rightarrow> nat \<Rightarrow> nat option" where
  "mul_overflow w a b = (if a * b < 2 ^ w then Some (a * b) else None)"

definition divide_ceil :: "nat \<Rightarrow> nat \<Rightarrow> nat" where
  "divide_ceil x y = x div y + (if x mod y \<noteq> 0 then 1 else 0)"

definition wrap_add :: "nat \<Rightarrow> nat \<Rightarrow> nat" where
  "wrap_add a b = (a + b) mod 2 ^ 64"

definition wrap_sub :: "nat \<Rightarrow> nat \<Rightarrow> nat" where
  "wrap_sub a b = (a + 2 ^ 64 - b) mod 2 ^ 64"

definition SIZE_MAX :: nat where "SIZE_MAX = 2 ^ 64 - 1"

lemma add_overflow_Some [simp]:
  "add_overflow w a b = Some c \<longleftrightarrow> c = a + b \<and> a + b < 2 ^ w"
  by (auto simp: add_overflow_def)

lemma add_overflow_None [simp]: "add_overflow w a b = None \<longleftrightarrow> 2 ^ w \<le> a + b"
  by (auto simp: add_overflow_def)

lemma sub_overflow_Some [simp]:
  "sub_overflow w a b = Some c \<longleftrightarrow> c = a - b \<and> b \<le> a \<and> a - b < 2 ^ w"
  by (auto simp: sub_overflow_def)

lemma mul_overflow_Some [simp]:
  "mul_overflow w a b = Some c \<longleftrightarrow> c = a * b \<and> a * b < 2 ^ w"
  by (auto simp: mul_overflow_def)

lemma mul_overflow_None [simp]: "mul_overflow w a b = None \<longleftrightarrow> 2 ^ w \<le> a * b"
  by (auto simp: mul_overflow_def)

lemma wrap_sub_exact: "b \<le> a \<Longrightarrow> a < 2 ^ 64 \<Longrightarrow> wrap_sub a b = a - b"
  by (simp add: wrap_sub_def mod_if)

lemma wrap_add_exact: "a + b < 2 ^ 64 \<Longrightarrow> wrap_add a b = a + b"
  by (simp add: wrap_add_def)

lemma divide_ceil_least:
  assumes "0 < y" shows "x \<le> y * n \<longleftrightarrow> divide_ceil x y \<le> n"
proof -
  obtain q r where qr: "x = y * q + r" "r < y"
    using assms by (metis mod_less_divisor mult_div_mod_eq)
  then have dm: "x div y = q" "x mod y = r" using assms by simp_all
  show ?thesis
  proof (cases "r = 0")
    case True
    then show ?thesis using assms dm qr by (simp add: divide_ceil_def)
  next
    case False
    have "x \<le> y * n \<longleftrightarrow> q < n"
    proof
      assume "x \<le> y * n"
      then have "y * q < y * n" using qr False by linarith
      then show "q < n" by simp
    next
      assume "q < n"
      then have "y * Suc q \<le> y * n" by (simp only: mult_le_mono2 Suc_leI)
      then show "x \<le> y * n" using qr by simp
    qed
    then show ?thesis using dm False by (simp add: divide_ceil_def Suc_le_eq)
  qed
qed

section \<open>Lists of bytes\<close>

definition window :: "nat \<Rightarrow> nat \<Rightarrow> 'a list \<Rightarrow> 'a list" where
  "window off n xs = take n (drop off xs)"

lemma length_window [simp]: "length (window off n xs) = min n (length xs - off)"
  by (simp add: window_def)

lemma window_0 [simp]: "window off 0 xs = []"
  by (simp add: window_def)

lemma window_at_0: "window 0 n xs = take n xs"
  by (simp add: window_def)

lemma window_append_window: "window off m xs @ window (off + m) n xs = window off (m + n) xs"
  by (simp add: window_def take_add add.commute)

lemma window_window: "a + b \<le> n \<Longrightarrow> window a b (window off n xs) = window (off + a) b xs"
  by (simp add: window_def drop_take add.commute)

lemma take_window [simp]: "take a (window off n xs) = window off (min a n) xs"
  by (simp add: window_def)

lemma drop_window: "drop a (window off n xs) = window (off + a) (n - a) xs"
  by (simp add: window_def drop_take add.commute)

lemma window_eq_drop: "n = length xs - off \<Longrightarrow> window off n xs = drop off xs"
  by (simp add: window_def)

text \<open>A little-endian load of the bytes of a list, and the store that inverts it.\<close>

fun le_nat :: "byte list \<Rightarrow> nat" where
  "le_nat [] = 0"
| "le_nat (b # bs) = unat b + 256 * le_nat bs"

fun le_bytes :: "nat \<Rightarrow> nat \<Rightarrow> byte list" where
  "le_bytes 0 v = []"
| "le_bytes (Suc n) v = word_of_nat (v mod 256) # le_bytes n (v div 256)"

lemma length_le_bytes [simp]: "length (le_bytes n v) = n"
  by (induction n arbitrary: v) simp_all

lemma le_nat_bound: "le_nat bs < 256 ^ length bs"
proof (induction bs)
  case (Cons b bs)
  have "unat b < 256" using unsigned_less [of b] by simp
  with Cons show ?case by simp
qed simp

lemma le_nat_le_bytes: "v < 256 ^ n \<Longrightarrow> le_nat (le_bytes n v) = v"
proof (induction n arbitrary: v)
  case (Suc n)
  have "v div 256 < 256 ^ n" using Suc.prems by (simp add: less_mult_imp_div_less mult.commute)
  moreover have "unat (word_of_nat (v mod 256) :: byte) = v mod 256"
    by (simp add: unat_of_nat take_bit_eq_mod)
  ultimately show ?case using Suc.IH by simp
qed simp

lemma le_bytes_le_nat: "le_bytes (length bs) (le_nat bs) = bs"
proof (induction bs)
  case (Cons b bs)
  have "unat b < 256" using unsigned_less [of b] by simp
  with Cons show ?case by simp
qed simp

definition get_le :: "nat \<Rightarrow> nat \<Rightarrow> byte list \<Rightarrow> nat" where
  "get_le n off bs = le_nat (window off n bs)"

definition put_le :: "nat \<Rightarrow> nat \<Rightarrow> nat \<Rightarrow> byte list \<Rightarrow> byte list" where
  "put_le n off v bs = take off bs @ le_bytes n v @ drop (off + n) bs"

lemma get_le_bound: "get_le n off bs < 256 ^ n"
proof -
  have "get_le n off bs < 256 ^ length (window off n bs)"
    unfolding get_le_def by (rule le_nat_bound)
  also have "\<dots> \<le> 256 ^ n" by (rule power_increasing) simp_all
  finally show ?thesis .
qed

lemma length_put_le [simp]: "off + n \<le> length bs \<Longrightarrow> length (put_le n off v bs) = length bs"
  by (simp add: put_le_def)

lemma get_le_put_le_same:
  "off + n \<le> length bs \<Longrightarrow> v < 256 ^ n \<Longrightarrow> get_le n off (put_le n off v bs) = v"
  by (simp add: get_le_def put_le_def window_def le_nat_le_bytes)

lemma window_put_le_other:
  assumes "off + n \<le> length bs" and "m + k \<le> off \<or> off + n \<le> k"
  shows "window k m (put_le n off v bs) = window k m bs"
proof (cases "m + k \<le> off")
  case True
  then show ?thesis using assms(1) by (simp add: put_le_def window_def take_drop)
next
  case False
  then have le: "off + n \<le> k" using assms(2) by simp
  then have "drop k (put_le n off v bs) = drop (k - off - n) (drop (off + n) bs)"
    using assms(1) by (simp add: put_le_def)
  also have "\<dots> = drop k bs" using le by simp
  finally show ?thesis by (simp add: window_def)
qed

lemma get_le_put_le_other:
  "off + n \<le> length bs \<Longrightarrow> m + k \<le> off \<or> off + n \<le> k \<Longrightarrow>
   get_le m k (put_le n off v bs) = get_le m k bs"
  by (simp add: get_le_def window_put_le_other)

lemma get_le_take [simp]: "off + n \<le> m \<Longrightarrow> get_le n off (take m bs) = get_le n off bs"
  by (simp add: get_le_def window_def drop_take)

lemma get_le_append [simp]:
  "off + n \<le> length xs \<Longrightarrow> get_le n off (xs @ ys) = get_le n off xs"
  by (simp add: get_le_def window_def)

end
