(* ===== verification/Sqsh_Block.thy ===== *)
theory Sqsh_Block
  imports Sqsh_Prelude
begin

unbundle bit_operations_syntax

text \<open>
  Block arithmetic (\<^verbatim>\<open>common/src/utils/block.c\<close>) and the packed references and size words
  of \<^verbatim>\<open>common/include/sqsh_common_private.h\<close>. The definitions keep the shifts and masks of the
  source; the lemmas read them as division, remainder and rounding up.
\<close>

section \<open>Block counts\<close>

definition sqsh_block_count :: "nat \<Rightarrow> nat \<Rightarrow> nat" where
  "sqsh_block_count value block_log = drop_bit block_log value"

definition sqsh_block_count_ceil :: "nat \<Rightarrow> nat \<Rightarrow> nat" where
  "sqsh_block_count_ceil value block_log =
     (let mask = push_bit block_log 1 - 1
      in drop_bit block_log value + (if value AND mask \<noteq> 0 then 1 else 0))"

definition sqsh_block_remainder :: "nat \<Rightarrow> nat \<Rightarrow> nat" where
  "sqsh_block_remainder value block_log = value AND (push_bit block_log 1 - 1)"

definition sqsh__block_count :: "nat \<Rightarrow> nat \<Rightarrow> bool \<Rightarrow> nat" where
  "sqsh__block_count file_size block_log has_fragment =
     (if has_fragment then sqsh_block_count file_size block_log
      else sqsh_block_count_ceil file_size block_log)"

lemma and_low_mask: "(n::nat) AND (push_bit k 1 - 1) = n mod 2 ^ k"
proof -
  have "push_bit k 1 - 1 = (mask k :: nat)" by (simp add: mask_eq_exp_minus_1 push_bit_eq_mult)
  then show ?thesis by (simp add: take_bit_eq_mod flip: take_bit_eq_mask)
qed

lemma sqsh_block_count_div [simp]: "sqsh_block_count v k = v div 2 ^ k"
  by (simp add: sqsh_block_count_def drop_bit_eq_div)

lemma sqsh_block_remainder_mod [simp]: "sqsh_block_remainder v k = v mod 2 ^ k"
  unfolding sqsh_block_remainder_def by (rule and_low_mask)

lemma sqsh_block_count_ceil_div: "sqsh_block_count_ceil v k = divide_ceil v (2 ^ k)"
  unfolding sqsh_block_count_ceil_def divide_ceil_def Let_def and_low_mask drop_bit_eq_div ..

section \<open>References and size words\<close>

definition sqsh_address_ref_outer_offset :: "nat \<Rightarrow> nat" where
  "sqsh_address_ref_outer_offset ref = drop_bit 16 ref"

definition sqsh_address_ref_inner_offset :: "nat \<Rightarrow> nat" where
  "sqsh_address_ref_inner_offset ref = ref AND 0xFFFF"

definition sqsh_address_ref_create :: "nat \<Rightarrow> nat \<Rightarrow> nat" where
  "sqsh_address_ref_create outer_offset inner_offset = push_bit 16 outer_offset OR inner_offset"

definition sqsh_datablock_size :: "nat \<Rightarrow> nat" where
  "sqsh_datablock_size size_info = size_info AND (0xFFFFFFFF - push_bit 24 1)"

definition sqsh_datablock_is_compressed :: "nat \<Rightarrow> bool" where
  "sqsh_datablock_is_compressed size_info \<longleftrightarrow> size_info AND push_bit 24 1 = 0"

lemma inner_offset_mod: "sqsh_address_ref_inner_offset r = r mod 65536"
  using and_low_mask [of r 16] by (simp add: sqsh_address_ref_inner_offset_def)

lemma outer_offset_div: "sqsh_address_ref_outer_offset r = r div 65536"
  by (simp add: sqsh_address_ref_outer_offset_def drop_bit_eq_div)

lemma push_or_add:
  fixes a b :: nat
  assumes "b < 2 ^ k" shows "push_bit k a OR b = a * 2 ^ k + b"
proof -
  have b: "b = take_bit k b" using assms by (simp add: take_bit_nat_eq_self)
  have "\<not> bit (push_bit k a) n \<or> \<not> bit b n" for n
    by (subst b) (auto simp: bit_push_bit_iff bit_take_bit_iff)
  then have "push_bit k a + b = push_bit k a OR b" by (rule disjunctive_add)
  then show ?thesis by (simp add: push_bit_eq_mult)
qed

lemma address_ref_create_eq:
  "i < 65536 \<Longrightarrow> sqsh_address_ref_create b i = b * 65536 + i"
  using push_or_add [of i 16 b] by (simp add: sqsh_address_ref_create_def)

text \<open>
  Clearing bit 24 of a 32-bit size word and testing it: the two accessors together determine
  the word.
\<close>

lemma split_at_bit:
  fixes s M B :: nat
  assumes "s < 2 ^ w"
    and M: "\<And>n. bit M n \<longleftrightarrow> n < w \<and> n \<noteq> k" and B: "\<And>n. bit B n \<longleftrightarrow> n = k"
  shows "s = (s AND M) + (s AND B)"
proof -
  have s: "bit s n \<Longrightarrow> n < w" for n
    using assms(1) by (metis bit_take_bit_iff take_bit_nat_eq_self)
  have "s = (s AND M) OR (s AND B)"
    by (rule bit_eqI) (auto simp: bit_and_iff bit_or_iff M B dest: s)
  also have "\<dots> = (s AND M) + (s AND B)"
    by (rule disjunctive_add [symmetric]) (auto simp: bit_and_iff M B)
  finally show ?thesis .
qed

lemma size_mask_bits: "bit ((0xFFFFFFFF::nat) - push_bit 24 1) n \<longleftrightarrow> n < 32 \<and> n \<noteq> 24"
proof -
  have e: "(0xFFFFFFFF::nat) - push_bit 24 1 = push_bit 25 (mask 7) OR mask 24"
    by (simp add: push_bit_eq_mult mask_eq_exp_minus_1)
  show ?thesis unfolding e bit_or_iff bit_push_bit_iff bit_mask_iff by auto
qed

lemma flag_mask_bits: "bit (push_bit 24 (1::nat)) n \<longleftrightarrow> n = 24"
  unfolding bit_push_bit_iff bit_1_iff by auto

lemma and_single_bit:
  fixes s B :: nat
  assumes "\<And>n. bit B n \<longleftrightarrow> n = k" shows "s AND B = (if bit s k then B else 0)"
  by (rule bit_eqI) (auto simp: bit_and_iff assms)

lemma and_flag: "(s::nat) AND push_bit 24 1 = (if bit s 24 then 2 ^ 24 else 0)"
  using and_single_bit [OF flag_mask_bits, of s] by (simp add: push_bit_eq_mult)

lemma datablock_split:
  assumes "s < 2 ^ 32"
  shows "s = sqsh_datablock_size s + (if sqsh_datablock_is_compressed s then 0 else 2 ^ 24)"
proof -
  have "s AND push_bit 24 1 = (if sqsh_datablock_is_compressed s then 0 else 2 ^ 24)"
    unfolding sqsh_datablock_is_compressed_def and_flag by simp
  with split_at_bit [OF assms size_mask_bits flag_mask_bits] show ?thesis
    unfolding sqsh_datablock_size_def by simp
qed

section \<open>Properties\<close>



end
