(* ===== verification/Sqsh_Data.thy ===== *)
theory Sqsh_Data
  imports Sqsh_Block
begin

unbundle bit_operations_syntax

text \<open>
  The on-disk structures of squashfs (\<^verbatim>\<open>common/include/sqsh_data_private.h\<close>) and their
  accessors (\<^verbatim>\<open>common/src/data/*.c\<close>). A packed C structure is the list of its bytes; a field is a
  little-endian number at the offset the structure declares, so that \<^verbatim>\<open>CX_LE_2_CPU\<close> after the
  load and \<^verbatim>\<open>CX_CPU_2_LE\<close> before the store are part of \<open>get_le\<close> and \<open>put_le\<close>. The constant
  \<open>sizeof_X\<close> is the size of the packed structure \<open>X\<close>. The accessors assume that the structure
  lies within the bytes they are given; the components that cast a window to a structure
  check its length and report \<open>Fault\<close> otherwise.
\<close>

section \<open>Structure sizes\<close>

definition sizeof_SqshDataCompressionOptionsGzip :: nat where "sizeof_SqshDataCompressionOptionsGzip = 8"
definition sizeof_SqshDataCompressionOptionsXz :: nat where "sizeof_SqshDataCompressionOptionsXz = 8"
definition sizeof_SqshDataCompressionOptionsLz4 :: nat where "sizeof_SqshDataCompressionOptionsLz4 = 8"
definition sizeof_SqshDataCompressionOptionsZstd :: nat where "sizeof_SqshDataCompressionOptionsZstd = 4"
definition sizeof_SqshDataCompressionOptionsLzo :: nat where "sizeof_SqshDataCompressionOptionsLzo = 8"
definition sizeof_SqshDataDirectoryEntry :: nat where "sizeof_SqshDataDirectoryEntry = 8"
definition sizeof_SqshDataDirectoryFragment :: nat where "sizeof_SqshDataDirectoryFragment = 12"
definition sizeof_SqshDataFragment :: nat where "sizeof_SqshDataFragment = 16"
definition sizeof_SqshDataInodeDirectoryIndex :: nat where "sizeof_SqshDataInodeDirectoryIndex = 12"
definition sizeof_SqshDataInodeDirectory :: nat where "sizeof_SqshDataInodeDirectory = 16"
definition sizeof_SqshDataInodeDirectoryExt :: nat where "sizeof_SqshDataInodeDirectoryExt = 24"
definition sizeof_SqshDataInodeFile :: nat where "sizeof_SqshDataInodeFile = 16"
definition sizeof_SqshDataInodeFileExt :: nat where "sizeof_SqshDataInodeFileExt = 40"
definition sizeof_SqshDataInodeSymlink :: nat where "sizeof_SqshDataInodeSymlink = 8"
definition sizeof_SqshDataInodeSymlinkExt :: nat where "sizeof_SqshDataInodeSymlinkExt = 8"
definition sizeof_SqshDataInodeSymlinkExtTail :: nat where "sizeof_SqshDataInodeSymlinkExtTail = 4"
definition sizeof_SqshDataInodeDevice :: nat where "sizeof_SqshDataInodeDevice = 8"
definition sizeof_SqshDataInodeDeviceExt :: nat where "sizeof_SqshDataInodeDeviceExt = 12"
definition sizeof_SqshDataInodeIpc :: nat where "sizeof_SqshDataInodeIpc = 4"
definition sizeof_SqshDataInodeIpcExt :: nat where "sizeof_SqshDataInodeIpcExt = 8"
definition sizeof_SqshDataInodeHeader :: nat where "sizeof_SqshDataInodeHeader = 16"
definition sizeof_SqshDataMetablock :: nat where "sizeof_SqshDataMetablock = 2"
definition sizeof_SqshDataSuperblock :: nat where "sizeof_SqshDataSuperblock = 96"
definition sizeof_SqshDataXattrKey :: nat where "sizeof_SqshDataXattrKey = 4"
definition sizeof_SqshDataXattrValue :: nat where "sizeof_SqshDataXattrValue = 4"
definition sizeof_SqshDataXattrLookupTable :: nat where "sizeof_SqshDataXattrLookupTable = 16"
definition sizeof_SqshDataXattrIdTable :: nat where "sizeof_SqshDataXattrIdTable = 16"

lemmas sizeof_defs [sqsh_simps] =
  sizeof_SqshDataCompressionOptionsGzip_def
  sizeof_SqshDataCompressionOptionsXz_def
  sizeof_SqshDataCompressionOptionsLz4_def
  sizeof_SqshDataCompressionOptionsZstd_def
  sizeof_SqshDataCompressionOptionsLzo_def
  sizeof_SqshDataDirectoryEntry_def
  sizeof_SqshDataDirectoryFragment_def
  sizeof_SqshDataFragment_def
  sizeof_SqshDataInodeDirectoryIndex_def
  sizeof_SqshDataInodeDirectory_def
  sizeof_SqshDataInodeDirectoryExt_def
  sizeof_SqshDataInodeFile_def
  sizeof_SqshDataInodeFileExt_def
  sizeof_SqshDataInodeSymlink_def
  sizeof_SqshDataInodeSymlinkExt_def
  sizeof_SqshDataInodeSymlinkExtTail_def
  sizeof_SqshDataInodeDevice_def
  sizeof_SqshDataInodeDeviceExt_def
  sizeof_SqshDataInodeIpc_def
  sizeof_SqshDataInodeIpcExt_def
  sizeof_SqshDataInodeHeader_def
  sizeof_SqshDataMetablock_def
  sizeof_SqshDataSuperblock_def
  sizeof_SqshDataXattrKey_def
  sizeof_SqshDataXattrValue_def
  sizeof_SqshDataXattrLookupTable_def
  sizeof_SqshDataXattrIdTable_def


section \<open>Superblock accessors\<close>

definition sqsh__data_superblock_inode_count :: "byte list \<Rightarrow> nat" where
  "sqsh__data_superblock_inode_count s = get_le 4 4 s"
definition sqsh__data_superblock_modification_time :: "byte list \<Rightarrow> nat" where
  "sqsh__data_superblock_modification_time s = get_le 4 8 s"
definition sqsh__data_superblock_block_size :: "byte list \<Rightarrow> nat" where
  "sqsh__data_superblock_block_size s = get_le 4 12 s"
definition sqsh__data_superblock_fragment_entry_count :: "byte list \<Rightarrow> nat" where
  "sqsh__data_superblock_fragment_entry_count s = get_le 4 16 s"
definition sqsh__data_superblock_compression_id :: "byte list \<Rightarrow> nat" where
  "sqsh__data_superblock_compression_id s = get_le 2 20 s"
definition sqsh__data_superblock_block_log :: "byte list \<Rightarrow> nat" where
  "sqsh__data_superblock_block_log s = get_le 2 22 s"
definition sqsh__data_superblock_flags :: "byte list \<Rightarrow> nat" where
  "sqsh__data_superblock_flags s = get_le 2 24 s"
definition sqsh__data_superblock_id_count :: "byte list \<Rightarrow> nat" where
  "sqsh__data_superblock_id_count s = get_le 2 26 s"
definition sqsh__data_superblock_version_major :: "byte list \<Rightarrow> nat" where
  "sqsh__data_superblock_version_major s = get_le 2 28 s"
definition sqsh__data_superblock_version_minor :: "byte list \<Rightarrow> nat" where
  "sqsh__data_superblock_version_minor s = get_le 2 30 s"
definition sqsh__data_superblock_root_inode_ref :: "byte list \<Rightarrow> nat" where
  "sqsh__data_superblock_root_inode_ref s = get_le 8 32 s"
definition sqsh__data_superblock_bytes_used :: "byte list \<Rightarrow> nat" where
  "sqsh__data_superblock_bytes_used s = get_le 8 40 s"
definition sqsh__data_superblock_id_table_start :: "byte list \<Rightarrow> nat" where
  "sqsh__data_superblock_id_table_start s = get_le 8 48 s"
definition sqsh__data_superblock_xattr_id_table_start :: "byte list \<Rightarrow> nat" where
  "sqsh__data_superblock_xattr_id_table_start s = get_le 8 56 s"
definition sqsh__data_superblock_inode_table_start :: "byte list \<Rightarrow> nat" where
  "sqsh__data_superblock_inode_table_start s = get_le 8 64 s"
definition sqsh__data_superblock_directory_table_start :: "byte list \<Rightarrow> nat" where
  "sqsh__data_superblock_directory_table_start s = get_le 8 72 s"
definition sqsh__data_superblock_fragment_table_start :: "byte list \<Rightarrow> nat" where
  "sqsh__data_superblock_fragment_table_start s = get_le 8 80 s"
definition sqsh__data_superblock_export_table_start :: "byte list \<Rightarrow> nat" where
  "sqsh__data_superblock_export_table_start s = get_le 8 88 s"
definition sqsh__data_superblock_magic :: "byte list \<Rightarrow> byte list" where
  "sqsh__data_superblock_magic s = take 4 s"

lemmas superblock_get_defs = sqsh__data_superblock_magic_def
  sqsh__data_superblock_inode_count_def
  sqsh__data_superblock_modification_time_def
  sqsh__data_superblock_block_size_def
  sqsh__data_superblock_fragment_entry_count_def
  sqsh__data_superblock_compression_id_def
  sqsh__data_superblock_block_log_def
  sqsh__data_superblock_flags_def
  sqsh__data_superblock_id_count_def
  sqsh__data_superblock_version_major_def
  sqsh__data_superblock_version_minor_def
  sqsh__data_superblock_root_inode_ref_def
  sqsh__data_superblock_bytes_used_def
  sqsh__data_superblock_id_table_start_def
  sqsh__data_superblock_xattr_id_table_start_def
  sqsh__data_superblock_inode_table_start_def
  sqsh__data_superblock_directory_table_start_def
  sqsh__data_superblock_fragment_table_start_def
  sqsh__data_superblock_export_table_start_def

section \<open>Superblock setters\<close>

definition sqsh__data_superblock_magic_set :: "byte list \<Rightarrow> byte list \<Rightarrow> byte list" where
  "sqsh__data_superblock_magic_set s value = take 4 value @ drop 4 s"
definition sqsh__data_superblock_inode_count_set :: "byte list \<Rightarrow> nat \<Rightarrow> byte list" where
  "sqsh__data_superblock_inode_count_set s value = put_le 4 4 value s"
definition sqsh__data_superblock_modification_time_set :: "byte list \<Rightarrow> nat \<Rightarrow> byte list" where
  "sqsh__data_superblock_modification_time_set s value = put_le 4 8 value s"
definition sqsh__data_superblock_block_size_set :: "byte list \<Rightarrow> nat \<Rightarrow> byte list" where
  "sqsh__data_superblock_block_size_set s value = put_le 4 12 value s"
definition sqsh__data_superblock_fragment_entry_count_set :: "byte list \<Rightarrow> nat \<Rightarrow> byte list" where
  "sqsh__data_superblock_fragment_entry_count_set s value = put_le 4 16 value s"
definition sqsh__data_superblock_compression_id_set :: "byte list \<Rightarrow> nat \<Rightarrow> byte list" where
  "sqsh__data_superblock_compression_id_set s value = put_le 2 20 value s"
definition sqsh__data_superblock_block_log_set :: "byte list \<Rightarrow> nat \<Rightarrow> byte list" where
  "sqsh__data_superblock_block_log_set s value = put_le 2 22 value s"
definition sqsh__data_superblock_flags_set :: "byte list \<Rightarrow> nat \<Rightarrow> byte list" where
  "sqsh__data_superblock_flags_set s value = put_le 2 24 value s"
definition sqsh__data_superblock_id_count_set :: "byte list \<Rightarrow> nat \<Rightarrow> byte list" where
  "sqsh__data_superblock_id_count_set s value = put_le 2 26 value s"
definition sqsh__data_superblock_version_major_set :: "byte list \<Rightarrow> nat \<Rightarrow> byte list" where
  "sqsh__data_superblock_version_major_set s value = put_le 2 28 value s"
definition sqsh__data_superblock_version_minor_set :: "byte list \<Rightarrow> nat \<Rightarrow> byte list" where
  "sqsh__data_superblock_version_minor_set s value = put_le 2 30 value s"
definition sqsh__data_superblock_root_inode_ref_set :: "byte list \<Rightarrow> nat \<Rightarrow> byte list" where
  "sqsh__data_superblock_root_inode_ref_set s value = put_le 8 32 value s"
definition sqsh__data_superblock_bytes_used_set :: "byte list \<Rightarrow> nat \<Rightarrow> byte list" where
  "sqsh__data_superblock_bytes_used_set s value = put_le 8 40 value s"
definition sqsh__data_superblock_id_table_start_set :: "byte list \<Rightarrow> nat \<Rightarrow> byte list" where
  "sqsh__data_superblock_id_table_start_set s value = put_le 8 48 value s"
definition sqsh__data_superblock_xattr_id_table_start_set :: "byte list \<Rightarrow> nat \<Rightarrow> byte list" where
  "sqsh__data_superblock_xattr_id_table_start_set s value = put_le 8 56 value s"
definition sqsh__data_superblock_inode_table_start_set :: "byte list \<Rightarrow> nat \<Rightarrow> byte list" where
  "sqsh__data_superblock_inode_table_start_set s value = put_le 8 64 value s"
definition sqsh__data_superblock_directory_table_start_set :: "byte list \<Rightarrow> nat \<Rightarrow> byte list" where
  "sqsh__data_superblock_directory_table_start_set s value = put_le 8 72 value s"
definition sqsh__data_superblock_fragment_table_start_set :: "byte list \<Rightarrow> nat \<Rightarrow> byte list" where
  "sqsh__data_superblock_fragment_table_start_set s value = put_le 8 80 value s"
definition sqsh__data_superblock_export_table_start_set :: "byte list \<Rightarrow> nat \<Rightarrow> byte list" where
  "sqsh__data_superblock_export_table_start_set s value = put_le 8 88 value s"

lemmas superblock_set_defs =
  sqsh__data_superblock_magic_set_def
  sqsh__data_superblock_inode_count_set_def
  sqsh__data_superblock_modification_time_set_def
  sqsh__data_superblock_block_size_set_def
  sqsh__data_superblock_fragment_entry_count_set_def
  sqsh__data_superblock_compression_id_set_def
  sqsh__data_superblock_block_log_set_def
  sqsh__data_superblock_flags_set_def
  sqsh__data_superblock_id_count_set_def
  sqsh__data_superblock_version_major_set_def
  sqsh__data_superblock_version_minor_set_def
  sqsh__data_superblock_root_inode_ref_set_def
  sqsh__data_superblock_bytes_used_set_def
  sqsh__data_superblock_id_table_start_set_def
  sqsh__data_superblock_xattr_id_table_start_set_def
  sqsh__data_superblock_inode_table_start_set_def
  sqsh__data_superblock_directory_table_start_set_def
  sqsh__data_superblock_fragment_table_start_set_def
  sqsh__data_superblock_export_table_start_set_def

section \<open>Inode accessors\<close>

definition sqsh__data_inode_type :: "byte list \<Rightarrow> nat" where
  "sqsh__data_inode_type s = get_le 2 0 s"
definition sqsh__data_inode_permissions :: "byte list \<Rightarrow> nat" where
  "sqsh__data_inode_permissions s = get_le 2 2 s"
definition sqsh__data_inode_uid_idx :: "byte list \<Rightarrow> nat" where
  "sqsh__data_inode_uid_idx s = get_le 2 4 s"
definition sqsh__data_inode_gid_idx :: "byte list \<Rightarrow> nat" where
  "sqsh__data_inode_gid_idx s = get_le 2 6 s"
definition sqsh__data_inode_modified_time :: "byte list \<Rightarrow> nat" where
  "sqsh__data_inode_modified_time s = get_le 4 8 s"
definition sqsh__data_inode_number :: "byte list \<Rightarrow> nat" where
  "sqsh__data_inode_number s = get_le 4 12 s"
definition sqsh__data_inode_file_blocks_start :: "byte list \<Rightarrow> nat" where
  "sqsh__data_inode_file_blocks_start s = get_le 4 0 s"
definition sqsh__data_inode_file_fragment_block_index :: "byte list \<Rightarrow> nat" where
  "sqsh__data_inode_file_fragment_block_index s = get_le 4 4 s"
definition sqsh__data_inode_file_block_offset :: "byte list \<Rightarrow> nat" where
  "sqsh__data_inode_file_block_offset s = get_le 4 8 s"
definition sqsh__data_inode_file_size :: "byte list \<Rightarrow> nat" where
  "sqsh__data_inode_file_size s = get_le 4 12 s"
definition sqsh__data_inode_file_block_size_info :: "byte list \<Rightarrow> nat \<Rightarrow> nat" where
  "sqsh__data_inode_file_block_size_info s index = get_le 4 (sizeof_SqshDataInodeFile + 4 * index) s"
definition sqsh__data_inode_file_ext_blocks_start :: "byte list \<Rightarrow> nat" where
  "sqsh__data_inode_file_ext_blocks_start s = get_le 8 0 s"
definition sqsh__data_inode_file_ext_size :: "byte list \<Rightarrow> nat" where
  "sqsh__data_inode_file_ext_size s = get_le 8 8 s"
definition sqsh__data_inode_file_ext_sparse :: "byte list \<Rightarrow> nat" where
  "sqsh__data_inode_file_ext_sparse s = get_le 8 16 s"
definition sqsh__data_inode_file_ext_hard_link_count :: "byte list \<Rightarrow> nat" where
  "sqsh__data_inode_file_ext_hard_link_count s = get_le 4 24 s"
definition sqsh__data_inode_file_ext_fragment_block_index :: "byte list \<Rightarrow> nat" where
  "sqsh__data_inode_file_ext_fragment_block_index s = get_le 4 28 s"
definition sqsh__data_inode_file_ext_block_offset :: "byte list \<Rightarrow> nat" where
  "sqsh__data_inode_file_ext_block_offset s = get_le 4 32 s"
definition sqsh__data_inode_file_ext_xattr_idx :: "byte list \<Rightarrow> nat" where
  "sqsh__data_inode_file_ext_xattr_idx s = get_le 4 36 s"
definition sqsh__data_inode_file_ext_block_size_info :: "byte list \<Rightarrow> nat \<Rightarrow> nat" where
  "sqsh__data_inode_file_ext_block_size_info s index = get_le 4 (sizeof_SqshDataInodeFileExt + 4 * index) s"
definition sqsh__data_inode_directory :: "byte list \<Rightarrow> byte list" where
  "sqsh__data_inode_directory s = drop sizeof_SqshDataInodeHeader s"
definition sqsh__data_inode_directory_ext :: "byte list \<Rightarrow> byte list" where
  "sqsh__data_inode_directory_ext s = drop sizeof_SqshDataInodeHeader s"
definition sqsh__data_inode_file :: "byte list \<Rightarrow> byte list" where
  "sqsh__data_inode_file s = drop sizeof_SqshDataInodeHeader s"
definition sqsh__data_inode_file_ext :: "byte list \<Rightarrow> byte list" where
  "sqsh__data_inode_file_ext s = drop sizeof_SqshDataInodeHeader s"
definition sqsh__data_inode_symlink :: "byte list \<Rightarrow> byte list" where
  "sqsh__data_inode_symlink s = drop sizeof_SqshDataInodeHeader s"
definition sqsh__data_inode_symlink_ext :: "byte list \<Rightarrow> byte list" where
  "sqsh__data_inode_symlink_ext s = drop sizeof_SqshDataInodeHeader s"
definition sqsh__data_inode_device :: "byte list \<Rightarrow> byte list" where
  "sqsh__data_inode_device s = drop sizeof_SqshDataInodeHeader s"
definition sqsh__data_inode_device_ext :: "byte list \<Rightarrow> byte list" where
  "sqsh__data_inode_device_ext s = drop sizeof_SqshDataInodeHeader s"
definition sqsh__data_inode_ipc :: "byte list \<Rightarrow> byte list" where
  "sqsh__data_inode_ipc s = drop sizeof_SqshDataInodeHeader s"
definition sqsh__data_inode_ipc_ext :: "byte list \<Rightarrow> byte list" where
  "sqsh__data_inode_ipc_ext s = drop sizeof_SqshDataInodeHeader s"
definition sqsh__data_inode_directory_block_start :: "byte list \<Rightarrow> nat" where
  "sqsh__data_inode_directory_block_start s = get_le 4 0 s"
definition sqsh__data_inode_directory_hard_link_count :: "byte list \<Rightarrow> nat" where
  "sqsh__data_inode_directory_hard_link_count s = get_le 4 4 s"
definition sqsh__data_inode_directory_file_size :: "byte list \<Rightarrow> nat" where
  "sqsh__data_inode_directory_file_size s = get_le 2 8 s"
definition sqsh__data_inode_directory_block_offset :: "byte list \<Rightarrow> nat" where
  "sqsh__data_inode_directory_block_offset s = get_le 2 10 s"
definition sqsh__data_inode_directory_parent_inode_number :: "byte list \<Rightarrow> nat" where
  "sqsh__data_inode_directory_parent_inode_number s = get_le 4 12 s"
definition sqsh__data_inode_directory_ext_hard_link_count :: "byte list \<Rightarrow> nat" where
  "sqsh__data_inode_directory_ext_hard_link_count s = get_le 4 0 s"
definition sqsh__data_inode_directory_ext_file_size :: "byte list \<Rightarrow> nat" where
  "sqsh__data_inode_directory_ext_file_size s = get_le 4 4 s"
definition sqsh__data_inode_directory_ext_block_start :: "byte list \<Rightarrow> nat" where
  "sqsh__data_inode_directory_ext_block_start s = get_le 4 8 s"
definition sqsh__data_inode_directory_ext_parent_inode_number :: "byte list \<Rightarrow> nat" where
  "sqsh__data_inode_directory_ext_parent_inode_number s = get_le 4 12 s"
definition sqsh__data_inode_directory_ext_index_count :: "byte list \<Rightarrow> nat" where
  "sqsh__data_inode_directory_ext_index_count s = get_le 2 16 s"
definition sqsh__data_inode_directory_ext_block_offset :: "byte list \<Rightarrow> nat" where
  "sqsh__data_inode_directory_ext_block_offset s = get_le 2 18 s"
definition sqsh__data_inode_directory_ext_xattr_idx :: "byte list \<Rightarrow> nat" where
  "sqsh__data_inode_directory_ext_xattr_idx s = get_le 4 20 s"
definition sqsh__data_inode_directory_ext_index :: "byte list \<Rightarrow> byte list" where
  "sqsh__data_inode_directory_ext_index s = drop sizeof_SqshDataInodeDirectoryExt s"
definition sqsh__data_inode_directory_index_index :: "byte list \<Rightarrow> nat" where
  "sqsh__data_inode_directory_index_index s = get_le 4 0 s"
definition sqsh__data_inode_directory_index_start :: "byte list \<Rightarrow> nat" where
  "sqsh__data_inode_directory_index_start s = get_le 4 4 s"
definition sqsh__data_inode_directory_index_name_size :: "byte list \<Rightarrow> nat" where
  "sqsh__data_inode_directory_index_name_size s = get_le 4 8 s"
definition sqsh__data_inode_directory_index_name :: "byte list \<Rightarrow> byte list" where
  "sqsh__data_inode_directory_index_name s = drop sizeof_SqshDataInodeDirectoryIndex s"
definition sqsh__data_inode_symlink_hard_link_count :: "byte list \<Rightarrow> nat" where
  "sqsh__data_inode_symlink_hard_link_count s = get_le 4 0 s"
definition sqsh__data_inode_symlink_target_size :: "byte list \<Rightarrow> nat" where
  "sqsh__data_inode_symlink_target_size s = get_le 4 4 s"
definition sqsh__data_inode_symlink_target_path :: "byte list \<Rightarrow> byte list" where
  "sqsh__data_inode_symlink_target_path s = drop sizeof_SqshDataInodeSymlink s"
definition sqsh__data_inode_symlink_ext_hard_link_count :: "byte list \<Rightarrow> nat" where
  "sqsh__data_inode_symlink_ext_hard_link_count s = get_le 4 0 s"
definition sqsh__data_inode_symlink_ext_target_size :: "byte list \<Rightarrow> nat" where
  "sqsh__data_inode_symlink_ext_target_size s = get_le 4 4 s"
definition sqsh__data_inode_symlink_ext_target_path :: "byte list \<Rightarrow> byte list" where
  "sqsh__data_inode_symlink_ext_target_path s = drop sizeof_SqshDataInodeSymlinkExt s"
definition sqsh__data_inode_device_hard_link_count :: "byte list \<Rightarrow> nat" where
  "sqsh__data_inode_device_hard_link_count s = get_le 4 0 s"
definition sqsh__data_inode_device_device :: "byte list \<Rightarrow> nat" where
  "sqsh__data_inode_device_device s = get_le 4 4 s"
definition sqsh__data_inode_device_ext_hard_link_count :: "byte list \<Rightarrow> nat" where
  "sqsh__data_inode_device_ext_hard_link_count s = get_le 4 0 s"
definition sqsh__data_inode_device_ext_device :: "byte list \<Rightarrow> nat" where
  "sqsh__data_inode_device_ext_device s = get_le 4 4 s"
definition sqsh__data_inode_device_ext_xattr_idx :: "byte list \<Rightarrow> nat" where
  "sqsh__data_inode_device_ext_xattr_idx s = get_le 4 8 s"
definition sqsh__data_inode_ipc_hard_link_count :: "byte list \<Rightarrow> nat" where
  "sqsh__data_inode_ipc_hard_link_count s = get_le 4 0 s"
definition sqsh__data_inode_ipc_ext_hard_link_count :: "byte list \<Rightarrow> nat" where
  "sqsh__data_inode_ipc_ext_hard_link_count s = get_le 4 0 s"
definition sqsh__data_inode_ipc_ext_xattr_idx :: "byte list \<Rightarrow> nat" where
  "sqsh__data_inode_ipc_ext_xattr_idx s = get_le 4 4 s"

text \<open>The xattr index of an extended symlink lies behind its target path.\<close>

definition sqsh__data_inode_symlink_ext_xattr_idx :: "byte list \<Rightarrow> nat" where
  "sqsh__data_inode_symlink_ext_xattr_idx s =
     (let target_size = sqsh__data_inode_symlink_ext_target_size s;
          target_path = sqsh__data_inode_symlink_ext_target_path s
      in get_le 4 target_size target_path)"

lemmas inode_get_defs =
  sqsh__data_inode_type_def
  sqsh__data_inode_permissions_def
  sqsh__data_inode_uid_idx_def
  sqsh__data_inode_gid_idx_def
  sqsh__data_inode_modified_time_def
  sqsh__data_inode_number_def
  sqsh__data_inode_file_blocks_start_def
  sqsh__data_inode_file_fragment_block_index_def
  sqsh__data_inode_file_block_offset_def
  sqsh__data_inode_file_size_def
  sqsh__data_inode_file_block_size_info_def
  sqsh__data_inode_file_ext_blocks_start_def
  sqsh__data_inode_file_ext_size_def
  sqsh__data_inode_file_ext_sparse_def
  sqsh__data_inode_file_ext_hard_link_count_def
  sqsh__data_inode_file_ext_fragment_block_index_def
  sqsh__data_inode_file_ext_block_offset_def
  sqsh__data_inode_file_ext_xattr_idx_def
  sqsh__data_inode_file_ext_block_size_info_def
  sqsh__data_inode_directory_def
  sqsh__data_inode_directory_ext_def
  sqsh__data_inode_file_def
  sqsh__data_inode_file_ext_def
  sqsh__data_inode_symlink_def
  sqsh__data_inode_symlink_ext_def
  sqsh__data_inode_device_def
  sqsh__data_inode_device_ext_def
  sqsh__data_inode_ipc_def
  sqsh__data_inode_ipc_ext_def
  sqsh__data_inode_directory_block_start_def
  sqsh__data_inode_directory_hard_link_count_def
  sqsh__data_inode_directory_file_size_def
  sqsh__data_inode_directory_block_offset_def
  sqsh__data_inode_directory_parent_inode_number_def
  sqsh__data_inode_directory_ext_hard_link_count_def
  sqsh__data_inode_directory_ext_file_size_def
  sqsh__data_inode_directory_ext_block_start_def
  sqsh__data_inode_directory_ext_parent_inode_number_def
  sqsh__data_inode_directory_ext_index_count_def
  sqsh__data_inode_directory_ext_block_offset_def
  sqsh__data_inode_directory_ext_xattr_idx_def
  sqsh__data_inode_directory_ext_index_def
  sqsh__data_inode_directory_index_index_def
  sqsh__data_inode_directory_index_start_def
  sqsh__data_inode_directory_index_name_size_def
  sqsh__data_inode_directory_index_name_def
  sqsh__data_inode_symlink_hard_link_count_def
  sqsh__data_inode_symlink_target_size_def
  sqsh__data_inode_symlink_target_path_def
  sqsh__data_inode_symlink_ext_hard_link_count_def
  sqsh__data_inode_symlink_ext_target_size_def
  sqsh__data_inode_symlink_ext_target_path_def
  sqsh__data_inode_device_hard_link_count_def
  sqsh__data_inode_device_device_def
  sqsh__data_inode_device_ext_hard_link_count_def
  sqsh__data_inode_device_ext_device_def
  sqsh__data_inode_device_ext_xattr_idx_def
  sqsh__data_inode_ipc_hard_link_count_def
  sqsh__data_inode_ipc_ext_hard_link_count_def
  sqsh__data_inode_ipc_ext_xattr_idx_def
  sqsh__data_inode_symlink_ext_xattr_idx_def

section \<open>Directory accessors\<close>

definition sqsh__data_directory_entry_offset :: "byte list \<Rightarrow> nat" where
  "sqsh__data_directory_entry_offset s = get_le 2 0 s"
definition sqsh__data_directory_entry_inode_offset :: "byte list \<Rightarrow> int" where
  "sqsh__data_directory_entry_inode_offset s = sint (word_of_nat (get_le 2 2 s) :: 16 word)"
definition sqsh__data_directory_entry_type :: "byte list \<Rightarrow> nat" where
  "sqsh__data_directory_entry_type s = get_le 2 4 s"
definition sqsh__data_directory_entry_name_size :: "byte list \<Rightarrow> nat" where
  "sqsh__data_directory_entry_name_size s = get_le 2 6 s"
definition sqsh__data_directory_entry_name :: "byte list \<Rightarrow> byte list" where
  "sqsh__data_directory_entry_name s = drop sizeof_SqshDataDirectoryEntry s"
definition sqsh__data_directory_fragment_count :: "byte list \<Rightarrow> nat" where
  "sqsh__data_directory_fragment_count s = get_le 4 0 s"
definition sqsh__data_directory_fragment_start :: "byte list \<Rightarrow> nat" where
  "sqsh__data_directory_fragment_start s = get_le 4 4 s"
definition sqsh__data_directory_fragment_inode_number :: "byte list \<Rightarrow> nat" where
  "sqsh__data_directory_fragment_inode_number s = get_le 4 8 s"

section \<open>Fragment accessors\<close>

definition sqsh__data_fragment_start :: "byte list \<Rightarrow> nat" where
  "sqsh__data_fragment_start s = get_le 8 0 s"
definition sqsh__data_fragment_size_info :: "byte list \<Rightarrow> nat" where
  "sqsh__data_fragment_size_info s = get_le 4 8 s"

section \<open>Extended attribute accessors\<close>

definition sqsh__data_xattr_key_type :: "byte list \<Rightarrow> nat" where
  "sqsh__data_xattr_key_type s = get_le 2 0 s"
definition sqsh__data_xattr_key_name_size :: "byte list \<Rightarrow> nat" where
  "sqsh__data_xattr_key_name_size s = get_le 2 2 s"
definition sqsh__data_xattr_key_name :: "byte list \<Rightarrow> byte list" where
  "sqsh__data_xattr_key_name s = drop sizeof_SqshDataXattrKey s"
definition sqsh__data_xattr_value_size :: "byte list \<Rightarrow> nat" where
  "sqsh__data_xattr_value_size s = get_le 4 0 s"
definition sqsh__data_xattr_value :: "byte list \<Rightarrow> byte list" where
  "sqsh__data_xattr_value s = drop sizeof_SqshDataXattrValue s"
definition sqsh__data_xattr_lookup_table_xattr_ref :: "byte list \<Rightarrow> nat" where
  "sqsh__data_xattr_lookup_table_xattr_ref s = get_le 8 0 s"
definition sqsh__data_xattr_lookup_table_count :: "byte list \<Rightarrow> nat" where
  "sqsh__data_xattr_lookup_table_count s = get_le 4 8 s"
definition sqsh__data_xattr_lookup_table_size :: "byte list \<Rightarrow> nat" where
  "sqsh__data_xattr_lookup_table_size s = get_le 4 12 s"
definition sqsh__data_xattr_id_table_xattr_table_start :: "byte list \<Rightarrow> nat" where
  "sqsh__data_xattr_id_table_xattr_table_start s = get_le 8 0 s"
definition sqsh__data_xattr_id_table_xattr_ids :: "byte list \<Rightarrow> nat" where
  "sqsh__data_xattr_id_table_xattr_ids s = get_le 4 8 s"
definition sqsh__data_xattr_value_ref :: "byte list \<Rightarrow> nat" where
  "sqsh__data_xattr_value_ref s = get_le 8 0 (sqsh__data_xattr_value s)"

section \<open>Compression option accessors\<close>

definition sqsh_compression_data_options_gzip_compression_level :: "byte list \<Rightarrow> nat" where
  "sqsh_compression_data_options_gzip_compression_level s = get_le 4 0 s"
definition sqsh_compression_data_options_gzip_window_size :: "byte list \<Rightarrow> nat" where
  "sqsh_compression_data_options_gzip_window_size s = get_le 2 4 s"
definition sqsh_compression_data_options_gzip_strategies :: "byte list \<Rightarrow> nat" where
  "sqsh_compression_data_options_gzip_strategies s = get_le 2 6 s"
definition sqsh_compression_data_options_xz_dictionary_size :: "byte list \<Rightarrow> nat" where
  "sqsh_compression_data_options_xz_dictionary_size s = get_le 4 0 s"
definition sqsh_compression_data_options_xz_filters :: "byte list \<Rightarrow> nat" where
  "sqsh_compression_data_options_xz_filters s = get_le 4 4 s"
definition sqsh_compression_data_options_lz4_version :: "byte list \<Rightarrow> nat" where
  "sqsh_compression_data_options_lz4_version s = get_le 4 0 s"
definition sqsh_compression_data_options_lz4_flags :: "byte list \<Rightarrow> nat" where
  "sqsh_compression_data_options_lz4_flags s = get_le 4 4 s"
definition sqsh_compression_data_options_zstd_compression_level :: "byte list \<Rightarrow> nat" where
  "sqsh_compression_data_options_zstd_compression_level s = get_le 4 0 s"
definition sqsh_compression_data_options_lzo_algorithm :: "byte list \<Rightarrow> nat" where
  "sqsh_compression_data_options_lzo_algorithm s = get_le 4 0 s"
definition sqsh_compression_data_options_lzo_compression_level :: "byte list \<Rightarrow> nat" where
  "sqsh_compression_data_options_lzo_compression_level s = get_le 4 4 s"

section \<open>Metablock header\<close>

text \<open>
  The 16-bit header of a metablock: bit 15 set means the block is stored uncompressed, the
  other bits are the size of the stored block.
\<close>

definition sqsh__data_metablock_is_compressed :: "byte list \<Rightarrow> bool" where
  "sqsh__data_metablock_is_compressed m \<longleftrightarrow> get_le 2 0 m AND 0x8000 = 0"

definition sqsh__data_metablock_size :: "byte list \<Rightarrow> nat" where
  "sqsh__data_metablock_size m = get_le 2 0 m AND 0x7FFF"

definition sqsh__data_metablock_is_compressed_set :: "byte list \<Rightarrow> bool \<Rightarrow> byte list" where
  "sqsh__data_metablock_is_compressed_set m value =
     (if value then put_le 2 0 (get_le 2 0 m AND 0x7FFF) m
      else put_le 2 0 (get_le 2 0 m OR 0x8000) m)"

text \<open>The size is cleared first, then the low 15 bits of the new value are set.\<close>

definition sqsh__data_metablock_size_set :: "byte list \<Rightarrow> nat \<Rightarrow> byte list" where
  "sqsh__data_metablock_size_set m value =
     (let cleared = put_le 2 0 (get_le 2 0 m AND 0x8000) m
      in put_le 2 0 (get_le 2 0 cleared OR (value AND 0x7FFF)) cleared)"

section \<open>Header bits\<close>

lemma mask_7FFF: "bit (0x7FFF :: nat) n \<longleftrightarrow> n < 15"
proof -
  have "(0x7FFF :: nat) = mask 15" by (simp add: mask_eq_exp_minus_1)
  then show ?thesis by (simp only: bit_mask_iff) simp
qed

lemma mask_8000: "bit (0x8000 :: nat) n \<longleftrightarrow> n = 15"
proof -
  have e: "(0x8000 :: nat) = push_bit 15 1" by (simp add: push_bit_eq_mult)
  show ?thesis unfolding e bit_push_bit_iff bit_1_iff by auto
qed

lemmas header_bits = bit_and_iff bit_or_iff mask_7FFF mask_8000

lemma header_bits_eqI:
  "(\<And>n. bit a n \<longleftrightarrow> bit (b::nat) n) \<Longrightarrow> a = b"
  by (rule bit_eqI)

lemma header_or_and:
  fixes h v :: nat
  shows "(h OR (v AND 0x7FFF)) AND 0x7FFF = (h AND 0x7FFF) OR (v AND 0x7FFF)"
    and "(h AND 0x8000) AND 0x7FFF = 0"
    and "(h OR 0x8000) AND 0x7FFF = h AND 0x7FFF"
    and "(h AND 0x7FFF) AND 0x7FFF = h AND 0x7FFF"
    and "(h AND 0x7FFF) AND 0x8000 = 0"
    and "(h OR 0x8000) AND 0x8000 = 0x8000"
    and "(h OR (v AND 0x7FFF)) AND 0x8000 = h AND 0x8000"
    and "(h AND 0x8000) AND 0x8000 = h AND 0x8000"
  by (rule header_bits_eqI, force simp only: header_bits bit_0_eq bot_apply bot_bool_def)+

lemma and_7FFF: "(h::nat) AND 0x7FFF = h mod 0x8000"
  using and_low_mask [of h 15] by simp

lemma header_half: "(h::nat) AND 0x8000 = 0 \<or> h AND 0x8000 = 0x8000"
  using and_single_bit [OF mask_8000, of h] by auto

lemma or_less_exp: "a < 2 ^ n \<Longrightarrow> b < 2 ^ n \<Longrightarrow> a OR b < (2 ^ n :: nat)"
  by (metis take_bit_nat_eq_self take_bit_nat_less_exp take_bit_or)

lemma or_8000_bound: "h < 65536 \<Longrightarrow> h OR 0x8000 < (65536 :: nat)"
  using or_less_exp [of h 16 "0x8000"] by simp

lemma and_7FFF_bound [simp]: "(h::nat) AND 0x7FFF < 65536"
  unfolding and_7FFF by (rule less_trans [of _ "0x8000"]) simp_all

lemma and_8000_bound [simp]: "(h::nat) AND 0x8000 < 65536"
  using header_half [of h] by auto

lemma or_and_bound [simp]: "(h AND 0x8000) OR (v AND 0x7FFF) < (65536 :: nat)"
  using or_less_exp [of "h AND 0x8000" 16 "v AND 0x7FFF"] by simp

lemma header16: "get_le 2 0 m < 65536"
  using get_le_bound [of 2 0 m] by simp

lemma put_header [simp]:
  assumes "2 \<le> length m" "v < 65536"
  shows "get_le 2 0 (put_le 2 0 v m) = v" and "2 \<le> length (put_le 2 0 v m)"
  using assms get_le_put_le_same [of 0 2 m v] by simp_all

lemma size_set_header:
  assumes "2 \<le> length m"
  shows "get_le 2 0 (sqsh__data_metablock_size_set m v) = (get_le 2 0 m AND 0x8000) OR (v AND 0x7FFF)"
    and "length (sqsh__data_metablock_size_set m v) = length m"
  using assms by (simp_all add: sqsh__data_metablock_size_set_def Let_def)

lemma compressed_set_header:
  assumes "2 \<le> length m"
  shows "get_le 2 0 (sqsh__data_metablock_is_compressed_set m c) =
      (if c then get_le 2 0 m AND 0x7FFF else get_le 2 0 m OR 0x8000)"
    and "length (sqsh__data_metablock_is_compressed_set m c) = length m"
  using assms by (simp_all add: sqsh__data_metablock_is_compressed_set_def or_8000_bound header16)

lemma header_body:
  assumes "2 \<le> length m"
  shows "drop 2 (sqsh__data_metablock_size_set m v) = drop 2 m"
    and "drop 2 (sqsh__data_metablock_is_compressed_set m c) = drop 2 m"
  using assms
  by (simp_all add: sqsh__data_metablock_size_set_def sqsh__data_metablock_is_compressed_set_def
      Let_def put_le_def numeral_2_eq_2)

text \<open>
  C28. The metablock header is a faithful encoding: after a header has been written with the two
  setters, in either order, the reader's accessors give back exactly the 15-bit size and the
  compression flag that were written, and the bytes behind the header are not touched.
\<close>

theorem metablock_header_roundtrip:
  assumes "2 \<le> length m" and "v < 2 ^ 15"
    and "m' = sqsh__data_metablock_is_compressed_set (sqsh__data_metablock_size_set m v) c \<or>
         m' = sqsh__data_metablock_size_set (sqsh__data_metablock_is_compressed_set m c) v"
  shows "sqsh__data_metablock_size m' = v \<and> sqsh__data_metablock_is_compressed m' = c \<and>
         drop 2 m' = drop 2 m"
proof -
  have "get_le 2 0 m' AND 0x7FFF = v AND 0x7FFF"
    using assms(1,3) by (auto simp: size_set_header compressed_set_header header_or_and)
  then have "get_le 2 0 m' AND 0x7FFF = v" using assms(2) by (simp add: and_7FFF)
  moreover have "get_le 2 0 m' AND 0x8000 = (if c then 0 else 0x8000)"
    using assms(1,3) by (auto simp: size_set_header compressed_set_header header_or_and)
  moreover have "drop 2 m' = drop 2 m"
    using assms(1,3) by (auto simp only: header_body size_set_header compressed_set_header)
  ultimately show ?thesis
    by (simp only: sqsh__data_metablock_size_def sqsh__data_metablock_is_compressed_def) simp
qed

theorem metablock_header_roundtrip_witness:
  "sqsh__data_metablock_size
     (sqsh__data_metablock_is_compressed_set (sqsh__data_metablock_size_set [1, 2, 3] 300) False)
   = 300"
  using metablock_header_roundtrip [of "[1, 2, 3]" 300 _ False] by simp


end
