(* ===== verification/Sqsh_Reader.thy ===== *)
theory Sqsh_Reader
  imports Sqsh_Prelude
begin

text \<open>
  The generic reader of \<^verbatim>\<open>common/src/reader/reader.c\<close>: it presents any window of a byte stream
  that an iterator delivers in chunks. A window inside one chunk is mapped (the data pointer
  points into the iterator's memory); a window that crosses chunks is copied to a buffer.

  \<^verbatim>\<open>CxBuffer\<close> belongs to the cextras submodule and is a parameter of the model: a record of its
  operations, whose documented behaviour is the predicate \<open>cx_buffer_ok\<close>. The iterator is
  reached through the function table \<^verbatim>\<open>struct SqshReaderIteratorImpl\<close>; what the reader relies on is
  the locale \<open>chunk_source\<close> (data and next) and its extension \<open>chunk_iterator\<close> (skip).
  The iterators of the library interpret the locales in their own theories.
\<close>

section \<open>Parameters: the buffer and the iterator interface\<close>

record 'b cx_buffer_ops =
  cb_init :: "rv \<times> 'b"
  cb_append :: "'b \<Rightarrow> byte list \<Rightarrow> rv \<times> 'b"
  cb_move :: "'b \<Rightarrow> 'b \<Rightarrow> rv \<times> 'b"
  cb_drain :: "'b \<Rightarrow> 'b"
  cb_data :: "'b \<Rightarrow> byte list"
  cb_add_capacity :: "'b \<Rightarrow> nat \<Rightarrow> rv \<times> 'b"
  cb_add_size :: "'b \<Rightarrow> byte list \<Rightarrow> rv \<times> 'b"

text \<open>
  Documented behaviour of the buffer: a fresh buffer is empty, appending adds the bytes at the
  end, moving transfers the contents, draining empties; an operation may fail with an error
  code (out of memory). Adding capacity reserves memory behind the contents and does not change
  them; adding size makes the bytes that were stored there (the second argument) part of them.
\<close>

definition cx_buffer_ok :: "'b cx_buffer_ops \<Rightarrow> bool" where
  "cx_buffer_ok bo \<longleftrightarrow>
     safe_rv (fst (cb_init bo)) \<and> (fst (cb_init bo) = Ok \<longrightarrow> cb_data bo (snd (cb_init bo)) = []) \<and>
     (\<forall>b xs. safe_rv (fst (cb_append bo b xs)) \<and>
        (fst (cb_append bo b xs) = Ok \<longrightarrow>
          cb_data bo (snd (cb_append bo b xs)) = cb_data bo b @ xs)) \<and>
     (\<forall>t s. safe_rv (fst (cb_move bo t s)) \<and>
        (fst (cb_move bo t s) = Ok \<longrightarrow> cb_data bo (snd (cb_move bo t s)) = cb_data bo s)) \<and>
     (\<forall>b. cb_data bo (cb_drain bo b) = []) \<and>
     (\<forall>b n. safe_rv (fst (cb_add_capacity bo b n)) \<and>
        (fst (cb_add_capacity bo b n) = Ok \<longrightarrow>
          cb_data bo (snd (cb_add_capacity bo b n)) = cb_data bo b)) \<and>
     (\<forall>b xs. safe_rv (fst (cb_add_size bo b xs)) \<and>
        (fst (cb_add_size bo b xs) = Ok \<longrightarrow>
          cb_data bo (snd (cb_add_size bo b xs)) = cb_data bo b @ xs))"

definition cx_buffer_size :: "'b cx_buffer_ops \<Rightarrow> 'b \<Rightarrow> nat" where
  "cx_buffer_size bo b = length (cb_data bo b)"

text \<open>
  The function table of an iterator. \<^verbatim>\<open>next\<close> returns whether there is a chunk, the error code
  it stores and the advanced iterator; \<^verbatim>\<open>skip\<close> takes an offset from the start of the current
  chunk and returns the offset within the chunk it ends in. \<open>ri_fuel\<close> is not in the source:
  it bounds the number of chunks that are still to come, and with it the number of rounds of the
  reader's copy loop.
\<close>

record 'it reader_iterator_impl =
  ri_next :: "'it \<Rightarrow> nat \<Rightarrow> bool \<times> rv \<times> 'it"
  ri_skip :: "'it \<Rightarrow> nat \<Rightarrow> nat \<Rightarrow> rv \<times> nat \<times> 'it"
  ri_data :: "'it \<Rightarrow> byte list"
  ri_size :: "'it \<Rightarrow> nat"
  ri_fuel :: "'it \<Rightarrow> nat"

section \<open>The reader\<close>

text \<open>The data pointer: null, into the buffer, or into the iterator's current chunk.\<close>

datatype rdata = RNull | RBuf nat | RIter nat

record ('it, 'b) reader =
  rd_iterator :: 'it
  rd_iterator_offset :: nat
  rd_offset :: nat
  rd_buffer :: 'b
  rd_data :: rdata
  rd_size :: nat
  rd_iterator_size :: nat

definition reader_iterator_next ::
  "'it reader_iterator_impl \<Rightarrow> ('it, 'b) reader \<Rightarrow> nat \<Rightarrow> rv \<times> ('it, 'b) reader" where
  "reader_iterator_next impl r desired_size =
     (case ri_next impl (rd_iterator r) desired_size of (has_next, rv, it) \<Rightarrow>
        (if \<not> has_next \<and> rv = Ok then Err SQSH_ERROR_OUT_OF_BOUNDS else rv,
         r\<lparr>rd_iterator := it, rd_iterator_size := ri_size impl it\<rparr>))"

definition sqsh__reader_init ::
  "'b cx_buffer_ops \<Rightarrow> 'it \<Rightarrow> ('it, 'b) reader \<Rightarrow> rv \<times> ('it, 'b) reader" where
  "sqsh__reader_init bo it r =
     (case cb_init bo of (rv, b) \<Rightarrow>
        (rv, r\<lparr>rd_data := RNull, rd_size := 0, rd_offset := 0, rd_iterator_offset := 0,
              rd_iterator := it, rd_iterator_size := 0, rd_buffer := b\<rparr>))"

text \<open>
  The copy. \<open>fill_loop\<close> is the \<^verbatim>\<open>for (;;)\<close> of \<^verbatim>\<open>reader_fill_buffer\<close>; a copy of bytes outside the
  current chunk is a \<open>Fault\<close>, and so is a failed \<^verbatim>\<open>assert\<close>.
\<close>

fun fill_loop ::
  "nat \<Rightarrow> 'it reader_iterator_impl \<Rightarrow> 'b cx_buffer_ops \<Rightarrow> ('it, 'b) reader \<Rightarrow>
   nat \<Rightarrow> nat \<Rightarrow> nat \<Rightarrow> nat \<Rightarrow> rv \<times> ('it, 'b) reader \<times> nat" where
  "fill_loop 0 impl bo r sz offset iterator_offset remaining_size =
     (Diverge, r, iterator_offset)"
| "fill_loop (Suc fuel) impl bo r sz offset iterator_offset remaining_size =
     (let data = ri_data impl (rd_iterator r);
          data_size = ri_size impl (rd_iterator r);
          copy_size = min (wrap_sub data_size offset) remaining_size
      in if length data < offset + copy_size then (Fault, r, iterator_offset)
         else case cb_append bo (rd_buffer r) (window offset copy_size data) of (rv, b) \<Rightarrow>
           (let r = r\<lparr>rd_buffer := b\<rparr>;
                remaining_size = wrap_sub remaining_size copy_size
            in if rv \<noteq> Ok then (rv, r, iterator_offset)
               else if remaining_size = 0 then (Ok, r, iterator_offset)
               else let iterator_offset = wrap_sub sz remaining_size
                    in case reader_iterator_next impl r remaining_size of (rv, r) \<Rightarrow>
                         if rv \<noteq> Ok then (rv, r, iterator_offset)
                         else fill_loop fuel impl bo r sz 0 iterator_offset remaining_size))"

definition reader_fill_buffer ::
  "'it reader_iterator_impl \<Rightarrow> 'b cx_buffer_ops \<Rightarrow> ('it, 'b) reader \<Rightarrow> nat \<Rightarrow>
   rv \<times> ('it, 'b) reader" where
  "reader_fill_buffer impl bo r sz =
     (case fill_loop (Suc (ri_fuel impl (rd_iterator r))) impl bo r sz
             (rd_offset r) (rd_iterator_offset r)
             (wrap_sub sz (cx_buffer_size bo (rd_buffer r))) of
        (rv, r, iterator_offset) \<Rightarrow>
          if rv \<noteq> Ok then (rv, r)
          else if sz \<noteq> cx_buffer_size bo (rd_buffer r) \<or> iterator_offset = 0 then (Fault, r)
          else (Ok, r\<lparr>rd_iterator_offset := iterator_offset, rd_offset := 0,
                     rd_data := RBuf 0, rd_size := sz\<rparr>))"

definition buffer_drop_front ::
  "'b cx_buffer_ops \<Rightarrow> ('it, 'b) reader \<Rightarrow> nat \<Rightarrow> rv \<times> ('it, 'b) reader" where
  "buffer_drop_front bo r offset =
     (let buffer_data = cb_data bo (rd_buffer r);
          copy_size = wrap_sub (cx_buffer_size bo (rd_buffer r)) offset
      in case cb_init bo of (rv, new_buffer) \<Rightarrow>
           if rv \<noteq> Ok then (rv, r)
           else if length buffer_data < offset + copy_size then (Fault, r)
           else case cb_append bo new_buffer (window offset copy_size buffer_data) of
             (rv, new_buffer) \<Rightarrow>
               if rv \<noteq> Ok then (rv, r)
               else case cb_move bo (rd_buffer r) new_buffer of (rv, b) \<Rightarrow>
                 (rv, r\<lparr>rd_buffer := b\<rparr>))"

definition handle_buffered ::
  "'it reader_iterator_impl \<Rightarrow> 'b cx_buffer_ops \<Rightarrow> ('it, 'b) reader \<Rightarrow> nat \<Rightarrow> nat \<Rightarrow>
   rv \<times> ('it, 'b) reader" where
  "handle_buffered impl bo r offset sz =
     (let iterator_offset = rd_iterator_offset r;
          buffer_size = cx_buffer_size bo (rd_buffer r)
      in andthen (if offset \<noteq> 0 then buffer_drop_front bo r offset else (Ok, r))
           (\<lambda>r. reader_fill_buffer impl bo
                  (r\<lparr>rd_offset := wrap_sub buffer_size iterator_offset\<rparr>) sz))"

definition handle_mapped ::
  "'it reader_iterator_impl \<Rightarrow> 'b cx_buffer_ops \<Rightarrow> ('it, 'b) reader \<Rightarrow> nat \<Rightarrow> nat \<Rightarrow>
   rv \<times> ('it, 'b) reader" where
  "handle_mapped impl bo r offset sz =
     (case add_overflow 64 offset (rd_offset r) of
        None \<Rightarrow> (Err SQSH_ERROR_INTEGER_OVERFLOW, r)
      | Some offset \<Rightarrow>
          (case ri_skip impl (rd_iterator r) offset sz of (rv, offset, it) \<Rightarrow>
             (let r = r\<lparr>rd_iterator := it\<rparr>
              in if rv \<noteq> Ok then (rv, r)
                 else let r = r\<lparr>rd_iterator_size := ri_size impl it, rd_offset := offset\<rparr>
                      in case add_overflow 64 offset sz of
                           None \<Rightarrow> (Err SQSH_ERROR_INTEGER_OVERFLOW, r)
                         | Some end_offset \<Rightarrow>
                             if end_offset \<le> rd_iterator_size r
                             then (Ok, r\<lparr>rd_data := RIter offset, rd_size := sz\<rparr>)
                             else reader_fill_buffer impl bo
                                    (r\<lparr>rd_buffer := cb_drain bo (rd_buffer r)\<rparr>) sz)))"

definition sqsh__reader_advance ::
  "'it reader_iterator_impl \<Rightarrow> 'b cx_buffer_ops \<Rightarrow> ('it, 'b) reader \<Rightarrow> nat \<Rightarrow> nat \<Rightarrow>
   rv \<times> ('it, 'b) reader" where
  "sqsh__reader_advance impl bo r offset sz =
     (if rd_iterator_offset r \<le> offset
      then handle_mapped impl bo (r\<lparr>rd_iterator_offset := 0\<rparr>) (offset - rd_iterator_offset r) sz
      else handle_buffered impl bo r offset sz)"

text \<open>The bytes a caller may read through the data pointer.\<close>

definition sqsh__reader_data ::
  "'it reader_iterator_impl \<Rightarrow> 'b cx_buffer_ops \<Rightarrow> ('it, 'b) reader \<Rightarrow> byte list" where
  "sqsh__reader_data impl bo r =
     (case rd_data r of
        RNull \<Rightarrow> []
      | RBuf off \<Rightarrow> window off (rd_size r) (cb_data bo (rd_buffer r))
      | RIter off \<Rightarrow> window off (rd_size r) (ri_data impl (rd_iterator r)))"

definition sqsh__reader_size :: "('it, 'b) reader \<Rightarrow> nat" where
  "sqsh__reader_size r = rd_size r"

text \<open>
  Copying a reader. The function table of a reader that was never initialised is null (\<open>None\<close>).
  The pointer comparisons of the source decide which memory the data pointer is in; buffer and
  chunk are disjoint objects.
\<close>

definition sqsh__reader_copy ::
  "'it reader_iterator_impl option \<Rightarrow> 'b cx_buffer_ops \<Rightarrow> ('it, 'b) reader \<Rightarrow>
   ('it, 'b) reader \<Rightarrow> 'it \<Rightarrow> rv \<times> ('it, 'b) reader" where
  "sqsh__reader_copy impl_opt bo target source copied_iterator =
     (case impl_opt of
        None \<Rightarrow> (Ok, target)
      | Some impl \<Rightarrow>
          (let target = target\<lparr>rd_iterator := copied_iterator,
                 rd_iterator_offset := rd_iterator_offset source, rd_offset := rd_offset source\<rparr>;
               buffer_size = cx_buffer_size bo (rd_buffer source)
           in case cb_init bo of (rv, b) \<Rightarrow>
                if rv \<noteq> Ok then (rv, target\<lparr>rd_buffer := b\<rparr>)
                else case (if 0 < buffer_size then cb_append bo b (cb_data bo (rd_buffer source))
                           else (Ok, b)) of (rv, b) \<Rightarrow>
                  (let target = target\<lparr>rd_buffer := b\<rparr>
                   in if rv \<noteq> Ok then (rv, target)
                      else case rd_data source of
                        RNull \<Rightarrow> (Ok, target\<lparr>rd_data := RNull, rd_size := rd_size source\<rparr>)
                      | RBuf off \<Rightarrow>
                          if off < buffer_size
                          then (Ok, target\<lparr>rd_data := RBuf off, rd_size := rd_size source\<rparr>)
                          else (Err SQSH_ERROR_INTERNAL, target)
                      | RIter off \<Rightarrow>
                          if off < ri_size impl copied_iterator
                          then (Ok, target\<lparr>rd_data := RIter off, rd_size := rd_size source\<rparr>)
                          else (Err SQSH_ERROR_INTERNAL, target))))"

section \<open>The interface of an iterator\<close>

text \<open>
  What a client of an iterator relies on. \<open>stream it\<close> is everything the iterator delivers, from
  its beginning to its end; \<open>start it\<close> is the position of the current chunk in it. \<open>next\<close> moves
  to the chunk behind the current one.
\<close>

locale chunk_source =
  fixes impl :: "'it reader_iterator_impl"
    and ok :: "'it \<Rightarrow> bool"
    and stream :: "'it \<Rightarrow> byte list"
    and start :: "'it \<Rightarrow> nat"
  assumes data_size: "ok it \<Longrightarrow> ri_size impl it = length (ri_data impl it)"
    and data_window: "ok it \<Longrightarrow> ri_data impl it = window (start it) (ri_size impl it) (stream it)"
    and data_bound: "ok it \<Longrightarrow> start it + ri_size impl it \<le> length (stream it)"
    and stream_bound: "ok it \<Longrightarrow> length (stream it) < 2 ^ 64"
    and next_chunk: "ok it \<Longrightarrow> ri_next impl it d = (True, rv, it') \<Longrightarrow>
      rv = Ok \<and> ok it' \<and> stream it' = stream it \<and> start it' = start it + ri_size impl it \<and>
      ri_fuel impl it' < ri_fuel impl it"
    and next_none: "ok it \<Longrightarrow> ri_next impl it d = (False, rv, it') \<Longrightarrow> safe_rv rv"

text \<open>
  \<open>skip\<close> moves to the chunk that holds the position \<open>off\<close> bytes behind the start of the current
  chunk. It may stop right behind the last chunk. \<open>skips it off\<close> is the condition under which
  the iterator finds that chunk (an iterator over metablocks does not look into the blocks it
  skips and takes them to be full).
\<close>

locale chunk_iterator = chunk_source +
  fixes skips :: "'it \<Rightarrow> nat \<Rightarrow> bool"
  assumes skip_safe: "ok it \<Longrightarrow> skips it off \<Longrightarrow> ri_skip impl it off d = (rv, off', it') \<Longrightarrow>
      safe_rv rv"
    and skip_chunk: "ok it \<Longrightarrow> skips it off \<Longrightarrow> ri_skip impl it off d = (Ok, off', it') \<Longrightarrow>
      ok it' \<and> stream it' = stream it \<and> start it' + off' = start it + off \<and>
      (off' < ri_size impl it' \<or>
       off' = ri_size impl it' \<and> (\<forall>d. \<not> fst (ri_next impl it' d)))"

text \<open>
  The state of a reader that presents the window at position \<open>pos\<close> of the stream. Mapped: the
  iterator offset is 0 and the window lies in the current chunk. Buffered: the buffer holds the
  window, and the current chunk starts \<open>rd_iterator_offset\<close> bytes into it.
\<close>

definition reader_mapped ::
  "'it reader_iterator_impl \<Rightarrow> ('it \<Rightarrow> nat) \<Rightarrow> ('it, 'b) reader \<Rightarrow> nat \<Rightarrow> bool" where
  "reader_mapped impl start r pos \<longleftrightarrow>
     rd_iterator_offset r = 0 \<and> pos = start (rd_iterator r) + rd_offset r \<and>
     (rd_data r = RNull \<and> rd_size r = 0 \<or>
      rd_data r = RIter (rd_offset r) \<and> rd_offset r + rd_size r \<le> ri_size impl (rd_iterator r))"

definition reader_buffered ::
  "'it reader_iterator_impl \<Rightarrow> 'b cx_buffer_ops \<Rightarrow> ('it \<Rightarrow> byte list) \<Rightarrow> ('it \<Rightarrow> nat) \<Rightarrow>
   ('it, 'b) reader \<Rightarrow> nat \<Rightarrow> bool" where
  "reader_buffered impl bo stream start r pos \<longleftrightarrow>
     0 < rd_iterator_offset r \<and> rd_offset r = 0 \<and> rd_data r = RBuf 0 \<and>
     cb_data bo (rd_buffer r) = window pos (rd_size r) (stream (rd_iterator r)) \<and>
     pos + rd_size r \<le> length (stream (rd_iterator r)) \<and>
     start (rd_iterator r) = pos + rd_iterator_offset r \<and>
     rd_iterator_offset r \<le> rd_size r \<and>
     rd_size r \<le> rd_iterator_offset r + ri_size impl (rd_iterator r)"

definition reader_at ::
  "'it reader_iterator_impl \<Rightarrow> 'b cx_buffer_ops \<Rightarrow> ('it \<Rightarrow> bool) \<Rightarrow> ('it \<Rightarrow> byte list) \<Rightarrow>
   ('it \<Rightarrow> nat) \<Rightarrow> ('it, 'b) reader \<Rightarrow> nat \<Rightarrow> bool" where
  "reader_at impl bo ok stream start r pos \<longleftrightarrow>
     ok (rd_iterator r) \<and>
     (reader_mapped impl start r pos \<or> reader_buffered impl bo stream start r pos)"

text \<open>
  The calls of \<^verbatim>\<open>sqsh__reader_advance\<close> that the buffered mode supports: to a position behind the
  chunks that are in the buffer completely, or a longer window at the same position. (Every
  caller in the library is of this form.)
\<close>

definition advance_supported :: "('it, 'b) reader \<Rightarrow> nat \<Rightarrow> nat \<Rightarrow> bool" where
  "advance_supported r offset sz \<longleftrightarrow>
     rd_iterator_offset r \<le> offset \<or> offset = 0 \<and> rd_size r \<le> sz"

section \<open>Correctness of the reader\<close>

lemma cx_buffer_append:
  "cx_buffer_ok bo \<Longrightarrow> cb_append bo b xs = (rv, b') \<Longrightarrow>
   safe_rv rv \<and> (rv = Ok \<longrightarrow> cb_data bo b' = cb_data bo b @ xs)"
  unfolding cx_buffer_ok_def by (metis fst_conv snd_conv)

lemma cx_buffer_init:
  "cx_buffer_ok bo \<Longrightarrow> cb_init bo = (rv, b) \<Longrightarrow> safe_rv rv \<and> (rv = Ok \<longrightarrow> cb_data bo b = [])"
  unfolding cx_buffer_ok_def by (metis fst_conv snd_conv)

lemma cx_buffer_drain: "cx_buffer_ok bo \<Longrightarrow> cb_data bo (cb_drain bo b) = []"
  by (simp add: cx_buffer_ok_def)

text \<open>The state of the copy loop when \<open>k\<close> of \<open>sz\<close> bytes are in the buffer.\<close>

definition fill_state ::
  "'it reader_iterator_impl \<Rightarrow> 'b cx_buffer_ops \<Rightarrow> ('it \<Rightarrow> bool) \<Rightarrow> ('it \<Rightarrow> byte list) \<Rightarrow>
   ('it \<Rightarrow> nat) \<Rightarrow> ('it, 'b) reader \<Rightarrow> nat \<Rightarrow> nat \<Rightarrow> nat \<Rightarrow> nat \<Rightarrow> nat \<Rightarrow> bool" where
  "fill_state impl bo ok stream start r P sz off io k \<longleftrightarrow>
     ok (rd_iterator r) \<and> k \<le> sz \<and> sz < 2 ^ 64 \<and>
     cb_data bo (rd_buffer r) = window P k (stream (rd_iterator r)) \<and>
     P + k \<le> length (stream (rd_iterator r)) \<and>
     start (rd_iterator r) + off = P + k \<and> off \<le> ri_size impl (rd_iterator r) \<and>
     (if io = 0
      then k = 0 \<and> ri_size impl (rd_iterator r) < off + sz \<and>
           (off < ri_size impl (rd_iterator r) \<or> (\<forall>d. \<not> fst (ri_next impl (rd_iterator r) d)))
      else start (rd_iterator r) = P + io)"

context chunk_source
begin

lemma next_rv:
  assumes "ok it" "ri_next impl it d = (b, rv, it')"
  shows "safe_rv (if \<not> b \<and> rv = Ok then Err SQSH_ERROR_OUT_OF_BOUNDS else rv)"
proof (cases b)
  case True
  with assms next_chunk [of it d rv it'] show ?thesis by simp
next
  case False
  with assms next_none [of it d rv it'] show ?thesis by auto
qed

lemma fill_loop_correct:
  assumes bo: "cx_buffer_ok bo"
  shows "fill_state impl bo ok stream start r P sz off io k \<Longrightarrow>
    ri_fuel impl (rd_iterator r) < fuel \<Longrightarrow>
    fill_loop fuel impl bo r sz off io (sz - k) = (rv, r', io') \<Longrightarrow>
    safe_rv rv \<and>
    (rv = Ok \<longrightarrow> ok (rd_iterator r') \<and> stream (rd_iterator r') = stream (rd_iterator r) \<and>
       cb_data bo (rd_buffer r') = window P sz (stream (rd_iterator r')) \<and>
       P + sz \<le> length (stream (rd_iterator r')) \<and> 0 < io' \<and>
       start (rd_iterator r') = P + io' \<and> io' \<le> sz \<and>
       sz \<le> io' + ri_size impl (rd_iterator r'))"
proof (induction fuel arbitrary: r off io k)
  case 0
  then show ?case by simp
next
  case (Suc fuel)
  let ?it = "rd_iterator r" and ?n = "ri_size impl (rd_iterator r)"
  define copy where "copy = min (?n - off) (sz - k)"
  from Suc.prems(1) have ok: "ok ?it" and k: "k \<le> sz" "sz < 2 ^ 64"
    and buf: "cb_data bo (rd_buffer r) = window P k (stream ?it)"
    and Pk: "P + k \<le> length (stream ?it)" and st: "start ?it + off = P + k" and off: "off \<le> ?n"
    and io: "if io = 0 then k = 0 \<and> ?n < off + sz \<and>
        (off < ?n \<or> (\<forall>d. \<not> fst (ri_next impl ?it d))) else start ?it = P + io"
    by (simp_all add: fill_state_def)
  have n64: "?n < 2 ^ 64" using data_bound [OF ok] stream_bound [OF ok] by simp
  have c1: "min (wrap_sub ?n off) (sz - k) = copy"
    using off n64 by (simp add: wrap_sub_exact copy_def)
  have c2: "\<not> length (ri_data impl ?it) < off + copy"
    using data_size [OF ok] off by (simp add: copy_def)
  have c3: "wrap_sub (sz - k) copy = sz - (k + copy)"
    using k by (simp add: wrap_sub_exact copy_def)
  have dat: "window off copy (ri_data impl ?it) = window (P + k) copy (stream ?it)"
    using off data_window [OF ok] st by (simp add: copy_def window_window)
  obtain rv1 b where app: "cb_append bo (rd_buffer r) (window (P + k) copy (stream ?it)) = (rv1, b)"
    by fastforce
  from cx_buffer_append [OF bo app] have safe1: "safe_rv rv1"
    and b: "rv1 = Ok \<Longrightarrow> cb_data bo b = window P (k + copy) (stream ?it)"
    by (auto simp: buf window_append_window)
  note unf = Suc.prems(3) [simplified Let_def fill_loop.simps c1 c2 c3 dat app if_False
      prod.case]
  have Pkc: "P + (k + copy) \<le> length (stream ?it)"
    using data_bound [OF ok] off st by (simp add: copy_def)
  consider "rv1 \<noteq> Ok" | "rv1 = Ok" "sz - (k + copy) = 0" | "rv1 = Ok" "sz - (k + copy) \<noteq> 0"
    by blast
  then show ?case
  proof cases
    case 1
    with unf safe1 show ?thesis by simp
  next
    case 2
    then have kc: "k + copy = sz" using k by (simp add: copy_def)
    with 2 unf have res: "rv = Ok" "r' = r\<lparr>rd_buffer := b\<rparr>" "io' = io" by simp_all
    have "io \<noteq> 0" using io kc off by (auto simp: copy_def split: if_splits)
    with io have "start ?it = P + io" by simp
    then show ?thesis using res kc ok b 2 Pkc st off k \<open>io \<noteq> 0\<close> by (auto simp: copy_def)
  next
    case 3
    then have cp: "copy = ?n - off" using k by (auto simp: copy_def)
    let ?r = "r\<lparr>rd_buffer := b\<rparr>"
    obtain hn rv2 it2 where nx: "ri_next impl ?it (sz - (k + copy)) = (hn, rv2, it2)"
      by (cases "ri_next impl ?it (sz - (k + copy))") auto
    let ?rv = "if \<not> hn \<and> rv2 = Ok then Err SQSH_ERROR_OUT_OF_BOUNDS else rv2"
    let ?r2 = "?r\<lparr>rd_iterator := it2, rd_iterator_size := ri_size impl it2\<rparr>"
    have rn: "reader_iterator_next impl ?r (sz - (k + copy)) = (?rv, ?r2)"
      by (simp add: reader_iterator_next_def nx)
    have io2: "wrap_sub sz (sz - (k + copy)) = k + copy"
      using k 3 by (simp add: wrap_sub_exact)
    have unf2: "(if ?rv \<noteq> Ok then (?rv, ?r2, k + copy)
        else fill_loop fuel impl bo ?r2 sz 0 (k + copy) (sz - (k + copy))) = (rv, r', io')"
      using unf 3 by (simp add: rn io2 cong: if_cong)
    show ?thesis
    proof (cases "?rv = Ok")
      case False
      then have "rv = ?rv" using unf2 by (simp split: if_splits)
      then show ?thesis using next_rv [OF ok nx] False by simp
    next
      case True
      then have hn: "hn" "rv2 = Ok" by (auto split: if_splits)
      have "ri_next impl ?it (sz - (k + copy)) = (True, Ok, it2)" using nx hn by simp
      from next_chunk [OF ok this] have nc: "ok it2" "stream it2 = stream ?it"
        "start it2 = start ?it + ?n" "ri_fuel impl it2 < ri_fuel impl ?it" by auto
      have "k + copy \<noteq> 0"
      proof (cases "io = 0")
        case True
        with io nx hn have "off < ?n" by (metis fst_conv)
        then show ?thesis using cp by simp
      next
        case False
        then show ?thesis using io st by simp
      qed
      moreover have pos: "k + copy \<le> sz" "start ?it + ?n = P + (k + copy)"
        using 3 cp st off by linarith+
      ultimately have fs: "fill_state impl bo ok stream start ?r2 P sz 0 (k + copy) (k + copy)"
        using nc b 3 k Pkc pos by (auto simp: fill_state_def)
      have "ri_fuel impl (rd_iterator ?r2) < fuel" using nc Suc.prems(2) by simp
      from Suc.IH [OF fs this] unf2 True nc(2) show ?thesis by auto
    qed
  qed
qed

lemma fill_buffer_correct:
  assumes bo: "cx_buffer_ok bo"
    and fs: "fill_state impl bo ok stream start r P sz (rd_offset r) (rd_iterator_offset r) k"
    and eq: "reader_fill_buffer impl bo r sz = (rv, r')"
  shows "safe_rv rv \<and> (rv = Ok \<longrightarrow> reader_at impl bo ok stream start r' P \<and>
    stream (rd_iterator r') = stream (rd_iterator r) \<and> rd_size r' = sz \<and>
    sqsh__reader_data impl bo r' = window P sz (stream (rd_iterator r)) \<and>
    P + sz \<le> length (stream (rd_iterator r)))"
proof -
  let ?f = "Suc (ri_fuel impl (rd_iterator r))"
  have k: "k \<le> sz" "sz < 2 ^ 64" "cx_buffer_size bo (rd_buffer r) = k"
    using fs by (auto simp: fill_state_def cx_buffer_size_def)
  obtain rv1 r1 io1 where l: "fill_loop ?f impl bo r sz (rd_offset r) (rd_iterator_offset r) (sz - k)
      = (rv1, r1, io1)" by (rule prod_cases3)
  from fill_loop_correct [OF bo fs _ l] have
    c: "safe_rv rv1 \<and>
    (rv1 = Ok \<longrightarrow> ok (rd_iterator r1) \<and> stream (rd_iterator r1) = stream (rd_iterator r) \<and>
       cb_data bo (rd_buffer r1) = window P sz (stream (rd_iterator r1)) \<and>
       P + sz \<le> length (stream (rd_iterator r1)) \<and> 0 < io1 \<and>
       start (rd_iterator r1) = P + io1 \<and> io1 \<le> sz \<and>
       sz \<le> io1 + ri_size impl (rd_iterator r1))" by blast
  have ws: "wrap_sub sz k = sz - k" using k by (simp add: wrap_sub_exact)
  show ?thesis
  proof (cases "rv1 = Ok")
    case False
    then show ?thesis using c eq by (simp add: reader_fill_buffer_def k ws l del: fill_loop.simps)
  next
    case True
    with c have "P + sz \<le> length (stream (rd_iterator r))" by metis
    with c True have "cx_buffer_size bo (rd_buffer r1) = sz" "0 < io1"
      by (auto simp: cx_buffer_size_def)
    with True eq have "rv = Ok" and "r' = r1\<lparr>rd_iterator_offset := io1, rd_offset := 0,
                     rd_data := RBuf 0, rd_size := sz\<rparr>"
      by (simp_all add: reader_fill_buffer_def k ws l del: fill_loop.simps)
    with c True show ?thesis
      by (auto simp: reader_at_def reader_buffered_def sqsh__reader_data_def window_window)
  qed
qed

end

text \<open>What \<^verbatim>\<open>handle_mapped\<close> does once the iterator stands on the chunk of the position.\<close>

definition mapped_tail ::
  "'it reader_iterator_impl \<Rightarrow> 'b cx_buffer_ops \<Rightarrow> ('it, 'b) reader \<Rightarrow> 'it \<Rightarrow> nat \<Rightarrow> nat \<Rightarrow>
   rv \<times> ('it, 'b) reader" where
  "mapped_tail impl bo r it offset sz =
     (let r = r\<lparr>rd_iterator := it, rd_iterator_size := ri_size impl it, rd_offset := offset\<rparr>
      in case add_overflow 64 offset sz of
           None \<Rightarrow> (Err SQSH_ERROR_INTEGER_OVERFLOW, r)
         | Some end_offset \<Rightarrow>
             if end_offset \<le> rd_iterator_size r
             then (Ok, r\<lparr>rd_data := RIter offset, rd_size := sz\<rparr>)
             else reader_fill_buffer impl bo (r\<lparr>rd_buffer := cb_drain bo (rd_buffer r)\<rparr>) sz)"

lemma handle_mapped_tail:
  "ri_skip impl (rd_iterator r) a sz = (Ok, o1, it1) \<Longrightarrow>
   add_overflow 64 offset (rd_offset r) = Some a \<Longrightarrow>
   handle_mapped impl bo r offset sz = mapped_tail impl bo r it1 o1 sz"
  by (simp add: handle_mapped_def mapped_tail_def Let_def cong: if_cong option.case_cong
      del: add_overflow_Some)

lemma handle_mapped_skip_error:
  "ri_skip impl (rd_iterator r) a sz = (e, o1, it1) \<Longrightarrow> e \<noteq> Ok \<Longrightarrow>
   add_overflow 64 offset (rd_offset r) = Some a \<Longrightarrow>
   handle_mapped impl bo r offset sz = (e, r\<lparr>rd_iterator := it1\<rparr>)"
  by (simp add: handle_mapped_def Let_def del: add_overflow_Some)

context chunk_source
begin

lemma mapped_tail_correct:
  assumes bo: "cx_buffer_ok bo" and ok: "ok it1"
    and o1: "o1 < ri_size impl it1 \<or> o1 = ri_size impl it1 \<and> (\<forall>d. \<not> fst (ri_next impl it1 d))"
    and io: "rd_iterator_offset r = 0" and sz: "sz < 2 ^ 64"
    and eq: "mapped_tail impl bo r it1 o1 sz = (rv, r')" and P: "P = start it1 + o1"
  shows "safe_rv rv \<and> (rv = Ok \<longrightarrow> reader_at impl bo ok stream start r' P \<and>
    stream (rd_iterator r') = stream it1 \<and> rd_size r' = sz \<and>
    sqsh__reader_data impl bo r' = window P sz (stream it1) \<and> P + sz \<le> length (stream it1))"
proof -
  let ?r1 = "r\<lparr>rd_iterator := it1, rd_iterator_size := ri_size impl it1, rd_offset := o1\<rparr>"
  have bnd: "o1 \<le> ri_size impl it1" using o1 by auto
  show ?thesis
  proof (cases "add_overflow 64 o1 sz")
    case None
    then show ?thesis using eq by (auto simp: mapped_tail_def simp del: add_overflow_None)
  next
    case e: (Some e)
    then have e': "e = o1 + sz" by simp
    have main: "(if e \<le> ri_size impl it1
         then (Ok, ?r1\<lparr>rd_data := RIter o1, rd_size := sz\<rparr>)
         else reader_fill_buffer impl bo (?r1\<lparr>rd_buffer := cb_drain bo (rd_buffer r)\<rparr>) sz)
        = (rv, r')"
      using eq e by (simp add: mapped_tail_def Let_def cong: if_cong del: add_overflow_Some)
    show ?thesis
    proof (cases "e \<le> ri_size impl it1")
      case True
      with main have r: "rv = Ok" "r' = ?r1\<lparr>rd_data := RIter o1, rd_size := sz\<rparr>" by auto
      have "window o1 sz (ri_data impl it1) = window P sz (stream it1)"
        using True e' data_window [OF ok] P by (metis window_window)
      then show ?thesis using r ok True e' io P data_bound [OF ok]
        by (simp add: reader_at_def reader_mapped_def sqsh__reader_data_def)
    next
      case False
      let ?r2 = "?r1\<lparr>rd_buffer := cb_drain bo (rd_buffer r)\<rparr>"
      have fs: "fill_state impl bo ok stream start ?r2 P sz (rd_offset ?r2)
          (rd_iterator_offset ?r2) 0"
        using False e' ok io P o1 bnd sz cx_buffer_drain [OF bo] data_bound [OF ok]
        by (auto simp: fill_state_def)
      from False main have "reader_fill_buffer impl bo ?r2 sz = (rv, r')" by simp
      from fill_buffer_correct [OF bo fs this] show ?thesis by simp
    qed
  qed
qed

lemma handle_buffered_correct:
  assumes bo: "cx_buffer_ok bo" and okr: "ok (rd_iterator r)"
    and rb: "reader_buffered impl bo stream start r pos"
    and sz: "rd_size r \<le> sz" "sz < 2 ^ 64"
    and eq: "handle_buffered impl bo r 0 sz = (rv, r')"
  shows "safe_rv rv \<and> (rv = Ok \<longrightarrow> reader_at impl bo ok stream start r' pos \<and>
    stream (rd_iterator r') = stream (rd_iterator r) \<and> rd_size r' = sz \<and>
    sqsh__reader_data impl bo r' = window pos sz (stream (rd_iterator r)) \<and>
    pos + sz \<le> length (stream (rd_iterator r)))"
proof -
  let ?io = "rd_iterator_offset r"
  have b: "0 < ?io" "cb_data bo (rd_buffer r) = window pos (rd_size r) (stream (rd_iterator r))"
    "pos + rd_size r \<le> length (stream (rd_iterator r))" "start (rd_iterator r) = pos + ?io"
    "?io \<le> rd_size r" "rd_size r \<le> ?io + ri_size impl (rd_iterator r)"
    using rb by (auto simp: reader_buffered_def)
  have bs: "cx_buffer_size bo (rd_buffer r) = rd_size r" using b by (simp add: cx_buffer_size_def)
  have ws: "wrap_sub (rd_size r) ?io = rd_size r - ?io"
    using b(5) sz by (simp add: wrap_sub_exact)
  let ?r = "r\<lparr>rd_offset := rd_size r - ?io\<rparr>"
  have fs: "fill_state impl bo ok stream start ?r pos sz (rd_offset ?r) (rd_iterator_offset ?r)
      (rd_size r)"
    using b okr sz by (simp add: fill_state_def)
  have "reader_fill_buffer impl bo ?r sz = (rv, r')"
    using eq by (simp add: handle_buffered_def bs ws)
  from fill_buffer_correct [OF bo fs this] show ?thesis by simp
qed

end

context chunk_iterator
begin

lemma handle_mapped_correct:
  assumes bo: "cx_buffer_ok bo" and okr: "ok (rd_iterator r)"
    and io: "rd_iterator_offset r = 0" and sz: "sz < 2 ^ 64"
    and skp: "skips (rd_iterator r) (offset + rd_offset r)"
    and eq: "handle_mapped impl bo r offset sz = (rv, r')"
    and P: "P = start (rd_iterator r) + rd_offset r + offset"
  shows "safe_rv rv \<and> (rv = Ok \<longrightarrow> reader_at impl bo ok stream start r' P \<and>
    stream (rd_iterator r') = stream (rd_iterator r) \<and> rd_size r' = sz \<and>
    sqsh__reader_data impl bo r' = window P sz (stream (rd_iterator r)) \<and>
    P + sz \<le> length (stream (rd_iterator r)))"
proof (cases "add_overflow 64 offset (rd_offset r)")
  case None
  then show ?thesis using eq by (auto simp: handle_mapped_def simp del: add_overflow_None)
next
  case (Some a)
  obtain rv1 o1 it1 where sk: "ri_skip impl (rd_iterator r) a sz = (rv1, o1, it1)"
    by (rule prod_cases3)
  show ?thesis
  proof (cases "rv1 = Ok")
    case False
    have "skips (rd_iterator r) a" using skp Some by simp
    then show ?thesis using eq skip_safe [OF okr _ sk] False
      by (auto simp: handle_mapped_def Some sk simp del: add_overflow_Some)
  next
    case ok: True
    have "skips (rd_iterator r) a" using skp Some by simp
    from skip_chunk [OF okr this sk [unfolded ok]] have s: "ok it1"
      "stream it1 = stream (rd_iterator r)" "start it1 + o1 = start (rd_iterator r) + a"
      and o1: "o1 < ri_size impl it1 \<or> o1 = ri_size impl it1 \<and> (\<forall>d. \<not> fst (ri_next impl it1 d))"
      by auto
    have P1: "P = start it1 + o1" using P s(3) Some by simp
    have "mapped_tail impl bo r it1 o1 sz = (rv, r')"
      using handle_mapped_tail [OF sk [unfolded ok] Some] eq by simp
    from mapped_tail_correct [OF bo s(1) o1 io sz this P1] s(2) show ?thesis by simp
  qed
qed

text \<open>The main lemma: a supported advance presents exactly the requested window.\<close>

lemma advance_correct:
  assumes bo: "cx_buffer_ok bo" and at: "reader_at impl bo ok stream start r pos"
    and sup: "advance_supported r offset sz" and sz: "sz < 2 ^ 64"
    and skp: "rd_iterator_offset r \<le> offset \<Longrightarrow>
      skips (rd_iterator r) (offset - rd_iterator_offset r + rd_offset r)"
    and eq: "sqsh__reader_advance impl bo r offset sz = (rv, r')"
  shows "safe_rv rv \<and> (rv = Ok \<longrightarrow> reader_at impl bo ok stream start r' (pos + offset) \<and>
    stream (rd_iterator r') = stream (rd_iterator r) \<and> rd_size r' = sz \<and>
    sqsh__reader_data impl bo r' = window (pos + offset) sz (stream (rd_iterator r)) \<and>
    pos + offset + sz \<le> length (stream (rd_iterator r)))"
proof -
  have ok: "ok (rd_iterator r)" using at by (simp add: reader_at_def)
  show ?thesis
  proof (cases "rd_iterator_offset r \<le> offset")
    case True
    let ?r = "r\<lparr>rd_iterator_offset := 0\<rparr>"
    have e: "handle_mapped impl bo ?r (offset - rd_iterator_offset r) sz = (rv, r')"
      using eq True by (simp add: sqsh__reader_advance_def)
    have P: "pos + offset = start (rd_iterator ?r) + rd_offset ?r + (offset - rd_iterator_offset r)"
      using at True by (auto simp: reader_at_def reader_mapped_def reader_buffered_def)
    from handle_mapped_correct [OF bo _ _ sz _ e P] ok skp [OF True] show ?thesis by simp
  next
    case False
    then have "reader_buffered impl bo stream start r pos"
      using at by (auto simp: reader_at_def reader_mapped_def)
    moreover have "offset = 0" "rd_size r \<le> sz" using sup False by (auto simp: advance_supported_def)
    moreover have "handle_buffered impl bo r 0 sz = (rv, r')"
      using eq False calculation by (simp add: sqsh__reader_advance_def)
    ultimately show ?thesis using handle_buffered_correct [OF bo ok _ _ sz] by simp
  qed
qed

lemma init_correct:
  assumes "cx_buffer_ok bo" "ok it" "sqsh__reader_init bo it r = (rv, r')"
  shows "safe_rv rv \<and> reader_at impl bo ok stream start r' (start it) \<and> rd_iterator r' = it \<and>
    rd_size r' = 0 \<and> rd_iterator_offset r' = 0"
  using assms cx_buffer_init [of bo]
  by (auto simp: sqsh__reader_init_def reader_at_def reader_mapped_def split: prod.splits)

end

section \<open>Success of the reader\<close>

text \<open>
  Memory is never exhausted: with it, and with an iterator whose calls succeed as long as the
  stream has bytes left (\<open>live\<close>), every advance within the stream succeeds.
\<close>

definition cx_buffer_total :: "'b cx_buffer_ops \<Rightarrow> bool" where
  "cx_buffer_total bo \<longleftrightarrow> fst (cb_init bo) = Ok \<and> (\<forall>b xs. fst (cb_append bo b xs) = Ok) \<and>
     (\<forall>t s. fst (cb_move bo t s) = Ok) \<and> (\<forall>b n. fst (cb_add_capacity bo b n) = Ok) \<and>
     (\<forall>b xs. fst (cb_add_size bo b xs) = Ok)"

locale live_chunk_iterator = chunk_iterator +
  fixes live :: "'it \<Rightarrow> bool"
  assumes live_next: "ok it \<Longrightarrow> live it \<Longrightarrow> start it + ri_size impl it < length (stream it) \<Longrightarrow>
      \<exists>it'. ri_next impl it d = (True, Ok, it') \<and> live it'"
    and live_skip: "ok it \<Longrightarrow> live it \<Longrightarrow> skips it off \<Longrightarrow>
      start it + off < length (stream it) \<Longrightarrow>
      \<exists>off' it'. ri_skip impl it off d = (Ok, off', it') \<and> live it'"
begin

lemma fill_loop_live:
  assumes bo: "cx_buffer_ok bo" "cx_buffer_total bo"
  shows "fill_state impl bo ok stream start r P sz off io k \<Longrightarrow> live (rd_iterator r) \<Longrightarrow>
    P + sz \<le> length (stream (rd_iterator r)) \<Longrightarrow> ri_fuel impl (rd_iterator r) < fuel \<Longrightarrow>
    fill_loop fuel impl bo r sz off io (sz - k) = (rv, r', io') \<Longrightarrow>
    rv = Ok \<and> live (rd_iterator r')"
proof (induction fuel arbitrary: r off io k)
  case 0
  then show ?case by simp
next
  case (Suc fuel)
  let ?it = "rd_iterator r" and ?n = "ri_size impl (rd_iterator r)"
  define copy where "copy = min (?n - off) (sz - k)"
  from Suc.prems(1) have okr: "ok ?it" and k: "k \<le> sz" "sz < 2 ^ 64"
    and st: "start ?it + off = P + k" and off: "off \<le> ?n"
    and buf: "cb_data bo (rd_buffer r) = window P k (stream ?it)"
    and io: "if io = 0 then k = 0 \<and> ?n < off + sz \<and>
        (off < ?n \<or> (\<forall>d. \<not> fst (ri_next impl ?it d))) else start ?it = P + io"
    by (simp_all add: fill_state_def)
  have c1: "min (wrap_sub ?n off) (sz - k) = copy"
    using off data_bound [OF okr] stream_bound [OF okr] by (simp add: wrap_sub_exact copy_def)
  have c2: "\<not> length (ri_data impl ?it) < off + copy"
    using data_size [OF okr] off by (simp add: copy_def)
  have c3: "wrap_sub (sz - k) copy = sz - (k + copy)"
    using k by (simp add: wrap_sub_exact copy_def)
  have dat: "window off copy (ri_data impl ?it) = window (P + k) copy (stream ?it)"
    using off data_window [OF okr] st by (simp add: copy_def window_window)
  obtain b where app: "cb_append bo (rd_buffer r) (window (P + k) copy (stream ?it)) = (Ok, b)"
    using bo(2) by (metis cx_buffer_total_def prod.collapse)
  with cx_buffer_append [OF bo(1)] have b: "cb_data bo b = window P (k + copy) (stream ?it)"
    by (auto simp: buf window_append_window)
  note unf = Suc.prems(5) [simplified Let_def fill_loop.simps c1 c2 c3 dat app if_False prod.case]
  show ?case
  proof (cases "sz - (k + copy) = 0")
    case True
    with unf Suc.prems(2) show ?thesis by auto
  next
    case False
    then have cp: "copy = ?n - off" using k by (auto simp: copy_def)
    have pos: "k + copy \<le> sz" "start ?it + ?n = P + (k + copy)"
      using False cp st off by linarith+
    then have lt: "start ?it + ?n < length (stream ?it)" using False Suc.prems(3) by linarith
    from live_next [OF okr Suc.prems(2) lt] obtain it2 where
      nx: "ri_next impl ?it (sz - (k + copy)) = (True, Ok, it2)" and lv: "live it2" by metis
    let ?r2 = "r\<lparr>rd_buffer := b, rd_iterator := it2, rd_iterator_size := ri_size impl it2\<rparr>"
    have rn: "reader_iterator_next impl (r\<lparr>rd_buffer := b\<rparr>) (sz - (k + copy)) = (Ok, ?r2)"
      by (simp add: reader_iterator_next_def nx)
    have io2: "wrap_sub sz (sz - (k + copy)) = k + copy"
      using k False by (simp add: wrap_sub_exact)
    have unf2: "fill_loop fuel impl bo ?r2 sz 0 (k + copy) (sz - (k + copy)) = (rv, r', io')"
      using unf False by (simp add: rn io2 cong: if_cong)
    from next_chunk [OF okr nx] have nc: "ok it2" "stream it2 = stream ?it"
      "start it2 = start ?it + ?n" "ri_fuel impl it2 < ri_fuel impl ?it" by auto
    have "k + copy \<noteq> 0"
    proof (cases "io = 0")
      case True
      with io nx have "off < ?n" by (metis fst_conv)
      then show ?thesis using cp by simp
    next
      case False
      then show ?thesis using io st by simp
    qed
    then have fs: "fill_state impl bo ok stream start ?r2 P sz 0 (k + copy) (k + copy)"
      using nc b k pos data_bound [OF okr] by (auto simp: fill_state_def)
    show ?thesis using Suc.IH [OF fs _ _ _ unf2] lv nc Suc.prems(3,4) by simp
  qed
qed

lemma fill_buffer_live:
  assumes bo: "cx_buffer_ok bo" "cx_buffer_total bo"
    and fs: "fill_state impl bo ok stream start r P sz (rd_offset r) (rd_iterator_offset r) k"
    and lv: "live (rd_iterator r)" "P + sz \<le> length (stream (rd_iterator r))"
    and eq: "reader_fill_buffer impl bo r sz = (rv, r')"
  shows "rv = Ok \<and> live (rd_iterator r')"
proof -
  let ?f = "Suc (ri_fuel impl (rd_iterator r))"
  have k: "k \<le> sz" "sz < 2 ^ 64" "cx_buffer_size bo (rd_buffer r) = k"
    using fs by (auto simp: fill_state_def cx_buffer_size_def)
  then have ws: "wrap_sub sz k = sz - k" by (simp add: wrap_sub_exact)
  obtain rv1 r1 io1 where l: "fill_loop ?f impl bo r sz (rd_offset r) (rd_iterator_offset r) (sz - k)
      = (rv1, r1, io1)" by (rule prod_cases3)
  from fill_loop_live [OF bo fs lv _ l] have o: "rv1 = Ok" "live (rd_iterator r1)" by auto
  from fill_buffer_correct [OF bo(1) fs eq] have "safe_rv rv" by simp
  with o eq show ?thesis
    by (auto simp: reader_fill_buffer_def k ws l split: if_splits simp del: fill_loop.simps)
qed

lemma advance_live:
  assumes bo: "cx_buffer_ok bo" "cx_buffer_total bo"
    and at: "reader_at impl bo ok stream start r pos" and lv: "live (rd_iterator r)"
    and sup: "advance_supported r offset sz"
    and skp: "rd_iterator_offset r \<le> offset \<Longrightarrow>
      skips (rd_iterator r) (offset - rd_iterator_offset r + rd_offset r)"
    and bnd: "pos + offset < length (stream (rd_iterator r))"
      "pos + offset + sz \<le> length (stream (rd_iterator r))"
    and eq: "sqsh__reader_advance impl bo r offset sz = (rv, r')"
  shows "rv = Ok \<and> live (rd_iterator r')"
proof -
  have okr: "ok (rd_iterator r)" using at by (simp add: reader_at_def)
  note s64 = stream_bound [OF okr]
  show ?thesis
  proof (cases "rd_iterator_offset r \<le> offset")
    case True
    define a where "a = offset - rd_iterator_offset r + rd_offset r"
    have P: "pos + offset = start (rd_iterator r) + a"
      using at True by (auto simp: a_def reader_at_def reader_mapped_def reader_buffered_def)
    have ov: "add_overflow 64 (offset - rd_iterator_offset r) (rd_offset r) = Some a"
      using P bnd s64 by (simp add: a_def)
    obtain o1 it1 where sk: "ri_skip impl (rd_iterator r) a sz = (Ok, o1, it1)" and lv1: "live it1"
      using live_skip [OF okr lv, of a sz] skp [OF True] P bnd by (auto simp: a_def)
    have "skips (rd_iterator r) a" using skp [OF True] by (simp add: a_def)
    from skip_chunk [OF okr this sk] have s: "ok it1" "stream it1 = stream (rd_iterator r)"
      "start it1 + o1 = start (rd_iterator r) + a"
      and o1: "o1 < ri_size impl it1 \<or> o1 = ri_size impl it1 \<and> (\<forall>d. \<not> fst (ri_next impl it1 d))"
      by auto
    have ov2: "add_overflow 64 o1 sz = Some (o1 + sz)" using s(3) P bnd s64 by simp
    let ?r1 = "r\<lparr>rd_iterator_offset := 0, rd_iterator := it1,
        rd_iterator_size := ri_size impl it1, rd_offset := o1\<rparr>"
    have main: "(if o1 + sz \<le> ri_size impl it1
         then (Ok, ?r1\<lparr>rd_data := RIter o1, rd_size := sz\<rparr>)
         else reader_fill_buffer impl bo (?r1\<lparr>rd_buffer := cb_drain bo (rd_buffer r)\<rparr>) sz)
        = (rv, r')"
      using eq True
      by (simp add: sqsh__reader_advance_def handle_mapped_def ov ov2 sk Let_def cong: if_cong
          del: add_overflow_Some)
    show ?thesis
    proof (cases "o1 + sz \<le> ri_size impl it1")
      case True
      with main lv1 show ?thesis by auto
    next
      case False
      let ?r2 = "?r1\<lparr>rd_buffer := cb_drain bo (rd_buffer r)\<rparr>"
      have "fill_state impl bo ok stream start ?r2 (pos + offset) sz (rd_offset ?r2)
          (rd_iterator_offset ?r2) 0"
        using False s P o1 bnd s64 cx_buffer_drain [OF bo(1)] by (auto simp: fill_state_def)
      from fill_buffer_live [OF bo this] lv1 bnd s(2) main False show ?thesis by simp
    qed
  next
    case False
    then have rb: "reader_buffered impl bo stream start r pos"
      using at by (auto simp: reader_at_def reader_mapped_def)
    have o: "offset = 0" "rd_size r \<le> sz" using sup False by (auto simp: advance_supported_def)
    let ?io = "rd_iterator_offset r"
    have b: "0 < ?io" "cb_data bo (rd_buffer r) = window pos (rd_size r) (stream (rd_iterator r))"
      "pos + rd_size r \<le> length (stream (rd_iterator r))" "start (rd_iterator r) = pos + ?io"
      "?io \<le> rd_size r" "rd_size r \<le> ?io + ri_size impl (rd_iterator r)"
      using rb by (auto simp: reader_buffered_def)
    have bs: "cx_buffer_size bo (rd_buffer r) = rd_size r" using b by (simp add: cx_buffer_size_def)
    have ws: "wrap_sub (rd_size r) ?io = rd_size r - ?io"
      using b s64 by (simp add: wrap_sub_exact)
    let ?r = "r\<lparr>rd_offset := rd_size r - ?io\<rparr>"
    have fs: "fill_state impl bo ok stream start ?r pos sz (rd_offset ?r) (rd_iterator_offset ?r)
        (rd_size r)"
      using b okr o bnd s64 by (simp add: fill_state_def)
    have "reader_fill_buffer impl bo ?r sz = (rv, r')"
      using eq False o by (simp add: sqsh__reader_advance_def handle_buffered_def bs ws)
    from fill_buffer_live [OF bo fs _ _ this] lv bnd o show ?thesis by simp
  qed
qed

end


section \<open>A buffer\<close>

text \<open>A buffer that is a list of bytes meets the documented behaviour.\<close>

definition list_buffer :: "byte list cx_buffer_ops" where
  "list_buffer = \<lparr>cb_init = (Ok, []), cb_append = (\<lambda>b xs. (Ok, b @ xs)),
     cb_move = (\<lambda>t s. (Ok, s)), cb_drain = (\<lambda>b. []), cb_data = (\<lambda>b. b),
     cb_add_capacity = (\<lambda>b n. (Ok, b)), cb_add_size = (\<lambda>b xs. (Ok, b @ xs))\<rparr>"

lemma list_buffer_ok [simp]: "cx_buffer_ok list_buffer" "cx_buffer_total list_buffer"
  by (simp_all add: list_buffer_def cx_buffer_ok_def cx_buffer_total_def)

end
