(* ===== verification/Sqsh_Mapper.thy ===== *)
theory Sqsh_Mapper
  imports Sqsh_Reader
begin

text \<open>
  The mapping layer, \<^verbatim>\<open>libsqsh/src/mapper\<close>: the memory mapper behind a function table, the
  slice of the source it maps, the manager that caches slices, the iterator over the slices
  of the archive, and the reader on top of it.

  The source's user data and the bytes it stands for are the type \<open>'u\<close> and a function from it. The
  reference-counted hash map, the LRU list and the mutex that the manager uses are not part of
  the repository (cextras, pthread): they are the record of operations \<open>cache_ops\<close> on a type
  \<open>'c\<close>, with the behaviour the code relies on in \<open>cache_ok\<close>. The manager is a shared object
  that every iterator points to; the model passes it through the iterator that uses it.
  Since \<open>cache_ok\<close> speaks of every cache state, the results hold for whatever the other users
  of the manager have left in the cache.
\<close>

section \<open>Parameters: the cache and the memory mapper\<close>

record ('c, 'v) cache_ops =
  co_lock :: "'c \<Rightarrow> rv \<times> 'c"
  co_unlock :: "'c \<Rightarrow> rv \<times> 'c"
  co_retain :: "'c \<Rightarrow> nat \<Rightarrow> 'v option \<times> 'c"
  co_put :: "'c \<Rightarrow> nat \<Rightarrow> 'v \<Rightarrow> 'v option \<times> 'c"
  co_touch :: "'c \<Rightarrow> nat \<Rightarrow> rv \<times> 'c"
  co_retain_value :: "'c \<Rightarrow> 'v \<Rightarrow> 'c"
  co_release :: "'c \<Rightarrow> nat \<Rightarrow> rv \<times> 'c"

text \<open>
  \<open>entries P c\<close> says that every entry of \<open>c\<close> satisfies \<open>P\<close>. The cache keeps what it was given:
  retaining a key finds only such an entry, a put entry is found or reported as not stored
  (\<open>None\<close>), and no operation brings in other entries.
\<close>

definition cache_ok ::
  "('c, 'v) cache_ops \<Rightarrow> ((nat \<Rightarrow> 'v \<Rightarrow> bool) \<Rightarrow> 'c \<Rightarrow> bool) \<Rightarrow> bool" where
  "cache_ok co entries \<longleftrightarrow> (\<forall>P c. entries P c \<longrightarrow>
     safe_rv (fst (co_lock co c)) \<and> entries P (snd (co_lock co c)) \<and>
     safe_rv (fst (co_unlock co c)) \<and> entries P (snd (co_unlock co c)) \<and>
     (\<forall>k. entries P (snd (co_retain co c k)) \<and>
       (\<forall>v. fst (co_retain co c k) = Some v \<longrightarrow> P k v)) \<and>
     (\<forall>k v. P k v \<longrightarrow> entries P (snd (co_put co c k v)) \<and>
       (\<forall>w. fst (co_put co c k v) = Some w \<longrightarrow> P k w)) \<and>
     (\<forall>k. safe_rv (fst (co_touch co c k)) \<and> entries P (snd (co_touch co c k))) \<and>
     (\<forall>v. entries P (co_retain_value co c v)) \<and>
     (\<forall>k. safe_rv (fst (co_release co c k)) \<and> entries P (snd (co_release co c k))))"

definition cache_total :: "('c, 'v) cache_ops \<Rightarrow> bool" where
  "cache_total co \<longleftrightarrow> (\<forall>c. fst (co_lock co c) = Ok) \<and> (\<forall>c. fst (co_unlock co c) = Ok) \<and>
     (\<forall>c k v. fst (co_put co c k v) \<noteq> None) \<and> (\<forall>c k. fst (co_touch co c k) = Ok)"

text \<open>
  The function table of a memory mapper. A null entry is \<open>None\<close>; the deprecated entries
  \<^verbatim>\<open>init\<close> and \<^verbatim>\<open>map\<close> take precedence over \<^verbatim>\<open>init2\<close> and \<^verbatim>\<open>map2\<close>. The user data is what the
  mapper's \<^verbatim>\<open>init\<close> makes of the source.
\<close>

record 'u memory_mapper_impl =
  mi_block_size_hint :: nat
  mi_init :: "('u \<Rightarrow> nat \<Rightarrow> rv \<times> nat \<times> 'u) option"
  mi_map :: "('u \<Rightarrow> nat \<Rightarrow> nat \<Rightarrow> rv \<times> byte list) option"
  mi_unmap :: "'u \<Rightarrow> byte list \<Rightarrow> nat \<Rightarrow> rv"
  mi_init2 :: "('u \<Rightarrow> nat \<Rightarrow> rv \<times> nat \<times> 'u) option"
  mi_map2 :: "('u \<Rightarrow> nat \<Rightarrow> nat \<Rightarrow> rv \<times> byte list) option"

record 'u sqsh_config =
  cfg_archive_offset :: nat
  cfg_source_size :: nat
  cfg_source_mapper :: "'u memory_mapper_impl option"
  cfg_mapper_block_size :: int
  cfg_max_symlink_depth :: nat

section \<open>Mapper and slices\<close>

record 'u mapper =
  mp_impl :: "'u memory_mapper_impl"
  mp_block_size :: nat
  mp_archive_size :: nat
  mp_user_data :: 'u

definition sqsh__mapper_init ::
  "'u memory_mapper_impl \<Rightarrow> 'u mapper \<Rightarrow> 'u \<Rightarrow> 'u sqsh_config \<Rightarrow> rv \<times> 'u mapper" where
  "sqsh__mapper_init mmap_impl mapper source config =
     (let impl = (case cfg_source_mapper config of Some i \<Rightarrow> i | None \<Rightarrow> mmap_impl);
          mapper = mapper\<lparr>mp_impl := impl,
            mp_block_size := (if cfg_mapper_block_size config \<noteq> 0
                              then nat (cfg_mapper_block_size config mod 2 ^ 64)
                              else mi_block_size_hint impl)\<rparr>
      in case mi_init impl of
           None \<Rightarrow>
             (case mi_init2 impl of
                None \<Rightarrow> (Fault, mapper)
              | Some init2 \<Rightarrow>
                  (case init2 source (cfg_source_size config) of (rv, sz, u) \<Rightarrow>
                     if rv \<noteq> Ok then (rv, mapper\<lparr>mp_user_data := u\<rparr>)
                     else (Ok, mapper\<lparr>mp_user_data := u, mp_archive_size := sz\<rparr>)))
         | Some init \<Rightarrow>
             (if SIZE_MAX < cfg_source_size config
              then (Err SQSH_ERROR_INTEGER_OVERFLOW, mapper)
              else case init source (cfg_source_size config) of (rv, sz, u) \<Rightarrow>
                     if rv \<noteq> Ok then (rv, mapper\<lparr>mp_user_data := u\<rparr>)
                     else (Ok, mapper\<lparr>mp_user_data := u, mp_archive_size := sz\<rparr>)))"

definition sqsh_mapper_block_size :: "'u mapper \<Rightarrow> nat" where
  "sqsh_mapper_block_size mapper = mp_block_size mapper"

definition sqsh_mapper_size2 :: "'u mapper \<Rightarrow> nat" where
  "sqsh_mapper_size2 mapper = mp_archive_size mapper"

text \<open>The static mapper: the source is a buffer in memory.\<close>

definition sqsh_mapper_static_mem_init :: "byte list \<Rightarrow> nat \<Rightarrow> rv \<times> nat \<times> byte list" where
  "sqsh_mapper_static_mem_init input sz = (Ok, sz, input)"

definition sqsh_mapper_static_mem_map :: "byte list \<Rightarrow> nat \<Rightarrow> nat \<Rightarrow> rv \<times> byte list" where
  "sqsh_mapper_static_mem_map global_data offset sz =
     (if length global_data < offset + sz then (Fault, []) else (Ok, window offset sz global_data))"

definition sqsh_mapping_static_mem_unmap :: "byte list \<Rightarrow> byte list \<Rightarrow> nat \<Rightarrow> rv" where
  "sqsh_mapping_static_mem_unmap global_data data sz = Ok"

definition sqsh_mapper_impl_static :: "byte list memory_mapper_impl" where
  "sqsh_mapper_impl_static =
     \<lparr>mi_block_size_hint = SIZE_MAX, mi_init = None, mi_map = None,
      mi_unmap = sqsh_mapping_static_mem_unmap,
      mi_init2 = Some sqsh_mapper_static_mem_init, mi_map2 = Some sqsh_mapper_static_mem_map\<rparr>"

record map_slice =
  sl_index :: nat
  sl_data :: "byte list"
  sl_size :: nat

definition mapper_map :: "'u memory_mapper_impl \<Rightarrow> 'u \<Rightarrow> nat \<Rightarrow> nat \<Rightarrow> rv \<times> byte list" where
  "mapper_map impl u offset sz =
     (case mi_map impl of
        None \<Rightarrow> (case mi_map2 impl of None \<Rightarrow> (Fault, []) | Some map_fn2 \<Rightarrow> map_fn2 u offset sz)
      | Some map1 \<Rightarrow>
          if SIZE_MAX < offset then (Err SQSH_ERROR_INTEGER_OVERFLOW, []) else map1 u offset sz)"

definition sqsh__map_slice_init ::
  "'u mapper \<Rightarrow> nat \<Rightarrow> nat \<Rightarrow> nat \<Rightarrow> map_slice \<Rightarrow> rv \<times> map_slice" where
  "sqsh__map_slice_init mapper index offset sz mapping =
     (if sqsh_mapper_size2 mapper < offset then (Err SQSH_ERROR_SIZE_MISMATCH, mapping)
      else case add_overflow 64 offset sz of
        None \<Rightarrow> (Err SQSH_ERROR_INTEGER_OVERFLOW, mapping)
      | Some end_offset \<Rightarrow>
          if sqsh_mapper_size2 mapper < end_offset then (Err SQSH_ERROR_SIZE_MISMATCH, mapping)
          else case mapper_map (mp_impl mapper) (mp_user_data mapper) offset sz of (rv, data) \<Rightarrow>
            (rv, mapping\<lparr>sl_index := index, sl_size := sz, sl_data := data\<rparr>))"

section \<open>The map manager\<close>

record ('u, 'c) map_manager =
  mm_mapper :: "'u mapper"
  mm_maps :: 'c
  mm_archive_offset :: nat
  mm_block_count :: nat

definition sqsh__map_manager_size :: "('u, 'c) map_manager \<Rightarrow> nat" where
  "sqsh__map_manager_size manager =
     wrap_sub (sqsh_mapper_size2 (mm_mapper manager)) (mm_archive_offset manager)"

definition sqsh__map_manager_block_size :: "('u, 'c) map_manager \<Rightarrow> nat" where
  "sqsh__map_manager_block_size manager = sqsh_mapper_block_size (mm_mapper manager)"

definition empty_slice :: map_slice where
  "empty_slice = \<lparr>sl_index = 0, sl_data = [], sl_size = 0\<rparr>"

definition load_mapping :: "('u, 'c) map_manager \<Rightarrow> nat \<Rightarrow> rv \<times> map_slice" where
  "load_mapping manager index =
     (let block_size = sqsh_mapper_block_size (mm_mapper manager);
          mapper_size = sqsh__map_manager_size manager
      in case mul_overflow 64 index block_size of
           None \<Rightarrow> (Err SQSH_ERROR_INTEGER_OVERFLOW, empty_slice)
         | Some offset \<Rightarrow>
             (let sz = (if index = wrap_sub (mm_block_count manager) 1 \<and> mapper_size mod block_size \<noteq> 0
                        then mapper_size mod block_size else block_size)
              in case add_overflow 64 offset (mm_archive_offset manager) of
                   None \<Rightarrow> (Err SQSH_ERROR_INTEGER_OVERFLOW, empty_slice)
                 | Some offset \<Rightarrow>
                     sqsh__map_slice_init (mm_mapper manager) index offset sz empty_slice))"

text \<open>The initialisation of the manager; the empty cache is what \<^verbatim>\<open>cx_rc_hash_map_init\<close> returns.\<close>

definition sqsh__map_manager_init ::
  "'u memory_mapper_impl \<Rightarrow> rv \<times> 'c \<Rightarrow> ('u, 'c) map_manager \<Rightarrow> 'u \<Rightarrow> 'u sqsh_config \<Rightarrow>
   rv \<times> ('u, 'c) map_manager" where
  "sqsh__map_manager_init mmap_impl cache_init manager input config =
     (case sqsh__mapper_init mmap_impl (mm_mapper manager) input config of (rv, mapper) \<Rightarrow>
        (let manager = manager\<lparr>mm_mapper := mapper\<rparr>;
             mapper_size = sqsh_mapper_size2 mapper;
             archive_offset = cfg_archive_offset config
         in if rv \<noteq> Ok then (rv, manager)
            else if mapper_size < archive_offset then (Err SQSH_ERROR_OUT_OF_BOUNDS, manager)
            else if sqsh_mapper_block_size mapper = 0 then (Fault, manager)
            else case cache_init of (rv, c) \<Rightarrow>
              (rv, manager\<lparr>mm_block_count := divide_ceil (mapper_size - archive_offset)
                                               (sqsh_mapper_block_size mapper),
                     mm_archive_offset := archive_offset, mm_maps := c\<rparr>)))"

text \<open>
  \<^verbatim>\<open>sqsh__map_manager_get\<close>: the slice of an index, from the cache or loaded with the lock
  released and put into the cache under the lock again. The out parameter is passed in and
  returned; it keeps its value when the first lock fails.
\<close>

definition sqsh__map_manager_get ::
  "('c, map_slice) cache_ops \<Rightarrow> ('u, 'c) map_manager \<Rightarrow> nat \<Rightarrow> map_slice option \<Rightarrow>
   rv \<times> map_slice option \<times> ('u, 'c) map_manager" where
  "sqsh__map_manager_get co manager index target =
     (case co_lock co (mm_maps manager) of (rv, c) \<Rightarrow>
        if rv \<noteq> Ok then (rv, target, manager\<lparr>mm_maps := c\<rparr>)
        else case co_retain co c index of
          (Some sl, c) \<Rightarrow>
            (case co_touch co c index of (rv, c) \<Rightarrow> (rv, Some sl, manager\<lparr>mm_maps := c\<rparr>))
        | (None, c) \<Rightarrow>
            (case load_mapping manager index of (rv, mapping) \<Rightarrow>
               if rv \<noteq> Ok then (rv, None, manager\<lparr>mm_maps := c\<rparr>)
               else case co_lock co c of (rv, c) \<Rightarrow>
                 if rv \<noteq> Ok then (rv, None, manager\<lparr>mm_maps := c\<rparr>)
                 else case co_put co c index mapping of
                   (None, c) \<Rightarrow> (Err SQSH_ERROR_MALLOC_FAILED, None, manager\<lparr>mm_maps := c\<rparr>)
                 | (Some sl, c) \<Rightarrow>
                     (case co_touch co c index of (rv, c) \<Rightarrow>
                        (rv, Some sl, manager\<lparr>mm_maps := c\<rparr>))))"

definition sqsh__map_manager_retain ::
  "('c, map_slice) cache_ops \<Rightarrow> ('u, 'c) map_manager \<Rightarrow> map_slice option \<Rightarrow>
   rv \<times> ('u, 'c) map_manager" where
  "sqsh__map_manager_retain co manager mapping =
     (case mapping of
        None \<Rightarrow> (Ok, manager)
      | Some sl \<Rightarrow>
          (case co_lock co (mm_maps manager) of (rv, c) \<Rightarrow>
             if rv \<noteq> Ok then (rv, manager\<lparr>mm_maps := c\<rparr>)
             else (rv, manager\<lparr>mm_maps := snd (co_retain co c (sl_index sl))\<rparr>)))"

definition sqsh__map_manager_release ::
  "('c, map_slice) cache_ops \<Rightarrow> ('u, 'c) map_manager \<Rightarrow> map_slice option \<Rightarrow>
   rv \<times> ('u, 'c) map_manager" where
  "sqsh__map_manager_release co manager mapping =
     (case mapping of
        None \<Rightarrow> (Ok, manager)
      | Some sl \<Rightarrow>
          (case co_lock co (mm_maps manager) of (rv, c) \<Rightarrow>
             if rv \<noteq> Ok then (rv, manager\<lparr>mm_maps := c\<rparr>)
             else (rv, manager\<lparr>mm_maps := snd (co_release co c (sl_index sl))\<rparr>)))"

section \<open>The map iterator\<close>

record ('u, 'c) map_iterator =
  it_manager :: "('u, 'c) map_manager"
  it_mapping :: "map_slice option"
  it_data :: "byte list option"
  it_size :: nat
  it_next_index :: nat
  it_segment_count :: nat

definition address_to_index :: "('u, 'c) map_manager \<Rightarrow> nat \<Rightarrow> nat" where
  "address_to_index manager address = address div sqsh__map_manager_block_size manager"

definition sqsh__map_iterator_init ::
  "('u, 'c) map_manager \<Rightarrow> nat \<Rightarrow> ('u, 'c) map_iterator \<Rightarrow> rv \<times> ('u, 'c) map_iterator" where
  "sqsh__map_iterator_init manager start_address iterator =
     (let block_size = sqsh__map_manager_block_size manager;
          archive_size = sqsh__map_manager_size manager
      in if archive_size \<le> start_address then (Err SQSH_ERROR_OUT_OF_BOUNDS, iterator)
         else if block_size = 0 then (Fault, iterator)
         else (Ok, iterator\<lparr>it_manager := manager,
                    it_next_index := address_to_index manager start_address,
                    it_mapping := None, it_data := None, it_size := 0,
                    it_segment_count := divide_ceil archive_size block_size\<rparr>))"

definition sqsh__map_iterator_next ::
  "('c, map_slice) cache_ops \<Rightarrow> ('u, 'c) map_iterator \<Rightarrow> bool \<times> rv \<times> ('u, 'c) map_iterator" where
  "sqsh__map_iterator_next co iterator =
     (if it_segment_count iterator \<le> it_next_index iterator
      then (False, Ok, iterator\<lparr>it_data := None, it_size := 0\<rparr>)
      else case sqsh__map_manager_release co (it_manager iterator) (it_mapping iterator) of
        (_, manager) \<Rightarrow>
          (case sqsh__map_manager_get co manager (it_next_index iterator) (it_mapping iterator) of
             (rv, mapping, manager) \<Rightarrow>
               (let iterator = iterator\<lparr>it_manager := manager, it_mapping := mapping\<rparr>
                in if rv \<noteq> Ok then (False, rv, iterator)
                   else case mapping of
                     None \<Rightarrow> (False, Fault, iterator)
                   | Some sl \<Rightarrow>
                       (0 < sl_size sl, Ok,
                        iterator\<lparr>it_size := sl_size sl, it_data := Some (sl_data sl),
                          it_next_index := wrap_add (it_next_index iterator) 1\<rparr>))))"

definition sqsh__map_iterator_skip ::
  "('c, map_slice) cache_ops \<Rightarrow> ('u, 'c) map_iterator \<Rightarrow> nat \<Rightarrow>
   rv \<times> nat \<times> ('u, 'c) map_iterator" where
  "sqsh__map_iterator_skip co iterator offset =
     (let block_size = sqsh__map_manager_block_size (it_manager iterator);
          current_size = it_size iterator
      in if offset < current_size then (Ok, offset, iterator)
         else if block_size = 0 then (Fault, offset, iterator)
         else case add_overflow 64 (it_next_index iterator) (offset div block_size) of
           None \<Rightarrow> (Err SQSH_ERROR_INTEGER_OVERFLOW, offset, iterator)
         | Some index \<Rightarrow>
             (let index = (if 0 < current_size then wrap_sub index 1 else index)
              in if SIZE_MAX < index then (Err SQSH_ERROR_INTEGER_OVERFLOW, offset, iterator)
                 else case sqsh__map_iterator_next co (iterator\<lparr>it_next_index := index\<rparr>) of
                   (has_next, rv, iterator) \<Rightarrow>
                     if rv \<noteq> Ok then (rv, offset, iterator)
                     else if \<not> has_next then (Err SQSH_ERROR_OUT_OF_BOUNDS, offset, iterator)
                     else let offset = offset mod block_size
                          in if it_size iterator < offset
                             then (Err SQSH_ERROR_OUT_OF_BOUNDS, offset, iterator)
                             else (Ok, offset, iterator)))"

definition sqsh__map_iterator_data :: "('u, 'c) map_iterator \<Rightarrow> byte list" where
  "sqsh__map_iterator_data iterator = (case it_data iterator of None \<Rightarrow> [] | Some d \<Rightarrow> d)"

definition sqsh__map_iterator_size :: "('u, 'c) map_iterator \<Rightarrow> nat" where
  "sqsh__map_iterator_size iterator = it_size iterator"

definition sqsh__map_iterator_copy ::
  "('c, map_slice) cache_ops \<Rightarrow> ('u, 'c) map_iterator \<Rightarrow> ('u, 'c) map_iterator \<Rightarrow>
   rv \<times> ('u, 'c) map_iterator" where
  "sqsh__map_iterator_copy co target source =
     (case sqsh__map_manager_retain co (it_manager source) (it_mapping source) of (rv, manager) \<Rightarrow>
        (let target = target\<lparr>it_manager := manager, it_mapping := it_mapping source\<rparr>
         in if rv \<noteq> Ok then (rv, target)
            else let target = target\<lparr>it_next_index := it_next_index source,
                       it_segment_count := it_segment_count source\<rparr>
                 in case it_data source of
                      None \<Rightarrow> (Ok, target\<lparr>it_data := None, it_size := 0\<rparr>)
                    | Some _ \<Rightarrow>
                        (case it_mapping source of
                           None \<Rightarrow> (Fault, target)
                         | Some sl \<Rightarrow>
                             (Ok, target\<lparr>it_data := Some (sl_data sl), it_size := sl_size sl\<rparr>))))"

definition sqsh__map_iterator_cleanup ::
  "('c, map_slice) cache_ops \<Rightarrow> ('u, 'c) map_iterator \<Rightarrow> rv \<times> ('u, 'c) map_iterator" where
  "sqsh__map_iterator_cleanup co iterator =
     (case sqsh__map_manager_release co (it_manager iterator) (it_mapping iterator) of
        (_, manager) \<Rightarrow> (Ok, iterator\<lparr>it_manager := manager, it_mapping := None\<rparr>))"

section \<open>The map reader\<close>

text \<open>The function table of the map reader; the bound is the number of segments left.\<close>

definition map_reader_impl ::
  "('c, map_slice) cache_ops \<Rightarrow> ('u, 'c) map_iterator reader_iterator_impl" where
  "map_reader_impl co =
     \<lparr>ri_next = (\<lambda>it desired_size. sqsh__map_iterator_next co it),
      ri_skip = (\<lambda>it offset desired_size. sqsh__map_iterator_skip co it offset),
      ri_data = sqsh__map_iterator_data, ri_size = sqsh__map_iterator_size,
      ri_fuel = (\<lambda>it. it_segment_count it - it_next_index it)\<rparr>"

record ('u, 'c, 'b) map_reader =
  mr_address :: nat
  mr_upper_limit :: nat
  mr_reader :: "(('u, 'c) map_iterator, 'b) reader"

definition sqsh__map_reader_cleanup ::
  "('c, map_slice) cache_ops \<Rightarrow> ('u, 'c, 'b) map_reader \<Rightarrow> rv \<times> ('u, 'c, 'b) map_reader" where
  "sqsh__map_reader_cleanup co mr =
     (case sqsh__map_iterator_cleanup co (rd_iterator (mr_reader mr)) of
        (_, it) \<Rightarrow> (Ok, mr\<lparr>mr_reader := (mr_reader mr)\<lparr>rd_iterator := it\<rparr>\<rparr>))"

definition sqsh__map_reader_init ::
  "('c, map_slice) cache_ops \<Rightarrow> 'b cx_buffer_ops \<Rightarrow> ('u, 'c) map_manager \<Rightarrow> nat \<Rightarrow> nat \<Rightarrow>
   ('u, 'c, 'b) map_reader \<Rightarrow> rv \<times> ('u, 'c, 'b) map_reader" where
  "sqsh__map_reader_init co bo map_manager start_address upper_limit mr =
     (if sqsh__map_manager_block_size map_manager = 0 then (Fault, mr)
      else
       let offset = start_address mod sqsh__map_manager_block_size map_manager
       in case andthen
            (case sqsh__map_iterator_init map_manager (start_address - offset)
                    (rd_iterator (mr_reader mr)) of
               (rv, it) \<Rightarrow> (rv, mr\<lparr>mr_reader := (mr_reader mr)\<lparr>rd_iterator := it\<rparr>\<rparr>))
            (\<lambda>mr. andthen
              (case sqsh__reader_init bo (rd_iterator (mr_reader mr)) (mr_reader mr) of
                 (rv, r) \<Rightarrow> (rv, mr\<lparr>mr_reader := r\<rparr>))
              (\<lambda>mr. case sqsh__reader_advance (map_reader_impl co) bo (mr_reader mr) offset 0 of
                 (rv, r) \<Rightarrow> (rv, mr\<lparr>mr_reader := r, mr_upper_limit := upper_limit,
                                mr_address := start_address\<rparr>))) of
          (Ok, mr) \<Rightarrow> (Ok, mr)
        | (e, mr) \<Rightarrow> (e, snd (sqsh__map_reader_cleanup co mr)))"

definition sqsh__map_reader_remaining_direct :: "('u, 'c, 'b) map_reader \<Rightarrow> nat" where
  "sqsh__map_reader_remaining_direct mr =
     (let block_size = sqsh__map_manager_block_size (it_manager (rd_iterator (mr_reader mr)))
      in block_size - mr_address mr mod block_size)"

definition sqsh__map_reader_address :: "('u, 'c, 'b) map_reader \<Rightarrow> nat" where
  "sqsh__map_reader_address mr = mr_address mr"

definition sqsh__map_reader_advance ::
  "('c, map_slice) cache_ops \<Rightarrow> 'b cx_buffer_ops \<Rightarrow> ('u, 'c, 'b) map_reader \<Rightarrow> nat \<Rightarrow> nat \<Rightarrow>
   rv \<times> ('u, 'c, 'b) map_reader" where
  "sqsh__map_reader_advance co bo mr offset sz =
     (case sqsh__reader_advance (map_reader_impl co) bo (mr_reader mr) offset sz of
        (rv, r) \<Rightarrow> (rv, mr\<lparr>mr_address := wrap_add (mr_address mr) offset, mr_reader := r\<rparr>))"

definition sqsh__map_reader_all ::
  "('c, map_slice) cache_ops \<Rightarrow> 'b cx_buffer_ops \<Rightarrow> ('u, 'c, 'b) map_reader \<Rightarrow>
   rv \<times> ('u, 'c, 'b) map_reader" where
  "sqsh__map_reader_all co bo mr =
     (let sz = wrap_sub (mr_upper_limit mr) (mr_address mr)
      in if SIZE_MAX < sz then (Err SQSH_ERROR_INTEGER_OVERFLOW, mr)
         else sqsh__map_reader_advance co bo mr 0 sz)"

definition sqsh__map_reader_data ::
  "('c, map_slice) cache_ops \<Rightarrow> 'b cx_buffer_ops \<Rightarrow> ('u, 'c, 'b) map_reader \<Rightarrow> byte list" where
  "sqsh__map_reader_data co bo mr = sqsh__reader_data (map_reader_impl co) bo (mr_reader mr)"

definition sqsh__map_reader_size :: "('u, 'c, 'b) map_reader \<Rightarrow> nat" where
  "sqsh__map_reader_size mr = sqsh__reader_size (mr_reader mr)"

definition sqsh__map_reader_copy ::
  "('c, map_slice) cache_ops \<Rightarrow> 'b cx_buffer_ops \<Rightarrow> ('u, 'c, 'b) map_reader \<Rightarrow>
   ('u, 'c, 'b) map_reader \<Rightarrow> rv \<times> ('u, 'c, 'b) map_reader" where
  "sqsh__map_reader_copy co bo target source =
     (case sqsh__map_iterator_copy co (rd_iterator (mr_reader target))
             (rd_iterator (mr_reader source)) of (rv, it) \<Rightarrow>
        (let target = target\<lparr>mr_reader := (mr_reader target)\<lparr>rd_iterator := it\<rparr>\<rparr>
         in if rv \<noteq> Ok then (rv, snd (sqsh__map_reader_cleanup co target))
            else case sqsh__reader_copy (Some (map_reader_impl co)) bo (mr_reader target)
                        (mr_reader source) it of (rv, r) \<Rightarrow>
              (let target = target\<lparr>mr_reader := r\<rparr>
               in if rv \<noteq> Ok then (rv, snd (sqsh__map_reader_cleanup co target))
                  else (Ok, target\<lparr>mr_address := mr_address source,
                              mr_upper_limit := mr_upper_limit source\<rparr>))))"


section \<open>Correctness of the mapping layer\<close>

text \<open>
  The contract of a memory mapper: within the source, \<^verbatim>\<open>map\<close> delivers the bytes of the source or
  an error code. Every mapper of the library promises it; the one that is modelled in full is the
  static mapper.
\<close>

locale memory_mapper =
  fixes impl :: "'u memory_mapper_impl" and src :: "'u \<Rightarrow> byte list"
  assumes map_window: "off + sz \<le> length (src u) \<Longrightarrow> mapper_map impl u off sz = (rv, d) \<Longrightarrow>
    safe_rv rv \<and> (rv = Ok \<longrightarrow> d = window off sz (src u))"

locale live_memory_mapper = memory_mapper +
  assumes map_total: "off + sz \<le> length (src u) \<Longrightarrow> fst (mapper_map impl u off sz) = Ok"

interpretation static_mapper: live_memory_mapper sqsh_mapper_impl_static "\<lambda>u. u"
  by unfold_locales
    (auto simp: mapper_map_def sqsh_mapper_impl_static_def sqsh_mapper_static_mem_map_def
      split: if_splits)

abbreviation manager_source :: "('u \<Rightarrow> byte list) \<Rightarrow> ('u, 'c) map_manager \<Rightarrow> byte list" where
  "manager_source src m \<equiv> src (mp_user_data (mm_mapper m))"

text \<open>The archive: the source from the configured offset on.\<close>

definition archive_bytes :: "('u \<Rightarrow> byte list) \<Rightarrow> ('u, 'c) map_manager \<Rightarrow> byte list" where
  "archive_bytes src m =
     window (mm_archive_offset m) (sqsh__map_manager_size m) (manager_source src m)"

definition slice_size :: "('u, 'c) map_manager \<Rightarrow> nat \<Rightarrow> nat" where
  "slice_size m i = min (sqsh__map_manager_block_size m)
     (sqsh__map_manager_size m - i * sqsh__map_manager_block_size m)"

definition good_slice ::
  "('u \<Rightarrow> byte list) \<Rightarrow> ('u, 'c) map_manager \<Rightarrow> nat \<Rightarrow> map_slice \<Rightarrow> bool" where
  "good_slice src m i sl \<longleftrightarrow> i < mm_block_count m \<and> sl_index sl = i \<and>
     sl_size sl = slice_size m i \<and>
     sl_data sl = window (i * sqsh__map_manager_block_size m) (slice_size m i) (archive_bytes src m)"

definition manager_shape :: "('u \<Rightarrow> byte list) \<Rightarrow> ('u, 'c) map_manager \<Rightarrow> bool" where
  "manager_shape src m \<longleftrightarrow> memory_mapper (mp_impl (mm_mapper m)) src \<and>
     0 < mp_block_size (mm_mapper m) \<and> mp_block_size (mm_mapper m) < 2 ^ 64 \<and>
     mm_archive_offset m \<le> mp_archive_size (mm_mapper m) \<and>
     mp_archive_size (mm_mapper m) \<le> length (manager_source src m) \<and>
     mp_archive_size (mm_mapper m) < 2 ^ 64 \<and>
     mm_block_count m = divide_ceil (mp_archive_size (mm_mapper m) - mm_archive_offset m)
                                    (mp_block_size (mm_mapper m))"

definition manager_ok ::
  "('c, map_slice) cache_ops \<Rightarrow> ((nat \<Rightarrow> map_slice \<Rightarrow> bool) \<Rightarrow> 'c \<Rightarrow> bool) \<Rightarrow>
   ('u \<Rightarrow> byte list) \<Rightarrow> ('u, 'c) map_manager \<Rightarrow> bool" where
  "manager_ok co entries src m \<longleftrightarrow> cache_ok co entries \<and> manager_shape src m \<and>
     entries (good_slice src m) (mm_maps m)"

lemma manager_maps_update [simp]:
  "sqsh__map_manager_size (m\<lparr>mm_maps := c\<rparr>) = sqsh__map_manager_size m"
  "sqsh__map_manager_block_size (m\<lparr>mm_maps := c\<rparr>) = sqsh__map_manager_block_size m"
  "archive_bytes src (m\<lparr>mm_maps := c\<rparr>) = archive_bytes src m"
  "slice_size (m\<lparr>mm_maps := c\<rparr>) i = slice_size m i"
  "good_slice src (m\<lparr>mm_maps := c\<rparr>) = good_slice src m"
  "manager_shape src (m\<lparr>mm_maps := c\<rparr>) = manager_shape src m"
  by (simp_all add: sqsh__map_manager_size_def sqsh__map_manager_block_size_def
      archive_bytes_def slice_size_def good_slice_def manager_shape_def fun_eq_iff)

lemma manager_size:
  assumes "manager_shape src m"
  shows "sqsh__map_manager_size m = mp_archive_size (mm_mapper m) - mm_archive_offset m"
    "length (archive_bytes src m) = sqsh__map_manager_size m"
    "sqsh__map_manager_size m < 2 ^ 64" "0 < sqsh__map_manager_block_size m"
    "sqsh__map_manager_block_size m < 2 ^ 64"
    "mm_block_count m = divide_ceil (sqsh__map_manager_size m) (sqsh__map_manager_block_size m)"
proof -
  show 1: "sqsh__map_manager_size m = mp_archive_size (mm_mapper m) - mm_archive_offset m"
    using assms by (simp add: sqsh__map_manager_size_def manager_shape_def sqsh_mapper_size2_def
        wrap_sub_exact)
  show "length (archive_bytes src m) = sqsh__map_manager_size m"
    using assms 1 by (auto simp: archive_bytes_def manager_shape_def)
  show "sqsh__map_manager_size m < 2 ^ 64" "0 < sqsh__map_manager_block_size m"
    "sqsh__map_manager_block_size m < 2 ^ 64"
    "mm_block_count m = divide_ceil (sqsh__map_manager_size m) (sqsh__map_manager_block_size m)"
    using assms 1 by (auto simp: manager_shape_def sqsh__map_manager_block_size_def
        sqsh_mapper_block_size_def)
qed

lemma block_count_less:
  assumes "manager_shape src m"
  shows "i < mm_block_count m \<longleftrightarrow> i * sqsh__map_manager_block_size m < sqsh__map_manager_size m"
proof -
  have "sqsh__map_manager_size m \<le> sqsh__map_manager_block_size m * i \<longleftrightarrow> mm_block_count m \<le> i"
    unfolding manager_size(6) [OF assms]
    using divide_ceil_least [OF manager_size(4) [OF assms]] .
  then show ?thesis by (simp add: mult.commute not_le [symmetric])
qed

lemma slice_size_less:
  assumes "manager_shape src m" "Suc i < mm_block_count m"
  shows "slice_size m i = sqsh__map_manager_block_size m"
proof -
  have "i * sqsh__map_manager_block_size m + sqsh__map_manager_block_size m
      < sqsh__map_manager_size m"
    using assms(2) block_count_less [OF assms(1), of "Suc i"] by (simp add: algebra_simps)
  then show ?thesis by (simp add: slice_size_def)
qed

lemma slice_size_pos:
  assumes "manager_shape src m" "i < mm_block_count m"
  shows "0 < slice_size m i"
    "i * sqsh__map_manager_block_size m + slice_size m i \<le> sqsh__map_manager_size m"
proof -
  have "i * sqsh__map_manager_block_size m < sqsh__map_manager_size m"
    using assms block_count_less [of src m i] by simp
  then show "0 < slice_size m i"
    "i * sqsh__map_manager_block_size m + slice_size m i \<le> sqsh__map_manager_size m"
    using manager_size(4) [OF assms(1)] by (simp_all add: slice_size_def)
qed

lemma slice_size_short:
  assumes "manager_shape src m" "i < mm_block_count m"
    "slice_size m i < sqsh__map_manager_block_size m"
  shows "Suc i = mm_block_count m"
  using assms slice_size_less [of src m i] by (metis Suc_lessI nat_neq_iff)

text \<open>The size \<^verbatim>\<open>load_mapping\<close> computes for the slice of an index.\<close>

lemma load_mapping_size:
  assumes "manager_shape src m" "i < mm_block_count m"
  shows "(if i = wrap_sub (mm_block_count m) 1 \<and>
      sqsh__map_manager_size m mod sqsh__map_manager_block_size m \<noteq> 0
     then sqsh__map_manager_size m mod sqsh__map_manager_block_size m
     else sqsh__map_manager_block_size m) = slice_size m i"
proof -
  let ?n = "sqsh__map_manager_size m" and ?b = "sqsh__map_manager_block_size m"
  note ms = manager_size [OF assms(1)]
  have cnt: "mm_block_count m = ?n div ?b + (if ?n mod ?b \<noteq> 0 then 1 else 0)"
    using ms(6) by (simp add: divide_ceil_def)
  have "mm_block_count m \<le> ?n"
    using divide_ceil_least [OF ms(4), of ?n ?n] ms(4,6) by simp
  then have w: "wrap_sub (mm_block_count m) 1 = mm_block_count m - 1"
    using assms(2) ms(3) by (simp add: wrap_sub_exact)
  have dm: "?n = ?n div ?b * ?b + ?n mod ?b" by simp
  show ?thesis
  proof (cases "i = mm_block_count m - 1")
    case last: True
    show ?thesis
    proof (cases "?n mod ?b = 0")
      case True
      then have "?n = (i + 1) * ?b" using last cnt assms(2) dm by simp
      then show ?thesis using True by (simp add: slice_size_def)
    next
      case False
      then have "i = ?n div ?b" using last cnt by simp
      then have "?n - i * ?b = ?n mod ?b" using dm by (metis add_diff_cancel_left')
      moreover have "?n mod ?b < ?b" using ms(4) by simp
      ultimately show ?thesis using False last w by (simp add: slice_size_def)
    qed
  next
    case False
    then show ?thesis using w assms slice_size_less [of src m i] by simp
  qed
qed

lemma load_mapping_correct:
  assumes sh: "manager_shape src m" and i: "i < mm_block_count m"
    and eq: "load_mapping m i = (rv, sl)"
  shows "safe_rv rv \<and> (rv = Ok \<longrightarrow> good_slice src m i sl) \<and>
    (live_memory_mapper (mp_impl (mm_mapper m)) src \<longrightarrow> rv = Ok)"
proof -
  let ?n = "sqsh__map_manager_size m" and ?b = "sqsh__map_manager_block_size m"
    and ?s = "slice_size m i" and ?o = "mm_archive_offset m" and ?mp = "mm_mapper m"
  note ms = manager_size [OF sh] and sp = slice_size_pos [OF sh i]
  have as: "mp_archive_size ?mp \<le> length (manager_source src m)" "mp_archive_size ?mp < 2 ^ 64"
    "?o + ?n = mp_archive_size ?mp"
    using sh ms(1) by (auto simp: manager_shape_def)
  have b: "i * ?b + ?o + ?s \<le> mp_archive_size ?mp" using sp(2) as(3) by linarith
  have m: "mul_overflow 64 i ?b = Some (i * ?b)" "add_overflow 64 (i * ?b) ?o = Some (i * ?b + ?o)"
    "add_overflow 64 (i * ?b + ?o) ?s = Some (i * ?b + ?o + ?s)"
    using b as(2) by simp_all
  obtain rv' d where mm: "mapper_map (mp_impl ?mp) (mp_user_data ?mp) (i * ?b + ?o) ?s = (rv', d)"
    by fastforce
  have e: "rv = rv'" "sl = \<lparr>sl_index = i, sl_data = d, sl_size = ?s\<rparr>"
    using eq load_mapping_size [OF sh i] b m mm
    by (auto simp: load_mapping_def Let_def sqsh__map_slice_init_def sqsh_mapper_size2_def
        empty_slice_def sqsh__map_manager_block_size_def [symmetric]
        simp del: add_overflow_Some mul_overflow_Some)
  have mmp: "memory_mapper (mp_impl ?mp) src" using sh by (simp add: manager_shape_def)
  have bl: "i * ?b + ?o + ?s \<le> length (manager_source src m)" using b as(1) by simp
  have "window (?o + i * ?b) ?s (manager_source src m) = window (i * ?b) ?s (archive_bytes src m)"
    using sp(2) by (simp add: archive_bytes_def window_window)
  with memory_mapper.map_window [OF mmp bl mm] e i
  have "safe_rv rv \<and> (rv = Ok \<longrightarrow> good_slice src m i sl)"
    by (simp add: good_slice_def add.commute)
  moreover have "rv = Ok" if "live_memory_mapper (mp_impl ?mp) src"
    using live_memory_mapper.map_total [OF that bl] mm e by simp
  ultimately show ?thesis by blast
qed


lemma load_mapping_live:
  "manager_shape src m \<Longrightarrow> i < mm_block_count m \<Longrightarrow>
   live_memory_mapper (mp_impl (mm_mapper m)) src \<Longrightarrow> fst (load_mapping m i) = Ok"
  by (metis load_mapping_correct prod.collapse)

lemma cache_lock:
  assumes "cache_ok co entries" "entries P c" "co_lock co c = (rv, c')"
  shows "safe_rv rv \<and> entries P c'"
  using assms unfolding cache_ok_def by (metis fst_conv snd_conv)

lemma cache_retain:
  assumes "cache_ok co entries" "entries P c" "co_retain co c k = (v, c')"
  shows "entries P c' \<and> (\<forall>w. v = Some w \<longrightarrow> P k w)"
  using assms unfolding cache_ok_def by (metis fst_conv snd_conv)

lemma cache_put:
  assumes "cache_ok co entries" "entries P c" "P k x" "co_put co c k x = (v, c')"
  shows "entries P c' \<and> (\<forall>w. v = Some w \<longrightarrow> P k w)"
  using assms unfolding cache_ok_def by (metis fst_conv snd_conv)

lemma cache_touch:
  assumes "cache_ok co entries" "entries P c" "co_touch co c k = (rv, c')"
  shows "safe_rv rv \<and> entries P c'"
  using assms unfolding cache_ok_def by (metis fst_conv snd_conv)

lemma cache_unlock:
  assumes "cache_ok co entries" "entries P c" "co_unlock co c = (rv, c')"
  shows "safe_rv rv \<and> entries P c'"
  using assms unfolding cache_ok_def by (metis fst_conv snd_conv)

lemma cache_release:
  "cache_ok co entries \<Longrightarrow> entries P c \<Longrightarrow>
   safe_rv (fst (co_release co c k)) \<and> entries P (snd (co_release co c k))"
  unfolding cache_ok_def by metis

text \<open>
  \<^verbatim>\<open>sqsh__map_manager_get\<close> delivers the slice of the archive, whatever the cache does, and
  changes nothing but the cache.
\<close>

lemma map_manager_get_correct:
  assumes ok: "manager_ok co entries src m" and i: "i < mm_block_count m"
    and eq: "sqsh__map_manager_get co m i t = (rv, sl, m')"
  shows "safe_rv rv \<and> manager_ok co entries src m' \<and> (\<exists>c. m' = m\<lparr>mm_maps := c\<rparr>) \<and>
    (rv = Ok \<longrightarrow> (\<exists>x. sl = Some x \<and> good_slice src m i x)) \<and>
    (cache_total co \<and> live_memory_mapper (mp_impl (mm_mapper m)) src \<longrightarrow> rv = Ok)"
proof -
  let ?P = "good_slice src m"
  from ok have co: "cache_ok co entries" and sh: "manager_shape src m"
    and en: "entries ?P (mm_maps m)" by (simp_all add: manager_ok_def)
  have mok: "manager_ok co entries src (m\<lparr>mm_maps := c\<rparr>)" if "entries ?P c" for c
    using co sh that by (simp add: manager_ok_def)
  have touch: "safe_rv r \<and> manager_ok co entries src (m\<lparr>mm_maps := c'\<rparr>) \<and>
      (cache_total co \<longrightarrow> r = Ok)"
    if "entries ?P c" "co_touch co c k = (r, c')" for c k r c'
  proof -
    have "cache_total co \<longrightarrow> r = Ok" using that(2) by (metis cache_total_def fst_conv)
    with cache_touch [OF co that] mok [of c'] show ?thesis by blast
  qed
  have tot: "cache_total co \<Longrightarrow> r = Ok" if "co_lock co c = (r, c')" for r c c'
    using that by (metis cache_total_def fst_conv)
  obtain rv1 c1 where l1: "co_lock co (mm_maps m) = (rv1, c1)" by fastforce
  note L1 = cache_lock [OF co en l1]
  show ?thesis
  proof (cases "rv1 = Ok")
    case False
    with eq l1 have "rv = rv1" "m' = m\<lparr>mm_maps := c1\<rparr>"
      by (simp_all add: sqsh__map_manager_get_def)
    then show ?thesis using L1 mok tot [OF l1] False by auto
  next
    case rv1: True
    obtain v c2 where r: "co_retain co c1 i = (v, c2)" by fastforce
    note R = cache_retain [OF co conjunct2 [OF L1] r]
    show ?thesis
    proof (cases v)
      case (Some x)
      obtain rv2 c3 where t: "co_touch co c2 i = (rv2, c3)" by fastforce
      with eq l1 rv1 r Some have "rv = rv2" "sl = Some x" "m' = m\<lparr>mm_maps := c3\<rparr>"
        by (simp_all add: sqsh__map_manager_get_def)
      then show ?thesis using touch [OF conjunct1 [OF R] t] R Some by auto
    next
      case None
      obtain rv2 x where ld: "load_mapping m i = (rv2, x)" by fastforce
      note LD = load_mapping_correct [OF sh i ld]
      show ?thesis
      proof (cases "rv2 = Ok")
        case False
        with eq l1 rv1 r None ld have "rv = rv2" "m' = m\<lparr>mm_maps := c2\<rparr>"
          by (simp_all add: sqsh__map_manager_get_def)
        then show ?thesis using LD R mok False by auto
      next
        case rv2: True
        obtain rv3 c3 where l3: "co_lock co c2 = (rv3, c3)" by fastforce
        note L3 = cache_lock [OF co conjunct1 [OF R] l3]
        show ?thesis
        proof (cases "rv3 = Ok")
          case False
          with eq l1 rv1 r None ld rv2 l3 have "rv = rv3" "m' = m\<lparr>mm_maps := c3\<rparr>"
            by (simp_all add: sqsh__map_manager_get_def)
          then show ?thesis using L3 mok tot [OF l3] False by auto
        next
          case rv3: True
          obtain w c4 where p: "co_put co c3 i x = (w, c4)" by fastforce
          have P: "entries ?P c4 \<and> (\<forall>y. w = Some y \<longrightarrow> ?P i y)"
            using cache_put [where P = ?P, OF co _ _ p] L3 LD rv2 by blast
          show ?thesis
          proof (cases w)
            case None
            then have "\<not> cache_total co" using p by (metis cache_total_def fst_conv)
            moreover have "rv = Err SQSH_ERROR_MALLOC_FAILED" "m' = m\<lparr>mm_maps := c4\<rparr>"
              using eq l1 rv1 r \<open>v = None\<close> ld rv2 l3 rv3 p None
              by (simp_all add: sqsh__map_manager_get_def)
            ultimately show ?thesis using P mok by auto
          next
            case (Some y)
            obtain rv5 c5 where t: "co_touch co c4 i = (rv5, c5)" by fastforce
            have "rv = rv5" "sl = Some y" "m' = m\<lparr>mm_maps := c5\<rparr>"
              using eq l1 rv1 r \<open>v = None\<close> ld rv2 l3 rv3 p Some t
              by (simp_all add: sqsh__map_manager_get_def)
            then show ?thesis using touch [OF conjunct1 [OF P] t] P Some by auto
          qed
        qed
      qed
    qed
  qed
qed

lemma map_manager_release_correct:
  assumes ok: "manager_ok co entries src m"
    and eq: "sqsh__map_manager_release co m sl = (rv, m')"
  shows "safe_rv rv \<and> manager_ok co entries src m' \<and> (\<exists>c. m' = m\<lparr>mm_maps := c\<rparr>)"
proof -
  from ok have co: "cache_ok co entries" and sh: "manager_shape src m"
    and en: "entries (good_slice src m) (mm_maps m)" by (simp_all add: manager_ok_def)
  have mok: "manager_ok co entries src (m\<lparr>mm_maps := c\<rparr>)" if "entries (good_slice src m) c" for c
    using co sh that by (simp add: manager_ok_def)
  show ?thesis
  proof (cases sl)
    case None
    then have rv: "rv = Ok" "m' = m" using eq by (simp_all add: sqsh__map_manager_release_def)
    have "m = m\<lparr>mm_maps := mm_maps m\<rparr>" by simp
    then show ?thesis unfolding rv(2) rv(1) using ok by (metis safe_rv_simps(1))
  next
    case (Some x)
    obtain rv1 c1 where l1: "co_lock co (mm_maps m) = (rv1, c1)" by fastforce
    note L1 = cache_lock [OF co en l1]
    have "rv = rv1"
      "m' = m\<lparr>mm_maps := c1\<rparr> \<or> m' = m\<lparr>mm_maps := snd (co_release co c1 (sl_index x))\<rparr>"
      using eq Some l1 by (auto simp: sqsh__map_manager_release_def split: if_splits)
    then show ?thesis using L1 mok cache_release [OF co] by auto
  qed
qed


subsection \<open>The map iterator delivers the slices of the archive\<close>

definition map_start :: "('u, 'c) map_iterator \<Rightarrow> nat" where
  "map_start it = (if it_size it = 0 then it_next_index it else it_next_index it - 1) *
     sqsh__map_manager_block_size (it_manager it)"

definition map_stream :: "('u \<Rightarrow> byte list) \<Rightarrow> ('u, 'c) map_iterator \<Rightarrow> byte list" where
  "map_stream src it = archive_bytes src (it_manager it)"

text \<open>
  Before the first \<^verbatim>\<open>next\<close> an iterator has no data and stands before a segment of the archive;
  afterwards it holds the slice before its next index.
\<close>

definition map_iterator_ok ::
  "('c, map_slice) cache_ops \<Rightarrow> ((nat \<Rightarrow> map_slice \<Rightarrow> bool) \<Rightarrow> 'c \<Rightarrow> bool) \<Rightarrow>
   ('u \<Rightarrow> byte list) \<Rightarrow> ('u, 'c) map_iterator \<Rightarrow> bool" where
  "map_iterator_ok co entries src it \<longleftrightarrow> manager_ok co entries src (it_manager it) \<and>
     it_segment_count it = mm_block_count (it_manager it) \<and>
     (it_data it = None \<and> it_size it = 0 \<and> it_next_index it < it_segment_count it \<or>
      (\<exists>i sl. it_next_index it = Suc i \<and> it_mapping it = Some sl \<and>
         good_slice src (it_manager it) i sl \<and> it_data it = Some (sl_data sl) \<and>
         it_size it = sl_size sl))"

definition map_iterator_live ::
  "('c, map_slice) cache_ops \<Rightarrow> ('u \<Rightarrow> byte list) \<Rightarrow> ('u, 'c) map_iterator \<Rightarrow> bool" where
  "map_iterator_live co src it \<longleftrightarrow> cache_total co \<and>
     live_memory_mapper (mp_impl (mm_mapper (it_manager it))) src"

lemma manager_maps_mapper [simp]: "mm_mapper (m\<lparr>mm_maps := c\<rparr>) = mm_mapper m"
  "mm_block_count (m\<lparr>mm_maps := c\<rparr>) = mm_block_count m"
  by simp_all

text \<open>A step of the iterator to the segment of its next index.\<close>

lemma map_iterator_next_segment:
  assumes ok: "manager_ok co entries src (it_manager it)"
    and seg: "it_segment_count it = mm_block_count (it_manager it)"
    and i: "it_next_index it < it_segment_count it"
    and eq: "sqsh__map_iterator_next co it = (hn, rv, it')"
  shows "safe_rv rv \<and> (hn \<longleftrightarrow> rv = Ok) \<and>
    (hn \<longrightarrow> map_iterator_ok co entries src it' \<and> map_stream src it' = map_stream src it \<and>
       it_segment_count it' = it_segment_count it \<and>
       it_next_index it' = Suc (it_next_index it) \<and>
       it_size it' = slice_size (it_manager it) (it_next_index it) \<and> 0 < it_size it' \<and>
       sqsh__map_manager_block_size (it_manager it')
         = sqsh__map_manager_block_size (it_manager it)) \<and>
    (map_iterator_live co src it \<longrightarrow> hn \<and> map_iterator_live co src it')"
proof -
  let ?i = "it_next_index it"
  obtain rv0 m0 where rl: "sqsh__map_manager_release co (it_manager it) (it_mapping it) = (rv0, m0)"
    by fastforce
  from map_manager_release_correct [OF ok rl]
  obtain c0 where m0: "manager_ok co entries src m0" "m0 = (it_manager it)\<lparr>mm_maps := c0\<rparr>" by auto
  have i0: "?i < mm_block_count m0" using i seg m0(2) by simp
  obtain rv1 sl m1 where gt: "sqsh__map_manager_get co m0 ?i (it_mapping it) = (rv1, sl, m1)"
    by (rule prod_cases3)
  from map_manager_get_correct [OF m0(1) i0 gt] obtain c1 where
    m1: "safe_rv rv1" "manager_ok co entries src m1" "m1 = (it_manager it)\<lparr>mm_maps := c1\<rparr>"
    and sl: "rv1 = Ok \<Longrightarrow> \<exists>x. sl = Some x \<and> good_slice src (it_manager it) ?i x"
    and lv: "cache_total co \<and> live_memory_mapper (mp_impl (mm_mapper (it_manager it))) src \<Longrightarrow>
      rv1 = Ok"
    using m0(2) by auto
  have sh: "manager_shape src (it_manager it)" using ok by (simp add: manager_ok_def)
  show ?thesis
  proof (cases "rv1 = Ok")
    case False
    with eq i rl gt have "rv = rv1" "\<not> hn" by (auto simp: sqsh__map_iterator_next_def)
    then show ?thesis using False m1 lv by (auto simp: map_iterator_live_def)
  next
    case True
    then obtain x where x: "sl = Some x" "good_slice src (it_manager it) ?i x" using sl by auto
    have sz: "sl_size x = slice_size (it_manager it) ?i" "0 < sl_size x"
      using x slice_size_pos [OF sh, of ?i] i seg by (auto simp: good_slice_def)
    have "mm_block_count (it_manager it) \<le> sqsh__map_manager_size (it_manager it)"
      using divide_ceil_least [OF manager_size(4) [OF sh]] manager_size(4,6) [OF sh]
      by (metis mult_le_mono1 One_nat_def Suc_leI nat_mult_1)
    then have w: "wrap_add ?i 1 = Suc ?i"
      using i seg manager_size(3) [OF sh] by (simp add: wrap_add_exact)
    have it': "hn" "rv = Ok"
      "it' = it\<lparr>it_manager := m1, it_mapping := sl, it_size := sl_size x,
         it_data := Some (sl_data x), it_next_index := Suc ?i\<rparr>"
      using eq i rl gt True x(1) sz(2) w
      by (auto simp: sqsh__map_iterator_next_def Let_def)
    then show ?thesis
      using m1(2,3) x sz seg
      by (simp add: map_iterator_ok_def map_stream_def map_iterator_live_def)
  qed
qed

lemma map_iterator_ok_manager:
  "map_iterator_ok co entries src it \<Longrightarrow> manager_ok co entries src (it_manager it)"
  "map_iterator_ok co entries src it \<Longrightarrow> manager_shape src (it_manager it)"
  "map_iterator_ok co entries src it \<Longrightarrow> it_segment_count it = mm_block_count (it_manager it)"
  by (simp_all add: map_iterator_ok_def manager_ok_def)

lemma map_iterator_chunk:
  assumes ok: "map_iterator_ok co entries src it"
  shows "sqsh__map_iterator_size it = length (sqsh__map_iterator_data it)"
    "sqsh__map_iterator_data it = window (map_start it) (sqsh__map_iterator_size it)
       (map_stream src it)"
    "map_start it + sqsh__map_iterator_size it \<le> length (map_stream src it)"
    "length (map_stream src it) < 2 ^ 64"
proof -
  let ?m = "it_manager it"
  note sh = map_iterator_ok_manager(2) [OF ok]
  note ms = manager_size [OF sh]
  show "length (map_stream src it) < 2 ^ 64" using ms by (simp add: map_stream_def)
  from ok consider "it_data it = None" "it_size it = 0" "it_next_index it < it_segment_count it"
    | i sl where "it_next_index it = Suc i" "good_slice src ?m i sl"
      "it_data it = Some (sl_data sl)" "it_size it = sl_size sl"
    unfolding map_iterator_ok_def by auto
  then have "sqsh__map_iterator_size it = length (sqsh__map_iterator_data it) \<and>
    sqsh__map_iterator_data it = window (map_start it) (sqsh__map_iterator_size it)
       (map_stream src it) \<and>
    map_start it + sqsh__map_iterator_size it \<le> length (map_stream src it)"
  proof cases
    case 1
    then have "it_next_index it * sqsh__map_manager_block_size ?m < sqsh__map_manager_size ?m"
      using block_count_less [OF sh] map_iterator_ok_manager(3) [OF ok] by simp
    then show ?thesis using 1 ms(2)
      by (simp add: sqsh__map_iterator_size_def sqsh__map_iterator_data_def map_start_def
          map_stream_def)
  next
    case 2
    then have "0 < sl_size sl" "sl_size sl = slice_size ?m i"
      "i * sqsh__map_manager_block_size ?m + slice_size ?m i \<le> sqsh__map_manager_size ?m"
      using slice_size_pos [OF sh, of i] by (auto simp: good_slice_def)
    then show ?thesis using 2 ms(2)
      by (simp add: sqsh__map_iterator_size_def sqsh__map_iterator_data_def map_start_def
          map_stream_def good_slice_def)
  qed
  then show "sqsh__map_iterator_size it = length (sqsh__map_iterator_data it)"
    "sqsh__map_iterator_data it = window (map_start it) (sqsh__map_iterator_size it)
       (map_stream src it)"
    "map_start it + sqsh__map_iterator_size it \<le> length (map_stream src it)"
    by blast+
qed

text \<open>The next segment starts where the current chunk ends, unless the current one is the last.\<close>

lemma map_start_next:
  assumes ok: "map_iterator_ok co entries src it" and i: "it_next_index it < it_segment_count it"
  shows "it_next_index it * sqsh__map_manager_block_size (it_manager it)
    = map_start it + it_size it"
proof -
  let ?m = "it_manager it"
  note sh = map_iterator_ok_manager(2) [OF ok] and seg = map_iterator_ok_manager(3) [OF ok]
  from ok consider "it_size it = 0"
    | j sl where "it_next_index it = Suc j" "good_slice src ?m j sl" "it_size it = sl_size sl"
    unfolding map_iterator_ok_def by auto
  then show ?thesis
  proof cases
    case 2
    then have "0 < sl_size sl" "sl_size sl = sqsh__map_manager_block_size ?m"
      using slice_size_pos [OF sh, of j] slice_size_less [OF sh, of j] i seg
      by (auto simp: good_slice_def)
    then show ?thesis using 2 by (simp add: map_start_def)
  qed (simp add: map_start_def)
qed


text \<open>The index \<^verbatim>\<open>sqsh__map_iterator_skip\<close> computes, and where it lands.\<close>

lemma map_iterator_skip_correct:
  assumes ok: "map_iterator_ok co entries src it"
    and eq: "sqsh__map_iterator_skip co it off = (rv, off', it')"
  shows "safe_rv rv \<and>
    (rv = Ok \<longrightarrow> map_iterator_ok co entries src it' \<and> map_stream src it' = map_stream src it \<and>
      map_start it' + off' = map_start it + off \<and>
      (off' < it_size it' \<or> off' = it_size it' \<and> it_segment_count it' \<le> it_next_index it')) \<and>
    (map_iterator_live co src it \<and> map_start it + off < length (map_stream src it) \<longrightarrow>
      rv = Ok \<and> map_iterator_live co src it')"
proof (cases "off < it_size it")
  case True
  with eq have "rv = Ok" "off' = off" "it' = it" by (simp_all add: sqsh__map_iterator_skip_def)
  then show ?thesis using ok True by simp
next
  case False
  let ?m = "it_manager it" and ?b = "sqsh__map_manager_block_size (it_manager it)"
  note sh = map_iterator_ok_manager(2) [OF ok] and seg = map_iterator_ok_manager(3) [OF ok]
  note ms = manager_size [OF sh]
  have cz: "0 < it_size it \<Longrightarrow> 0 < it_next_index it" using ok by (auto simp: map_iterator_ok_def)
  define cur where "cur = (if it_size it = 0 then it_next_index it else it_next_index it - 1)"
  define idx where "idx = cur + off div ?b"
  have st: "map_start it = cur * ?b" by (simp add: map_start_def cur_def)
  have land: "idx * ?b + off mod ?b = map_start it + off"
    by (simp add: st idx_def distrib_right)
  show ?thesis
  proof (cases "it_next_index it + off div ?b < 2 ^ 64")
    case False
    then have e: "rv = Err SQSH_ERROR_INTEGER_OVERFLOW"
      using eq \<open>\<not> off < it_size it\<close> ms(4)
      by (simp add: sqsh__map_iterator_skip_def Let_def add_overflow_def)
    have "2 ^ 64 \<le> idx + 1" using False by (auto simp: idx_def cur_def)
    have "length (map_stream src it) \<le> map_start it + off" if "mm_block_count ?m \<le> idx"
    proof -
      have "length (map_stream src it) \<le> idx * ?b"
        using block_count_less [OF sh, of idx] that ms(2) by (simp add: map_stream_def not_less)
      then show ?thesis using land by linarith
    qed
    moreover have "mm_block_count ?m \<le> sqsh__map_manager_size ?m"
      using divide_ceil_least [OF ms(4)] ms(4,6)
      by (metis One_nat_def Suc_leI mult_le_mono1 nat_mult_1)
    then have "mm_block_count ?m \<le> idx" using ms(3) \<open>2 ^ 64 \<le> idx + 1\<close> by linarith
    ultimately show ?thesis using e by simp
  next
    case ov: True
    let ?it = "it\<lparr>it_next_index := idx\<rparr>"
    obtain hn rv1 it1 where nx: "sqsh__map_iterator_next co ?it = (hn, rv1, it1)"
      by (rule prod_cases3)
    have ad: "add_overflow 64 (it_next_index it) (off div ?b) = Some (it_next_index it + off div ?b)"
      using ov by simp
    have ix: "(if 0 < it_size it then wrap_sub (it_next_index it + off div ?b) 1
        else it_next_index it + off div ?b) = idx"
      using ov cz by (auto simp: idx_def cur_def wrap_sub_exact)
    have le: "\<not> SIZE_MAX < idx" using ov by (auto simp: idx_def cur_def SIZE_MAX_def)
    have main: "(rv, off', it') =
       (if rv1 \<noteq> Ok then (rv1, off, it1)
        else if \<not> hn then (Err SQSH_ERROR_OUT_OF_BOUNDS, off, it1)
        else if it_size it1 < off mod ?b then (Err SQSH_ERROR_OUT_OF_BOUNDS, off mod ?b, it1)
        else (Ok, off mod ?b, it1))"
      using eq \<open>\<not> off < it_size it\<close> ms(4)
      by (simp add: sqsh__map_iterator_skip_def Let_def ad ix [unfolded One_nat_def] le nx cong: if_cong
          del: add_overflow_Some)
    show ?thesis
    proof (cases "idx < mm_block_count ?m")
      case False
      then have e: "hn = False" "rv1 = Ok" using nx seg
        by (auto simp: sqsh__map_iterator_next_def)
      have "length (map_stream src it) \<le> idx * ?b"
        using block_count_less [OF sh, of idx] False ms(2) by (simp add: map_stream_def not_less)
      then have "length (map_stream src it) \<le> map_start it + off" using land by linarith
      then show ?thesis using main e by simp
    next
      case ilt: True
      have okm: "manager_ok co entries src (it_manager ?it)"
        using map_iterator_ok_manager(1) [OF ok] by simp
      note N = map_iterator_next_segment [OF okm _ _ nx]
      have N1: "safe_rv rv1" "hn \<longleftrightarrow> rv1 = Ok"
        and N2: "hn \<Longrightarrow> map_iterator_ok co entries src it1 \<and> map_stream src it1 = map_stream src it \<and>
          it_segment_count it1 = it_segment_count it \<and> it_next_index it1 = Suc idx \<and>
          it_size it1 = slice_size ?m idx \<and> 0 < it_size it1 \<and>
          sqsh__map_manager_block_size (it_manager it1) = ?b"
        and N3: "map_iterator_live co src it \<Longrightarrow> hn \<and> map_iterator_live co src it1"
        using N ilt seg by (auto simp: map_stream_def map_iterator_live_def)
      have fits: "off mod ?b \<le> it_size it1" if "hn" "map_start it + off \<le> length (map_stream src it)"
      proof -
        have "off mod ?b \<le> sqsh__map_manager_size ?m - idx * ?b"
          using that(2) land ms(2) by (simp add: map_stream_def)
        then show ?thesis using N2 [OF that(1)] ms(4) by (simp add: slice_size_def)
      qed
      show ?thesis
      proof (cases "rv1 = Ok")
        case False
        then show ?thesis using main N1 N3 by auto
      next
        case True
        then have hn: "hn" using N1 by simp
        note N2 = N2 [OF hn]
        have st1: "map_start it1 = idx * ?b" using N2 by (simp add: map_start_def)
        show ?thesis
        proof (cases "it_size it1 < off mod ?b")
          case True
          then have "\<not> map_start it + off < length (map_stream src it)"
            using fits [OF hn] by (meson less_imp_le leD)
          then show ?thesis using True main hn \<open>rv1 = Ok\<close> by simp
        next
          case False
          then have e: "rv = Ok" "off' = off mod ?b" "it' = it1" using main hn \<open>rv1 = Ok\<close> by simp_all
          have "Suc idx = mm_block_count ?m" if "off mod ?b = it_size it1"
          proof (rule slice_size_short [OF sh ilt])
            have "off mod ?b < ?b" using ms(4) by simp
            then show "slice_size ?m idx < ?b" using that N2 by simp
          qed
          then show ?thesis using e N2 N3 st1 land False seg by auto
        qed
      qed
    qed
  qed
qed

interpretation map_source: live_chunk_iterator "map_reader_impl co" "map_iterator_ok co entries src"
  "map_stream src" map_start "\<lambda>it off. True" "map_iterator_live co src"
proof (unfold_locales, goal_cases)
  case (1 it)
  then show ?case using map_iterator_chunk(1) [OF 1] by (simp add: map_reader_impl_def)
next
  case (2 it)
  then show ?case using map_iterator_chunk(2) [OF 2] by (simp add: map_reader_impl_def)
next
  case (3 it)
  then show ?case using map_iterator_chunk(3) [OF 3] by (simp add: map_reader_impl_def)
next
  case (4 it)
  then show ?case by (rule map_iterator_chunk(4))
next
  case (5 it d rv it')
  then have nx: "sqsh__map_iterator_next co it = (True, rv, it')" by (simp add: map_reader_impl_def)
  then have i: "it_next_index it < it_segment_count it"
    by (auto simp: sqsh__map_iterator_next_def split: if_splits)
  from map_iterator_next_segment [OF map_iterator_ok_manager(1) [OF 5(1)]
      map_iterator_ok_manager(3) [OF 5(1)] i nx] map_start_next [OF 5(1) i] i
  show ?case by (auto simp: map_reader_impl_def sqsh__map_iterator_size_def map_start_def)
next
  case (6 it d rv it')
  then have nx: "sqsh__map_iterator_next co it = (False, rv, it')" by (simp add: map_reader_impl_def)
  show ?case
  proof (cases "it_next_index it < it_segment_count it")
    case True
    from map_iterator_next_segment [OF map_iterator_ok_manager(1) [OF 6(1)]
        map_iterator_ok_manager(3) [OF 6(1)] True nx] show ?thesis by simp
  next
    case False
    with nx show ?thesis by (auto simp: sqsh__map_iterator_next_def)
  qed
next
  case (7 it off d rv off' it')
  then have "sqsh__map_iterator_skip co it off = (rv, off', it')" by (simp add: map_reader_impl_def)
  from map_iterator_skip_correct [OF 7(1) this] show ?case by simp
next
  case (8 it off d off' it')
  then have "sqsh__map_iterator_skip co it off = (Ok, off', it')" by (simp add: map_reader_impl_def)
  from map_iterator_skip_correct [OF 8(1) this] 8 show ?case
    by (auto simp: map_reader_impl_def sqsh__map_iterator_size_def sqsh__map_iterator_next_def)
next
  case (9 it d)
  then have st: "map_start it + it_size it < sqsh__map_manager_size (it_manager it)"
    using manager_size(2) [OF map_iterator_ok_manager(2) [OF 9(1)]]
    by (simp add: map_reader_impl_def map_stream_def sqsh__map_iterator_size_def)
  have i: "it_next_index it < it_segment_count it"
  proof (cases "it_size it = 0")
    case True
    have "0 < sl_size sl" if "good_slice src (it_manager it) i sl" for i sl
      using that slice_size_pos(1) [OF map_iterator_ok_manager(2) [OF 9(1)]]
      by (auto simp: good_slice_def)
    then show ?thesis using 9(1) True unfolding map_iterator_ok_def by fastforce
  next
    case False
    then obtain j sl where j: "it_next_index it = Suc j" "good_slice src (it_manager it) j sl"
      "it_size it = sl_size sl"
      using 9(1) by (auto simp: map_iterator_ok_def)
    let ?b = "sqsh__map_manager_block_size (it_manager it)"
    have "j * ?b + min ?b (sqsh__map_manager_size (it_manager it) - j * ?b)
        < sqsh__map_manager_size (it_manager it)"
      using st j False by (simp add: map_start_def good_slice_def slice_size_def)
    then have "Suc j * ?b < sqsh__map_manager_size (it_manager it)" by (simp add: min_def split: if_splits)
    then show ?thesis
      using block_count_less [OF map_iterator_ok_manager(2) [OF 9(1)], of "Suc j"] j
        map_iterator_ok_manager(3) [OF 9(1)] by simp
  qed
  obtain hn rv it' where nx: "sqsh__map_iterator_next co it = (hn, rv, it')" by (rule prod_cases3)
  from map_iterator_next_segment [OF map_iterator_ok_manager(1) [OF 9(1)]
      map_iterator_ok_manager(3) [OF 9(1)] i nx] 9(2) nx
  show ?case by (auto simp: map_reader_impl_def)
next
  case (10 it off d)
  obtain rv off' it' where sk: "sqsh__map_iterator_skip co it off = (rv, off', it')"
    by (rule prod_cases3)
  from map_iterator_skip_correct [OF 10(1) sk] 10 sk
  show ?case by (simp add: map_reader_impl_def)
qed


section \<open>The map reader\<close>

lemma map_iterator_init_correct:
  assumes ok: "manager_ok co entries src m"
    and eq: "sqsh__map_iterator_init m start it = (rv, it')"
  shows "safe_rv rv \<and> (rv = Ok \<longleftrightarrow> start < length (archive_bytes src m)) \<and>
    (rv = Ok \<longrightarrow> map_iterator_ok co entries src it' \<and> it_manager it' = m \<and>
      it_mapping it' = None \<and>
      map_start it' = start div sqsh__map_manager_block_size m * sqsh__map_manager_block_size m)"
proof -
  let ?b = "sqsh__map_manager_block_size m"
  have sh: "manager_shape src m" using ok by (simp add: manager_ok_def)
  note ms = manager_size [OF sh]
  show ?thesis
  proof (cases "start < sqsh__map_manager_size m")
    case True
    then have e: "rv = Ok" "it' = it\<lparr>it_manager := m, it_next_index := start div ?b,
        it_mapping := None, it_data := None, it_size := 0, it_segment_count := mm_block_count m\<rparr>"
      using eq ms(4,6) by (simp_all add: sqsh__map_iterator_init_def Let_def address_to_index_def)
    have "start div ?b * ?b \<le> start" by simp
    then have "start div ?b < mm_block_count m"
      using True block_count_less [OF sh, of "start div ?b"] by linarith
    then show ?thesis using e ok True ms(2)
      by (simp add: map_iterator_ok_def map_start_def)
  next
    case False
    then show ?thesis using eq ms(2) by (auto simp: sqsh__map_iterator_init_def)
  qed
qed

text \<open>
  A map reader at address \<open>a\<close> of the archive: its reader presents the window of the archive that
  starts at \<open>a\<close>.
\<close>

definition map_reader_ok ::
  "('c, map_slice) cache_ops \<Rightarrow> ((nat \<Rightarrow> map_slice \<Rightarrow> bool) \<Rightarrow> 'c \<Rightarrow> bool) \<Rightarrow>
   ('u \<Rightarrow> byte list) \<Rightarrow> 'b cx_buffer_ops \<Rightarrow> ('u, 'c, 'b) map_reader \<Rightarrow> bool" where
  "map_reader_ok co entries src bo mr \<longleftrightarrow> mr_address mr < 2 ^ 64 \<and>
     reader_at (map_reader_impl co) bo (map_iterator_ok co entries src) (map_stream src) map_start
       (mr_reader mr) (mr_address mr)"

definition map_reader_archive :: "('u \<Rightarrow> byte list) \<Rightarrow> ('u, 'c, 'b) map_reader \<Rightarrow> byte list" where
  "map_reader_archive src mr = map_stream src (rd_iterator (mr_reader mr))"

definition map_reader_live ::
  "('c, map_slice) cache_ops \<Rightarrow> ('u \<Rightarrow> byte list) \<Rightarrow> 'b cx_buffer_ops \<Rightarrow>
   ('u, 'c, 'b) map_reader \<Rightarrow> bool" where
  "map_reader_live co src bo mr \<longleftrightarrow> cx_buffer_total bo \<and>
     map_iterator_live co src (rd_iterator (mr_reader mr))"

lemma reader_at_bound:
  assumes "map_reader_ok co entries src bo mr" "mr_address mr + offset \<le> length (map_reader_archive src mr)"
  shows "mr_address mr + offset < 2 ^ 64"
  using assms map_iterator_chunk(4) [of co entries src "rd_iterator (mr_reader mr)"]
  by (simp add: map_reader_ok_def reader_at_def map_reader_archive_def)

text \<open>
  A successful advance presents exactly the bytes of the archive at the new address; with
  memory available it succeeds for every window of the archive.
\<close>

lemma map_reader_advance_correct:
  assumes bo: "cx_buffer_ok bo" and ok: "map_reader_ok co entries src bo mr"
    and sup: "advance_supported (mr_reader mr) offset sz" and sz: "sz < 2 ^ 64"
    and eq: "sqsh__map_reader_advance co bo mr offset sz = (rv, mr')"
  shows "safe_rv rv \<and> (rv = Ok \<longrightarrow> map_reader_ok co entries src bo mr' \<and>
    mr_address mr' = mr_address mr + offset \<and> mr_upper_limit mr' = mr_upper_limit mr \<and>
    map_reader_archive src mr' = map_reader_archive src mr \<and>
    sqsh__map_reader_size mr' = sz \<and>
    sqsh__map_reader_data co bo mr' = window (mr_address mr + offset) sz (map_reader_archive src mr) \<and>
    mr_address mr + offset + sz \<le> length (map_reader_archive src mr))"
proof -
  obtain rv1 r1 where adv: "sqsh__reader_advance (map_reader_impl co) bo (mr_reader mr) offset sz
    = (rv1, r1)" by fastforce
  have at: "reader_at (map_reader_impl co) bo (map_iterator_ok co entries src) (map_stream src)
      map_start (mr_reader mr) (mr_address mr)" using ok by (simp add: map_reader_ok_def)
  have e: "rv = rv1" "mr' = mr\<lparr>mr_address := wrap_add (mr_address mr) offset, mr_reader := r1\<rparr>"
    using eq adv by (simp_all add: sqsh__map_reader_advance_def)
  note A = map_source.advance_correct [OF bo at sup sz TrueI adv]
  show ?thesis
  proof (cases "rv1 = Ok")
    case True
    then have "mr_address mr + offset < 2 ^ 64"
      using A reader_at_bound [OF ok] by (simp add: map_reader_archive_def)
    then show ?thesis using A True e
      by (simp add: wrap_add_exact map_reader_ok_def map_reader_archive_def
          sqsh__map_reader_size_def sqsh__map_reader_data_def sqsh__reader_size_def)
  qed (use A e in simp)
qed

lemma map_reader_advance_live:
  assumes bo: "cx_buffer_ok bo" and ok: "map_reader_ok co entries src bo mr"
    and live: "map_reader_live co src bo mr"
    and sup: "advance_supported (mr_reader mr) offset sz"
    and bnd: "mr_address mr + offset < length (map_reader_archive src mr)"
      "mr_address mr + offset + sz \<le> length (map_reader_archive src mr)"
    and eq: "sqsh__map_reader_advance co bo mr offset sz = (rv, mr')"
  shows "rv = Ok \<and> map_reader_live co src bo mr'"
proof -
  obtain rv1 r1 where adv: "sqsh__reader_advance (map_reader_impl co) bo (mr_reader mr) offset sz
    = (rv1, r1)" by fastforce
  have at: "reader_at (map_reader_impl co) bo (map_iterator_ok co entries src) (map_stream src)
      map_start (mr_reader mr) (mr_address mr)" using ok by (simp add: map_reader_ok_def)
  have "rv = rv1" "mr' = mr\<lparr>mr_address := wrap_add (mr_address mr) offset, mr_reader := r1\<rparr>"
    using eq adv by (simp_all add: sqsh__map_reader_advance_def)
  with map_source.advance_live [OF bo _ at _ sup TrueI _ _ adv] live bnd
  show ?thesis by (simp add: map_reader_live_def map_reader_archive_def)
qed

text \<open>Initialisation: a reader at an address inside the archive, with an empty window.\<close>

lemma map_reader_init_correct:
  assumes bo: "cx_buffer_ok bo" and m: "manager_ok co entries src m" and a: "start < 2 ^ 64"
    and eq: "sqsh__map_reader_init co bo m start upper mr = (rv, mr')"
  shows "safe_rv rv \<and> (rv = Ok \<longrightarrow> map_reader_ok co entries src bo mr' \<and>
    mr_address mr' = start \<and> mr_upper_limit mr' = upper \<and>
    map_reader_archive src mr' = archive_bytes src m \<and> sqsh__map_reader_size mr' = 0 \<and>
    rd_iterator_offset (mr_reader mr') = 0 \<and> start \<le> length (archive_bytes src m)) \<and>
    (cache_total co \<and> live_memory_mapper (mp_impl (mm_mapper m)) src \<and> cx_buffer_total bo \<and>
     start < length (archive_bytes src m) \<longrightarrow> rv = Ok \<and> map_reader_live co src bo mr')"
proof -
  let ?b = "sqsh__map_manager_block_size m"
  have sh: "manager_shape src m" using m by (simp add: manager_ok_def)
  note ms = manager_size [OF sh]
  define off where "off = start mod ?b"
  have al: "(start - off) div ?b * ?b = start - off" "start - off + off = start"
    unfolding off_def by (simp_all add: minus_mod_eq_mult_div)
  obtain rv1 it1 where i: "sqsh__map_iterator_init m (start - off) (rd_iterator (mr_reader mr))
    = (rv1, it1)" by fastforce
  note I = map_iterator_init_correct [OF m i]
  let ?mr1 = "mr\<lparr>mr_reader := (mr_reader mr)\<lparr>rd_iterator := it1\<rparr>\<rparr>"
  show ?thesis
  proof (cases "rv1 = Ok")
    case False
    then have "rv = rv1" using eq i ms(4)
      by (auto simp: sqsh__map_reader_init_def off_def [symmetric] Let_def andthen_def
          split: rv.splits)
    moreover have "start - off \<le> start" by simp
    ultimately show ?thesis using I False by (meson le_less_trans)
  next
    case True
    note I = I [unfolded True, simplified]
    obtain rv2 r2 where ri: "sqsh__reader_init bo it1 (mr_reader ?mr1) = (rv2, r2)" by fastforce
    note R = map_source.init_correct [OF bo conjunct1 [OF conjunct2 [OF I]] ri]
    have R2: "cx_buffer_total bo \<Longrightarrow> rv2 = Ok" using ri
      by (auto simp: sqsh__reader_init_def cx_buffer_total_def split: prod.splits)
    show ?thesis
    proof (cases "rv2 = Ok")
      case False
      then have "rv = rv2" using eq i ri ms(4) \<open>rv1 = Ok\<close>
        by (auto simp: sqsh__map_reader_init_def off_def [symmetric] Let_def andthen_def
            split: rv.splits)
      then show ?thesis using R R2 False by blast
    next
      case rv2: True
      obtain rv3 r3 where ad: "sqsh__reader_advance (map_reader_impl co) bo r2 off 0 = (rv3, r3)"
        by fastforce
      have at: "reader_at (map_reader_impl co) bo (map_iterator_ok co entries src) (map_stream src)
          map_start r2 (start - off)" using R I al by simp
      have sup: "advance_supported r2 off 0" using R by (simp add: advance_supported_def)
      note A = map_source.advance_correct [OF bo at sup _ TrueI ad, simplified]
      have e: "rv = rv3" "rv3 = Ok \<Longrightarrow>
          mr' = ?mr1\<lparr>mr_reader := r3, mr_upper_limit := upper, mr_address := start\<rparr>"
        using eq i ri ad ms(4) \<open>rv1 = Ok\<close> rv2
        by (auto simp: sqsh__map_reader_init_def off_def [symmetric] Let_def andthen_def
            split: rv.splits)
      have it: "it_manager (rd_iterator r2) = m" using R I by simp
      have str: "map_stream src (rd_iterator r2) = archive_bytes src m"
        using it by (simp add: map_stream_def)
      have io: "rd_iterator_offset r3 = 0" if "rv3 = Ok"
      proof -
        have "reader_at (map_reader_impl co) bo (map_iterator_ok co entries src) (map_stream src)
          map_start r3 start" "rd_size r3 = 0" using A that al by simp_all
        then show ?thesis
          by (auto simp: reader_at_def reader_mapped_def reader_buffered_def)
      qed
      have L: "rv3 = Ok \<and> map_iterator_live co src (rd_iterator r3)"
        if "cache_total co" "live_memory_mapper (mp_impl (mm_mapper m)) src" "cx_buffer_total bo"
          "start < length (archive_bytes src m)"
        using map_source.advance_live [OF bo that(3) at _ sup TrueI _ _ ad] that it str al
        by (simp add: map_iterator_live_def)
      show ?thesis using A e L al str io a
        by (auto simp: map_reader_ok_def map_reader_archive_def map_reader_live_def
            sqsh__map_reader_size_def sqsh__reader_size_def)
    qed
  qed
qed


section \<open>A cache and a small archive\<close>

text \<open>
  An association list meets the behaviour of the cache. The archive below has ten bytes behind an
  offset of two and is mapped in blocks of four.
\<close>

definition alist_cache :: "((nat \<times> 'v) list, 'v) cache_ops" where
  "alist_cache = \<lparr>co_lock = (\<lambda>c. (Ok, c)), co_unlock = (\<lambda>c. (Ok, c)), co_retain = (\<lambda>c k. (map_of c k, c)),
     co_put = (\<lambda>c k v. (Some v, (k, v) # c)), co_touch = (\<lambda>c k. (Ok, c)),
     co_retain_value = (\<lambda>c v. c), co_release = (\<lambda>c k. (Ok, c))\<rparr>"

definition alist_entries :: "(nat \<Rightarrow> 'v \<Rightarrow> bool) \<Rightarrow> (nat \<times> 'v) list \<Rightarrow> bool" where
  "alist_entries P c \<longleftrightarrow> (\<forall>(k, v) \<in> set c. P k v)"

lemma alist_cache_ok [simp]: "cache_ok alist_cache alist_entries" "cache_total alist_cache"
proof -
  have "P k v" if "\<forall>(k, v) \<in> set c. P k v" "map_of c k = Some v" for P c k and v :: 'v
    using that map_of_SomeD by fastforce
  then show "cache_ok (alist_cache :: ((nat \<times> 'v) list, 'v) cache_ops) alist_entries"
    by (auto simp: cache_ok_def alist_cache_def alist_entries_def)
  show "cache_total (alist_cache :: ((nat \<times> 'v) list, 'v) cache_ops)"
    by (simp add: cache_total_def alist_cache_def)
qed

definition tiny_mapper :: "nat \<Rightarrow> byte list \<Rightarrow> byte list mapper" where
  "tiny_mapper bs bytes = \<lparr>mp_impl = sqsh_mapper_impl_static, mp_block_size = bs,
     mp_archive_size = length bytes, mp_user_data = bytes\<rparr>"

definition tiny_manager ::
  "nat \<Rightarrow> nat \<Rightarrow> byte list \<Rightarrow> (byte list, (nat \<times> map_slice) list) map_manager" where
  "tiny_manager bs off bytes = \<lparr>mm_mapper = tiny_mapper bs bytes, mm_maps = [],
     mm_archive_offset = off, mm_block_count = divide_ceil (length bytes - off) bs\<rparr>"

definition blank_map_reader ::
  "(byte list, (nat \<times> map_slice) list) map_manager \<Rightarrow>
   (byte list, (nat \<times> map_slice) list, byte list) map_reader" where
  "blank_map_reader m = \<lparr>mr_address = 0, mr_upper_limit = 0,
     mr_reader = \<lparr>rd_iterator = \<lparr>it_manager = m, it_mapping = None, it_data = None, it_size = 0,
         it_next_index = 0, it_segment_count = 0\<rparr>,
       rd_iterator_offset = 0, rd_offset = 0, rd_buffer = [], rd_data = RNull, rd_size = 0,
       rd_iterator_size = 0\<rparr>\<rparr>"

lemma tiny_manager_ok:
  assumes "0 < bs" "bs < 2 ^ 64" "off \<le> length bytes" "length bytes < 2 ^ 64"
  shows "manager_ok alist_cache alist_entries (\<lambda>u. u) (tiny_manager bs off bytes)"
  using assms static_mapper.memory_mapper_axioms
  by (simp add: manager_ok_def manager_shape_def tiny_manager_def tiny_mapper_def
      alist_entries_def)

lemma tiny_manager_live:
  "live_memory_mapper (mp_impl (mm_mapper (tiny_manager bs off bytes))) (\<lambda>u. u)"
  using static_mapper.live_memory_mapper_axioms by (simp add: tiny_manager_def tiny_mapper_def)

lemma tiny_archive:
  "off \<le> length bytes \<Longrightarrow> length bytes < 2 ^ 64 \<Longrightarrow>
   archive_bytes (\<lambda>u. u) (tiny_manager bs off bytes) = drop off bytes"
  by (simp add: archive_bytes_def sqsh__map_manager_size_def tiny_manager_def tiny_mapper_def
      sqsh_mapper_size2_def wrap_sub_exact window_def)

section \<open>Properties\<close>

text \<open>
  C3. A map reader that was initialised at an address presents, after any advance, exactly the
  bytes of the archive at the requested offset from that address, whatever the block size and the
  state of the slice cache: the call never touches memory outside the mapped slices, and it
  succeeds for every non-empty rest of the archive when memory is available. The window may lie
  inside one slice (mapped) or cross slices (copied).
\<close>

theorem map_reader_window:
  assumes "cx_buffer_ok bo" "manager_ok co entries src m" "start < 2 ^ 64" "sz < 2 ^ 64"
    and "sqsh__map_reader_init co bo m start upper mr = (Ok, mr1)"
    and "sqsh__map_reader_advance co bo mr1 offset sz = (rv, mr2)"
  shows "safe_rv rv \<and>
    (rv = Ok \<longrightarrow> sqsh__map_reader_size mr2 = sz \<and> sqsh__map_reader_address mr2 = start + offset \<and>
      sqsh__map_reader_data co bo mr2 = window (start + offset) sz (archive_bytes src m) \<and>
      start + offset + sz \<le> length (archive_bytes src m)) \<and>
    (cache_total co \<and> live_memory_mapper (mp_impl (mm_mapper m)) src \<and> cx_buffer_total bo \<and>
      start + offset < length (archive_bytes src m) \<and>
      start + offset + sz \<le> length (archive_bytes src m) \<longrightarrow> rv = Ok)"
proof -
  note I = map_reader_init_correct [OF assms(1-3,5), simplified]
  have sup: "advance_supported (mr_reader mr1) offset sz" using I by (simp add: advance_supported_def)
  have ok: "map_reader_ok co entries src bo mr1" using I by simp
  note A = map_reader_advance_correct [OF assms(1) ok sup assms(4,6)]
    and L = map_reader_advance_live [OF assms(1) ok _ sup _ _ assms(6)]
  have e: "mr_address mr1 = start" "map_reader_archive src mr1 = archive_bytes src m"
    using I by simp_all
  have "map_reader_live co src bo mr1" if "cache_total co" "live_memory_mapper (mp_impl (mm_mapper m)) src"
    "cx_buffer_total bo" "start + offset < length (archive_bytes src m)"
    using I that by simp
  then show ?thesis using A L unfolding e sqsh__map_reader_address_def by metis
qed

theorem map_reader_window_witness:
  "let bytes = map word_of_nat [0..<12]; m = tiny_manager 4 2 bytes;
       mr1 = snd (sqsh__map_reader_init alist_cache list_buffer m 1 10 (blank_map_reader m));
       mr2 = snd (sqsh__map_reader_advance alist_cache list_buffer mr1 2 6)
   in sqsh__map_reader_data alist_cache list_buffer mr2 = map word_of_nat [5..<11]"
proof -
  define bytes :: "byte list" where "bytes = map word_of_nat [0..<12]"
  define m where "m = tiny_manager 4 2 bytes"
  have len: "length bytes = 12" by (simp add: bytes_def)
  have m: "manager_ok alist_cache alist_entries (\<lambda>u. u) m"
    and lv: "live_memory_mapper (mp_impl (mm_mapper m)) (\<lambda>u. u)"
    and ar: "archive_bytes (\<lambda>u. u) m = drop 2 bytes"
    using tiny_manager_ok [of 4 2 bytes] tiny_manager_live tiny_archive [of 2 bytes 4]
    by (simp_all add: m_def len)
  obtain rv1 mr1 where i: "sqsh__map_reader_init alist_cache list_buffer m 1 10 (blank_map_reader m)
    = (rv1, mr1)" by fastforce
  have rv1: "rv1 = Ok" using map_reader_init_correct [OF _ m _ i] lv ar len by simp
  obtain rv2 mr2 where a: "sqsh__map_reader_advance alist_cache list_buffer mr1 2 6 = (rv2, mr2)"
    by fastforce
  note W = map_reader_window [OF _ m _ _ i [unfolded rv1] a, simplified]
  have "rv2 = Ok" using W lv ar len by simp
  then have "sqsh__map_reader_data alist_cache list_buffer mr2 = window 3 6 (drop 2 bytes)"
    using W ar by (simp add: eval_nat_numeral)
  also have "\<dots> = map word_of_nat [5..<11]" by (simp add: window_def bytes_def drop_map take_map)
  finally show ?thesis using i a by (simp add: Let_def bytes_def [symmetric] m_def [symmetric])
qed

text \<open>
  C24. The slice cache is transparent: for every index of the archive \<^verbatim>\<open>sqsh__map_manager_get\<close> returns
  the slice of the archive bytes at that index or an error code, whether it comes from the cache or
  from the mapper, and keeps the manager's invariant; no other part of the manager changes.
\<close>

theorem map_manager_get_transparent:
  assumes "manager_ok co entries src m" "i < mm_block_count m"
    and "sqsh__map_manager_get co m i t = (rv, sl, m')"
  shows "safe_rv rv \<and> manager_ok co entries src m' \<and> (\<exists>c. m' = m\<lparr>mm_maps := c\<rparr>) \<and>
    (rv = Ok \<longrightarrow> (\<exists>x. sl = Some x \<and> sl_index x = i \<and>
       sl_data x = window (i * sqsh__map_manager_block_size m) (sqsh__map_manager_block_size m)
         (archive_bytes src m)))"
proof -
  have sh: "manager_shape src m" using assms(1) by (simp add: manager_ok_def)
  let ?b = "sqsh__map_manager_block_size m"
  have w: "window (i * ?b) (slice_size m i) (archive_bytes src m)
      = window (i * ?b) ?b (archive_bytes src m)"
    using manager_size(2) [OF sh] by (simp add: window_def slice_size_def min_def)
  show ?thesis using map_manager_get_correct [OF assms] w by (auto simp: good_slice_def)
qed

theorem map_manager_get_transparent_witness:
  "map_option sl_data (fst (snd (sqsh__map_manager_get alist_cache
     (tiny_manager 4 0 [1, 2, 3, 4, 5, 6]) 1 None))) = Some [5, 6]"
proof -
  let ?m = "tiny_manager 4 0 [1, 2, 3, 4, 5, 6]"
  have m: "manager_ok alist_cache alist_entries (\<lambda>u. u) ?m" by (rule tiny_manager_ok) simp_all
  have c: "1 < mm_block_count ?m" by (simp add: tiny_manager_def tiny_mapper_def divide_ceil_def)
  obtain rv sl m' where g: "sqsh__map_manager_get alist_cache ?m 1 None = (rv, sl, m')"
    by (rule prod_cases3)
  have "rv = Ok"
    using map_manager_get_correct [OF m c g] tiny_manager_live [of 4 0 "[1, 2, 3, 4, 5, 6]"] by simp
  with map_manager_get_transparent [OF m c g] obtain x where x: "sl = Some x"
    "sl_data x = window (1 * sqsh__map_manager_block_size ?m) (sqsh__map_manager_block_size ?m)
       (archive_bytes (\<lambda>u. u) ?m)" by blast
  have "sqsh__map_manager_block_size ?m = 4" "archive_bytes (\<lambda>u. u) ?m = [1, 2, 3, 4, 5, 6]"
    by (simp_all add: tiny_archive)
      (simp add: sqsh__map_manager_block_size_def tiny_manager_def tiny_mapper_def
        sqsh_mapper_block_size_def)
  with x g show ?thesis by (simp add: window_def)
qed


lemma map_manager_init_correct:
  assumes "cache_ok co entries" "\<forall>P. entries P (snd cache_init)" "safe_rv (fst cache_init)"
    and "memory_mapper impl src" "cfg_source_mapper cfg = Some impl" "mi_init impl = None"
    and "mi_init2 impl = Some init2" "init2 input (cfg_source_size cfg) = (Ok, length (src u), u)"
    and "length (src u) < 2 ^ 64" "0 < cfg_mapper_block_size cfg" "cfg_mapper_block_size cfg < 2 ^ 31"
    and "sqsh__map_manager_init mmap_impl cache_init m0 input cfg = (rv, m)"
  shows "safe_rv rv \<and>
    (rv = Ok \<longrightarrow> manager_ok co entries src m \<and>
      archive_bytes src m = drop (cfg_archive_offset cfg) (src u)) \<and>
    (length (src u) < cfg_archive_offset cfg \<longrightarrow> rv = Err SQSH_ERROR_OUT_OF_BOUNDS)"
proof -
  let ?bs = "nat (cfg_mapper_block_size cfg)"
  have bs: "nat (cfg_mapper_block_size cfg mod 2 ^ 64) = ?bs" "0 < ?bs" "?bs < 2 ^ 64"
    using assms(10,11) by simp_all
  have mp: "sqsh__mapper_init mmap_impl (mm_mapper m0) input cfg =
      (Ok, (mm_mapper m0)\<lparr>mp_impl := impl, mp_block_size := ?bs, mp_user_data := u,
         mp_archive_size := length (src u)\<rparr>)"
    using assms(5-8,10) bs by (simp add: sqsh__mapper_init_def Let_def)
  show ?thesis
  proof (cases "length (src u) < cfg_archive_offset cfg")
    case True
    then show ?thesis using assms(12) mp
      by (simp add: sqsh__map_manager_init_def Let_def sqsh_mapper_size2_def)
        (auto split: prod.splits)
  next
    case False
    obtain rc c where c: "cache_init = (rc, c)" by fastforce
    have e: "rv = rc" "m = m0\<lparr>mm_mapper := (mm_mapper m0)\<lparr>mp_impl := impl, mp_block_size := ?bs,
         mp_user_data := u, mp_archive_size := length (src u)\<rparr>,
         mm_block_count := divide_ceil (length (src u) - cfg_archive_offset cfg) ?bs,
         mm_archive_offset := cfg_archive_offset cfg, mm_maps := c\<rparr>"
      using assms(12) mp False c bs
      by (simp_all add: sqsh__map_manager_init_def Let_def sqsh_mapper_size2_def
          sqsh_mapper_block_size_def)
    have "manager_ok co entries src m"
      using assms(1,2,4,9) False c bs by (simp add: manager_ok_def manager_shape_def e(2))
    moreover have "archive_bytes src m = drop (cfg_archive_offset cfg) (src u)"
      using False assms(9) by (simp add: archive_bytes_def sqsh__map_manager_size_def
          sqsh_mapper_size2_def e(2) wrap_sub_exact window_def)
    ultimately show ?thesis using False assms(3) c e(1) by simp
  qed
qed


definition tiny_config :: "nat \<Rightarrow> nat \<Rightarrow> byte list sqsh_config" where
  "tiny_config off n = \<lparr>cfg_archive_offset = off, cfg_source_size = n,
     cfg_source_mapper = Some sqsh_mapper_impl_static, cfg_mapper_block_size = 4,
     cfg_max_symlink_depth = 0\<rparr>"


section \<open>What the code does not check\<close>

text \<open>
  The upper limit of a reader is stored and used by \<^verbatim>\<open>sqsh__map_reader_all\<close> only: no advance is
  refused because of it.
\<close>

lemma map_reader_upper_limit_unchecked:
  "sqsh__map_reader_advance co bo (mr\<lparr>mr_upper_limit := u\<rparr>) offset sz =
   (case sqsh__map_reader_advance co bo mr offset sz of (rv, mr') \<Rightarrow>
      (rv, mr'\<lparr>mr_upper_limit := u\<rparr>))"
  by (simp add: sqsh__map_reader_advance_def split: prod.splits)

text \<open>
  The buffered mode outside \<open>advance_supported\<close>: an advance into the buffer leaves the iterator
  offset at its old value, and the next advance returns bytes of another address.
\<close>

definition short_advance :: "rv \<times> nat \<times> byte list" where
  "short_advance =
     (let m = tiny_manager 4 0 (map word_of_nat [0..<24]);
          mr1 = snd (sqsh__map_reader_init alist_cache list_buffer m 0 24 (blank_map_reader m));
          mr2 = snd (sqsh__map_reader_advance alist_cache list_buffer mr1 2 6);
          mr3 = snd (sqsh__map_reader_advance alist_cache list_buffer mr2 1 5)
      in case sqsh__map_reader_advance alist_cache list_buffer mr3 2 2 of (rv, mr4) \<Rightarrow>
           (rv, sqsh__map_reader_address mr4, sqsh__map_reader_data alist_cache list_buffer mr4))"

lemma short_advance_reads_wrong_bytes:
  "short_advance = (Ok, 5, [4, 5])"
  by code_simp

end
