(* ===== verification/Sqsh_Extract.thy ===== *)
theory Sqsh_Extract
  imports Sqsh_Mapper Sqsh_Data
begin

text \<open>
  Decompression, \<^verbatim>\<open>libsqsh/src/extract\<close>: the extractor around a codec, the manager that caches
  extracted buffers by archive address, and the view of one extracted buffer.

  The codecs (zlib, lzma, zstd, lz4) are not part of the repository: an extractor implementation is
  the record of functions \<open>extractor_impl\<close>. \<^verbatim>\<open>finish\<close> returns the bytes it stored into the target
  memory; that they fit the capacity it was given is the documented behaviour \<open>extractor_impl_ok\<close>.
\<close>

section \<open>The environment\<close>

text \<open>
  The operations of the libraries outside the repository that the archive code uses: the cache of
  map slices, the buffers, the cache of extracted buffers, and the outcome of locking the mutex of
  the archive.
\<close>

record ('c, 'b, 'e) sqsh_env =
  env_maps :: "('c, map_slice) cache_ops"
  env_buf :: "'b cx_buffer_ops"
  env_cache :: "('e, 'b) cache_ops"
  env_lock :: rv

record 'x extractor_impl =
  xi_init :: "nat \<Rightarrow> rv \<times> 'x"
  xi_write :: "'x \<Rightarrow> byte list \<Rightarrow> rv \<times> 'x"
  xi_finish :: "'x \<Rightarrow> nat \<Rightarrow> rv \<times> byte list \<times> 'x"

definition extractor_impl_ok :: "'x extractor_impl \<Rightarrow> bool" where
  "extractor_impl_ok impl \<longleftrightarrow> (\<forall>n. safe_rv (fst (xi_init impl n))) \<and>
     (\<forall>x d. safe_rv (fst (xi_write impl x d))) \<and>
     (\<forall>x n. safe_rv (fst (xi_finish impl x n)) \<and>
        (fst (xi_finish impl x n) = Ok \<longrightarrow> length (fst (snd (xi_finish impl x n))) \<le> n))"

section \<open>The extractor\<close>

text \<open>The implementations that were compiled in; an absent one is null.\<close>

record 'x extractor_impls =
  impl_zlib :: "'x extractor_impl option"
  impl_lzma :: "'x extractor_impl option"
  impl_xz :: "'x extractor_impl option"
  impl_lzo :: "'x extractor_impl option"
  impl_lz4 :: "'x extractor_impl option"
  impl_zstd :: "'x extractor_impl option"

definition SQSH_COMPRESSION_GZIP :: nat where "SQSH_COMPRESSION_GZIP = 1"
definition SQSH_COMPRESSION_LZMA :: nat where "SQSH_COMPRESSION_LZMA = 2"
definition SQSH_COMPRESSION_LZO :: nat where "SQSH_COMPRESSION_LZO = 3"
definition SQSH_COMPRESSION_XZ :: nat where "SQSH_COMPRESSION_XZ = 4"
definition SQSH_COMPRESSION_LZ4 :: nat where "SQSH_COMPRESSION_LZ4 = 5"
definition SQSH_COMPRESSION_ZSTD :: nat where "SQSH_COMPRESSION_ZSTD = 6"

definition sqsh__extractor_impl_from_id ::
  "'x extractor_impls \<Rightarrow> nat \<Rightarrow> 'x extractor_impl option" where
  "sqsh__extractor_impl_from_id impls cid =
     (if cid = SQSH_COMPRESSION_GZIP then impl_zlib impls
      else if cid = SQSH_COMPRESSION_LZMA then impl_lzma impls
      else if cid = SQSH_COMPRESSION_XZ then impl_xz impls
      else if cid = SQSH_COMPRESSION_LZO then impl_lzo impls
      else if cid = SQSH_COMPRESSION_LZ4 then impl_lz4 impls
      else if cid = SQSH_COMPRESSION_ZSTD then impl_zstd impls
      else None)"

text \<open>The extractor; the buffer it fills belongs to the caller and outlives it.\<close>

record ('b, 'x) extractor =
  ex_impl :: "'x extractor_impl option"
  ex_buffer :: 'b
  ex_context :: "'x option"
  ex_block_size :: nat

definition sqsh__extractor_cleanup :: "('b, 'x) extractor \<Rightarrow> rv \<times> ('b, 'x) extractor" where
  "sqsh__extractor_cleanup ex =
     (let rv = (case (ex_impl ex, ex_context ex) of
                  (Some impl, Some ctx) \<Rightarrow> fst (xi_finish impl ctx 0)
                | (Some impl, None) \<Rightarrow> Fault
                | (None, _) \<Rightarrow> Ok)
      in (rv, ex\<lparr>ex_impl := None, ex_context := None, ex_block_size := 0\<rparr>))"

definition sqsh__extractor_init ::
  "'b cx_buffer_ops \<Rightarrow> 'b \<Rightarrow> 'x extractor_impl option \<Rightarrow> nat \<Rightarrow> rv \<times> ('b, 'x) extractor" where
  "sqsh__extractor_init bo buffer impl_opt block_size =
     (let ex = \<lparr>ex_impl = None, ex_buffer = buffer, ex_context = None, ex_block_size = block_size\<rparr>
      in case impl_opt of
           None \<Rightarrow> (Err SQSH_ERROR_COMPRESSION_UNSUPPORTED, snd (sqsh__extractor_cleanup ex))
         | Some impl \<Rightarrow>
             (case cb_add_capacity bo buffer block_size of (rv, buffer) \<Rightarrow>
                (let ex = ex\<lparr>ex_buffer := buffer\<rparr>
                 in if rv \<noteq> Ok then (rv, snd (sqsh__extractor_cleanup ex))
                    else case xi_init impl block_size of (rv, ctx) \<Rightarrow>
                      (let ex = ex\<lparr>ex_context := Some ctx\<rparr>
                       in if rv \<noteq> Ok then (rv, snd (sqsh__extractor_cleanup ex))
                          else (Ok, ex\<lparr>ex_impl := Some impl\<rparr>)))))"

definition sqsh__extractor_write ::
  "('b, 'x) extractor \<Rightarrow> byte list \<Rightarrow> rv \<times> ('b, 'x) extractor" where
  "sqsh__extractor_write ex compressed =
     (case (ex_impl ex, ex_context ex) of
        (None, _) \<Rightarrow> (Err SQSH_ERROR_COMPRESSION_FINISHED, ex)
      | (Some impl, None) \<Rightarrow> (Fault, ex)
      | (Some impl, Some ctx) \<Rightarrow>
          (case xi_write impl ctx compressed of (rv, ctx) \<Rightarrow> (rv, ex\<lparr>ex_context := Some ctx\<rparr>)))"

definition sqsh__extractor_finish ::
  "'b cx_buffer_ops \<Rightarrow> ('b, 'x) extractor \<Rightarrow> rv \<times> ('b, 'x) extractor" where
  "sqsh__extractor_finish bo ex =
     (case (ex_impl ex, ex_context ex) of
        (None, _) \<Rightarrow> (Err SQSH_ERROR_COMPRESSION_FINISHED, ex)
      | (Some impl, None) \<Rightarrow> (Fault, ex)
      | (Some impl, Some ctx) \<Rightarrow>
          (case xi_finish impl ctx (ex_block_size ex) of (rv, target, ctx) \<Rightarrow>
             (let ex = ex\<lparr>ex_impl := None, ex_context := Some ctx\<rparr>
              in if rv \<noteq> Ok then (rv, ex)
                 else case cb_add_size bo (ex_buffer ex) target of (rv, buffer) \<Rightarrow>
                   (rv, ex\<lparr>ex_buffer := buffer\<rparr>))))"

section \<open>The extract manager\<close>

record ('e, 'x) extract_manager =
  xm_impl :: "'x extractor_impl option"
  xm_cache :: 'e
  xm_block_size :: nat

text \<open>The mutex, the cache and the LRU list are set up by one parameter, the empty cache.\<close>

definition sqsh__extract_manager_init ::
  "'x extractor_impls \<Rightarrow> rv \<times> 'e \<Rightarrow> nat \<Rightarrow> nat \<Rightarrow> ('e, 'x) extract_manager \<Rightarrow>
   rv \<times> ('e, 'x) extract_manager" where
  "sqsh__extract_manager_init impls cache_init compression_id block_size manager =
     (let manager = manager\<lparr>xm_impl := sqsh__extractor_impl_from_id impls compression_id\<rparr>
      in if xm_impl manager = None then (Err SQSH_ERROR_COMPRESSION_UNSUPPORTED, manager)
         else case cache_init of (rv, c) \<Rightarrow>
           (let manager = manager\<lparr>xm_cache := c\<rparr>
            in if rv \<noteq> Ok then (rv, manager)
               else (Ok, manager\<lparr>xm_block_size := block_size\<rparr>)))"

text \<open>
  \<^verbatim>\<open>extract\<close> of \<^verbatim>\<open>extract_manager.c\<close> on the data of a map reader. The buffer is cleaned up on
  errors.
\<close>

definition extract_block ::
  "'b cx_buffer_ops \<Rightarrow> 'x extractor_impl option \<Rightarrow> nat \<Rightarrow> byte list \<Rightarrow> rv \<times> 'b option" where
  "extract_block bo impl block_size data =
     (case cb_init bo of (rv, buffer) \<Rightarrow>
        if rv \<noteq> Ok then (rv, None)
        else case andthen (sqsh__extractor_init bo buffer impl block_size)
                    (\<lambda>ex. andthen (sqsh__extractor_write ex data) (sqsh__extractor_finish bo)) of
          (rv, ex) \<Rightarrow> if rv \<noteq> Ok then (rv, None) else (Ok, Some (ex_buffer ex)))"

definition sqsh__extract_manager_uncompress ::
  "('c, 'b, 'e) sqsh_env \<Rightarrow> ('e, 'x) extract_manager \<Rightarrow> ('u, 'c, 'b) map_reader \<Rightarrow>
   rv \<times> 'b option \<times> ('e, 'x) extract_manager" where
  "sqsh__extract_manager_uncompress env manager mr =
     (let co = env_cache env; address = sqsh__map_reader_address mr
      in case co_lock co (xm_cache manager) of (rv, c) \<Rightarrow>
        if rv \<noteq> Ok then (rv, None, manager\<lparr>xm_cache := c\<rparr>)
        else case co_retain co c address of
          (Some buffer, c) \<Rightarrow>
            (case co_touch co c address of (rv, c) \<Rightarrow>
               (rv, Some buffer, manager\<lparr>xm_cache := c\<rparr>))
        | (None, c) \<Rightarrow>
            (case co_unlock co c of (rv, c) \<Rightarrow>
               if rv \<noteq> Ok then (rv, None, manager\<lparr>xm_cache := c\<rparr>)
               else case extract_block (env_buf env) (xm_impl manager) (xm_block_size manager)
                           (sqsh__map_reader_data (env_maps env) (env_buf env) mr) of
                 (rv, None) \<Rightarrow> (rv, None, manager\<lparr>xm_cache := c\<rparr>)
               | (rv, Some tmp_buffer) \<Rightarrow>
                   (case co_lock co c of (rv, c) \<Rightarrow>
                      if rv \<noteq> Ok then (rv, None, manager\<lparr>xm_cache := c\<rparr>)
                      else case co_put co c address tmp_buffer of
                        (None, c) \<Rightarrow>
                          (Err SQSH_ERROR_MALLOC_FAILED, None, manager\<lparr>xm_cache := c\<rparr>)
                      | (Some buffer, c) \<Rightarrow>
                          (case co_touch co c address of (rv, c) \<Rightarrow>
                             (rv, Some buffer, manager\<lparr>xm_cache := c\<rparr>)))))"

definition sqsh__extract_manager_retain_buffer ::
  "('e, 'b) cache_ops \<Rightarrow> ('e, 'x) extract_manager \<Rightarrow> 'b \<Rightarrow> rv \<times> ('e, 'x) extract_manager" where
  "sqsh__extract_manager_retain_buffer co manager buffer =
     (Ok, manager\<lparr>xm_cache := co_retain_value co (xm_cache manager) buffer\<rparr>)"

definition sqsh__extract_manager_release ::
  "('e, 'b) cache_ops \<Rightarrow> ('e, 'x) extract_manager \<Rightarrow> nat \<Rightarrow> rv \<times> ('e, 'x) extract_manager" where
  "sqsh__extract_manager_release co manager address =
     (case co_lock co (xm_cache manager) of (rv, c) \<Rightarrow>
        if rv \<noteq> Ok then (rv, manager\<lparr>xm_cache := c\<rparr>)
        else case co_release co c address of (rv, c) \<Rightarrow> (rv, manager\<lparr>xm_cache := c\<rparr>))"

section \<open>The extract view\<close>

text \<open>
  A view of an extracted buffer. The manager pointer is null in a zeroed view (\<open>ev_managed\<close>); the
  manager itself is passed to the operations.
\<close>

record 'b extract_view =
  ev_managed :: bool
  ev_address :: nat
  ev_buffer :: "'b option"
  ev_size :: nat

definition zero_extract_view :: "'b extract_view" where
  "zero_extract_view = \<lparr>ev_managed = False, ev_address = 0, ev_buffer = None, ev_size = 0\<rparr>"

definition sqsh__extract_view_cleanup ::
  "('e, 'b) cache_ops \<Rightarrow> ('e, 'x) extract_manager \<Rightarrow> 'b extract_view \<Rightarrow>
   rv \<times> 'b extract_view \<times> ('e, 'x) extract_manager" where
  "sqsh__extract_view_cleanup co manager view =
     (if ev_managed view
      then case sqsh__extract_manager_release co manager (ev_address view) of (rv, manager) \<Rightarrow>
             (rv, zero_extract_view, manager)
      else (Ok, zero_extract_view, manager))"

definition sqsh__extract_view_init ::
  "('c, 'b, 'e) sqsh_env \<Rightarrow> ('e, 'x) extract_manager \<Rightarrow> ('u, 'c, 'b) map_reader \<Rightarrow>
   rv \<times> 'b extract_view \<times> ('e, 'x) extract_manager" where
  "sqsh__extract_view_init env manager mr =
     (case sqsh__extract_manager_uncompress env manager mr of (rv, buffer, manager) \<Rightarrow>
        if rv \<noteq> Ok then (rv, zero_extract_view, manager)
        else case buffer of
          None \<Rightarrow> (Fault, zero_extract_view, manager)
        | Some b \<Rightarrow>
            (Ok, \<lparr>ev_managed = True, ev_address = sqsh__map_reader_address mr, ev_buffer = Some b,
                  ev_size = cx_buffer_size (env_buf env) b\<rparr>, manager))"

definition sqsh__extract_view_copy ::
  "('e, 'b) cache_ops \<Rightarrow> ('e, 'x) extract_manager \<Rightarrow> 'b extract_view \<Rightarrow>
   rv \<times> 'b extract_view \<times> ('e, 'x) extract_manager" where
  "sqsh__extract_view_copy co manager source =
     (case (case ev_buffer source of
              None \<Rightarrow> (Ok, manager)
            | Some b \<Rightarrow> sqsh__extract_manager_retain_buffer co manager b) of (rv, manager) \<Rightarrow>
        if rv \<noteq> Ok then (rv, zero_extract_view, manager)
        else (Ok, \<lparr>ev_managed = ev_managed source, ev_address = ev_address source,
                   ev_buffer = ev_buffer source, ev_size = ev_size source\<rparr>, manager))"

definition sqsh__extract_view_data :: "'b cx_buffer_ops \<Rightarrow> 'b extract_view \<Rightarrow> byte list" where
  "sqsh__extract_view_data bo view =
     (case ev_buffer view of None \<Rightarrow> [] | Some b \<Rightarrow> cb_data bo b)"

definition sqsh__extract_view_size :: "'b extract_view \<Rightarrow> nat" where
  "sqsh__extract_view_size view = ev_size view"

section \<open>Correctness\<close>

text \<open>
  What a block decompresses to: the bytes that \<open>extract_block\<close> stores, or nothing if the codec refuses
  the block.
\<close>

definition decode ::
  "'b cx_buffer_ops \<Rightarrow> 'x extractor_impl option \<Rightarrow> nat \<Rightarrow> byte list \<Rightarrow> byte list option" where
  "decode bo impl block_size data =
     (case extract_block bo impl block_size data of
        (Ok, Some b) \<Rightarrow> Some (cb_data bo b)
      | _ \<Rightarrow> None)"

lemma cx_buffer_add_capacity:
  "cx_buffer_ok bo \<Longrightarrow> cb_add_capacity bo b n = (rv, b') \<Longrightarrow>
   safe_rv rv \<and> (rv = Ok \<longrightarrow> cb_data bo b' = cb_data bo b)"
  unfolding cx_buffer_ok_def by (metis fst_conv snd_conv)

lemma cx_buffer_add_size:
  "cx_buffer_ok bo \<Longrightarrow> cb_add_size bo b xs = (rv, b') \<Longrightarrow>
   safe_rv rv \<and> (rv = Ok \<longrightarrow> cb_data bo b' = cb_data bo b @ xs)"
  unfolding cx_buffer_ok_def by (metis fst_conv snd_conv)

lemma extract_correct:
  assumes bo: "cx_buffer_ok bo" and impl: "\<And>i. impl = Some i \<Longrightarrow> extractor_impl_ok i"
    and eq: "extract_block bo impl block_size data = (rv, r)"
  shows "safe_rv rv \<and> (rv = Ok \<longleftrightarrow> (\<exists>b. r = Some b)) \<and>
    (\<forall>b. r = Some b \<longrightarrow> decode bo impl block_size data = Some (cb_data bo b) \<and>
       length (cb_data bo b) \<le> block_size)"
proof -
  obtain rv0 b0 where i0: "cb_init bo = (rv0, b0)" by fastforce
  note B0 = cx_buffer_init [OF bo i0]
  show ?thesis
  proof (cases "rv0 = Ok \<and> impl \<noteq> None")
    case False
    then show ?thesis using eq i0 B0
      by (cases impl; cases "rv0 = Ok")
        (auto simp: extract_block_def sqsh__extractor_init_def decode_def cong: if_cong
          split: rv.splits)
  next
    case True
    then obtain i where i: "impl = Some i" "rv0 = Ok" by auto
    obtain rv1 b1 where c: "cb_add_capacity bo b0 block_size = (rv1, b1)" by fastforce
    obtain rv2 x2 where x: "xi_init i block_size = (rv2, x2)" by fastforce
    obtain rv3 x3 where w: "xi_write i x2 data = (rv3, x3)" by fastforce
    obtain rv4 out x4 where f: "xi_finish i x3 block_size = (rv4, out, x4)" by (rule prod_cases3)
    obtain rv5 b5 where s: "cb_add_size bo b1 out = (rv5, b5)" by fastforce
    note C = cx_buffer_add_capacity [OF bo c] and S = cx_buffer_add_size [OF bo s]
    have X: "safe_rv rv2" "safe_rv rv3" "safe_rv rv4" "rv4 = Ok \<Longrightarrow> length out \<le> block_size"
      using impl [OF i(1)] x w f unfolding extractor_impl_ok_def by (metis fst_conv snd_conv)+
    have e: "(rv, r) = (if rv1 \<noteq> Ok then (rv1, None) else if rv2 \<noteq> Ok then (rv2, None)
        else if rv3 \<noteq> Ok then (rv3, None) else if rv4 \<noteq> Ok then (rv4, None)
        else if rv5 \<noteq> Ok then (rv5, None) else (Ok, Some b5))"
      using eq i i0 c x w f s
      by (cases "rv1 = Ok"; cases "rv2 = Ok"; cases "rv3 = Ok"; cases "rv4 = Ok")
        (simp_all add: extract_block_def sqsh__extractor_init_def sqsh__extractor_write_def
          sqsh__extractor_finish_def Let_def cong: if_cong)
    then show ?thesis using B0 C S X i(2) eq
      by (auto simp: decode_def split: if_splits)
  qed
qed


text \<open>
  \<^verbatim>\<open>sqsh__extract_manager_uncompress\<close> returns the decompressed data of the reader, from the cache or
  freshly extracted. \<open>Q a b\<close> is what the entries of the cache satisfy; the data of the reader at its
  address must satisfy it when it is decompressed.
\<close>

definition extract_manager_ok ::
  "('e, 'b) cache_ops \<Rightarrow> ((nat \<Rightarrow> 'b \<Rightarrow> bool) \<Rightarrow> 'e \<Rightarrow> bool) \<Rightarrow> (nat \<Rightarrow> 'b \<Rightarrow> bool) \<Rightarrow>
   ('e, 'x) extract_manager \<Rightarrow> bool" where
  "extract_manager_ok co entries Q m \<longleftrightarrow> cache_ok co entries \<and> entries Q (xm_cache m) \<and>
     (\<forall>i. xm_impl m = Some i \<longrightarrow> extractor_impl_ok i)"

lemma extract_manager_cache_update:
  "extract_manager_ok co entries Q m \<Longrightarrow> entries Q c \<Longrightarrow>
   extract_manager_ok co entries Q (m\<lparr>xm_cache := c\<rparr>)"
  by (simp add: extract_manager_ok_def)

lemma uncompress_correct:
  assumes bo: "cx_buffer_ok (env_buf env)"
    and ok: "extract_manager_ok (env_cache env) entries Q m"
    and Q: "\<And>b. decode (env_buf env) (xm_impl m) (xm_block_size m)
        (sqsh__map_reader_data (env_maps env) (env_buf env) mr) = Some (cb_data (env_buf env) b) \<Longrightarrow>
      Q (sqsh__map_reader_address mr) b"
    and eq: "sqsh__extract_manager_uncompress env m mr = (rv, r, m')"
  shows "safe_rv rv \<and> (\<exists>c. m' = m\<lparr>xm_cache := c\<rparr>) \<and>
    extract_manager_ok (env_cache env) entries Q m' \<and>
    (rv = Ok \<longrightarrow> (\<exists>b. r = Some b \<and> Q (sqsh__map_reader_address mr) b)) \<and>
    (cache_total (env_cache env) \<and> decode (env_buf env) (xm_impl m) (xm_block_size m)
        (sqsh__map_reader_data (env_maps env) (env_buf env) mr) \<noteq> None \<longrightarrow> rv = Ok)"
proof -
  let ?co = "env_cache env" and ?bo = "env_buf env" and ?a = "sqsh__map_reader_address mr"
  let ?d = "sqsh__map_reader_data (env_maps env) (env_buf env) mr"
  from ok have co: "cache_ok ?co entries" and en: "entries Q (xm_cache m)"
    and im: "\<And>i. xm_impl m = Some i \<Longrightarrow> extractor_impl_ok i"
    by (simp_all add: extract_manager_ok_def)
  note up = extract_manager_cache_update [OF ok]
  have tot: "cache_total ?co \<Longrightarrow> r = Ok" if "co_lock ?co c = (r, c') \<or> co_unlock ?co c = (r, c') \<or>
      co_touch ?co c k = (r, c')" for r c c' k
    using that unfolding cache_total_def by (metis fst_conv)
  obtain rv1 c1 where l1: "co_lock ?co (xm_cache m) = (rv1, c1)" by fastforce
  note L1 = cache_lock [OF co en l1]
  show ?thesis
  proof (cases "rv1 = Ok")
    case False
    with eq l1 have "rv = rv1" "m' = m\<lparr>xm_cache := c1\<rparr>"
      by (simp_all add: sqsh__extract_manager_uncompress_def Let_def)
    then show ?thesis using L1 up tot l1 False by blast
  next
    case rv1: True
    obtain v c2 where r: "co_retain ?co c1 ?a = (v, c2)" by fastforce
    note R = cache_retain [OF co conjunct2 [OF L1] r]
    show ?thesis
    proof (cases v)
      case (Some b)
      obtain rv2 c3 where t: "co_touch ?co c2 ?a = (rv2, c3)" by fastforce
      note T = cache_touch [OF co conjunct1 [OF R] t]
      have "rv = rv2" "r = Some b" "m' = m\<lparr>xm_cache := c3\<rparr>"
        using eq l1 rv1 r Some t
        by (simp_all add: sqsh__extract_manager_uncompress_def Let_def)
      then show ?thesis using T up R Some tot t by blast
    next
      case None
      obtain rv2 c3 where u: "co_unlock ?co c2 = (rv2, c3)" by fastforce
      note U = cache_unlock [OF co conjunct1 [OF R] u]
      show ?thesis
      proof (cases "rv2 = Ok")
        case False
        with eq l1 rv1 r None u have "rv = rv2" "m' = m\<lparr>xm_cache := c3\<rparr>"
          by (simp_all add: sqsh__extract_manager_uncompress_def Let_def)
        then show ?thesis using U up tot u False by blast
      next
        case rv2: True
        obtain rv3 x where ex: "extract_block ?bo (xm_impl m) (xm_block_size m) ?d = (rv3, x)"
          by fastforce
        note X = extract_correct [OF bo im ex]
        show ?thesis
        proof (cases x)
          case None
          with eq l1 rv1 r \<open>v = None\<close> u rv2 ex have "rv = rv3" "m' = m\<lparr>xm_cache := c3\<rparr>"
            by (simp_all add: sqsh__extract_manager_uncompress_def Let_def)
          moreover have "decode ?bo (xm_impl m) (xm_block_size m) ?d = None"
            using ex None by (simp add: decode_def split: rv.split)
          ultimately show ?thesis using X U up None by auto
        next
          case (Some b)
          obtain rv4 c4 where l4: "co_lock ?co c3 = (rv4, c4)" by fastforce
          note L4 = cache_lock [OF co conjunct2 [OF U] l4]
          have Qb: "Q ?a b" using Q X Some by blast
          show ?thesis
          proof (cases "rv4 = Ok")
            case False
            with eq l1 rv1 r \<open>v = None\<close> u rv2 ex Some l4 have "rv = rv4" "m' = m\<lparr>xm_cache := c4\<rparr>"
              by (simp_all add: sqsh__extract_manager_uncompress_def Let_def)
            then show ?thesis using L4 up tot l4 False by blast
          next
            case rv4: True
            obtain w c5 where p: "co_put ?co c4 ?a b = (w, c5)" by fastforce
            note P = cache_put [where P = Q, OF co conjunct2 [OF L4] Qb p]
            show ?thesis
            proof (cases w)
              case None
              then have "\<not> cache_total ?co" using p by (metis cache_total_def fst_conv)
              moreover have "rv = Err SQSH_ERROR_MALLOC_FAILED" "m' = m\<lparr>xm_cache := c5\<rparr>"
                using eq l1 rv1 r \<open>v = None\<close> u rv2 ex Some l4 rv4 p None
                by (simp_all add: sqsh__extract_manager_uncompress_def Let_def)
              ultimately show ?thesis using P up by auto
            next
              case w: (Some y)
              obtain rv6 c6 where t: "co_touch ?co c5 ?a = (rv6, c6)" by fastforce
              note T = cache_touch [OF co conjunct1 [OF P] t]
              have "rv = rv6" "r = Some y" "m' = m\<lparr>xm_cache := c6\<rparr>"
                using eq l1 rv1 r \<open>v = None\<close> u rv2 ex Some l4 rv4 p w t
                by (simp_all add: sqsh__extract_manager_uncompress_def Let_def)
              then show ?thesis using T up P w tot t by blast
            qed
          qed
        qed
      qed
    qed
  qed
qed

lemma extract_view_cleanup_correct:
  assumes ok: "extract_manager_ok co entries Q m"
    and eq: "sqsh__extract_view_cleanup co m view = (rv, view', m')"
  shows "safe_rv rv \<and> view' = zero_extract_view \<and> (\<exists>c. m' = m\<lparr>xm_cache := c\<rparr>) \<and>
    extract_manager_ok co entries Q m'"
proof (cases "ev_managed view")
  case False
  moreover have "\<exists>c. m = m\<lparr>xm_cache := c\<rparr>" by (rule exI [of _ "xm_cache m"]) simp
  ultimately show ?thesis using eq ok by (simp add: sqsh__extract_view_cleanup_def)
next
  case True
  from ok have co: "cache_ok co entries" and en: "entries Q (xm_cache m)"
    by (simp_all add: extract_manager_ok_def)
  obtain rv1 c1 where l: "co_lock co (xm_cache m) = (rv1, c1)" by fastforce
  obtain rv2 c2 where r: "co_release co c1 (ev_address view) = (rv2, c2)" by fastforce
  note L = cache_lock [OF co en l]
  have R: "safe_rv rv2 \<and> entries Q c2"
    using cache_release [OF co conjunct2 [OF L]] r by (metis fst_conv snd_conv)
  have "view' = zero_extract_view"
    "(rv, m') = (if rv1 \<noteq> Ok then (rv1, m\<lparr>xm_cache := c1\<rparr>) else (rv2, m\<lparr>xm_cache := c2\<rparr>))"
    using eq True l r
    by (auto simp: sqsh__extract_view_cleanup_def sqsh__extract_manager_release_def
        split: if_splits)
  then show ?thesis using L R extract_manager_cache_update [OF ok] by (auto split: if_splits)
qed

end
