(* ===== verification/Sqsh_Metablock.thy ===== *)
theory Sqsh_Metablock
  imports Sqsh_Extract
begin

text \<open>
  Metablocks, \<^verbatim>\<open>libsqsh/src/metablock\<close>: the iterator over a chain of metablocks (a two-byte header
  with the size on disk and the compression bit, then the block) and the reader on top of it.

  A data pointer is modelled by the bytes it points to when it is assigned. The specification is
  the chain of the blocks that can be parsed and decompressed from an address on
  (\<open>metablock_chain\<close>); the stream of the iterator is its concatenation. \<open>skip\<close> does not look into
  the blocks it skips and takes them to be of full size (\<open>chain_reaches\<close>).
\<close>

section \<open>The iterator\<close>

definition SQSH_METABLOCK_BLOCK_SIZE :: nat where "SQSH_METABLOCK_BLOCK_SIZE = 8192"

record ('u, 'c, 'b, 'e, 'x) metablock_iterator =
  mb_reader :: "('u, 'c, 'b) map_reader"
  mb_manager :: "('e, 'x) extract_manager"
  mb_view :: "'b extract_view"
  mb_is_compressed :: bool
  mb_outer_size :: nat
  mb_inner_size :: nat
  mb_data :: "byte list"

definition sqsh__metablock_iterator_init ::
  "('c, 'b, 'e) sqsh_env \<Rightarrow> ('u, 'c) map_manager \<Rightarrow> ('e, 'x) extract_manager \<Rightarrow> nat \<Rightarrow> nat \<Rightarrow>
   ('u, 'c, 'b, 'e, 'x) metablock_iterator \<Rightarrow> rv \<times> ('u, 'c, 'b, 'e, 'x) metablock_iterator" where
  "sqsh__metablock_iterator_init env map_manager metablock_manager start_address upper_limit it =
     (case sqsh__map_reader_init (env_maps env) (env_buf env) map_manager start_address upper_limit
             (mb_reader it) of (rv, mr) \<Rightarrow>
        (rv, it\<lparr>mb_outer_size := 0, mb_inner_size := 0, mb_manager := metablock_manager,
                mb_view := zero_extract_view, mb_reader := mr\<rparr>))"

definition process_next_header ::
  "('c, 'b, 'e) sqsh_env \<Rightarrow> ('u, 'c, 'b, 'e, 'x) metablock_iterator \<Rightarrow>
   rv \<times> ('u, 'c, 'b, 'e, 'x) metablock_iterator" where
  "process_next_header env it =
     (case sqsh__map_reader_advance (env_maps env) (env_buf env) (mb_reader it)
             (mb_outer_size it) sizeof_SqshDataMetablock of (rv, mr) \<Rightarrow>
        (let it = it\<lparr>mb_reader := mr\<rparr>
         in if rv \<noteq> Ok then (rv, it)
            else let metablock = sqsh__map_reader_data (env_maps env) (env_buf env) mr;
                     is_compressed = sqsh__data_metablock_is_compressed metablock;
                     outer_size = sqsh__data_metablock_size metablock
                 in if SQSH_METABLOCK_BLOCK_SIZE < outer_size
                    then (Err SQSH_ERROR_SIZE_MISMATCH, it)
                    else (Ok, it\<lparr>mb_is_compressed := is_compressed, mb_outer_size := outer_size\<rparr>)))"

definition map_data ::
  "('c, 'b, 'e) sqsh_env \<Rightarrow> ('u, 'c, 'b, 'e, 'x) metablock_iterator \<Rightarrow>
   rv \<times> ('u, 'c, 'b, 'e, 'x) metablock_iterator" where
  "map_data env it =
     (case sqsh__map_reader_advance (env_maps env) (env_buf env) (mb_reader it)
             sizeof_SqshDataMetablock (mb_outer_size it) of (rv, mr) \<Rightarrow>
        (let it = it\<lparr>mb_reader := mr\<rparr>
         in if rv \<noteq> Ok then (rv, it)
            else case sqsh__extract_view_cleanup (env_cache env) (mb_manager it) (mb_view it) of
              (_, view, manager) \<Rightarrow>
                (let it = it\<lparr>mb_view := view, mb_manager := manager\<rparr>
                 in if mb_is_compressed it
                    then case sqsh__extract_view_init env manager mr of (rv, view, manager) \<Rightarrow>
                           (let it = it\<lparr>mb_view := view, mb_manager := manager\<rparr>
                            in if rv \<noteq> Ok then (rv, it)
                               else (Ok, it\<lparr>mb_data := sqsh__extract_view_data (env_buf env) view,
                                       mb_inner_size := sqsh__extract_view_size view mod 2 ^ 16\<rparr>))
                    else (Ok, it\<lparr>mb_data := sqsh__map_reader_data (env_maps env) (env_buf env) mr,
                                 mb_inner_size := mb_outer_size it\<rparr>))))"

definition sqsh__metablock_iterator_next ::
  "('c, 'b, 'e) sqsh_env \<Rightarrow> ('u, 'c, 'b, 'e, 'x) metablock_iterator \<Rightarrow>
   bool \<times> rv \<times> ('u, 'c, 'b, 'e, 'x) metablock_iterator" where
  "sqsh__metablock_iterator_next env it =
     (case andthen (process_next_header env it) (map_data env) of (rv, it) \<Rightarrow> (rv = Ok, rv, it))"

definition sqsh__metablock_iterator_size :: "('u, 'c, 'b, 'e, 'x) metablock_iterator \<Rightarrow> nat" where
  "sqsh__metablock_iterator_size it = mb_inner_size it"

text \<open>The bytes a caller may read through the data pointer.\<close>

definition sqsh__metablock_iterator_data ::
  "('u, 'c, 'b, 'e, 'x) metablock_iterator \<Rightarrow> byte list" where
  "sqsh__metablock_iterator_data it = take (mb_inner_size it) (mb_data it)"

text \<open>The loop of \<^verbatim>\<open>sqsh__metablock_iterator_skip\<close>, with the number of rounds bounded.\<close>

fun metablock_skip_loop ::
  "nat \<Rightarrow> ('c, 'b, 'e) sqsh_env \<Rightarrow> ('u, 'c, 'b, 'e, 'x) metablock_iterator \<Rightarrow> nat \<Rightarrow> nat \<Rightarrow>
   rv \<times> nat \<times> ('u, 'c, 'b, 'e, 'x) metablock_iterator" where
  "metablock_skip_loop 0 env it offset current_size = (Diverge, offset, it)"
| "metablock_skip_loop (Suc fuel) env it offset current_size =
     (let offset = wrap_sub offset current_size;
          current_size = SQSH_METABLOCK_BLOCK_SIZE
      in case process_next_header env it of (rv, it) \<Rightarrow>
           if rv \<noteq> Ok then (rv, offset, it)
           else if offset < current_size then (Ok, offset, it)
           else case add_overflow 64 (mb_outer_size it) sizeof_SqshDataMetablock of
             None \<Rightarrow> (Err SQSH_ERROR_OUT_OF_BOUNDS, offset, it)
           | Some skip_size \<Rightarrow>
               (case sqsh__map_reader_advance (env_maps env) (env_buf env) (mb_reader it)
                       skip_size 0 of (rv, mr) \<Rightarrow>
                  (let it = it\<lparr>mb_reader := mr\<rparr>
                   in if rv \<noteq> Ok then (rv, offset, it)
                      else metablock_skip_loop fuel env (it\<lparr>mb_outer_size := 0\<rparr>) offset
                             current_size)))"

text \<open>A bound on the headers that are still to come: each takes at least two bytes.\<close>

definition metablock_fuel :: "('u, 'c, 'b, 'e, 'x) metablock_iterator \<Rightarrow> nat" where
  "metablock_fuel it =
     sqsh__map_manager_size (it_manager (rd_iterator (mr_reader (mb_reader it))))
     - (mr_address (mb_reader it) + mb_outer_size it)"

definition sqsh__metablock_iterator_skip ::
  "('c, 'b, 'e) sqsh_env \<Rightarrow> ('u, 'c, 'b, 'e, 'x) metablock_iterator \<Rightarrow> nat \<Rightarrow>
   rv \<times> nat \<times> ('u, 'c, 'b, 'e, 'x) metablock_iterator" where
  "sqsh__metablock_iterator_skip env it offset =
     (let current_size = sqsh__metablock_iterator_size it
      in if offset < current_size then (Ok, offset, it)
         else case metablock_skip_loop (Suc (metablock_fuel it)) env it offset current_size of
           (rv, offset, it) \<Rightarrow>
             if rv \<noteq> Ok then (rv, offset, it)
             else case map_data env it of (rv, it) \<Rightarrow>
               if rv \<noteq> Ok then (rv, offset, it)
               else if sqsh__metablock_iterator_size it \<le> offset
                    then (Err SQSH_ERROR_OUT_OF_BOUNDS, offset, it)
                    else (Ok, offset, it))"

definition sqsh__metablock_iterator_cleanup ::
  "('c, 'b, 'e) sqsh_env \<Rightarrow> ('u, 'c, 'b, 'e, 'x) metablock_iterator \<Rightarrow>
   rv \<times> ('u, 'c, 'b, 'e, 'x) metablock_iterator" where
  "sqsh__metablock_iterator_cleanup env it =
     (case sqsh__extract_view_cleanup (env_cache env) (mb_manager it) (mb_view it) of
        (_, view, manager) \<Rightarrow>
          (case sqsh__map_reader_cleanup (env_maps env) (mb_reader it) of (rv, mr) \<Rightarrow>
             (rv, it\<lparr>mb_view := view, mb_manager := manager, mb_reader := mr\<rparr>)))"

section \<open>The metablock reader\<close>

definition metablock_reader_impl ::
  "('c, 'b, 'e) sqsh_env \<Rightarrow> ('u, 'c, 'b, 'e, 'x) metablock_iterator reader_iterator_impl" where
  "metablock_reader_impl env =
     \<lparr>ri_next = (\<lambda>it desired_size. sqsh__metablock_iterator_next env it),
      ri_skip = (\<lambda>it offset desired_size. sqsh__metablock_iterator_skip env it offset),
      ri_data = sqsh__metablock_iterator_data, ri_size = sqsh__metablock_iterator_size,
      ri_fuel = metablock_fuel\<rparr>"

type_synonym ('u, 'c, 'b, 'e, 'x) metablock_reader =
  "(('u, 'c, 'b, 'e, 'x) metablock_iterator, 'b) reader"

definition sqsh__metablock_reader_init ::
  "('c, 'b, 'e) sqsh_env \<Rightarrow> ('u, 'c) map_manager \<Rightarrow> ('e, 'x) extract_manager \<Rightarrow> nat \<Rightarrow> nat \<Rightarrow>
   ('u, 'c, 'b, 'e, 'x) metablock_reader \<Rightarrow> rv \<times> ('u, 'c, 'b, 'e, 'x) metablock_reader" where
  "sqsh__metablock_reader_init env map_manager metablock_manager start_address upper_limit r =
     (case sqsh__metablock_iterator_init env map_manager metablock_manager start_address
             upper_limit (rd_iterator r) of (rv, it) \<Rightarrow>
        (let r = r\<lparr>rd_iterator := it\<rparr>
         in if rv \<noteq> Ok then (rv, r) else sqsh__reader_init (env_buf env) it r))"

definition sqsh__metablock_reader_advance ::
  "('c, 'b, 'e) sqsh_env \<Rightarrow> ('u, 'c, 'b, 'e, 'x) metablock_reader \<Rightarrow> nat \<Rightarrow> nat \<Rightarrow>
   rv \<times> ('u, 'c, 'b, 'e, 'x) metablock_reader" where
  "sqsh__metablock_reader_advance env r offset sz =
     sqsh__reader_advance (metablock_reader_impl env) (env_buf env) r offset sz"

definition sqsh__metablock_reader_data ::
  "('c, 'b, 'e) sqsh_env \<Rightarrow> ('u, 'c, 'b, 'e, 'x) metablock_reader \<Rightarrow> byte list" where
  "sqsh__metablock_reader_data env r =
     sqsh__reader_data (metablock_reader_impl env) (env_buf env) r"

definition sqsh__metablock_reader_size :: "('u, 'c, 'b, 'e, 'x) metablock_reader \<Rightarrow> nat" where
  "sqsh__metablock_reader_size r = sqsh__reader_size r"

definition sqsh__metablock_reader_cleanup ::
  "('c, 'b, 'e) sqsh_env \<Rightarrow> ('u, 'c, 'b, 'e, 'x) metablock_reader \<Rightarrow>
   rv \<times> ('u, 'c, 'b, 'e, 'x) metablock_reader" where
  "sqsh__metablock_reader_cleanup env r =
     (case sqsh__metablock_iterator_cleanup env (rd_iterator r) of (_, it) \<Rightarrow>
        (Ok, r\<lparr>rd_iterator := it\<rparr>))"

section \<open>The chain of metablocks\<close>

text \<open>The block at an address: its size on disk and its contents.\<close>

definition metablock_parse ::
  "'b cx_buffer_ops \<Rightarrow> 'x extractor_impl option \<Rightarrow> byte list \<Rightarrow> nat \<Rightarrow> (nat \<times> byte list) option" where
  "metablock_parse bo impl bytes a =
     (if length bytes < a + 2 then None
      else let h = window a 2 bytes; n = sqsh__data_metablock_size h
           in if 8192 < n \<or> length bytes < a + 2 + n then None
              else if sqsh__data_metablock_is_compressed h
                   then map_option (Pair n) (decode bo impl 8192 (window (a + 2) n bytes))
                   else Some (n, window (a + 2) n bytes))"

lemma metablock_parse_bounds:
  "metablock_parse bo impl bytes a = Some (n, c) \<Longrightarrow>
   n \<le> 8192 \<and> a + 2 + n \<le> length bytes \<and> n = sqsh__data_metablock_size (window a 2 bytes)"
  by (auto simp: metablock_parse_def Let_def split: if_splits)

function metablock_chain ::
  "'b cx_buffer_ops \<Rightarrow> 'x extractor_impl option \<Rightarrow> byte list \<Rightarrow> nat \<Rightarrow> byte list list" where
  "metablock_chain bo impl bytes a =
     (case metablock_parse bo impl bytes a of
        None \<Rightarrow> []
      | Some (n, c) \<Rightarrow> c # metablock_chain bo impl bytes (a + 2 + n))"
  by pat_completeness auto
termination
  by (relation "measure (\<lambda>(bo, impl, bytes, a). length bytes - a)")
    (auto dest!: metablock_parse_bounds)

declare metablock_chain.simps [simp del]

text \<open>
  The position \<open>off\<close> of the concatenated chain is found by skipping: all blocks before the one
  that holds it are of full size.
\<close>

fun chain_reaches :: "byte list list \<Rightarrow> nat \<Rightarrow> bool" where
  "chain_reaches [] off = False"
| "chain_reaches (c # cs) off =
     (off < min 8192 (length c) \<or> length c = 8192 \<and> 8192 \<le> off \<and> chain_reaches cs (off - 8192))"


section \<open>Correctness of the iterator\<close>

lemma sizeof_metablock [simp]: "sizeof_SqshDataMetablock = 2"
  by (simp add: sizeof_SqshDataMetablock_def)

lemma map_reader_io:
  "map_reader_ok co entries src bo mr \<Longrightarrow>
   rd_iterator_offset (mr_reader mr) \<le> sqsh__map_reader_size mr"
  by (auto simp: map_reader_ok_def reader_at_def reader_mapped_def reader_buffered_def
      sqsh__map_reader_size_def sqsh__reader_size_def)

lemma advance_supported_le:
  "map_reader_ok co entries src bo mr \<Longrightarrow> sqsh__map_reader_size mr \<le> offset \<Longrightarrow>
   advance_supported (mr_reader mr) offset sz"
  using map_reader_io by (fastforce simp: advance_supported_def)

lemma process_next_header_correct:
  assumes bo: "cx_buffer_ok (env_buf env)"
    and ok: "map_reader_ok (env_maps env) entries src (env_buf env) (mb_reader it)"
    and sup: "sqsh__map_reader_size (mb_reader it) \<le> mb_outer_size it"
    and eq: "process_next_header env it = (rv, it')"
    and A: "A = map_reader_archive src (mb_reader it)"
    and a: "a = mr_address (mb_reader it) + mb_outer_size it"
  shows "safe_rv rv \<and>
    (rv = Ok \<longrightarrow> mb_manager it' = mb_manager it \<and>
      mb_is_compressed it' = sqsh__data_metablock_is_compressed (window a 2 A) \<and>
      mb_outer_size it' = sqsh__data_metablock_size (window a 2 A) \<and>
      map_reader_ok (env_maps env) entries src (env_buf env) (mb_reader it') \<and>
      mr_address (mb_reader it') = a \<and> map_reader_archive src (mb_reader it') = A \<and>
      sqsh__map_reader_size (mb_reader it') = 2 \<and>
      sqsh__data_metablock_size (window a 2 A) \<le> 8192 \<and> a + 2 \<le> length A) \<and>
    (map_reader_live (env_maps env) src (env_buf env) (mb_reader it) \<and> a + 2 \<le> length A \<and>
      sqsh__data_metablock_size (window a 2 A) \<le> 8192 \<longrightarrow>
      rv = Ok \<and> map_reader_live (env_maps env) src (env_buf env) (mb_reader it'))"
proof -
  obtain rv1 mr where ad: "sqsh__map_reader_advance (env_maps env) (env_buf env) (mb_reader it)
    (mb_outer_size it) 2 = (rv1, mr)" by fastforce
  note sup' = advance_supported_le [OF ok sup]
  note AD = map_reader_advance_correct [OF bo ok sup' _ ad]
    and LV = map_reader_advance_live [OF bo ok _ sup' _ _ ad]
  let ?n = "sqsh__data_metablock_size (window a 2 A)"
  show ?thesis
  proof (cases "rv1 = Ok")
    case False
    then have "rv = rv1" using eq ad by (simp add: process_next_header_def)
    then show ?thesis using AD LV False A a by auto
  next
    case True
    have d: "sqsh__map_reader_data (env_maps env) (env_buf env) mr = window a 2 A"
      using AD True by (simp add: A a)
    have "(rv, it') = (if 8192 < ?n then (Err SQSH_ERROR_SIZE_MISMATCH, it\<lparr>mb_reader := mr\<rparr>)
        else (Ok, it\<lparr>mb_reader := mr,
           mb_is_compressed := sqsh__data_metablock_is_compressed (window a 2 A),
           mb_outer_size := ?n\<rparr>))"
      using eq ad True by (simp add: process_next_header_def Let_def d SQSH_METABLOCK_BLOCK_SIZE_def
          cong: if_cong)
    then show ?thesis using AD LV True by (auto simp: A a split: if_splits)
  qed
qed

definition metablock_entry ::
  "'b cx_buffer_ops \<Rightarrow> 'x extractor_impl option \<Rightarrow> byte list \<Rightarrow> nat \<Rightarrow> 'b \<Rightarrow> bool" where
  "metablock_entry bo impl A a b \<longleftrightarrow> 2 \<le> a \<and>
     sqsh__data_metablock_is_compressed (window (a - 2) 2 A) \<and>
     (\<exists>n. metablock_parse bo impl A (a - 2) = Some (n, cb_data bo b) \<and>
        length (cb_data bo b) \<le> 8192)"

lemma map_data_correct:
  assumes bo: "cx_buffer_ok (env_buf env)"
    and ok: "map_reader_ok (env_maps env) entries src (env_buf env) (mb_reader it)"
    and sz: "sqsh__map_reader_size (mb_reader it) \<le> 2"
    and A: "A = map_reader_archive src (mb_reader it)" and a: "a = mr_address (mb_reader it)"
    and hdr: "mb_outer_size it = sqsh__data_metablock_size (window a 2 A)"
      "mb_is_compressed it = sqsh__data_metablock_is_compressed (window a 2 A)"
      "sqsh__data_metablock_size (window a 2 A) \<le> 8192" "a + 2 \<le> length A"
    and mgr: "extract_manager_ok (env_cache env) ee
        (metablock_entry (env_buf env) (xm_impl (mb_manager it)) A) (mb_manager it)"
      "xm_block_size (mb_manager it) = 8192"
    and eq: "map_data env it = (rv, it')"
  shows "safe_rv rv \<and>
    (rv = Ok \<longrightarrow>
      metablock_parse (env_buf env) (xm_impl (mb_manager it)) A a
        = Some (mb_outer_size it, sqsh__metablock_iterator_data it') \<and>
      mb_inner_size it' = length (sqsh__metablock_iterator_data it') \<and>
      map_reader_ok (env_maps env) entries src (env_buf env) (mb_reader it') \<and>
      mr_address (mb_reader it') = a + 2 \<and> map_reader_archive src (mb_reader it') = A \<and>
      sqsh__map_reader_size (mb_reader it') = mb_outer_size it' \<and>
      mb_outer_size it' = mb_outer_size it \<and>
      (\<exists>c. mb_manager it' = (mb_manager it)\<lparr>xm_cache := c\<rparr>) \<and>
      extract_manager_ok (env_cache env) ee
        (metablock_entry (env_buf env) (xm_impl (mb_manager it)) A) (mb_manager it')) \<and>
    (map_reader_live (env_maps env) src (env_buf env) (mb_reader it) \<and> cache_total (env_cache env) \<and>
      metablock_parse (env_buf env) (xm_impl (mb_manager it)) A a \<noteq> None \<and> a + 2 < length A \<longrightarrow>
      rv = Ok \<and> map_reader_live (env_maps env) src (env_buf env) (mb_reader it'))"
proof -
  let ?bo = "env_buf env" and ?n = "mb_outer_size it" and ?m = "mb_manager it"
  let ?Q = "metablock_entry (env_buf env) (xm_impl (mb_manager it)) A"
  obtain rv1 mr where ad: "sqsh__map_reader_advance (env_maps env) ?bo (mb_reader it) 2 ?n
    = (rv1, mr)" by fastforce
  have n64: "?n < 2 ^ 64" using hdr by simp
  note sup = advance_supported_le [OF ok sz]
  note AD = map_reader_advance_correct [OF bo ok sup n64 ad]
    and LV = map_reader_advance_live [OF bo ok _ sup _ _ ad]
  have lv: "map_reader_live (env_maps env) src ?bo (mb_reader it) \<Longrightarrow>
      metablock_parse ?bo (xm_impl ?m) A a \<noteq> None \<Longrightarrow> a + 2 < length A \<Longrightarrow>
      rv1 = Ok \<and> map_reader_live (env_maps env) src ?bo mr"
    using LV metablock_parse_bounds [of ?bo "xm_impl ?m" A a] hdr(1) by (auto simp: A a)
  show ?thesis
  proof (cases "rv1 = Ok")
    case False
    then have "rv = rv1" using eq ad by (simp add: map_data_def)
    then show ?thesis using AD lv False by auto
  next
    case True
    note AD = AD [THEN conjunct2, rule_format, OF True, folded A a]
    obtain rv2 v2 m2 where cl: "sqsh__extract_view_cleanup (env_cache env) ?m (mb_view it)
      = (rv2, v2, m2)" by (rule prod_cases3)
    note CL = extract_view_cleanup_correct [OF mgr(1) cl]
    show ?thesis
    proof (cases "mb_is_compressed it")
      case False
      have e: "rv = Ok" "it' = it\<lparr>mb_reader := mr, mb_view := v2, mb_manager := m2,
          mb_data := window (a + 2) ?n A, mb_inner_size := ?n\<rparr>"
        using eq ad True cl False AD by (simp_all add: map_data_def)
      have "metablock_parse ?bo (xm_impl ?m) A a = Some (?n, window (a + 2) ?n A)"
        using False hdr AD by (simp add: metablock_parse_def Let_def)
      then show ?thesis using e AD CL lv
        by (auto simp: sqsh__metablock_iterator_data_def A a)
    next
      case comp: True
      obtain rv3 r3 m3 where un: "sqsh__extract_manager_uncompress env m2 mr = (rv3, r3, m3)"
        by (rule prod_cases3)
      obtain c2 where c2: "m2 = ?m\<lparr>xm_cache := c2\<rparr>" using CL by auto
      have adr: "sqsh__map_reader_address mr = a + 2" using AD by (simp add: sqsh__map_reader_address_def)
      have prs: "metablock_parse ?bo (xm_impl ?m) A a
          = map_option (Pair ?n) (decode ?bo (xm_impl ?m) 8192 (window (a + 2) ?n A))"
        using comp hdr AD by (simp add: metablock_parse_def Let_def)
      have dec: "decode ?bo (xm_impl m2) (xm_block_size m2)
            (sqsh__map_reader_data (env_maps env) ?bo mr)
          = decode ?bo (xm_impl ?m) 8192 (window (a + 2) ?n A)"
        using c2 mgr(2) AD by simp
      have Q: "?Q (sqsh__map_reader_address mr) b"
        if "decode ?bo (xm_impl m2) (xm_block_size m2)
            (sqsh__map_reader_data (env_maps env) ?bo mr) = Some (cb_data ?bo b)" for b
      proof -
        have d: "decode ?bo (xm_impl ?m) 8192 (window (a + 2) ?n A) = Some (cb_data ?bo b)"
          using that dec by simp
        obtain rv4 b4 where ex: "extract_block ?bo (xm_impl ?m) 8192 (window (a + 2) ?n A) = (rv4, b4)"
          by fastforce
        have "\<And>i. xm_impl ?m = Some i \<Longrightarrow> extractor_impl_ok i"
          using mgr(1) by (simp add: extract_manager_ok_def)
        from extract_correct [OF bo this ex] d ex have "length (cb_data ?bo b) \<le> 8192"
          by (auto simp: decode_def split: rv.splits option.splits)
        with d prs comp hdr adr show ?thesis by (simp add: metablock_entry_def)
      qed
      note UN = uncompress_correct [OF bo conjunct2 [OF conjunct2 [OF conjunct2 [OF CL]]] Q un]
      have main: "(rv3 = Ok \<longrightarrow> r3 \<noteq> None) \<Longrightarrow> (rv, it') =
         (if rv3 \<noteq> Ok then (rv3, it\<lparr>mb_reader := mr, mb_view := zero_extract_view, mb_manager := m3\<rparr>)
          else (Ok, it\<lparr>mb_reader := mr, mb_manager := m3,
            mb_view := \<lparr>ev_managed = True, ev_address = a + 2, ev_buffer = r3,
               ev_size = length (cb_data ?bo (the r3))\<rparr>,
            mb_data := cb_data ?bo (the r3),
            mb_inner_size := length (cb_data ?bo (the r3)) mod 2 ^ 16\<rparr>))"
        using eq ad True cl comp un adr
        by (cases "rv3 = Ok"; cases r3)
          (auto simp: map_data_def sqsh__extract_view_init_def Let_def
            sqsh__extract_view_data_def sqsh__extract_view_size_def cx_buffer_size_def)
      show ?thesis
      proof (cases "rv3 = Ok")
        case False
        with main UN lv dec prs show ?thesis by auto
      next
        case rv3: True
        with UN obtain b where b: "r3 = Some b" "?Q (a + 2) b" using adr by auto
        then have pb: "metablock_parse ?bo (xm_impl ?m) A a = Some (?n, cb_data ?bo b)"
          "length (cb_data ?bo b) \<le> 8192"
          using metablock_parse_bounds [of ?bo "xm_impl ?m" A a] hdr(1)
          by (auto simp: metablock_entry_def)
        have "(\<exists>c. m3 = ?m\<lparr>xm_cache := c\<rparr>)" using UN c2 by auto
        then show ?thesis using main rv3 b(1) pb AD UN lv
          by (auto simp: sqsh__metablock_iterator_data_def A a)
      qed
    qed
  qed
qed


lemma metablock_fuel_archive:
  assumes "map_reader_ok co entries src bo (mb_reader it)"
  shows "metablock_fuel it = length (map_reader_archive src (mb_reader it))
    - (mr_address (mb_reader it) + mb_outer_size it)"
proof -
  have "map_iterator_ok co entries src (rd_iterator (mr_reader (mb_reader it)))"
    using assms by (simp add: map_reader_ok_def reader_at_def)
  from manager_size(2) [OF map_iterator_ok_manager(2) [OF this]] show ?thesis
    by (simp add: metablock_fuel_def map_reader_archive_def map_stream_def)
qed

lemma chain_reaches_bound: "chain_reaches cs off \<Longrightarrow> off < length (concat cs)"
  by (induction cs arbitrary: off) fastforce+

lemma metablock_chain_step:
  "metablock_parse bo impl A a = Some (n, c) \<Longrightarrow>
   metablock_chain bo impl A a = c # metablock_chain bo impl A (a + 2 + n)"
  by (subst metablock_chain.simps) simp

lemma metablock_chain_stop:
  "metablock_parse bo impl A a = None \<Longrightarrow> metablock_chain bo impl A a = []"
  by (subst metablock_chain.simps) simp

lemma chain_reaches_parse:
  "chain_reaches (metablock_chain bo impl A a) off \<Longrightarrow>
   \<exists>n c. metablock_parse bo impl A a = Some (n, c)"
  by (cases "metablock_parse bo impl A a") (auto simp: metablock_chain_stop)

text \<open>
  The loop of \<^verbatim>\<open>skip\<close> stops at the header of a block; when the chain reaches the position, it is
  the block that holds it.
\<close>

lemma metablock_skip_loop_correct:
  assumes bo: "cx_buffer_ok (env_buf env)"
  shows "map_reader_ok (env_maps env) entries src (env_buf env) (mb_reader it) \<Longrightarrow>
    sqsh__map_reader_size (mb_reader it) \<le> mb_outer_size it \<Longrightarrow> metablock_fuel it < fuel \<Longrightarrow>
    A = map_reader_archive src (mb_reader it) \<Longrightarrow>
    cs = metablock_chain (env_buf env) impl A (mr_address (mb_reader it) + mb_outer_size it) \<Longrightarrow>
    metablock_skip_loop fuel env it off cur = (rv, off', it') \<Longrightarrow>
    safe_rv rv \<and>
    (rv = Ok \<longrightarrow> map_reader_ok (env_maps env) entries src (env_buf env) (mb_reader it') \<and>
      sqsh__map_reader_size (mb_reader it') = 2 \<and> map_reader_archive src (mb_reader it') = A \<and>
      mb_outer_size it' = sqsh__data_metablock_size (window (mr_address (mb_reader it')) 2 A) \<and>
      mb_outer_size it' \<le> 8192 \<and> mr_address (mb_reader it') + 2 \<le> length A \<and>
      mb_is_compressed it'
        = sqsh__data_metablock_is_compressed (window (mr_address (mb_reader it')) 2 A) \<and>
      mb_manager it' = mb_manager it \<and> off' < 8192) \<and>
    (chain_reaches cs (off - cur) \<and> cur \<le> off \<and> off < 2 ^ 64 \<longrightarrow>
      (rv = Ok \<longrightarrow>
        (\<exists>p. cs = p @ metablock_chain (env_buf env) impl A (mr_address (mb_reader it')) \<and>
           length (concat p) + off' = off - cur) \<and>
        chain_reaches (metablock_chain (env_buf env) impl A (mr_address (mb_reader it'))) off') \<and>
      (map_reader_live (env_maps env) src (env_buf env) (mb_reader it) \<longrightarrow>
        rv = Ok \<and> map_reader_live (env_maps env) src (env_buf env) (mb_reader it')))"
proof (induction fuel arbitrary: it off cur cs)
  case 0
  then show ?case by simp
next
  case (Suc fuel)
  let ?co = "env_maps env" and ?bo = "env_buf env"
  define a where "a = mr_address (mb_reader it) + mb_outer_size it"
  define o1 where "o1 = wrap_sub off cur"
  note ok = Suc.prems(1) and sz = Suc.prems(2) and fl = Suc.prems(3) and A = Suc.prems(4)
  have cs: "cs = metablock_chain ?bo impl A a" using Suc.prems(5) by (simp add: a_def)
  obtain rv1 it1 where pr: "process_next_header env it = (rv1, it1)" by fastforce
  note PR = process_next_header_correct [OF bo ok sz pr A a_def]
  let ?n = "sqsh__data_metablock_size (window a 2 A)"
  have o1: "o1 = off - cur" if "cur \<le> off" "off < 2 ^ 64"
    using that by (simp add: o1_def wrap_sub_exact)
  have reach: "a + 2 + ?n \<le> length A \<and> ?n \<le> 8192" if "chain_reaches cs x" for x
    using chain_reaches_parse that metablock_parse_bounds unfolding cs by metis
  note unf = Suc.prems(6) [simplified Let_def metablock_skip_loop.simps pr o1_def [symmetric]
      prod.case SQSH_METABLOCK_BLOCK_SIZE_def]
  show ?case
  proof (cases "rv1 = Ok")
    case False
    then have "rv = rv1" using unf by simp
    then show ?thesis using PR False reach by auto
  next
    case rv1: True
    note PR1 = PR [THEN conjunct2, THEN conjunct1, rule_format, OF rv1]
    note PR2 = PR [THEN conjunct2, THEN conjunct2]
    have i1: "mb_outer_size it1 = ?n" "mb_manager it1 = mb_manager it"
      "mb_is_compressed it1 = sqsh__data_metablock_is_compressed (window a 2 A)"
      "mr_address (mb_reader it1) = a"
      using PR1 by blast+
    show ?thesis
    proof (cases "o1 < 8192")
      case True
      then have e: "rv = Ok" "off' = o1" "it' = it1" using unf rv1 by simp_all
      have "\<exists>p. cs = p @ metablock_chain ?bo impl A (mr_address (mb_reader it1)) \<and>
          length (concat p) + o1 = off - cur" if "cur \<le> off" "off < 2 ^ 64"
        by (rule exI [of _ "[]"]) (use cs i1 o1 that in simp)
      then show ?thesis using e PR1 PR2 i1 True cs o1 reach by auto
    next
      case False
      obtain rv2 mr where ad: "sqsh__map_reader_advance ?co ?bo (mb_reader it1) (?n + 2) 0
        = (rv2, mr)" by fastforce
      have ok1: "map_reader_ok ?co entries src ?bo (mb_reader it1)" using PR1 by simp
      have "sqsh__map_reader_size (mb_reader it1) \<le> ?n + 2" using PR1 by simp
      note sup = advance_supported_le [OF ok1 this]
      note AD = map_reader_advance_correct [OF bo ok1 sup _ ad]
        and LV = map_reader_advance_live [OF bo ok1 _ sup _ _ ad]
      have ov: "add_overflow 64 ?n 2 = Some (?n + 2)" using PR1 by simp
      have unf: "(if rv2 \<noteq> Ok then (rv2, o1, it1\<lparr>mb_reader := mr\<rparr>)
          else metablock_skip_loop fuel env (it1\<lparr>mb_reader := mr, mb_outer_size := 0\<rparr>) o1 8192)
          = (rv, off', it')"
        using unf rv1 False by (simp add: ov ad i1(1) cong: if_cong del: add_overflow_Some add_2_eq_Suc')
      have far: "\<exists>c. cs = c # metablock_chain ?bo impl A (a + 2 + ?n) \<and> length c = 8192 \<and>
          chain_reaches (metablock_chain ?bo impl A (a + 2 + ?n)) (o1 - 8192) \<and>
          a + 2 + ?n < length A"
        if R: "chain_reaches cs (off - cur)" "cur \<le> off" "off < 2 ^ 64"
      proof -
        obtain n c where p: "metablock_parse ?bo impl A a = Some (n, c)"
          using chain_reaches_parse R(1) cs by blast
        with metablock_chain_step [OF p] metablock_parse_bounds [OF p] cs
        have c: "cs = c # metablock_chain ?bo impl A (a + 2 + ?n)" by simp
        have r: "length c = 8192" "chain_reaches (metablock_chain ?bo impl A (a + 2 + ?n)) (o1 - 8192)"
          using R(1) c False o1 [OF R(2,3)] by auto
        then have "a + 2 + ?n + 2 \<le> length A"
          using chain_reaches_parse metablock_parse_bounds by (metis add_leD1)
        with c r show ?thesis by auto
      qed
      show ?thesis
      proof (cases "rv2 = Ok")
        case False
        then have "rv = rv2" using unf by simp
        moreover have "rv2 = Ok" if "chain_reaches cs (off - cur)" "cur \<le> off" "off < 2 ^ 64"
          "map_reader_live ?co src ?bo (mb_reader it)"
          using far [OF that(1-3)] LV PR1 PR2 that reach [OF that(1)] i1 by auto
        ultimately show ?thesis using AD False by auto
      next
        case rv2: True
        let ?it = "it1\<lparr>mb_reader := mr, mb_outer_size := 0\<rparr>"
        have rec: "metablock_skip_loop fuel env ?it o1 8192 = (rv, off', it')"
          using unf rv2 by simp
        have mr: "map_reader_ok ?co entries src ?bo mr" "mr_address mr = a + (?n + 2)"
          "map_reader_archive src mr = A" "sqsh__map_reader_size mr = 0" "a + (?n + 2) \<le> length A"
          using AD rv2 PR1 i1 by simp_all
        have "metablock_fuel ?it < fuel"
          using fl metablock_fuel_archive [of ?co entries src ?bo it]
            metablock_fuel_archive [of ?co entries src ?bo ?it] mr ok
          by (simp add: a_def [symmetric] A [symmetric])
        define cs2 where "cs2 = metablock_chain ?bo impl A (a + 2 + ?n)"
        have cs2: "cs2 = metablock_chain ?bo impl A (mr_address (mb_reader ?it) + mb_outer_size ?it)"
          using mr(2) by (simp add: cs2_def add.commute add.left_commute)
        have "map_reader_ok ?co entries src ?bo (mb_reader ?it)"
          "sqsh__map_reader_size (mb_reader ?it) \<le> mb_outer_size ?it"
          "A = map_reader_archive src (mb_reader ?it)" using mr by simp_all
        note IH = Suc.IH [OF this(1,2) \<open>metablock_fuel ?it < fuel\<close> this(3) cs2 rec]
        have lv: "map_reader_live ?co src ?bo mr" if "chain_reaches cs (off - cur)" "cur \<le> off"
          "off < 2 ^ 64" "map_reader_live ?co src ?bo (mb_reader it)"
          using far [OF that(1-3)] LV PR1 PR2 that reach [OF that(1)] i1 by auto
        have cm: "mb_manager ?it = mb_manager it" using i1 by simp
        have step: "(\<exists>p. cs = p @ cs' \<and> length (concat p) + off' = off - cur)"
          if "chain_reaches cs (off - cur)" "cur \<le> off" "off < 2 ^ 64"
            "cs2 = q @ cs'"
            "length (concat q) + off' = o1 - 8192" for q cs'
        proof -
          from far [OF that(1-3)] obtain c where
            "cs = c # metablock_chain ?bo impl A (a + 2 + ?n)" "length c = 8192" by auto
          then have "cs = (c # q) @ cs'" "length (concat (c # q)) + off' = off - cur"
            using that False o1 by (simp_all add: cs2_def)
          then show ?thesis by blast
        qed
        have o64: "8192 \<le> o1" "o1 < 2 ^ 64" using False by (auto simp: o1_def wrap_sub_def)
        have r2: "chain_reaches cs2 (o1 - 8192)"
          if "chain_reaches cs (off - cur)" "cur \<le> off" "off < 2 ^ 64"
          using far [OF that] by (auto simp: cs2_def)
        note I1 = IH [THEN conjunct1] and I2 = IH [THEN conjunct2, THEN conjunct1]
          and I3 = IH [THEN conjunct2, THEN conjunct2, rule_format, OF conjI [OF r2 conjI [OF o64]]]
        show ?thesis
        proof (intro conjI impI)
          assume R: "chain_reaches cs (off - cur) \<and> cur \<le> off \<and> off < 2 ^ 64" and "rv = Ok"
          with I3 obtain q where "cs2 = q @ metablock_chain ?bo impl A (mr_address (mb_reader it'))"
            "length (concat q) + off' = o1 - 8192" by blast
          with step R show "\<exists>p. cs = p @ metablock_chain ?bo impl A (mr_address (mb_reader it')) \<and>
            length (concat p) + off' = off - cur" by blast
        qed (use I1 I2 I3 lv cm in auto)
      qed
    qed
  qed
qed


section \<open>The stream of a metablock iterator\<close>

definition metablock_archive ::
  "('u \<Rightarrow> byte list) \<Rightarrow> ('u, 'c, 'b, 'e, 'x) metablock_iterator \<Rightarrow> byte list" where
  "metablock_archive src it = map_reader_archive src (mb_reader it)"

definition metablock_blocks ::
  "('c, 'b, 'e) sqsh_env \<Rightarrow> ('u \<Rightarrow> byte list) \<Rightarrow> ('u, 'c, 'b, 'e, 'x) metablock_iterator \<Rightarrow> nat \<Rightarrow>
   byte list list" where
  "metablock_blocks env src it a =
     metablock_chain (env_buf env) (xm_impl (mb_manager it)) (metablock_archive src it) a"

text \<open>The blocks that are still to come.\<close>

definition metablock_rest ::
  "('c, 'b, 'e) sqsh_env \<Rightarrow> ('u \<Rightarrow> byte list) \<Rightarrow> ('u, 'c, 'b, 'e, 'x) metablock_iterator \<Rightarrow>
   byte list list" where
  "metablock_rest env src it =
     metablock_blocks env src it (mr_address (mb_reader it) + mb_outer_size it)"

definition metablock_stream ::
  "('c, 'b, 'e) sqsh_env \<Rightarrow> ('u \<Rightarrow> byte list) \<Rightarrow> nat \<Rightarrow> ('u, 'c, 'b, 'e, 'x) metablock_iterator \<Rightarrow>
   byte list" where
  "metablock_stream env src base it = concat (metablock_blocks env src it base)"

definition metablock_start ::
  "('c, 'b, 'e) sqsh_env \<Rightarrow> ('u \<Rightarrow> byte list) \<Rightarrow> nat \<Rightarrow> ('u, 'c, 'b, 'e, 'x) metablock_iterator \<Rightarrow>
   nat" where
  "metablock_start env src base it = length (metablock_stream env src base it)
     - length (concat (metablock_rest env src it)) - mb_inner_size it"

definition metablock_skips ::
  "('c, 'b, 'e) sqsh_env \<Rightarrow> ('u \<Rightarrow> byte list) \<Rightarrow> ('u, 'c, 'b, 'e, 'x) metablock_iterator \<Rightarrow> nat \<Rightarrow>
   bool" where
  "metablock_skips env src it off \<longleftrightarrow> off < mb_inner_size it \<or>
     chain_reaches (metablock_rest env src it) (off - mb_inner_size it)"

definition metablock_base_ok ::
  "('c, 'b, 'e) sqsh_env \<Rightarrow> ((nat \<Rightarrow> map_slice \<Rightarrow> bool) \<Rightarrow> 'c \<Rightarrow> bool) \<Rightarrow>
   ((nat \<Rightarrow> 'b \<Rightarrow> bool) \<Rightarrow> 'e \<Rightarrow> bool) \<Rightarrow> ('u \<Rightarrow> byte list) \<Rightarrow>
   ('u, 'c, 'b, 'e, 'x) metablock_iterator \<Rightarrow> bool" where
  "metablock_base_ok env se ee src it \<longleftrightarrow> cx_buffer_ok (env_buf env) \<and>
     map_reader_ok (env_maps env) se src (env_buf env) (mb_reader it) \<and>
     sqsh__map_reader_size (mb_reader it) \<le> mb_outer_size it \<and>
     extract_manager_ok (env_cache env) ee
       (metablock_entry (env_buf env) (xm_impl (mb_manager it)) (metablock_archive src it))
       (mb_manager it) \<and>
     xm_block_size (mb_manager it) = 8192 \<and> length (metablock_archive src it) < 2 ^ 52 \<and>
     mb_inner_size it = length (sqsh__metablock_iterator_data it)"

text \<open>
  The iterator stands in the chain that begins at \<open>base\<close>: before its first block, or on a block
  whose contents it holds.
\<close>

definition metablock_ok ::
  "('c, 'b, 'e) sqsh_env \<Rightarrow> ((nat \<Rightarrow> map_slice \<Rightarrow> bool) \<Rightarrow> 'c \<Rightarrow> bool) \<Rightarrow>
   ((nat \<Rightarrow> 'b \<Rightarrow> bool) \<Rightarrow> 'e \<Rightarrow> bool) \<Rightarrow> ('u \<Rightarrow> byte list) \<Rightarrow> nat \<Rightarrow>
   ('u, 'c, 'b, 'e, 'x) metablock_iterator \<Rightarrow> bool" where
  "metablock_ok env se ee src base it \<longleftrightarrow> metablock_base_ok env se ee src it \<and>
     length (metablock_stream env src base it) < 2 ^ 64 \<and>
     (metablock_blocks env src it base = metablock_rest env src it \<and> mb_inner_size it = 0 \<or>
      (\<exists>p. metablock_blocks env src it base
         = p @ sqsh__metablock_iterator_data it # metablock_rest env src it))"

text \<open>
  Success: memory is available, and the archive does not end in the header of an empty block
  (reading the empty data behind the last byte of the archive is refused by the map reader).
\<close>

definition metablock_live ::
  "('c, 'b, 'e) sqsh_env \<Rightarrow> ('u \<Rightarrow> byte list) \<Rightarrow> ('u, 'c, 'b, 'e, 'x) metablock_iterator \<Rightarrow> bool"
  where
  "metablock_live env src it \<longleftrightarrow> cache_total (env_cache env) \<and>
     map_reader_live (env_maps env) src (env_buf env) (mb_reader it) \<and>
     (\<forall>a. a + 2 = length (metablock_archive src it) \<longrightarrow>
       sqsh__data_metablock_size (window a 2 (metablock_archive src it)) \<noteq> 0)"

lemma metablock_live_cong:
  "metablock_live env src it \<Longrightarrow> metablock_archive src it' = metablock_archive src it \<Longrightarrow>
   map_reader_live (env_maps env) src (env_buf env) (mb_reader it') \<Longrightarrow> metablock_live env src it'"
  by (simp add: metablock_live_def)

text \<open>Arriving at a block by its header, from any state of the iterator before it.\<close>

lemma metablock_arrive:
  assumes b: "cx_buffer_ok (env_buf env)"
    "map_reader_ok (env_maps env) se src (env_buf env) (mb_reader it)"
    "sqsh__map_reader_size (mb_reader it) = 2"
    "extract_manager_ok (env_cache env) ee
       (metablock_entry (env_buf env) (xm_impl (mb_manager it)) (metablock_archive src it))
       (mb_manager it)" "xm_block_size (mb_manager it) = 8192"
    and A: "A = metablock_archive src it" "length A < 2 ^ 52" and a: "a = mr_address (mb_reader it)"
    and hdr: "mb_outer_size it = sqsh__data_metablock_size (window a 2 A)"
      "mb_is_compressed it = sqsh__data_metablock_is_compressed (window a 2 A)"
      "sqsh__data_metablock_size (window a 2 A) \<le> 8192" "a + 2 \<le> length A"
    and eq: "map_data env it = (rv, it')"
  shows "safe_rv rv \<and>
    (rv = Ok \<longrightarrow> metablock_base_ok env se ee src it' \<and>
      (\<forall>x. metablock_blocks env src it' x = metablock_blocks env src it x) \<and>
      metablock_archive src it' = A \<and>
      metablock_blocks env src it a
        = sqsh__metablock_iterator_data it' # metablock_rest env src it' \<and>
      mr_address (mb_reader it') + mb_outer_size it' = a + 2 + mb_outer_size it \<and>
      a + 2 + mb_outer_size it \<le> length A) \<and>
    (metablock_live env src it \<and> metablock_blocks env src it a \<noteq> [] \<longrightarrow>
      rv = Ok \<and> metablock_live env src it')"
proof -
  have sz: "sqsh__map_reader_size (mb_reader it) \<le> 2" using b(3) by simp
  note M = map_data_correct [OF b(1,2) sz _ a hdr _ b(5) eq, folded metablock_archive_def]
  note M = M [OF A(1) b(4) [folded A(1)]]
  let ?impl = "xm_impl (mb_manager it)"
  show ?thesis
  proof (intro conjI impI)
    show "safe_rv rv" using M by blast
  next
    assume "rv = Ok"
    note M1 = M [THEN conjunct2, THEN conjunct1, rule_format, OF this]
    then have i: "xm_impl (mb_manager it') = ?impl" "xm_block_size (mb_manager it') = 8192"
      "metablock_archive src it' = A" using b(5) by (auto simp: metablock_archive_def)
    have p: "metablock_parse (env_buf env) ?impl A a
      = Some (mb_outer_size it, sqsh__metablock_iterator_data it')" using M1 by simp
    have n: "mr_address (mb_reader it') + mb_outer_size it' = a + 2 + mb_outer_size it"
      using M1 by simp
    show "metablock_base_ok env se ee src it'"
      using M1 i b A(2) by (simp add: metablock_base_ok_def)
    show "\<forall>x. metablock_blocks env src it' x = metablock_blocks env src it x"
      using i A by (simp add: metablock_blocks_def)
    show "metablock_archive src it' = A" by (rule i)
    show "metablock_blocks env src it a
        = sqsh__metablock_iterator_data it' # metablock_rest env src it'"
      using metablock_chain_step [OF p] n i A
      by (simp add: metablock_blocks_def metablock_rest_def)
    show "mr_address (mb_reader it') + mb_outer_size it' = a + 2 + mb_outer_size it" by (rule n)
    show "a + 2 + mb_outer_size it \<le> length A" using metablock_parse_bounds [OF p] by simp
  next
    assume L: "metablock_live env src it \<and> metablock_blocks env src it a \<noteq> []"
    have p: "metablock_parse (env_buf env) ?impl A a \<noteq> None"
    proof
      assume "metablock_parse (env_buf env) ?impl A a = None"
      from metablock_chain_stop [OF this] L A show False by (simp add: metablock_blocks_def)
    qed
    then have "a + 2 + mb_outer_size it \<le> length A"
      using metablock_parse_bounds hdr(1) by fastforce
    moreover have "a + 2 \<noteq> length A" if "mb_outer_size it = 0"
      using L hdr(1) A that unfolding metablock_live_def by metis
    ultimately have "a + 2 < length A" by fastforce
    moreover have "map_reader_live (env_maps env) src (env_buf env) (mb_reader it)"
      "cache_total (env_cache env)" using L by (simp_all add: metablock_live_def)
    ultimately have R: "rv = Ok \<and> map_reader_live (env_maps env) src (env_buf env) (mb_reader it')"
      using M p by blast
    then have "metablock_archive src it' = metablock_archive src it"
      using M A by (simp add: metablock_archive_def)
    then show "rv = Ok" and "metablock_live env src it'"
      using R L metablock_live_cong by blast+
  qed
qed

lemma metablock_next_correct:
  assumes ok: "metablock_base_ok env se ee src it"
    and eq: "sqsh__metablock_iterator_next env it = (hn, rv, it')"
  shows "safe_rv rv \<and> (hn \<longleftrightarrow> rv = Ok) \<and>
    (hn \<longrightarrow> metablock_base_ok env se ee src it' \<and>
      (\<forall>x. metablock_blocks env src it' x = metablock_blocks env src it x) \<and>
      metablock_rest env src it = sqsh__metablock_iterator_data it' # metablock_rest env src it' \<and>
      metablock_fuel it' < metablock_fuel it) \<and>
    (metablock_live env src it \<and> metablock_rest env src it \<noteq> [] \<longrightarrow>
      hn \<and> metablock_live env src it')"
proof -
  have bo: "cx_buffer_ok (env_buf env)"
    and mr: "map_reader_ok (env_maps env) se src (env_buf env) (mb_reader it)"
    and sz: "sqsh__map_reader_size (mb_reader it) \<le> mb_outer_size it"
    and xm: "extract_manager_ok (env_cache env) ee
       (metablock_entry (env_buf env) (xm_impl (mb_manager it)) (metablock_archive src it))
       (mb_manager it)" "xm_block_size (mb_manager it) = 8192"
    using ok by (simp_all add: metablock_base_ok_def)
  define a where "a = mr_address (mb_reader it) + mb_outer_size it"
  define A where "A = metablock_archive src it"
  let ?n = "sqsh__data_metablock_size (window a 2 A)" and ?impl = "xm_impl (mb_manager it)"
  obtain rv1 it1 where pr: "process_next_header env it = (rv1, it1)" by fastforce
  note PR = process_next_header_correct [OF bo mr sz pr A_def [unfolded metablock_archive_def] a_def]
  have rest: "metablock_rest env src it = metablock_chain (env_buf env) ?impl A a"
    by (simp add: metablock_rest_def metablock_blocks_def a_def A_def)
  have lv1: "rv1 = Ok \<and> metablock_live env src it1"
    if L: "metablock_live env src it" "metablock_rest env src it \<noteq> []"
  proof -
    obtain n c where p: "metablock_parse (env_buf env) ?impl A a = Some (n, c)"
      using L(2) rest metablock_chain_stop [of "env_buf env" ?impl A a] by fastforce
    from metablock_parse_bounds [OF p] PR L(1) have
      "rv1 = Ok \<and> map_reader_live (env_maps env) src (env_buf env) (mb_reader it1)"
      by (auto simp: metablock_live_def)
    then show ?thesis using PR metablock_live_cong [OF L(1)]
      by (auto simp: metablock_archive_def A_def)
  qed
  show ?thesis
  proof (cases "rv1 = Ok")
    case False
    then have "rv = rv1" "\<not> hn" using eq pr by (auto simp: sqsh__metablock_iterator_next_def)
    then show ?thesis using PR False lv1 by auto
  next
    case True
    note PR1 = PR [THEN conjunct2, THEN conjunct1, rule_format, OF True]
    have i1: "mb_outer_size it1 = ?n" "mb_manager it1 = mb_manager it"
      "mb_is_compressed it1 = sqsh__data_metablock_is_compressed (window a 2 A)"
      "mr_address (mb_reader it1) = a"
      using PR1 by blast+
    have A1: "A = metablock_archive src it1" using PR1 by (simp add: metablock_archive_def)
    obtain rv2 it2 where md: "map_data env it1 = (rv2, it2)" by fastforce
    have A52: "length A < 2 ^ 52" using ok by (simp add: A_def metablock_base_ok_def)
    have e: "rv = rv2" "hn \<longleftrightarrow> rv2 = Ok" "it' = it2"
      using eq pr md True by (auto simp: sqsh__metablock_iterator_next_def)
    have xm1: "extract_manager_ok (env_cache env) ee
       (metablock_entry (env_buf env) (xm_impl (mb_manager it1)) (metablock_archive src it1))
       (mb_manager it1)" "xm_block_size (mb_manager it1) = 8192"
      using xm i1(2) A1 by (simp_all add: A_def)
    note M = metablock_arrive [OF bo _ _ xm1 A1 A52 i1(4) [symmetric] i1(1,3) _ _ md]
    have mr1: "map_reader_ok (env_maps env) se src (env_buf env) (mb_reader it1)"
      "sqsh__map_reader_size (mb_reader it1) = 2" "?n \<le> 8192" "a + 2 \<le> length A"
      using PR1 by simp_all
    note M = M [OF mr1]
    have blk: "metablock_blocks env src it1 x = metablock_blocks env src it x" for x
      using A1 i1(2) by (simp add: metablock_blocks_def A_def)
    have fuel: "metablock_fuel it2 < metablock_fuel it" if "rv2 = Ok"
    proof -
      note M2 = M [THEN conjunct2, THEN conjunct1, rule_format, OF that]
      have mr2: "map_reader_ok (env_maps env) se src (env_buf env) (mb_reader it2)"
        using M2 by (simp add: metablock_base_ok_def)
      have "map_reader_archive src (mb_reader it2) = A"
        "mr_address (mb_reader it2) + mb_outer_size it2 = a + 2 + ?n" "a + 2 + ?n \<le> length A"
        using M2 i1 by (simp_all add: metablock_archive_def)
      then have "metablock_fuel it2 = length A - (a + 2 + ?n)" "a + 2 + ?n \<le> length A"
        using metablock_fuel_archive [OF mr2] by simp_all
      moreover have "metablock_fuel it = length A - a"
        using metablock_fuel_archive [OF mr] by (simp add: a_def A_def metablock_archive_def)
      ultimately show ?thesis by linarith
    qed
    have ra: "metablock_rest env src it = metablock_blocks env src it a"
      by (simp add: metablock_rest_def a_def)
    have ne: "metablock_blocks env src it1 a \<noteq> []" if "metablock_rest env src it \<noteq> []"
      using that ra blk by simp
    show ?thesis
    proof (intro conjI impI)
      assume "hn"
      then have ok2: "rv2 = Ok" using e by simp
      note M2 = M [THEN conjunct2, THEN conjunct1, rule_format, OF ok2]
      show "metablock_base_ok env se ee src it'" using M2 e(3) by blast
      show "\<forall>x. metablock_blocks env src it' x = metablock_blocks env src it x"
        using M2 e(3) blk by simp
      show "metablock_rest env src it = sqsh__metablock_iterator_data it' # metablock_rest env src it'"
        using M2 e(3) blk [of a] ra i1(4) by metis
      show "metablock_fuel it' < metablock_fuel it" using fuel [OF ok2] e(3) by simp
    next
      assume "metablock_live env src it \<and> metablock_rest env src it \<noteq> []"
      then show "hn" "metablock_live env src it'" using M lv1 ne e i1(4) by blast+
    next
      show "safe_rv rv" using M e(1) by blast
    qed (use e in blast)+
  qed
qed


lemma metablock_skip_correct:
  assumes ok: "metablock_base_ok env se ee src it"
    and eq: "sqsh__metablock_iterator_skip env it off = (rv, off', it')"
  shows "safe_rv rv \<and> (rv = Ok \<longrightarrow> metablock_base_ok env se ee src it' \<and> off' < mb_inner_size it' \<and>
      (off < mb_inner_size it \<longrightarrow> it' = it) \<and>
      (mb_inner_size it \<le> off \<longrightarrow> (\<exists>a. metablock_blocks env src it' a
        = sqsh__metablock_iterator_data it' # metablock_rest env src it')) \<and>
      (\<forall>x. metablock_blocks env src it' x = metablock_blocks env src it x) \<and>
      (metablock_skips env src it off \<and> mb_inner_size it \<le> off \<and> off < 2 ^ 64 \<longrightarrow>
        (\<exists>p. metablock_rest env src it
            = p @ sqsh__metablock_iterator_data it' # metablock_rest env src it' \<and>
          length (concat p) + off' = off - mb_inner_size it))) \<and>
    (metablock_live env src it \<and> metablock_skips env src it off \<and> off < 2 ^ 64 \<longrightarrow>
      rv = Ok \<and> metablock_live env src it')"
proof (cases "off < mb_inner_size it")
  case True
  with eq have "rv = Ok" "off' = off" "it' = it"
    by (simp_all add: sqsh__metablock_iterator_skip_def sqsh__metablock_iterator_size_def)
  then show ?thesis using ok True by simp
next
  case False
  let ?cur = "mb_inner_size it"
  have bo: "cx_buffer_ok (env_buf env)"
    and mr: "map_reader_ok (env_maps env) se src (env_buf env) (mb_reader it)"
    and sz: "sqsh__map_reader_size (mb_reader it) \<le> mb_outer_size it"
    and xm: "extract_manager_ok (env_cache env) ee
       (metablock_entry (env_buf env) (xm_impl (mb_manager it)) (metablock_archive src it))
       (mb_manager it)" "xm_block_size (mb_manager it) = 8192"
    using ok by (simp_all add: metablock_base_ok_def)
  let ?impl = "xm_impl (mb_manager it)"
  define A where "A = metablock_archive src it"
  obtain rv1 o1 it1 where lp: "metablock_skip_loop (Suc (metablock_fuel it)) env it off ?cur
    = (rv1, o1, it1)" by (rule prod_cases3)
  have rest: "metablock_rest env src it = metablock_chain (env_buf env) ?impl A
      (mr_address (mb_reader it) + mb_outer_size it)"
    by (simp add: metablock_rest_def metablock_blocks_def A_def)
  note L = metablock_skip_loop_correct [OF bo mr sz _ A_def [unfolded metablock_archive_def] rest lp,
      simplified]
  have sk: "chain_reaches (metablock_rest env src it) (off - ?cur)"
    if "metablock_skips env src it off"
    using that False by (simp add: metablock_skips_def)
  note unf = eq [unfolded sqsh__metablock_iterator_skip_def sqsh__metablock_iterator_size_def Let_def
      lp prod.case]
  show ?thesis
  proof (cases "rv1 = Ok")
    case f: False
    then have "rv = rv1" using unf False by (simp split: if_splits)
    then show ?thesis using L sk f False by (auto simp: metablock_live_def)
  next
    case True
    note L1 = L [THEN conjunct2, THEN conjunct1, rule_format, OF True]
      and L2 = L [THEN conjunct2, THEN conjunct2]
    let ?a = "mr_address (mb_reader it1)"
    obtain rv2 it2 where md: "map_data env it1 = (rv2, it2)" by fastforce
    have A52: "length A < 2 ^ 52" using ok by (simp add: A_def metablock_base_ok_def)
    have A1: "A = metablock_archive src it1" using L1 by (simp add: metablock_archive_def)
    have h: "map_reader_ok (env_maps env) se src (env_buf env) (mb_reader it1)"
      "sqsh__map_reader_size (mb_reader it1) = 2"
      "mb_outer_size it1 = sqsh__data_metablock_size (window ?a 2 A)"
      "mb_is_compressed it1 = sqsh__data_metablock_is_compressed (window ?a 2 A)"
      "sqsh__data_metablock_size (window ?a 2 A) \<le> 8192" "?a + 2 \<le> length A"
      "mb_manager it1 = mb_manager it"
      using L1 by auto
    have xm1: "extract_manager_ok (env_cache env) ee
       (metablock_entry (env_buf env) (xm_impl (mb_manager it1)) (metablock_archive src it1))
       (mb_manager it1)" "xm_block_size (mb_manager it1) = 8192"
      using xm h(7) A1 by (simp_all add: A_def)
    note M = metablock_arrive [OF bo h(1,2) xm1 A1 A52 refl h(3-6) md]
    have blk: "metablock_blocks env src it1 x = metablock_blocks env src it x" for x
      using A1 h(7) by (simp add: metablock_blocks_def A_def)
    have chain1: "metablock_chain (env_buf env) ?impl A ?a = metablock_blocks env src it1 ?a"
      using A1 h(7) by (simp add: metablock_blocks_def)
    have main: "(rv, off', it') = (if rv2 \<noteq> Ok then (rv2, o1, it2)
        else if mb_inner_size it2 \<le> o1 then (Err SQSH_ERROR_OUT_OF_BOUNDS, o1, it2)
        else (Ok, o1, it2))"
      using unf False True md by simp
    have R: "(\<exists>p. metablock_rest env src it = p @ metablock_blocks env src it1 ?a \<and>
          length (concat p) + o1 = off - ?cur) \<and>
        chain_reaches (metablock_blocks env src it1 ?a) o1"
      if "metablock_skips env src it off" "off < 2 ^ 64"
      using L2 sk [OF that(1)] that False True by (simp add: chain1)
    have lv1: "metablock_live env src it1" if "metablock_live env src it"
      "metablock_skips env src it off" "off < 2 ^ 64"
      using L2 sk [OF that(2)] that False metablock_live_cong [OF that(1), of it1] A1
      by (auto simp: metablock_live_def A_def)
    show ?thesis
    proof (cases "rv2 = Ok")
      case f: False
      have "\<not> (metablock_live env src it \<and> metablock_skips env src it off \<and> off < 2 ^ 64)"
        using M R lv1 f by fastforce
      then show ?thesis using main M f by auto
    next
      case rv2: True
      note M1 = M [THEN conjunct2, THEN conjunct1, rule_format, OF rv2]
      have inner: "o1 < mb_inner_size it2" if "metablock_skips env src it off" "off < 2 ^ 64"
        using R [OF that] M1 L1 by (auto simp: metablock_base_ok_def)
      have "\<exists>p. metablock_rest env src it
            = p @ sqsh__metablock_iterator_data it2 # metablock_rest env src it2 \<and>
          length (concat p) + o1 = off - ?cur"
        if "metablock_skips env src it off" "off < 2 ^ 64"
        using R [OF that] M1 by auto
      moreover have "metablock_live env src it2" if "metablock_live env src it"
        "metablock_skips env src it off" "off < 2 ^ 64"
        using M lv1 [OF that] R [OF that(2,3)] by fastforce
      moreover have "\<exists>a. metablock_blocks env src it2 a
        = sqsh__metablock_iterator_data it2 # metablock_rest env src it2"
        using M1 by metis
      ultimately show ?thesis using main M1 rv2 inner blk False
        by (cases "mb_inner_size it2 \<le> o1") auto
    qed
  qed
qed

lemma metablock_chunk:
  assumes ok: "metablock_ok env se ee src base it"
  shows "sqsh__metablock_iterator_data it = window (metablock_start env src base it)
      (mb_inner_size it) (metablock_stream env src base it)"
    "metablock_start env src base it + mb_inner_size it
      + length (concat (metablock_rest env src it)) = length (metablock_stream env src base it)"
proof -
  have n: "mb_inner_size it = length (sqsh__metablock_iterator_data it)"
    using ok by (simp add: metablock_ok_def metablock_base_ok_def)
  from ok consider "metablock_blocks env src it base = metablock_rest env src it" "mb_inner_size it = 0"
    | p where "metablock_blocks env src it base
        = p @ sqsh__metablock_iterator_data it # metablock_rest env src it"
    unfolding metablock_ok_def by auto
  then have "sqsh__metablock_iterator_data it = window (metablock_start env src base it)
      (mb_inner_size it) (metablock_stream env src base it) \<and>
    metablock_start env src base it + mb_inner_size it
      + length (concat (metablock_rest env src it)) = length (metablock_stream env src base it)"
  proof cases
    case 1
    then show ?thesis using n by (simp add: metablock_start_def metablock_stream_def)
  next
    case 2
    then show ?thesis using n
      by (simp add: metablock_start_def metablock_stream_def window_def)
  qed
  then show "sqsh__metablock_iterator_data it = window (metablock_start env src base it)
      (mb_inner_size it) (metablock_stream env src base it)"
    "metablock_start env src base it + mb_inner_size it
      + length (concat (metablock_rest env src it)) = length (metablock_stream env src base it)"
    by blast+
qed


lemma metablock_skips_bound:
  assumes ok: "metablock_ok env se ee src base it" and "metablock_skips env src it off"
  shows "metablock_start env src base it + off < length (metablock_stream env src base it) \<and>
    off < 2 ^ 64"
proof -
  have "length (metablock_stream env src base it) < 2 ^ 64" using ok by (simp add: metablock_ok_def)
  moreover have "metablock_start env src base it + off < length (metablock_stream env src base it)"
  proof (cases "off < mb_inner_size it")
    case True
    then show ?thesis using metablock_chunk(2) [OF ok] by linarith
  next
    case False
    then have "off - mb_inner_size it < length (concat (metablock_rest env src it))"
      using assms(2) chain_reaches_bound unfolding metablock_skips_def by blast
    then show ?thesis using metablock_chunk(2) [OF ok] False by linarith
  qed
  ultimately show ?thesis by linarith
qed

text \<open>The state after a step or skip to a block of the rest of the chain.\<close>

lemma metablock_move:
  assumes ok: "metablock_ok env se ee src base it" and b: "metablock_base_ok env se ee src it'"
    and eq: "\<forall>x. metablock_blocks env src it' x = metablock_blocks env src it x"
    and r: "metablock_rest env src it
      = p @ sqsh__metablock_iterator_data it' # metablock_rest env src it'"
  shows "metablock_ok env se ee src base it' \<and>
    metablock_stream env src base it' = metablock_stream env src base it \<and>
    metablock_start env src base it'
      = metablock_start env src base it + mb_inner_size it + length (concat p)"
proof -
  have n: "mb_inner_size it' = length (sqsh__metablock_iterator_data it')"
    using b by (simp add: metablock_base_ok_def)
  have st: "metablock_stream env src base it' = metablock_stream env src base it"
    using eq by (simp add: metablock_stream_def)
  have "\<exists>q. metablock_blocks env src it base = q @ metablock_rest env src it"
    using ok unfolding metablock_ok_def by (metis append.left_neutral append_Cons append_assoc)
  then obtain q where "metablock_blocks env src it' base
      = (q @ p) @ sqsh__metablock_iterator_data it' # metablock_rest env src it'"
    using eq r by auto
  then have ok': "metablock_ok env se ee src base it'"
    using b st ok unfolding metablock_ok_def by auto
  from metablock_chunk(2) [OF this] metablock_chunk(2) [OF ok] st r n
  have "metablock_start env src base it'
      = metablock_start env src base it + mb_inner_size it + length (concat p)" by simp
  with ok' st show ?thesis by blast
qed

text \<open>\<open>B\<close> is the chain of blocks behind each address, which no operation changes.\<close>

definition metablock_in ::
  "('c, 'b, 'e) sqsh_env \<Rightarrow> ((nat \<Rightarrow> map_slice \<Rightarrow> bool) \<Rightarrow> 'c \<Rightarrow> bool) \<Rightarrow>
   ((nat \<Rightarrow> 'b \<Rightarrow> bool) \<Rightarrow> 'e \<Rightarrow> bool) \<Rightarrow> ('u \<Rightarrow> byte list) \<Rightarrow> (nat \<Rightarrow> byte list list) \<Rightarrow> nat \<Rightarrow>
   ('u, 'c, 'b, 'e, 'x) metablock_iterator \<Rightarrow> bool" where
  "metablock_in env se ee src B base it \<longleftrightarrow>
     metablock_ok env se ee src base it \<and> metablock_blocks env src it = B"

lemma metablock_in_ok:
  "metablock_in env se ee src B base it \<Longrightarrow> metablock_ok env se ee src base it"
  "metablock_in env se ee src B base it \<Longrightarrow> metablock_base_ok env se ee src it"
  "metablock_in env se ee src B base it \<Longrightarrow> metablock_blocks env src it = B"
  unfolding metablock_in_def metablock_ok_def by blast+

interpretation metablock_source: live_chunk_iterator "metablock_reader_impl env"
  "metablock_in env se ee src B base" "metablock_stream env src base" "metablock_start env src base"
  "metablock_skips env src" "metablock_live env src"
proof (unfold_locales, goal_cases)
  case (1 it)
  then show ?case by (simp add: metablock_reader_impl_def sqsh__metablock_iterator_size_def
        metablock_in_def metablock_ok_def metablock_base_ok_def)
next
  case (2 it)
  show ?case using metablock_chunk(1) [OF metablock_in_ok(1) [OF 2]]
    by (simp add: metablock_reader_impl_def sqsh__metablock_iterator_size_def)
next
  case (3 it)
  show ?case using metablock_chunk(2) [OF metablock_in_ok(1) [OF 3]]
    by (simp add: metablock_reader_impl_def sqsh__metablock_iterator_size_def)
next
  case (4 it)
  then show ?case by (simp add: metablock_in_def metablock_ok_def)
next
  case (5 it d rv it')
  then have nx: "sqsh__metablock_iterator_next env it = (True, rv, it')"
    by (simp add: metablock_reader_impl_def)
  note b = metablock_in_ok(2) [OF 5(1)]
  note N = metablock_next_correct [OF b nx]
  from metablock_move [OF metablock_in_ok(1) [OF 5(1)], of it' "[]"] N metablock_in_ok(3) [OF 5(1)]
  show ?case by (auto simp: metablock_in_def fun_eq_iff metablock_reader_impl_def sqsh__metablock_iterator_size_def)
next
  case (6 it d rv it')
  then have nx: "sqsh__metablock_iterator_next env it = (False, rv, it')"
    by (simp add: metablock_reader_impl_def)
  note b = metablock_in_ok(2) [OF 6(1)]
  from metablock_next_correct [OF b nx] show ?case by blast
next
  case (7 it off d rv off' it')
  then have sk: "sqsh__metablock_iterator_skip env it off = (rv, off', it')"
    by (simp add: metablock_reader_impl_def)
  note b = metablock_in_ok(2) [OF 7(1)]
  from metablock_skip_correct [OF b sk] show ?case by blast
next
  case (8 it off d off' it')
  then have sk: "sqsh__metablock_iterator_skip env it off = (Ok, off', it')"
    by (simp add: metablock_reader_impl_def)
  note b = metablock_in_ok(2) [OF 8(1)]
  note S = metablock_skip_correct [OF b sk] and bd = metablock_skips_bound [OF metablock_in_ok(1) [OF 8(1)] 8(2)]
  show ?case
  proof (cases "off < mb_inner_size it")
    case True
    with sk have "off' = off" "it' = it"
      by (simp_all add: sqsh__metablock_iterator_skip_def sqsh__metablock_iterator_size_def)
    then show ?thesis using 8(1) True
      by (simp add: metablock_reader_impl_def sqsh__metablock_iterator_size_def)
  next
    case False
    then obtain p where p: "metablock_rest env src it
        = p @ sqsh__metablock_iterator_data it' # metablock_rest env src it'"
      "length (concat p) + off' = off - mb_inner_size it"
      using S 8(2) bd by auto
    from metablock_move [OF metablock_in_ok(1) [OF 8(1)] _ _ p(1)] S p(2) False
      metablock_in_ok(3) [OF 8(1)]
    show ?thesis by (auto simp: metablock_in_def fun_eq_iff metablock_reader_impl_def sqsh__metablock_iterator_size_def)
  qed
next
  case (9 it d)
  note b = metablock_in_ok(2) [OF 9(1)]
  obtain hn rv it' where nx: "sqsh__metablock_iterator_next env it = (hn, rv, it')"
    by (rule prod_cases3)
  have "metablock_rest env src it \<noteq> []"
    using 9(3) metablock_chunk(2) [OF metablock_in_ok(1) [OF 9(1)]]
    by (auto simp: metablock_reader_impl_def sqsh__metablock_iterator_size_def)
  with metablock_next_correct [OF b nx] 9(2) nx show ?case
    by (auto simp: metablock_reader_impl_def)
next
  case (10 it off d)
  note b = metablock_in_ok(2) [OF 10(1)]
  obtain rv off' it' where sk: "sqsh__metablock_iterator_skip env it off = (rv, off', it')"
    by (rule prod_cases3)
  from metablock_skip_correct [OF b sk] 10(2,3) metablock_skips_bound [OF metablock_in_ok(1) [OF 10(1)] 10(3)] sk show ?case
    by (auto simp: metablock_reader_impl_def)
qed


section \<open>The metablock reader\<close>

lemma decode_length:
  assumes bo: "cx_buffer_ok bo" and im: "\<And>i. impl = Some i \<Longrightarrow> extractor_impl_ok i"
    and d: "decode bo impl n xs = Some c"
  shows "length c \<le> n"
proof -
  obtain rv b where ex: "extract_block bo impl n xs = (rv, b)" by fastforce
  from extract_correct [OF bo im ex] d ex show ?thesis
    by (auto simp: decode_def split: rv.splits option.splits)
qed

lemma metablock_chain_length:
  assumes bo: "cx_buffer_ok bo" and im: "\<And>i. impl = Some i \<Longrightarrow> extractor_impl_ok i"
  shows "length (concat (metablock_chain bo impl A a)) \<le> 4096 * (length A - a)"
proof (induction "length A - a" arbitrary: a rule: less_induct)
  case less
  show ?case
  proof (cases "metablock_parse bo impl A a")
    case None
    then show ?thesis by (simp add: metablock_chain_stop)
  next
    case (Some nc)
    then obtain n c where p: "metablock_parse bo impl A a = Some (n, c)" by (cases nc) auto
    note b = metablock_parse_bounds [OF p]
    have "length c \<le> 8192"
      using p b decode_length [OF bo im, of _ 8192]
      by (auto simp: metablock_parse_def Let_def split: if_splits)
    moreover have "length (concat (metablock_chain bo impl A (a + 2 + n))) \<le> 4096 * (length A - (a + 2 + n))"
      by (rule less) (use b in linarith)
    moreover have "length A - a = (length A - (a + 2 + n)) + 2 + n" using b by linarith
    moreover have "length (concat (metablock_chain bo impl A a))
        = length c + length (concat (metablock_chain bo impl A (a + 2 + n)))"
      by (simp add: metablock_chain_step [OF p])
    ultimately show ?thesis by linarith
  qed
qed

lemma chain_reaches_suffix:
  "chain_reaches (p @ cs) (length (concat p) + off) \<Longrightarrow> chain_reaches cs off"
  by (induction p arbitrary: off) (auto simp: add.assoc)

lemma metablock_base_stream:
  "metablock_base_ok env se ee src it \<Longrightarrow> length (metablock_stream env src base it) < 2 ^ 64"
proof -
  assume b: "metablock_base_ok env se ee src it"
  then have "length (metablock_stream env src base it) \<le> 4096 * (length (metablock_archive src it) - base)"
    unfolding metablock_stream_def metablock_blocks_def
    by (intro metablock_chain_length) (auto simp: metablock_base_ok_def extract_manager_ok_def)
  moreover have "length (metablock_archive src it) < 2 ^ 52"
    using b by (simp add: metablock_base_ok_def)
  ultimately show ?thesis by simp
qed

text \<open>A position of the chain that skipping reaches from its beginning is reached from every block before it.\<close>

lemma metablock_skips_reaches:
  assumes ok: "metablock_ok env se ee src base it"
    and r: "chain_reaches (metablock_blocks env src it base) (metablock_start env src base it + off)"
  shows "metablock_skips env src it off"
proof (cases "off < mb_inner_size it")
  case False
  from ok consider "metablock_blocks env src it base = metablock_rest env src it" "mb_inner_size it = 0"
    | p where "metablock_blocks env src it base
        = p @ sqsh__metablock_iterator_data it # metablock_rest env src it"
    unfolding metablock_ok_def by auto
  then show ?thesis
  proof cases
    case 1
    then show ?thesis using r metablock_chunk(2) [OF ok]
      by (simp add: metablock_skips_def metablock_stream_def)
  next
    case 2
    have n: "mb_inner_size it = length (sqsh__metablock_iterator_data it)"
      using ok by (simp add: metablock_ok_def metablock_base_ok_def)
    have "metablock_start env src base it = length (concat p)"
      using metablock_chunk(2) [OF ok] 2 n by (simp add: metablock_stream_def)
    then have "chain_reaches ((p @ [sqsh__metablock_iterator_data it]) @ metablock_rest env src it)
      (length (concat (p @ [sqsh__metablock_iterator_data it])) + (off - mb_inner_size it))"
      using r 2 n False by (simp add: add.assoc)
    from chain_reaches_suffix [OF this] show ?thesis by (simp add: metablock_skips_def)
  qed
qed (simp add: metablock_skips_def)

definition metablock_reader_at ::
  "('c, 'b, 'e) sqsh_env \<Rightarrow> ((nat \<Rightarrow> map_slice \<Rightarrow> bool) \<Rightarrow> 'c \<Rightarrow> bool) \<Rightarrow>
   ((nat \<Rightarrow> 'b \<Rightarrow> bool) \<Rightarrow> 'e \<Rightarrow> bool) \<Rightarrow> ('u \<Rightarrow> byte list) \<Rightarrow> (nat \<Rightarrow> byte list list) \<Rightarrow> nat \<Rightarrow>
   ('u, 'c, 'b, 'e, 'x) metablock_reader \<Rightarrow> nat \<Rightarrow> bool" where
  "metablock_reader_at env se ee src B base r pos \<longleftrightarrow>
     reader_at (metablock_reader_impl env) (env_buf env) (metablock_in env se ee src B base)
       (metablock_stream env src base) (metablock_start env src base) r pos"

lemma metablock_reader_at_in:
  assumes "metablock_reader_at env se ee src B base r pos"
  shows "metablock_in env se ee src B base (rd_iterator r)"
    "metablock_stream env src base (rd_iterator r) = concat (B base)"
    "cx_buffer_ok (env_buf env)"
  using assms metablock_in_ok [of env se ee src B base "rd_iterator r"]
  by (auto simp: metablock_reader_at_def reader_at_def metablock_stream_def metablock_base_ok_def)

text \<open>
  A successful advance to a position inside the window, or to one that skipping reaches, presents
  the window of the blocks.
\<close>

lemma metablock_reader_advance_general:
  assumes at: "metablock_reader_at env se ee src B base r pos"
    and sup: "advance_supported r offset sz" and sz: "sz < 2 ^ 64"
    and rc: "rd_iterator_offset r \<le> offset \<Longrightarrow>
      offset < sqsh__metablock_reader_size r \<or> chain_reaches (B base) (pos + offset)"
    and eq: "sqsh__metablock_reader_advance env r offset sz = (rv, r')"
  shows "safe_rv rv \<and>
    (rv = Ok \<longrightarrow> metablock_reader_at env se ee src B base r' (pos + offset) \<and>
      sqsh__metablock_reader_size r' = sz \<and>
      sqsh__metablock_reader_data env r' = window (pos + offset) sz (concat (B base)) \<and>
      pos + offset + sz \<le> length (concat (B base))) \<and>
    (cx_buffer_total (env_buf env) \<and> metablock_live env src (rd_iterator r) \<and>
      pos + offset < length (concat (B base)) \<and>
      pos + offset + sz \<le> length (concat (B base)) \<longrightarrow>
      rv = Ok \<and> metablock_live env src (rd_iterator r'))"
proof -
  note I = metablock_reader_at_in [OF at]
  have ra: "reader_at (metablock_reader_impl env) (env_buf env) (metablock_in env se ee src B base)
       (metablock_stream env src base) (metablock_start env src base) r pos"
    using at by (simp add: metablock_reader_at_def)
  have ad: "sqsh__reader_advance (metablock_reader_impl env) (env_buf env) r offset sz = (rv, r')"
    using eq by (simp add: sqsh__metablock_reader_advance_def)
  have skp: "metablock_skips env src (rd_iterator r) (offset - rd_iterator_offset r + rd_offset r)"
    if le: "rd_iterator_offset r \<le> offset"
  proof (cases "offset < sqsh__metablock_reader_size r")
    case True
    then have "offset - rd_iterator_offset r + rd_offset r < mb_inner_size (rd_iterator r)"
      using ra le by (auto simp: reader_at_def reader_mapped_def reader_buffered_def
          sqsh__metablock_reader_size_def sqsh__reader_size_def metablock_reader_impl_def
          sqsh__metablock_iterator_size_def)
    then show ?thesis by (simp add: metablock_skips_def)
  next
    case False
    show ?thesis
    proof (rule metablock_skips_reaches [OF metablock_in_ok(1) [OF I(1)]])
      have "metablock_start env src base (rd_iterator r)
          + (offset - rd_iterator_offset r + rd_offset r) = pos + offset"
        using ra le by (auto simp: reader_at_def reader_mapped_def reader_buffered_def)
      then show "chain_reaches (metablock_blocks env src (rd_iterator r) base)
          (metablock_start env src base (rd_iterator r)
            + (offset - rd_iterator_offset r + rd_offset r))"
        using rc [OF le] False metablock_in_ok(3) [OF I(1)] by simp
    qed
  qed
  note A = metablock_source.advance_correct [OF I(3) ra sup sz skp ad]
    and L = metablock_source.advance_live [OF I(3) _ ra _ sup skp _ _ ad]
  show ?thesis using A L I(2)
    by (simp add: metablock_reader_at_def sqsh__metablock_reader_data_def
        sqsh__metablock_reader_size_def sqsh__reader_size_def)
qed

lemma metablock_reader_advance_correct:
  assumes at: "metablock_reader_at env se ee src B base r pos"
    and sup: "advance_supported r offset sz" and sz: "sz < 2 ^ 64"
    and rc: "rd_iterator_offset r \<le> offset \<Longrightarrow> chain_reaches (B base) (pos + offset)"
    and eq: "sqsh__metablock_reader_advance env r offset sz = (rv, r')"
  shows "safe_rv rv \<and>
    (rv = Ok \<longrightarrow> metablock_reader_at env se ee src B base r' (pos + offset) \<and>
      sqsh__metablock_reader_size r' = sz \<and>
      sqsh__metablock_reader_data env r' = window (pos + offset) sz (concat (B base)) \<and>
      pos + offset + sz \<le> length (concat (B base))) \<and>
    (cx_buffer_total (env_buf env) \<and> metablock_live env src (rd_iterator r) \<and>
      pos + offset < length (concat (B base)) \<and>
      pos + offset + sz \<le> length (concat (B base)) \<longrightarrow>
      rv = Ok \<and> metablock_live env src (rd_iterator r'))"
  using metablock_reader_advance_general [OF at sup sz disjI2 eq] rc by blast

text \<open>A longer window at the same position; on any chain, if there was a window already.\<close>

lemma metablock_reader_extend:
  assumes at: "metablock_reader_at env se ee src B base r pos"
    and n: "0 < sqsh__metablock_reader_size r" "sqsh__metablock_reader_size r \<le> sz" "sz < 2 ^ 64"
    and eq: "sqsh__metablock_reader_advance env r 0 sz = (rv, r')"
  shows "safe_rv rv \<and>
    (rv = Ok \<longrightarrow> metablock_reader_at env se ee src B base r' pos \<and>
      sqsh__metablock_reader_size r' = sz \<and>
      sqsh__metablock_reader_data env r' = window pos sz (concat (B base)) \<and>
      pos + sz \<le> length (concat (B base))) \<and>
    (cx_buffer_total (env_buf env) \<and> metablock_live env src (rd_iterator r) \<and>
      pos + sz \<le> length (concat (B base)) \<longrightarrow> rv = Ok \<and> metablock_live env src (rd_iterator r'))"
proof -
  have "advance_supported r 0 sz"
    using n(2) by (simp add: advance_supported_def sqsh__metablock_reader_size_def
        sqsh__reader_size_def)
  then show ?thesis
    using metablock_reader_advance_general [OF at _ n(3) _ eq] n by simp
qed

lemma metablock_reader_init_correct:
  assumes bo: "cx_buffer_ok (env_buf env)" and m: "manager_ok (env_maps env) se src m"
    and xm: "extract_manager_ok (env_cache env) ee
        (metablock_entry (env_buf env) (xm_impl xm) (archive_bytes src m)) xm"
      "xm_block_size xm = 8192" and sz: "length (archive_bytes src m) < 2 ^ 52" and st: "start < 2 ^ 64"
    and eq: "sqsh__metablock_reader_init env m xm start upper r = (rv, r')"
  shows "safe_rv rv \<and>
    (rv = Ok \<longrightarrow> metablock_reader_at env se ee src
        (metablock_chain (env_buf env) (xm_impl xm) (archive_bytes src m)) start r' 0 \<and>
      sqsh__metablock_reader_size r' = 0 \<and> rd_iterator_offset r' = 0) \<and>
    (cache_total (env_maps env) \<and> live_memory_mapper (mp_impl (mm_mapper m)) src \<and>
      cx_buffer_total (env_buf env) \<and> cache_total (env_cache env) \<and>
      start < length (archive_bytes src m) \<and>
      (\<forall>a. a + 2 = length (archive_bytes src m) \<longrightarrow>
        sqsh__data_metablock_size (window a 2 (archive_bytes src m)) \<noteq> 0) \<longrightarrow>
      rv = Ok \<and> metablock_live env src (rd_iterator r'))"
proof -
  let ?A = "archive_bytes src m"
  let ?B = "metablock_chain (env_buf env) (xm_impl xm) ?A"
  obtain rv1 mr where i: "sqsh__map_reader_init (env_maps env) (env_buf env) m start upper
    (mb_reader (rd_iterator r)) = (rv1, mr)" by fastforce
  note I = map_reader_init_correct [OF bo m st i]
  let ?it = "(rd_iterator r)\<lparr>mb_outer_size := 0, mb_inner_size := 0, mb_manager := xm,
      mb_view := zero_extract_view, mb_reader := mr\<rparr>"
  have ii: "sqsh__metablock_iterator_init env m xm start upper (rd_iterator r) = (rv1, ?it)"
    by (simp add: sqsh__metablock_iterator_init_def i)
  show ?thesis
  proof (cases "rv1 = Ok")
    case False
    then have "rv = rv1" using eq ii by (simp add: sqsh__metablock_reader_init_def)
    then show ?thesis using I False by auto
  next
    case True
    note I1 = I [THEN conjunct2, THEN conjunct1, rule_format, OF True]
    have A: "metablock_archive src ?it = ?A" using I1 by (simp add: metablock_archive_def)
    have B: "metablock_blocks env src ?it = ?B" using A by (simp add: metablock_blocks_def fun_eq_iff)
    have base: "metablock_base_ok env se ee src ?it"
      using bo I1 xm sz A by (simp add: metablock_base_ok_def sqsh__metablock_iterator_data_def)
    have rest: "metablock_rest env src ?it = ?B start" using I1 B by (simp add: metablock_rest_def)
    have inn: "metablock_in env se ee src ?B start ?it"
      using base metablock_base_stream [OF base, of start] rest B
      by (simp add: metablock_in_def metablock_ok_def)
    have st0: "metablock_start env src start ?it = 0"
      using rest B by (simp add: metablock_start_def metablock_stream_def)
    have ri: "sqsh__reader_init (env_buf env) ?it (r\<lparr>rd_iterator := ?it\<rparr>) = (rv, r')"
      using eq ii True by (simp add: sqsh__metablock_reader_init_def)
    note R = metablock_source.init_correct [OF bo inn ri]
    have "cx_buffer_total (env_buf env) \<Longrightarrow> rv = Ok"
      using ri by (auto simp: sqsh__reader_init_def cx_buffer_total_def split: prod.splits)
    moreover have "metablock_live env src ?it"
      if "cache_total (env_maps env) \<and> live_memory_mapper (mp_impl (mm_mapper m)) src \<and>
      cx_buffer_total (env_buf env) \<and> cache_total (env_cache env) \<and> start < length ?A \<and>
      (\<forall>a. a + 2 = length ?A \<longrightarrow> sqsh__data_metablock_size (window a 2 ?A) \<noteq> 0)"
      using that I A by (auto simp: metablock_live_def)
    ultimately show ?thesis using R st0
      by (auto simp: metablock_reader_at_def sqsh__metablock_reader_size_def sqsh__reader_size_def)
  qed
qed


section \<open>Memory safety on every archive\<close>

text \<open>
  A chain need not be well-formed: when a skipped block is not full, the position the reader
  believes to be at is not the position in the chain. The reader is then still in a proper state,
  with respect to the chain that begins at the block it stands on.
\<close>

definition metablock_reader_sane ::
  "('c, 'b, 'e) sqsh_env \<Rightarrow> ((nat \<Rightarrow> map_slice \<Rightarrow> bool) \<Rightarrow> 'c \<Rightarrow> bool) \<Rightarrow>
   ((nat \<Rightarrow> 'b \<Rightarrow> bool) \<Rightarrow> 'e \<Rightarrow> bool) \<Rightarrow> ('u \<Rightarrow> byte list) \<Rightarrow>
   ('u, 'c, 'b, 'e, 'x) metablock_reader \<Rightarrow> bool" where
  "metablock_reader_sane env se ee src r \<longleftrightarrow>
     (\<exists>B base pos. metablock_reader_at env se ee src B base r pos)"

lemma metablock_reader_advance_safe:
  assumes at: "metablock_reader_sane env se ee src r"
    and sup: "advance_supported r offset sz" and sz: "sz < 2 ^ 64"
    and eq: "sqsh__metablock_reader_advance env r offset sz = (rv, r')"
  shows "safe_rv rv \<and> (rv = Ok \<longrightarrow> metablock_reader_sane env se ee src r' \<and>
    sqsh__metablock_reader_size r' = sz \<and> length (sqsh__metablock_reader_data env r') = sz)"
proof -
  obtain B base pos where at: "metablock_reader_at env se ee src B base r pos"
    using at by (auto simp: metablock_reader_sane_def)
  show ?thesis
  proof (cases "rd_iterator_offset r \<le> offset")
    case False
    then have "rd_iterator_offset r \<le> offset \<Longrightarrow> chain_reaches (B base) (pos + offset)" by simp
    from metablock_reader_advance_correct [OF at sup sz this eq] show ?thesis
      by (auto simp: metablock_reader_sane_def)
  next
    case True
    let ?impl = "metablock_reader_impl env" and ?it = "rd_iterator r"
    let ?r = "r\<lparr>rd_iterator_offset := 0\<rparr>" and ?o = "offset - rd_iterator_offset r"
    note I = metablock_reader_at_in [OF at]
    note b = metablock_in_ok(2) [OF I(1)]
    have hm: "handle_mapped ?impl (env_buf env) ?r ?o sz = (rv, r')"
      using eq True by (simp add: sqsh__metablock_reader_advance_def sqsh__reader_advance_def)
    show ?thesis
    proof (cases "add_overflow 64 ?o (rd_offset ?r)")
      case None
      then show ?thesis using hm by (auto simp: handle_mapped_def simp del: add_overflow_None)
    next
      case (Some a)
      obtain rv1 o1 it1 where sk: "sqsh__metablock_iterator_skip env ?it a = (rv1, o1, it1)"
        by (rule prod_cases3)
      then have sk': "ri_skip ?impl (rd_iterator ?r) a sz = (rv1, o1, it1)"
        by (simp add: metablock_reader_impl_def)
      note S = metablock_skip_correct [OF b sk]
      show ?thesis
      proof (cases "rv1 = Ok")
        case False
        then show ?thesis using hm S handle_mapped_skip_error [OF sk' _ Some] by simp
      next
        case ok: True
        note S = S [THEN conjunct2, THEN conjunct1, rule_format, OF ok]
        have "\<exists>base'. metablock_in env se ee src B base' it1"
        proof (cases "a < mb_inner_size ?it")
          case True
          then show ?thesis using S I(1) by auto
        next
          case False
          then have "mb_inner_size ?it \<le> a" by simp
          then obtain x where "metablock_blocks env src it1 x
            = sqsh__metablock_iterator_data it1 # metablock_rest env src it1" using S by blast
          then have "\<exists>p. metablock_blocks env src it1 x
            = p @ sqsh__metablock_iterator_data it1 # metablock_rest env src it1"
            by (intro exI [of _ "[]"]) simp
          then have "metablock_ok env se ee src x it1"
            using S metablock_base_stream [of env se ee src it1] unfolding metablock_ok_def by blast
          then show ?thesis using S metablock_in_ok(3) [OF I(1)]
            by (auto simp: metablock_in_def fun_eq_iff)
        qed
        then obtain base' where in1: "metablock_in env se ee src B base' it1" ..
        have o1: "o1 < ri_size ?impl it1 \<or> o1 = ri_size ?impl it1 \<and> (\<forall>d. \<not> fst (ri_next ?impl it1 d))"
          using S by (simp add: metablock_reader_impl_def sqsh__metablock_iterator_size_def)
        have mt: "mapped_tail ?impl (env_buf env) ?r it1 o1 sz = (rv, r')"
          using handle_mapped_tail [OF sk' [unfolded ok] Some] hm by simp
        have io: "rd_iterator_offset ?r = 0" by simp
        from metablock_source.mapped_tail_correct [OF I(3) in1 o1 io sz mt refl]
        show ?thesis
          by (auto simp: metablock_reader_sane_def metablock_reader_at_def
              sqsh__metablock_reader_size_def sqsh__reader_size_def sqsh__metablock_reader_data_def)
      qed
    qed
  qed
qed

section \<open>A small environment\<close>

text \<open>Caches and buffers as lists, and a codec that copies its input.\<close>

definition copy_codec :: "byte list extractor_impl" where
  "copy_codec = \<lparr>xi_init = (\<lambda>n. (Ok, [])), xi_write = (\<lambda>x d. (Ok, x @ d)),
     xi_finish = (\<lambda>x n. if length x \<le> n then (Ok, x, x)
                        else (Err SQSH_ERROR_COMPRESSION_DECOMPRESS, [], x))\<rparr>"

definition tiny_env ::
  "((nat \<times> map_slice) list, byte list, (nat \<times> byte list) list) sqsh_env" where
  "tiny_env = \<lparr>env_maps = alist_cache, env_buf = list_buffer, env_cache = alist_cache,
     env_lock = Ok\<rparr>"

definition tiny_extract_manager :: "((nat \<times> byte list) list, byte list) extract_manager" where
  "tiny_extract_manager = \<lparr>xm_impl = Some copy_codec, xm_cache = [], xm_block_size = 8192\<rparr>"

definition blank_metablock_reader ::
  "(byte list, (nat \<times> map_slice) list) map_manager \<Rightarrow>
   (byte list, (nat \<times> map_slice) list, byte list, (nat \<times> byte list) list, byte list) metablock_reader"
  where
  "blank_metablock_reader m = \<lparr>rd_iterator = \<lparr>mb_reader = blank_map_reader m,
       mb_manager = tiny_extract_manager, mb_view = zero_extract_view, mb_is_compressed = False,
       mb_outer_size = 0, mb_inner_size = 0, mb_data = []\<rparr>,
     rd_iterator_offset = 0, rd_offset = 0, rd_buffer = [], rd_data = RNull, rd_size = 0,
     rd_iterator_size = 0\<rparr>"

lemma tiny_env_simps [simp]:
  "env_maps tiny_env = alist_cache" "env_buf tiny_env = list_buffer"
  "env_cache tiny_env = alist_cache" "env_lock tiny_env = Ok"
  by (simp_all add: tiny_env_def)

lemma copy_codec_ok [simp]: "extractor_impl_ok copy_codec"
  by (simp add: extractor_impl_ok_def copy_codec_def)

lemma tiny_extract_manager_simps [simp]:
  "extract_manager_ok alist_cache alist_entries Q tiny_extract_manager"
  "xm_block_size tiny_extract_manager = 8192" "xm_impl tiny_extract_manager = Some copy_codec"
  by (auto simp: extract_manager_ok_def tiny_extract_manager_def alist_entries_def)

section \<open>Properties\<close>

text \<open>
  C1. A metablock reader that was initialised at an address presents, after an advance, exactly the
  requested window of the concatenated contents of the metablocks that start there: the blocks are
  found by their headers, decompressed when the header says so (through the cache of the extract
  manager or not), and stitched together when the window crosses blocks. The position must be one
  that skipping finds (all blocks before it are of full size); with memory available every such
  advance within the contents succeeds.
\<close>

theorem metablock_reader_window:
  assumes "cx_buffer_ok (env_buf env)" "manager_ok (env_maps env) se src m"
    and "extract_manager_ok (env_cache env) ee
        (metablock_entry (env_buf env) (xm_impl xm) (archive_bytes src m)) xm"
    and "xm_block_size xm = 8192" "length (archive_bytes src m) < 2 ^ 52" "start < 2 ^ 64"
    and "sz < 2 ^ 64" "blocks = metablock_chain (env_buf env) (xm_impl xm) (archive_bytes src m) start"
    and "chain_reaches blocks offset"
    and "sqsh__metablock_reader_init env m xm start upper r0 = (Ok, r1)"
    and "sqsh__metablock_reader_advance env r1 offset sz = (rv, r2)"
  shows "safe_rv rv \<and>
    (rv = Ok \<longrightarrow> sqsh__metablock_reader_size r2 = sz \<and>
      sqsh__metablock_reader_data env r2 = window offset sz (concat blocks) \<and>
      offset + sz \<le> length (concat blocks)) \<and>
    (cache_total (env_maps env) \<and> live_memory_mapper (mp_impl (mm_mapper m)) src \<and>
      cx_buffer_total (env_buf env) \<and> cache_total (env_cache env) \<and>
      start < length (archive_bytes src m) \<and>
      (\<forall>a. a + 2 = length (archive_bytes src m) \<longrightarrow>
        sqsh__data_metablock_size (window a 2 (archive_bytes src m)) \<noteq> 0) \<and>
      offset + sz \<le> length (concat blocks) \<longrightarrow> rv = Ok)"
proof -
  note I = metablock_reader_init_correct [OF assms(1-6,10)]
  have at: "metablock_reader_at env se ee src
      (metablock_chain (env_buf env) (xm_impl xm) (archive_bytes src m)) start r1 0"
    and sup: "advance_supported r1 offset sz"
    using I by (simp_all add: advance_supported_def)
  have rc: "chain_reaches (metablock_chain (env_buf env) (xm_impl xm) (archive_bytes src m) start)
      (0 + offset)" using assms(8,9) by simp
  note A = metablock_reader_advance_correct [OF at sup assms(7) rc assms(11), folded assms(8)]
  have "offset < length (concat blocks)" using assms(9) by (rule chain_reaches_bound)
  then show ?thesis using A I by auto
qed

theorem metablock_reader_window_witness:
  "let m = tiny_manager 4 0 [3, 0x80, 1, 2, 3, 2, 0x00, 4, 5];
       r1 = snd (sqsh__metablock_reader_init tiny_env m tiny_extract_manager 0 9 (blank_metablock_reader m))
   in sqsh__metablock_reader_data tiny_env (snd (sqsh__metablock_reader_advance tiny_env r1 1 4))
     = [2, 3, 4, 5]"
proof -
  define m where "m = tiny_manager 4 0 [3, 0x80, 1, 2, 3, 2, 0x00, 4, 5]"
  have ar: "archive_bytes (\<lambda>u. u) m = [3, 0x80, 1, 2, 3, 2, 0x00, 4, 5]"
    by (simp add: m_def tiny_archive)
  have m: "manager_ok alist_cache alist_entries (\<lambda>u. u) m" unfolding m_def
    by (rule tiny_manager_ok) simp_all
  have ch: "metablock_chain list_buffer (Some copy_codec) [3, 0x80, 1, 2, 3, 2, 0x00, 4, 5] 0
    = [[1, 2, 3], [4, 5]]" by code_simp
  obtain rv1 r1 where i: "sqsh__metablock_reader_init tiny_env m tiny_extract_manager 0 9
    (blank_metablock_reader m) = (rv1, r1)" by fastforce
  have rv1: "rv1 = Ok" and tail: "\<forall>a. a + 2 = length (archive_bytes (\<lambda>u. u) m) \<longrightarrow>
        sqsh__data_metablock_size (window a 2 (archive_bytes (\<lambda>u. u) m)) \<noteq> 0"
  proof -
    show tail: "\<forall>a. a + 2 = length (archive_bytes (\<lambda>u. u) m) \<longrightarrow>
        sqsh__data_metablock_size (window a 2 (archive_bytes (\<lambda>u. u) m)) \<noteq> 0"
      by (auto simp: ar window_def sqsh__data_metablock_size_def get_le_def)
    show "rv1 = Ok"
      using metablock_reader_init_correct [of tiny_env alist_entries "\<lambda>u. u" m alist_entries
          tiny_extract_manager 0 9 "blank_metablock_reader m" rv1 r1] m i tail
        tiny_manager_live [of 4 0 "[3, 0x80, 1, 2, 3, 2, 0x00, 4, 5]"] by (simp add: ar m_def [symmetric])
  qed
  obtain rv2 r2 where a: "sqsh__metablock_reader_advance tiny_env r1 1 4 = (rv2, r2)" by fastforce
  have "sqsh__metablock_reader_data tiny_env r2 = [2, 3, 4, 5]"
    using metablock_reader_window [of tiny_env alist_entries "\<lambda>u. u" m alist_entries
        tiny_extract_manager 0 4 "[[1, 2, 3], [4, 5]]" 1 9 "blank_metablock_reader m" r1 rv2 r2]
      m i rv1 a tail tiny_manager_live [of 4 0 "[3, 0x80, 1, 2, 3, 2, 0x00, 4, 5]"] ch
    by (simp add: ar m_def [symmetric] window_def)
  then show ?thesis using i a by (simp add: Let_def m_def [symmetric])
qed



end
