(* ===== verification/Sqsh_Archive.thy ===== *)
theory Sqsh_Archive
  imports Sqsh_Metablock
begin

text \<open>
  The archive object and its tables: \<^verbatim>\<open>archive/superblock.c\<close>, \<^verbatim>\<open>archive/archive.c\<close>,
  \<^verbatim>\<open>archive/compression_options.c\<close> and \<^verbatim>\<open>table/*.c\<close>.

  \<^verbatim>\<open>struct SqshArchive\<close> owns the map manager and the extract managers that every reader points to.
  A reader of the model starts from the managers as they are in the archive record and keeps its
  own copy; what it leaves behind in the caches is not written back. The results do not depend on
  it, since the invariants of the managers speak of every cache state.
  Lazily initialised parts are options: \<open>None\<close> is a cleared bit of \<^verbatim>\<open>archive->initialized\<close>.
\<close>

section \<open>Zeroed readers\<close>

definition zero_map_reader ::
  "('c, 'b, 'e) sqsh_env \<Rightarrow> ('u, 'c) map_manager \<Rightarrow> ('u, 'c, 'b) map_reader" where
  "zero_map_reader env m = \<lparr>mr_address = 0, mr_upper_limit = 0,
     mr_reader = \<lparr>rd_iterator = \<lparr>it_manager = m, it_mapping = None, it_data = None, it_size = 0,
         it_next_index = 0, it_segment_count = 0\<rparr>,
       rd_iterator_offset = 0, rd_offset = 0, rd_buffer = snd (cb_init (env_buf env)),
       rd_data = RNull, rd_size = 0, rd_iterator_size = 0\<rparr>\<rparr>"

definition zero_metablock_iterator ::
  "('c, 'b, 'e) sqsh_env \<Rightarrow> ('u, 'c) map_manager \<Rightarrow> ('e, 'x) extract_manager \<Rightarrow>
   ('u, 'c, 'b, 'e, 'x) metablock_iterator" where
  "zero_metablock_iterator env m xm = \<lparr>mb_reader = zero_map_reader env m, mb_manager = xm,
     mb_view = zero_extract_view, mb_is_compressed = False, mb_outer_size = 0, mb_inner_size = 0,
     mb_data = []\<rparr>"

definition zero_metablock_reader ::
  "('c, 'b, 'e) sqsh_env \<Rightarrow> ('u, 'c) map_manager \<Rightarrow> ('e, 'x) extract_manager \<Rightarrow>
   ('u, 'c, 'b, 'e, 'x) metablock_reader" where
  "zero_metablock_reader env m xm = \<lparr>rd_iterator = zero_metablock_iterator env m xm,
     rd_iterator_offset = 0, rd_offset = 0, rd_buffer = snd (cb_init (env_buf env)),
     rd_data = RNull, rd_size = 0, rd_iterator_size = 0\<rparr>"

section \<open>The superblock\<close>

definition SQSH_SUPERBLOCK_MAGIC :: "byte list" where
  "SQSH_SUPERBLOCK_MAGIC = [0x68, 0x73, 0x71, 0x73]"

definition SQSH_SUPERBLOCK_NO_FRAGMENTS :: nat where "SQSH_SUPERBLOCK_NO_FRAGMENTS = 0x0010"
definition SQSH_SUPERBLOCK_EXPORTABLE :: nat where "SQSH_SUPERBLOCK_EXPORTABLE = 0x0080"
definition SQSH_SUPERBLOCK_NO_XATTRS :: nat where "SQSH_SUPERBLOCK_NO_XATTRS = 0x0200"
definition SQSH_SUPERBLOCK_COMPRESSOR_OPTIONS :: nat where
  "SQSH_SUPERBLOCK_COMPRESSOR_OPTIONS = 0x0400"

text \<open>\<^verbatim>\<open>struct SqshSuperblock\<close> is a map reader, its cursor.\<close>

definition get_header ::
  "('c, 'b, 'e) sqsh_env \<Rightarrow> ('u, 'c, 'b) map_reader \<Rightarrow> byte list" where
  "get_header env sb = sqsh__map_reader_data (env_maps env) (env_buf env) sb"

definition check_flag ::
  "('c, 'b, 'e) sqsh_env \<Rightarrow> ('u, 'c, 'b) map_reader \<Rightarrow> nat \<Rightarrow> bool" where
  "check_flag env sb flag \<longleftrightarrow> sqsh__data_superblock_flags (get_header env sb) AND flag \<noteq> 0"

definition sqsh__superblock_init ::
  "('c, 'b, 'e) sqsh_env \<Rightarrow> ('u, 'c) map_manager \<Rightarrow> rv \<times> ('u, 'c, 'b) map_reader" where
  "sqsh__superblock_init env manager =
     (let sb = zero_map_reader env manager
      in if sqsh__map_manager_size manager < sizeof_SqshDataSuperblock
         then (Err SQSH_ERROR_SUPERBLOCK_TOO_SMALL, sb)
         else
          andthen (sqsh__map_reader_init (env_maps env) (env_buf env) manager 0
                     sizeof_SqshDataSuperblock sb)
           (\<lambda>sb. andthen (sqsh__map_reader_all (env_maps env) (env_buf env) sb)
            (\<lambda>sb.
              let header = get_header env sb;
                  block_size = sqsh__data_superblock_block_size header;
                  block_log = sqsh__data_superblock_block_log header
              in if sqsh__data_superblock_magic header \<noteq> SQSH_SUPERBLOCK_MAGIC
                 then (Err SQSH_ERROR_WRONG_MAGIC, sb)
                 else if block_log < 12 \<or> 20 < block_log
                 then (Err SQSH_ERROR_BLOCKSIZE_MISMATCH, sb)
                 else if block_size \<noteq> push_bit block_log 1
                 then (Err SQSH_ERROR_BLOCKSIZE_MISMATCH, sb)
                 else if sqsh__map_manager_size manager < sqsh__data_superblock_bytes_used header
                 then (Err SQSH_ERROR_SIZE_MISMATCH, sb)
                 else (Ok, sb))))"

definition sqsh_superblock_compression_id where
  "sqsh_superblock_compression_id env sb = sqsh__data_superblock_compression_id (get_header env sb)"
definition sqsh_superblock_directory_table_start where
  "sqsh_superblock_directory_table_start env sb =
     sqsh__data_superblock_directory_table_start (get_header env sb)"
definition sqsh_superblock_fragment_table_start where
  "sqsh_superblock_fragment_table_start env sb =
     sqsh__data_superblock_fragment_table_start (get_header env sb)"
definition sqsh_superblock_inode_count where
  "sqsh_superblock_inode_count env sb = sqsh__data_superblock_inode_count (get_header env sb)"
definition sqsh_superblock_version_major where
  "sqsh_superblock_version_major env sb = sqsh__data_superblock_version_major (get_header env sb)"
definition sqsh_superblock_version_minor where
  "sqsh_superblock_version_minor env sb = sqsh__data_superblock_version_minor (get_header env sb)"
definition sqsh_superblock_inode_table_start where
  "sqsh_superblock_inode_table_start env sb =
     sqsh__data_superblock_inode_table_start (get_header env sb)"
definition sqsh_superblock_id_table_start where
  "sqsh_superblock_id_table_start env sb = sqsh__data_superblock_id_table_start (get_header env sb)"
definition sqsh_superblock_id_count where
  "sqsh_superblock_id_count env sb = sqsh__data_superblock_id_count (get_header env sb)"
definition sqsh_superblock_export_table_start where
  "sqsh_superblock_export_table_start env sb =
     sqsh__data_superblock_export_table_start (get_header env sb)"
definition sqsh_superblock_xattr_id_table_start where
  "sqsh_superblock_xattr_id_table_start env sb =
     sqsh__data_superblock_xattr_id_table_start (get_header env sb)"
definition sqsh_superblock_inode_root_ref where
  "sqsh_superblock_inode_root_ref env sb =
     sqsh__data_superblock_root_inode_ref (get_header env sb)"
definition sqsh_superblock_has_compression_options where
  "sqsh_superblock_has_compression_options env sb \<longleftrightarrow>
     check_flag env sb SQSH_SUPERBLOCK_COMPRESSOR_OPTIONS"
definition sqsh_superblock_has_fragments where
  "sqsh_superblock_has_fragments env sb \<longleftrightarrow> \<not> check_flag env sb SQSH_SUPERBLOCK_NO_FRAGMENTS"
definition sqsh_superblock_has_export_table where
  "sqsh_superblock_has_export_table env sb \<longleftrightarrow> check_flag env sb SQSH_SUPERBLOCK_EXPORTABLE"
definition sqsh_superblock_has_xattr_table where
  "sqsh_superblock_has_xattr_table env sb \<longleftrightarrow> \<not> check_flag env sb SQSH_SUPERBLOCK_NO_XATTRS"
definition sqsh_superblock_block_log where
  "sqsh_superblock_block_log env sb = sqsh__data_superblock_block_log (get_header env sb)"
definition sqsh_superblock_block_size where
  "sqsh_superblock_block_size env sb = sqsh__data_superblock_block_size (get_header env sb)"
definition sqsh_superblock_modification_time where
  "sqsh_superblock_modification_time env sb =
     sqsh__data_superblock_modification_time (get_header env sb)"
definition sqsh_superblock_fragment_entry_count where
  "sqsh_superblock_fragment_entry_count env sb =
     sqsh__data_superblock_fragment_entry_count (get_header env sb)"
definition sqsh_superblock_bytes_used where
  "sqsh_superblock_bytes_used env sb = sqsh__data_superblock_bytes_used (get_header env sb)"

section \<open>The archive object\<close>

record ('u, 'c, 'b) sqsh_table =
  tb_lookup_table :: "('u, 'c, 'b) map_reader"
  tb_element_size :: nat
  tb_element_count :: nat

record ('u, 'c, 'b) xattr_table =
  xt_header :: "('u, 'c, 'b) map_reader"
  xt_table :: "('u, 'c, 'b) sqsh_table"

text \<open>
  The inode map has two implementations behind a function table; the union of their states is the
  datatype below. The dynamic map rests on a hash map of cextras, of type \<open>'h\<close>.
\<close>

datatype ('u, 'c, 'b, 'h) inode_map_impl =
    ExportTableImpl "('u, 'c, 'b) sqsh_table"
  | DynMapImpl 'h

record ('u, 'c, 'b, 'h) inode_map =
  im_impl :: "('u, 'c, 'b, 'h) inode_map_impl"
  im_inode_count :: nat

record ('u, 'c, 'b, 'e, 'x, 'h) sqsh_archive =
  ar_config :: "'u sqsh_config"
  ar_map_manager :: "('u, 'c) map_manager"
  ar_superblock :: "('u, 'c, 'b) map_reader"
  ar_metablock_manager :: "('e, 'x) extract_manager"
  ar_data_manager :: "('e, 'x) extract_manager option"
  ar_id_table :: "('u, 'c, 'b) sqsh_table option"
  ar_export_table :: "('u, 'c, 'b) sqsh_table option"
  ar_xattr_table :: "('u, 'c, 'b) xattr_table option"
  ar_fragment_table :: "('u, 'c, 'b) sqsh_table option"
  ar_inode_map :: "('u, 'c, 'b, 'h) inode_map option"

section \<open>Tables\<close>

text \<open>\<^verbatim>\<open>lookup_table[index]\<close>; reading behind the table is a fault.\<close>

definition lookup_table_get ::
  "('c, 'b, 'e) sqsh_env \<Rightarrow> ('u, 'c, 'b) sqsh_table \<Rightarrow> nat \<Rightarrow> nat option" where
  "lookup_table_get env table index =
     (let lookup = sqsh__map_reader_data (env_maps env) (env_buf env) (tb_lookup_table table)
      in if length lookup < 8 * index + 8 then None else Some (get_le 8 (8 * index) lookup))"

definition sqsh__table_cleanup ::
  "('c, 'b, 'e) sqsh_env \<Rightarrow> ('u, 'c, 'b) sqsh_table \<Rightarrow> rv \<times> ('u, 'c, 'b) sqsh_table" where
  "sqsh__table_cleanup env table =
     (Ok, table\<lparr>tb_lookup_table := snd (sqsh__map_reader_cleanup (env_maps env) (tb_lookup_table table))\<rparr>)"

definition sqsh__table_init ::
  "('c, 'b, 'e) sqsh_env \<Rightarrow> ('u, 'c) map_manager \<Rightarrow> nat \<Rightarrow> nat \<Rightarrow> nat \<Rightarrow>
   rv \<times> ('u, 'c, 'b) sqsh_table" where
  "sqsh__table_init env map_manager start_block element_size element_count =
     (let table = \<lparr>tb_lookup_table = zero_map_reader env map_manager, tb_element_size = 0,
                   tb_element_count = 0\<rparr>
      in case mul_overflow 64 element_size element_count of
           None \<Rightarrow> (Err SQSH_ERROR_INTEGER_OVERFLOW, table)
         | Some table_size \<Rightarrow>
             (let lookup_table_count = divide_ceil table_size SQSH_METABLOCK_BLOCK_SIZE
              in case mul_overflow 64 lookup_table_count 8 of
                   None \<Rightarrow> (Err SQSH_ERROR_INTEGER_OVERFLOW, table)
                 | Some lookup_table_size \<Rightarrow>
                     (case add_overflow 64 start_block lookup_table_size of
                        None \<Rightarrow> (Err SQSH_ERROR_INTEGER_OVERFLOW, table)
                      | Some upper_limit \<Rightarrow>
                          (case sqsh__map_reader_init (env_maps env) (env_buf env) map_manager
                                  start_block upper_limit (tb_lookup_table table) of (rv, mr) \<Rightarrow>
                             if rv \<noteq> Ok then (rv, table\<lparr>tb_lookup_table := mr\<rparr>)
                             else case sqsh__map_reader_all (env_maps env) (env_buf env) mr of
                               (rv, mr) \<Rightarrow>
                                 if rv \<noteq> Ok
                                 then (rv, snd (sqsh__table_cleanup env (table\<lparr>tb_lookup_table := mr\<rparr>)))
                                 else (Ok, \<lparr>tb_lookup_table = mr, tb_element_size = element_size,
                                            tb_element_count = element_count\<rparr>)))))"

text \<open>\<^verbatim>\<open>sqsh_table_get\<close>; the second component is what \<^verbatim>\<open>memcpy\<close> stores in the target.\<close>

definition sqsh_table_get ::
  "('c, 'b, 'e) sqsh_env \<Rightarrow> ('u, 'c, 'b, 'e, 'x, 'h) sqsh_archive \<Rightarrow> ('u, 'c, 'b) sqsh_table \<Rightarrow>
   nat \<Rightarrow> rv \<times> byte list" where
  "sqsh_table_get env sqsh table index =
     (let lookup_table_bytes = sqsh__map_reader_size (tb_lookup_table table)
      in if tb_element_count table \<le> index then (Err SQSH_ERROR_OUT_OF_BOUNDS, [])
         else case mul_overflow 64 index (tb_element_size table) of
           None \<Rightarrow> (Err SQSH_ERROR_INTEGER_OVERFLOW, [])
         | Some byte_offset \<Rightarrow>
             (let lookup_index = byte_offset div SQSH_METABLOCK_BLOCK_SIZE
              in if lookup_table_bytes div 8 \<le> lookup_index then (Err SQSH_ERROR_OUT_OF_BOUNDS, [])
                 else case lookup_table_get env table lookup_index of
                   None \<Rightarrow> (Fault, [])
                 | Some metablock_address \<Rightarrow>
                     (let element_offset = byte_offset mod SQSH_METABLOCK_BLOCK_SIZE
                      in case add_overflow 64 metablock_address SQSH_METABLOCK_BLOCK_SIZE of
                           None \<Rightarrow> (Err SQSH_ERROR_INTEGER_OVERFLOW, [])
                         | Some upper_limit \<Rightarrow>
                             (case andthen
                                (sqsh__metablock_reader_init env (ar_map_manager sqsh)
                                   (ar_metablock_manager sqsh) metablock_address upper_limit
                                   (zero_metablock_reader env (ar_map_manager sqsh)
                                      (ar_metablock_manager sqsh)))
                                (\<lambda>metablock. sqsh__metablock_reader_advance env metablock
                                   element_offset (tb_element_size table)) of
                                (rv, metablock) \<Rightarrow>
                                  if rv \<noteq> Ok then (rv, [])
                                  else (let data = sqsh__metablock_reader_data env metablock
                                        in if length data < tb_element_size table then (Fault, [])
                                           else (Ok, take (tb_element_size table) data))))))"

definition sqsh__id_table_init ::
  "('c, 'b, 'e) sqsh_env \<Rightarrow> ('u, 'c, 'b, 'e, 'x, 'h) sqsh_archive \<Rightarrow> rv \<times> ('u, 'c, 'b) sqsh_table" where
  "sqsh__id_table_init env sqsh =
     sqsh__table_init env (ar_map_manager sqsh)
       (sqsh_superblock_id_table_start env (ar_superblock sqsh)) 4
       (sqsh_superblock_id_count env (ar_superblock sqsh))"

definition sqsh_id_table_get ::
  "('c, 'b, 'e) sqsh_env \<Rightarrow> ('u, 'c, 'b, 'e, 'x, 'h) sqsh_archive \<Rightarrow> ('u, 'c, 'b) sqsh_table \<Rightarrow>
   nat \<Rightarrow> rv \<times> nat" where
  "sqsh_id_table_get env sqsh table index =
     (case sqsh_table_get env sqsh table index of (rv, target) \<Rightarrow> (rv, get_le 4 0 target))"

definition sqsh__export_table_init ::
  "('c, 'b, 'e) sqsh_env \<Rightarrow> ('u, 'c, 'b, 'e, 'x, 'h) sqsh_archive \<Rightarrow> rv \<times> ('u, 'c, 'b) sqsh_table" where
  "sqsh__export_table_init env sqsh =
     sqsh__table_init env (ar_map_manager sqsh)
       (sqsh_superblock_export_table_start env (ar_superblock sqsh)) 8
       (sqsh_superblock_inode_count env (ar_superblock sqsh))"

definition sqsh_export_table_resolve_inode ::
  "('c, 'b, 'e) sqsh_env \<Rightarrow> ('u, 'c, 'b, 'e, 'x, 'h) sqsh_archive \<Rightarrow> ('u, 'c, 'b) sqsh_table \<Rightarrow>
   nat \<Rightarrow> rv \<times> nat" where
  "sqsh_export_table_resolve_inode env sqsh table inode =
     (if SIZE_MAX < inode then (Err SQSH_ERROR_INVALID_ARGUMENT, 0)
      else case sqsh_table_get env sqsh table inode of (rv, target) \<Rightarrow> (rv, get_le 8 0 target))"

definition sqsh_export_table_resolve_inode2 ::
  "('c, 'b, 'e) sqsh_env \<Rightarrow> ('u, 'c, 'b, 'e, 'x, 'h) sqsh_archive \<Rightarrow> ('u, 'c, 'b) sqsh_table \<Rightarrow>
   nat \<Rightarrow> rv \<times> nat" where
  "sqsh_export_table_resolve_inode2 env sqsh table inode =
     (if inode < 1 then (Err SQSH_ERROR_INVALID_ARGUMENT, 0)
      else case sqsh_table_get env sqsh table (inode - 1) of (rv, target) \<Rightarrow> (rv, get_le 8 0 target))"

definition sqsh__fragment_table_init ::
  "('c, 'b, 'e) sqsh_env \<Rightarrow> ('u, 'c, 'b, 'e, 'x, 'h) sqsh_archive \<Rightarrow> rv \<times> ('u, 'c, 'b) sqsh_table" where
  "sqsh__fragment_table_init env sqsh =
     sqsh__table_init env (ar_map_manager sqsh)
       (sqsh_superblock_fragment_table_start env (ar_superblock sqsh)) sizeof_SqshDataFragment
       (sqsh_superblock_fragment_entry_count env (ar_superblock sqsh))"

definition sqsh__xattr_table_cleanup ::
  "('c, 'b, 'e) sqsh_env \<Rightarrow> ('u, 'c, 'b) xattr_table \<Rightarrow> rv \<times> ('u, 'c, 'b) xattr_table" where
  "sqsh__xattr_table_cleanup env xt =
     (Ok, xt\<lparr>xt_table := snd (sqsh__table_cleanup env (xt_table xt)),
             xt_header := snd (sqsh__map_reader_cleanup (env_maps env) (xt_header xt))\<rparr>)"

definition sqsh__xattr_table_init ::
  "('c, 'b, 'e) sqsh_env \<Rightarrow> ('u, 'c, 'b, 'e, 'x, 'h) sqsh_archive \<Rightarrow> rv \<times> ('u, 'c, 'b) xattr_table" where
  "sqsh__xattr_table_init env sqsh =
     (let m = ar_map_manager sqsh;
          xattr_address = sqsh_superblock_xattr_id_table_start env (ar_superblock sqsh);
          xt = \<lparr>xt_header = zero_map_reader env m,
                xt_table = \<lparr>tb_lookup_table = zero_map_reader env m, tb_element_size = 0,
                            tb_element_count = 0\<rparr>\<rparr>
      in case add_overflow 64 xattr_address sizeof_SqshDataXattrIdTable of
           None \<Rightarrow> (Err SQSH_ERROR_INTEGER_OVERFLOW, xt)
         | Some header_size \<Rightarrow>
             (case andthen
                (sqsh__map_reader_init (env_maps env) (env_buf env) m xattr_address header_size
                   (xt_header xt))
                (sqsh__map_reader_all (env_maps env) (env_buf env)) of (rv, mr) \<Rightarrow>
                (let xt = xt\<lparr>xt_header := mr\<rparr>
                 in if rv \<noteq> Ok then (rv, snd (sqsh__xattr_table_cleanup env xt))
                    else let header = sqsh__map_reader_data (env_maps env) (env_buf env) mr
                         in case sqsh__table_init env m header_size sizeof_SqshDataXattrLookupTable
                                   (sqsh__data_xattr_id_table_xattr_ids header) of
                              (rv, table) \<Rightarrow>
                                (let xt = xt\<lparr>xt_table := table\<rparr>
                                 in if rv \<noteq> Ok then (rv, snd (sqsh__xattr_table_cleanup env xt))
                                    else (Ok, xt)))))"

definition sqsh__xattr_table_start ::
  "('c, 'b, 'e) sqsh_env \<Rightarrow> ('u, 'c, 'b) xattr_table \<Rightarrow> nat" where
  "sqsh__xattr_table_start env xt = sqsh__data_xattr_id_table_xattr_table_start
     (sqsh__map_reader_data (env_maps env) (env_buf env) (xt_header xt))"

definition sqsh__xattr_table_get ::
  "('c, 'b, 'e) sqsh_env \<Rightarrow> ('u, 'c, 'b, 'e, 'x, 'h) sqsh_archive \<Rightarrow> ('u, 'c, 'b) xattr_table \<Rightarrow>
   nat \<Rightarrow> rv \<times> byte list" where
  "sqsh__xattr_table_get env sqsh xt index = sqsh_table_get env sqsh (xt_table xt) index"

section \<open>Opening an archive\<close>

text \<open>
  \<^verbatim>\<open>sqsh__archive_init\<close>. A null configuration is the zeroed one; the mapper of a zeroed
  configuration is the default one, \<^verbatim>\<open>mmap_impl\<close>. The empty caches are parameters.
\<close>

definition zero_config :: "'u sqsh_config" where
  "zero_config = \<lparr>cfg_archive_offset = 0, cfg_source_size = 0, cfg_source_mapper = None,
     cfg_mapper_block_size = 0, cfg_max_symlink_depth = 0\<rparr>"

definition sqsh__archive_init ::
  "('c, 'b, 'e) sqsh_env \<Rightarrow> 'u memory_mapper_impl \<Rightarrow> 'x extractor_impls \<Rightarrow> rv \<times> 'c \<Rightarrow> rv \<times> 'e \<Rightarrow>
   ('u, 'c, 'b, 'e, 'x, 'h) sqsh_archive \<Rightarrow> 'u \<Rightarrow> 'u sqsh_config option \<Rightarrow>
   rv \<times> ('u, 'c, 'b, 'e, 'x, 'h) sqsh_archive" where
  "sqsh__archive_init env mmap_impl impls maps_init cache_init ar source config_opt =
     (let config = (case config_opt of None \<Rightarrow> zero_config | Some c \<Rightarrow> c);
          ar = ar\<lparr>ar_config := config\<rparr>
      in andthen
          (case sqsh__map_manager_init mmap_impl maps_init (ar_map_manager ar) source config of
             (rv, m) \<Rightarrow> (rv, ar\<lparr>ar_map_manager := m\<rparr>))
          (\<lambda>ar. andthen
            (case sqsh__superblock_init env (ar_map_manager ar) of
               (rv, sb) \<Rightarrow> (rv, ar\<lparr>ar_superblock := sb\<rparr>))
            (\<lambda>ar. if sqsh_superblock_version_major env (ar_superblock ar) \<noteq> 4 \<or>
                      sqsh_superblock_version_minor env (ar_superblock ar) \<noteq> 0
                   then (Err SQSH_ERROR_UNSUPPORTED_VERSION, ar)
                   else case sqsh__extract_manager_init impls cache_init
                               (sqsh_superblock_compression_id env (ar_superblock ar))
                               SQSH_METABLOCK_BLOCK_SIZE (ar_metablock_manager ar) of
                     (rv, xm) \<Rightarrow> (rv, ar\<lparr>ar_metablock_manager := xm\<rparr>))))"

section \<open>Lazily initialised parts\<close>

definition NO_SEGMENT :: nat where "NO_SEGMENT = 0xFFFFFFFFFFFFFFFF"

definition sqsh__archive_data_extract_manager ::
  "('c, 'b, 'e) sqsh_env \<Rightarrow> 'x extractor_impls \<Rightarrow> rv \<times> 'e \<Rightarrow>
   ('u, 'c, 'b, 'e, 'x, 'h) sqsh_archive \<Rightarrow>
   rv \<times> ('e, 'x) extract_manager option \<times> ('u, 'c, 'b, 'e, 'x, 'h) sqsh_archive" where
  "sqsh__archive_data_extract_manager env impls cache_init ar =
     (if env_lock env \<noteq> Ok then (env_lock env, None, ar)
      else case ar_data_manager ar of
        Some xm \<Rightarrow> (Ok, Some xm, ar)
      | None \<Rightarrow>
          (case sqsh__extract_manager_init impls cache_init
                  (sqsh_superblock_compression_id env (ar_superblock ar))
                  (sqsh_superblock_block_size env (ar_superblock ar)) (ar_metablock_manager ar) of
             (rv, xm) \<Rightarrow>
               if rv \<noteq> Ok then (rv, None, ar)
               else (Ok, Some xm, ar\<lparr>ar_data_manager := Some xm\<rparr>)))"

definition sqsh_archive_id_table ::
  "('c, 'b, 'e) sqsh_env \<Rightarrow> ('u, 'c, 'b, 'e, 'x, 'h) sqsh_archive \<Rightarrow>
   rv \<times> ('u, 'c, 'b) sqsh_table option \<times> ('u, 'c, 'b, 'e, 'x, 'h) sqsh_archive" where
  "sqsh_archive_id_table env ar =
     (if env_lock env \<noteq> Ok then (env_lock env, None, ar)
      else case ar_id_table ar of
        Some table \<Rightarrow> (Ok, Some table, ar)
      | None \<Rightarrow>
          (case sqsh__id_table_init env ar of (rv, table) \<Rightarrow>
             if rv \<noteq> Ok then (rv, None, ar)
             else (Ok, Some table, ar\<lparr>ar_id_table := Some table\<rparr>)))"

definition sqsh_archive_export_table ::
  "('c, 'b, 'e) sqsh_env \<Rightarrow> ('u, 'c, 'b, 'e, 'x, 'h) sqsh_archive \<Rightarrow>
   rv \<times> ('u, 'c, 'b) sqsh_table option \<times> ('u, 'c, 'b, 'e, 'x, 'h) sqsh_archive" where
  "sqsh_archive_export_table env ar =
     (if sqsh_superblock_export_table_start env (ar_superblock ar) = NO_SEGMENT
      then (Err SQSH_ERROR_NO_EXPORT_TABLE, None, ar)
      else if env_lock env \<noteq> Ok then (env_lock env, None, ar)
      else case ar_export_table ar of
        Some table \<Rightarrow> (Ok, Some table, ar)
      | None \<Rightarrow>
          (case sqsh__export_table_init env ar of (rv, table) \<Rightarrow>
             if rv \<noteq> Ok then (rv, None, ar)
             else (Ok, Some table, ar\<lparr>ar_export_table := Some table\<rparr>)))"

definition sqsh_archive_fragment_table ::
  "('c, 'b, 'e) sqsh_env \<Rightarrow> ('u, 'c, 'b, 'e, 'x, 'h) sqsh_archive \<Rightarrow>
   rv \<times> ('u, 'c, 'b) sqsh_table option \<times> ('u, 'c, 'b, 'e, 'x, 'h) sqsh_archive" where
  "sqsh_archive_fragment_table env ar =
     (if sqsh_superblock_fragment_table_start env (ar_superblock ar) = NO_SEGMENT
      then (Err SQSH_ERROR_NO_FRAGMENT_TABLE, None, ar)
      else if env_lock env \<noteq> Ok then (env_lock env, None, ar)
      else case ar_fragment_table ar of
        Some table \<Rightarrow> (Ok, Some table, ar)
      | None \<Rightarrow>
          (case sqsh__fragment_table_init env ar of (rv, table) \<Rightarrow>
             if rv \<noteq> Ok then (rv, None, ar)
             else (Ok, Some table, ar\<lparr>ar_fragment_table := Some table\<rparr>)))"

definition sqsh_archive_xattr_table ::
  "('c, 'b, 'e) sqsh_env \<Rightarrow> ('u, 'c, 'b, 'e, 'x, 'h) sqsh_archive \<Rightarrow>
   rv \<times> ('u, 'c, 'b) xattr_table option \<times> ('u, 'c, 'b, 'e, 'x, 'h) sqsh_archive" where
  "sqsh_archive_xattr_table env ar =
     (if sqsh_superblock_xattr_id_table_start env (ar_superblock ar) = NO_SEGMENT
      then (Err SQSH_ERROR_NO_XATTR_TABLE, None, ar)
      else if env_lock env \<noteq> Ok then (env_lock env, None, ar)
      else case ar_xattr_table ar of
        Some table \<Rightarrow> (Ok, Some table, ar)
      | None \<Rightarrow>
          (case sqsh__xattr_table_init env ar of (rv, table) \<Rightarrow>
             if rv \<noteq> Ok then (rv, None, ar)
             else (Ok, Some table, ar\<lparr>ar_xattr_table := Some table\<rparr>)))"

section \<open>Compression options\<close>

text \<open>
  The options are the first metablock behind the superblock. The accessors read the options of
  the compression in use through the data pointer; reading behind the block is \<open>None\<close>.
\<close>

record ('u, 'c, 'b, 'e, 'x) compression_options =
  co_metablock :: "('u, 'c, 'b, 'e, 'x) metablock_iterator"
  co_compression_id :: nat

definition sqsh__compression_options_init ::
  "('c, 'b, 'e) sqsh_env \<Rightarrow> ('u, 'c, 'b, 'e, 'x, 'h) sqsh_archive \<Rightarrow>
   rv \<times> ('u, 'c, 'b, 'e, 'x) compression_options" where
  "sqsh__compression_options_init env sqsh =
     (let upper_limit = sizeof_SqshDataSuperblock + sizeof_SqshDataMetablock
                        + SQSH_METABLOCK_BLOCK_SIZE;
          m = ar_map_manager sqsh; xm = ar_metablock_manager sqsh
      in case andthen
           (sqsh__metablock_iterator_init env m xm sizeof_SqshDataSuperblock upper_limit
              (zero_metablock_iterator env m xm))
           (\<lambda>it. case sqsh__metablock_iterator_next env it of (_, rv, it) \<Rightarrow> (rv, it)) of
           (rv, it) \<Rightarrow>
             if rv \<noteq> Ok
             then (rv, \<lparr>co_metablock = snd (sqsh__metablock_iterator_cleanup env it),
                        co_compression_id = 0\<rparr>)
             else (Ok, \<lparr>co_metablock = it,
                        co_compression_id =
                          sqsh_superblock_compression_id env (ar_superblock sqsh) mod 2 ^ 16\<rparr>))"

definition UINT32_MAX :: nat where "UINT32_MAX = 2 ^ 32 - 1"
definition UINT16_MAX :: nat where "UINT16_MAX = 2 ^ 16 - 1"

definition read_option ::
  "('u, 'c, 'b, 'e, 'x) compression_options \<Rightarrow> nat \<Rightarrow> nat \<Rightarrow> (byte list \<Rightarrow> nat) \<Rightarrow> nat \<Rightarrow>
   nat option" where
  "read_option ctx cid other getter n =
     (if co_compression_id ctx \<noteq> cid then Some other
      else let data = sqsh__metablock_iterator_data (co_metablock ctx)
           in if length data < n then None else Some (getter data))"

definition sqsh_compression_options_gzip_compression_level where
  "sqsh_compression_options_gzip_compression_level ctx = read_option ctx SQSH_COMPRESSION_GZIP
     UINT32_MAX sqsh_compression_data_options_gzip_compression_level 4"
definition sqsh_compression_options_gzip_window_size where
  "sqsh_compression_options_gzip_window_size ctx = read_option ctx SQSH_COMPRESSION_GZIP
     UINT16_MAX sqsh_compression_data_options_gzip_window_size 6"
definition sqsh_compression_options_gzip_strategies where
  "sqsh_compression_options_gzip_strategies ctx = read_option ctx SQSH_COMPRESSION_GZIP
     UINT16_MAX sqsh_compression_data_options_gzip_strategies 8"
definition sqsh_compression_options_xz_dictionary_size where
  "sqsh_compression_options_xz_dictionary_size ctx = read_option ctx SQSH_COMPRESSION_XZ
     UINT32_MAX sqsh_compression_data_options_xz_dictionary_size 4"
definition sqsh_compression_options_xz_filters where
  "sqsh_compression_options_xz_filters ctx = read_option ctx SQSH_COMPRESSION_XZ
     UINT32_MAX sqsh_compression_data_options_xz_filters 8"
definition sqsh_compression_options_lz4_version where
  "sqsh_compression_options_lz4_version ctx = read_option ctx SQSH_COMPRESSION_LZ4
     UINT32_MAX sqsh_compression_data_options_lz4_version 4"
definition sqsh_compression_options_lz4_flags where
  "sqsh_compression_options_lz4_flags ctx = read_option ctx SQSH_COMPRESSION_LZ4
     UINT32_MAX sqsh_compression_data_options_lz4_flags 8"
definition sqsh_compression_options_zstd_compression_level where
  "sqsh_compression_options_zstd_compression_level ctx = read_option ctx SQSH_COMPRESSION_ZSTD
     UINT32_MAX sqsh_compression_data_options_zstd_compression_level 4"
definition sqsh_compression_options_lzo_algorithm where
  "sqsh_compression_options_lzo_algorithm ctx = read_option ctx SQSH_COMPRESSION_LZO
     UINT32_MAX sqsh_compression_data_options_lzo_algorithm 4"
definition sqsh_compression_options_lzo_compression_level where
  "sqsh_compression_options_lzo_compression_level ctx = read_option ctx SQSH_COMPRESSION_LZO
     UINT32_MAX sqsh_compression_data_options_lzo_compression_level 8"
definition sqsh_compression_options_size where
  "sqsh_compression_options_size ctx = sqsh__metablock_iterator_size (co_metablock ctx)"

section \<open>Loading a region of the archive\<close>

lemma map_reader_load_correct:
  assumes bo: "cx_buffer_ok bo" and m: "manager_ok co entries src m"
    and s: "start \<le> upper" "upper < 2 ^ 64"
    and eq: "andthen (sqsh__map_reader_init co bo m start upper mr0) (sqsh__map_reader_all co bo)
      = (rv, mr)"
  shows "safe_rv rv \<and>
    (rv = Ok \<longrightarrow> map_reader_ok co entries src bo mr \<and> sqsh__map_reader_size mr = upper - start \<and>
      sqsh__map_reader_data co bo mr = window start (upper - start) (archive_bytes src m) \<and>
      map_reader_archive src mr = archive_bytes src m \<and> upper \<le> length (archive_bytes src m)) \<and>
    (cache_total co \<and> live_memory_mapper (mp_impl (mm_mapper m)) src \<and> cx_buffer_total bo \<and>
      start < length (archive_bytes src m) \<and> upper \<le> length (archive_bytes src m) \<longrightarrow> rv = Ok)"
proof -
  have s64: "start < 2 ^ 64" using s by simp
  obtain rv1 mr1 where i: "sqsh__map_reader_init co bo m start upper mr0 = (rv1, mr1)" by fastforce
  note I = map_reader_init_correct [OF bo m s64 i]
  show ?thesis
  proof (cases "rv1 = Ok")
    case False
    then have "rv = rv1" using eq i by simp
    then show ?thesis using I False by auto
  next
    case True
    note I1 = I [THEN conjunct2, THEN conjunct1, rule_format, OF True]
    have ok: "map_reader_ok co entries src bo mr1" and
      sup: "advance_supported (mr_reader mr1) 0 (upper - start)"
      using I1 by (simp_all add: advance_supported_def)
    have sz: "upper - start < 2 ^ 64" using s by simp
    have ns: "\<not> SIZE_MAX < upper - start" using sz by (simp add: SIZE_MAX_def)
    have w: "wrap_sub upper start = upper - start" using s by (simp add: wrap_sub_exact)
    have ad: "sqsh__map_reader_advance co bo mr1 0 (upper - start) = (rv, mr)"
      using eq i True I1 s w ns by (simp add: sqsh__map_reader_all_def Let_def)
    show ?thesis
      using map_reader_advance_correct [OF bo ok sup sz ad] I1 s
        map_reader_advance_live [OF bo ok _ sup _ _ ad] I by auto
  qed
qed

section \<open>Superblock\<close>

text \<open>The checks of a superblock, on the bytes of the archive.\<close>

definition superblock_check :: "byte list \<Rightarrow> rv" where
  "superblock_check a =
     (if length a < 96 then Err SQSH_ERROR_SUPERBLOCK_TOO_SMALL
      else if sqsh__data_superblock_magic a \<noteq> SQSH_SUPERBLOCK_MAGIC
      then Err SQSH_ERROR_WRONG_MAGIC
      else if sqsh__data_superblock_block_log a \<notin> {12..20} \<or>
              sqsh__data_superblock_block_size a \<noteq> 2 ^ sqsh__data_superblock_block_log a
      then Err SQSH_ERROR_BLOCKSIZE_MISMATCH
      else if length a < sqsh__data_superblock_bytes_used a then Err SQSH_ERROR_SIZE_MISMATCH
      else Ok)"

lemma get_le_window [simp]: "off + n \<le> m \<Longrightarrow> get_le n off (window 0 m xs) = get_le n off xs"
  by (simp add: window_def)

lemma superblock_init_correct:
  assumes bo: "cx_buffer_ok (env_buf env)" and m: "manager_ok (env_maps env) se src m"
    and eq: "sqsh__superblock_init env m = (rv, sb)"
  shows "safe_rv rv \<and>
    (rv = Ok \<longrightarrow> superblock_check (archive_bytes src m) = Ok \<and>
      get_header env sb = window 0 96 (archive_bytes src m)) \<and>
    (cache_total (env_maps env) \<and> live_memory_mapper (mp_impl (mm_mapper m)) src \<and>
      cx_buffer_total (env_buf env) \<longrightarrow> rv = superblock_check (archive_bytes src m))"
proof -
  have sh: "manager_shape src m" using m by (simp add: manager_ok_def)
  let ?A = "archive_bytes src m"
  note len = manager_size(2) [OF sh]
  show ?thesis
  proof (cases "length ?A < 96")
    case True
    then show ?thesis using eq len
      by (auto simp: sqsh__superblock_init_def Let_def sizeof_SqshDataSuperblock_def
          superblock_check_def)
  next
    case False
    obtain rv1 mr where ld: "andthen (sqsh__map_reader_init (env_maps env) (env_buf env) m 0 96
        (zero_map_reader env m)) (sqsh__map_reader_all (env_maps env) (env_buf env)) = (rv1, mr)"
      by fastforce
    have z: "(0::nat) \<le> 96" "(96::nat) < 2 ^ 64" by simp_all
    note L = map_reader_load_correct [OF bo m z ld, simplified]
    have e: "sqsh__superblock_init env m = andthen (rv1, mr) (\<lambda>sb.
        let header = get_header env sb;
            block_size = sqsh__data_superblock_block_size header;
            block_log = sqsh__data_superblock_block_log header
        in if sqsh__data_superblock_magic header \<noteq> SQSH_SUPERBLOCK_MAGIC
           then (Err SQSH_ERROR_WRONG_MAGIC, sb)
           else if block_log < 12 \<or> 20 < block_log then (Err SQSH_ERROR_BLOCKSIZE_MISMATCH, sb)
           else if block_size \<noteq> push_bit block_log 1 then (Err SQSH_ERROR_BLOCKSIZE_MISMATCH, sb)
           else if sqsh__map_manager_size m < sqsh__data_superblock_bytes_used header
           then (Err SQSH_ERROR_SIZE_MISMATCH, sb) else (Ok, sb))"
      using False len
      by (simp add: sqsh__superblock_init_def Let_def sizeof_SqshDataSuperblock_def ld [symmetric]
          andthen_assoc)
    show ?thesis
    proof (cases "rv1 = Ok")
      case False
      then have "rv = rv1" using eq e by simp
      then show ?thesis using L False \<open>\<not> length ?A < 96\<close> by auto
    next
      case True
      have h: "get_header env mr = window 0 96 ?A" using L True by (simp add: get_header_def)
      then have "sqsh__data_superblock_magic (get_header env mr) = sqsh__data_superblock_magic ?A"
        "sqsh__data_superblock_block_size (get_header env mr) = sqsh__data_superblock_block_size ?A"
        "sqsh__data_superblock_block_log (get_header env mr) = sqsh__data_superblock_block_log ?A"
        "sqsh__data_superblock_bytes_used (get_header env mr) = sqsh__data_superblock_bytes_used ?A"
        by (simp_all add: superblock_get_defs window_at_0)
      then have "rv = superblock_check ?A" "rv = Ok \<Longrightarrow> sb = mr" "safe_rv rv"
        using eq e True False len
        by (auto simp: superblock_check_def Let_def push_bit_eq_mult split: if_splits)
      then show ?thesis using h by auto
    qed
  qed
qed

section \<open>An archive in working order\<close>

text \<open>
  The managers of the archive satisfy their invariants; the archive is shorter than \<open>2 ^ 52\<close>
  bytes, which keeps the decompressed length of every chain of metablocks below \<open>2 ^ 64\<close>.
\<close>

definition ar_bytes ::
  "('u \<Rightarrow> byte list) \<Rightarrow> ('u, 'c, 'b, 'e, 'x, 'h) sqsh_archive \<Rightarrow> byte list" where
  "ar_bytes src ar = archive_bytes src (ar_map_manager ar)"

definition ar_chain ::
  "('c, 'b, 'e) sqsh_env \<Rightarrow> ('u \<Rightarrow> byte list) \<Rightarrow> ('u, 'c, 'b, 'e, 'x, 'h) sqsh_archive \<Rightarrow> nat \<Rightarrow>
   byte list list" where
  "ar_chain env src ar = metablock_chain (env_buf env) (xm_impl (ar_metablock_manager ar)) (ar_bytes src ar)"

definition archive_ok ::
  "('c, 'b, 'e) sqsh_env \<Rightarrow> ((nat \<Rightarrow> map_slice \<Rightarrow> bool) \<Rightarrow> 'c \<Rightarrow> bool) \<Rightarrow>
   ((nat \<Rightarrow> 'b \<Rightarrow> bool) \<Rightarrow> 'e \<Rightarrow> bool) \<Rightarrow> ('u \<Rightarrow> byte list) \<Rightarrow>
   ('u, 'c, 'b, 'e, 'x, 'h) sqsh_archive \<Rightarrow> bool" where
  "archive_ok env se ee src ar \<longleftrightarrow> cx_buffer_ok (env_buf env) \<and>
     manager_ok (env_maps env) se src (ar_map_manager ar) \<and>
     extract_manager_ok (env_cache env) ee (metablock_entry (env_buf env)
       (xm_impl (ar_metablock_manager ar)) (ar_bytes src ar)) (ar_metablock_manager ar) \<and>
     xm_block_size (ar_metablock_manager ar) = 8192 \<and> length (ar_bytes src ar) < 2 ^ 52"

definition archive_live ::
  "('c, 'b, 'e) sqsh_env \<Rightarrow> ('u \<Rightarrow> byte list) \<Rightarrow> ('u, 'c, 'b, 'e, 'x, 'h) sqsh_archive \<Rightarrow> bool" where
  "archive_live env src ar \<longleftrightarrow> cache_total (env_maps env) \<and>
     live_memory_mapper (mp_impl (mm_mapper (ar_map_manager ar))) src \<and>
     cx_buffer_total (env_buf env) \<and> cache_total (env_cache env) \<and>
     (\<forall>a. a + 2 = length (ar_bytes src ar) \<longrightarrow>
       sqsh__data_metablock_size (window a 2 (ar_bytes src ar)) \<noteq> 0)"

lemma archive_reader_init:
  assumes ok: "archive_ok env se ee src ar" and st: "start < 2 ^ 64"
    and eq: "sqsh__metablock_reader_init env (ar_map_manager ar) (ar_metablock_manager ar) start
      upper r = (rv, r')"
  shows "safe_rv rv \<and>
    (rv = Ok \<longrightarrow> metablock_reader_at env se ee src (ar_chain env src ar) start r' 0 \<and>
      rd_iterator_offset r' = 0 \<and> sqsh__metablock_reader_size r' = 0) \<and>
    (archive_live env src ar \<and> start < length (ar_bytes src ar) \<longrightarrow>
      rv = Ok \<and> metablock_live env src (rd_iterator r'))"
  using metablock_reader_init_correct [OF _ _ _ _ _ st eq, of se src ee] ok
  by (simp add: archive_ok_def archive_live_def ar_bytes_def ar_chain_def)

section \<open>Table lookup\<close>

lemma sizeof_lookup_window:
  "8 * i + 8 \<le> n \<Longrightarrow> get_le 8 (8 * i) (window s n xs) = get_le 8 (s + 8 * i) xs"
  by (simp add: get_le_def window_window)

lemma table_init_correct:
  assumes bo: "cx_buffer_ok (env_buf env)" and m: "manager_ok (env_maps env) se src m"
    and st: "start < 2 ^ 64"
    and eq: "sqsh__table_init env m start es ec = (rv, t)"
  shows "safe_rv rv \<and>
    (rv = Ok \<longrightarrow> tb_element_size t = es \<and> tb_element_count t = ec \<and> es * ec < 2 ^ 64 \<and>
      sqsh__map_reader_size (tb_lookup_table t) = 8 * divide_ceil (es * ec) 8192 \<and>
      sqsh__map_reader_data (env_maps env) (env_buf env) (tb_lookup_table t)
        = window start (8 * divide_ceil (es * ec) 8192) (archive_bytes src m) \<and>
      start + 8 * divide_ceil (es * ec) 8192 \<le> length (archive_bytes src m)) \<and>
    (cache_total (env_maps env) \<and> live_memory_mapper (mp_impl (mm_mapper m)) src \<and>
      cx_buffer_total (env_buf env) \<and> es * ec < 2 ^ 64 \<and> start < length (archive_bytes src m) \<and>
      start + 8 * divide_ceil (es * ec) 8192 \<le> length (archive_bytes src m) \<longrightarrow> rv = Ok)"
proof -
  let ?n = "8 * divide_ceil (es * ec) 8192" and ?A = "archive_bytes src m"
  have sh: "manager_shape src m" using m by (simp add: manager_ok_def)
  have A64: "length ?A < 2 ^ 64" using manager_size(2,3) [OF sh] by simp
  show ?thesis
  proof (cases "es * ec < 2 ^ 64 \<and> start + ?n < 2 ^ 64")
    case False
    have "\<exists>e. rv = Err e"
    proof (cases "es * ec < 2 ^ 64")
      case True
      then have big: "2 ^ 64 \<le> start + ?n" using False by simp
      show ?thesis
      proof (cases "?n < 2 ^ 64")
        case True
        then show ?thesis using eq \<open>es * ec < 2 ^ 64\<close> big
          by (auto simp: sqsh__table_init_def Let_def mul_overflow_def add_overflow_def
              SQSH_METABLOCK_BLOCK_SIZE_def mult.commute)
      next
        case False
        then show ?thesis using eq \<open>es * ec < 2 ^ 64\<close>
          by (auto simp: sqsh__table_init_def Let_def mul_overflow_def
              SQSH_METABLOCK_BLOCK_SIZE_def mult.commute)
      qed
    next
      case False
      then show ?thesis using eq by (auto simp: sqsh__table_init_def Let_def mul_overflow_def)
    qed
    then show ?thesis using False A64 by auto
  next
    case True
    then have b: "es * ec < 2 ^ 64" "start + ?n < 2 ^ 64" by auto
    have ov: "mul_overflow 64 es ec = Some (es * ec)"
      "mul_overflow 64 (divide_ceil (es * ec) 8192) 8 = Some ?n"
      "add_overflow 64 start ?n = Some (start + ?n)" using b by (simp_all add: mult.commute)
    obtain rv1 mr1 where ld: "andthen (sqsh__map_reader_init (env_maps env) (env_buf env) m start
        (start + ?n) (zero_map_reader env m)) (sqsh__map_reader_all (env_maps env) (env_buf env))
        = (rv1, mr1)" by fastforce
    have st': "start \<le> start + ?n" by simp
    note L = map_reader_load_correct [OF bo m st' b(2) ld]
    obtain rv0 mr0 where i: "sqsh__map_reader_init (env_maps env) (env_buf env) m start
        (start + ?n) (zero_map_reader env m) = (rv0, mr0)" by fastforce
    have e: "rv = rv1" "rv1 = Ok \<Longrightarrow> t = \<lparr>tb_lookup_table = mr1, tb_element_size = es,
        tb_element_count = ec\<rparr>"
      using eq ld i by (cases "rv0 = Ok"; force simp: sqsh__table_init_def Let_def ov
          SQSH_METABLOCK_BLOCK_SIZE_def simp del: mul_overflow_Some add_overflow_Some
          split: prod.splits if_splits)+
    show ?thesis using L e b by auto
  qed
qed

lemma ar_chain_reaches_address:
  assumes "chain_reaches (ar_chain env src ar a) off" shows "a < length (ar_bytes src ar)"
proof -
  obtain n c where "metablock_parse (env_buf env) (xm_impl (ar_metablock_manager ar))
      (ar_bytes src ar) a = Some (n, c)"
    using assms chain_reaches_parse unfolding ar_chain_def by blast
  from metablock_parse_bounds [OF this] show ?thesis by simp
qed

lemma table_get_correct:
  assumes ok: "archive_ok env se ee src ar"
    and t: "tb_element_size t = es" "tb_element_count t = ec" "es * ec < 2 ^ 64"
      "sqsh__map_reader_size (tb_lookup_table t) = 8 * divide_ceil (es * ec) 8192"
      "sqsh__map_reader_data (env_maps env) (env_buf env) (tb_lookup_table t)
        = window start (8 * divide_ceil (es * ec) 8192) (ar_bytes src ar)"
      "start + 8 * divide_ceil (es * ec) 8192 \<le> length (ar_bytes src ar)"
    and es: "0 < es" and i: "i < ec"
    and a: "a = get_le 8 (start + 8 * (i * es div 8192)) (ar_bytes src ar)"
    and eq: "sqsh_table_get env ar t i = (rv, out)"
  shows "safe_rv rv \<and>
    (rv = Ok \<longrightarrow> length out = es) \<and>
    (chain_reaches (ar_chain env src ar a) (i * es mod 8192) \<longrightarrow>
      (rv = Ok \<longrightarrow> out = window (i * es mod 8192) es (concat (ar_chain env src ar a))) \<and>
      (archive_live env src ar \<and> a + 8192 < 2 ^ 64 \<and>
        i * es mod 8192 + es \<le> length (concat (ar_chain env src ar a)) \<longrightarrow> rv = Ok))"
proof -
  let ?A = "ar_bytes src ar" and ?b = "i * es"
  let ?cnt = "divide_ceil (es * ec) 8192" and ?li = "?b div 8192" and ?off = "?b mod 8192"
  have bo: "cx_buffer_ok (env_buf env)" using ok by (simp add: archive_ok_def)
  have be: "?b < es * ec" using i es by (simp add: mult.commute)
  have b64: "?b < 2 ^ 64" using be t(3) by linarith
  have e64: "es < 2 ^ 64"
  proof -
    have "es * 1 \<le> es * ec" using i by (intro mult_le_mono2) simp
    then show ?thesis using t(3) by linarith
  qed
  have li: "?li < ?cnt"
  proof (rule ccontr)
    assume "\<not> ?li < ?cnt"
    then have "es * ec \<le> 8192 * ?li" using divide_ceil_least [of 8192 "es * ec" ?li] by simp
    also have "\<dots> \<le> ?b" by simp
    finally show False using be by simp
  qed
  have lk: "lookup_table_get env t ?li = Some a"
    using t(5,6) li by (simp add: lookup_table_get_def Let_def a sizeof_lookup_window)
  have a64: "a < 2 ^ 64" using get_le_bound [of 8 _ ?A] by (simp add: a)
  have mo: "mul_overflow 64 i es = Some ?b" using b64 by simp
  have nl: "\<not> ?cnt \<le> ?li" using li by simp
  obtain rvi r0 where i0: "sqsh__metablock_reader_init env (ar_map_manager ar)
    (ar_metablock_manager ar) a (a + 8192) (zero_metablock_reader env (ar_map_manager ar)
      (ar_metablock_manager ar)) = (rvi, r0)" by fastforce
  note I = archive_reader_init [OF ok a64 i0]
  obtain rva r1 where ad: "sqsh__metablock_reader_advance env r0 ?off es = (rva, r1)" by fastforce
  have main: "(rv, out) = (if 2 ^ 64 \<le> a + 8192 then (Err SQSH_ERROR_INTEGER_OVERFLOW, [])
      else if rvi \<noteq> Ok then (rvi, []) else if rva \<noteq> Ok then (rva, [])
      else if length (sqsh__metablock_reader_data env r1) < es then (Fault, [])
      else (Ok, take es (sqsh__metablock_reader_data env r1)))"
    using eq i nl
    by (cases "2 ^ 64 \<le> a + 8192"; cases "rvi = Ok"; cases "rva = Ok")
      (simp_all add: sqsh_table_get_def Let_def SQSH_METABLOCK_BLOCK_SIZE_def add_overflow_def
        t(1,2,4) mo nl lk i0 ad cong: if_cong del: mul_overflow_Some)
  show ?thesis
  proof (cases "2 ^ 64 \<le> a + 8192 \<or> rvi \<noteq> Ok")
    case True
    show ?thesis using main I True ar_chain_reaches_address [of env src ar a ?off]
      by (auto split: if_splits)
  next
    case False
    then have r: "rvi = Ok" by simp
    have at: "metablock_reader_at env se ee src (ar_chain env src ar) a r0 0"
      and sup: "advance_supported r0 ?off es" using I r by (simp_all add: advance_supported_def)
    have sane: "metablock_reader_sane env se ee src r0"
      using at by (auto simp: metablock_reader_sane_def)
    note S = metablock_reader_advance_safe [OF sane sup e64 ad]
    have C: "(rva = Ok \<longrightarrow> sqsh__metablock_reader_data env r1
          = window ?off es (concat (ar_chain env src ar a))) \<and>
        (archive_live env src ar \<and> ?off + es \<le> length (concat (ar_chain env src ar a)) \<longrightarrow> rva = Ok)"
      if R: "chain_reaches (ar_chain env src ar a) ?off"
    proof -
      have R': "chain_reaches (ar_chain env src ar a) (0 + ?off)" using R by simp
      have "?off < length (concat (ar_chain env src ar a))" using R by (rule chain_reaches_bound)
      moreover have "a < length ?A" using R by (rule ar_chain_reaches_address)
      ultimately show ?thesis
        using metablock_reader_advance_correct [OF at sup e64 R' ad] I
        by (auto simp: archive_live_def)
    qed
    show ?thesis using main False S C by (auto split: if_splits)
  qed
qed

section \<open>A small archive\<close>

text \<open>
  A superblock of 96 bytes and a table of four-byte elements behind it: the metablock with the
  elements 7 and 9 at address 96, the lookup table at address 106.
\<close>

definition tiny_superblock :: "nat \<Rightarrow> byte list" where
  "tiny_superblock used = SQSH_SUPERBLOCK_MAGIC @ le_bytes 4 1 @ le_bytes 4 0 @ le_bytes 4 131072
     @ le_bytes 4 0 @ le_bytes 2 1 @ le_bytes 2 17 @ le_bytes 2 0 @ le_bytes 2 2 @ le_bytes 2 4
     @ le_bytes 2 0 @ le_bytes 8 0 @ le_bytes 8 used @ le_bytes 8 106 @ le_bytes 8 NO_SEGMENT
     @ le_bytes 8 96 @ le_bytes 8 96 @ le_bytes 8 NO_SEGMENT @ le_bytes 8 NO_SEGMENT"

definition tiny_archive_bytes :: "byte list" where
  "tiny_archive_bytes = tiny_superblock 116 @ le_bytes 2 (0x8000 + 8) @ le_bytes 4 7 @ le_bytes 4 9
     @ le_bytes 8 96 @ [1, 1]"

type_synonym tiny_archive =
  "(byte list, (nat \<times> map_slice) list, byte list, (nat \<times> byte list) list, byte list,
    (nat \<times> 64 word list) list) sqsh_archive"

definition tiny_sqsh :: "nat \<Rightarrow> byte list \<Rightarrow> tiny_archive" where
  "tiny_sqsh bs bytes = \<lparr>ar_config = zero_config, ar_map_manager = tiny_manager bs 0 bytes,
     ar_superblock = snd (sqsh__superblock_init tiny_env (tiny_manager bs 0 bytes)),
     ar_metablock_manager = tiny_extract_manager, ar_data_manager = None, ar_id_table = None,
     ar_export_table = None, ar_xattr_table = None, ar_fragment_table = None, ar_inode_map = None\<rparr>"

lemma tiny_sqsh_bytes:
  "length bytes < 2 ^ 64 \<Longrightarrow> ar_bytes (\<lambda>u. u) (tiny_sqsh bs bytes) = bytes"
  by (simp add: ar_bytes_def tiny_sqsh_def tiny_archive)

lemma tiny_sqsh_ok:
  assumes "0 < bs" "bs < 2 ^ 64" "length bytes < 2 ^ 52"
  shows "archive_ok tiny_env alist_entries alist_entries (\<lambda>u. u) (tiny_sqsh bs bytes)"
proof -
  have "length bytes < 2 ^ 64" using assms(3) by simp
  then show ?thesis using assms tiny_manager_ok [of bs 0 bytes] tiny_sqsh_bytes [of bytes bs]
    by (simp add: archive_ok_def) (simp add: tiny_sqsh_def)
qed

lemma tiny_sqsh_impl [simp]:
  "xm_impl (ar_metablock_manager (tiny_sqsh bs bytes)) = Some copy_codec"
  by (simp add: tiny_sqsh_def)

lemma tiny_archive_length: "length tiny_archive_bytes = 116"
  by (simp add: tiny_archive_bytes_def tiny_superblock_def SQSH_SUPERBLOCK_MAGIC_def)

section \<open>Properties\<close>

text \<open>
  C25. \<^verbatim>\<open>sqsh__superblock_init\<close> accepts exactly the archives whose first 96 bytes are a valid
  superblock (magic, a block size that is the power of two its logarithm says, between 4 KiB and
  1 MiB, and no more bytes used than the archive has) and answers every other one with the error
  code of the first check that fails; on success the superblock cursor shows those 96 bytes.
  Without memory it may fail with another error, but it accepts nothing else.
\<close>

theorem superblock_init_exact:
  assumes "cx_buffer_ok (env_buf env)" "manager_ok (env_maps env) se src m"
    and "sqsh__superblock_init env m = (rv, sb)"
  shows "safe_rv rv \<and>
    (rv = Ok \<longrightarrow> superblock_check (archive_bytes src m) = Ok \<and>
      get_header env sb = take 96 (archive_bytes src m) \<and>
      sqsh_superblock_block_log env sb \<in> {12..20} \<and>
      sqsh_superblock_block_size env sb = 2 ^ sqsh_superblock_block_log env sb \<and>
      sqsh_superblock_bytes_used env sb \<le> length (archive_bytes src m)) \<and>
    (cache_total (env_maps env) \<and> live_memory_mapper (mp_impl (mm_mapper m)) src \<and>
      cx_buffer_total (env_buf env) \<longrightarrow> rv = superblock_check (archive_bytes src m))"
proof -
  note S = superblock_init_correct [OF assms]
  let ?A = "archive_bytes src m"
  have "sqsh_superblock_block_log env sb \<in> {12..20} \<and>
      sqsh_superblock_block_size env sb = 2 ^ sqsh_superblock_block_log env sb \<and>
      sqsh_superblock_bytes_used env sb \<le> length ?A" if "rv = Ok"
  proof -
    have "sqsh_superblock_block_log env sb = sqsh__data_superblock_block_log ?A"
      "sqsh_superblock_block_size env sb = sqsh__data_superblock_block_size ?A"
      "sqsh_superblock_bytes_used env sb = sqsh__data_superblock_bytes_used ?A"
      using S that by (simp_all add: sqsh_superblock_block_log_def sqsh_superblock_block_size_def
          sqsh_superblock_bytes_used_def superblock_get_defs)
    moreover have "superblock_check ?A = Ok" using S that by simp
    ultimately show ?thesis by (auto simp: superblock_check_def split: if_splits)
  qed
  then show ?thesis using S by (simp add: window_at_0)
qed

theorem superblock_init_exact_witness:
  "fst (sqsh__superblock_init tiny_env (tiny_manager 64 0 tiny_archive_bytes)) = Ok"
proof -
  let ?m = "tiny_manager 64 0 tiny_archive_bytes"
  obtain rv sb where i: "sqsh__superblock_init tiny_env ?m = (rv, sb)" by fastforce
  have ok: "manager_ok (env_maps tiny_env) alist_entries (\<lambda>u. u) ?m"
    using tiny_manager_ok [of 64 0 tiny_archive_bytes] by (simp add: tiny_archive_length)
  have "superblock_check tiny_archive_bytes = Ok" by code_simp
  then show ?thesis using superblock_init_exact [OF _ ok i] i
    tiny_archive [of 0 tiny_archive_bytes 64] tiny_manager_live
    by (simp add: tiny_archive_length)
qed

text \<open>
  C26. Table lookup: for a table that \<^verbatim>\<open>sqsh__table_init\<close> loaded, \<^verbatim>\<open>sqsh_table_get\<close> of an index inside
  the table returns the element's bytes from the metablock that the lookup table names for its
  position, at its offset in that block; an index outside the table is refused; no lookup, on
  any archive, reads outside the memory it was given.
\<close>

theorem table_get_element:
  assumes "archive_ok env se ee src ar" "start < 2 ^ 64" "0 < es"
    and "sqsh__table_init env (ar_map_manager ar) start es ec = (Ok, t)"
    and "sqsh_table_get env ar t i = (rv, out)"
  shows "safe_rv rv \<and> (ec \<le> i \<longrightarrow> rv = Err SQSH_ERROR_OUT_OF_BOUNDS) \<and>
    (i < ec \<longrightarrow>
      (let block = i * es div 8192; off = i * es mod 8192;
           a = get_le 8 (start + 8 * block) (ar_bytes src ar); blocks = ar_chain env src ar a
       in chain_reaches blocks off \<longrightarrow> (rv = Ok \<longrightarrow> out = window off es (concat blocks)) \<and>
            (archive_live env src ar \<and> a + 8192 < 2 ^ 64 \<and> off + es \<le> length (concat blocks) \<longrightarrow>
              rv = Ok)))"
proof -
  have bo: "cx_buffer_ok (env_buf env)" and m: "manager_ok (env_maps env) se src (ar_map_manager ar)"
    using assms(1) by (simp_all add: archive_ok_def)
  note T = table_init_correct [OF bo m assms(2,4), simplified, folded ar_bytes_def]
  show ?thesis
  proof (cases "i < ec")
    case True
    have t: "tb_element_size t = es" "tb_element_count t = ec" "es * ec < 2 ^ 64"
      "sqsh__map_reader_size (tb_lookup_table t) = 8 * divide_ceil (es * ec) 8192"
      "sqsh__map_reader_data (env_maps env) (env_buf env) (tb_lookup_table t)
        = window start (8 * divide_ceil (es * ec) 8192) (ar_bytes src ar)"
      "start + 8 * divide_ceil (es * ec) 8192 \<le> length (ar_bytes src ar)"
      using T by auto
    from table_get_correct [OF assms(1) t assms(3) True refl assms(5)] True
    show ?thesis by (simp add: Let_def)
  next
    case False
    then have "rv = Err SQSH_ERROR_OUT_OF_BOUNDS"
      using assms(5) T by (simp add: sqsh_table_get_def Let_def)
    then show ?thesis using False by simp
  qed
qed

theorem table_get_element_witness:
  "\<exists>t. sqsh__table_init tiny_env (ar_map_manager (tiny_sqsh 128 tiny_archive_bytes)) 106 4 2 = (Ok, t) \<and>
    sqsh_table_get tiny_env (tiny_sqsh 128 tiny_archive_bytes) t 1 = (Ok, [9, 0, 0, 0])"
proof -
  let ?ar = "tiny_sqsh 128 tiny_archive_bytes"
  obtain rv t where i: "sqsh__table_init tiny_env (ar_map_manager ?ar) 106 4 2 = (rv, t)" by fastforce
  have "fst (sqsh__table_init tiny_env (ar_map_manager ?ar) 106 4 2) = Ok" by code_simp
  then have rv: "rv = Ok" using i by simp
  obtain rv' out where g: "sqsh_table_get tiny_env ?ar t 1 = (rv', out)" by fastforce
  have ok: "archive_ok tiny_env alist_entries alist_entries (\<lambda>u. u) ?ar"
    by (rule tiny_sqsh_ok) (simp_all add: tiny_archive_length)
  have byt: "ar_bytes (\<lambda>u. u) ?ar = tiny_archive_bytes"
    by (rule tiny_sqsh_bytes) (simp add: tiny_archive_length)
  have lk: "get_le 8 106 tiny_archive_bytes = 96" by code_simp
  have ch: "ar_chain tiny_env (\<lambda>u. u) ?ar 96 = [[7, 0, 0, 0, 9, 0, 0, 0]]"
  proof -
    have "metablock_chain list_buffer (Some copy_codec) tiny_archive_bytes 96
      = [[7, 0, 0, 0, 9, 0, 0, 0]]" by code_simp
    then show ?thesis by (simp add: ar_chain_def byt)
  qed
  have "archive_live tiny_env (\<lambda>u. u) ?ar"
  proof -
    have "sqsh__data_metablock_size (window 114 2 tiny_archive_bytes) = 257" by code_simp
    then have "sqsh__data_metablock_size (window a 2 tiny_archive_bytes) \<noteq> 0"
      if "a + 2 = 116" for a using that by simp
    moreover have "live_memory_mapper (mp_impl (mm_mapper (ar_map_manager ?ar))) (\<lambda>u. u)"
      using tiny_manager_live by (simp add: tiny_sqsh_def)
    ultimately show ?thesis by (simp add: archive_live_def byt tiny_archive_length)
  qed
  then have "rv' = Ok"
    using table_get_element [OF ok _ _ i [unfolded rv] g] lk ch by (simp add: byt Let_def)
  moreover have "rv' = Ok \<longrightarrow> out = [9, 0, 0, 0]"
    using table_get_element [OF ok _ _ i [unfolded rv] g] lk ch
    by (simp add: byt Let_def window_def)
  ultimately show ?thesis using i rv g by auto
qed

section \<open>What the code does not check\<close>

text \<open>
  A compression options block may be shorter than the options of its compression: the initialisation
  succeeds and an accessor reads behind the block.
\<close>

definition short_options :: "rv \<times> nat \<times> nat option" where
  "short_options =
     (case sqsh__compression_options_init tiny_env
             (tiny_sqsh 128 (tiny_superblock 99 @ le_bytes 2 (0x8000 + 1) @ [9])) of
        (rv, ctx) \<Rightarrow> (rv, sqsh_compression_options_size ctx,
                       sqsh_compression_options_gzip_window_size ctx))"

lemma compression_options_size_unchecked: "short_options = (Ok, 1, None)"
  by code_simp

end
