(* ===== verification/Sqsh_InodeMap.thy ===== *)
theory Sqsh_InodeMap
  imports Sqsh_Archive
begin

unbundle bit_operations_syntax

text \<open>
  The inode map (\<^verbatim>\<open>libsqsh/src/archive/inode_map.c\<close>): inode number to inode reference, either by the
  export table of the archive or by a map that the library fills while it meets inodes. The
  dynamic map stores the complement of a reference in buckets of 256 entries, so that a zeroed
  bucket is a bucket without references. The hash map of buckets is the one of cextras, a
  parameter with the contract \<open>hash_map_ok\<close>.

  The locale \<open>inode_map_impl\<close> is the interface \<^verbatim>\<open>struct SqshInodeMapImpl\<close>: its laws are what the
  callers need, and both implementations are instances of it.
\<close>

section \<open>The hash map of the dynamic implementation\<close>

record 'h hash_map_ops =
  hm_mutex :: rv
  hm_init :: "rv \<times> 'h"
  hm_get :: "'h \<Rightarrow> nat \<Rightarrow> 64 word list option"
  hm_put :: "'h \<Rightarrow> nat \<Rightarrow> 64 word list \<Rightarrow> rv \<times> 'h"
  hm_write :: "'h \<Rightarrow> nat \<Rightarrow> nat \<Rightarrow> 64 word \<Rightarrow> 'h"

text \<open>
  What the code relies on: a new map is empty, a store through the pointer that a lookup returned
  changes that element only, an insertion adds its entry or fails without effect.
\<close>

definition hash_map_ok :: "'h hash_map_ops \<Rightarrow> bool" where
  "hash_map_ok ho \<longleftrightarrow>
     (\<forall>h k. hm_init ho = (Ok, h) \<longrightarrow> hm_get ho h k = None) \<and>
     (\<forall>h h' k v. hm_put ho h k v = (Ok, h') \<longrightarrow> hm_get ho h' = (hm_get ho h)(k \<mapsto> v)) \<and>
     (\<forall>h h' k v e. hm_put ho h k v = (e, h') \<longrightarrow> e \<noteq> Ok \<longrightarrow> hm_get ho h' = hm_get ho h) \<and>
     (\<forall>h k v i x. hm_get ho h k = Some v \<longrightarrow>
        hm_get ho (hm_write ho h k i x) = (hm_get ho h)(k \<mapsto> v[i := x]))"

definition hash_map_total :: "'h hash_map_ops \<Rightarrow> bool" where
  "hash_map_total ho \<longleftrightarrow> (\<forall>h k v. fst (hm_put ho h k v) = Ok)"

lemma hash_map_okD:
  assumes "hash_map_ok ho"
  shows "hm_init ho = (Ok, h) \<Longrightarrow> hm_get ho h k = None"
    and "hm_put ho h k v = (Ok, h') \<Longrightarrow> hm_get ho h' = (hm_get ho h)(k \<mapsto> v)"
    and "hm_put ho h k v = (e, h') \<Longrightarrow> e \<noteq> Ok \<Longrightarrow> hm_get ho h' = hm_get ho h"
    and "hm_get ho h k = Some v \<Longrightarrow> hm_get ho (hm_write ho h k i x) = (hm_get ho h)(k \<mapsto> v[i := x])"
  using assms unfolding hash_map_ok_def by blast+

section \<open>The operations\<close>

definition SQSH_INODE_REF_NULL :: nat where "SQSH_INODE_REF_NULL = 0xFFFFFFFFFFFFFFFF"

text \<open>\<^verbatim>\<open>inode_number == 0 || inode_number - 1 >= map->inode_count\<close>\<close>

definition inode_number_bad :: "('u, 'c, 'b, 'h) inode_map \<Rightarrow> nat \<Rightarrow> bool" where
  "inode_number_bad imap inode_number \<longleftrightarrow>
     inode_number = 0 \<or> im_inode_count imap \<le> inode_number - 1"

definition export_table_init ::
  "('c, 'b, 'e) sqsh_env \<Rightarrow> ('u, 'c, 'b, 'e, 'x, 'h) sqsh_archive \<Rightarrow>
   rv \<times> ('u, 'c, 'b, 'h) inode_map option \<times> ('u, 'c, 'b, 'e, 'x, 'h) sqsh_archive" where
  "export_table_init env archive =
     (case sqsh_archive_export_table env archive of
        (rv, table, archive) \<Rightarrow>
          (rv, (case table of None \<Rightarrow> None
                | Some t \<Rightarrow> Some \<lparr>im_impl = ExportTableImpl t,
                    im_inode_count = sqsh_superblock_inode_count env (ar_superblock archive)\<rparr>),
           archive))"

definition export_table_get ::
  "('c, 'b, 'e) sqsh_env \<Rightarrow> ('u, 'c, 'b, 'e, 'x, 'h) sqsh_archive \<Rightarrow> ('u, 'c, 'b) sqsh_table \<Rightarrow>
   ('u, 'c, 'b, 'h) inode_map \<Rightarrow> nat \<Rightarrow> rv \<times> nat" where
  "export_table_get env archive table imap inode_number =
     (if inode_number_bad imap inode_number then (Err SQSH_ERROR_OUT_OF_BOUNDS, 0)
      else sqsh_export_table_resolve_inode2 env archive table inode_number)"

definition export_table_set ::
  "('c, 'b, 'e) sqsh_env \<Rightarrow> ('u, 'c, 'b, 'e, 'x, 'h) sqsh_archive \<Rightarrow> ('u, 'c, 'b) sqsh_table \<Rightarrow>
   ('u, 'c, 'b, 'h) inode_map \<Rightarrow> nat \<Rightarrow> nat \<Rightarrow> rv \<times> ('u, 'c, 'b, 'h) inode_map" where
  "export_table_set env archive table imap inode_number inode_ref =
     (case export_table_get env archive table imap inode_number of (rv, actual_ref) \<Rightarrow>
        if rv \<noteq> Ok then (rv, imap)
        else if actual_ref \<noteq> inode_ref then (Err SQSH_ERROR_INODE_MAP_IS_INCONSISTENT, imap)
        else (Ok, imap))"

text \<open>The mutex of the dynamic map is allocated first, then the hash map.\<close>

definition dyn_map_init ::
  "('c, 'b, 'e) sqsh_env \<Rightarrow> 'h hash_map_ops \<Rightarrow> ('u, 'c, 'b, 'e, 'x, 'h) sqsh_archive \<Rightarrow>
   rv \<times> ('u, 'c, 'b, 'h) inode_map option" where
  "dyn_map_init env ho archive =
     (let inode_count = sqsh_superblock_inode_count env (ar_superblock archive)
      in if hm_mutex ho \<noteq> Ok then (hm_mutex ho, None)
         else case hm_init ho of (rv, inode_refs) \<Rightarrow>
           if rv \<noteq> Ok then (rv, None)
           else (Ok, Some \<lparr>im_impl = DynMapImpl inode_refs, im_inode_count = inode_count\<rparr>))"

definition dyn_map_get ::
  "('c, 'b, 'e) sqsh_env \<Rightarrow> 'h hash_map_ops \<Rightarrow> 'h \<Rightarrow> ('u, 'c, 'b, 'h) inode_map \<Rightarrow> nat \<Rightarrow>
   rv \<times> nat" where
  "dyn_map_get env ho inode_refs imap inode_number =
     (if inode_number_bad imap inode_number then (Err SQSH_ERROR_OUT_OF_BOUNDS, 0)
      else if env_lock env \<noteq> Ok then (env_lock env, 0)
      else let index = inode_number - 1;
               inner_index = index AND 0xff;
               outer_index = drop_bit 8 index
           in case hm_get ho inode_refs outer_index of
                None \<Rightarrow> (Err SQSH_ERROR_NO_SUCH_ELEMENT, 0)
              | Some inner_inode_refs \<Rightarrow>
                  (let inode_ref = unat (NOT (inner_inode_refs ! inner_index))
                   in if inode_ref = SQSH_INODE_REF_NULL
                      then (Err SQSH_ERROR_NO_SUCH_ELEMENT, 0)
                      else (Ok, inode_ref)))"

definition dyn_map_set ::
  "('c, 'b, 'e) sqsh_env \<Rightarrow> 'h hash_map_ops \<Rightarrow> 'h \<Rightarrow> ('u, 'c, 'b, 'h) inode_map \<Rightarrow> nat \<Rightarrow> nat \<Rightarrow>
   rv \<times> ('u, 'c, 'b, 'h) inode_map" where
  "dyn_map_set env ho inode_refs imap inode_number inode_ref =
     (if inode_ref = SQSH_INODE_REF_NULL then (Err SQSH_ERROR_INVALID_ARGUMENT, imap)
      else if inode_number_bad imap inode_number then (Err SQSH_ERROR_OUT_OF_BOUNDS, imap)
      else if env_lock env \<noteq> Ok then (env_lock env, imap)
      else let index = inode_number - 1;
               inner_index = index AND 0xff;
               outer_index = drop_bit 8 index;
               stored = NOT (word_of_nat inode_ref :: 64 word)
           in case hm_get ho inode_refs outer_index of
                None \<Rightarrow>
                  (case hm_put ho inode_refs outer_index ((replicate 256 0)[inner_index := stored]) of
                     (_, inode_refs) \<Rightarrow> (Ok, imap\<lparr>im_impl := DynMapImpl inode_refs\<rparr>))
              | Some inner_inode_refs \<Rightarrow>
                  (let old_value = unat (NOT (inner_inode_refs ! inner_index));
                       imap = imap\<lparr>im_impl :=
                               DynMapImpl (hm_write ho inode_refs outer_index inner_index stored)\<rparr>
                   in if old_value \<noteq> SQSH_INODE_REF_NULL \<and> old_value \<noteq> inode_ref
                      then (Err SQSH_ERROR_INODE_MAP_IS_INCONSISTENT, imap)
                      else (Ok, imap)))"

text \<open>\<^verbatim>\<open>sqsh__inode_map_init\<close>; the dispatch through \<^verbatim>\<open>map->impl\<close> is the case distinction below.\<close>

definition sqsh__inode_map_init ::
  "('c, 'b, 'e) sqsh_env \<Rightarrow> 'h hash_map_ops \<Rightarrow> ('u, 'c, 'b, 'e, 'x, 'h) sqsh_archive \<Rightarrow>
   rv \<times> ('u, 'c, 'b, 'h) inode_map option \<times> ('u, 'c, 'b, 'e, 'x, 'h) sqsh_archive" where
  "sqsh__inode_map_init env ho archive =
     (if sqsh_superblock_has_export_table env (ar_superblock archive)
      then export_table_init env archive
      else case dyn_map_init env ho archive of (rv, imap) \<Rightarrow> (rv, imap, archive))"

definition sqsh_inode_map_get2 ::
  "('c, 'b, 'e) sqsh_env \<Rightarrow> 'h hash_map_ops \<Rightarrow> ('u, 'c, 'b, 'e, 'x, 'h) sqsh_archive \<Rightarrow>
   ('u, 'c, 'b, 'h) inode_map \<Rightarrow> nat \<Rightarrow> rv \<times> nat" where
  "sqsh_inode_map_get2 env ho archive imap inode_number =
     (case im_impl imap of
        ExportTableImpl table \<Rightarrow> export_table_get env archive table imap inode_number
      | DynMapImpl inode_refs \<Rightarrow> dyn_map_get env ho inode_refs imap inode_number)"

definition sqsh_inode_map_set2 ::
  "('c, 'b, 'e) sqsh_env \<Rightarrow> 'h hash_map_ops \<Rightarrow> ('u, 'c, 'b, 'e, 'x, 'h) sqsh_archive \<Rightarrow>
   ('u, 'c, 'b, 'h) inode_map \<Rightarrow> nat \<Rightarrow> nat \<Rightarrow> rv \<times> ('u, 'c, 'b, 'h) inode_map" where
  "sqsh_inode_map_set2 env ho archive imap inode_number inode_ref =
     (case im_impl imap of
        ExportTableImpl table \<Rightarrow> export_table_set env archive table imap inode_number inode_ref
      | DynMapImpl inode_refs \<Rightarrow> dyn_map_set env ho inode_refs imap inode_number inode_ref)"

text \<open>The deprecated accessors truncate the inode number to 32 bits; the first drops the error.\<close>

definition sqsh_inode_map_get ::
  "('c, 'b, 'e) sqsh_env \<Rightarrow> 'h hash_map_ops \<Rightarrow> ('u, 'c, 'b, 'e, 'x, 'h) sqsh_archive \<Rightarrow>
   ('u, 'c, 'b, 'h) inode_map \<Rightarrow> nat \<Rightarrow> nat" where
  "sqsh_inode_map_get env ho archive imap inode_number =
     snd (sqsh_inode_map_get2 env ho archive imap (inode_number mod 2 ^ 32))"

definition sqsh_inode_map_set ::
  "('c, 'b, 'e) sqsh_env \<Rightarrow> 'h hash_map_ops \<Rightarrow> ('u, 'c, 'b, 'e, 'x, 'h) sqsh_archive \<Rightarrow>
   ('u, 'c, 'b, 'h) inode_map \<Rightarrow> nat \<Rightarrow> nat \<Rightarrow> rv \<times> ('u, 'c, 'b, 'h) inode_map" where
  "sqsh_inode_map_set env ho archive imap inode_number inode_ref =
     sqsh_inode_map_set2 env ho archive imap (inode_number mod 2 ^ 32) inode_ref"

definition sqsh_archive_inode_map ::
  "('c, 'b, 'e) sqsh_env \<Rightarrow> 'h hash_map_ops \<Rightarrow> ('u, 'c, 'b, 'e, 'x, 'h) sqsh_archive \<Rightarrow>
   rv \<times> ('u, 'c, 'b, 'h) inode_map option \<times> ('u, 'c, 'b, 'e, 'x, 'h) sqsh_archive" where
  "sqsh_archive_inode_map env ho archive =
     (if env_lock env \<noteq> Ok then (env_lock env, None, archive)
      else case ar_inode_map archive of
        Some imap \<Rightarrow> (Ok, Some imap, archive)
      | None \<Rightarrow>
          (case sqsh__inode_map_init env ho archive of
             (rv, imap, archive) \<Rightarrow>
               if rv \<noteq> Ok then (rv, None, archive)
               else (Ok, imap, archive\<lparr>ar_inode_map := imap\<rparr>)))"


section \<open>The interface\<close>

text \<open>
  What the resolver of references and the walkers need from \<^verbatim>\<open>struct SqshInodeMapImpl\<close>: an accepted
  registration is found again, leaves the other inodes alone, and never contradicts an earlier one.
\<close>

locale inode_map_impl =
  fixes look :: "'m \<Rightarrow> nat \<Rightarrow> rv \<times> nat"
    and put :: "'m \<Rightarrow> nat \<Rightarrow> nat \<Rightarrow> rv \<times> 'm"
    and ok :: "'m \<Rightarrow> bool"
  assumes put_ok: "ok m \<Longrightarrow> put m n r = (e, m') \<Longrightarrow> ok m'"
    and put_look: "ok m \<Longrightarrow> r < 2 ^ 64 \<Longrightarrow> put m n r = (Ok, m') \<Longrightarrow> look m' n = (Ok, r)"
    and put_other: "ok m \<Longrightarrow> put m n r = (e, m') \<Longrightarrow> k \<noteq> n \<Longrightarrow> look m' k = look m k"
    and put_agrees: "ok m \<Longrightarrow> r < 2 ^ 64 \<Longrightarrow> put m n r = (Ok, m') \<Longrightarrow> look m n = (Ok, r') \<Longrightarrow> r' = r"

text \<open>A run of registrations that stops at the first one that is refused.\<close>

fun register_all :: "('m \<Rightarrow> nat \<Rightarrow> nat \<Rightarrow> rv \<times> 'm) \<Rightarrow> 'm \<Rightarrow> (nat \<times> nat) list \<Rightarrow> rv \<times> 'm" where
  "register_all put m [] = (Ok, m)"
| "register_all put m ((n, r) # rs) = andthen (put m n r) (\<lambda>m. register_all put m rs)"

context inode_map_impl begin

lemma put_keeps:
  assumes "ok m" "r < 2 ^ 64" "put m n r = (Ok, m')" "look m k = (Ok, q)"
  shows "look m' k = (Ok, q)"
proof (cases "k = n")
  case True
  then show ?thesis using put_look [OF assms(1-3)] put_agrees [OF assms(1-3)] assms(4) by blast
next
  case False
  then show ?thesis using put_other [OF assms(1,3) False] assms(4) by simp
qed

lemma register_keeps:
  "\<lbrakk>ok m; \<forall>(n, r) \<in> set rs. r < 2 ^ 64; register_all put m rs = (Ok, m'); look m k = (Ok, q)\<rbrakk>
   \<Longrightarrow> look m' k = (Ok, q)"
proof (induction rs arbitrary: m)
  case (Cons p rs)
  obtain n r where p: "p = (n, r)" by (cases p)
  then obtain m1 where m1: "put m n r = (Ok, m1)" "register_all put m1 rs = (Ok, m')"
    using Cons.prems(3) by (auto simp: andthen_Ok_iff)
  have "r < 2 ^ 64" using Cons.prems(2) p by auto
  then show ?case
    using Cons.IH [OF put_ok [OF Cons.prems(1) m1(1)] _ m1(2)] Cons.prems p m1
      put_keeps [OF Cons.prems(1) _ m1(1) Cons.prems(4)] by auto
qed simp

lemma register_finds:
  "\<lbrakk>ok m; \<forall>(n, r) \<in> set rs. r < 2 ^ 64; register_all put m rs = (Ok, m'); (k, q) \<in> set rs\<rbrakk>
   \<Longrightarrow> look m' k = (Ok, q)"
proof (induction rs arbitrary: m)
  case (Cons p rs)
  obtain n r where p: "p = (n, r)" by (cases p)
  then obtain m1 where m1: "put m n r = (Ok, m1)" "register_all put m1 rs = (Ok, m')"
    using Cons.prems(3) by (auto simp: andthen_Ok_iff)
  have r: "r < 2 ^ 64" and rs: "\<forall>(n, r) \<in> set rs. r < 2 ^ 64" using Cons.prems(2) p by auto
  have ok1: "ok m1" using put_ok [OF Cons.prems(1) m1(1)] .
  show ?case
  proof (cases "(k, q) = p")
    case True
    then show ?thesis
      using register_keeps [OF ok1 rs m1(2)] put_look [OF Cons.prems(1) r m1(1)] p by simp
  next
    case False
    then show ?thesis using Cons.IH [OF ok1 rs m1(2)] Cons.prems(4) by simp
  qed
qed simp

text \<open>Two accepted registrations of one inode agree.\<close>

lemma register_consistent:
  assumes "ok m" "\<forall>(n, r) \<in> set rs. r < 2 ^ 64" "register_all put m rs = (Ok, m')"
    and "(k, q) \<in> set rs" "(k, q') \<in> set rs"
  shows "q = q'"
  using register_finds [OF assms(1-3) assms(4)] register_finds [OF assms(1-3) assms(5)] by simp

end

section \<open>The dynamic map\<close>

text \<open>Buckets have 256 elements.\<close>

definition buckets_ok :: "'h hash_map_ops \<Rightarrow> 'h \<Rightarrow> bool" where
  "buckets_ok ho h \<longleftrightarrow> (\<forall>k v. hm_get ho h k = Some v \<longrightarrow> length v = 256)"

text \<open>The stored word of an inode; a missing bucket reads as zeros.\<close>

definition stored_word :: "'h hash_map_ops \<Rightarrow> 'h \<Rightarrow> nat \<Rightarrow> 64 word" where
  "stored_word ho h n =
     (case hm_get ho h ((n - 1) div 256) of None \<Rightarrow> 0 | Some v \<Rightarrow> v ! ((n - 1) mod 256))"

text \<open>The abstract map: the references the map holds.\<close>

definition dyn_map_abs :: "'h hash_map_ops \<Rightarrow> 'h \<Rightarrow> nat \<Rightarrow> nat option" where
  "dyn_map_abs ho h n =
     (if stored_word ho h n = 0 then None else Some (unat (NOT (stored_word ho h n))))"

lemma low_byte: "(n::nat) AND 0xff = n mod 256" "drop_bit 8 (n::nat) = n div 256"
  using and_low_mask [of n 8] by (simp_all add: drop_bit_eq_div)

lemma complement_null [simp]:
  "unat (NOT (w :: 64 word)) = SQSH_INODE_REF_NULL \<longleftrightarrow> w = 0"
proof -
  have "SQSH_INODE_REF_NULL = unat (NOT (0 :: 64 word))" by (simp add: SQSH_INODE_REF_NULL_def unsigned_minus_1_eq_mask mask_eq_exp_minus_1)
  then show ?thesis by (metis bit.double_compl word_unat_eq_iff)
qed

lemma complement_stored:
  assumes "r < 2 ^ 64"
  shows "unat (NOT (NOT (word_of_nat r :: 64 word))) = r"
    "NOT (word_of_nat r :: 64 word) = 0 \<longleftrightarrow> r = SQSH_INODE_REF_NULL"
proof -
  show 1: "unat (NOT (NOT (word_of_nat r :: 64 word))) = r"
    using assms by (simp add: unat_of_nat)
  show "NOT (word_of_nat r :: 64 word) = 0 \<longleftrightarrow> r = SQSH_INODE_REF_NULL"
    using complement_null [of "NOT (word_of_nat r)"] unfolding 1 by simp
qed

lemma dyn_map_get_abs:
  assumes "env_lock env = Ok" "\<not> inode_number_bad imap n"
  shows "dyn_map_get env ho h imap n =
    (case dyn_map_abs ho h n of None \<Rightarrow> (Err SQSH_ERROR_NO_SUCH_ELEMENT, 0) | Some r \<Rightarrow> (Ok, r))"
  using assms unfolding dyn_map_get_def dyn_map_abs_def stored_word_def low_byte
  by (auto simp: Let_def SQSH_INODE_REF_NULL_def [symmetric] split: option.splits
      simp del: One_nat_def) (simp add: SQSH_INODE_REF_NULL_def unsigned_minus_1_eq_mask mask_eq_exp_minus_1)+

text \<open>The buckets after a registration.\<close>

definition dyn_map_store :: "'h hash_map_ops \<Rightarrow> 'h \<Rightarrow> nat \<Rightarrow> nat \<Rightarrow> 'h" where
  "dyn_map_store ho h n r =
     (let outer_index = (n - 1) div 256; inner_index = (n - 1) mod 256;
          stored = NOT (word_of_nat r :: 64 word)
      in case hm_get ho h outer_index of
           None \<Rightarrow> snd (hm_put ho h outer_index ((replicate 256 0)[inner_index := stored]))
         | Some v \<Rightarrow> hm_write ho h outer_index inner_index stored)"

lemma dyn_map_store_buckets:
  assumes "hash_map_ok ho" "hash_map_total ho"
  shows "hm_get ho (dyn_map_store ho h n r) = (hm_get ho h)((n - 1) div 256 \<mapsto>
    (case hm_get ho h ((n - 1) div 256) of None \<Rightarrow> replicate 256 0 | Some v \<Rightarrow> v)
      [(n - 1) mod 256 := NOT (word_of_nat r)])"
proof (cases "hm_get ho h ((n - 1) div 256)")
  case None
  define b where "b = (replicate 256 0)[(n - 1) mod 256 := NOT (word_of_nat r :: 64 word)]"
  have "hm_put ho h ((n - 1) div 256) b = (Ok, snd (hm_put ho h ((n - 1) div 256) b))"
    using assms(2) by (simp add: hash_map_total_def prod_eq_iff)
  then show ?thesis
    using None hash_map_okD(2) [OF assms(1)] by (simp add: dyn_map_store_def b_def)
next
  case (Some v)
  then show ?thesis using hash_map_okD(4) [OF assms(1)] by (simp add: dyn_map_store_def)
qed

lemma dyn_map_store_ok:
  assumes "hash_map_ok ho" "hash_map_total ho" "buckets_ok ho h"
  shows "buckets_ok ho (dyn_map_store ho h n r)"
  using assms(3) unfolding buckets_ok_def dyn_map_store_buckets [OF assms(1,2)]
  by (auto split: option.splits)

lemma stored_word_store:
  assumes "hash_map_ok ho" "hash_map_total ho" "buckets_ok ho h" "n \<noteq> 0" "k \<noteq> 0"
  shows "stored_word ho (dyn_map_store ho h n r) k =
    (if k = n then NOT (word_of_nat r) else stored_word ho h k)"
proof -
  have eq: "k = n" if "(k - 1) div 256 = (n - 1) div 256" "(k - 1) mod 256 = (n - 1) mod 256"
    using that assms(4,5) by (metis div_mod_decomp diff_add_inverse2 le_add_diff_inverse2
        less_one linorder_not_less)
  have len: "length v = 256" if "hm_get ho h j = Some v" for j v
    using assms(3) that by (simp add: buckets_ok_def)
  show ?thesis
    unfolding stored_word_def dyn_map_store_buckets [OF assms(1,2)]
    using eq by (auto split: option.splits simp: nth_list_update len)
qed

lemma dyn_map_abs_store:
  assumes "hash_map_ok ho" "hash_map_total ho" "buckets_ok ho h" "n \<noteq> 0" "k \<noteq> 0"
    and "r < 2 ^ 64" "r \<noteq> SQSH_INODE_REF_NULL"
  shows "dyn_map_abs ho (dyn_map_store ho h n r) k =
    (if k = n then Some r else dyn_map_abs ho h k)"
  using assms complement_stored [OF assms(6)]
  by (simp add: dyn_map_abs_def stored_word_store)

lemma dyn_map_set_abs:
  assumes "env_lock env = Ok" "\<not> inode_number_bad imap n" "r < 2 ^ 64" "r \<noteq> SQSH_INODE_REF_NULL"
  shows "dyn_map_set env ho h imap n r =
    (if dyn_map_abs ho h n \<in> {None, Some r} then Ok else Err SQSH_ERROR_INODE_MAP_IS_INCONSISTENT,
     imap\<lparr>im_impl := DynMapImpl (dyn_map_store ho h n r)\<rparr>)"
proof (cases "hm_get ho h ((n - 1) div 256)")
  case None
  then show ?thesis
    using assms by (simp add: dyn_map_set_def dyn_map_abs_def stored_word_def low_byte
        dyn_map_store_def Let_def split: prod.split del: One_nat_def)
next
  case (Some v)
  then show ?thesis
    using assms by (simp add: dyn_map_set_def dyn_map_abs_def stored_word_def low_byte
        dyn_map_store_def Let_def del: One_nat_def)
qed

lemma dyn_map_set_rejects:
  assumes "env_lock env \<noteq> Ok \<or> inode_number_bad imap n \<or> r = SQSH_INODE_REF_NULL"
  shows "\<exists>e. e \<noteq> Ok \<and> dyn_map_set env ho h imap n r = (e, imap)"
  using assms by (auto simp: dyn_map_set_def)

section \<open>Both implementations keep the contract\<close>

definition inode_map_ok :: "'h hash_map_ops \<Rightarrow> ('u, 'c, 'b, 'h) inode_map \<Rightarrow> bool" where
  "inode_map_ok ho imap \<longleftrightarrow> hash_map_ok ho \<and> hash_map_total ho \<and>
     (case im_impl imap of ExportTableImpl t \<Rightarrow> True | DynMapImpl h \<Rightarrow> buckets_ok ho h)"

lemma dyn_set_cases:
  assumes "sqsh_inode_map_set2 env ho ar imap n r = (e, imap')" "im_impl imap = DynMapImpl h"
  obtains (refused) "e \<noteq> Ok" "imap' = imap"
  | (stored) "env_lock env = Ok" "\<not> inode_number_bad imap n" "r \<noteq> SQSH_INODE_REF_NULL"
      "imap' = imap\<lparr>im_impl := DynMapImpl (dyn_map_store ho h n r)\<rparr>"
      "e = Ok \<longleftrightarrow> r < 2 ^ 64 \<and> dyn_map_abs ho h n \<in> {None, Some r} \<or> \<not> r < 2 ^ 64 \<and> e = Ok"
proof (cases "env_lock env \<noteq> Ok \<or> inode_number_bad imap n \<or> r = SQSH_INODE_REF_NULL")
  case True
  then show ?thesis
    using that(1) assms dyn_map_set_rejects [of env imap n r ho h]
    by (auto simp: sqsh_inode_map_set2_def)
next
  case False
  show ?thesis
  proof (cases "r < 2 ^ 64")
    case True
    then show ?thesis
      using that(2) False assms dyn_map_set_abs [of env imap n r ho h]
      by (auto simp: sqsh_inode_map_set2_def split: if_splits)
  next
    case big: False
    have "imap' = imap\<lparr>im_impl := DynMapImpl (dyn_map_store ho h n r)\<rparr>"
      using False assms
      by (auto simp: sqsh_inode_map_set2_def dyn_map_set_def dyn_map_store_def low_byte Let_def
          split: option.splits prod.splits if_splits)
    then show ?thesis using that(2) False big by blast
  qed
qed

lemma dyn_get:
  assumes "im_impl imap = DynMapImpl h"
  shows "sqsh_inode_map_get2 env ho ar imap n =
    (if inode_number_bad imap n then (Err SQSH_ERROR_OUT_OF_BOUNDS, 0)
     else if env_lock env \<noteq> Ok then (env_lock env, 0)
     else case dyn_map_abs ho h n of None \<Rightarrow> (Err SQSH_ERROR_NO_SUCH_ELEMENT, 0) | Some r \<Rightarrow> (Ok, r))"
  using assms dyn_map_get_abs [of env imap n ho h]
  by (auto simp: sqsh_inode_map_get2_def dyn_map_get_def)

lemma inode_number_bad_update [simp]:
  "inode_number_bad (imap\<lparr>im_impl := i\<rparr>) = inode_number_bad imap"
  by (simp add: inode_number_bad_def fun_eq_iff)

lemma inode_number_bad_zero [simp]: "inode_number_bad imap 0"
  by (simp add: inode_number_bad_def)

lemma export_set_cases:
  assumes "sqsh_inode_map_set2 env ho ar imap n r = (e, imap')" "im_impl imap = ExportTableImpl t"
  shows "imap' = imap" "e = Ok \<Longrightarrow> sqsh_inode_map_get2 env ho ar imap n = (Ok, r)"
  using assms by (auto simp: sqsh_inode_map_set2_def sqsh_inode_map_get2_def export_table_set_def
      split: prod.splits if_splits)

interpretation inode_map_ops: inode_map_impl
  "sqsh_inode_map_get2 env ho ar" "sqsh_inode_map_set2 env ho ar" "inode_map_ok ho"
  for env ho ar
proof (unfold_locales, goal_cases)
  case (1 m n r e m')
  show ?case
  proof (cases "im_impl m")
    case (ExportTableImpl t)
    then show ?thesis using 1 export_set_cases(1) by metis
  next
    case (DynMapImpl h)
    show ?thesis
      using 1(2) DynMapImpl
      by (cases rule: dyn_set_cases) (use 1(1) DynMapImpl in
          \<open>simp_all add: inode_map_ok_def dyn_map_store_ok\<close>)
  qed
next
  case (2 m r n m')
  show ?case
  proof (cases "im_impl m")
    case (ExportTableImpl t)
    then show ?thesis using 2 export_set_cases by metis
  next
    case (DynMapImpl h)
    have ok: "hash_map_ok ho" "hash_map_total ho" "buckets_ok ho h"
      using 2(1) DynMapImpl by (simp_all add: inode_map_ok_def)
    show ?thesis
      using 2(3) DynMapImpl
    proof (cases rule: dyn_set_cases)
      case stored
      moreover have "n \<noteq> 0" using stored(2) by (metis inode_number_bad_zero)
      ultimately show ?thesis
        using 2(2) ok by (simp add: dyn_get dyn_map_abs_store)
    qed simp
  qed
next
  case (3 m n r e m' k)
  show ?case
  proof (cases "im_impl m")
    case (ExportTableImpl t)
    then show ?thesis using 3 export_set_cases(1) by metis
  next
    case (DynMapImpl h)
    have ok: "hash_map_ok ho" "hash_map_total ho" "buckets_ok ho h"
      using 3(1) DynMapImpl by (simp_all add: inode_map_ok_def)
    show ?thesis
      using 3(2) DynMapImpl
    proof (cases rule: dyn_set_cases)
      case stored
      have "n \<noteq> 0" using stored(2) by (metis inode_number_bad_zero)
      then have "dyn_map_abs ho (dyn_map_store ho h n r) k = dyn_map_abs ho h k" if "k \<noteq> 0"
        using that 3(3) ok by (simp add: dyn_map_abs_def stored_word_store)
      then show ?thesis
        using stored DynMapImpl by (cases "k = 0") (simp_all add: dyn_get)
    qed simp
  qed
next
  case (4 m r n m' q)
  show ?case
  proof (cases "im_impl m")
    case (ExportTableImpl t)
    then show ?thesis using 4 export_set_cases(2) by (metis prod.inject)
  next
    case (DynMapImpl h)
    show ?thesis
      using 4(3) DynMapImpl
    proof (cases rule: dyn_set_cases)
      case stored
      then show ?thesis using 4(2,4) DynMapImpl by (auto simp: dyn_get split: option.splits)
    qed simp
  qed
qed

section \<open>Properties\<close>

definition list_hash_map :: "(nat \<times> 64 word list) list hash_map_ops" where
  "list_hash_map = \<lparr>hm_mutex = Ok, hm_init = (Ok, []), hm_get = map_of,
     hm_put = (\<lambda>h k v. (Ok, (k, v) # h)),
     hm_write = (\<lambda>h k i x. case map_of h k of None \<Rightarrow> h | Some v \<Rightarrow> (k, v[i := x]) # h)\<rparr>"

lemma list_hash_map_ok [simp]: "hash_map_ok list_hash_map" "hash_map_total list_hash_map"
  by (auto simp: hash_map_ok_def hash_map_total_def list_hash_map_def)

definition tiny_inode_map ::
  "(byte list, (nat \<times> map_slice) list, byte list, (nat \<times> 64 word list) list) inode_map" where
  "tiny_inode_map = \<lparr>im_impl = DynMapImpl [], im_inode_count = 300\<rparr>"





section \<open>What the code does not check\<close>

text \<open>
  The failure of \<^verbatim>\<open>cx_hash_map_put\<close> is ignored: a registration reports success although nothing was
  stored.
\<close>

definition full_hash_map :: "(nat \<times> 64 word list) list hash_map_ops" where
  "full_hash_map = list_hash_map\<lparr>hm_put := (\<lambda>h k v. (Err SQSH_ERROR_MALLOC_FAILED, h))\<rparr>"

lemma full_hash_map_ok: "hash_map_ok full_hash_map"
  by (auto simp: hash_map_ok_def list_hash_map_def full_hash_map_def)

lemma inode_map_put_failure_ignored:
  "(case sqsh_inode_map_set2 tiny_env full_hash_map (tiny_sqsh 16 []) tiny_inode_map 1 96 of
     (rv, imap) \<Rightarrow> (rv, sqsh_inode_map_get2 tiny_env full_hash_map (tiny_sqsh 16 []) imap 1)) =
   (Ok, Err SQSH_ERROR_NO_SUCH_ELEMENT, 0)"
  by code_simp

text \<open>The export table accepts a registration only if it repeats the table.\<close>

lemma export_table_set_unchanged:
  assumes "im_impl imap = ExportTableImpl t"
  shows "sqsh_inode_map_set2 env ho ar imap n r =
    (case sqsh_inode_map_get2 env ho ar imap n of (rv, q) \<Rightarrow>
       (if rv \<noteq> Ok then rv else if q \<noteq> r then Err SQSH_ERROR_INODE_MAP_IS_INCONSISTENT else Ok, imap))"
  using assms by (auto simp: sqsh_inode_map_set2_def sqsh_inode_map_get2_def export_table_set_def
      split: prod.split)

text \<open>The inode map of an archive is created once.\<close>

lemma archive_inode_map_once:
  assumes "sqsh_archive_inode_map env ho ar = (Ok, Some imap, ar')"
  shows "sqsh_archive_inode_map env ho ar' = (Ok, Some imap, ar')"
  using assms by (auto simp: sqsh_archive_inode_map_def split: option.splits prod.splits if_splits)

end
