(* ===== verification/Sqsh_Inode.thy ===== *)
theory Sqsh_Inode
  imports Sqsh_InodeMap
begin

text \<open>
  The kinds of inodes (\<^verbatim>\<open>libsqsh/src/file/inode_*.c\<close>): every kind is a table of accessor
  functions, \<^verbatim>\<open>struct SqshInodeImpl\<close>, over the bytes of the inode.

  The function \<^verbatim>\<open>sqsh_file_is_extended\<close> compares the accessor of the xattr index with the one of
  inodes without attributes; function pointers being compared, that field is a datatype.
\<close>

definition SQSH_INODE_NO_FRAGMENT :: nat where "SQSH_INODE_NO_FRAGMENT = 0xFFFFFFFF"
definition SQSH_INODE_NO_XATTR :: nat where "SQSH_INODE_NO_XATTR = 0xFFFFFFFF"

datatype xattr_index_fn = NullXattrIndex | XattrIndex "byte list \<Rightarrow> nat"

record sqsh_inode_impl =
  ii_header_size :: nat
  ii_payload_size :: "byte list \<Rightarrow> nat \<Rightarrow> nat"
  ii_hard_link_count :: "byte list \<Rightarrow> nat"
  ii_size :: "byte list \<Rightarrow> nat"
  ii_blocks_start :: "byte list \<Rightarrow> nat"
  ii_block_size_info :: "byte list \<Rightarrow> nat \<Rightarrow> nat"
  ii_fragment_block_index :: "byte list \<Rightarrow> nat"
  ii_fragment_block_offset :: "byte list \<Rightarrow> nat"
  ii_directory_block_start :: "byte list \<Rightarrow> nat"
  ii_directory_block_offset :: "byte list \<Rightarrow> nat"
  ii_directory_parent_inode :: "byte list \<Rightarrow> nat"
  ii_symlink_target_path :: "byte list \<Rightarrow> byte list option"
  ii_symlink_target_size :: "byte list \<Rightarrow> nat"
  ii_device_id :: "byte list \<Rightarrow> nat"
  ii_xattr_index :: xattr_index_fn

section \<open>No such field (\<^verbatim>\<open>inode_null.c\<close>)\<close>

text \<open>The answers of an inode kind that lacks a field.\<close>

definition sqsh__file_inode_null_directory_block_start :: "byte list \<Rightarrow> nat" where
  "sqsh__file_inode_null_directory_block_start inode = UINT32_MAX"

definition sqsh__file_inode_null_directory_block_offset :: "byte list \<Rightarrow> nat" where
  "sqsh__file_inode_null_directory_block_offset inode = UINT16_MAX"

definition sqsh__file_inode_null_directory_parent_inode :: "byte list \<Rightarrow> nat" where
  "sqsh__file_inode_null_directory_parent_inode inode = UINT32_MAX"

definition sqsh__file_inode_null_blocks_start :: "byte list \<Rightarrow> nat" where
  "sqsh__file_inode_null_blocks_start inode = 0xFFFFFFFFFFFFFFFF"

definition sqsh__file_inode_null_block_size_info :: "byte list \<Rightarrow> nat \<Rightarrow> nat" where
  "sqsh__file_inode_null_block_size_info inode index = UINT32_MAX"

definition sqsh__file_inode_null_fragment_block_index :: "byte list \<Rightarrow> nat" where
  "sqsh__file_inode_null_fragment_block_index inode = UINT32_MAX"

definition sqsh__file_inode_null_fragment_block_offset :: "byte list \<Rightarrow> nat" where
  "sqsh__file_inode_null_fragment_block_offset inode = UINT32_MAX"

definition sqsh__file_inode_null_symlink_target_path :: "byte list \<Rightarrow> byte list option" where
  "sqsh__file_inode_null_symlink_target_path inode = None"

definition sqsh__file_inode_null_symlink_target_size :: "byte list \<Rightarrow> nat" where
  "sqsh__file_inode_null_symlink_target_size inode = 0"

definition sqsh__file_inode_null_device_id :: "byte list \<Rightarrow> nat" where
  "sqsh__file_inode_null_device_id inode = UINT32_MAX"

definition sqsh__file_inode_null_xattr_index :: "byte list \<Rightarrow> nat" where
  "sqsh__file_inode_null_xattr_index inode = SQSH_INODE_NO_XATTR"

section \<open>Regular files (\<^verbatim>\<open>inode_file.c\<close>)\<close>

text \<open>Of the archive the payload functions read the block log of the superblock only.\<close>

definition calc_block_count :: "nat \<Rightarrow> nat \<Rightarrow> nat \<Rightarrow> nat" where
  "calc_block_count block_log file_size fragment_index =
     sqsh__block_count file_size block_log (fragment_index \<noteq> SQSH_INODE_NO_FRAGMENT)"

definition inode_file_size :: "byte list \<Rightarrow> nat" where
  "inode_file_size inode = sqsh__data_inode_file_size (sqsh__data_inode_file inode)"

definition inode_file_fragment_block_index :: "byte list \<Rightarrow> nat" where
  "inode_file_fragment_block_index inode =
     sqsh__data_inode_file_fragment_block_index (sqsh__data_inode_file inode)"

definition inode_file_payload_size :: "byte list \<Rightarrow> nat \<Rightarrow> nat" where
  "inode_file_payload_size inode block_log =
     (case mul_overflow 64 (calc_block_count block_log (inode_file_size inode) (inode_file_fragment_block_index inode)) 4 of
        None \<Rightarrow> SIZE_MAX | Some result \<Rightarrow> result)"

definition inode_file_ext_size :: "byte list \<Rightarrow> nat" where
  "inode_file_ext_size inode = sqsh__data_inode_file_ext_size (sqsh__data_inode_file_ext inode)"

definition inode_file_ext_fragment_block_index :: "byte list \<Rightarrow> nat" where
  "inode_file_ext_fragment_block_index inode =
     sqsh__data_inode_file_ext_fragment_block_index (sqsh__data_inode_file_ext inode)"

definition inode_file_ext_payload_size :: "byte list \<Rightarrow> nat \<Rightarrow> nat" where
  "inode_file_ext_payload_size inode block_log =
     (case mul_overflow 64 (calc_block_count block_log (inode_file_ext_size inode) (inode_file_ext_fragment_block_index inode)) 4 of
        None \<Rightarrow> SIZE_MAX | Some result \<Rightarrow> result)"

definition inode_regular_hard_link_count :: "byte list \<Rightarrow> nat" where
  "inode_regular_hard_link_count inode = 1"

definition inode_regular_ext_hard_link_count :: "byte list \<Rightarrow> nat" where
  "inode_regular_ext_hard_link_count inode =
     sqsh__data_inode_file_ext_hard_link_count (sqsh__data_inode_file_ext inode)"

definition inode_file_blocks_start :: "byte list \<Rightarrow> nat" where
  "inode_file_blocks_start inode =
     sqsh__data_inode_file_blocks_start (sqsh__data_inode_file inode)"

definition inode_file_ext_blocks_start :: "byte list \<Rightarrow> nat" where
  "inode_file_ext_blocks_start inode =
     sqsh__data_inode_file_ext_blocks_start (sqsh__data_inode_file_ext inode)"

definition inode_file_block_size_info :: "byte list \<Rightarrow> nat \<Rightarrow> nat" where
  "inode_file_block_size_info inode index =
     sqsh__data_inode_file_block_size_info (sqsh__data_inode_file inode) index"

definition inode_file_ext_block_size_info :: "byte list \<Rightarrow> nat \<Rightarrow> nat" where
  "inode_file_ext_block_size_info inode index =
     sqsh__data_inode_file_ext_block_size_info (sqsh__data_inode_file_ext inode) index"

definition inode_file_fragment_block_offset :: "byte list \<Rightarrow> nat" where
  "inode_file_fragment_block_offset inode =
     sqsh__data_inode_file_block_offset (sqsh__data_inode_file inode)"

definition inode_file_ext_fragment_block_offset :: "byte list \<Rightarrow> nat" where
  "inode_file_ext_fragment_block_offset inode =
     sqsh__data_inode_file_ext_block_offset (sqsh__data_inode_file_ext inode)"

definition inode_file_ext_xattr_index :: "byte list \<Rightarrow> nat" where
  "inode_file_ext_xattr_index inode =
     sqsh__data_inode_file_ext_xattr_idx (sqsh__data_inode_file_ext inode)"

definition sqsh__inode_file_impl :: sqsh_inode_impl where
  "sqsh__inode_file_impl = \<lparr>
     ii_header_size = sizeof_SqshDataInodeFile,
     ii_payload_size = inode_file_payload_size,
     ii_hard_link_count = inode_regular_hard_link_count,
     ii_size = inode_file_size,
     ii_blocks_start = inode_file_blocks_start,
     ii_block_size_info = inode_file_block_size_info,
     ii_fragment_block_index = inode_file_fragment_block_index,
     ii_fragment_block_offset = inode_file_fragment_block_offset,
     ii_directory_block_start = sqsh__file_inode_null_directory_block_start,
     ii_directory_block_offset = sqsh__file_inode_null_directory_block_offset,
     ii_directory_parent_inode = sqsh__file_inode_null_directory_parent_inode,
     ii_symlink_target_path = sqsh__file_inode_null_symlink_target_path,
     ii_symlink_target_size = sqsh__file_inode_null_symlink_target_size,
     ii_device_id = sqsh__file_inode_null_device_id,
     ii_xattr_index = NullXattrIndex\<rparr>"

definition sqsh__inode_file_ext_impl :: sqsh_inode_impl where
  "sqsh__inode_file_ext_impl = \<lparr>
     ii_header_size = sizeof_SqshDataInodeFileExt,
     ii_payload_size = inode_file_ext_payload_size,
     ii_hard_link_count = inode_regular_ext_hard_link_count,
     ii_size = inode_file_ext_size,
     ii_blocks_start = inode_file_ext_blocks_start,
     ii_block_size_info = inode_file_ext_block_size_info,
     ii_fragment_block_index = inode_file_ext_fragment_block_index,
     ii_fragment_block_offset = inode_file_ext_fragment_block_offset,
     ii_directory_block_start = sqsh__file_inode_null_directory_block_start,
     ii_directory_block_offset = sqsh__file_inode_null_directory_block_offset,
     ii_directory_parent_inode = sqsh__file_inode_null_directory_parent_inode,
     ii_symlink_target_path = sqsh__file_inode_null_symlink_target_path,
     ii_symlink_target_size = sqsh__file_inode_null_symlink_target_size,
     ii_device_id = sqsh__file_inode_null_device_id,
     ii_xattr_index = XattrIndex inode_file_ext_xattr_index\<rparr>"

section \<open>Directories (\<^verbatim>\<open>inode_directory.c\<close>)\<close>

definition inode_directory_payload_size :: "byte list \<Rightarrow> nat \<Rightarrow> nat" where
  "inode_directory_payload_size inode block_log = 0"

definition inode_directory_ext_payload_size :: "byte list \<Rightarrow> nat \<Rightarrow> nat" where
  "inode_directory_ext_payload_size inode block_log = 0"

definition inode_directory_hard_link_count :: "byte list \<Rightarrow> nat" where
  "inode_directory_hard_link_count inode =
     sqsh__data_inode_directory_hard_link_count (sqsh__data_inode_directory inode)"

definition inode_directory_ext_hard_link_count :: "byte list \<Rightarrow> nat" where
  "inode_directory_ext_hard_link_count inode =
     sqsh__data_inode_directory_ext_hard_link_count (sqsh__data_inode_directory_ext inode)"

definition inode_directory_size :: "byte list \<Rightarrow> nat" where
  "inode_directory_size inode =
     sqsh__data_inode_directory_file_size (sqsh__data_inode_directory inode)"

definition inode_directory_ext_size :: "byte list \<Rightarrow> nat" where
  "inode_directory_ext_size inode =
     sqsh__data_inode_directory_ext_file_size (sqsh__data_inode_directory_ext inode)"

definition inode_directory_block_start :: "byte list \<Rightarrow> nat" where
  "inode_directory_block_start inode =
     sqsh__data_inode_directory_block_start (sqsh__data_inode_directory inode)"

definition inode_directory_ext_block_start :: "byte list \<Rightarrow> nat" where
  "inode_directory_ext_block_start inode =
     sqsh__data_inode_directory_ext_block_start (sqsh__data_inode_directory_ext inode)"

definition inode_directory_block_offset :: "byte list \<Rightarrow> nat" where
  "inode_directory_block_offset inode =
     sqsh__data_inode_directory_block_offset (sqsh__data_inode_directory inode)"

definition inode_directory_ext_block_offset :: "byte list \<Rightarrow> nat" where
  "inode_directory_ext_block_offset inode =
     sqsh__data_inode_directory_ext_block_offset (sqsh__data_inode_directory_ext inode)"

definition inode_directory_parent_inode :: "byte list \<Rightarrow> nat" where
  "inode_directory_parent_inode inode =
     sqsh__data_inode_directory_parent_inode_number (sqsh__data_inode_directory inode)"

definition inode_directory_ext_parent_inode :: "byte list \<Rightarrow> nat" where
  "inode_directory_ext_parent_inode inode =
     sqsh__data_inode_directory_ext_parent_inode_number (sqsh__data_inode_directory_ext inode)"

definition inode_directory_ext_xattr_index :: "byte list \<Rightarrow> nat" where
  "inode_directory_ext_xattr_index inode =
     sqsh__data_inode_directory_ext_xattr_idx (sqsh__data_inode_directory_ext inode)"

definition sqsh__inode_directory_impl :: sqsh_inode_impl where
  "sqsh__inode_directory_impl = \<lparr>
     ii_header_size = sizeof_SqshDataInodeDirectory,
     ii_payload_size = inode_directory_payload_size,
     ii_hard_link_count = inode_directory_hard_link_count,
     ii_size = inode_directory_size,
     ii_blocks_start = sqsh__file_inode_null_blocks_start,
     ii_block_size_info = sqsh__file_inode_null_block_size_info,
     ii_fragment_block_index = sqsh__file_inode_null_fragment_block_index,
     ii_fragment_block_offset = sqsh__file_inode_null_fragment_block_offset,
     ii_directory_block_start = inode_directory_block_start,
     ii_directory_block_offset = inode_directory_block_offset,
     ii_directory_parent_inode = inode_directory_parent_inode,
     ii_symlink_target_path = sqsh__file_inode_null_symlink_target_path,
     ii_symlink_target_size = sqsh__file_inode_null_symlink_target_size,
     ii_device_id = sqsh__file_inode_null_device_id,
     ii_xattr_index = NullXattrIndex\<rparr>"

definition sqsh__inode_directory_ext_impl :: sqsh_inode_impl where
  "sqsh__inode_directory_ext_impl = \<lparr>
     ii_header_size = sizeof_SqshDataInodeDirectoryExt,
     ii_payload_size = inode_directory_ext_payload_size,
     ii_hard_link_count = inode_directory_ext_hard_link_count,
     ii_size = inode_directory_ext_size,
     ii_blocks_start = sqsh__file_inode_null_blocks_start,
     ii_block_size_info = sqsh__file_inode_null_block_size_info,
     ii_fragment_block_index = sqsh__file_inode_null_fragment_block_index,
     ii_fragment_block_offset = sqsh__file_inode_null_fragment_block_offset,
     ii_directory_block_start = inode_directory_ext_block_start,
     ii_directory_block_offset = inode_directory_ext_block_offset,
     ii_directory_parent_inode = inode_directory_ext_parent_inode,
     ii_symlink_target_path = sqsh__file_inode_null_symlink_target_path,
     ii_symlink_target_size = sqsh__file_inode_null_symlink_target_size,
     ii_device_id = sqsh__file_inode_null_device_id,
     ii_xattr_index = XattrIndex inode_directory_ext_xattr_index\<rparr>"

section \<open>Symbolic links (\<^verbatim>\<open>inode_symlink.c\<close>)\<close>

text \<open>The basic accessor of the target path reads through the extended structure; both have the same layout.\<close>

definition inode_symlink_target_size :: "byte list \<Rightarrow> nat" where
  "inode_symlink_target_size inode =
     sqsh__data_inode_symlink_target_size (sqsh__data_inode_symlink inode)"

definition inode_symlink_payload_size :: "byte list \<Rightarrow> nat \<Rightarrow> nat" where
  "inode_symlink_payload_size inode block_log = inode_symlink_target_size inode"

definition inode_symlink_ext_target_size :: "byte list \<Rightarrow> nat" where
  "inode_symlink_ext_target_size inode =
     sqsh__data_inode_symlink_ext_target_size (sqsh__data_inode_symlink_ext inode)"

definition inode_symlink_ext_payload_size :: "byte list \<Rightarrow> nat \<Rightarrow> nat" where
  "inode_symlink_ext_payload_size inode block_log =
     (case add_overflow 64 (inode_symlink_ext_target_size inode) 4 of
        None \<Rightarrow> SIZE_MAX | Some result \<Rightarrow> result)"

definition inode_symlink_hard_link_count :: "byte list \<Rightarrow> nat" where
  "inode_symlink_hard_link_count inode =
     sqsh__data_inode_symlink_hard_link_count (sqsh__data_inode_symlink inode)"

definition inode_symlink_ext_hard_link_count :: "byte list \<Rightarrow> nat" where
  "inode_symlink_ext_hard_link_count inode =
     sqsh__data_inode_symlink_ext_hard_link_count (sqsh__data_inode_symlink_ext inode)"

definition inode_symlink_size :: "byte list \<Rightarrow> nat" where
  "inode_symlink_size inode = inode_symlink_target_size inode"

definition inode_symlink_ext_size :: "byte list \<Rightarrow> nat" where
  "inode_symlink_ext_size inode = inode_symlink_ext_target_size inode"

definition inode_symlink_target_path :: "byte list \<Rightarrow> byte list option" where
  "inode_symlink_target_path inode =
     Some (sqsh__data_inode_symlink_ext_target_path (sqsh__data_inode_symlink_ext inode))"

definition inode_symlink_ext_target_path :: "byte list \<Rightarrow> byte list option" where
  "inode_symlink_ext_target_path inode =
     Some (sqsh__data_inode_symlink_ext_target_path (sqsh__data_inode_symlink_ext inode))"

definition inode_symlink_ext_xattr_index :: "byte list \<Rightarrow> nat" where
  "inode_symlink_ext_xattr_index inode =
     sqsh__data_inode_symlink_ext_xattr_idx (sqsh__data_inode_symlink_ext inode)"

definition sqsh__inode_symlink_impl :: sqsh_inode_impl where
  "sqsh__inode_symlink_impl = \<lparr>
     ii_header_size = sizeof_SqshDataInodeSymlink,
     ii_payload_size = inode_symlink_payload_size,
     ii_hard_link_count = inode_symlink_hard_link_count,
     ii_size = inode_symlink_size,
     ii_blocks_start = sqsh__file_inode_null_blocks_start,
     ii_block_size_info = sqsh__file_inode_null_block_size_info,
     ii_fragment_block_index = sqsh__file_inode_null_fragment_block_index,
     ii_fragment_block_offset = sqsh__file_inode_null_fragment_block_offset,
     ii_directory_block_start = sqsh__file_inode_null_directory_block_start,
     ii_directory_block_offset = sqsh__file_inode_null_directory_block_offset,
     ii_directory_parent_inode = sqsh__file_inode_null_directory_parent_inode,
     ii_symlink_target_path = inode_symlink_target_path,
     ii_symlink_target_size = inode_symlink_target_size,
     ii_device_id = sqsh__file_inode_null_device_id,
     ii_xattr_index = NullXattrIndex\<rparr>"

definition sqsh__inode_symlink_ext_impl :: sqsh_inode_impl where
  "sqsh__inode_symlink_ext_impl = \<lparr>
     ii_header_size = sizeof_SqshDataInodeSymlinkExt,
     ii_payload_size = inode_symlink_ext_payload_size,
     ii_hard_link_count = inode_symlink_ext_hard_link_count,
     ii_size = inode_symlink_ext_size,
     ii_blocks_start = sqsh__file_inode_null_blocks_start,
     ii_block_size_info = sqsh__file_inode_null_block_size_info,
     ii_fragment_block_index = sqsh__file_inode_null_fragment_block_index,
     ii_fragment_block_offset = sqsh__file_inode_null_fragment_block_offset,
     ii_directory_block_start = sqsh__file_inode_null_directory_block_start,
     ii_directory_block_offset = sqsh__file_inode_null_directory_block_offset,
     ii_directory_parent_inode = sqsh__file_inode_null_directory_parent_inode,
     ii_symlink_target_path = inode_symlink_ext_target_path,
     ii_symlink_target_size = inode_symlink_ext_target_size,
     ii_device_id = sqsh__file_inode_null_device_id,
     ii_xattr_index = XattrIndex inode_symlink_ext_xattr_index\<rparr>"

section \<open>Devices (\<^verbatim>\<open>inode_device.c\<close>)\<close>

definition inode_device_payload_size :: "byte list \<Rightarrow> nat \<Rightarrow> nat" where
  "inode_device_payload_size inode block_log = 0"

definition inode_device_hard_link_count :: "byte list \<Rightarrow> nat" where
  "inode_device_hard_link_count inode =
     sqsh__data_inode_device_hard_link_count (sqsh__data_inode_device inode)"

definition inode_device_ext_hard_link_count :: "byte list \<Rightarrow> nat" where
  "inode_device_ext_hard_link_count inode =
     sqsh__data_inode_device_ext_hard_link_count (sqsh__data_inode_device_ext inode)"

definition inode_device_file_size :: "byte list \<Rightarrow> nat" where
  "inode_device_file_size inode = 0"

definition inode_device_id :: "byte list \<Rightarrow> nat" where
  "inode_device_id inode = sqsh__data_inode_device_device (sqsh__data_inode_device inode)"

definition inode_device_ext_id :: "byte list \<Rightarrow> nat" where
  "inode_device_ext_id inode =
     sqsh__data_inode_device_ext_device (sqsh__data_inode_device_ext inode)"

definition inode_device_ext_xattr_index :: "byte list \<Rightarrow> nat" where
  "inode_device_ext_xattr_index inode =
     sqsh__data_inode_device_ext_xattr_idx (sqsh__data_inode_device_ext inode)"

definition sqsh__inode_device_impl :: sqsh_inode_impl where
  "sqsh__inode_device_impl = \<lparr>
     ii_header_size = sizeof_SqshDataInodeDevice,
     ii_payload_size = inode_device_payload_size,
     ii_hard_link_count = inode_device_hard_link_count,
     ii_size = inode_device_file_size,
     ii_blocks_start = sqsh__file_inode_null_blocks_start,
     ii_block_size_info = sqsh__file_inode_null_block_size_info,
     ii_fragment_block_index = sqsh__file_inode_null_fragment_block_index,
     ii_fragment_block_offset = sqsh__file_inode_null_fragment_block_offset,
     ii_directory_block_start = sqsh__file_inode_null_directory_block_start,
     ii_directory_block_offset = sqsh__file_inode_null_directory_block_offset,
     ii_directory_parent_inode = sqsh__file_inode_null_directory_parent_inode,
     ii_symlink_target_path = sqsh__file_inode_null_symlink_target_path,
     ii_symlink_target_size = sqsh__file_inode_null_symlink_target_size,
     ii_device_id = inode_device_id,
     ii_xattr_index = NullXattrIndex\<rparr>"

definition sqsh__inode_device_ext_impl :: sqsh_inode_impl where
  "sqsh__inode_device_ext_impl = \<lparr>
     ii_header_size = sizeof_SqshDataInodeDeviceExt,
     ii_payload_size = inode_device_payload_size,
     ii_hard_link_count = inode_device_ext_hard_link_count,
     ii_size = inode_device_file_size,
     ii_blocks_start = sqsh__file_inode_null_blocks_start,
     ii_block_size_info = sqsh__file_inode_null_block_size_info,
     ii_fragment_block_index = sqsh__file_inode_null_fragment_block_index,
     ii_fragment_block_offset = sqsh__file_inode_null_fragment_block_offset,
     ii_directory_block_start = sqsh__file_inode_null_directory_block_start,
     ii_directory_block_offset = sqsh__file_inode_null_directory_block_offset,
     ii_directory_parent_inode = sqsh__file_inode_null_directory_parent_inode,
     ii_symlink_target_path = sqsh__file_inode_null_symlink_target_path,
     ii_symlink_target_size = sqsh__file_inode_null_symlink_target_size,
     ii_device_id = inode_device_ext_id,
     ii_xattr_index = XattrIndex inode_device_ext_xattr_index\<rparr>"

section \<open>Pipes and sockets (\<^verbatim>\<open>inode_ipc.c\<close>)\<close>

definition inode_ipc_payload_size :: "byte list \<Rightarrow> nat \<Rightarrow> nat" where
  "inode_ipc_payload_size inode block_log = 0"

definition inode_ipc_hard_link_count :: "byte list \<Rightarrow> nat" where
  "inode_ipc_hard_link_count inode =
     sqsh__data_inode_ipc_hard_link_count (sqsh__data_inode_ipc inode)"

definition inode_ipc_ext_hard_link_count :: "byte list \<Rightarrow> nat" where
  "inode_ipc_ext_hard_link_count inode =
     sqsh__data_inode_ipc_ext_hard_link_count (sqsh__data_inode_ipc_ext inode)"

definition inode_ipc_size :: "byte list \<Rightarrow> nat" where
  "inode_ipc_size inode = 0"

definition inode_ipc_ext_xattr_index :: "byte list \<Rightarrow> nat" where
  "inode_ipc_ext_xattr_index inode =
     sqsh__data_inode_ipc_ext_xattr_idx (sqsh__data_inode_ipc_ext inode)"

definition sqsh__inode_ipc_impl :: sqsh_inode_impl where
  "sqsh__inode_ipc_impl = \<lparr>
     ii_header_size = sizeof_SqshDataInodeIpc,
     ii_payload_size = inode_ipc_payload_size,
     ii_hard_link_count = inode_ipc_hard_link_count,
     ii_size = inode_ipc_size,
     ii_blocks_start = sqsh__file_inode_null_blocks_start,
     ii_block_size_info = sqsh__file_inode_null_block_size_info,
     ii_fragment_block_index = sqsh__file_inode_null_fragment_block_index,
     ii_fragment_block_offset = sqsh__file_inode_null_fragment_block_offset,
     ii_directory_block_start = sqsh__file_inode_null_directory_block_start,
     ii_directory_block_offset = sqsh__file_inode_null_directory_block_offset,
     ii_directory_parent_inode = sqsh__file_inode_null_directory_parent_inode,
     ii_symlink_target_path = sqsh__file_inode_null_symlink_target_path,
     ii_symlink_target_size = sqsh__file_inode_null_symlink_target_size,
     ii_device_id = sqsh__file_inode_null_device_id,
     ii_xattr_index = NullXattrIndex\<rparr>"

definition sqsh__inode_ipc_ext_impl :: sqsh_inode_impl where
  "sqsh__inode_ipc_ext_impl = \<lparr>
     ii_header_size = sizeof_SqshDataInodeIpcExt,
     ii_payload_size = inode_ipc_payload_size,
     ii_hard_link_count = inode_ipc_ext_hard_link_count,
     ii_size = inode_ipc_size,
     ii_blocks_start = sqsh__file_inode_null_blocks_start,
     ii_block_size_info = sqsh__file_inode_null_block_size_info,
     ii_fragment_block_index = sqsh__file_inode_null_fragment_block_index,
     ii_fragment_block_offset = sqsh__file_inode_null_fragment_block_offset,
     ii_directory_block_start = sqsh__file_inode_null_directory_block_start,
     ii_directory_block_offset = sqsh__file_inode_null_directory_block_offset,
     ii_directory_parent_inode = sqsh__file_inode_null_directory_parent_inode,
     ii_symlink_target_path = sqsh__file_inode_null_symlink_target_path,
     ii_symlink_target_size = sqsh__file_inode_null_symlink_target_size,
     ii_device_id = sqsh__file_inode_null_device_id,
     ii_xattr_index = XattrIndex inode_ipc_ext_xattr_index\<rparr>"

lemmas inode_impl_defs =
  sqsh__inode_file_impl_def
  sqsh__inode_file_ext_impl_def
  sqsh__inode_directory_impl_def
  sqsh__inode_directory_ext_impl_def
  sqsh__inode_symlink_impl_def
  sqsh__inode_symlink_ext_impl_def
  sqsh__inode_device_impl_def
  sqsh__inode_device_ext_impl_def
  sqsh__inode_ipc_impl_def
  sqsh__inode_ipc_ext_impl_def

lemmas inode_accessor_defs =
  calc_block_count_def
  inode_device_ext_hard_link_count_def
  inode_device_ext_id_def
  inode_device_ext_xattr_index_def
  inode_device_file_size_def
  inode_device_hard_link_count_def
  inode_device_id_def
  inode_device_payload_size_def
  inode_directory_block_offset_def
  inode_directory_block_start_def
  inode_directory_ext_block_offset_def
  inode_directory_ext_block_start_def
  inode_directory_ext_hard_link_count_def
  inode_directory_ext_parent_inode_def
  inode_directory_ext_payload_size_def
  inode_directory_ext_size_def
  inode_directory_ext_xattr_index_def
  inode_directory_hard_link_count_def
  inode_directory_parent_inode_def
  inode_directory_payload_size_def
  inode_directory_size_def
  inode_file_block_size_info_def
  inode_file_blocks_start_def
  inode_file_ext_block_size_info_def
  inode_file_ext_blocks_start_def
  inode_file_ext_fragment_block_index_def
  inode_file_ext_fragment_block_offset_def
  inode_file_ext_payload_size_def
  inode_file_ext_size_def
  inode_file_ext_xattr_index_def
  inode_file_fragment_block_index_def
  inode_file_fragment_block_offset_def
  inode_file_payload_size_def
  inode_file_size_def
  inode_ipc_ext_hard_link_count_def
  inode_ipc_ext_xattr_index_def
  inode_ipc_hard_link_count_def
  inode_ipc_payload_size_def
  inode_ipc_size_def
  inode_regular_ext_hard_link_count_def
  inode_regular_hard_link_count_def
  inode_symlink_ext_hard_link_count_def
  inode_symlink_ext_payload_size_def
  inode_symlink_ext_size_def
  inode_symlink_ext_target_path_def
  inode_symlink_ext_target_size_def
  inode_symlink_ext_xattr_index_def
  inode_symlink_hard_link_count_def
  inode_symlink_payload_size_def
  inode_symlink_size_def
  inode_symlink_target_path_def
  inode_symlink_target_size_def
  sqsh__file_inode_null_block_size_info_def
  sqsh__file_inode_null_blocks_start_def
  sqsh__file_inode_null_device_id_def
  sqsh__file_inode_null_directory_block_offset_def
  sqsh__file_inode_null_directory_block_start_def
  sqsh__file_inode_null_directory_parent_inode_def
  sqsh__file_inode_null_fragment_block_index_def
  sqsh__file_inode_null_fragment_block_offset_def
  sqsh__file_inode_null_symlink_target_path_def
  sqsh__file_inode_null_symlink_target_size_def
  sqsh__file_inode_null_xattr_index_def

section \<open>The fields lie inside the inode\<close>

definition inode_kinds :: "sqsh_inode_impl set" where
  "inode_kinds = {sqsh__inode_directory_impl, sqsh__inode_file_impl, sqsh__inode_symlink_impl,
     sqsh__inode_device_impl, sqsh__inode_ipc_impl, sqsh__inode_directory_ext_impl,
     sqsh__inode_file_ext_impl, sqsh__inode_symlink_ext_impl, sqsh__inode_device_ext_impl,
     sqsh__inode_ipc_ext_impl}"

definition xattr_index_of :: "sqsh_inode_impl \<Rightarrow> byte list \<Rightarrow> nat" where
  "xattr_index_of impl inode =
     (case ii_xattr_index impl of NullXattrIndex \<Rightarrow> SQSH_INODE_NO_XATTR | XattrIndex f \<Rightarrow> f inode)"

text \<open>The fixed part of an inode of a kind, with the common header.\<close>

definition inode_fixed_size :: "sqsh_inode_impl \<Rightarrow> nat" where
  "inode_fixed_size impl = sizeof_SqshDataInodeHeader + ii_header_size impl"

lemmas inode_sizes =
  sizeof_SqshDataInodeHeader_def sizeof_SqshDataInodeFile_def sizeof_SqshDataInodeFileExt_def
  sizeof_SqshDataInodeDirectory_def sizeof_SqshDataInodeDirectoryExt_def
  sizeof_SqshDataInodeSymlink_def sizeof_SqshDataInodeSymlinkExt_def
  sizeof_SqshDataInodeDevice_def sizeof_SqshDataInodeDeviceExt_def
  sizeof_SqshDataInodeIpc_def sizeof_SqshDataInodeIpcExt_def

lemma inode_fixed_size_min: "impl \<in> inode_kinds \<Longrightarrow> 20 \<le> inode_fixed_size impl \<and> inode_fixed_size impl \<le> 56"
  unfolding inode_kinds_def
  by (elim insertE emptyE; hypsubst; simp add: inode_fixed_size_def inode_impl_defs inode_sizes)

lemma symlink_ext_payload:
  "inode_symlink_ext_payload_size s lg = inode_symlink_ext_target_size s + 4"
  using get_le_bound [of 4 4 "drop 16 s"]
  by (simp add: inode_accessor_defs inode_get_defs inode_sizes add_overflow_def)

lemma payload_local:
  assumes "impl \<in> inode_kinds"
  shows "ii_payload_size impl (take (inode_fixed_size impl) s) lg = ii_payload_size impl s lg"
  using assms unfolding inode_kinds_def
  by (elim insertE emptyE; hypsubst; simp add: inode_impl_defs inode_accessor_defs inode_get_defs
      inode_sizes inode_fixed_size_def drop_take min_def)

text \<open>
  C39. Every accessor of every kind of inode reads inside the inode: the fixed fields and the size of
  the variable part are determined by the header and the fixed part, the size word of a data block
  by the bytes up to and including it, and the xattr index, which an extended symbolic link keeps
  behind its target path, by the fixed part and the variable part.
\<close>

theorem inode_fields_inside:
  assumes "impl \<in> inode_kinds"
  shows "let fixed = inode_fixed_size impl; t = take fixed s in
    ii_payload_size impl t lg = ii_payload_size impl s lg \<and>
    ii_hard_link_count impl t = ii_hard_link_count impl s \<and> ii_size impl t = ii_size impl s \<and>
    ii_blocks_start impl t = ii_blocks_start impl s \<and>
    ii_fragment_block_index impl t = ii_fragment_block_index impl s \<and>
    ii_fragment_block_offset impl t = ii_fragment_block_offset impl s \<and>
    ii_directory_block_start impl t = ii_directory_block_start impl s \<and>
    ii_directory_block_offset impl t = ii_directory_block_offset impl s \<and>
    ii_directory_parent_inode impl t = ii_directory_parent_inode impl s \<and>
    ii_symlink_target_size impl t = ii_symlink_target_size impl s \<and>
    ii_device_id impl t = ii_device_id impl s \<and>
    ii_block_size_info impl (take (fixed + 4 * i + 4) s) i = ii_block_size_info impl s i \<and>
    xattr_index_of impl (take (fixed + ii_payload_size impl s lg) s) = xattr_index_of impl s"
  using assms symlink_ext_payload [of s lg]
  unfolding inode_kinds_def
  by (elim insertE emptyE; hypsubst; simp add: inode_impl_defs inode_accessor_defs inode_get_defs
      inode_sizes inode_fixed_size_def xattr_index_of_def Let_def get_le_take drop_take min_def
      del: add_overflow_Some cong: option.case_cong)

theorem inode_fields_inside_witness:
  "sqsh__inode_symlink_ext_impl \<in> inode_kinds \<and>
   (let s = replicate 20 0 @ [3, 0, 0, 0, 97, 98, 99, 7, 0, 0, 0]
    in xattr_index_of sqsh__inode_symlink_ext_impl (take 31 s) = 7)"
proof -
  let ?s = "replicate 20 0 @ [3, 0, 0, 0, 97, 98, 99, 7, 0, 0, 0] :: byte list"
  have k: "sqsh__inode_symlink_ext_impl \<in> inode_kinds" by (simp add: inode_kinds_def)
  have "xattr_index_of sqsh__inode_symlink_ext_impl ?s = 7" by code_simp
  moreover have "inode_fixed_size sqsh__inode_symlink_ext_impl
    + ii_payload_size sqsh__inode_symlink_ext_impl ?s 12 = 31" by code_simp
  ultimately show ?thesis
    using inode_fields_inside [OF k, of ?s 12 0] k by (simp add: Let_def)
qed

end
