(* ===== verification/Sqsh_ArchiveInv.thy ===== *)
theory Sqsh_ArchiveInv
  imports Sqsh_InodeMap
begin

text \<open>
  The invariant of an open archive: the managers are in order, the superblock was accepted, and
  every table that was loaded so far is the result of its initialisation. Opening an archive
  establishes it, and every accessor that loads a part on first use keeps it.
\<close>

section \<open>The invariant\<close>

definition table_loaded ::
  "('c, 'b, 'e) sqsh_env \<Rightarrow> ('u, 'c) map_manager \<Rightarrow> nat \<Rightarrow> ('u, 'c, 'b) sqsh_table \<Rightarrow> bool" where
  "table_loaded env m es t \<longleftrightarrow>
     (\<exists>start ec. start < 2 ^ 64 \<and> sqsh__table_init env m start es ec = (Ok, t))"

definition archive_tables_ok ::
  "('c, 'b, 'e) sqsh_env \<Rightarrow> ('u, 'c, 'b, 'e, 'x, 'h) sqsh_archive \<Rightarrow> bool" where
  "archive_tables_ok env ar \<longleftrightarrow>
     (\<forall>t. ar_id_table ar = Some t \<longrightarrow> table_loaded env (ar_map_manager ar) 4 t) \<and>
     (\<forall>t. ar_export_table ar = Some t \<longrightarrow> table_loaded env (ar_map_manager ar) 8 t) \<and>
     (\<forall>t. ar_fragment_table ar = Some t \<longrightarrow>
        table_loaded env (ar_map_manager ar) sizeof_SqshDataFragment t) \<and>
     (\<forall>x. ar_xattr_table ar = Some x \<longrightarrow>
        table_loaded env (ar_map_manager ar) sizeof_SqshDataXattrLookupTable (xt_table x)) \<and>
     (\<forall>i t. ar_inode_map ar = Some i \<longrightarrow> im_impl i = ExportTableImpl t \<longrightarrow>
        table_loaded env (ar_map_manager ar) 8 t)"

definition archive_inv ::
  "('c, 'b, 'e) sqsh_env \<Rightarrow> ((nat \<Rightarrow> map_slice \<Rightarrow> bool) \<Rightarrow> 'c \<Rightarrow> bool) \<Rightarrow>
   ((nat \<Rightarrow> 'b \<Rightarrow> bool) \<Rightarrow> 'e \<Rightarrow> bool) \<Rightarrow> ('u \<Rightarrow> byte list) \<Rightarrow>
   ('u, 'c, 'b, 'e, 'x, 'h) sqsh_archive \<Rightarrow> bool" where
  "archive_inv env se ee src ar \<longleftrightarrow> archive_ok env se ee src ar \<and>
     sqsh__superblock_init env (ar_map_manager ar) = (Ok, ar_superblock ar) \<and>
     archive_tables_ok env ar"

text \<open>What every reader of an archive starts from; the lazily loaded parts are not in it.\<close>

definition archive_core ::
  "('u, 'c, 'b, 'e, 'x, 'h) sqsh_archive \<Rightarrow>
   ('u, 'c) map_manager \<times> ('u, 'c, 'b) map_reader \<times> ('e, 'x) extract_manager" where
  "archive_core ar = (ar_map_manager ar, ar_superblock ar, ar_metablock_manager ar)"

lemma archive_core_simps [simp]:
  "archive_core (ar\<lparr>ar_id_table := a\<rparr>) = archive_core ar"
  "archive_core (ar\<lparr>ar_export_table := b\<rparr>) = archive_core ar"
  "archive_core (ar\<lparr>ar_fragment_table := b\<rparr>) = archive_core ar"
  "archive_core (ar\<lparr>ar_xattr_table := c\<rparr>) = archive_core ar"
  "archive_core (ar\<lparr>ar_inode_map := d\<rparr>) = archive_core ar"
  "archive_core (ar\<lparr>ar_data_manager := e\<rparr>) = archive_core ar"
  by (simp_all add: archive_core_def)

lemma archive_coreD:
  assumes "archive_core ar' = archive_core ar"
  shows "ar_map_manager ar' = ar_map_manager ar" "ar_superblock ar' = ar_superblock ar"
    "ar_metablock_manager ar' = ar_metablock_manager ar" "ar_bytes src ar' = ar_bytes src ar"
    "ar_chain env src ar' = ar_chain env src ar"
  using assms by (simp_all add: archive_core_def ar_bytes_def ar_chain_def)

lemma archive_core_ok:
  "archive_core ar' = archive_core ar \<Longrightarrow> archive_ok env se ee src ar' \<longleftrightarrow> archive_ok env se ee src ar"
  by (simp add: archive_core_def archive_ok_def ar_bytes_def)

lemma archive_core_live:
  "archive_core ar' = archive_core ar \<Longrightarrow> archive_live env src ar' \<longleftrightarrow> archive_live env src ar"
  by (simp add: archive_core_def archive_live_def ar_bytes_def)

lemma archive_invI:
  assumes "archive_inv env se ee src ar" "archive_core ar' = archive_core ar"
    and "archive_tables_ok env ar'"
  shows "archive_inv env se ee src ar'"
  using assms archive_core_ok [OF assms(2)] archive_coreD [OF assms(2)]
  by (simp add: archive_inv_def)

section \<open>The superblock of an open archive\<close>

text \<open>The header that the accessors read is the validated beginning of the archive.\<close>

lemma archive_superblock:
  assumes "archive_inv env se ee src ar"
  shows "get_header env (ar_superblock ar) = window 0 96 (ar_bytes src ar)"
    and "superblock_check (ar_bytes src ar) = Ok"
  using superblock_init_correct [of env se src "ar_map_manager ar" Ok "ar_superblock ar"] assms
  by (simp_all add: archive_inv_def archive_ok_def ar_bytes_def)

lemma archive_block_log:
  assumes "archive_inv env se ee src ar"
  shows "sqsh_superblock_block_log env (ar_superblock ar) \<in> {12..20}"
    and "sqsh_superblock_block_size env (ar_superblock ar)
      = 2 ^ sqsh_superblock_block_log env (ar_superblock ar)"
  using archive_superblock [OF assms]
  by (simp_all add: sqsh_superblock_block_log_def sqsh_superblock_block_size_def superblock_get_defs
      superblock_check_def split: if_splits)

section \<open>Loaded tables\<close>

lemma table_loadedI:
  "sqsh__table_init env m start es ec = (Ok, t) \<Longrightarrow> start < 2 ^ 64 \<Longrightarrow> table_loaded env m es t"
  by (auto simp: table_loaded_def)

text \<open>A lookup in a loaded table is safe and returns an element or an error.\<close>

lemma table_loaded_get:
  assumes ok: "archive_ok env se ee src ar" and t: "table_loaded env (ar_map_manager ar) es t"
    and es: "0 < es" and eq: "sqsh_table_get env ar t i = (rv, out)"
  shows "safe_rv rv" "rv = Ok \<Longrightarrow> length out = es"
proof -
  obtain start ec where st: "start < 2 ^ 64"
    "sqsh__table_init env (ar_map_manager ar) start es ec = (Ok, t)"
    using t by (auto simp: table_loaded_def)
  have bo: "cx_buffer_ok (env_buf env)" and m: "manager_ok (env_maps env) se src (ar_map_manager ar)"
    using ok by (simp_all add: archive_ok_def)
  note T = table_init_correct [OF bo m st, simplified, folded ar_bytes_def]
  have "safe_rv rv \<and> (rv = Ok \<longrightarrow> length out = es)"
  proof (cases "i < ec")
    case True
    have t: "tb_element_size t = es" "tb_element_count t = ec" "es * ec < 2 ^ 64"
      "sqsh__map_reader_size (tb_lookup_table t) = 8 * divide_ceil (es * ec) 8192"
      "sqsh__map_reader_data (env_maps env) (env_buf env) (tb_lookup_table t)
        = window start (8 * divide_ceil (es * ec) 8192) (ar_bytes src ar)"
      "start + 8 * divide_ceil (es * ec) 8192 \<le> length (ar_bytes src ar)"
      using T by auto
    show ?thesis using table_get_correct [OF ok t es True refl eq] by simp
  next
    case False
    then show ?thesis using eq T by (auto simp: sqsh_table_get_def Let_def)
  qed
  then show "safe_rv rv" "rv = Ok \<Longrightarrow> length out = es" by simp_all
qed

lemma table_init_safe:
  assumes "archive_ok env se ee src ar" "start < 2 ^ 64"
    and "sqsh__table_init env (ar_map_manager ar) start es ec = (rv, t)"
  shows "safe_rv rv"
proof -
  have "cx_buffer_ok (env_buf env)" "manager_ok (env_maps env) se src (ar_map_manager ar)"
    using assms(1) by (simp_all add: archive_ok_def)
  from table_init_correct [OF this assms(2,3)] show ?thesis by (rule conjunct1)
qed

lemma get_le_8_bound: "get_le 8 off bs < 2 ^ 64"
  using get_le_bound [of 8 off bs] by simp

lemma superblock_address_bounds:
  "sqsh_superblock_id_table_start env sb < 2 ^ 64"
  "sqsh_superblock_export_table_start env sb < 2 ^ 64"
  "sqsh_superblock_fragment_table_start env sb < 2 ^ 64"
  "sqsh_superblock_xattr_id_table_start env sb < 2 ^ 64"
  "sqsh_superblock_inode_table_start env sb < 2 ^ 64"
  "sqsh_superblock_directory_table_start env sb < 2 ^ 64"
  unfolding sqsh_superblock_id_table_start_def sqsh_superblock_export_table_start_def
      sqsh_superblock_fragment_table_start_def sqsh_superblock_xattr_id_table_start_def
      sqsh_superblock_inode_table_start_def sqsh_superblock_directory_table_start_def
      superblock_get_defs
  by (simp_all only: get_le_8_bound)

section \<open>Loading on first use\<close>

text \<open>
  The common shape: a part that is present is returned, a missing one is initialised and kept.
\<close>

lemma lazy_part:
  assumes "(if lk \<noteq> Ok then (lk, None, ar)
      else case slot of Some t \<Rightarrow> (Ok, Some t, ar)
        | None \<Rightarrow> (case init of (r, t) \<Rightarrow> if r \<noteq> Ok then (r, None, ar) else (Ok, Some t, upd t)))
      = (rv, part, ar')"
    and "safe_rv lk" "safe_rv (fst init)"
    and "\<And>t. slot = Some t \<Longrightarrow> P t" "\<And>t. init = (Ok, t) \<Longrightarrow> P t"
  obtains (failed) "rv \<noteq> Ok" "safe_rv rv" "ar' = ar"
  | (present) t where "rv = Ok" "part = Some t" "P t" "ar' = ar"
  | (loaded) t where "rv = Ok" "part = Some t" "P t" "ar' = upd t"
proof (cases slot)
  case None
  then show ?thesis
    using assms that(1) that(3) [of "snd init"] by (cases init) (auto split: if_splits)
next
  case (Some t)
  then show ?thesis using assms that(1) that(2) [of t] by (auto split: if_splits)
qed

lemma lazy_table:
  assumes inv: "archive_inv env se ee src ar" and lk: "safe_rv lk"
    and eq: "(if lk \<noteq> Ok then (lk, None, ar)
      else case slot of Some t \<Rightarrow> (Ok, Some t, ar)
        | None \<Rightarrow> (case sqsh__table_init env (ar_map_manager ar) start es ec of
            (r, t) \<Rightarrow> if r \<noteq> Ok then (r, None, ar) else (Ok, Some t, upd t)))
      = (rv, part, ar')"
    and st: "start < 2 ^ 64"
    and slot: "\<And>t. slot = Some t \<Longrightarrow> table_loaded env (ar_map_manager ar) es t"
    and core: "\<And>t. archive_core (upd t) = archive_core ar"
    and upd: "\<And>t. table_loaded env (ar_map_manager ar) es t \<Longrightarrow> archive_tables_ok env (upd t)"
  shows "safe_rv rv \<and> archive_inv env se ee src ar' \<and> archive_core ar' = archive_core ar \<and>
    (rv = Ok \<longrightarrow> (\<exists>tb. part = Some tb \<and> table_loaded env (ar_map_manager ar) es tb))"
proof -
  have ok: "archive_ok env se ee src ar" using inv by (simp add: archive_inv_def)
  have s: "safe_rv (fst (sqsh__table_init env (ar_map_manager ar) start es ec))"
    using table_init_safe [OF ok st] by (metis prod.collapse)
  show ?thesis
  proof (rule lazy_part [OF eq lk s, of "table_loaded env (ar_map_manager ar) es"], goal_cases)
    case (5 t)
    then show ?case using archive_invI [OF inv core upd, of t] core by simp
  qed (use inv slot table_loadedI [OF _ st] in auto)
qed

text \<open>Every accessor of a lazily loaded part keeps the invariant and the core of the archive.\<close>

lemma id_table_inv:
  assumes inv: "archive_inv env se ee src ar" and lk: "safe_rv (env_lock env)"
    and eq: "sqsh_archive_id_table env ar = (rv, t, ar')"
  shows "safe_rv rv \<and> archive_inv env se ee src ar' \<and> archive_core ar' = archive_core ar \<and>
    (rv = Ok \<longrightarrow> (\<exists>tb. t = Some tb \<and> table_loaded env (ar_map_manager ar) 4 tb))"
  using inv
  by (intro lazy_table [OF inv lk eq [unfolded sqsh_archive_id_table_def sqsh__id_table_init_def]
      superblock_address_bounds(1)])
    (auto simp: archive_inv_def archive_tables_ok_def)

lemma export_table_inv:
  assumes inv: "archive_inv env se ee src ar" and lk: "safe_rv (env_lock env)"
    and eq: "sqsh_archive_export_table env ar = (rv, t, ar')"
  shows "safe_rv rv \<and> archive_inv env se ee src ar' \<and> archive_core ar' = archive_core ar \<and>
    (rv = Ok \<longrightarrow> (\<exists>tb. t = Some tb \<and> table_loaded env (ar_map_manager ar) 8 tb))"
proof (cases "sqsh_superblock_export_table_start env (ar_superblock ar) = NO_SEGMENT")
  case True
  then show ?thesis using eq inv by (auto simp: sqsh_archive_export_table_def)
next
  case False
  note e = eq [unfolded sqsh_archive_export_table_def sqsh__export_table_init_def if_not_P [OF False]]
  show ?thesis using inv
    by (intro lazy_table [OF inv lk e superblock_address_bounds(2)])
      (auto simp: archive_inv_def archive_tables_ok_def)
qed

lemma fragment_table_inv:
  assumes inv: "archive_inv env se ee src ar" and lk: "safe_rv (env_lock env)"
    and eq: "sqsh_archive_fragment_table env ar = (rv, t, ar')"
  shows "safe_rv rv \<and> archive_inv env se ee src ar' \<and> archive_core ar' = archive_core ar \<and>
    (rv = Ok \<longrightarrow> (\<exists>tb. t = Some tb \<and>
       table_loaded env (ar_map_manager ar) sizeof_SqshDataFragment tb))"
proof (cases "sqsh_superblock_fragment_table_start env (ar_superblock ar) = NO_SEGMENT")
  case True
  then show ?thesis using eq inv by (auto simp: sqsh_archive_fragment_table_def)
next
  case False
  note e = eq [unfolded sqsh_archive_fragment_table_def sqsh__fragment_table_init_def
      if_not_P [OF False]]
  show ?thesis using inv
    by (intro lazy_table [OF inv lk e superblock_address_bounds(3)])
      (auto simp: archive_inv_def archive_tables_ok_def)
qed

lemma map_reader_load_safe:
  assumes ok: "archive_ok env se ee src ar" and a: "a \<le> u" "u < 2 ^ 64"
    and eq: "andthen (sqsh__map_reader_init (env_maps env) (env_buf env) (ar_map_manager ar) a u r)
      (sqsh__map_reader_all (env_maps env) (env_buf env)) = (rv, mr)"
  shows "safe_rv rv"
proof -
  have "cx_buffer_ok (env_buf env)" "manager_ok (env_maps env) se src (ar_map_manager ar)"
    using ok by (simp_all add: archive_ok_def)
  from map_reader_load_correct [OF this a eq] show ?thesis by simp
qed

lemma xattr_table_init_inv:
  assumes ok: "archive_ok env se ee src ar" and eq: "sqsh__xattr_table_init env ar = (rv, x)"
  shows "safe_rv rv"
    "rv = Ok \<Longrightarrow> table_loaded env (ar_map_manager ar) sizeof_SqshDataXattrLookupTable (xt_table x)"
proof -
  let ?a = "sqsh_superblock_xattr_id_table_start env (ar_superblock ar)" and ?m = "ar_map_manager ar"
  let ?n = "?a + sizeof_SqshDataXattrIdTable"
  have "safe_rv rv \<and> (rv = Ok \<longrightarrow>
    table_loaded env ?m sizeof_SqshDataXattrLookupTable (xt_table x))"
  proof (cases "?n < 2 ^ 64")
    case False
    then show ?thesis using eq by (auto simp: sqsh__xattr_table_init_def Let_def add_overflow_def)
  next
    case True
    obtain r1 mr where ld: "andthen (sqsh__map_reader_init (env_maps env) (env_buf env) ?m ?a ?n
        (zero_map_reader env ?m)) (sqsh__map_reader_all (env_maps env) (env_buf env)) = (r1, mr)"
      by fastforce
    have s1: "safe_rv r1" using map_reader_load_safe [OF ok _ True ld] by simp
    obtain r2 t where ti: "sqsh__table_init env ?m ?n sizeof_SqshDataXattrLookupTable
        (sqsh__data_xattr_id_table_xattr_ids
          (sqsh__map_reader_data (env_maps env) (env_buf env) mr)) = (r2, t)" by fastforce
    have s2: "safe_rv r2" using table_init_safe [OF ok True ti] .
    have "rv = (if r1 \<noteq> Ok then r1 else r2) \<and> (rv = Ok \<longrightarrow> xt_table x = t)"
      using eq True ld ti
      by (auto simp: sqsh__xattr_table_init_def Let_def add_overflow_def split: if_splits)
    then show ?thesis using s1 s2 table_loadedI [OF _ True] ti by (auto split: if_splits)
  qed
  then show "safe_rv rv"
    "rv = Ok \<Longrightarrow> table_loaded env ?m sizeof_SqshDataXattrLookupTable (xt_table x)" by simp_all
qed

lemma xattr_table_inv:
  assumes inv: "archive_inv env se ee src ar" and lk: "safe_rv (env_lock env)"
    and eq: "sqsh_archive_xattr_table env ar = (rv, x, ar')"
  shows "safe_rv rv \<and> archive_inv env se ee src ar' \<and> archive_core ar' = archive_core ar \<and>
    (rv = Ok \<longrightarrow> (\<exists>xt. x = Some xt \<and>
       table_loaded env (ar_map_manager ar) sizeof_SqshDataXattrLookupTable (xt_table xt)))"
proof (cases "sqsh_superblock_xattr_id_table_start env (ar_superblock ar) = NO_SEGMENT")
  case True
  then show ?thesis using eq inv by (auto simp: sqsh_archive_xattr_table_def)
next
  case False
  note e = eq [unfolded sqsh_archive_xattr_table_def if_not_P [OF False]]
  let ?P = "\<lambda>x. table_loaded env (ar_map_manager ar) sizeof_SqshDataXattrLookupTable (xt_table x)"
  have ok: "archive_ok env se ee src ar" and tb: "archive_tables_ok env ar"
    using inv by (simp_all add: archive_inv_def)
  have s: "safe_rv (fst (sqsh__xattr_table_init env ar))"
    using xattr_table_init_inv(1) [OF ok] by (metis prod.collapse)
  have o: "?P y" if "ar_xattr_table ar = Some y" for y
    using tb that by (simp add: archive_tables_ok_def)
  have n: "?P y" if "sqsh__xattr_table_init env ar = (Ok, y)" for y
    using xattr_table_init_inv(2) [OF ok that] by simp
  show ?thesis
  proof (rule lazy_part [OF e lk s, of ?P], goal_cases)
    case (5 y)
    then show ?case
      using archive_invI [OF inv, of "ar\<lparr>ar_xattr_table := Some y\<rparr>"] tb
      by (simp add: archive_tables_ok_def)
  qed (use inv o n in auto)
qed

lemma data_manager_inv:
  assumes inv: "archive_inv env se ee src ar" and lk: "safe_rv (env_lock env)"
    and ci: "safe_rv (fst cache_init)"
    and eq: "sqsh__archive_data_extract_manager env impls cache_init ar = (rv, xm, ar')"
  shows "safe_rv rv \<and> archive_inv env se ee src ar' \<and> archive_core ar' = archive_core ar \<and>
    (rv = Ok \<longrightarrow> ar_data_manager ar' = xm \<and> xm \<noteq> None)"
proof -
  have tb: "archive_tables_ok env ar" using inv by (simp add: archive_inv_def)
  have s: "safe_rv (fst (sqsh__extract_manager_init impls cache_init i bs m))" for i bs m
    using ci by (auto simp: sqsh__extract_manager_init_def Let_def split: prod.splits)
  show ?thesis
  proof (cases "env_lock env = Ok \<and> ar_data_manager ar = None")
    case True
    obtain r m where x: "sqsh__extract_manager_init impls cache_init
        (sqsh_superblock_compression_id env (ar_superblock ar))
        (sqsh_superblock_block_size env (ar_superblock ar)) (ar_metablock_manager ar) = (r, m)"
      by fastforce
    have "archive_inv env se ee src (ar\<lparr>ar_data_manager := Some m\<rparr>)"
      using archive_invI [OF inv, of "ar\<lparr>ar_data_manager := Some m\<rparr>"] tb
      by (simp add: archive_tables_ok_def)
    then show ?thesis
      using eq x True inv s [of "sqsh_superblock_compression_id env (ar_superblock ar)"
        "sqsh_superblock_block_size env (ar_superblock ar)" "ar_metablock_manager ar"]
      by (auto simp: sqsh__archive_data_extract_manager_def split: if_splits)
  next
    case False
    then have "rv = env_lock env \<and> rv \<noteq> Ok \<and> ar' = ar \<or> rv = Ok \<and> xm = ar_data_manager ar \<and>
        ar_data_manager ar \<noteq> None \<and> ar' = ar"
      using eq by (cases "ar_data_manager ar") (auto simp: sqsh__archive_data_extract_manager_def
          split: if_splits)
    then show ?thesis using inv lk by auto
  qed
qed

section \<open>The inode map of an archive\<close>

definition hash_map_safe :: "'h hash_map_ops \<Rightarrow> bool" where
  "hash_map_safe ho \<longleftrightarrow> safe_rv (hm_mutex ho) \<and> safe_rv (fst (hm_init ho))"

definition archive_map_ok ::
  "'h hash_map_ops \<Rightarrow> ('u, 'c, 'b, 'e, 'x, 'h) sqsh_archive \<Rightarrow> bool" where
  "archive_map_ok ho ar \<longleftrightarrow> (\<forall>i. ar_inode_map ar = Some i \<longrightarrow> inode_map_ok ho i)"

definition inode_map_table_ok ::
  "('c, 'b, 'e) sqsh_env \<Rightarrow> ('u, 'c) map_manager \<Rightarrow> ('u, 'c, 'b, 'h) inode_map \<Rightarrow> bool" where
  "inode_map_table_ok env m i \<longleftrightarrow> (\<forall>t. im_impl i = ExportTableImpl t \<longrightarrow> table_loaded env m 8 t)"

lemma archive_map_okI:
  "hash_map_ok ho \<Longrightarrow> hash_map_total ho \<Longrightarrow> ar_inode_map ar = None \<Longrightarrow> archive_map_ok ho ar"
  by (simp add: archive_map_ok_def)

lemma inode_map_init_inv:
  assumes inv: "archive_inv env se ee src ar" and lk: "safe_rv (env_lock env)"
    and hs: "hash_map_safe ho"
    and eq: "sqsh__inode_map_init env ho ar = (rv, i, ar')"
  shows "safe_rv rv \<and> archive_inv env se ee src ar' \<and> archive_core ar' = archive_core ar \<and>
    (rv = Ok \<longrightarrow> (\<exists>im. i = Some im \<and> inode_map_table_ok env (ar_map_manager ar) im \<and>
      (hash_map_ok ho \<and> hash_map_total ho \<longrightarrow> inode_map_ok ho im)))"
proof (cases "sqsh_superblock_has_export_table env (ar_superblock ar)")
  case True
  obtain r t a where x: "sqsh_archive_export_table env ar = (r, t, a)" by (metis prod_cases3)
  have "rv = r" "ar' = a" "\<And>tb. t = Some tb \<Longrightarrow> \<exists>n. i = Some \<lparr>im_impl = ExportTableImpl tb, im_inode_count = n\<rparr>"
    using eq True x by (auto simp: sqsh__inode_map_init_def export_table_init_def)
  then show ?thesis
    using export_table_inv [OF inv lk x] by (auto simp: inode_map_table_ok_def inode_map_ok_def)
next
  case False
  obtain r h where h: "hm_init ho = (r, h)" by fastforce
  have "ar' = ar" "safe_rv rv"
    using eq False h hs
    by (auto simp: sqsh__inode_map_init_def dyn_map_init_def Let_def hash_map_safe_def split: if_splits)
  moreover have "\<exists>im. i = Some im \<and> im_impl im = DynMapImpl h \<and> r = Ok" if "rv = Ok"
    using eq False h that
    by (auto simp: sqsh__inode_map_init_def dyn_map_init_def Let_def split: if_splits)
  moreover have "buckets_ok ho h" if "r = Ok" "hash_map_ok ho"
    using that h hash_map_okD(1) [OF that(2)] by (simp add: buckets_ok_def)
  ultimately show ?thesis using inv by (auto simp: inode_map_table_ok_def inode_map_ok_def)
qed

lemma inode_map_inv:
  assumes inv: "archive_inv env se ee src ar" and lk: "safe_rv (env_lock env)"
    and hs: "hash_map_safe ho" and eq: "sqsh_archive_inode_map env ho ar = (rv, i, ar')"
  shows "safe_rv rv \<and> archive_inv env se ee src ar' \<and> archive_core ar' = archive_core ar \<and>
    (rv = Ok \<longrightarrow> (\<exists>im. i = Some im \<and> ar_inode_map ar' = Some im \<and>
      inode_map_table_ok env (ar_map_manager ar) im)) \<and>
    (hash_map_ok ho \<and> hash_map_total ho \<and> archive_map_ok ho ar \<longrightarrow>
      rv = Ok \<longrightarrow> inode_map_ok ho (the i))"
proof (cases "env_lock env = Ok \<and> ar_inode_map ar = None")
  case True
  obtain r j a where x: "sqsh__inode_map_init env ho ar = (r, j, a)" by (metis prod_cases3)
  note I = inode_map_init_inv [OF inv lk hs x]
  have e: "rv = r" "r \<noteq> Ok \<Longrightarrow> ar' = a" "r = Ok \<Longrightarrow> i = j \<and> ar' = a\<lparr>ar_inode_map := j\<rparr>"
    using eq True x by (auto simp: sqsh_archive_inode_map_def split: if_splits)
  show ?thesis
  proof (cases "r = Ok")
    case False
    then show ?thesis using I e by simp
  next
    case ok: True
    then obtain im where im: "j = Some im" "inode_map_table_ok env (ar_map_manager ar) im"
      "hash_map_ok ho \<and> hash_map_total ho \<longrightarrow> inode_map_ok ho im" using I by blast
    have core: "ar_map_manager a = ar_map_manager ar" using I archive_coreD(1) by blast
    have "archive_tables_ok env (a\<lparr>ar_inode_map := Some im\<rparr>)"
      using I im(2) by (simp add: archive_inv_def archive_tables_ok_def inode_map_table_ok_def core)
    then have "archive_inv env se ee src (a\<lparr>ar_inode_map := Some im\<rparr>)"
      using I archive_invI [of env se ee src a "a\<lparr>ar_inode_map := Some im\<rparr>"] by simp
    then show ?thesis using I e ok im by simp
  qed
next
  case False
  then have "rv = env_lock env \<and> rv \<noteq> Ok \<and> ar' = ar \<or>
      (\<exists>im. rv = Ok \<and> i = Some im \<and> ar_inode_map ar = Some im \<and> ar' = ar)"
    using eq by (cases "ar_inode_map ar") (auto simp: sqsh_archive_inode_map_def split: if_splits)
  then show ?thesis
    using inv lk by (auto simp: archive_inv_def archive_tables_ok_def inode_map_table_ok_def
        archive_map_ok_def)
qed

text \<open>Lookups and registrations are safe, and a registration keeps the shape of the map.\<close>

lemma inode_map_get_safe:
  assumes ok: "archive_ok env se ee src ar" and lk: "safe_rv (env_lock env)"
    and t: "inode_map_table_ok env (ar_map_manager ar) i"
    and eq: "sqsh_inode_map_get2 env ho ar i n = (rv, r)"
  shows "safe_rv rv"
proof (cases "im_impl i")
  case (ExportTableImpl t')
  have "table_loaded env (ar_map_manager ar) 8 t'"
    using t ExportTableImpl by (simp add: inode_map_table_ok_def)
  then have s: "safe_rv (fst (sqsh_table_get env ar t' (n - 1)))"
    using table_loaded_get(1) [OF ok] by (metis prod.collapse zero_less_numeral)
  then show ?thesis
    using eq ExportTableImpl
    by (auto simp: sqsh_inode_map_get2_def export_table_get_def sqsh_export_table_resolve_inode2_def
        split: prod.splits if_splits)
next
  case (DynMapImpl h)
  then show ?thesis using eq lk by (auto simp: dyn_get split: if_splits option.splits)
qed

lemma inode_map_set_safe:
  assumes ok: "archive_ok env se ee src ar" and lk: "safe_rv (env_lock env)"
    and t: "inode_map_table_ok env (ar_map_manager ar) i"
    and eq: "sqsh_inode_map_set2 env ho ar i n r = (rv, i')"
  shows "safe_rv rv" "inode_map_table_ok env m i \<Longrightarrow> inode_map_table_ok env m i'"
proof -
  have "safe_rv rv \<and> (inode_map_table_ok env m i \<longrightarrow> inode_map_table_ok env m i')"
  proof (cases "im_impl i")
    case (ExportTableImpl t')
    obtain e q where g: "sqsh_inode_map_get2 env ho ar i n = (e, q)" by fastforce
    show ?thesis
      using inode_map_get_safe [OF ok lk t g] eq g
        export_table_set_unchanged [OF ExportTableImpl, of env ho ar n r]
      by (auto split: if_splits)
  next
    case (DynMapImpl h)
    then show ?thesis using eq lk
      by (auto simp: sqsh_inode_map_set2_def dyn_map_set_def Let_def inode_map_table_ok_def
          split: option.splits prod.splits if_splits)
  qed
  then show "safe_rv rv" "inode_map_table_ok env m i \<Longrightarrow> inode_map_table_ok env m i'" by simp_all
qed

lemma tiny_sqsh_inv:
  assumes "superblock_check bytes = Ok" "0 < bs" "bs < 2 ^ 64" "length bytes < 2 ^ 52"
  shows "archive_inv tiny_env alist_entries alist_entries (\<lambda>u. u) (tiny_sqsh bs bytes)"
proof -
  let ?m = "tiny_manager bs 0 bytes"
  have m: "manager_ok (env_maps tiny_env) alist_entries (\<lambda>u. u) ?m"
    using tiny_manager_ok [of bs 0 bytes] assms by simp
  obtain rv sb where i: "sqsh__superblock_init tiny_env ?m = (rv, sb)" by fastforce
  have "rv = Ok" using superblock_init_correct [OF _ m i] assms(1,4) tiny_manager_live [of bs 0 bytes]
    by (simp add: tiny_archive)
  then have "sqsh__superblock_init tiny_env ?m = (Ok, ar_superblock (tiny_sqsh bs bytes))"
    using i by (simp add: tiny_sqsh_def)
  moreover have "archive_ok tiny_env alist_entries alist_entries (\<lambda>u. u) (tiny_sqsh bs bytes)"
    by (rule tiny_sqsh_ok [OF assms(2-4)])
  ultimately show ?thesis by (simp add: archive_inv_def archive_tables_ok_def tiny_sqsh_def)
qed

section \<open>Properties\<close>


definition tiny_impls :: "byte list extractor_impls" where
  "tiny_impls = \<lparr>impl_zlib = Some copy_codec, impl_lzma = None, impl_xz = None, impl_lzo = None,
     impl_lz4 = None, impl_zstd = None\<rparr>"


text \<open>
  C31. Loading on first use is invisible: whichever part of an open archive is asked for, the
  archive keeps its invariant and the managers and the superblock that every reader starts from
  stay the same, so that earlier and later readers see the same archive; a table that is returned
  is one that \<^verbatim>\<open>sqsh__table_init\<close> loaded, with the element size of its kind.
\<close>

theorem archive_parts_lazy:
  assumes "archive_inv env se ee src ar" "safe_rv (env_lock env)" "hash_map_safe ho"
  shows "(case sqsh_archive_id_table env ar of (rv, t, ar') \<Rightarrow>
      safe_rv rv \<and> archive_inv env se ee src ar' \<and> archive_core ar' = archive_core ar \<and>
      (rv = Ok \<longrightarrow> (\<exists>tb. t = Some tb \<and> table_loaded env (ar_map_manager ar) 4 tb))) \<and>
    (case sqsh_archive_export_table env ar of (rv, t, ar') \<Rightarrow>
      safe_rv rv \<and> archive_inv env se ee src ar' \<and> archive_core ar' = archive_core ar \<and>
      (rv = Ok \<longrightarrow> (\<exists>tb. t = Some tb \<and> table_loaded env (ar_map_manager ar) 8 tb))) \<and>
    (case sqsh_archive_fragment_table env ar of (rv, t, ar') \<Rightarrow>
      safe_rv rv \<and> archive_inv env se ee src ar' \<and> archive_core ar' = archive_core ar \<and>
      (rv = Ok \<longrightarrow> (\<exists>tb. t = Some tb \<and>
        table_loaded env (ar_map_manager ar) sizeof_SqshDataFragment tb))) \<and>
    (case sqsh_archive_xattr_table env ar of (rv, x, ar') \<Rightarrow>
      safe_rv rv \<and> archive_inv env se ee src ar' \<and> archive_core ar' = archive_core ar \<and>
      (rv = Ok \<longrightarrow> (\<exists>xt. x = Some xt \<and>
        table_loaded env (ar_map_manager ar) sizeof_SqshDataXattrLookupTable (xt_table xt)))) \<and>
    (case sqsh_archive_inode_map env ho ar of (rv, i, ar') \<Rightarrow>
      safe_rv rv \<and> archive_inv env se ee src ar' \<and> archive_core ar' = archive_core ar \<and>
      (rv = Ok \<longrightarrow> i \<noteq> None \<and> ar_inode_map ar' = i))"
  using id_table_inv [OF assms(1,2)] export_table_inv [OF assms(1,2)]
    fragment_table_inv [OF assms(1,2)] xattr_table_inv [OF assms(1,2)]
    inode_map_inv [OF assms(1-3)]
  by (auto split: prod.split)

theorem archive_parts_lazy_witness:
  "\<exists>t ar'. sqsh_archive_id_table tiny_env (tiny_sqsh 128 tiny_archive_bytes) = (Ok, t, ar') \<and>
    archive_inv tiny_env alist_entries alist_entries (\<lambda>u. u) ar'"
proof -
  let ?ar = "tiny_sqsh 128 tiny_archive_bytes"
  have "superblock_check tiny_archive_bytes = Ok" by code_simp
  from tiny_sqsh_inv [OF this] have inv: "archive_inv tiny_env alist_entries alist_entries (\<lambda>u. u) ?ar"
    by (simp add: tiny_archive_length)
  have "fst (sqsh_archive_id_table tiny_env ?ar) = Ok" by code_simp
  then show ?thesis
    using archive_parts_lazy [OF inv, of list_hash_map]
    by (cases "sqsh_archive_id_table tiny_env ?ar")
      (auto simp: tiny_env_def hash_map_safe_def list_hash_map_def)
qed

end
