(* ===== verification/Sqsh_File.thy ===== *)
theory Sqsh_File
  imports Sqsh_Inode Sqsh_ArchiveInv
begin

text \<open>
  Files (\<^verbatim>\<open>libsqsh/src/file/file.c\<close>): an open inode. A file owns a metablock reader whose window is the
  whole inode; loading an inode registers its reference in the inode map of the archive. The
  functions that need the path resolver are in the theory of the tree.

  The pointer to the archive is an argument of the operations; what they change in the archive is
  returned.
\<close>

section \<open>The operations\<close>

definition SQSH_INODE_TYPE_BASIC_DIRECTORY :: nat where "SQSH_INODE_TYPE_BASIC_DIRECTORY = 1"
definition SQSH_INODE_TYPE_BASIC_FILE :: nat where "SQSH_INODE_TYPE_BASIC_FILE = 2"
definition SQSH_INODE_TYPE_BASIC_SYMLINK :: nat where "SQSH_INODE_TYPE_BASIC_SYMLINK = 3"
definition SQSH_INODE_TYPE_BASIC_BLOCK :: nat where "SQSH_INODE_TYPE_BASIC_BLOCK = 4"
definition SQSH_INODE_TYPE_BASIC_CHAR :: nat where "SQSH_INODE_TYPE_BASIC_CHAR = 5"
definition SQSH_INODE_TYPE_BASIC_FIFO :: nat where "SQSH_INODE_TYPE_BASIC_FIFO = 6"
definition SQSH_INODE_TYPE_BASIC_SOCKET :: nat where "SQSH_INODE_TYPE_BASIC_SOCKET = 7"
definition SQSH_INODE_TYPE_EXTENDED_DIRECTORY :: nat where "SQSH_INODE_TYPE_EXTENDED_DIRECTORY = 8"
definition SQSH_INODE_TYPE_EXTENDED_FILE :: nat where "SQSH_INODE_TYPE_EXTENDED_FILE = 9"
definition SQSH_INODE_TYPE_EXTENDED_SYMLINK :: nat where "SQSH_INODE_TYPE_EXTENDED_SYMLINK = 10"
definition SQSH_INODE_TYPE_EXTENDED_BLOCK :: nat where "SQSH_INODE_TYPE_EXTENDED_BLOCK = 11"
definition SQSH_INODE_TYPE_EXTENDED_CHAR :: nat where "SQSH_INODE_TYPE_EXTENDED_CHAR = 12"
definition SQSH_INODE_TYPE_EXTENDED_FIFO :: nat where "SQSH_INODE_TYPE_EXTENDED_FIFO = 13"
definition SQSH_INODE_TYPE_EXTENDED_SOCKET :: nat where "SQSH_INODE_TYPE_EXTENDED_SOCKET = 14"

lemmas inode_type_defs =
  SQSH_INODE_TYPE_BASIC_DIRECTORY_def SQSH_INODE_TYPE_BASIC_FILE_def
  SQSH_INODE_TYPE_BASIC_SYMLINK_def SQSH_INODE_TYPE_BASIC_BLOCK_def
  SQSH_INODE_TYPE_BASIC_CHAR_def SQSH_INODE_TYPE_BASIC_FIFO_def SQSH_INODE_TYPE_BASIC_SOCKET_def
  SQSH_INODE_TYPE_EXTENDED_DIRECTORY_def SQSH_INODE_TYPE_EXTENDED_FILE_def
  SQSH_INODE_TYPE_EXTENDED_SYMLINK_def SQSH_INODE_TYPE_EXTENDED_BLOCK_def
  SQSH_INODE_TYPE_EXTENDED_CHAR_def SQSH_INODE_TYPE_EXTENDED_FIFO_def
  SQSH_INODE_TYPE_EXTENDED_SOCKET_def

datatype sqsh_file_type =
  SQSH_FILE_TYPE_DIRECTORY | SQSH_FILE_TYPE_FILE | SQSH_FILE_TYPE_SYMLINK | SQSH_FILE_TYPE_BLOCK
  | SQSH_FILE_TYPE_CHAR | SQSH_FILE_TYPE_FIFO | SQSH_FILE_TYPE_SOCKET

record ('u, 'c, 'b, 'e, 'x) sqsh_file =
  fl_inode_ref :: nat
  fl_metablock :: "('u, 'c, 'b, 'e, 'x) metablock_reader"
  fl_parent_inode_ref :: nat

definition get_inode ::
  "('c, 'b, 'e) sqsh_env \<Rightarrow> ('u, 'c, 'b, 'e, 'x) sqsh_file \<Rightarrow> byte list" where
  "get_inode env file = sqsh__metablock_reader_data env (fl_metablock file)"

text \<open>The table of a kind; \<open>None\<close> is the null pointer of an unknown kind.\<close>

definition inode_impl_of_type :: "nat \<Rightarrow> sqsh_inode_impl option" where
  "inode_impl_of_type type =
     (if type = SQSH_INODE_TYPE_BASIC_DIRECTORY then Some sqsh__inode_directory_impl
      else if type = SQSH_INODE_TYPE_BASIC_FILE then Some sqsh__inode_file_impl
      else if type = SQSH_INODE_TYPE_BASIC_SYMLINK then Some sqsh__inode_symlink_impl
      else if type = SQSH_INODE_TYPE_BASIC_BLOCK \<or> type = SQSH_INODE_TYPE_BASIC_CHAR
      then Some sqsh__inode_device_impl
      else if type = SQSH_INODE_TYPE_BASIC_FIFO then Some sqsh__inode_ipc_impl
      else if type = SQSH_INODE_TYPE_BASIC_SOCKET then Some sqsh__inode_ipc_impl
      else if type = SQSH_INODE_TYPE_EXTENDED_DIRECTORY then Some sqsh__inode_directory_ext_impl
      else if type = SQSH_INODE_TYPE_EXTENDED_FILE then Some sqsh__inode_file_ext_impl
      else if type = SQSH_INODE_TYPE_EXTENDED_SYMLINK then Some sqsh__inode_symlink_ext_impl
      else if type = SQSH_INODE_TYPE_EXTENDED_BLOCK \<or> type = SQSH_INODE_TYPE_EXTENDED_CHAR
      then Some sqsh__inode_device_ext_impl
      else if type = SQSH_INODE_TYPE_EXTENDED_FIFO then Some sqsh__inode_ipc_ext_impl
      else if type = SQSH_INODE_TYPE_EXTENDED_SOCKET then Some sqsh__inode_ipc_ext_impl
      else None)"

definition get_impl ::
  "('c, 'b, 'e) sqsh_env \<Rightarrow> ('u, 'c, 'b, 'e, 'x) sqsh_file \<Rightarrow> sqsh_inode_impl option" where
  "get_impl env file = inode_impl_of_type (sqsh__data_inode_type (get_inode env file))"

text \<open>
  The size arithmetic of \<^verbatim>\<open>inode_load\<close> is unchecked \<^verbatim>\<open>size_t\<close> arithmetic.
\<close>

definition inode_load ::
  "('c, 'b, 'e) sqsh_env \<Rightarrow> ('u, 'c, 'b, 'e, 'x, 'h) sqsh_archive \<Rightarrow>
   ('u, 'c, 'b, 'e, 'x) sqsh_file \<Rightarrow> rv \<times> ('u, 'c, 'b, 'e, 'x) sqsh_file" where
  "inode_load env archive context =
     (case get_impl env context of
        None \<Rightarrow> (Err SQSH_ERROR_UNKNOWN_FILE_TYPE, context)
      | Some impl \<Rightarrow>
          (let sz = sizeof_SqshDataInodeHeader + ii_header_size impl
           in case sqsh__metablock_reader_advance env (fl_metablock context) 0 sz of (rv, r) \<Rightarrow>
             (let context = context\<lparr>fl_metablock := r\<rparr>
              in if rv \<noteq> Ok then (rv, context)
                 else let payload = ii_payload_size impl (get_inode env context)
                            (sqsh_superblock_block_log env (ar_superblock archive))
                      in if payload = SIZE_MAX then (Err SQSH_ERROR_INTEGER_OVERFLOW, context)
                         else case sqsh__metablock_reader_advance env r 0 (wrap_add sz payload) of
                                (rv, r) \<Rightarrow> (rv, context\<lparr>fl_metablock := r\<rparr>))))"

definition sqsh__file_cleanup ::
  "('c, 'b, 'e) sqsh_env \<Rightarrow> ('u, 'c, 'b, 'e, 'x) sqsh_file \<Rightarrow> rv \<times> ('u, 'c, 'b, 'e, 'x) sqsh_file"
  where
  "sqsh__file_cleanup env inode =
     (case sqsh__metablock_reader_cleanup env (fl_metablock inode) of
        (rv, r) \<Rightarrow> (rv, inode\<lparr>fl_metablock := r\<rparr>))"

definition sqsh_file_inode :: "('c, 'b, 'e) sqsh_env \<Rightarrow> ('u, 'c, 'b, 'e, 'x) sqsh_file \<Rightarrow> nat" where
  "sqsh_file_inode env inode = sqsh__data_inode_number (get_inode env inode)"

text \<open>
  \<^verbatim>\<open>sqsh__file_init\<close>, in the order of the code: the reader, the inode, the inode map. The part up to
  the registration is the first definition; on every error the file is cleaned up. The
  registration changes the inode map that the archive owns.
\<close>

definition file_init_load ::
  "('c, 'b, 'e) sqsh_env \<Rightarrow> ('u, 'c, 'b, 'e, 'x, 'h) sqsh_archive \<Rightarrow>
   ('u, 'c, 'b, 'e, 'x) sqsh_file \<Rightarrow> nat \<Rightarrow> rv \<times> ('u, 'c, 'b, 'e, 'x) sqsh_file" where
  "file_init_load env archive inode inode_ref =
     (let outer_offset = sqsh_address_ref_outer_offset inode_ref;
          inner_offset = sqsh_address_ref_inner_offset inode_ref;
          inode_table_start = sqsh_superblock_inode_table_start env (ar_superblock archive)
      in case add_overflow 64 inode_table_start outer_offset of
           None \<Rightarrow> (Err SQSH_ERROR_INTEGER_OVERFLOW, inode)
         | Some address_outer \<Rightarrow>
             (let upper_limit = sqsh_superblock_directory_table_start env (ar_superblock archive)
              in case andthen
                   (sqsh__metablock_reader_init env (ar_map_manager archive)
                      (ar_metablock_manager archive) address_outer upper_limit (fl_metablock inode))
                   (\<lambda>r. sqsh__metablock_reader_advance env r inner_offset
                      sizeof_SqshDataInodeHeader) of (rv, r) \<Rightarrow>
                (let inode = inode\<lparr>fl_metablock := r\<rparr>
                 in if rv \<noteq> Ok then (rv, inode)
                    else inode_load env archive (inode\<lparr>fl_inode_ref := inode_ref\<rparr>))))"

definition sqsh__file_init ::
  "('c, 'b, 'e) sqsh_env \<Rightarrow> 'h hash_map_ops \<Rightarrow> ('u, 'c, 'b, 'e, 'x, 'h) sqsh_archive \<Rightarrow>
   ('u, 'c, 'b, 'e, 'x) sqsh_file \<Rightarrow> nat \<Rightarrow>
   rv \<times> ('u, 'c, 'b, 'e, 'x) sqsh_file \<times> ('u, 'c, 'b, 'e, 'x, 'h) sqsh_archive" where
  "sqsh__file_init env ho archive inode inode_ref =
     (case file_init_load env archive inode inode_ref of (rv, inode) \<Rightarrow>
        if rv \<noteq> Ok then (rv, snd (sqsh__file_cleanup env inode), archive)
        else case sqsh_archive_inode_map env ho archive of
          (rv, None, archive) \<Rightarrow>
            (if rv = Ok then Fault else rv, snd (sqsh__file_cleanup env inode), archive)
        | (rv, Some inode_map, archive) \<Rightarrow>
            if rv \<noteq> Ok then (rv, snd (sqsh__file_cleanup env inode), archive)
            else case sqsh_inode_map_set2 env ho archive inode_map (sqsh_file_inode env inode)
                        inode_ref of
                   (rv, inode_map) \<Rightarrow>
                     (let archive = archive\<lparr>ar_inode_map := Some inode_map\<rparr>
                      in if rv \<noteq> Ok then (rv, snd (sqsh__file_cleanup env inode), archive)
                         else (Ok, inode\<lparr>fl_parent_inode_ref := SQSH_INODE_REF_NULL\<rparr>, archive)))"

text \<open>The zeroed object the allocation returns, and the opening of a handle.\<close>

definition zero_file ::
  "('c, 'b, 'e) sqsh_env \<Rightarrow> ('u, 'c, 'b, 'e, 'x, 'h) sqsh_archive \<Rightarrow> ('u, 'c, 'b, 'e, 'x) sqsh_file"
  where
  "zero_file env archive = \<lparr>fl_inode_ref = 0,
     fl_metablock = zero_metablock_reader env (ar_map_manager archive) (ar_metablock_manager archive),
     fl_parent_inode_ref = 0\<rparr>"

definition sqsh_open_by_ref ::
  "('c, 'b, 'e) sqsh_env \<Rightarrow> 'h hash_map_ops \<Rightarrow> ('u, 'c, 'b, 'e, 'x, 'h) sqsh_archive \<Rightarrow> nat \<Rightarrow>
   rv \<times> ('u, 'c, 'b, 'e, 'x) sqsh_file option \<times> ('u, 'c, 'b, 'e, 'x, 'h) sqsh_archive" where
  "sqsh_open_by_ref env ho archive inode_ref =
     (case sqsh__file_init env ho archive (zero_file env archive) inode_ref of
        (rv, file, archive) \<Rightarrow> (rv, if rv = Ok then Some file else None, archive))"

section \<open>Accessors\<close>

text \<open>
  The accessors call through the table without a null check; \<open>the\<close> of a missing table is
  unspecified, as the call is. For a file that \<^verbatim>\<open>sqsh__file_init\<close> loaded the table exists.
\<close>

definition file_impl :: "('c, 'b, 'e) sqsh_env \<Rightarrow> ('u, 'c, 'b, 'e, 'x) sqsh_file \<Rightarrow> sqsh_inode_impl" where
  "file_impl env context = the (get_impl env context)"

definition sqsh_file_is_extended where
  "sqsh_file_is_extended env context \<longleftrightarrow> ii_xattr_index (file_impl env context) \<noteq> NullXattrIndex"

definition sqsh_file_hard_link_count where
  "sqsh_file_hard_link_count env context =
     ii_hard_link_count (file_impl env context) (get_inode env context)"

definition sqsh_file_size where
  "sqsh_file_size env context = ii_size (file_impl env context) (get_inode env context)"

definition sqsh_file_permission where
  "sqsh_file_permission env inode = sqsh__data_inode_permissions (get_inode env inode)"

definition sqsh_file_modified_time where
  "sqsh_file_modified_time env inode = sqsh__data_inode_modified_time (get_inode env inode)"

definition sqsh_file_blocks_start where
  "sqsh_file_blocks_start env context =
     ii_blocks_start (file_impl env context) (get_inode env context)"

definition sqsh_file_fragment_block_index where
  "sqsh_file_fragment_block_index env context =
     ii_fragment_block_index (file_impl env context) (get_inode env context)"

definition sqsh_file_has_fragment where
  "sqsh_file_has_fragment env inode \<longleftrightarrow>
     sqsh_file_fragment_block_index env inode \<noteq> SQSH_INODE_NO_FRAGMENT"

definition sqsh_file_block_count2 ::
  "('c, 'b, 'e) sqsh_env \<Rightarrow> ('u, 'c, 'b, 'e, 'x, 'h) sqsh_archive \<Rightarrow>
   ('u, 'c, 'b, 'e, 'x) sqsh_file \<Rightarrow> nat" where
  "sqsh_file_block_count2 env archive context =
     sqsh__block_count (sqsh_file_size env context)
       (sqsh_superblock_block_log env (ar_superblock archive)) (sqsh_file_has_fragment env context)"

definition sqsh_file_block_count ::
  "('c, 'b, 'e) sqsh_env \<Rightarrow> ('u, 'c, 'b, 'e, 'x, 'h) sqsh_archive \<Rightarrow>
   ('u, 'c, 'b, 'e, 'x) sqsh_file \<Rightarrow> nat" where
  "sqsh_file_block_count env archive context =
     (let block_count = sqsh_file_block_count2 env archive context
      in if UINT32_MAX < block_count then UINT32_MAX else block_count)"

definition sqsh_file_block_size2 where
  "sqsh_file_block_size2 env context index =
     sqsh_datablock_size (ii_block_size_info (file_impl env context) (get_inode env context) index)"

definition sqsh_file_block_size where
  "sqsh_file_block_size env context index =
     sqsh_datablock_size (ii_block_size_info (file_impl env context) (get_inode env context) index)"

definition sqsh_file_block_is_compressed2 where
  "sqsh_file_block_is_compressed2 env context index =
     sqsh_datablock_is_compressed
       (ii_block_size_info (file_impl env context) (get_inode env context) index)"

definition sqsh_file_block_is_compressed where
  "sqsh_file_block_is_compressed env context index =
     sqsh_datablock_is_compressed
       (ii_block_size_info (file_impl env context) (get_inode env context) index)"

definition sqsh_file_directory_block_start where
  "sqsh_file_directory_block_start env context =
     ii_directory_block_start (file_impl env context) (get_inode env context)"

definition sqsh_file_directory_block_offset where
  "sqsh_file_directory_block_offset env context =
     ii_directory_block_offset (file_impl env context) (get_inode env context)"

definition sqsh_file_directory_block_offset2 where
  "sqsh_file_directory_block_offset2 env context =
     ii_directory_block_offset (file_impl env context) (get_inode env context)"

definition sqsh_file_directory_parent_inode where
  "sqsh_file_directory_parent_inode env context =
     ii_directory_parent_inode (file_impl env context) (get_inode env context)"

definition sqsh_file_fragment_block_offset where
  "sqsh_file_fragment_block_offset env context =
     ii_fragment_block_offset (file_impl env context) (get_inode env context)"

text \<open>\<open>None\<close> is the branch the code marks unreachable.\<close>

definition file_type_of_type :: "nat \<Rightarrow> sqsh_file_type option" where
  "file_type_of_type type =
     (if type = SQSH_INODE_TYPE_BASIC_DIRECTORY \<or> type = SQSH_INODE_TYPE_EXTENDED_DIRECTORY
      then Some SQSH_FILE_TYPE_DIRECTORY
      else if type = SQSH_INODE_TYPE_BASIC_FILE \<or> type = SQSH_INODE_TYPE_EXTENDED_FILE
      then Some SQSH_FILE_TYPE_FILE
      else if type = SQSH_INODE_TYPE_BASIC_SYMLINK \<or> type = SQSH_INODE_TYPE_EXTENDED_SYMLINK
      then Some SQSH_FILE_TYPE_SYMLINK
      else if type = SQSH_INODE_TYPE_BASIC_BLOCK \<or> type = SQSH_INODE_TYPE_EXTENDED_BLOCK
      then Some SQSH_FILE_TYPE_BLOCK
      else if type = SQSH_INODE_TYPE_BASIC_CHAR \<or> type = SQSH_INODE_TYPE_EXTENDED_CHAR
      then Some SQSH_FILE_TYPE_CHAR
      else if type = SQSH_INODE_TYPE_BASIC_FIFO \<or> type = SQSH_INODE_TYPE_EXTENDED_FIFO
      then Some SQSH_FILE_TYPE_FIFO
      else if type = SQSH_INODE_TYPE_BASIC_SOCKET \<or> type = SQSH_INODE_TYPE_EXTENDED_SOCKET
      then Some SQSH_FILE_TYPE_SOCKET
      else None)"

definition sqsh_file_type ::
  "('c, 'b, 'e) sqsh_env \<Rightarrow> ('u, 'c, 'b, 'e, 'x) sqsh_file \<Rightarrow> sqsh_file_type option" where
  "sqsh_file_type env context =
     file_type_of_type (sqsh__data_inode_type (get_inode env context))"

definition sqsh_file_symlink where
  "sqsh_file_symlink env context =
     ii_symlink_target_path (file_impl env context) (get_inode env context)"

definition sqsh_file_symlink_size where
  "sqsh_file_symlink_size env context =
     ii_symlink_target_size (file_impl env context) (get_inode env context)"

text \<open>The copy of the target path; the null target of an inode of another kind stays null.\<close>

definition sqsh_file_symlink_dup ::
  "('c, 'b, 'e) sqsh_env \<Rightarrow> ('u, 'c, 'b, 'e, 'x) sqsh_file \<Rightarrow> byte list option" where
  "sqsh_file_symlink_dup env inode =
     map_option (take (sqsh_file_symlink_size env inode)) (sqsh_file_symlink env inode)"

definition sqsh_file_device_id where
  "sqsh_file_device_id env context =
     ii_device_id (file_impl env context) (get_inode env context)"

definition sqsh_file_xattr_index where
  "sqsh_file_xattr_index env context =
     xattr_index_of (file_impl env context) (get_inode env context)"

text \<open>The owner: an index into the id table, which is loaded on first use.\<close>

definition inode_get_id ::
  "('c, 'b, 'e) sqsh_env \<Rightarrow> ('u, 'c, 'b, 'e, 'x, 'h) sqsh_archive \<Rightarrow> nat \<Rightarrow>
   nat \<times> ('u, 'c, 'b, 'e, 'x, 'h) sqsh_archive" where
  "inode_get_id env archive idx =
     (case sqsh_archive_id_table env archive of
        (Ok, Some id_table, archive) \<Rightarrow>
          (case sqsh_id_table_get env archive id_table idx of
             (rv, ident) \<Rightarrow> (if rv \<noteq> Ok then UINT32_MAX else ident, archive))
      | (_, _, archive) \<Rightarrow> (UINT32_MAX, archive))"

definition sqsh_file_uid where
  "sqsh_file_uid env archive context =
     inode_get_id env archive (sqsh__data_inode_uid_idx (get_inode env context))"

definition sqsh_file_gid where
  "sqsh_file_gid env archive context =
     inode_get_id env archive (sqsh__data_inode_gid_idx (get_inode env context))"

definition sqsh_file_inode_ref :: "('u, 'c, 'b, 'e, 'x) sqsh_file \<Rightarrow> nat" where
  "sqsh_file_inode_ref context = fl_inode_ref context"

definition sqsh__file_set_parent_inode_ref ::
  "('u, 'c, 'b, 'e, 'x) sqsh_file \<Rightarrow> nat \<Rightarrow> ('u, 'c, 'b, 'e, 'x) sqsh_file" where
  "sqsh__file_set_parent_inode_ref file parent_inode_ref =
     file\<lparr>fl_parent_inode_ref := parent_inode_ref\<rparr>"

text \<open>
  The reference of the parent: the one a walker left, or for a directory the one the inode map has
  for the parent inode number.
\<close>

definition sqsh__file_parent_inode_ref ::
  "('c, 'b, 'e) sqsh_env \<Rightarrow> 'h hash_map_ops \<Rightarrow> ('u, 'c, 'b, 'e, 'x, 'h) sqsh_archive \<Rightarrow>
   ('u, 'c, 'b, 'e, 'x) sqsh_file \<Rightarrow>
   rv \<times> nat \<times> ('u, 'c, 'b, 'e, 'x) sqsh_file \<times> ('u, 'c, 'b, 'e, 'x, 'h) sqsh_archive" where
  "sqsh__file_parent_inode_ref env ho archive file =
     (if fl_parent_inode_ref file \<noteq> SQSH_INODE_REF_NULL
      then (Ok, fl_parent_inode_ref file, file, archive)
      else if sqsh_file_type env file \<noteq> Some SQSH_FILE_TYPE_DIRECTORY
      then (Err SQSH_ERROR_INODE_PARENT_UNSET, SQSH_INODE_REF_NULL, file, archive)
      else case sqsh_archive_inode_map env ho archive of
        (Ok, Some inode_map, archive) \<Rightarrow>
          (case sqsh_inode_map_get2 env ho archive inode_map
                  (sqsh_file_directory_parent_inode env file) of
             (rv, parent_inode_ref) \<Rightarrow>
               if rv = Err SQSH_ERROR_NO_SUCH_ELEMENT
               then (Err SQSH_ERROR_INODE_PARENT_UNSET, parent_inode_ref, file, archive)
               else if rv \<noteq> Ok then (rv, parent_inode_ref, file, archive)
               else (Ok, parent_inode_ref, file\<lparr>fl_parent_inode_ref := parent_inode_ref\<rparr>, archive))
      | (rv, _, archive) \<Rightarrow> (rv, SQSH_INODE_REF_NULL, file, archive))"

definition sqsh__fragment_table_get ::
  "('c, 'b, 'e) sqsh_env \<Rightarrow> ('u, 'c, 'b, 'e, 'x, 'h) sqsh_archive \<Rightarrow> ('u, 'c, 'b) sqsh_table \<Rightarrow>
   ('u, 'c, 'b, 'e, 'x) sqsh_file \<Rightarrow> rv \<times> byte list" where
  "sqsh__fragment_table_get env archive table file =
     sqsh_table_get env archive table (sqsh_file_fragment_block_index env file)"

section \<open>Loading an inode\<close>

lemma metablock_reader_at_window:
  assumes "metablock_reader_at env se ee src B base r pos"
  shows "sqsh__metablock_reader_data env r = window pos (sqsh__metablock_reader_size r) (concat (B base))"
    and "0 < sqsh__metablock_reader_size r \<Longrightarrow>
      pos + sqsh__metablock_reader_size r \<le> length (concat (B base))"
proof -
  note I = metablock_reader_at_in [OF assms]
  note w = metablock_source.data_window [OF I(1)] metablock_source.data_size [OF I(1)]
    metablock_source.data_bound [OF I(1)]
  have r: "reader_mapped (metablock_reader_impl env) (metablock_start env src base) r pos \<or>
    reader_buffered (metablock_reader_impl env) (env_buf env) (metablock_stream env src base)
      (metablock_start env src base) r pos"
    using assms by (simp add: metablock_reader_at_def reader_at_def)
  then show "sqsh__metablock_reader_data env r
      = window pos (sqsh__metablock_reader_size r) (concat (B base))"
  proof
    assume m: "reader_mapped (metablock_reader_impl env) (metablock_start env src base) r pos"
    show ?thesis
    proof (cases "rd_data r = RNull")
      case True
      then show ?thesis using m by (auto simp: reader_mapped_def sqsh__metablock_reader_data_def
            sqsh__reader_data_def sqsh__metablock_reader_size_def sqsh__reader_size_def)
    next
      case False
      then have "rd_data r = RIter (rd_offset r)"
        "rd_offset r + rd_size r \<le> ri_size (metablock_reader_impl env) (rd_iterator r)"
        "pos = metablock_start env src base (rd_iterator r) + rd_offset r"
        using m by (auto simp: reader_mapped_def)
      then show ?thesis unfolding sqsh__metablock_reader_data_def sqsh__reader_data_def
          sqsh__metablock_reader_size_def sqsh__reader_size_def I(2) [symmetric]
        by (subst w(1)) (simp add: window_window)
    qed
  qed (simp add: reader_buffered_def sqsh__metablock_reader_data_def sqsh__reader_data_def
      sqsh__metablock_reader_size_def sqsh__reader_size_def I(2) window_at_0)
  show "pos + sqsh__metablock_reader_size r \<le> length (concat (B base))"
    if "0 < sqsh__metablock_reader_size r"
    using r w(3) I(2) that by (auto simp: reader_mapped_def reader_buffered_def
        sqsh__metablock_reader_size_def sqsh__reader_size_def)
qed

text \<open>The length of an inode with its variable part, from its bytes on.\<close>

definition inode_bytes :: "sqsh_inode_impl \<Rightarrow> byte list \<Rightarrow> nat \<Rightarrow> nat" where
  "inode_bytes impl s lg = inode_fixed_size impl + ii_payload_size impl s lg"

lemma inode_impl_kind: "inode_impl_of_type ty = Some impl \<Longrightarrow> impl \<in> inode_kinds"
  by (auto simp: inode_impl_of_type_def inode_kinds_def split: if_splits)

lemma block_count_bound:
  assumes "12 \<le> lg" "n < 2 ^ 64" shows "sqsh__block_count n lg h \<le> 2 ^ 52"
proof -
  have p: "(2::nat) ^ 12 \<le> 2 ^ lg" using assms(1) by (intro power_increasing) simp_all
  have "n div 2 ^ lg \<le> n div 2 ^ 12" using p by (intro div_le_mono2) simp_all
  moreover have "n div 2 ^ 12 < 2 ^ 52" using assms(2) by (simp add: less_mult_imp_div_less)
  ultimately show ?thesis
    by (auto simp: sqsh__block_count_def sqsh_block_count_ceil_div divide_ceil_def)
qed

lemma payload_bound:
  assumes "impl \<in> inode_kinds" "12 \<le> lg"
  shows "ii_payload_size impl s lg \<le> 2 ^ 54"
proof -
  have b4: "get_le 4 off bs < 2 ^ 64" "get_le 4 off bs \<le> 2 ^ 54" "get_le 4 off bs + 4 \<le> 2 ^ 54"
    for off bs using get_le_bound [of 4 off bs] by simp_all
  have f: "(case mul_overflow 64 (calc_block_count lg n fr) 4 of None \<Rightarrow> SIZE_MAX | Some r \<Rightarrow> r)
      \<le> 2 ^ 54" if "n < 2 ^ 64" for n fr
  proof -
    let ?k = "sqsh__block_count n lg (fr \<noteq> SQSH_INODE_NO_FRAGMENT)"
    have "?k \<le> 2 ^ 52" using block_count_bound [OF assms(2) that] .
    then show ?thesis by (simp add: calc_block_count_def mul_overflow_def)
  qed
  have 1: "inode_file_payload_size s lg \<le> 2 ^ 54"
    unfolding inode_file_payload_size_def
    by (rule f) (simp only: inode_accessor_defs inode_get_defs b4)
  have 2: "inode_file_ext_payload_size s lg \<le> 2 ^ 54"
    unfolding inode_file_ext_payload_size_def
    by (rule f) (simp only: inode_accessor_defs inode_get_defs get_le_8_bound)
  have 3: "inode_symlink_payload_size s lg \<le> 2 ^ 54" "inode_symlink_ext_payload_size s lg \<le> 2 ^ 54"
    using b4(2,3) unfolding symlink_ext_payload
    by (simp_all only: inode_accessor_defs inode_get_defs)
  show ?thesis
    using assms(1) 1 2 3 unfolding inode_kinds_def
    by (elim insertE emptyE; hypsubst; simp add: inode_impl_defs inode_directory_payload_size_def
        inode_directory_ext_payload_size_def inode_device_payload_size_def inode_ipc_payload_size_def)
qed

lemma inode_load_correct:
  assumes inv: "archive_inv env se ee src ar"
    and at: "metablock_reader_at env se ee src B base (fl_metablock f) pos"
    and n: "sqsh__metablock_reader_size (fl_metablock f) = 16"
    and s: "s = drop pos (concat (B base))"
    and lg: "lg = sqsh_superblock_block_log env (ar_superblock ar)"
    and eq: "inode_load env ar f = (rv, f')"
  shows "safe_rv rv \<and>
    (rv = Ok \<longrightarrow> (\<exists>impl. inode_impl_of_type (sqsh__data_inode_type s) = Some impl \<and>
       get_inode env f' = take (inode_bytes impl s lg) s \<and> inode_bytes impl s lg \<le> length s \<and>
       metablock_reader_at env se ee src B base (fl_metablock f') pos \<and>
       fl_inode_ref f' = fl_inode_ref f)) \<and>
    (\<forall>impl. inode_impl_of_type (sqsh__data_inode_type s) = Some impl \<longrightarrow>
       inode_bytes impl s lg \<le> length s \<longrightarrow> cx_buffer_total (env_buf env) \<longrightarrow>
       metablock_live env src (rd_iterator (fl_metablock f)) \<longrightarrow> rv = Ok)"
proof -
  have g0: "get_inode env f = take 16 s"
    using metablock_reader_at_window(1) [OF at] n by (simp add: get_inode_def s window_def)
  have ty: "get_impl env f = inode_impl_of_type (sqsh__data_inode_type s)"
    by (simp add: get_impl_def g0 inode_get_defs)
  show ?thesis
  proof (cases "inode_impl_of_type (sqsh__data_inode_type s)")
    case None
    then show ?thesis using eq ty by (auto simp: inode_load_def)
  next
    case (Some impl)
    note k = inode_impl_kind [OF Some]
    let ?n = "inode_fixed_size impl"
    have fs: "sizeof_SqshDataInodeHeader + ii_header_size impl = ?n"
      by (simp add: inode_fixed_size_def)
    have nb: "16 \<le> ?n" "?n < 2 ^ 64" "?n \<le> 56" using inode_fixed_size_min [OF k] by simp_all
    have pb: "ii_payload_size impl s lg \<le> 2 ^ 54"
      using payload_bound [OF k] archive_block_log(1) [OF inv] by (simp add: lg)
    have tb: "inode_bytes impl s lg < 2 ^ 64" "?n \<le> inode_bytes impl s lg"
      and w: "wrap_add ?n (ii_payload_size impl s lg) = inode_bytes impl s lg"
      and p: "ii_payload_size impl s lg \<noteq> SIZE_MAX"
      using pb nb by (simp_all add: inode_bytes_def wrap_add_exact SIZE_MAX_def)
    obtain r1 m1 where a1: "sqsh__metablock_reader_advance env (fl_metablock f) 0 ?n = (r1, m1)"
      by fastforce
    have n16: "0 < sqsh__metablock_reader_size (fl_metablock f)"
      "sqsh__metablock_reader_size (fl_metablock f) \<le> ?n" using n nb by simp_all
    note A = metablock_reader_extend [OF at n16 nb(2) a1]
    show ?thesis
    proof (cases "r1 = Ok")
      case False
      then have "rv = r1" using eq ty Some a1 fs by (simp add: inode_load_def Let_def)
      moreover have "?n \<le> inode_bytes impl s lg" by (simp add: inode_bytes_def)
      ultimately show ?thesis using A False Some nb by (auto simp: s)
    next
      case True
      note A = A [THEN conjunct2, THEN conjunct1, rule_format, OF True]
        A [THEN conjunct2, THEN conjunct2]
      have d: "sqsh__metablock_reader_data env m1 = take ?n s" using A by (simp add: s window_def)
      obtain r2 m2 where a2: "sqsh__metablock_reader_advance env m1 0 (inode_bytes impl s lg)
        = (r2, m2)" by fastforce
      have e: "rv = r2" "f' = f\<lparr>fl_metablock := m2\<rparr>"
        using eq ty Some a1 a2 True p w
        by (simp_all add: inode_load_def Let_def fs get_inode_def d payload_local [OF k] lg
            del: One_nat_def)
      have at1: "metablock_reader_at env se ee src B base m1 pos"
        and n1: "0 < sqsh__metablock_reader_size m1"
          "sqsh__metablock_reader_size m1 \<le> inode_bytes impl s lg"
        using A nb tb by simp_all
      note A2 = metablock_reader_extend [OF at1 n1 tb(1) a2]
      have "length s = length (concat (B base)) - pos" by (simp add: s)
      moreover have "pos + ?n \<le> length (concat (B base))" using A by simp
      ultimately show ?thesis
        using A A2 Some e nb tb by (auto simp: get_inode_def s window_def)
    qed
  qed
qed

text \<open>The decompressed inode table from the position of a reference on.\<close>

definition inode_table_bytes ::
  "('c, 'b, 'e) sqsh_env \<Rightarrow> ('u \<Rightarrow> byte list) \<Rightarrow> ('u, 'c, 'b, 'e, 'x, 'h) sqsh_archive \<Rightarrow> nat \<Rightarrow>
   byte list list \<times> nat" where
  "inode_table_bytes env src ar ref =
     (ar_chain env src ar
        (sqsh_superblock_inode_table_start env (ar_superblock ar) + sqsh_address_ref_outer_offset ref),
      sqsh_address_ref_inner_offset ref)"

text \<open>
  A file is sane when its window is a whole inode: the table of its kind exists, and header, fixed
  part and variable part are inside the window.
\<close>

definition file_sane ::
  "('c, 'b, 'e) sqsh_env \<Rightarrow> ((nat \<Rightarrow> map_slice \<Rightarrow> bool) \<Rightarrow> 'c \<Rightarrow> bool) \<Rightarrow>
   ((nat \<Rightarrow> 'b \<Rightarrow> bool) \<Rightarrow> 'e \<Rightarrow> bool) \<Rightarrow> ('u \<Rightarrow> byte list) \<Rightarrow>
   ('u, 'c, 'b, 'e, 'x, 'h) sqsh_archive \<Rightarrow> ('u, 'c, 'b, 'e, 'x) sqsh_file \<Rightarrow> bool" where
  "file_sane env se ee src ar f \<longleftrightarrow>
     metablock_reader_sane env se ee src (fl_metablock f) \<and> get_impl env f \<noteq> None \<and>
     length (get_inode env f) = inode_bytes (file_impl env f) (get_inode env f)
       (sqsh_superblock_block_log env (ar_superblock ar))"

lemma inode_window_kind:
  assumes "inode_impl_of_type (sqsh__data_inode_type s) = Some impl"
    and "g = take (inode_bytes impl s lg) s" "inode_bytes impl s lg \<le> length s"
  shows "inode_impl_of_type (sqsh__data_inode_type g) = Some impl"
    "length g = inode_bytes impl g lg"
proof -
  note k = inode_impl_kind [OF assms(1)]
  have "16 \<le> inode_bytes impl s lg" using inode_fixed_size_min [OF k] by (simp add: inode_bytes_def)
  then have "sqsh__data_inode_type g = sqsh__data_inode_type s" by (simp add: assms(2) inode_get_defs)
  then show "inode_impl_of_type (sqsh__data_inode_type g) = Some impl" using assms(1) by simp
  have "take (inode_fixed_size impl) g = take (inode_fixed_size impl) s"
    by (simp add: assms(2) inode_bytes_def min_def)
  then have "ii_payload_size impl g lg = ii_payload_size impl s lg"
    using payload_local [OF k, of g lg] payload_local [OF k, of s lg] by simp
  then show "length g = inode_bytes impl g lg" using assms(2,3) by (simp add: inode_bytes_def)
qed

lemma file_window_exact:
  assumes s: "file_sane env se ee src ar f"
    and g: "get_inode env f = window i (length (get_inode env f)) t"
    and impl: "inode_impl_of_type (sqsh__data_inode_type (drop i t)) = Some impl"
  shows "get_inode env f = window i (inode_bytes impl (drop i t)
    (sqsh_superblock_block_log env (ar_superblock ar))) t"
    "get_impl env f = Some impl"
proof -
  let ?g = "get_inode env f" and ?lg = "sqsh_superblock_block_log env (ar_superblock ar)"
  obtain impl2 where impl2: "inode_impl_of_type (sqsh__data_inode_type ?g) = Some impl2"
    "length ?g = inode_bytes impl2 ?g ?lg"
    using s by (auto simp: file_sane_def get_impl_def file_impl_def)
  note k = inode_impl_kind [OF impl2(1)]
  have t: "take n ?g = take n (drop i t)" if "n \<le> length ?g" for n
    using g that by (metis min.absorb1 take_take window_def)
  have "inode_fixed_size impl2 \<le> length ?g" using impl2(2) by (simp add: inode_bytes_def)
  note fx = t [OF this]
  have "get_le 2 0 ?g = get_le 2 0 (take (inode_fixed_size impl2) ?g)"
    using inode_fixed_size_min [OF k] by simp
  also have "\<dots> = get_le 2 0 (drop i t)" using inode_fixed_size_min [OF k] by (simp add: fx)
  finally have "sqsh__data_inode_type ?g = sqsh__data_inode_type (drop i t)" by (simp add: inode_get_defs)
  then have e: "impl2 = impl" using impl impl2(1) by simp
  then show "get_impl env f = Some impl" using impl2(1) by (simp add: get_impl_def)
  have "ii_payload_size impl2 ?g ?lg = ii_payload_size impl2 (drop i t) ?lg"
    using payload_local [OF k, of ?g ?lg] payload_local [OF k, of "drop i t" ?lg] fx by simp
  then have "length ?g = inode_bytes impl (drop i t) ?lg" using impl2(2) e by (simp add: inode_bytes_def)
  then show "?g = window i (inode_bytes impl (drop i t) ?lg) t" using g by simp
qed

lemma file_init_load_correct:
  assumes inv: "archive_inv env se ee src ar" and ref: "ref < 2 ^ 64"
    and lg: "lg = sqsh_superblock_block_log env (ar_superblock ar)"
    and tb: "inode_table_bytes env src ar ref = (blocks, inner)"
    and eq: "file_init_load env ar f0 ref = (rv, f)"
  shows "safe_rv rv \<and>
    (rv = Ok \<longrightarrow> fl_inode_ref f = ref \<and> file_sane env se ee src ar f \<and>
      (chain_reaches blocks inner \<longrightarrow>
        inner + length (get_inode env f) \<le> length (concat blocks) \<and>
        get_inode env f = window inner (length (get_inode env f)) (concat blocks))) \<and>
    (\<forall>impl. chain_reaches blocks inner \<longrightarrow> archive_live env src ar \<longrightarrow>
      inode_impl_of_type (sqsh__data_inode_type (drop inner (concat blocks))) = Some impl \<longrightarrow>
      inner + inode_bytes impl (drop inner (concat blocks)) lg \<le> length (concat blocks) \<longrightarrow> rv = Ok)"
proof -
  let ?a = "sqsh_superblock_inode_table_start env (ar_superblock ar)
    + sqsh_address_ref_outer_offset ref"
  have bl: "blocks = ar_chain env src ar ?a" "inner = sqsh_address_ref_inner_offset ref"
    using tb by (simp_all add: inode_table_bytes_def)
  have ok: "archive_ok env se ee src ar" using inv by (simp add: archive_inv_def)
  show ?thesis
  proof (cases "?a < 2 ^ 64")
    case False
    then have "\<not> chain_reaches blocks inner"
      using ar_chain_reaches_address [of env src ar ?a inner] ok
      by (auto simp: bl archive_ok_def)
    then show ?thesis using eq False by (auto simp: file_init_load_def Let_def add_overflow_def)
  next
    case True
    obtain r1 m1 where i1: "sqsh__metablock_reader_init env (ar_map_manager ar)
        (ar_metablock_manager ar) ?a
        (sqsh_superblock_directory_table_start env (ar_superblock ar)) (fl_metablock f0) = (r1, m1)"
      by fastforce
    note I = archive_reader_init [OF ok True i1]
    obtain r2 m2 where a2: "sqsh__metablock_reader_advance env m1 inner sizeof_SqshDataInodeHeader
        = (r2, m2)" by fastforce
    have e1: "rv = r1" if "r1 \<noteq> Ok"
      using eq True i1 that by (simp add: file_init_load_def Let_def add_overflow_def)
    have e2: "rv = r2" if "r1 = Ok" "r2 \<noteq> Ok"
      using eq True i1 a2 that by (simp add: file_init_load_def Let_def add_overflow_def bl)
    have e3: "inode_load env ar (f0\<lparr>fl_metablock := m2, fl_inode_ref := ref\<rparr>) = (rv, f)"
      if "r1 = Ok" "r2 = Ok"
      using eq True i1 a2 that by (simp add: file_init_load_def Let_def add_overflow_def bl)
    show ?thesis
    proof (cases "r1 = Ok")
      case False
      then show ?thesis using I e1 ar_chain_reaches_address [of env src ar ?a inner] bl by auto
    next
      case r1: True
      have at1: "metablock_reader_at env se ee src (ar_chain env src ar) ?a m1 0"
        and io: "rd_iterator_offset m1 = 0" using I r1 by simp_all
      have sup: "advance_supported m1 inner sizeof_SqshDataInodeHeader"
        by (simp add: advance_supported_def io)
      have h64: "sizeof_SqshDataInodeHeader < 2 ^ 64" by (simp add: inode_sizes)
      have sane1: "metablock_reader_sane env se ee src m1"
        using at1 by (auto simp: metablock_reader_sane_def)
      note S = metablock_reader_advance_safe [OF sane1 sup h64 a2]
      have C: "(r2 = Ok \<longrightarrow> metablock_reader_at env se ee src (ar_chain env src ar) ?a m2 inner) \<and>
          (archive_live env src ar \<and> inner + 16 \<le> length (concat blocks) \<longrightarrow>
            r2 = Ok \<and> metablock_live env src (rd_iterator m2))" if "chain_reaches blocks inner"
      proof -
        have rc: "rd_iterator_offset m1 \<le> inner \<Longrightarrow> chain_reaches (ar_chain env src ar ?a) (0 + inner)"
          using that bl by simp
        show ?thesis
          using metablock_reader_advance_correct [OF at1 sup h64 rc a2] I
            ar_chain_reaches_address [of env src ar ?a inner] chain_reaches_bound [OF that] that bl
          by (auto simp: archive_live_def inode_sizes)
      qed
      show ?thesis
      proof (cases "r2 = Ok")
        case False
        have "\<not> inner + inode_bytes impl s lg \<le> length (concat blocks)"
          if "inode_impl_of_type ty = Some impl" "chain_reaches blocks inner" "archive_live env src ar"
          for impl ty s
        proof
          assume "inner + inode_bytes impl s lg \<le> length (concat blocks)"
          moreover have "16 \<le> inode_bytes impl s lg"
            using inode_fixed_size_min [OF inode_impl_kind [OF that(1)]] by (simp add: inode_bytes_def)
          ultimately have "inner + 16 \<le> length (concat blocks)" by simp
          then show False using C [OF that(2)] that(3) False by simp
        qed
        then show ?thesis using S False e2 [OF r1 False] by auto
      next
        case r2: True
        obtain B base pos where at2: "metablock_reader_at env se ee src B base m2 pos"
          and chain: "chain_reaches blocks inner \<Longrightarrow> B base = blocks \<and> pos = inner"
        proof (cases "chain_reaches blocks inner")
          case True
          then show ?thesis using C r2 bl that by blast
        next
          case False
          then show ?thesis using S r2 that unfolding metablock_reader_sane_def by blast
        qed
        let ?f = "f0\<lparr>fl_metablock := m2, fl_inode_ref := ref\<rparr>"
        have at: "metablock_reader_at env se ee src B base (fl_metablock ?f) pos"
          and n: "sqsh__metablock_reader_size (fl_metablock ?f) = 16"
          using at2 S r2 by (simp_all add: inode_sizes)
        note L = inode_load_correct [OF inv at n refl lg e3 [OF r1 r2]]
        let ?s = "drop pos (concat (B base))"
        have "fl_inode_ref f = ref \<and> file_sane env se ee src ar f \<and>
            length (get_inode env f) \<le> length ?s \<and>
            get_inode env f = take (length (get_inode env f)) ?s" if rvok: "rv = Ok"
        proof -
          obtain impl where impl: "inode_impl_of_type (sqsh__data_inode_type ?s) = Some impl"
            "get_inode env f = take (inode_bytes impl ?s lg) ?s" "inode_bytes impl ?s lg \<le> length ?s"
            "metablock_reader_at env se ee src B base (fl_metablock f) pos" "fl_inode_ref f = ref"
            using L rvok by auto
          note K = inode_window_kind [OF impl(1-3)]
          have "file_sane env se ee src ar f"
            using impl(4) K by (auto simp: file_sane_def metablock_reader_sane_def get_impl_def
                file_impl_def lg)
          then show ?thesis using impl by simp
        qed
        moreover have "inner + length (get_inode env f) \<le> length (concat blocks) \<and>
            get_inode env f = window inner (length (get_inode env f)) (concat blocks)"
          if "chain_reaches blocks inner" "length (get_inode env f) \<le> length ?s"
            "get_inode env f = take (length (get_inode env f)) ?s"
          using that chain [OF that(1)] chain_reaches_bound [OF that(1)] by (auto simp: window_def)
        moreover have "rv = Ok" if "chain_reaches blocks inner" "archive_live env src ar"
            "inode_impl_of_type (sqsh__data_inode_type (drop inner (concat blocks))) = Some impl"
            "inner + inode_bytes impl (drop inner (concat blocks)) lg \<le> length (concat blocks)" for impl
        proof -
          have "16 \<le> inode_bytes impl (drop inner (concat blocks)) lg"
            using inode_fixed_size_min [OF inode_impl_kind [OF that(3)]] by (simp add: inode_bytes_def)
          then have "metablock_live env src (rd_iterator m2)"
            using C [OF that(1)] that(2,4) by simp
          moreover have "inode_impl_of_type (sqsh__data_inode_type ?s) = Some impl"
            "inode_bytes impl ?s lg \<le> length ?s"
            using that(3,4) chain [OF that(1)] by simp_all
          ultimately show ?thesis
            using L that(2) by (simp add: archive_live_def)
        qed
        ultimately show ?thesis using L by blast
      qed
    qed
  qed
qed

lemma file_init_load_exact:
  assumes inv: "archive_inv env se ee src ar" and ref: "ref < 2 ^ 64"
    and tb: "inode_table_bytes env src ar ref = (blocks, inner)"
    and reach: "chain_reaches blocks inner" and live: "archive_live env src ar"
    and impl: "inode_impl_of_type (sqsh__data_inode_type (drop inner (concat blocks))) = Some impl"
    and inside: "inner + inode_bytes impl (drop inner (concat blocks))
      (sqsh_superblock_block_log env (ar_superblock ar)) \<le> length (concat blocks)"
  obtains f where "file_init_load env ar f0 ref = (Ok, f)" "file_sane env se ee src ar f"
    "get_impl env f = Some impl"
    "get_inode env f = window inner (inode_bytes impl (drop inner (concat blocks))
      (sqsh_superblock_block_log env (ar_superblock ar))) (concat blocks)"
proof -
  obtain rv f where i: "file_init_load env ar f0 ref = (rv, f)" by fastforce
  note L = file_init_load_correct [OF inv ref refl tb i]
  have rv: "rv = Ok" using L reach live impl inside by blast
  have s: "file_sane env se ee src ar f"
    and g: "get_inode env f = window inner (length (get_inode env f)) (concat blocks)"
    using L reach rv by simp_all
  show thesis using that [of f] i rv s file_window_exact [OF s g impl] by simp
qed

section \<open>Opening a file by reference\<close>

lemma table_get_core:
  assumes "archive_core ar' = archive_core ar"
  shows "sqsh_table_get env ar' = sqsh_table_get env ar"
  by (intro ext) (simp only: sqsh_table_get_def archive_coreD [OF assms])

lemma inode_map_get_core:
  assumes "archive_core ar' = archive_core ar"
  shows "sqsh_inode_map_get2 env ho ar' = sqsh_inode_map_get2 env ho ar"
  by (intro ext) (simp add: sqsh_inode_map_get2_def export_table_get_def
      sqsh_export_table_resolve_inode2_def table_get_core [OF assms] split: inode_map_impl.split)

lemma archive_map_update:
  assumes inv: "archive_inv env se ee src ar" and i: "inode_map_table_ok env (ar_map_manager ar) i"
  shows "archive_inv env se ee src (ar\<lparr>ar_inode_map := Some i\<rparr>)"
proof -
  have "archive_tables_ok env (ar\<lparr>ar_inode_map := Some i\<rparr>)"
    using inv i by (simp add: archive_inv_def archive_tables_ok_def inode_map_table_ok_def)
  then show ?thesis using archive_invI [OF inv, of "ar\<lparr>ar_inode_map := Some i\<rparr>"] by simp
qed

lemma file_sane_update [simp]:
  "file_sane env se ee src ar (f\<lparr>fl_parent_inode_ref := p\<rparr>) \<longleftrightarrow> file_sane env se ee src ar f"
  by (simp add: file_sane_def get_inode_def get_impl_def file_impl_def)

lemma get_inode_update [simp]: "get_inode env (f\<lparr>fl_parent_inode_ref := p\<rparr>) = get_inode env f"
  by (simp add: get_inode_def)

lemma file_sane_core:
  "archive_core ar' = archive_core ar \<Longrightarrow>
   file_sane env se ee src ar' f \<longleftrightarrow> file_sane env se ee src ar f"
  by (simp add: file_sane_def archive_core_def)

lemma file_init_correct:
  assumes inv: "archive_inv env se ee src ar" and lk: "safe_rv (env_lock env)"
    and hs: "hash_map_safe ho" and ref: "ref < 2 ^ 64"
    and tb: "inode_table_bytes env src ar ref = (blocks, inner)"
    and eq: "sqsh__file_init env ho ar f0 ref = (rv, f, ar')"
  shows "safe_rv rv \<and> archive_inv env se ee src ar' \<and> archive_core ar' = archive_core ar \<and>
    (rv = Ok \<longrightarrow> fl_inode_ref f = ref \<and> fl_parent_inode_ref f = SQSH_INODE_REF_NULL \<and>
      file_sane env se ee src ar' f \<and>
      (chain_reaches blocks inner \<longrightarrow>
        inner + length (get_inode env f) \<le> length (concat blocks) \<and>
        get_inode env f = window inner (length (get_inode env f)) (concat blocks))) \<and>
    (hash_map_ok ho \<and> hash_map_total ho \<and> archive_map_ok ho ar \<longrightarrow> archive_map_ok ho ar' \<and>
      (rv = Ok \<longrightarrow> (\<exists>i. ar_inode_map ar' = Some i \<and>
         sqsh_inode_map_get2 env ho ar' i (sqsh_file_inode env f) = (Ok, ref))))"
proof -
  obtain r1 f1 where l: "file_init_load env ar f0 ref = (r1, f1)" by fastforce
  note L = file_init_load_correct [OF inv ref refl tb l]
  obtain r2 io a2 where m: "sqsh_archive_inode_map env ho ar = (r2, io, a2)" by (rule prod_cases3)
  note M = inode_map_inv [OF inv lk hs m]
  show ?thesis
  proof (cases "r1 = Ok")
    case False
    then show ?thesis using eq l L inv by (auto simp: sqsh__file_init_def)
  next
    case r1: True
    show ?thesis
    proof (cases "r2 = Ok")
      case False
      have mo: "archive_map_ok ho a2" if "archive_map_ok ho ar" "hash_map_ok ho" "hash_map_total ho"
      proof (cases "ar_inode_map a2 = None")
        case True
        then show ?thesis by (simp add: archive_map_ok_def)
      next
        case some: False
        then have "ar_inode_map a2 = ar_inode_map ar"
          using m False
          by (auto simp: sqsh_archive_inode_map_def sqsh__inode_map_init_def export_table_init_def
              sqsh_archive_export_table_def split: option.splits prod.splits if_splits)
        then show ?thesis using that(1) by (simp add: archive_map_ok_def)
      qed
      have "rv = r2 \<and> ar' = a2"
        using eq l r1 m False by (cases io) (auto simp: sqsh__file_init_def)
      then show ?thesis using M mo False by auto
    next
      case r2: True
      then obtain i where i: "io = Some i" "ar_inode_map a2 = Some i"
        "inode_map_table_ok env (ar_map_manager ar) i" using M by auto
      obtain r3 i3 where s: "sqsh_inode_map_set2 env ho a2 i (sqsh_file_inode env f1) ref = (r3, i3)"
        by fastforce
      have inv2: "archive_inv env se ee src a2" and core2: "archive_core a2 = archive_core ar"
        using M by simp_all
      have ok2: "archive_ok env se ee src a2" using inv2 by (simp add: archive_inv_def)
      have i': "inode_map_table_ok env (ar_map_manager a2) i"
        using i(3) archive_coreD(1) [OF core2] by simp
      note S = inode_map_set_safe [OF ok2 lk i' s]
      let ?a = "a2\<lparr>ar_inode_map := Some i3\<rparr>"
      have e: "rv = r3" "ar' = ?a" "rv = Ok \<Longrightarrow> f = f1\<lparr>fl_parent_inode_ref := SQSH_INODE_REF_NULL\<rparr>"
        using eq l r1 m r2 i(1) s by (auto simp: sqsh__file_init_def Let_def split: if_splits)
      have inv3: "archive_inv env se ee src ar'"
        using archive_map_update [OF inv2 S(2) [OF i']] e(2) by simp
      have core3: "archive_core ar' = archive_core ar" using core2 e(2) by simp
      have map: "archive_map_ok ho ar' \<and> (rv = Ok \<longrightarrow>
          sqsh_inode_map_get2 env ho ar' i3 (sqsh_file_inode env f) = (Ok, ref))"
        if "hash_map_ok ho \<and> hash_map_total ho \<and> archive_map_ok ho ar"
      proof -
        have iok: "inode_map_ok ho i" using M that r2 i(1) by simp
        have "inode_map_ok ho i3" using inode_map_ops.put_ok [OF iok s] .
        moreover have "sqsh_inode_map_get2 env ho a2 i3 (sqsh_file_inode env f1) = (Ok, ref)"
          if "r3 = Ok" using inode_map_ops.put_look [OF iok ref s [unfolded that]] .
        moreover have "sqsh_file_inode env f = sqsh_file_inode env f1" if "rv = Ok"
          using e(3) [OF that] by (simp add: sqsh_file_inode_def)
        ultimately show ?thesis
          using e(1,2) inode_map_get_core [of ar' a2 env ho] by (auto simp: archive_map_ok_def)
      qed
      have "file_sane env se ee src ar' f" if "rv = Ok"
        using L r1 e(3) [OF that] by (simp add: file_sane_core [OF core3])
      then show ?thesis using L r1 S(1) e inv3 core3 map by auto
    qed
  qed
qed

section \<open>Properties\<close>


text \<open>An archive with one inode, a named pipe with number 1 and three links.\<close>

definition tiny_inode_archive :: "byte list" where
  "tiny_inode_archive = tiny_superblock 118 @ le_bytes 2 (0x8000 + 20) @ le_bytes 2 6
     @ le_bytes 2 420 @ le_bytes 2 0 @ le_bytes 2 0 @ le_bytes 4 0 @ le_bytes 4 1 @ le_bytes 4 3"

lemma tiny_inode_length: "length tiny_inode_archive = 118"
  by (simp add: tiny_inode_archive_def tiny_superblock_def SQSH_SUPERBLOCK_MAGIC_def)

lemma tiny_inode_inv:
  "archive_inv tiny_env alist_entries alist_entries (\<lambda>u. u) (tiny_sqsh 128 tiny_inode_archive)"
proof -
  have "superblock_check tiny_inode_archive = Ok" by code_simp
  from tiny_sqsh_inv [OF this] show ?thesis by (simp add: tiny_inode_length)
qed

lemma tiny_hash_map: "hash_map_safe list_hash_map"
  by (simp add: hash_map_safe_def list_hash_map_def)

lemma tiny_file_init:
  "fst (sqsh__file_init tiny_env list_hash_map (tiny_sqsh 128 tiny_inode_archive)
    (zero_file tiny_env (tiny_sqsh 128 tiny_inode_archive)) 0) = Ok"
  by code_simp


lemma file_payload:
  assumes "archive_inv env se ee src ar"
    and "file_impl env f = sqsh__inode_file_impl \<or> file_impl env f = sqsh__inode_file_ext_impl"
  shows "ii_payload_size (file_impl env f) (get_inode env f)
      (sqsh_superblock_block_log env (ar_superblock ar)) = 4 * sqsh_file_block_count2 env ar f"
proof -
  let ?s = "get_inode env f" and ?lg = "sqsh_superblock_block_log env (ar_superblock ar)"
  have lg: "12 \<le> ?lg" using archive_block_log(1) [OF assms(1)] by simp
  have b: "sqsh__block_count n ?lg h * 4 < 2 ^ 64" if "n < 2 ^ 64" for n h
    using block_count_bound [OF lg that, of h] by simp
  have "inode_file_size ?s < 2 ^ 64" "inode_file_ext_size ?s < 2 ^ 64"
    using get_le_bound [of 4 12 "drop 16 ?s"] get_le_bound [of 8 8 "drop 16 ?s"]
    by (simp_all add: inode_accessor_defs inode_get_defs inode_sizes)
  from this [THEN b] show ?thesis using assms(2)
    by (auto simp: sqsh_file_block_count2_def sqsh_file_size_def sqsh_file_has_fragment_def
        sqsh_file_fragment_block_index_def inode_impl_defs inode_file_payload_size_def
        inode_file_ext_payload_size_def calc_block_count_def mul_overflow_def)
qed

lemma file_impl_of_type:
  assumes "inode_impl_of_type ty = Some impl"
  shows "file_type_of_type ty \<noteq> None"
    and "file_type_of_type ty = Some SQSH_FILE_TYPE_FILE \<Longrightarrow>
      impl = sqsh__inode_file_impl \<or> impl = sqsh__inode_file_ext_impl"
  using assms
  by (auto simp: inode_impl_of_type_def file_type_of_type_def inode_type_defs split: if_splits)

lemma symlink_kinds:
  assumes "impl \<in> inode_kinds" "ii_symlink_target_path impl s = Some p"
  shows "impl = sqsh__inode_symlink_impl \<or> impl = sqsh__inode_symlink_ext_impl"
  using assms unfolding inode_kinds_def
  by (elim insertE emptyE; hypsubst; simp add: inode_impl_defs
      sqsh__file_inode_null_symlink_target_path_def)

lemma symlink_payload:
  assumes "impl \<in> inode_kinds" "ii_symlink_target_path impl s = Some p"
    and "length s = inode_bytes impl s lg"
  shows "ii_symlink_target_size impl s \<le> length p"
  using symlink_kinds [OF assms(1,2)]
proof
  assume i: "impl = sqsh__inode_symlink_impl"
  have "length s = 24 + inode_symlink_target_size s" "p = drop 8 (drop 16 s)"
    using assms(2,3) unfolding i
    by (simp_all add: sqsh__inode_symlink_impl_def inode_bytes_def inode_fixed_size_def
        inode_symlink_payload_size_def inode_symlink_target_path_def inode_get_defs inode_sizes)
  then show ?thesis unfolding i by (simp add: sqsh__inode_symlink_impl_def)
next
  assume i: "impl = sqsh__inode_symlink_ext_impl"
  have "length s = 28 + inode_symlink_ext_target_size s" "p = drop 8 (drop 16 s)"
    using assms(2,3) unfolding i
    by (simp_all add: sqsh__inode_symlink_ext_impl_def inode_bytes_def inode_fixed_size_def
        symlink_ext_payload inode_symlink_ext_target_path_def inode_get_defs inode_sizes)
  then show ?thesis unfolding i by (simp add: sqsh__inode_symlink_ext_impl_def)
qed



end
