(* ===== verification/Sqsh_FileIterator.thy ===== *)
theory Sqsh_FileIterator
  imports Sqsh_File
begin

unbundle bit_operations_syntax

text \<open>
  The contents of regular files: \<^verbatim>\<open>libsqsh/src/file/file_iterator.c\<close> and \<^verbatim>\<open>fragment_view.c\<close>.
  A file is a sequence of data blocks, stored compressed, uncompressed or not at all (a hole), and possibly the end of a fragment block that it shares with other files.

  The iterator keeps a copy of the archive and of the extract manager it points to, like the
  readers do. The data pointer is the list of bytes that may be read through it.
\<close>

section \<open>Fragments\<close>

record ('u, 'c, 'b) fragment_view =
  fv_map_reader :: "('u, 'c, 'b) map_reader"
  fv_extract_view :: "'b extract_view"
  fv_data :: "byte list"
  fv_size :: nat

definition apply_fragment ::
  "('c, 'b, 'e) sqsh_env \<Rightarrow> ('u, 'c, 'b) fragment_view \<Rightarrow> ('u, 'c, 'b, 'e, 'x, 'h) sqsh_archive \<Rightarrow>
   ('u, 'c, 'b, 'e, 'x) sqsh_file \<Rightarrow> byte list \<Rightarrow> nat \<Rightarrow> rv \<times> ('u, 'c, 'b) fragment_view" where
  "apply_fragment env view archive file data data_size =
     (let block_log = sqsh_superblock_block_log env (ar_superblock archive);
          offset = sqsh_file_fragment_block_offset env file;
          sz = sqsh_block_remainder (sqsh_file_size env file) block_log mod 2 ^ 32
      in case add_overflow 32 offset sz of
           None \<Rightarrow> (Err SQSH_ERROR_INTEGER_OVERFLOW, view)
         | Some end_offset \<Rightarrow>
             if data_size < end_offset then (Err SQSH_ERROR_SIZE_MISMATCH, view)
             else (Ok, view\<lparr>fv_data := window offset sz data, fv_size := sz\<rparr>))"

definition read_fragment_compressed ::
  "('c, 'b, 'e) sqsh_env \<Rightarrow> 'x extractor_impls \<Rightarrow> rv \<times> 'e \<Rightarrow> ('u, 'c, 'b) fragment_view \<Rightarrow>
   ('u, 'c, 'b, 'e, 'x, 'h) sqsh_archive \<Rightarrow> ('u, 'c, 'b, 'e, 'x) sqsh_file \<Rightarrow>
   rv \<times> ('u, 'c, 'b) fragment_view \<times> ('u, 'c, 'b, 'e, 'x, 'h) sqsh_archive" where
  "read_fragment_compressed env impls cache_init view archive file =
     (case sqsh__archive_data_extract_manager env impls cache_init archive of
        (rv, xm, archive) \<Rightarrow>
          if rv \<noteq> Ok then (rv, view, archive)
          else case xm of None \<Rightarrow> (Fault, view, archive)
          | Some extract_manager \<Rightarrow>
              (case sqsh__extract_view_init env extract_manager (fv_map_reader view) of
                 (rv, ev, extract_manager) \<Rightarrow>
                   (let view = view\<lparr>fv_extract_view := ev\<rparr>;
                        archive = archive\<lparr>ar_data_manager := Some extract_manager\<rparr>
                    in if rv \<noteq> Ok then (rv, view, archive)
                       else case apply_fragment env view archive file
                                   (sqsh__extract_view_data (env_buf env) ev)
                                   (sqsh__extract_view_size ev) of
                              (rv, view) \<Rightarrow> (rv, view, archive))))"

definition read_fragment_uncompressed ::
  "('c, 'b, 'e) sqsh_env \<Rightarrow> ('u, 'c, 'b) fragment_view \<Rightarrow>
   ('u, 'c, 'b, 'e, 'x, 'h) sqsh_archive \<Rightarrow> ('u, 'c, 'b, 'e, 'x) sqsh_file \<Rightarrow>
   rv \<times> ('u, 'c, 'b) fragment_view" where
  "read_fragment_uncompressed env view archive file =
     apply_fragment env view archive file
       (sqsh__map_reader_data (env_maps env) (env_buf env) (fv_map_reader view))
       (sqsh__map_reader_size (fv_map_reader view))"

definition sqsh__fragment_view_init ::
  "('c, 'b, 'e) sqsh_env \<Rightarrow> 'x extractor_impls \<Rightarrow> rv \<times> 'e \<Rightarrow> ('u, 'c, 'b) fragment_view \<Rightarrow>
   ('u, 'c, 'b, 'e, 'x, 'h) sqsh_archive \<Rightarrow> ('u, 'c, 'b, 'e, 'x) sqsh_file \<Rightarrow>
   rv \<times> ('u, 'c, 'b) fragment_view \<times> ('u, 'c, 'b, 'e, 'x, 'h) sqsh_archive" where
  "sqsh__fragment_view_init env impls cache_init view archive file =
     (case sqsh_archive_fragment_table env archive of (rv, table, archive) \<Rightarrow>
        if rv \<noteq> Ok then (rv, view, archive)
        else case table of None \<Rightarrow> (Fault, view, archive)
        | Some table \<Rightarrow>
            (case sqsh__fragment_table_get env archive table file of (rv, fragment_info) \<Rightarrow>
               if rv \<noteq> Ok then (rv, view, archive)
               else let start_address = sqsh__data_fragment_start fragment_info;
                        size_info = sqsh__data_fragment_size_info fragment_info;
                        sz = sqsh_datablock_size size_info;
                        is_compressed = sqsh_datablock_is_compressed size_info;
                        upper_limit = sqsh_superblock_inode_table_start env (ar_superblock archive)
                    in case andthen
                         (sqsh__map_reader_init (env_maps env) (env_buf env) (ar_map_manager archive)
                            start_address upper_limit (fv_map_reader view))
                         (\<lambda>mr. sqsh__map_reader_advance (env_maps env) (env_buf env) mr 0 sz) of
                       (rv, mr) \<Rightarrow>
                         (let view = view\<lparr>fv_map_reader := mr\<rparr>
                          in if rv \<noteq> Ok then (rv, view, archive)
                             else if is_compressed
                             then read_fragment_compressed env impls cache_init view archive file
                             else case read_fragment_uncompressed env view archive file of
                                    (rv, view) \<Rightarrow> (rv, view, archive))))"

definition sqsh__fragment_view_data :: "('u, 'c, 'b) fragment_view \<Rightarrow> byte list" where
  "sqsh__fragment_view_data view = fv_data view"

definition sqsh__fragment_view_size :: "('u, 'c, 'b) fragment_view \<Rightarrow> nat" where
  "sqsh__fragment_view_size view = fv_size view"

definition sqsh__fragment_view_cleanup ::
  "('c, 'b, 'e) sqsh_env \<Rightarrow> ('e, 'x) extract_manager \<Rightarrow> ('u, 'c, 'b) fragment_view \<Rightarrow>
   rv \<times> ('u, 'c, 'b) fragment_view \<times> ('e, 'x) extract_manager" where
  "sqsh__fragment_view_cleanup env manager view =
     (case sqsh__extract_view_cleanup (env_cache env) manager (fv_extract_view view) of
        (_, ev, manager) \<Rightarrow>
          (Ok, view\<lparr>fv_data := [], fv_size := 0, fv_extract_view := ev,
             fv_map_reader := snd (sqsh__map_reader_cleanup (env_maps env) (fv_map_reader view))\<rparr>,
           manager))"

section \<open>The file iterator\<close>

record ('u, 'c, 'b, 'e, 'x, 'h) file_iterator =
  fi_archive :: "('u, 'c, 'b, 'e, 'x, 'h) sqsh_archive"
  fi_file :: "('u, 'c, 'b, 'e, 'x) sqsh_file"
  fi_compression_manager :: "('e, 'x) extract_manager"
  fi_map_reader :: "('u, 'c, 'b) map_reader"
  fi_extract_view :: "'b extract_view"
  fi_fragment_view :: "('u, 'c, 'b) fragment_view"
  fi_sparse_size :: nat
  fi_block_log :: nat
  fi_block_index :: nat
  fi_data :: "byte list"
  fi_size :: nat

record iterator_state =
  is_block_index :: nat
  is_compressed_offset :: nat

definition BLOCK_INDEX_FINISHED :: nat where "BLOCK_INDEX_FINISHED = 0xFFFFFFFFFFFFFFFF"
definition ZERO_BLOCK_SIZE :: nat where "ZERO_BLOCK_SIZE = 16384"

definition is_last_block ::
  "('c, 'b, 'e) sqsh_env \<Rightarrow> ('u, 'c, 'b, 'e, 'x, 'h) file_iterator \<Rightarrow> bool" where
  "is_last_block env iterator =
     (let file = fi_file iterator;
          block_index = fi_block_index iterator;
          block_count = sqsh_file_block_count2 env (fi_archive iterator) file
      in if sqsh_file_has_fragment env file then block_index = block_count
         else block_index = wrap_sub block_count 1)"

definition get_block_size ::
  "('c, 'b, 'e) sqsh_env \<Rightarrow> ('u, 'c, 'b, 'e, 'x, 'h) file_iterator \<Rightarrow> nat" where
  "get_block_size env iterator =
     (let block_log = fi_block_log iterator;
          block_size = push_bit block_log 1;
          remainder = sqsh_block_remainder (sqsh_file_size env (fi_file iterator)) block_log
      in if is_last_block env iterator \<and> \<not> sqsh_file_has_fragment env (fi_file iterator) \<and>
            remainder \<noteq> 0
         then remainder else block_size)"

definition sqsh__file_iterator_init_with_state ::
  "('c, 'b, 'e) sqsh_env \<Rightarrow> 'x extractor_impls \<Rightarrow> rv \<times> 'e \<Rightarrow>
   ('u, 'c, 'b, 'e, 'x, 'h) file_iterator \<Rightarrow> ('u, 'c, 'b, 'e, 'x, 'h) sqsh_archive \<Rightarrow>
   ('u, 'c, 'b, 'e, 'x) sqsh_file \<Rightarrow> iterator_state \<Rightarrow>
   rv \<times> ('u, 'c, 'b, 'e, 'x, 'h) file_iterator" where
  "sqsh__file_iterator_init_with_state env impls cache_init iterator archive file state =
     (if sqsh_file_type env file \<noteq> Some SQSH_FILE_TYPE_FILE
      then (Err SQSH_ERROR_NOT_A_FILE, iterator)
      else case add_overflow 64 (sqsh_file_blocks_start env file) (is_compressed_offset state) of
        None \<Rightarrow> (Err SQSH_ERROR_INTEGER_OVERFLOW, iterator)
      | Some block_address \<Rightarrow>
          (let upper_limit = sqsh_superblock_bytes_used env (ar_superblock archive)
           in case sqsh__archive_data_extract_manager env impls cache_init archive of
                (rv, xm, archive) \<Rightarrow>
                  (let iterator = iterator\<lparr>fi_archive := archive\<rparr>
                   in if rv \<noteq> Ok then (rv, iterator)
                      else case xm of None \<Rightarrow> (Fault, iterator)
                      | Some xm \<Rightarrow>
                          (case sqsh__map_reader_init (env_maps env) (env_buf env)
                                  (ar_map_manager archive) block_address upper_limit
                                  (fi_map_reader iterator) of (rv, mr) \<Rightarrow>
                             (let iterator = iterator\<lparr>fi_compression_manager := xm,
                                    fi_map_reader := mr\<rparr>
                              in if rv \<noteq> Ok then (rv, iterator)
                                 else (Ok, iterator\<lparr>fi_block_index := is_block_index state,
                                   fi_block_log :=
                                     sqsh_superblock_block_log env (ar_superblock archive),
                                   fi_file := file, fi_sparse_size := 0\<rparr>))))))"

definition sqsh__file_iterator_init ::
  "('c, 'b, 'e) sqsh_env \<Rightarrow> 'x extractor_impls \<Rightarrow> rv \<times> 'e \<Rightarrow>
   ('u, 'c, 'b, 'e, 'x, 'h) file_iterator \<Rightarrow> ('u, 'c, 'b, 'e, 'x, 'h) sqsh_archive \<Rightarrow>
   ('u, 'c, 'b, 'e, 'x) sqsh_file \<Rightarrow> rv \<times> ('u, 'c, 'b, 'e, 'x, 'h) file_iterator" where
  "sqsh__file_iterator_init env impls cache_init iterator archive file =
     sqsh__file_iterator_init_with_state env impls cache_init iterator archive file
       \<lparr>is_block_index = 0, is_compressed_offset = 0\<rparr>"

text \<open>\<^verbatim>\<open>sqsh_file_iterator_new\<close> initialises cleared memory; \<open>None\<close> is the null pointer.\<close>

definition zero_file_iterator ::
  "('c, 'b, 'e) sqsh_env \<Rightarrow> ('u, 'c, 'b, 'e, 'x, 'h) sqsh_archive \<Rightarrow> ('u, 'c, 'b, 'e, 'x) sqsh_file \<Rightarrow>
   ('u, 'c, 'b, 'e, 'x, 'h) file_iterator" where
  "zero_file_iterator env ar f = \<lparr>fi_archive = ar, fi_file = f,
     fi_compression_manager = ar_metablock_manager ar,
     fi_map_reader = zero_map_reader env (ar_map_manager ar), fi_extract_view = zero_extract_view,
     fi_fragment_view = \<lparr>fv_map_reader = zero_map_reader env (ar_map_manager ar),
       fv_extract_view = zero_extract_view, fv_data = [], fv_size = 0\<rparr>,
     fi_sparse_size = 0, fi_block_log = 0, fi_block_index = 0, fi_data = [], fi_size = 0\<rparr>"

definition sqsh_file_iterator_new ::
  "('c, 'b, 'e) sqsh_env \<Rightarrow> 'x extractor_impls \<Rightarrow> rv \<times> 'e \<Rightarrow> ('u, 'c, 'b, 'e, 'x, 'h) sqsh_archive \<Rightarrow>
   ('u, 'c, 'b, 'e, 'x) sqsh_file \<Rightarrow>
   rv \<times> ('u, 'c, 'b, 'e, 'x, 'h) file_iterator option \<times> ('u, 'c, 'b, 'e, 'x, 'h) sqsh_archive" where
  "sqsh_file_iterator_new env impls cache_init archive file =
     (case sqsh__file_iterator_init env impls cache_init (zero_file_iterator env archive file) archive file of
        (rv, it) \<Rightarrow> (rv, if rv = Ok then Some it else None, fi_archive it))"

definition map_block_compressed ::
  "('c, 'b, 'e) sqsh_env \<Rightarrow> ('u, 'c, 'b, 'e, 'x, 'h) file_iterator \<Rightarrow> nat \<Rightarrow>
   rv \<times> ('u, 'c, 'b, 'e, 'x, 'h) file_iterator" where
  "map_block_compressed env iterator next_offset =
     (let block_index = fi_block_index iterator;
          data_block_size = sqsh_file_block_size2 env (fi_file iterator) block_index
      in case sqsh__map_reader_advance (env_maps env) (env_buf env) (fi_map_reader iterator)
                next_offset data_block_size of (rv, mr) \<Rightarrow>
         (let iterator = iterator\<lparr>fi_map_reader := mr\<rparr>
          in if rv \<noteq> Ok then (rv, iterator)
             else case sqsh__extract_view_init env (fi_compression_manager iterator) mr of
               (rv, view, manager) \<Rightarrow>
                 (let iterator = iterator\<lparr>fi_extract_view := view, fi_compression_manager := manager\<rparr>
                  in if rv \<noteq> Ok then (rv, iterator)
                     else let iterator = iterator\<lparr>
                                fi_data := sqsh__extract_view_data (env_buf env) view,
                                fi_size := sqsh__extract_view_size view\<rparr>
                          in if fi_size iterator \<noteq> get_block_size env iterator
                             then (Err SQSH_ERROR_SIZE_MISMATCH, iterator)
                             else case add_overflow 64 block_index 1 of
                               None \<Rightarrow> (Err SQSH_ERROR_INTEGER_OVERFLOW,
                                         iterator\<lparr>fi_block_index := wrap_add block_index 1\<rparr>)
                             | Some next \<Rightarrow> (Ok, iterator\<lparr>fi_block_index := next\<rparr>))))"

text \<open>
  The loop of \<^verbatim>\<open>map_block_uncompressed\<close>, which collects consecutive uncompressed blocks; its variables
  are the block index and the collected size.
\<close>

function uncompressed_loop ::
  "('c, 'b, 'e) sqsh_env \<Rightarrow> nat \<Rightarrow> nat \<Rightarrow> nat \<Rightarrow> ('u, 'c, 'b, 'e, 'x, 'h) file_iterator \<Rightarrow> nat \<Rightarrow> nat \<Rightarrow>
   rv \<times> ('u, 'c, 'b, 'e, 'x, 'h) file_iterator \<times> nat \<times> nat" where
  "uncompressed_loop env desired_size remaining_direct block_count iterator block_index outer_size =
     (if fi_sparse_size iterator = 0 \<and> block_index < block_count then
        if sqsh_file_block_is_compressed2 env (fi_file iterator) block_index
        then (Ok, iterator, block_index, outer_size)
        else if desired_size \<le> outer_size then (Ok, iterator, block_index, outer_size)
        else let data_block_size = sqsh_file_block_size2 env (fi_file iterator) block_index;
                 iterator = iterator\<lparr>fi_block_index := block_index\<rparr>
             in if get_block_size env iterator < data_block_size
                then (Err SQSH_ERROR_SIZE_MISMATCH, iterator, block_index, outer_size)
                else let iterator = (if block_index + 1 \<noteq> block_count
                           then iterator\<lparr>fi_sparse_size :=
                                  wrap_sub (push_bit (fi_block_log iterator) 1) data_block_size\<rparr>
                           else iterator)
                     in case add_overflow 64 outer_size data_block_size of
                          None \<Rightarrow> (Err SQSH_ERROR_INTEGER_OVERFLOW, iterator, block_index, outer_size)
                        | Some new_outer_size \<Rightarrow>
                            if remaining_direct < new_outer_size \<and> 0 < outer_size
                            then (Ok, iterator, block_index, outer_size)
                            else uncompressed_loop env desired_size remaining_direct block_count
                                   iterator (block_index + 1) new_outer_size
      else (Ok, iterator, block_index, outer_size))"
  by pat_completeness auto
termination
  by (relation "measure (\<lambda>(env, desired, direct, count, iterator, index, outer). count - index)") auto

declare uncompressed_loop.simps [simp del]

definition map_block_uncompressed ::
  "('c, 'b, 'e) sqsh_env \<Rightarrow> ('u, 'c, 'b, 'e, 'x, 'h) file_iterator \<Rightarrow> nat \<Rightarrow> nat \<Rightarrow>
   rv \<times> ('u, 'c, 'b, 'e, 'x, 'h) file_iterator" where
  "map_block_uncompressed env iterator next_offset desired_size =
     (let reader = fi_map_reader iterator;
          block_count = sqsh_file_block_count2 env (fi_archive iterator) (fi_file iterator);
          remaining_direct = sqsh__map_reader_remaining_direct reader
      in case uncompressed_loop env desired_size remaining_direct block_count iterator
                (fi_block_index iterator) 0 of
           (rv, iterator, block_index, outer_size) \<Rightarrow>
             if rv \<noteq> Ok then (rv, iterator)
             else case sqsh__map_reader_advance (env_maps env) (env_buf env) reader next_offset
                         outer_size of (rv, mr) \<Rightarrow>
               (let iterator = iterator\<lparr>fi_map_reader := mr\<rparr>
                in if rv \<noteq> Ok then (rv, iterator)
                   else (Ok, iterator\<lparr>fi_data := sqsh__map_reader_data (env_maps env) (env_buf env) mr,
                                     fi_size := outer_size, fi_block_index := block_index\<rparr>)))"

text \<open>The zero block of an archive is allocated cleared and never written.\<close>

definition sqsh__archive_zero_block :: "byte list" where
  "sqsh__archive_zero_block = replicate ZERO_BLOCK_SIZE 0"

definition sqsh__archive_zero_block_size :: nat where
  "sqsh__archive_zero_block_size = ZERO_BLOCK_SIZE"

definition map_zero_block ::
  "('u, 'c, 'b, 'e, 'x, 'h) file_iterator \<Rightarrow> rv \<times> ('u, 'c, 'b, 'e, 'x, 'h) file_iterator" where
  "map_zero_block iterator =
     (let zero_block_size = sqsh__archive_zero_block_size;
          current_sparse_size = fi_sparse_size iterator;
          current_sparse_size = (if zero_block_size < current_sparse_size then zero_block_size
                                 else current_sparse_size)
      in (Ok, iterator\<lparr>fi_sparse_size := fi_sparse_size iterator - current_sparse_size,
                fi_size := current_sparse_size, fi_data := sqsh__archive_zero_block\<rparr>))"

definition map_block ::
  "('c, 'b, 'e) sqsh_env \<Rightarrow> ('u, 'c, 'b, 'e, 'x, 'h) file_iterator \<Rightarrow> nat \<Rightarrow>
   rv \<times> ('u, 'c, 'b, 'e, 'x, 'h) file_iterator" where
  "map_block env iterator desired_size =
     (let file = fi_file iterator; block_index = fi_block_index iterator;
          is_compressed = sqsh_file_block_is_compressed2 env file block_index;
          data_block_size = sqsh_file_block_size2 env file block_index;
          next_offset = sqsh__map_reader_size (fi_map_reader iterator)
      in if data_block_size = 0
         then case map_zero_block (iterator\<lparr>fi_sparse_size := get_block_size env iterator\<rparr>) of
                (rv, iterator) \<Rightarrow>
                  (rv, iterator\<lparr>fi_block_index := wrap_add (fi_block_index iterator) 1\<rparr>)
         else if is_compressed then map_block_compressed env iterator next_offset
         else map_block_uncompressed env iterator next_offset desired_size)"

definition map_fragment ::
  "('c, 'b, 'e) sqsh_env \<Rightarrow> 'x extractor_impls \<Rightarrow> rv \<times> 'e \<Rightarrow>
   ('u, 'c, 'b, 'e, 'x, 'h) file_iterator \<Rightarrow> rv \<times> ('u, 'c, 'b, 'e, 'x, 'h) file_iterator" where
  "map_fragment env impls cache_init iterator =
     (case sqsh_archive_fragment_table env (fi_archive iterator) of (rv, _, archive) \<Rightarrow>
        (let iterator = iterator\<lparr>fi_archive := archive\<rparr>
         in if rv \<noteq> Ok then (rv, iterator)
            else case sqsh__fragment_view_init env impls cache_init (fi_fragment_view iterator)
                        archive (fi_file iterator) of
              (rv, view, archive) \<Rightarrow>
                (let iterator = iterator\<lparr>fi_archive := archive, fi_fragment_view := view\<rparr>
                 in if rv \<noteq> Ok then (rv, iterator)
                    else (Ok, iterator\<lparr>fi_data := sqsh__fragment_view_data view,
                                fi_size := sqsh__fragment_view_size view,
                                fi_block_index := BLOCK_INDEX_FINISHED\<rparr>))))"

definition sqsh_file_iterator_is_zero_block :: "('u, 'c, 'b, 'e, 'x, 'h) file_iterator \<Rightarrow> bool" where
  "sqsh_file_iterator_is_zero_block iterator \<longleftrightarrow> 0 < fi_sparse_size iterator"

definition sqsh_file_iterator_next ::
  "('c, 'b, 'e) sqsh_env \<Rightarrow> 'x extractor_impls \<Rightarrow> rv \<times> 'e \<Rightarrow>
   ('u, 'c, 'b, 'e, 'x, 'h) file_iterator \<Rightarrow> nat \<Rightarrow>
   bool \<times> rv \<times> ('u, 'c, 'b, 'e, 'x, 'h) file_iterator" where
  "sqsh_file_iterator_next env impls cache_init iterator desired_size =
     (let file = fi_file iterator;
          block_count = sqsh_file_block_count2 env (fi_archive iterator) file;
          has_fragment = sqsh_file_has_fragment env file
      in case sqsh__extract_view_cleanup (env_cache env) (fi_compression_manager iterator)
                (fi_extract_view iterator) of (_, view, manager) \<Rightarrow>
         (let iterator = iterator\<lparr>fi_extract_view := view, fi_compression_manager := manager\<rparr>;
              desired_size = (if desired_size = 0 then 1 else desired_size)
          in case
               (if sqsh_file_iterator_is_zero_block iterator
                then (True, map_zero_block iterator)
                else if fi_block_index iterator < block_count
                then (True, map_block env iterator desired_size)
                else if has_fragment \<and> fi_block_index iterator = block_count
                then (True, map_fragment env impls cache_init iterator)
                else (False, Ok, iterator\<lparr>fi_data := [], fi_size := 0\<rparr>)) of
               (has_next, rv, iterator) \<Rightarrow> (if rv \<noteq> Ok then False else has_next, rv, iterator)))"

definition sqsh_file_iterator_size :: "('u, 'c, 'b, 'e, 'x, 'h) file_iterator \<Rightarrow> nat" where
  "sqsh_file_iterator_size iterator = fi_size iterator"

text \<open>The bytes a caller may read through the data pointer.\<close>

definition sqsh_file_iterator_data :: "('u, 'c, 'b, 'e, 'x, 'h) file_iterator \<Rightarrow> byte list" where
  "sqsh_file_iterator_data iterator = take (fi_size iterator) (fi_data iterator)"

definition sqsh_file_iterator_block_size :: "('u, 'c, 'b, 'e, 'x, 'h) file_iterator \<Rightarrow> nat" where
  "sqsh_file_iterator_block_size iterator = push_bit (fi_block_log iterator) 1"

text \<open>
  The two loops of \<^verbatim>\<open>sqsh_file_iterator_skip2\<close>: the first adds up the sizes of the blocks that are
  skipped, the second iterates until the chunk that holds the offset. Every chunk uses up at least
  one unit of \<open>file_fuel\<close>.
\<close>

fun skip_forward ::
  "('c, 'b, 'e) sqsh_env \<Rightarrow> ('u, 'c, 'b, 'e, 'x) sqsh_file \<Rightarrow> nat \<Rightarrow> nat \<Rightarrow> nat \<Rightarrow> nat \<Rightarrow> nat \<times> nat" where
  "skip_forward env file block_count 0 block_index reader_forward = (block_index, reader_forward)"
| "skip_forward env file block_count (Suc i) block_index reader_forward =
     (if block_index < block_count
      then skip_forward env file block_count i (wrap_add block_index 1)
             (wrap_add reader_forward (sqsh_file_block_size2 env file block_index))
      else (block_index, reader_forward))"

definition file_fuel ::
  "('c, 'b, 'e) sqsh_env \<Rightarrow> ('u, 'c, 'b, 'e, 'x, 'h) file_iterator \<Rightarrow> nat" where
  "file_fuel env iterator =
     (let n = sqsh_file_block_count2 env (fi_archive iterator) (fi_file iterator)
      in fi_sparse_size iterator +
         (if fi_block_index iterator \<le> n
          then (n - fi_block_index iterator) * (2 ^ fi_block_log iterator + 1) + 1 else 0))"

fun skip_loop ::
  "nat \<Rightarrow> ('c, 'b, 'e) sqsh_env \<Rightarrow> 'x extractor_impls \<Rightarrow> rv \<times> 'e \<Rightarrow>
   ('u, 'c, 'b, 'e, 'x, 'h) file_iterator \<Rightarrow> nat \<Rightarrow> nat \<Rightarrow>
   rv \<times> nat \<times> ('u, 'c, 'b, 'e, 'x, 'h) file_iterator" where
  "skip_loop 0 env impls cache_init iterator offset desired_size = (Diverge, offset, iterator)"
| "skip_loop (Suc fuel) env impls cache_init iterator offset desired_size =
     (let current_size = sqsh_file_iterator_size iterator
      in if current_size \<le> offset
         then let offset = offset - current_size
              in case sqsh_file_iterator_next env impls cache_init iterator desired_size of
                   (has_next, rv, iterator) \<Rightarrow>
                     if rv \<noteq> Ok then (rv, offset, iterator)
                     else if \<not> has_next then (Err SQSH_ERROR_OUT_OF_BOUNDS, offset, iterator)
                     else skip_loop fuel env impls cache_init iterator offset desired_size
         else (Ok, offset, iterator))"

definition sqsh_file_iterator_skip2 ::
  "('c, 'b, 'e) sqsh_env \<Rightarrow> 'x extractor_impls \<Rightarrow> rv \<times> 'e \<Rightarrow>
   ('u, 'c, 'b, 'e, 'x, 'h) file_iterator \<Rightarrow> nat \<Rightarrow> nat \<Rightarrow>
   rv \<times> nat \<times> ('u, 'c, 'b, 'e, 'x, 'h) file_iterator" where
  "sqsh_file_iterator_skip2 env impls cache_init iterator offset desired_size =
     (let block_log = fi_block_log iterator;
          current_block_size = sqsh_file_iterator_size iterator
      in if offset < current_block_size then (Ok, offset, iterator)
         else let offset = offset - current_block_size;
                  skip_index = sqsh_block_count offset block_log;
                  skip_index = (if current_block_size \<noteq> 0 then skip_index + 1 else skip_index);
                  offset = sqsh_block_remainder offset block_log
              in if skip_index = 0 \<and> fi_block_index iterator \<noteq> 0 then (Ok, offset, iterator)
                 else let block_count = sqsh_file_block_count2 env (fi_archive iterator)
                                          (fi_file iterator)
                      in case skip_forward env (fi_file iterator) block_count skip_index
                                (fi_block_index iterator) 0 of (block_index, reader_forward) \<Rightarrow>
                         case sqsh__map_reader_advance (env_maps env) (env_buf env)
                                (fi_map_reader iterator) reader_forward 0 of (rv, mr) \<Rightarrow>
                         (let iterator = iterator\<lparr>fi_map_reader := mr\<rparr>
                          in if rv \<noteq> Ok then (rv, offset, iterator)
                             else let iterator = iterator\<lparr>fi_sparse_size := 0,
                                                   fi_block_index := block_index\<rparr>
                                  in skip_loop (Suc (file_fuel env iterator + 1)) env impls cache_init
                                       iterator offset desired_size))"

definition sqsh_file_iterator_skip where
  "sqsh_file_iterator_skip env impls cache_init iterator offset desired_size =
     sqsh_file_iterator_skip2 env impls cache_init iterator offset desired_size"

definition sqsh__file_iterator_cleanup ::
  "('c, 'b, 'e) sqsh_env \<Rightarrow> ('u, 'c, 'b, 'e, 'x, 'h) file_iterator \<Rightarrow>
   rv \<times> ('u, 'c, 'b, 'e, 'x, 'h) file_iterator" where
  "sqsh__file_iterator_cleanup env iterator =
     (case sqsh__map_reader_cleanup (env_maps env) (fi_map_reader iterator) of (_, mr) \<Rightarrow>
      case sqsh__extract_view_cleanup (env_cache env) (fi_compression_manager iterator)
             (fi_extract_view iterator) of (_, ev, manager) \<Rightarrow>
      case sqsh__fragment_view_cleanup env manager (fi_fragment_view iterator) of
        (_, fv, manager) \<Rightarrow>
          (Ok, iterator\<lparr>fi_map_reader := mr, fi_extract_view := ev, fi_fragment_view := fv,
             fi_compression_manager := manager\<rparr>))"

section \<open>The blocks of a file\<close>

text \<open>
  Where a block is stored, how many bytes of the file it stands for, and what they are: zeros for a
  hole, else what is stored, decompressed if need be.
\<close>

definition file_block_address where
  "file_block_address env f k =
     sqsh_file_blocks_start env f + (\<Sum>j<k. sqsh_file_block_size2 env f j)"

definition file_block_bytes where
  "file_block_bytes env ar f k =
     (let block_log = sqsh_superblock_block_log env (ar_superblock ar);
          rest = sqsh_file_size env f mod 2 ^ block_log
      in if k + 1 = sqsh_file_block_count2 env ar f \<and> \<not> sqsh_file_has_fragment env f \<and> rest \<noteq> 0
         then rest else 2 ^ block_log)"

definition data_codec where
  "data_codec env impls ar =
     sqsh__extractor_impl_from_id impls (sqsh_superblock_compression_id env (ar_superblock ar))"

definition data_decode where
  "data_decode env impls src ar a n =
     decode (env_buf env) (data_codec env impls ar)
       (2 ^ sqsh_superblock_block_log env (ar_superblock ar)) (window a n (ar_bytes src ar))"

lemma file_block_address_Suc:
  "file_block_address env f (Suc k) = file_block_address env f k + sqsh_file_block_size2 env f k"
  by (simp add: file_block_address_def)

lemma file_block_address_mono: "i \<le> j \<Longrightarrow> file_block_address env f i \<le> file_block_address env f j"
  by (auto simp: file_block_address_def intro!: sum_mono2)

lemma file_block_size_bound: "sqsh_file_block_size2 env f k < 2 ^ 32"
proof -
  have "(n::nat) AND m \<le> m" for n m
    by (metis AND_upper2 of_nat_0_le_iff of_nat_and_eq of_nat_le_iff)
  from this [of _ "0xFFFFFFFF - push_bit 24 1"]
  have "sqsh_file_block_size2 env f k \<le> 0xFFFFFFFF - push_bit 24 1"
    by (simp add: sqsh_file_block_size2_def sqsh_datablock_size_def)
  then show ?thesis by simp
qed


section \<open>The data extract manager\<close>

text \<open>
  The cache of decompressed data blocks is keyed by the address alone. \<open>sizes a\<close> is the size of the
  block at the address, where it matters.
\<close>

definition data_entry where
  "data_entry env impls src ar sizes a b \<longleftrightarrow>
     (\<forall>n. sizes a = Some n \<longrightarrow> data_decode env impls src ar a n = Some (cb_data (env_buf env) b))"

definition data_manager_ok where
  "data_manager_ok env ee impls src sizes ar m \<longleftrightarrow>
     extract_manager_ok (env_cache env) ee (data_entry env impls src ar sizes) m \<and>
     xm_impl m = data_codec env impls ar \<and>
     xm_block_size m = 2 ^ sqsh_superblock_block_log env (ar_superblock ar)"

definition archive_data_ok where
  "archive_data_ok env ee impls src sizes ar \<longleftrightarrow>
     (\<forall>m. ar_data_manager ar = Some m \<longrightarrow> data_manager_ok env ee impls src sizes ar m)"

lemma extract_view_init_correct:
  assumes bo: "cx_buffer_ok (env_buf env)"
    and ok: "extract_manager_ok (env_cache env) ee Q m"
    and Q: "\<And>b. decode (env_buf env) (xm_impl m) (xm_block_size m)
        (sqsh__map_reader_data (env_maps env) (env_buf env) mr) = Some (cb_data (env_buf env) b) \<Longrightarrow>
      Q (mr_address mr) b"
    and eq: "sqsh__extract_view_init env m mr = (rv, v, m')"
  shows "safe_rv rv \<and> (\<exists>c. m' = m\<lparr>xm_cache := c\<rparr>) \<and> extract_manager_ok (env_cache env) ee Q m' \<and>
    (rv = Ok \<longrightarrow> (\<exists>b. Q (mr_address mr) b \<and>
       sqsh__extract_view_data (env_buf env) v = cb_data (env_buf env) b \<and>
       sqsh__extract_view_size v = length (cb_data (env_buf env) b)))"
proof -
  obtain r b m1 where un: "sqsh__extract_manager_uncompress env m mr = (r, b, m1)"
    by (rule prod_cases3)
  have Q': "Q (sqsh__map_reader_address mr) b" if "decode (env_buf env) (xm_impl m) (xm_block_size m)
        (sqsh__map_reader_data (env_maps env) (env_buf env) mr) = Some (cb_data (env_buf env) b)" for b
    using Q that by (simp add: sqsh__map_reader_address_def)
  note U = uncompress_correct [OF bo ok Q' un]
  show ?thesis using U eq un
    by (cases "r = Ok"; cases b) (auto simp: sqsh__extract_view_init_def
        sqsh__extract_view_data_def sqsh__extract_view_size_def cx_buffer_size_def
        sqsh__map_reader_address_def)
qed

lemma data_view_init:
  assumes bo: "cx_buffer_ok (env_buf env)" and m: "data_manager_ok env ee impls src sizes ar m"
    and lay: "sizes (mr_address mr) \<in> {None, Some n}"
    and win: "sqsh__map_reader_data (env_maps env) (env_buf env) mr
      = window (mr_address mr) n (ar_bytes src ar)"
    and eq: "sqsh__extract_view_init env m mr = (rv, v, m')"
  shows "safe_rv rv \<and> data_manager_ok env ee impls src sizes ar m' \<and>
    (rv = Ok \<longrightarrow>
       sqsh__extract_view_size v = length (sqsh__extract_view_data (env_buf env) v) \<and>
       (sizes (mr_address mr) = Some n \<longrightarrow> data_decode env impls src ar (mr_address mr) n
          = Some (sqsh__extract_view_data (env_buf env) v)))"
proof -
  from m have ok: "extract_manager_ok (env_cache env) ee (data_entry env impls src ar sizes) m"
    and im: "xm_impl m = data_codec env impls ar"
      "xm_block_size m = 2 ^ sqsh_superblock_block_log env (ar_superblock ar)"
    by (simp_all add: data_manager_ok_def)
  have Q: "data_entry env impls src ar sizes (mr_address mr) b"
    if "decode (env_buf env) (xm_impl m) (xm_block_size m)
      (sqsh__map_reader_data (env_maps env) (env_buf env) mr) = Some (cb_data (env_buf env) b)" for b
    using that lay unfolding im win by (auto simp: data_entry_def data_decode_def)
  note E = extract_view_init_correct [OF bo ok Q eq]
  then have "data_manager_ok env ee impls src sizes ar m'" using im by (auto simp: data_manager_ok_def)
  moreover have "data_decode env impls src ar (mr_address mr) n
      = Some (sqsh__extract_view_data (env_buf env) v)"
    if "rv = Ok" "sizes (mr_address mr) = Some n"
    using E that by (auto simp: data_entry_def)
  ultimately show ?thesis using E by auto
qed

lemma data_view_cleanup:
  assumes "data_manager_ok env ee impls src sizes ar m"
    and "sqsh__extract_view_cleanup (env_cache env) m view = (rv, view', m')"
  shows "data_manager_ok env ee impls src sizes ar m'"
  using extract_view_cleanup_correct [OF _ assms(2)] assms(1) by (fastforce simp: data_manager_ok_def)

lemma data_manager_core:
  assumes "archive_core ar' = archive_core ar"
  shows "data_manager_ok env ee impls src sizes ar' = data_manager_ok env ee impls src sizes ar"
    "data_decode env impls src ar' = data_decode env impls src ar"
    "data_codec env impls ar' = data_codec env impls ar"
proof -
  note D = archive_coreD [OF assms]
  show c: "data_codec env impls ar' = data_codec env impls ar" by (simp add: data_codec_def D)
  show d: "data_decode env impls src ar' = data_decode env impls src ar"
    by (intro ext) (simp add: data_decode_def c D(2,4))
  show "data_manager_ok env ee impls src sizes ar' = data_manager_ok env ee impls src sizes ar"
    by (intro ext) (simp add: data_manager_ok_def c d data_entry_def [abs_def] D(2))
qed

lemma data_manager_data_ok:
  assumes inv: "archive_inv env se ee src ar" and lk: "safe_rv (env_lock env)"
    and d: "archive_data_ok env ee impls src sizes ar"
    and ci: "safe_rv (fst cache_init)" "\<forall>P. ee P (snd cache_init)"
    and im: "\<forall>c i. sqsh__extractor_impl_from_id impls c = Some i \<longrightarrow> extractor_impl_ok i"
    and eq: "sqsh__archive_data_extract_manager env impls cache_init ar = (rv, xm, ar')"
  shows "safe_rv rv \<and> archive_inv env se ee src ar' \<and> archive_core ar' = archive_core ar \<and>
    ar_fragment_table ar' = ar_fragment_table ar \<and>
    archive_data_ok env ee impls src sizes ar' \<and>
    (rv = Ok \<longrightarrow> (\<exists>m. xm = Some m \<and> ar_data_manager ar' = Some m \<and>
       data_manager_ok env ee impls src sizes ar m))"
proof -
  note M = data_manager_inv [OF inv lk ci(1) eq]
  have cache: "cache_ok (env_cache env) ee"
    using inv by (simp add: archive_inv_def archive_ok_def extract_manager_ok_def)
  have new: "data_manager_ok env ee impls src sizes ar m"
    if "sqsh__extract_manager_init impls cache_init
        (sqsh_superblock_compression_id env (ar_superblock ar))
        (sqsh_superblock_block_size env (ar_superblock ar)) (ar_metablock_manager ar) = (Ok, m)" for m
    using that ci(2) im archive_block_log(2) [OF inv] cache
    by (auto simp: sqsh__extract_manager_init_def data_manager_ok_def extract_manager_ok_def
        data_codec_def Let_def split: if_splits prod.splits)
  have "archive_data_ok env ee impls src sizes ar' \<and> ar_fragment_table ar' = ar_fragment_table ar \<and>
    (rv = Ok \<longrightarrow> (\<exists>m. xm = Some m \<and> ar_data_manager ar' = Some m \<and>
       data_manager_ok env ee impls src sizes ar m))"
  proof (cases "env_lock env = Ok \<and> ar_data_manager ar = None")
    case True
    obtain r m where x: "sqsh__extract_manager_init impls cache_init
        (sqsh_superblock_compression_id env (ar_superblock ar))
        (sqsh_superblock_block_size env (ar_superblock ar)) (ar_metablock_manager ar) = (r, m)"
      by fastforce
    have c: "archive_core (ar\<lparr>ar_data_manager := Some m\<rparr>) = archive_core ar" by simp
    have "archive_data_ok env ee impls src sizes (ar\<lparr>ar_data_manager := Some m\<rparr>)" if "r = Ok"
      using new [OF x [unfolded that]] by (simp add: archive_data_ok_def data_manager_core(1) [OF c])
    then show ?thesis using eq x True new [of m] d
      by (auto simp: sqsh__archive_data_extract_manager_def split: if_splits)
  next
    case False
    then show ?thesis using eq d
      by (cases "ar_data_manager ar"; cases "env_lock env = Ok")
        (force simp: sqsh__archive_data_extract_manager_def archive_data_ok_def)+
  qed
  then show ?thesis using M by blast
qed

section \<open>The invariant of the iterator\<close>

text \<open>
  \<open>sizes\<close> fits the file: at the address of each of its compressed blocks, and of its fragment block,
  it is the stored size, if it says anything. (With \<open>\<lambda>_. None\<close> it fits every file.)
\<close>

definition fragment_info where
  "fragment_info env ar f =
     (case sqsh_archive_fragment_table env ar of
        (Ok, Some t, ar') \<Rightarrow>
          (case sqsh__fragment_table_get env ar t f of (Ok, info) \<Rightarrow> Some info | _ \<Rightarrow> None)
      | _ \<Rightarrow> None)"

definition file_layout where
  "file_layout env ar f sizes \<longleftrightarrow>
     (\<forall>k < sqsh_file_block_count2 env ar f. sqsh_file_block_is_compressed2 env f k \<longrightarrow>
        sqsh_file_block_size2 env f k \<noteq> 0 \<longrightarrow>
        sizes (file_block_address env f k) \<in> {None, Some (sqsh_file_block_size2 env f k)}) \<and>
     (\<forall>info. sqsh_file_has_fragment env f \<longrightarrow> fragment_info env ar f = Some info \<longrightarrow>
        sqsh_datablock_is_compressed (sqsh__data_fragment_size_info info) \<longrightarrow>
        sizes (sqsh__data_fragment_start info)
          \<in> {None, Some (sqsh_datablock_size (sqsh__data_fragment_size_info info))})"

definition file_iterator_sane where
  "file_iterator_sane env se ee src impls sizes it \<longleftrightarrow>
     (let ar = fi_archive it; f = fi_file it in
      archive_inv env se ee src ar \<and> file_sane env se ee src ar f \<and>
      sqsh_file_type env f = Some SQSH_FILE_TYPE_FILE \<and>
      file_layout env ar f sizes \<and> archive_data_ok env ee impls src sizes ar \<and>
      data_manager_ok env ee impls src sizes ar (fi_compression_manager it) \<and>
      fi_block_log it = sqsh_superblock_block_log env (ar_superblock ar) \<and>
      map_reader_ok (env_maps env) se src (env_buf env) (fi_map_reader it) \<and>
      map_reader_archive src (fi_map_reader it) = ar_bytes src ar \<and>
      (fi_block_index it \<le> sqsh_file_block_count2 env ar f \<longrightarrow>
         mr_address (fi_map_reader it) + sqsh__map_reader_size (fi_map_reader it)
           = file_block_address env f (fi_block_index it)) \<and>
      fi_block_index it < 2 ^ 64 \<and> fi_size it \<le> length (fi_data it) \<and>
      fi_sparse_size it \<le> 2 ^ fi_block_log it)"

lemma file_iterator_saneD:
  assumes "file_iterator_sane env se ee src impls sizes it"
  shows "archive_inv env se ee src (fi_archive it)"
    "file_sane env se ee src (fi_archive it) (fi_file it)"
    "sqsh_file_type env (fi_file it) = Some SQSH_FILE_TYPE_FILE"
    "file_layout env (fi_archive it) (fi_file it) sizes"
    "archive_data_ok env ee impls src sizes (fi_archive it)"
    "data_manager_ok env ee impls src sizes (fi_archive it) (fi_compression_manager it)"
    "fi_block_log it = sqsh_superblock_block_log env (ar_superblock (fi_archive it))"
    "map_reader_ok (env_maps env) se src (env_buf env) (fi_map_reader it)"
    "map_reader_archive src (fi_map_reader it) = ar_bytes src (fi_archive it)"
    "fi_block_index it \<le> sqsh_file_block_count2 env (fi_archive it) (fi_file it) \<Longrightarrow>
      mr_address (fi_map_reader it) + sqsh__map_reader_size (fi_map_reader it)
        = file_block_address env (fi_file it) (fi_block_index it)"
    "fi_block_index it < 2 ^ 64" "fi_size it \<le> length (fi_data it)"
    "fi_sparse_size it \<le> 2 ^ fi_block_log it" "cx_buffer_ok (env_buf env)"
    "fi_block_log it \<in> {12..20}"
  using assms archive_block_log(1) [of env se ee src "fi_archive it"]
  by (auto simp: file_iterator_sane_def Let_def archive_inv_def archive_ok_def)

lemma file_size_bound:
  assumes "file_sane env se ee src ar f"
  shows "sqsh_file_size env f < 2 ^ 64"
proof -
  let ?s = "get_inode env f"
  obtain impl where impl: "inode_impl_of_type (sqsh__data_inode_type ?s) = Some impl"
    "file_impl env f = impl"
    using assms by (auto simp: file_sane_def get_impl_def file_impl_def)
  have "get_le 2 i s < 2 ^ 64 \<and> get_le 4 i s < 2 ^ 64 \<and> get_le 8 i s < 2 ^ 64" for i s
    using get_le_bound [of 2 i s] get_le_bound [of 4 i s] get_le_bound [of 8 i s] by simp
  then show ?thesis using inode_impl_kind [OF impl(1)] unfolding sqsh_file_size_def impl(2)
    by (auto simp: inode_kinds_def inode_impl_defs inode_accessor_defs inode_get_defs)
qed

lemma file_block_count_bound:
  assumes "file_iterator_sane env se ee src impls sizes it"
  shows "sqsh_file_block_count2 env (fi_archive it) (fi_file it) < 2 ^ 62"
proof -
  note S = file_iterator_saneD [OF assms]
  have "12 \<le> sqsh_superblock_block_log env (ar_superblock (fi_archive it))" using S(7,15) by simp
  from block_count_bound [OF this file_size_bound [OF S(2)],
      of "sqsh_file_has_fragment env (fi_file it)"] show ?thesis
    unfolding sqsh_file_block_count2_def by simp
qed

lemma get_block_size_bytes:
  assumes S: "file_iterator_sane env se ee src impls sizes it"
    and k: "k < sqsh_file_block_count2 env (fi_archive it) (fi_file it)"
    and it: "fi_archive it' = fi_archive it" "fi_file it' = fi_file it"
      "fi_block_log it' = fi_block_log it" "fi_block_index it' = k"
  shows "get_block_size env it' = file_block_bytes env (fi_archive it) (fi_file it) k"
proof -
  have "wrap_sub (sqsh_file_block_count2 env (fi_archive it) (fi_file it)) 1
    = sqsh_file_block_count2 env (fi_archive it) (fi_file it) - 1"
    using k file_block_count_bound [OF S] by (intro wrap_sub_exact) auto
  then show ?thesis using k file_iterator_saneD(7) [OF S]
    by (auto simp: get_block_size_def file_block_bytes_def is_last_block_def it Let_def
        push_bit_eq_mult)
qed

lemma file_block_bytes_bound:
  "0 < file_block_bytes env ar f k"
  "file_block_bytes env ar f k \<le> 2 ^ sqsh_superblock_block_log env (ar_superblock ar)"
  by (auto simp: file_block_bytes_def Let_def intro: less_imp_le)

section \<open>One step of the iterator\<close>

lemma map_block_compressed_correct:
  assumes S: "file_iterator_sane env se ee src impls sizes it"
    and k: "fi_block_index it = k" "k < sqsh_file_block_count2 env (fi_archive it) (fi_file it)"
    and c: "sqsh_file_block_is_compressed2 env (fi_file it) k"
      "sqsh_file_block_size2 env (fi_file it) k \<noteq> 0"
    and sp: "fi_sparse_size it = 0"
    and eq: "map_block_compressed env it (sqsh__map_reader_size (fi_map_reader it)) = (rv, it')"
  shows "safe_rv rv \<and> (rv = Ok \<longrightarrow> file_iterator_sane env se ee src impls sizes it' \<and>
    fi_archive it' = fi_archive it \<and> fi_file it' = fi_file it \<and> fi_block_index it' = k + 1 \<and>
    fi_sparse_size it' = 0 \<and>
    fi_size it' = file_block_bytes env (fi_archive it) (fi_file it) k \<and>
    length (fi_data it') = fi_size it' \<and>
    (sizes (file_block_address env (fi_file it) k) \<noteq> None \<longrightarrow>
       data_decode env impls src (fi_archive it) (file_block_address env (fi_file it) k)
         (sqsh_file_block_size2 env (fi_file it) k) = Some (fi_data it')))"
proof -
  let ?f = "fi_file it" and ?n = "sqsh_file_block_size2 env (fi_file it) k"
    and ?a = "file_block_address env (fi_file it) k" and ?mr = "fi_map_reader it"
  note D = file_iterator_saneD [OF S]
  obtain r1 mr where ad: "sqsh__map_reader_advance (env_maps env) (env_buf env) ?mr
    (sqsh__map_reader_size ?mr) ?n = (r1, mr)" by fastforce
  have n64: "?n < 2 ^ 64" using file_block_size_bound [of env ?f k] by simp
  note A = map_reader_advance_correct [OF D(14,8) advance_supported_le [OF D(8) order_refl] n64 ad]
  have a: "mr_address ?mr + sqsh__map_reader_size ?mr = ?a" using D(10) k by simp
  show ?thesis
  proof (cases "r1 = Ok")
    case False
    then show ?thesis using eq A k(1) ad by (simp add: map_block_compressed_def Let_def)
  next
    case r1: True
    obtain r2 ev m where x: "sqsh__extract_view_init env (fi_compression_manager it) mr = (r2, ev, m)"
      by (rule prod_cases3)
    have mr: "mr_address mr = ?a" using A r1 a by simp
    have lay: "sizes (mr_address mr) \<in> {None, Some ?n}"
      using D(4) k(2) c unfolding mr file_layout_def by blast
    have "sqsh__map_reader_data (env_maps env) (env_buf env) mr
        = window (mr_address mr) ?n (ar_bytes src (fi_archive it))"
      using A r1 a mr D(9) by simp
    note X = data_view_init [OF D(14,6) lay this x]
    let ?i = "it\<lparr>fi_map_reader := mr, fi_extract_view := ev, fi_compression_manager := m,
      fi_data := sqsh__extract_view_data (env_buf env) ev, fi_size := sqsh__extract_view_size ev\<rparr>"
    have g: "get_block_size env ?i = file_block_bytes env (fi_archive it) ?f k"
      by (rule get_block_size_bytes [OF S k(2)]) (simp_all add: k)
    have ov: "add_overflow 64 k 1 = Some (k + 1)" using k(2) file_block_count_bound [OF S] by simp
    have main: "(rv, it') = (if r2 \<noteq> Ok then (r2, it\<lparr>fi_map_reader := mr, fi_extract_view := ev,
          fi_compression_manager := m\<rparr>)
        else if sqsh__extract_view_size ev \<noteq> file_block_bytes env (fi_archive it) ?f k
        then (Err SQSH_ERROR_SIZE_MISMATCH, ?i)
        else (Ok, ?i\<lparr>fi_block_index := k + 1\<rparr>))"
      using eq ad r1 x g ov k(1)
      by (simp add: map_block_compressed_def Let_def del: add_overflow_Some cong: if_cong)
    show ?thesis
    proof (cases "rv = Ok")
      case False
      then show ?thesis using main X by (auto split: if_splits)
    next
      case True
      then have it': "it' = ?i\<lparr>fi_block_index := k + 1\<rparr>" "r2 = Ok"
        "sqsh__extract_view_size ev = file_block_bytes env (fi_archive it) ?f k"
        using main by (auto split: if_splits)
      have "file_iterator_sane env se ee src impls sizes it'"
        using S X A r1 it' a sp ov mr
        by (auto simp: file_iterator_sane_def Let_def file_block_address_Suc)
      then show ?thesis using it' X lay mr sp True by auto
    qed
  qed
qed

text \<open>
  The run of uncompressed blocks. A block that is not the last and is stored short leaves zeros to
  be presented; in a file without short blocks nothing is left.
\<close>

definition no_short_block where
  "no_short_block env ar f \<longleftrightarrow>
     (\<forall>k < sqsh_file_block_count2 env ar f. \<not> sqsh_file_block_is_compressed2 env f k \<longrightarrow>
        sqsh_file_block_size2 env f k = file_block_bytes env ar f k)"

lemma uncompressed_loop_stop:
  "fi_sparse_size it \<noteq> 0 \<or> N \<le> i \<or> sqsh_file_block_is_compressed2 env (fi_file it) i \<or>
     desired \<le> outer \<Longrightarrow>
   uncompressed_loop env desired direct N it i outer = (Ok, it, i, outer)"
  by (subst uncompressed_loop.simps) auto

lemma uncompressed_loop_step:
  assumes "fi_sparse_size it = 0" "i < N" "\<not> sqsh_file_block_is_compressed2 env (fi_file it) i"
    and "outer < desired" and n: "n = sqsh_file_block_size2 env (fi_file it) i"
    and it1: "it1 = it\<lparr>fi_block_index := i\<rparr>"
    and it2: "it2 = it1\<lparr>fi_sparse_size := if i + 1 \<noteq> N then
        wrap_sub (push_bit (fi_block_log it) 1) n else 0\<rparr>"
  shows "uncompressed_loop env desired direct N it i outer =
    (if get_block_size env it1 < n then (Err SQSH_ERROR_SIZE_MISMATCH, it1, i, outer)
     else if 2 ^ 64 \<le> outer + n then (Err SQSH_ERROR_INTEGER_OVERFLOW, it2, i, outer)
     else if direct < outer + n \<and> 0 < outer then (Ok, it2, i, outer)
     else uncompressed_loop env desired direct N it2 (i + 1) (outer + n))"
  using assms
  by (subst uncompressed_loop.simps, cases it) (simp add: add_overflow_def Let_def cong: if_cong)

lemma uncompressed_loop_correct:
  assumes S: "file_iterator_sane env se ee src impls sizes it0"
    and N: "N = sqsh_file_block_count2 env (fi_archive it0) (fi_file it0)"
  shows "uncompressed_loop env desired direct N it i outer = (rv, it', j, outer') \<Longrightarrow>
    it = it0\<lparr>fi_block_index := bi, fi_sparse_size := sp\<rparr> \<Longrightarrow> outer < 2 ^ 64 \<Longrightarrow> i \<le> N \<Longrightarrow>
    sp \<le> 2 ^ fi_block_log it0 \<Longrightarrow>
    safe_rv rv \<and> (rv = Ok \<longrightarrow> i \<le> j \<and> j \<le> N \<and> outer' < 2 ^ 64 \<and>
      outer' + file_block_address env (fi_file it0) i
        = outer + file_block_address env (fi_file it0) j \<and>
      (\<forall>k. i \<le> k \<and> k < j \<longrightarrow> \<not> sqsh_file_block_is_compressed2 env (fi_file it0) k) \<and>
      (sp = 0 \<and> outer = 0 \<and> 0 < desired \<and> i < N \<and>
         \<not> sqsh_file_block_is_compressed2 env (fi_file it0) i \<longrightarrow> i < j) \<and>
      (\<exists>bi' sp'. it' = it0\<lparr>fi_block_index := bi', fi_sparse_size := sp'\<rparr> \<and>
         sp' \<le> 2 ^ fi_block_log it0 \<and>
         (sp = 0 \<and> no_short_block env (fi_archive it0) (fi_file it0) \<longrightarrow> sp' = 0)))"
proof (induction "N - i" arbitrary: it i outer bi sp rule: less_induct)
  case less
  let ?f = "fi_file it0" and ?n = "sqsh_file_block_size2 env (fi_file it0) i"
  let ?stop = "\<not> (fi_sparse_size it = 0 \<and> i < N) \<or>
    sqsh_file_block_is_compressed2 env ?f i \<or> desired \<le> outer"
  have f: "fi_file it = ?f" "fi_sparse_size it = sp" "fi_block_log it = fi_block_log it0"
    using less.prems(2) by simp_all
  show ?case
  proof (cases ?stop)
    case True
    then have "rv = Ok" "it' = it" "j = i" "outer' = outer"
      using less.prems(1) f uncompressed_loop_stop [of it N i env desired outer direct] by auto
    moreover have "\<exists>bi' sp'. it = it0\<lparr>fi_block_index := bi', fi_sparse_size := sp'\<rparr> \<and>
         sp' \<le> 2 ^ fi_block_log it0 \<and>
         (sp = 0 \<and> no_short_block env (fi_archive it0) (fi_file it0) \<longrightarrow> sp' = 0)"
      using less.prems(2,5) by blast
    ultimately show ?thesis using less.prems(3,4) True f by auto
  next
    case go: False
    define it1 where "it1 = it\<lparr>fi_block_index := i\<rparr>"
    define sp2 where "sp2 = (if i + 1 \<noteq> N then wrap_sub (push_bit (fi_block_log it0) 1) ?n else 0)"
    define it2 where "it2 = it1\<lparr>fi_sparse_size := sp2\<rparr>"
    have g: "get_block_size env it1 = file_block_bytes env (fi_archive it0) ?f i"
      by (rule get_block_size_bytes [OF S]) (use go N less.prems(2) in \<open>simp_all add: it1_def\<close>)
    have it2: "it2 = it1\<lparr>fi_sparse_size := if i + 1 \<noteq> N then
        wrap_sub (push_bit (fi_block_log it) 1) ?n else 0\<rparr>"
      by (simp add: it2_def sp2_def f)
    have step: "uncompressed_loop env desired direct N it i outer =
      (if file_block_bytes env (fi_archive it0) ?f i < ?n
       then (Err SQSH_ERROR_SIZE_MISMATCH, it1, i, outer)
       else if 2 ^ 64 \<le> outer + ?n then (Err SQSH_ERROR_INTEGER_OVERFLOW, it2, i, outer)
       else if direct < outer + ?n \<and> 0 < outer then (Ok, it2, i, outer)
       else uncompressed_loop env desired direct N it2 (i + 1) (outer + ?n))"
      using uncompressed_loop_step [of it i N env outer desired ?n it1 it2 direct] go f g it2
      by (simp add: it1_def)
    show ?thesis
    proof (cases "file_block_bytes env (fi_archive it0) ?f i < ?n \<or> 2 ^ 64 \<le> outer + ?n")
      case True
      then have "rv = Err SQSH_ERROR_SIZE_MISMATCH \<or> rv = Err SQSH_ERROR_INTEGER_OVERFLOW"
        using less.prems(1) step by (auto split: if_splits)
      then show ?thesis by auto
    next
      case fit: False
      have n: "?n \<le> 2 ^ fi_block_log it0"
        using fit file_block_bytes_bound(2) [of env "fi_archive it0" ?f i] file_iterator_saneD(7) [OF S]
        by simp
      have "fi_block_log it0 < 64" using file_iterator_saneD(15) [OF S] by simp
      then have "(2::nat) ^ fi_block_log it0 < 2 ^ 64" by (intro power_strict_increasing) auto
      with n have sp2: "sp2 = (if i + 1 \<noteq> N then 2 ^ fi_block_log it0 - ?n else 0)"
        by (simp add: sp2_def push_bit_eq_mult wrap_sub_exact)
      have it2e: "it2 = it0\<lparr>fi_block_index := i, fi_sparse_size := sp2\<rparr>"
        using less.prems(2) by (simp add: it2_def it1_def)
      have short: "sp2 = 0" if "no_short_block env (fi_archive it0) ?f"
        using that go N f file_iterator_saneD(7) [OF S]
        by (auto simp: sp2 no_short_block_def file_block_bytes_def Let_def)
      show ?thesis
      proof (cases "direct < outer + ?n \<and> 0 < outer")
        case True
        then have "rv = Ok" "it' = it2" "j = i" "outer' = outer"
          using less.prems(1) step fit by simp_all
        moreover have "\<exists>bi' sp'. it2 = it0\<lparr>fi_block_index := bi', fi_sparse_size := sp'\<rparr> \<and>
           sp' \<le> 2 ^ fi_block_log it0 \<and>
           (sp = 0 \<and> no_short_block env (fi_archive it0) (fi_file it0) \<longrightarrow> sp' = 0)"
          using it2e short sp2 by (intro exI [of _ i] exI [of _ sp2]) auto
        ultimately show ?thesis using True less.prems(3,4) by auto
      next
        case False
        have rec: "uncompressed_loop env desired direct N it2 (i + 1) (outer + ?n) = (rv, it', j, outer')"
          using less.prems(1) step fit False by (simp only: if_False de_Morgan_disj)
        have "sp2 \<le> 2 ^ fi_block_log it0" by (simp add: sp2)
        have le: "outer + ?n < 2 ^ 64" "i + 1 \<le> N" "N - (i + 1) < N - i" using fit go by auto
        note IH = less.hyps [OF le(3) rec it2e le(1,2) \<open>sp2 \<le> 2 ^ fi_block_log it0\<close>]
        have nc: "\<forall>k. i \<le> k \<and> k < j \<longrightarrow> \<not> sqsh_file_block_is_compressed2 env ?f k"
          if "\<forall>k. i + 1 \<le> k \<and> k < j \<longrightarrow> \<not> sqsh_file_block_is_compressed2 env ?f k"
          using that go by (metis Suc_eq_plus1 Suc_leI le_neq_implies_less)
        show ?thesis
        proof (intro conjI impI)
          show "safe_rv rv" using IH by blast
          show "\<exists>bi' sp'. it' = it0\<lparr>fi_block_index := bi', fi_sparse_size := sp'\<rparr> \<and>
             sp' \<le> 2 ^ fi_block_log it0 \<and>
             (sp = 0 \<and> no_short_block env (fi_archive it0) ?f \<longrightarrow> sp' = 0)" if "rv = Ok"
            using IH that short by blast
        qed (use IH nc file_block_address_Suc [of env ?f i] in auto)
      qed
    qed
  qed
qed

lemma map_block_uncompressed_correct:
  assumes S: "file_iterator_sane env se ee src impls sizes it"
    and k: "fi_block_index it = k" "k < sqsh_file_block_count2 env (fi_archive it) (fi_file it)"
    and c: "\<not> sqsh_file_block_is_compressed2 env (fi_file it) k" and d: "0 < desired"
    and sp: "fi_sparse_size it = 0"
    and eq: "map_block_uncompressed env it (sqsh__map_reader_size (fi_map_reader it)) desired
      = (rv, it')"
  shows "safe_rv rv \<and> (rv = Ok \<longrightarrow> file_iterator_sane env se ee src impls sizes it' \<and>
    fi_archive it' = fi_archive it \<and> fi_file it' = fi_file it \<and>
    k < fi_block_index it' \<and>
    fi_block_index it' \<le> sqsh_file_block_count2 env (fi_archive it) (fi_file it) \<and>
    (no_short_block env (fi_archive it) (fi_file it) \<longrightarrow> fi_sparse_size it' = 0) \<and>
    fi_size it' = file_block_address env (fi_file it) (fi_block_index it')
      - file_block_address env (fi_file it) k \<and>
    file_block_address env (fi_file it) (fi_block_index it') \<le> length (ar_bytes src (fi_archive it)) \<and>
    (\<forall>i. k \<le> i \<and> i < fi_block_index it' \<longrightarrow> \<not> sqsh_file_block_is_compressed2 env (fi_file it) i) \<and>
    fi_data it' = window (file_block_address env (fi_file it) k) (fi_size it')
      (ar_bytes src (fi_archive it)))"
proof -
  let ?f = "fi_file it" and ?mr = "fi_map_reader it" and ?a = "file_block_address env (fi_file it)"
  let ?N = "sqsh_file_block_count2 env (fi_archive it) (fi_file it)"
  note D = file_iterator_saneD [OF S]
  obtain r1 it1 j outer where lp: "uncompressed_loop env desired
      (sqsh__map_reader_remaining_direct ?mr) ?N it k 0 = (r1, it1, j, outer)" by (rule prod_cases4)
  have it: "it = it\<lparr>fi_block_index := k, fi_sparse_size := 0\<rparr>" using k(1) sp by simp
  note L = uncompressed_loop_correct [OF S refl lp it _ less_imp_le [OF k(2)]]
  show ?thesis
  proof (cases "r1 = Ok")
    case False
    then show ?thesis using eq L lp k(1) by (simp add: map_block_uncompressed_def Let_def)
  next
    case r1: True
    with L obtain bi sp' where L1: "k < j" "j \<le> ?N" "outer < 2 ^ 64" "outer + ?a k = ?a j"
      "\<And>i. k \<le> i \<and> i < j \<Longrightarrow> \<not> sqsh_file_block_is_compressed2 env ?f i"
      "it1 = it\<lparr>fi_block_index := bi, fi_sparse_size := sp'\<rparr>" "sp' \<le> 2 ^ fi_block_log it"
      "no_short_block env (fi_archive it) ?f \<Longrightarrow> sp' = 0"
      using k c d by auto
    obtain r2 mr where ad: "sqsh__map_reader_advance (env_maps env) (env_buf env) ?mr
      (sqsh__map_reader_size ?mr) outer = (r2, mr)" by fastforce
    note A = map_reader_advance_correct [OF D(14,8) advance_supported_le [OF D(8) order_refl] L1(3) ad]
    have a: "mr_address ?mr + sqsh__map_reader_size ?mr = ?a k" using D(10) k by simp
    have main: "(rv, it') = (if r2 \<noteq> Ok then (r2, it1\<lparr>fi_map_reader := mr\<rparr>)
      else (Ok, it1\<lparr>fi_map_reader := mr, fi_data := sqsh__map_reader_data (env_maps env) (env_buf env) mr,
        fi_size := outer, fi_block_index := j\<rparr>))"
      using eq lp r1 ad k(1) by (simp add: map_block_uncompressed_def Let_def cong: if_cong)
    show ?thesis
    proof (cases "r2 = Ok")
      case False
      then show ?thesis using main A by simp
    next
      case True
      have "j < 2 ^ 64" using L1(2) file_block_count_bound [OF S] by simp
      moreover have "fi_data it' = window (?a k) outer (ar_bytes src (fi_archive it))"
        "mr_address mr + sqsh__map_reader_size mr = ?a j" "?a j \<le> length (ar_bytes src (fi_archive it))"
        using main A a D(9) True L1(4) by (simp_all add: add.commute)
      moreover have "outer = ?a j - ?a k" using L1(4) by simp
      ultimately show ?thesis using main True L1 A S
        by (auto simp: file_iterator_sane_def Let_def)
    qed
  qed
qed

lemma map_zero_block_correct:
  assumes S: "file_iterator_sane env se ee src impls sizes it"
    and eq: "map_zero_block it = (rv, it')"
  shows "rv = Ok \<and> file_iterator_sane env se ee src impls sizes it' \<and>
    it' = it\<lparr>fi_sparse_size := fi_sparse_size it', fi_size := fi_size it', fi_data := fi_data it'\<rparr> \<and>
    fi_sparse_size it' + fi_size it' = fi_sparse_size it \<and>
    (0 < fi_sparse_size it \<longrightarrow> 0 < fi_size it') \<and>
    take (fi_size it') (fi_data it') = replicate (fi_size it') 0"
proof -
  have "it' = it\<lparr>fi_sparse_size := fi_sparse_size it - min 16384 (fi_sparse_size it),
      fi_size := min 16384 (fi_sparse_size it), fi_data := replicate 16384 0\<rparr>" "rv = Ok"
    using eq by (auto simp: map_zero_block_def Let_def sqsh__archive_zero_block_size_def
        sqsh__archive_zero_block_def ZERO_BLOCK_SIZE_def min_def)
  then show ?thesis using S
    by (auto simp: file_iterator_sane_def Let_def)
qed

text \<open>Looking up the fragment of a file loads the table once and does not depend on it.\<close>

lemma fragment_info_stable:
  assumes "archive_core ar' = archive_core ar" "ar_fragment_table ar' = ar_fragment_table ar"
  shows "fragment_info env ar' f = fragment_info env ar f"
proof -
  have t: "sqsh__fragment_table_get env ar' x f = sqsh__fragment_table_get env ar x f" for x
    by (simp add: sqsh__fragment_table_get_def table_get_core [OF assms(1)])
  have i: "sqsh__fragment_table_init env ar' = sqsh__fragment_table_init env ar"
    by (simp add: sqsh__fragment_table_init_def archive_coreD [OF assms(1)])
  show ?thesis
    by (simp add: fragment_info_def sqsh_archive_fragment_table_def i t assms(2)
        archive_coreD(2) [OF assms(1)] split: rv.split option.split prod.split)
qed

lemma fragment_table_loaded:
  assumes "sqsh_archive_fragment_table env ar = (rv, t, ar')"
  shows "ar_data_manager ar' = ar_data_manager ar"
    and "rv = Ok \<Longrightarrow> sqsh_archive_fragment_table env ar' = (Ok, t, ar')"
    and "rv \<noteq> Ok \<Longrightarrow> ar' = ar"
  using assms by (cases "ar_fragment_table ar"; auto simp: sqsh_archive_fragment_table_def
      split: if_splits prod.splits)+

lemma fragment_info_loaded:
  assumes "sqsh_archive_fragment_table env ar = (rv, t, ar')" "archive_core ar' = archive_core ar"
  shows "fragment_info env ar' f = fragment_info env ar f"
proof (cases "rv = Ok")
  case True
  have "sqsh__fragment_table_get env ar' x f = sqsh__fragment_table_get env ar x f" for x
    by (simp add: sqsh__fragment_table_get_def table_get_core [OF assms(2)])
  then show ?thesis using assms(1) fragment_table_loaded(2) [OF assms(1) True] True
    by (simp add: fragment_info_def split: option.split)
qed (use fragment_table_loaded(3) [OF assms(1)] in simp)

definition file_fragment_ok where
  "file_fragment_ok env impls src sizes ar f data \<longleftrightarrow>
     (\<exists>info b. fragment_info env ar f = Some info \<and>
        (let a = sqsh__data_fragment_start info;
             w = sqsh__data_fragment_size_info info; n = sqsh_datablock_size w;
             off = sqsh_file_fragment_block_offset env f;
             rest = sqsh_file_size env f mod 2 ^ sqsh_superblock_block_log env (ar_superblock ar)
         in (if sqsh_datablock_is_compressed w
             then sizes a \<noteq> None \<longrightarrow> data_decode env impls src ar a n = Some b
             else a + n \<le> length (ar_bytes src ar) \<and> b = window a n (ar_bytes src ar)) \<and>
            off + rest \<le> length b \<and> data = window off rest b))"

lemma apply_fragment_correct:
  assumes inv: "archive_inv env se ee src ar"
    and eq: "apply_fragment env view ar f data (length data) = (rv, view')"
  shows "safe_rv rv \<and> (rv = Ok \<longrightarrow>
    (let off = sqsh_file_fragment_block_offset env f;
         rest = sqsh_file_size env f mod 2 ^ sqsh_superblock_block_log env (ar_superblock ar)
     in off + rest \<le> length data \<and> fv_data view' = window off rest data \<and> fv_size view' = rest))"
proof -
  let ?lg = "sqsh_superblock_block_log env (ar_superblock ar)"
  have "?lg < 32" using archive_block_log(1) [OF inv] by simp
  then have "(2::nat) ^ ?lg < 2 ^ 32" by (intro power_strict_increasing) auto
  then have "n mod 2 ^ ?lg mod 2 ^ 32 = n mod 2 ^ ?lg" for n :: nat
    by (intro mod_less) (meson less_trans mod_less_divisor zero_less_numeral zero_less_power)
  then show ?thesis using eq
    by (auto simp: apply_fragment_def Let_def add_overflow_def simp del: add_overflow_Some
        add_overflow_None split: if_splits)
qed

lemma datablock_size_bound: "sqsh_datablock_size w < 2 ^ 32"
proof -
  have "(n::nat) AND m \<le> m" for n m
    by (metis AND_upper2 of_nat_0_le_iff of_nat_and_eq of_nat_le_iff)
  from this [of w "0xFFFFFFFF - push_bit 24 1"] show ?thesis by (simp add: sqsh_datablock_size_def)
qed

lemma map_reader_window_init:
  assumes bo: "cx_buffer_ok bo" and m: "manager_ok co se src m" and a: "a < 2 ^ 64" "n < 2 ^ 64"
    and eq: "andthen (sqsh__map_reader_init co bo m a u mr0)
      (\<lambda>mr. sqsh__map_reader_advance co bo mr 0 n) = (rv, mr)"
  shows "safe_rv rv \<and> (rv = Ok \<longrightarrow> map_reader_ok co se src bo mr \<and> mr_address mr = a \<and>
    sqsh__map_reader_size mr = n \<and> a + n \<le> length (archive_bytes src m) \<and>
    sqsh__map_reader_data co bo mr = window a n (archive_bytes src m))"
proof -
  obtain r1 mr1 where i: "sqsh__map_reader_init co bo m a u mr0 = (r1, mr1)" by fastforce
  note I = map_reader_init_correct [OF bo m a(1) i]
  show ?thesis
  proof (cases "r1 = Ok")
    case True
    obtain r2 mr2 where ad: "sqsh__map_reader_advance co bo mr1 0 n = (r2, mr2)" by fastforce
    have ok1: "map_reader_ok co se src bo mr1" "sqsh__map_reader_size mr1 \<le> 0" using I True by auto
    note A = map_reader_advance_correct [OF bo ok1(1) advance_supported_le [OF ok1] a(2) ad]
    have "rv = r2 \<and> mr = mr2" using True eq i ad by (simp add: andthen_def)
    then show ?thesis using I A True by simp
  next
    case False
    then show ?thesis using I eq i by (auto simp: andthen_def split: rv.splits)
  qed
qed

lemma fragment_view_init_correct:
  assumes inv: "archive_inv env se ee src ar" and lk: "safe_rv (env_lock env)"
    and d: "archive_data_ok env ee impls src sizes ar" and lay: "file_layout env ar f sizes"
    and hf: "sqsh_file_has_fragment env f"
    and ci: "safe_rv (fst cache_init)" "\<forall>P. ee P (snd cache_init)"
    and im: "\<forall>c i. sqsh__extractor_impl_from_id impls c = Some i \<longrightarrow> extractor_impl_ok i"
    and eq: "sqsh__fragment_view_init env impls cache_init view ar f = (rv, view', ar')"
  shows "safe_rv rv \<and> archive_inv env se ee src ar' \<and> archive_core ar' = archive_core ar \<and>
    archive_data_ok env ee impls src sizes ar' \<and>
    fragment_info env ar' f = fragment_info env ar f \<and>
    (rv = Ok \<longrightarrow> file_fragment_ok env impls src sizes ar f (fv_data view') \<and>
       fv_size view' = length (fv_data view') \<and>
       fv_size view' = sqsh_file_size env f mod 2 ^ sqsh_superblock_block_log env (ar_superblock ar))"
proof -
  obtain r1 t ar1 where tb: "sqsh_archive_fragment_table env ar = (r1, t, ar1)" by (rule prod_cases3)
  note T = fragment_table_inv [OF inv lk tb] and T2 = fragment_table_loaded [OF tb]
  have inv1: "archive_inv env se ee src ar1" and core1: "archive_core ar1 = archive_core ar"
    using T by auto
  note fi1 = fragment_info_loaded [OF tb core1] and C1 = archive_coreD [OF core1]
  have bo: "cx_buffer_ok (env_buf env)" using inv by (simp add: archive_inv_def archive_ok_def)
  have d1: "archive_data_ok env ee impls src sizes ar1"
    using d T2(1) by (simp add: archive_data_ok_def data_manager_core(1) [OF core1])
  show ?thesis
  proof (cases "r1 = Ok")
    case False
    then show ?thesis using eq tb T d1 fi1 T2(3) by (simp add: sqsh__fragment_view_init_def)
  next
    case r1: True
    then obtain tbl where tbl: "t = Some tbl"
      "table_loaded env (ar_map_manager ar) sizeof_SqshDataFragment tbl" using T by auto
    obtain r2 info where fi: "sqsh__fragment_table_get env ar1 tbl f = (r2, info)" by fastforce
    have s2: "safe_rv r2"
      using table_loaded_get(1) [of env se ee src ar1 sizeof_SqshDataFragment tbl] inv1 tbl(2) fi C1(1)
      by (auto simp: archive_inv_def sqsh__fragment_table_get_def sizeof_SqshDataFragment_def)
    show ?thesis
    proof (cases "r2 = Ok")
      case False
      then show ?thesis using eq tb T d1 fi1 r1 tbl(1) fi s2
        by (simp add: sqsh__fragment_view_init_def)
    next
      case r2: True
      have "sqsh__fragment_table_get env ar tbl f = (Ok, info)"
        using fi r2 by (simp add: sqsh__fragment_table_get_def table_get_core [OF core1])
      then have info: "fragment_info env ar f = Some info"
        using tb r1 tbl(1) by (simp add: fragment_info_def)
      define a w where "a = sqsh__data_fragment_start info" and "w = sqsh__data_fragment_size_info info"
      define n where "n = sqsh_datablock_size w"
      have a64: "a < 2 ^ 64" using get_le_8_bound [of 0 info] by (simp add: a_def sqsh__data_fragment_start_def)
      obtain r3 mr where mi: "andthen
          (sqsh__map_reader_init (env_maps env) (env_buf env) (ar_map_manager ar1) a
             (sqsh_superblock_inode_table_start env (ar_superblock ar1)) (fv_map_reader view))
          (\<lambda>mr. sqsh__map_reader_advance (env_maps env) (env_buf env) mr 0 n) = (r3, mr)" by fastforce
      have bo1: "manager_ok (env_maps env) se src (ar_map_manager ar1)"
        using inv1 by (simp add: archive_inv_def archive_ok_def)
      have n64: "n < 2 ^ 64" unfolding n_def using datablock_size_bound [of w] by simp
      note MI = map_reader_window_init [OF bo bo1 a64 n64 mi]
      have main1: "r3 \<noteq> Ok \<Longrightarrow> rv = r3 \<and> ar' = ar1"
        using eq tb r1 tbl(1) fi r2 mi
        by (simp add: sqsh__fragment_view_init_def a_def w_def n_def Let_def)
      show ?thesis
      proof (cases "r3 = Ok")
        case False
        then show ?thesis using main1 MI T d1 fi1 by simp
      next
        case r3: True
        let ?v = "view\<lparr>fv_map_reader := mr\<rparr>" and ?A = "ar_bytes src ar"
        have mr: "mr_address mr = a" "sqsh__map_reader_size mr = n" "a + n \<le> length ?A"
          "sqsh__map_reader_data (env_maps env) (env_buf env) mr = window a n ?A"
          using MI r3 C1(4) [of src] by (simp_all add: ar_bytes_def)
        let ?off = "sqsh_file_fragment_block_offset env f"
          and ?rest = "sqsh_file_size env f mod 2 ^ sqsh_superblock_block_log env (ar_superblock ar)"
        show ?thesis
        proof (cases "sqsh_datablock_is_compressed w")
          case False
          have "apply_fragment env ?v ar1 f (window a n ?A) (length (window a n ?A)) = (rv, view')"
            "ar' = ar1"
            using eq tb r1 tbl(1) fi r2 mi r3 False mr
            by (simp_all add: sqsh__fragment_view_init_def a_def w_def n_def Let_def
                read_fragment_uncompressed_def split: prod.splits)
          note P = apply_fragment_correct [OF inv1 this(1)] and this(2)
          have "file_fragment_ok env impls src sizes ar f (fv_data view') \<and>
              fv_size view' = length (fv_data view') \<and> fv_size view' = ?rest" if "rv = Ok"
          proof -
            have p: "?off + ?rest \<le> length (window a n ?A)" "fv_data view' = window ?off ?rest (window a n ?A)"
              "fv_size view' = ?rest" using P that C1(2) by (simp_all add: Let_def)
            have "file_fragment_ok env impls src sizes ar f (fv_data view')"
              unfolding file_fragment_ok_def
              by (intro exI [of _ info] exI [of _ "window a n ?A"])
                (use info p(1,2) False mr(3) in \<open>simp add: Let_def a_def w_def n_def\<close>)
            then show ?thesis using p by auto
          qed
          then show ?thesis using P T d1 fi1 \<open>ar' = ar1\<close> by blast
        next
          case cmp: True
          obtain r4 xm ar2 where dm: "sqsh__archive_data_extract_manager env impls cache_init ar1
            = (r4, xm, ar2)" by (rule prod_cases3)
          note DM = data_manager_data_ok [OF inv1 lk d1 ci im dm]
          have core2: "archive_core ar2 = archive_core ar" using DM core1 by simp
          have fi2: "fragment_info env ar2 f = fragment_info env ar f"
            using fragment_info_stable [of ar2 ar1 env f] DM fi1 by simp
          show ?thesis
          proof (cases "r4 = Ok")
            case False
            then have "rv = r4" "ar' = ar2"
              using eq tb r1 tbl(1) fi r2 mi r3 cmp dm
              by (simp_all add: sqsh__fragment_view_init_def a_def w_def n_def Let_def
                  read_fragment_compressed_def)
            then show ?thesis using DM core2 fi2 False
              by (simp add: archive_data_ok_def data_manager_core(1) [OF core2])
          next
            case r4: True
            then obtain m where m: "xm = Some m" "data_manager_ok env ee impls src sizes ar1 m"
              using DM by auto
            obtain r5 ev m' where x: "sqsh__extract_view_init env m mr = (r5, ev, m')"
              by (rule prod_cases3)
            have sz: "sizes (mr_address mr) \<in> {None, Some n}"
              using lay hf info cmp unfolding mr(1) file_layout_def a_def w_def n_def by blast
            have "sqsh__map_reader_data (env_maps env) (env_buf env) mr
              = window (mr_address mr) n (ar_bytes src ar1)" using mr C1(4) [of src] by simp
            note X = data_view_init [OF bo m(2) sz this x]
            let ?ar3 = "ar2\<lparr>ar_data_manager := Some m'\<rparr>" and ?b = "sqsh__extract_view_data (env_buf env) ev"
            have core3: "archive_core ?ar3 = archive_core ar" using core2 by simp
            have inv3: "archive_inv env se ee src ?ar3"
              using archive_invI [of env se ee src ar2 ?ar3] DM
              by (simp add: archive_inv_def archive_tables_ok_def)
            have d3: "archive_data_ok env ee impls src sizes ?ar3"
              using X by (simp add: archive_data_ok_def data_manager_core(1) [OF core3]
                  data_manager_core(1) [OF core1])
            have fi3: "fragment_info env ?ar3 f = fragment_info env ar f"
              using fragment_info_stable [of ?ar3 ar2 env f] fi2 by simp
            have main: "ar' = ?ar3 \<and> (if r5 \<noteq> Ok then rv = r5 else
              apply_fragment env (?v\<lparr>fv_extract_view := ev\<rparr>) ?ar3 f ?b (sqsh__extract_view_size ev)
                = (rv, view'))"
              using eq tb r1 tbl(1) fi r2 mi r3 cmp dm r4 m(1) x
              by (auto simp: sqsh__fragment_view_init_def a_def w_def n_def Let_def
                  read_fragment_compressed_def split: if_splits prod.splits)
            show ?thesis
            proof (cases "r5 = Ok")
              case False
              then show ?thesis using main X inv3 core3 d3 fi3 by simp
            next
              case True
              then have "apply_fragment env (?v\<lparr>fv_extract_view := ev\<rparr>) ?ar3 f ?b (length ?b) = (rv, view')"
                using main X by simp
              note P = apply_fragment_correct [OF inv3 this]
              have "file_fragment_ok env impls src sizes ar f (fv_data view') \<and>
                  fv_size view' = length (fv_data view') \<and> fv_size view' = ?rest" if "rv = Ok"
              proof -
                have p: "?off + ?rest \<le> length ?b" "fv_data view' = window ?off ?rest ?b"
                  "fv_size view' = ?rest" using P that archive_coreD(2) [OF core3] by (simp_all add: Let_def)
                have "sizes a \<noteq> None \<longrightarrow> data_decode env impls src ar a n = Some ?b"
                  using X True mr(1) sz by (auto simp: data_manager_core(2) [OF core1])
                then have "file_fragment_ok env impls src sizes ar f (fv_data view')"
                  unfolding file_fragment_ok_def
                  by (intro exI [of _ info] exI [of _ ?b])
                    (use info p(1,2) cmp in \<open>simp add: Let_def a_def w_def n_def\<close>)
                then show ?thesis using p by auto
              qed
              then show ?thesis using P main inv3 core3 d3 fi3 by blast
            qed
          qed
        qed
      qed
    qed
  qed
qed

text \<open>
  The chunks of a file as a step relation on the position: the index of the next block and the
  zeros that are still to be presented before it.
\<close>

inductive file_chunk for env impls src sizes ar f where
  zeros: "0 < n \<Longrightarrow> n \<le> s \<Longrightarrow>
    file_chunk env impls src sizes ar f (k, s) (replicate n 0) (k, s - n)"
| hole: "k < sqsh_file_block_count2 env ar f \<Longrightarrow> sqsh_file_block_size2 env f k = 0 \<Longrightarrow>
    0 < n \<Longrightarrow> n \<le> file_block_bytes env ar f k \<Longrightarrow>
    file_chunk env impls src sizes ar f (k, 0) (replicate n 0) (k + 1, file_block_bytes env ar f k - n)"
| compressed: "k < sqsh_file_block_count2 env ar f \<Longrightarrow> sqsh_file_block_is_compressed2 env f k \<Longrightarrow>
    sqsh_file_block_size2 env f k \<noteq> 0 \<Longrightarrow> length d = file_block_bytes env ar f k \<Longrightarrow>
    (sizes (file_block_address env f k) \<noteq> None \<Longrightarrow> data_decode env impls src ar
       (file_block_address env f k) (sqsh_file_block_size2 env f k) = Some d) \<Longrightarrow>
    file_chunk env impls src sizes ar f (k, 0) d (k + 1, 0)"
| stored: "k < j \<Longrightarrow> j \<le> sqsh_file_block_count2 env ar f \<Longrightarrow>
    \<forall>i. k \<le> i \<and> i < j \<longrightarrow> \<not> sqsh_file_block_is_compressed2 env f i \<Longrightarrow>
    sqsh_file_block_size2 env f k \<noteq> 0 \<Longrightarrow>
    file_block_address env f j \<le> length (ar_bytes src ar) \<Longrightarrow>
    s \<le> 2 ^ sqsh_superblock_block_log env (ar_superblock ar) \<Longrightarrow>
    (no_short_block env ar f \<Longrightarrow> s = 0) \<Longrightarrow>
    file_chunk env impls src sizes ar f (k, 0)
      (window (file_block_address env f k) (file_block_address env f j - file_block_address env f k)
         (ar_bytes src ar)) (j, s)"
| fragment: "sqsh_file_has_fragment env f \<Longrightarrow> file_fragment_ok env impls src sizes ar f d \<Longrightarrow>
    length d = sqsh_file_size env f mod 2 ^ sqsh_superblock_block_log env (ar_superblock ar) \<Longrightarrow>
    file_chunk env impls src sizes ar f (sqsh_file_block_count2 env ar f, 0) d
      (BLOCK_INDEX_FINISHED, 0)"

definition same_file where
  "same_file env it it' \<longleftrightarrow> fi_file it' = fi_file it \<and> fi_block_log it' = fi_block_log it \<and>
     archive_core (fi_archive it') = archive_core (fi_archive it) \<and>
     fragment_info env (fi_archive it') (fi_file it) = fragment_info env (fi_archive it) (fi_file it)"

abbreviation file_position where
  "file_position it \<equiv> (fi_block_index it, fi_sparse_size it)"

lemma map_fragment_correct:
  assumes S: "file_iterator_sane env se ee src impls sizes it" and lk: "safe_rv (env_lock env)"
    and hf: "sqsh_file_has_fragment env (fi_file it)"
    and ci: "safe_rv (fst cache_init)" "\<forall>P. ee P (snd cache_init)"
    and im: "\<forall>c i. sqsh__extractor_impl_from_id impls c = Some i \<longrightarrow> extractor_impl_ok i"
    and eq: "map_fragment env impls cache_init it = (rv, it')"
  shows "safe_rv rv \<and> (rv = Ok \<longrightarrow> file_iterator_sane env se ee src impls sizes it' \<and>
    same_file env it it' \<and> fi_block_index it' = BLOCK_INDEX_FINISHED \<and>
    fi_sparse_size it' = fi_sparse_size it \<and>
    file_fragment_ok env impls src sizes (fi_archive it) (fi_file it) (fi_data it') \<and>
    fi_size it' = length (fi_data it') \<and>
    fi_size it' = sqsh_file_size env (fi_file it)
      mod 2 ^ sqsh_superblock_block_log env (ar_superblock (fi_archive it)))"
proof -
  let ?f = "fi_file it" and ?ar = "fi_archive it"
  note D = file_iterator_saneD [OF S]
  obtain r1 t ar1 where tb: "sqsh_archive_fragment_table env ?ar = (r1, t, ar1)" by (rule prod_cases3)
  note T = fragment_table_inv [OF D(1) lk tb] and T2 = fragment_table_loaded [OF tb]
  show ?thesis
  proof (cases "r1 = Ok")
    case False
    then show ?thesis using eq tb T by (simp add: map_fragment_def)
  next
    case r1: True
    have inv1: "archive_inv env se ee src ar1" and core1: "archive_core ar1 = archive_core ?ar"
      using T by auto
    have fi1: "fragment_info env ar1 ?f = fragment_info env ?ar ?f"
      by (rule fragment_info_loaded [OF tb core1])
    have d1: "archive_data_ok env ee impls src sizes ar1"
      using D(5) T2(1) by (simp add: archive_data_ok_def data_manager_core(1) [OF core1])
    have lay1: "file_layout env ar1 ?f sizes"
      using D(4) fi1 archive_coreD(2) [OF core1]
      by (simp add: file_layout_def sqsh_file_block_count2_def)
    obtain r2 v ar2 where fv: "sqsh__fragment_view_init env impls cache_init (fi_fragment_view it)
      ar1 ?f = (r2, v, ar2)" by (rule prod_cases3)
    note V = fragment_view_init_correct [OF inv1 lk d1 lay1 hf ci im fv]
    have main: "(rv, it') = (if r2 \<noteq> Ok then (r2, it\<lparr>fi_archive := ar2, fi_fragment_view := v\<rparr>)
      else (Ok, it\<lparr>fi_archive := ar2, fi_fragment_view := v, fi_data := fv_data v, fi_size := fv_size v,
        fi_block_index := BLOCK_INDEX_FINISHED\<rparr>))"
      using eq tb r1 fv by (simp add: map_fragment_def sqsh__fragment_view_data_def
          sqsh__fragment_view_size_def Let_def cong: if_cong)
    have core2: "archive_core ar2 = archive_core ?ar" using V core1 by simp
    note C2 = archive_coreD [OF core2]
    have fs: "file_sane env se ee src ar2 ?f" using D(2) file_sane_core [OF core2] by blast
    have cnt: "sqsh_file_block_count2 env ar2 ?f = sqsh_file_block_count2 env ?ar ?f"
      by (simp add: sqsh_file_block_count2_def C2(2))
    have lay2: "file_layout env ar2 ?f sizes" using D(4) V fi1 by (simp add: file_layout_def cnt)
    have ff: "file_fragment_ok env impls src sizes ar1 ?f d = file_fragment_ok env impls src sizes ?ar ?f d" for d
      by (simp only: file_fragment_ok_def fi1 data_manager_core(2) [OF core1]
          archive_coreD(2,4) [OF core1])
    have big: "\<not> BLOCK_INDEX_FINISHED \<le> sqsh_file_block_count2 env ?ar ?f"
      using file_block_count_bound [OF S] by (simp add: BLOCK_INDEX_FINISHED_def)
    show ?thesis
    proof (cases "r2 = Ok")
      case False
      then show ?thesis using main V by simp
    next
      case True
      then have it': "rv = Ok" "it' = it\<lparr>fi_archive := ar2, fi_fragment_view := v,
        fi_data := fv_data v, fi_size := fv_size v, fi_block_index := BLOCK_INDEX_FINISHED\<rparr>"
        using main by simp_all
      have "file_iterator_sane env se ee src impls sizes it'"
        using S V True fs lay2 big cnt C2(2,4)
        by (auto simp: it' file_iterator_sane_def Let_def BLOCK_INDEX_FINISHED_def
            data_manager_core(1) [OF core2])
      then show ?thesis using it' V True core2 fi1 ff archive_coreD(2) [OF core1]
        by (auto simp: same_file_def)
    qed
  qed
qed

lemma same_file_refl [simp]: "same_file env it it"
  by (simp add: same_file_def)

lemma map_block_correct:
  assumes S: "file_iterator_sane env se ee src impls sizes it"
    and k: "fi_block_index it < sqsh_file_block_count2 env (fi_archive it) (fi_file it)"
    and sp: "fi_sparse_size it = 0" and d: "0 < desired"
    and eq: "map_block env it desired = (rv, it')"
  shows "safe_rv rv \<and> (rv = Ok \<longrightarrow> file_iterator_sane env se ee src impls sizes it' \<and>
    same_file env it it' \<and>
    fi_block_index it < fi_block_index it' \<and>
    fi_block_index it' \<le> sqsh_file_block_count2 env (fi_archive it) (fi_file it) \<and>
    file_chunk env impls src sizes (fi_archive it) (fi_file it) (file_position it)
      (sqsh_file_iterator_data it') (file_position it'))"
proof -
  let ?f = "fi_file it" and ?ar = "fi_archive it" and ?k = "fi_block_index it"
  let ?n = "sqsh_file_block_size2 env ?f ?k" and ?z = "sqsh__map_reader_size (fi_map_reader it)"
  note D = file_iterator_saneD [OF S]
  consider (hole) "?n = 0" | (comp) "?n \<noteq> 0" "sqsh_file_block_is_compressed2 env ?f ?k"
    | (plain) "?n \<noteq> 0" "\<not> sqsh_file_block_is_compressed2 env ?f ?k" by blast
  then show ?thesis
  proof cases
    case hole
    have g: "get_block_size env it = file_block_bytes env ?ar ?f ?k"
      by (rule get_block_size_bytes [OF S k]) simp_all
    let ?i = "it\<lparr>fi_sparse_size := file_block_bytes env ?ar ?f ?k\<rparr>"
    obtain it1 r1 where z: "map_zero_block ?i = (r1, it1)" by fastforce
    have "file_iterator_sane env se ee src impls sizes ?i"
      using S file_block_bytes_bound(2) [of env ?ar ?f ?k] by (simp add: file_iterator_sane_def Let_def)
    note Z = map_zero_block_correct [OF this z]
    from Z obtain s n dt where "it1 = ?i\<lparr>fi_sparse_size := s, fi_size := n, fi_data := dt\<rparr>" by blast
    then have e: "fi_archive it1 = ?ar" "fi_file it1 = ?f" "fi_block_log it1 = fi_block_log it"
      "fi_block_index it1 = ?k" "fi_map_reader it1 = fi_map_reader it" by simp_all
    have w: "wrap_add ?k 1 = ?k + 1"
      using k file_block_count_bound [OF S] by (intro wrap_add_exact) simp
    have it': "rv = Ok" "it' = it1\<lparr>fi_block_index := ?k + 1\<rparr>"
      using eq hole z Z g w e(4) by (simp_all add: map_block_def Let_def)
    have "file_iterator_sane env se ee src impls sizes it'"
      using Z it'(2) D(10) k e hole file_block_count_bound [OF S]
      by (auto simp: file_iterator_sane_def Let_def file_block_address_Suc)
    moreover have "0 < fi_size it1" "fi_size it1 \<le> file_block_bytes env ?ar ?f ?k"
      "fi_sparse_size it1 = file_block_bytes env ?ar ?f ?k - fi_size it1"
      "sqsh_file_iterator_data it' = replicate (fi_size it1) 0"
      using Z file_block_bytes_bound(1) [of env ?ar ?f ?k]
      by (auto simp: it' sqsh_file_iterator_data_def)
    ultimately show ?thesis using it' e k hole sp file_chunk.hole [OF k hole, of "fi_size it1" impls src sizes]
      by (simp add: same_file_def)
  next
    case comp
    then have "map_block_compressed env it ?z = (rv, it')" using eq by (simp add: map_block_def Let_def)
    note C = map_block_compressed_correct [OF S refl k comp(2,1) sp this]
    have "file_chunk env impls src sizes ?ar ?f (?k, 0) (fi_data it') (?k + 1, 0)" if "rv = Ok"
      by (rule file_chunk.compressed [OF k comp(2,1)]) (use C that in auto)
    then show ?thesis using C k sp D(7) file_iterator_saneD(7) [of env se ee src impls sizes it']
      by (auto simp: same_file_def sqsh_file_iterator_data_def)
  next
    case plain
    then have "map_block_uncompressed env it ?z desired = (rv, it')"
      using eq by (simp add: map_block_def Let_def)
    note U = map_block_uncompressed_correct [OF S refl k plain(2) d sp this]
    have "file_chunk env impls src sizes ?ar ?f (?k, 0) (fi_data it') (file_position it')" if "rv = Ok"
    proof -
      have "fi_sparse_size it' \<le> 2 ^ sqsh_superblock_block_log env (ar_superblock ?ar)"
        using U that file_iterator_saneD(7,13) [of env se ee src impls sizes it'] by simp
      then show ?thesis
        using file_chunk.stored [of ?k "fi_block_index it'" env ?ar ?f src "fi_sparse_size it'" impls sizes]
          U that plain by simp
    qed
    then show ?thesis using U sp D(7) file_iterator_saneD(7) [of env se ee src impls sizes it']
      by (auto simp: same_file_def sqsh_file_iterator_data_def)
  qed
qed

lemma file_iterator_next_correct:
  assumes S: "file_iterator_sane env se ee src impls sizes it" and lk: "safe_rv (env_lock env)"
    and ci: "safe_rv (fst cache_init)" "\<forall>P. ee P (snd cache_init)"
    and im: "\<forall>c i. sqsh__extractor_impl_from_id impls c = Some i \<longrightarrow> extractor_impl_ok i"
    and eq: "sqsh_file_iterator_next env impls cache_init it desired = (b, rv, it')"
  shows "safe_rv rv \<and>
    (rv = Ok \<longrightarrow> file_iterator_sane env se ee src impls sizes it' \<and> same_file env it it') \<and>
    (b \<longrightarrow> rv = Ok \<and> file_chunk env impls src sizes (fi_archive it) (fi_file it)
      (file_position it) (sqsh_file_iterator_data it') (file_position it')) \<and>
    (\<not> b \<and> rv = Ok \<longrightarrow> file_position it' = file_position it \<and> fi_sparse_size it = 0 \<and>
      (let n = sqsh_file_block_count2 env (fi_archive it) (fi_file it)
       in n \<le> fi_block_index it \<and> (sqsh_file_has_fragment env (fi_file it) \<longrightarrow> n \<noteq> fi_block_index it)))"
proof -
  let ?ar = "fi_archive it" and ?f = "fi_file it"
  note D = file_iterator_saneD [OF S]
  obtain r0 v m where cl: "sqsh__extract_view_cleanup (env_cache env) (fi_compression_manager it)
    (fi_extract_view it) = (r0, v, m)" by (rule prod_cases3)
  define i where "i = it\<lparr>fi_extract_view := v, fi_compression_manager := m\<rparr>"
  have Si: "file_iterator_sane env se ee src impls sizes i"
    using S data_view_cleanup [OF D(6) cl] D(7,13) by (auto simp: i_def file_iterator_sane_def Let_def)
  have e: "fi_archive i = ?ar" "fi_file i = ?f" "fi_block_log i = fi_block_log it"
    "file_position i = file_position it"
    by (simp_all add: i_def)
  have same: "same_file env i j \<longleftrightarrow> same_file env it j" for j by (simp add: same_file_def i_def)
  let ?n = "sqsh_file_block_count2 env ?ar ?f" and ?d = "if desired = 0 then 1 else desired"
  obtain b1 r1 j where st: "(if 0 < fi_sparse_size it then (True, map_zero_block i)
      else if fi_block_index it < ?n then (True, map_block env i ?d)
      else if sqsh_file_has_fragment env ?f \<and> fi_block_index it = ?n
      then (True, map_fragment env impls cache_init i)
      else (False, Ok, i\<lparr>fi_data := [], fi_size := 0\<rparr>)) = (b1, r1, j)" by (rule prod_cases3)
  have res: "rv = r1 \<and> it' = j \<and> b = (r1 = Ok \<and> b1)"
    using eq st cl unfolding sqsh_file_iterator_next_def
    by (auto simp: Let_def sqsh_file_iterator_is_zero_block_def i_def split: if_splits)
  consider (zero) "0 < fi_sparse_size it" "b1" "map_zero_block i = (r1, j)"
    | (block) "fi_sparse_size it = 0" "fi_block_index it < ?n" "b1" "map_block env i ?d = (r1, j)"
    | (frag) "fi_sparse_size it = 0" "sqsh_file_has_fragment env ?f" "fi_block_index it = ?n" "b1"
        "map_fragment env impls cache_init i = (r1, j)"
    | (stop) "fi_sparse_size it = 0" "?n \<le> fi_block_index it"
        "sqsh_file_has_fragment env ?f \<longrightarrow> ?n \<noteq> fi_block_index it" "\<not> b1" "r1 = Ok"
        "j = i\<lparr>fi_data := [], fi_size := 0\<rparr>"
    using st by (auto split: if_splits)
  then show ?thesis
  proof cases
    case zero
    note Z = map_zero_block_correct [OF Si zero(3)]
    from Z obtain s n dt where "j = i\<lparr>fi_sparse_size := s, fi_size := n, fi_data := dt\<rparr>" by blast
    then have ej: "fi_archive j = ?ar" "fi_file j = ?f" "fi_block_log j = fi_block_log it"
      "fi_block_index j = fi_block_index it" using e by simp_all
    have sp: "fi_sparse_size j + fi_size j = fi_sparse_size it" "0 < fi_size j"
      using Z zero(1) e(4) by simp_all
    have "file_chunk env impls src sizes ?ar ?f (file_position it) (sqsh_file_iterator_data j)
      (file_position j)"
      using file_chunk.zeros [of "fi_size j" "fi_sparse_size it" env impls src sizes ?ar ?f
          "fi_block_index it"] sp Z ej by (simp add: sqsh_file_iterator_data_def)
        (metis add_diff_cancel_right' le_add2)
    then show ?thesis using Z res zero ej by (simp add: same_file_def)
  next
    case block
    have "0 < ?d" by simp
    from map_block_correct [OF Si _ _ this block(4)] block e
    have "safe_rv r1 \<and> (r1 = Ok \<longrightarrow> file_iterator_sane env se ee src impls sizes j \<and>
      same_file env it j \<and> file_chunk env impls src sizes ?ar ?f (file_position it)
        (sqsh_file_iterator_data j) (file_position j))" by (simp add: same)
    then show ?thesis using res block by auto
  next
    case frag
    have "sqsh_file_has_fragment env (fi_file i)" using frag(2) e by simp
    note F = map_fragment_correct [OF Si lk this ci im frag(5)]
    have "file_chunk env impls src sizes ?ar ?f (file_position it) (sqsh_file_iterator_data j)
      (file_position j)" if "r1 = Ok"
      using file_chunk.fragment [of env ?f impls src sizes ?ar "fi_data j"] F that frag e
      by (simp add: sqsh_file_iterator_data_def)
    then show ?thesis using F res frag by (auto simp: same)
  next
    case stop
    have "file_iterator_sane env se ee src impls sizes j"
      using Si stop(6) by (auto simp: file_iterator_sane_def Let_def)
    then show ?thesis using res stop e by (auto simp: same_file_def)
  qed
qed

section \<open>The contents of a file\<close>

definition file_block where
  "file_block env impls src ar f k =
     (if sqsh_file_block_size2 env f k = 0 then replicate (file_block_bytes env ar f k) 0
      else if sqsh_file_block_is_compressed2 env f k
      then the (data_decode env impls src ar (file_block_address env f k) (sqsh_file_block_size2 env f k))
      else window (file_block_address env f k) (sqsh_file_block_size2 env f k) (ar_bytes src ar))"

definition file_fragment where
  "file_fragment env impls src ar f =
     (if sqsh_file_has_fragment env f then
        (let info = the (fragment_info env ar f);
             a = sqsh__data_fragment_start info; w = sqsh__data_fragment_size_info info;
             n = sqsh_datablock_size w
         in window (sqsh_file_fragment_block_offset env f)
              (sqsh_file_size env f mod 2 ^ sqsh_superblock_block_log env (ar_superblock ar))
              (if sqsh_datablock_is_compressed w then the (data_decode env impls src ar a n)
               else window a n (ar_bytes src ar)))
      else [])"

definition file_content where
  "file_content env impls src ar f =
     concat (map (file_block env impls src ar f) [0..<sqsh_file_block_count2 env ar f])
     @ file_fragment env impls src ar f"

text \<open>
  The file is stored completely: no block is stored short, every compressed block decompresses to
  its share of the file, and the fragment block holds the rest.
\<close>

definition file_stored_ok where
  "file_stored_ok env impls src sizes ar f \<longleftrightarrow>
     no_short_block env ar f \<and>
     (\<forall>k < sqsh_file_block_count2 env ar f. sqsh_file_block_is_compressed2 env f k \<longrightarrow>
        sqsh_file_block_size2 env f k \<noteq> 0 \<longrightarrow>
        sizes (file_block_address env f k) = Some (sqsh_file_block_size2 env f k) \<and>
        (\<exists>d. data_decode env impls src ar (file_block_address env f k)
               (sqsh_file_block_size2 env f k) = Some d \<and>
             length d = file_block_bytes env ar f k)) \<and>
     file_block_address env f (sqsh_file_block_count2 env ar f) \<le> length (ar_bytes src ar) \<and>
     (sqsh_file_has_fragment env f \<longrightarrow>
        (\<exists>d. file_fragment_ok env impls src sizes ar f d) \<and>
        (\<forall>info. fragment_info env ar f = Some info \<longrightarrow>
           sqsh_datablock_is_compressed (sqsh__data_fragment_size_info info) \<longrightarrow>
           sizes (sqsh__data_fragment_start info)
             = Some (sqsh_datablock_size (sqsh__data_fragment_size_info info))))"

text \<open>The position in the contents.\<close>

definition file_offset where
  "file_offset env ar f p =
     min (fst p * 2 ^ sqsh_superblock_block_log env (ar_superblock ar)) (sqsh_file_size env f) - snd p"

definition file_position_ok where
  "file_position_ok env ar f p \<longleftrightarrow> snd p = 0 \<or>
     (\<exists>k. fst p = Suc k \<and> k < sqsh_file_block_count2 env ar f \<and> sqsh_file_block_size2 env f k = 0 \<and>
        snd p \<le> file_block_bytes env ar f k)"

lemma block_end_floor:
  fixes b n :: nat
  assumes "0 < b" "k < n div b"
  shows "min (Suc k * b) n = k * b + b" "min (k * b) n = k * b"
proof -
  have "Suc k * b \<le> n div b * b" using assms(2) by (intro mult_le_mono1) simp
  also have "\<dots> \<le> n" by simp
  finally show "min (Suc k * b) n = k * b + b" "min (k * b) n = k * b" by simp_all
qed

lemma block_end_ceil:
  fixes b n :: nat
  assumes "0 < b" "k < divide_ceil n b"
  shows "min (Suc k * b) n = k * b + (if k + 1 = divide_ceil n b \<and> n mod b \<noteq> 0 then n mod b else b)"
    and "min (k * b) n = k * b"
proof -
  show "min (Suc k * b) n = k * b + (if k + 1 = divide_ceil n b \<and> n mod b \<noteq> 0 then n mod b else b)"
  proof (cases "k < n div b")
    case True
    then have "k + 1 \<noteq> divide_ceil n b \<or> n mod b = 0" by (auto simp: divide_ceil_def)
    then show ?thesis using block_end_floor(1) [OF assms(1) True] by auto
  next
    case False
    then have k: "k = n div b" "n mod b \<noteq> 0" using assms(2) by (auto simp: divide_ceil_def split: if_splits)
    have "n = k * b + n mod b" using k(1) by simp
    moreover have "n mod b < b" using assms(1) by simp
    ultimately have "min (Suc k * b) n = k * b + n mod b" by simp
    moreover have "k + 1 = divide_ceil n b" using k by (simp add: divide_ceil_def)
    ultimately show ?thesis using k(2) by (simp only: if_True simp_thms)
  qed
  have "k \<le> n div b" using assms(2) by (auto simp: divide_ceil_def split: if_splits)
  then have "k * b \<le> n div b * b" by (rule mult_le_mono1)
  also have "\<dots> \<le> n" by simp
  finally show "min (k * b) n = k * b" by simp
qed

lemma file_offset_Suc:
  assumes "k < sqsh_file_block_count2 env ar f"
  shows "file_offset env ar f (Suc k, 0) = file_offset env ar f (k, 0) + file_block_bytes env ar f k"
    "file_offset env ar f (k, 0) = k * 2 ^ sqsh_superblock_block_log env (ar_superblock ar)"
proof -
  define b where "b = (2::nat) ^ sqsh_superblock_block_log env (ar_superblock ar)"
  define n where "n = sqsh_file_size env f"
  have b: "0 < b" by (simp add: b_def)
  have c: "sqsh_file_block_count2 env ar f
      = (if sqsh_file_has_fragment env f then n div b else divide_ceil n b)"
    by (simp add: sqsh_file_block_count2_def sqsh__block_count_def sqsh_block_count_ceil_div b_def n_def)
  have e: "file_block_bytes env ar f k = (if k + 1 = sqsh_file_block_count2 env ar f \<and>
      \<not> sqsh_file_has_fragment env f \<and> n mod b \<noteq> 0 then n mod b else b)"
    by (simp add: file_block_bytes_def Let_def b_def n_def)
  have "min (Suc k * b) n = k * b + file_block_bytes env ar f k \<and> min (k * b) n = k * b"
  proof (cases "sqsh_file_has_fragment env f")
    case True
    then show ?thesis using block_end_floor [OF b, of k n] assms e by (simp add: c)
  next
    case False
    then show ?thesis using block_end_ceil [OF b, of k n] assms e by (simp add: c)
  qed
  then show "file_offset env ar f (Suc k, 0) = file_offset env ar f (k, 0) + file_block_bytes env ar f k"
    "file_offset env ar f (k, 0) = k * 2 ^ sqsh_superblock_block_log env (ar_superblock ar)"
    unfolding file_offset_def b_def [symmetric] n_def [symmetric] by simp_all
qed

lemma upt_split: "i \<le> j \<Longrightarrow> j \<le> k \<Longrightarrow> [i..<k] = [i..<j] @ [j..<k]"
  by (metis le_Suc_ex upt_add_eq_append)

lemma file_block_length:
  assumes "file_stored_ok env impls src sizes ar f" "k < sqsh_file_block_count2 env ar f"
  shows "length (file_block env impls src ar f k) = file_block_bytes env ar f k"
proof -
  let ?N = "sqsh_file_block_count2 env ar f"
  have "file_block_address env f (Suc k) \<le> file_block_address env f ?N"
    using assms(2) by (intro file_block_address_mono) simp
  then have "file_block_address env f k + sqsh_file_block_size2 env f k \<le> length (ar_bytes src ar)"
    using assms(1) by (simp add: file_stored_ok_def file_block_address_Suc)
  then show ?thesis using assms
    by (auto simp: file_stored_ok_def file_block_def no_short_block_def)
qed

lemma file_blocks_length:
  assumes "file_stored_ok env impls src sizes ar f"
  shows "k \<le> sqsh_file_block_count2 env ar f \<Longrightarrow>
    length (concat (map (file_block env impls src ar f) [0..<k])) = file_offset env ar f (k, 0)"
proof (induction k)
  case 0
  then show ?case by (simp add: file_offset_def)
next
  case (Suc k)
  then show ?case using file_offset_Suc(1) [of k env ar f] file_block_length [OF assms, of k] by simp
qed

lemma file_blocks_window:
  assumes "file_stored_ok env impls src sizes ar f" "i \<le> j" "j \<le> sqsh_file_block_count2 env ar f"
  shows "window (file_offset env ar f (i, 0))
      (file_offset env ar f (j, 0) - file_offset env ar f (i, 0)) (file_content env impls src ar f)
    = concat (map (file_block env impls src ar f) [i..<j])"
    and "file_offset env ar f (i, 0) + length (concat (map (file_block env impls src ar f) [i..<j]))
      = file_offset env ar f (j, 0)"
proof -
  let ?b = "file_block env impls src ar f" and ?N = "sqsh_file_block_count2 env ar f"
  have s: "[0..<?N] = [0..<i] @ [i..<j] @ [j..<?N]" and s2: "[0..<j] = [0..<i] @ [i..<j]"
    using assms(2,3) upt_split [of 0 i j] upt_split [of 0 i ?N] upt_split [of i j ?N] by simp_all
  have l: "length (concat (map ?b [0..<i])) = file_offset env ar f (i, 0)"
    "length (concat (map ?b [0..<j])) = file_offset env ar f (j, 0)"
    using file_blocks_length [OF assms(1)] assms(2,3) by simp_all
  then show "file_offset env ar f (i, 0) + length (concat (map ?b [i..<j]))
      = file_offset env ar f (j, 0)" by (simp add: s2)
  then show "window (file_offset env ar f (i, 0))
      (file_offset env ar f (j, 0) - file_offset env ar f (i, 0)) (file_content env impls src ar f)
    = concat (map ?b [i..<j])"
    unfolding file_content_def s window_def using l(1) by simp
qed

lemma stored_run:
  assumes "no_short_block env ar f" "k \<le> j" "j \<le> sqsh_file_block_count2 env ar f"
    and "\<forall>i. k \<le> i \<and> i < j \<longrightarrow> \<not> sqsh_file_block_is_compressed2 env f i"
  shows "concat (map (file_block env impls src ar f) [k..<j]) =
    window (file_block_address env f k) (file_block_address env f j - file_block_address env f k)
      (ar_bytes src ar)"
  using assms(2-4)
proof (induction j rule: dec_induct)
  case (step j)
  let ?a = "file_block_address env f"
  have "file_block env impls src ar f j = window (?a j) (sqsh_file_block_size2 env f j) (ar_bytes src ar)"
    using assms(1) step.prems step.hyps file_block_bytes_bound(1) [of env ar f j]
    by (simp add: file_block_def no_short_block_def)
  moreover have "?a k \<le> ?a j" using step.hyps by (intro file_block_address_mono) simp
  ultimately show ?case using step.IH step.prems step.hyps
    window_append_window [of "?a k" "?a j - ?a k" "ar_bytes src ar" "sqsh_file_block_size2 env f j"]
    by (simp add: file_block_address_Suc)
qed simp
lemma file_content_length:
  assumes st: "file_stored_ok env impls src sizes ar f" and fs: "sqsh_file_size env f < 2 ^ 64"
  shows "length (file_content env impls src ar f) = sqsh_file_size env f"
    "file_offset env ar f (sqsh_file_block_count2 env ar f, 0) + length (file_fragment env impls src ar f)
      = sqsh_file_size env f"
proof -
  let ?N = "sqsh_file_block_count2 env ar f" and ?n = "sqsh_file_size env f"
  define b where "b = (2::nat) ^ sqsh_superblock_block_log env (ar_superblock ar)"
  have b: "0 < b" by (simp add: b_def)
  have o: "file_offset env ar f (?N, 0) = min (?N * b) ?n" by (simp add: file_offset_def b_def)
  show *: "file_offset env ar f (?N, 0) + length (file_fragment env impls src ar f) = ?n"
  proof (cases "sqsh_file_has_fragment env f")
    case True
    have N: "?N = ?n div b" using True
      by (simp add: sqsh_file_block_count2_def sqsh__block_count_def b_def)
    obtain d where d: "file_fragment_ok env impls src sizes ar f d" using st True
      by (auto simp: file_stored_ok_def)
    have "length (file_fragment env impls src ar f) = ?n mod b"
      using d st True by (auto simp: file_fragment_def file_fragment_ok_def file_stored_ok_def Let_def
          b_def split: if_splits)
    moreover have "file_offset env ar f (?N, 0) = ?n div b * b"
      unfolding o by (simp add: N min_def)
    ultimately show ?thesis by simp
  next
    case False
    have N: "?N = divide_ceil ?n b" using False
      by (simp add: sqsh_file_block_count2_def sqsh__block_count_def sqsh_block_count_ceil_div b_def)
    have "?n \<le> ?N * b" unfolding N using divide_ceil_least [OF b, of ?n "divide_ceil ?n b"]
      by (simp add: mult.commute)
    then show ?thesis using False unfolding o by (simp add: file_fragment_def)
  qed
  show "length (file_content env impls src ar f) = ?n"
    using * file_blocks_length [OF st, of ?N] by (simp add: file_content_def)
qed

lemma file_fragment_window:
  assumes st: "file_stored_ok env impls src sizes ar f" and fs: "sqsh_file_size env f < 2 ^ 64"
  shows "window (file_offset env ar f (sqsh_file_block_count2 env ar f, 0))
      (length (file_fragment env impls src ar f)) (file_content env impls src ar f)
    = file_fragment env impls src ar f"
  using file_blocks_length [OF st order_refl] by (simp add: file_content_def window_def)

lemma file_fragment_unique:
  assumes "file_stored_ok env impls src sizes ar f" "sqsh_file_has_fragment env f"
    and "file_fragment_ok env impls src sizes ar f d"
  shows "d = file_fragment env impls src ar f"
  using assms by (auto simp: file_fragment_def file_fragment_ok_def file_stored_ok_def Let_def
      split: if_splits)

text \<open>
  Every chunk of a completely stored file is the next piece of its contents: the abstraction of the
  position to an offset is a simulation.
\<close>

lemma file_chunk_content:
  assumes st: "file_stored_ok env impls src sizes ar f" and fs: "sqsh_file_size env f < 2 ^ 64"
    and lg: "0 < sqsh_superblock_block_log env (ar_superblock ar)"
    and ch: "file_chunk env impls src sizes ar f p d q" and p: "file_position_ok env ar f p"
  shows "file_position_ok env ar f q \<and>
    file_offset env ar f q = file_offset env ar f p + length d \<and>
    d = window (file_offset env ar f p) (length d) (file_content env impls src ar f) \<and>
    file_offset env ar f q \<le> sqsh_file_size env f"
proof -
  let ?o = "file_offset env ar f" and ?C = "file_content env impls src ar f"
    and ?b = "file_block env impls src ar f" and ?N = "sqsh_file_block_count2 env ar f"
  have le: "?o q \<le> sqsh_file_size env f" for q by (simp add: file_offset_def)
  have one: "window (?o (k, 0)) (file_block_bytes env ar f k) ?C = ?b k"
    "length (?b k) = file_block_bytes env ar f k"
    if "k < ?N" for k
    using file_blocks_window(1) [OF st, of k "Suc k"] file_offset_Suc(1) [of k env ar f]
      file_block_length [OF st that] that by simp_all
  have zero: "window (?o (Suc k, 0) - s) n ?C = replicate n 0"
    if "k < ?N" "sqsh_file_block_size2 env f k = 0" "s \<le> file_block_bytes env ar f k" "n \<le> s" for k s n
  proof -
    let ?e = "file_block_bytes env ar f k"
    have "?o (Suc k, 0) - s = ?o (k, 0) + (?e - s)" using file_offset_Suc(1) [of k env ar f] that by simp
    moreover have "window (?e - s) n (window (?o (k, 0)) ?e ?C) = replicate n 0"
      using one(1) [OF that(1)] that(2-4) by (simp add: file_block_def window_def)
    moreover have "window (?e - s) n (window (?o (k, 0)) ?e ?C) = window (?o (k, 0) + (?e - s)) n ?C"
      using that(3,4) by (intro window_window) simp
    ultimately show ?thesis by simp
  qed
  have sub: "?o (k, s) = ?o (k, 0) - s" for k s by (simp add: file_offset_def)
  show ?thesis using ch
  proof cases
    case (zeros n s k)
    then obtain i where i: "k = Suc i" "i < ?N" "sqsh_file_block_size2 env f i = 0"
      "s \<le> file_block_bytes env ar f i" using p by (auto simp: file_position_ok_def)
    have "s \<le> ?o (Suc i, 0)" using file_offset_Suc(1) [of i env ar f] i by simp
    then have "?o (k, s - n) = ?o (k, s) + n" using zeros i(1) sub [of k s] sub [of k "s - n"] by simp
    then show ?thesis using zeros i zero [OF i(2-4), of n] sub [of k s] le [of q]
      by (auto simp: file_position_ok_def)
  next
    case (hole k n)
    let ?e = "file_block_bytes env ar f k"
    have "?o (k + 1, ?e - n) = ?o (k, 0) + n"
      using file_offset_Suc(1) [of k env ar f] hole sub [of "k + 1" "?e - n"] by simp
    moreover have "window (?o (k, 0)) n ?C = replicate n 0"
      using zero [of k ?e n] hole file_offset_Suc(1) [of k env ar f] by simp
    ultimately show ?thesis using hole le [of q] by (auto simp: file_position_ok_def)
  next
    case (compressed k)
    have "d = ?b k" using compressed st by (auto simp: file_block_def file_stored_ok_def)
    then show ?thesis using compressed one [of k] file_offset_Suc(1) [of k env ar f] le [of q]
      by (simp add: file_position_ok_def)
  next
    case (stored k j s)
    have ns: "no_short_block env ar f" using st by (simp add: file_stored_ok_def)
    have s: "s = 0" using stored ns by simp
    have d: "d = concat (map ?b [k..<j])"
      using stored_run [OF ns, of k j impls src] stored by simp
    have kj: "k \<le> j" using stored by simp
    have "length d = ?o (j, 0) - ?o (k, 0)" "?o (k, 0) + length d = ?o (j, 0)"
      using file_blocks_window(2) [OF st kj] stored unfolding d by simp_all
    then show ?thesis using file_blocks_window(1) [OF st kj] stored s d le [of q]
      by (simp add: file_position_ok_def)
  next
    case fragment
    have d: "d = file_fragment env impls src ar f" by (rule file_fragment_unique [OF st fragment(3,4)])
    have "(2::nat) ^ 1 \<le> 2 ^ sqsh_superblock_block_log env (ar_superblock ar)"
      using lg by (intro power_increasing) auto
    then have "BLOCK_INDEX_FINISHED * 2 \<le> BLOCK_INDEX_FINISHED * 2 ^ sqsh_superblock_block_log env (ar_superblock ar)"
      by (intro mult_le_mono2) simp
    then have "?o q = sqsh_file_size env f" using fs fragment
      by (simp add: file_offset_def BLOCK_INDEX_FINISHED_def)
    then show ?thesis using file_content_length(2) [OF st fs] file_fragment_window [OF st fs] d fragment
      by (simp add: file_position_ok_def)
  qed
qed

text \<open>Every chunk uses up fuel, so that the iteration ends.\<close>

lemma file_chunk_fuel:
  assumes ch: "file_chunk env impls src sizes (fi_archive it) (fi_file it) (file_position it) d
      (file_position it')"
    and same: "same_file env it it'"
    and lg: "fi_block_log it = sqsh_superblock_block_log env (ar_superblock (fi_archive it))"
    and N: "sqsh_file_block_count2 env (fi_archive it) (fi_file it) < BLOCK_INDEX_FINISHED"
  shows "file_fuel env it' < file_fuel env it"
proof -
  let ?N = "sqsh_file_block_count2 env (fi_archive it) (fi_file it)" and ?b = "2 ^ fi_block_log it :: nat"
  have e: "sqsh_file_block_count2 env (fi_archive it') (fi_file it') = ?N"
    "fi_block_log it' = fi_block_log it"
    using same archive_coreD(2) [of "fi_archive it'" "fi_archive it"]
    by (auto simp: same_file_def sqsh_file_block_count2_def)
  have step: "s + ((?N - j) * (?b + 1) + 1) < (?N - i) * (?b + 1) + 1" if "i < j" "j \<le> ?N" "s \<le> ?b" for i j s
  proof -
    have "(?N - j) * (?b + 1) + (?b + 1) = (?N - j + 1) * (?b + 1)" by simp
    also have "\<dots> \<le> (?N - i) * (?b + 1)" using that by (intro mult_le_mono1) simp
    finally show ?thesis using that(3) by simp
  qed
  define X where "X i = (if i \<le> ?N then (?N - i) * (?b + 1) + 1 else 0)" for i
  have fe: "file_fuel env it = fi_sparse_size it + X (fi_block_index it)"
    "file_fuel env it' = fi_sparse_size it' + X (fi_block_index it')"
    by (simp_all add: file_fuel_def Let_def e X_def)
  obtain p q where pq: "p = file_position it" "q = file_position it'" by simp
  show ?thesis using ch [folded pq]
  proof cases
    case (zeros n s k)
    then show ?thesis using pq by (simp add: fe)
  next
    case (hole k n)
    then show ?thesis
      using step [of k "k + 1" "fi_sparse_size it'"] e lg
        pq file_block_bytes_bound(2) [of env "fi_archive it" "fi_file it" k]
      by (simp add: fe X_def)
  next
    case (compressed k)
    then show ?thesis using step [of k "k + 1" 0] pq e by (simp add: fe X_def)
  next
    case (stored k j s)
    then show ?thesis using step [of k j s] pq e lg by (simp add: fe X_def)
  next
    case fragment
    then show ?thesis using pq e N by (simp add: fe X_def)
  qed
qed

section \<open>The iterator as a source of chunks\<close>

lemma same_file_spec:
  assumes "same_file env it it'"
  shows "fi_file it' = fi_file it"
    "file_content env impls src (fi_archive it') (fi_file it)
      = file_content env impls src (fi_archive it) (fi_file it)"
    "file_stored_ok env impls src sizes (fi_archive it') (fi_file it)
      = file_stored_ok env impls src sizes (fi_archive it) (fi_file it)"
    "file_offset env (fi_archive it') = file_offset env (fi_archive it)"
    "file_position_ok env (fi_archive it') = file_position_ok env (fi_archive it)"
proof -
  from assms have core: "archive_core (fi_archive it') = archive_core (fi_archive it)"
    and fi: "fragment_info env (fi_archive it') (fi_file it) = fragment_info env (fi_archive it) (fi_file it)"
    by (simp_all add: same_file_def)
  note C = archive_coreD [OF core] and d = data_manager_core(2) [OF core]
  have n: "sqsh_file_block_count2 env (fi_archive it') = sqsh_file_block_count2 env (fi_archive it)"
    "file_block_bytes env (fi_archive it') = file_block_bytes env (fi_archive it)"
    by (intro ext; simp add: sqsh_file_block_count2_def file_block_bytes_def C(2))+
  have b: "file_block env impls src (fi_archive it') (fi_file it)
      = file_block env impls src (fi_archive it) (fi_file it)"
    by (intro ext) (simp only: file_block_def n d C(4))
  have g: "file_fragment env impls src (fi_archive it') (fi_file it)
      = file_fragment env impls src (fi_archive it) (fi_file it)"
    by (simp only: file_fragment_def fi d C(2,4))
  have k: "file_fragment_ok env impls src sizes (fi_archive it') (fi_file it)
      = file_fragment_ok env impls src sizes (fi_archive it) (fi_file it)"
    by (intro ext) (simp only: file_fragment_ok_def fi d C(2,4))
  show "fi_file it' = fi_file it" using assms by (simp add: same_file_def)
  show "file_content env impls src (fi_archive it') (fi_file it)
      = file_content env impls src (fi_archive it) (fi_file it)"
    by (simp only: file_content_def b g n)
  show "file_stored_ok env impls src sizes (fi_archive it') (fi_file it)
      = file_stored_ok env impls src sizes (fi_archive it) (fi_file it)"
    by (simp only: file_stored_ok_def no_short_block_def n d C(4) k fi)
  show "file_offset env (fi_archive it') = file_offset env (fi_archive it)"
    "file_position_ok env (fi_archive it') = file_position_ok env (fi_archive it)"
    by (intro ext; simp only: file_offset_def file_position_ok_def n C(2))+
qed

definition file_chunk_ok where
  "file_chunk_ok env se ee src impls cache_init sizes it \<longleftrightarrow>
     file_iterator_sane env se ee src impls sizes it \<and> safe_rv (env_lock env) \<and>
     safe_rv (fst cache_init) \<and> (\<forall>P. ee P (snd cache_init)) \<and>
     (\<forall>c i. sqsh__extractor_impl_from_id impls c = Some i \<longrightarrow> extractor_impl_ok i) \<and>
     file_stored_ok env impls src sizes (fi_archive it) (fi_file it) \<and>
     file_position_ok env (fi_archive it) (fi_file it) (file_position it) \<and>
     fi_size it \<le> file_offset env (fi_archive it) (fi_file it) (file_position it) \<and>
     sqsh_file_iterator_data it =
       window (file_offset env (fi_archive it) (fi_file it) (file_position it) - fi_size it)
         (fi_size it) (file_content env impls src (fi_archive it) (fi_file it))"

definition file_start where
  "file_start env it =
     file_offset env (fi_archive it) (fi_file it) (file_position it) - fi_size it"

definition file_stream where
  "file_stream env impls src it = file_content env impls src (fi_archive it) (fi_file it)"

lemma file_chunk_okD:
  assumes "file_chunk_ok env se ee src impls cache_init sizes it"
  shows "file_iterator_sane env se ee src impls sizes it" "safe_rv (env_lock env)"
    "safe_rv (fst cache_init)" "\<forall>P. ee P (snd cache_init)"
    "\<forall>c i. sqsh__extractor_impl_from_id impls c = Some i \<longrightarrow> extractor_impl_ok i"
    "file_stored_ok env impls src sizes (fi_archive it) (fi_file it)"
    "file_position_ok env (fi_archive it) (fi_file it) (file_position it)"
    "file_start env it + fi_size it = file_offset env (fi_archive it) (fi_file it) (file_position it)"
    "sqsh_file_iterator_data it = window (file_start env it) (fi_size it) (file_stream env impls src it)"
    "length (file_stream env impls src it) = sqsh_file_size env (fi_file it)"
    "file_start env it + fi_size it \<le> sqsh_file_size env (fi_file it)"
    "sqsh_file_size env (fi_file it) < 2 ^ 64"
proof -
  show S: "file_iterator_sane env se ee src impls sizes it" and st: "file_stored_ok env impls src sizes
    (fi_archive it) (fi_file it)" using assms by (simp_all add: file_chunk_ok_def)
  show fs: "sqsh_file_size env (fi_file it) < 2 ^ 64"
    by (rule file_size_bound [OF file_iterator_saneD(2) [OF S]])
  show "length (file_stream env impls src it) = sqsh_file_size env (fi_file it)"
    using file_content_length(1) [OF st fs] by (simp add: file_stream_def)
  show "file_start env it + fi_size it \<le> sqsh_file_size env (fi_file it)"
    using assms by (simp add: file_start_def file_chunk_ok_def) (simp add: file_offset_def)
qed (use assms in \<open>simp_all add: file_chunk_ok_def file_start_def file_stream_def\<close>)

lemma file_next_chunk:
  assumes ok: "file_chunk_ok env se ee src impls cache_init sizes it"
    and eq: "sqsh_file_iterator_next env impls cache_init it d = (b, rv, it')"
  shows "safe_rv rv" "b \<Longrightarrow> rv = Ok \<and> file_chunk_ok env se ee src impls cache_init sizes it' \<and>
    file_stream env impls src it' = file_stream env impls src it \<and>
    fi_file it' = fi_file it \<and>
    file_start env it' = file_start env it + fi_size it \<and> file_fuel env it' < file_fuel env it"
proof -
  note K = file_chunk_okD [OF ok]
  note N = file_iterator_next_correct [OF K(1-5) eq]
  show "safe_rv rv" using N by blast
  assume b: b
  then have rv: "rv = Ok" and S': "file_iterator_sane env se ee src impls sizes it'"
    and same: "same_file env it it'"
    and ch: "file_chunk env impls src sizes (fi_archive it) (fi_file it) (file_position it)
      (sqsh_file_iterator_data it') (file_position it')" using N by blast+
  note P = same_file_spec [OF same] and D = file_iterator_saneD [OF K(1)]
  have lg: "0 < sqsh_superblock_block_log env (ar_superblock (fi_archive it))" using D(7,15) by simp
  note C = file_chunk_content [OF K(6,12) lg ch K(7)]
  have len: "length (sqsh_file_iterator_data it') = fi_size it'"
    using file_iterator_saneD(12) [OF S'] by (simp add: sqsh_file_iterator_data_def)
  have start: "file_start env it' = file_start env it + fi_size it"
    using C len K(8) by (simp add: file_start_def P)
  have "file_chunk_ok env se ee src impls cache_init sizes it'"
    using S' K(2-6) C len start K(8)
    by (simp add: file_chunk_ok_def file_start_def file_stream_def P)
  moreover have "sqsh_file_block_count2 env (fi_archive it) (fi_file it) < BLOCK_INDEX_FINISHED"
    using file_block_count_bound [OF K(1)] by (simp add: BLOCK_INDEX_FINISHED_def)
  ultimately show "rv = Ok \<and> file_chunk_ok env se ee src impls cache_init sizes it' \<and>
    file_stream env impls src it' = file_stream env impls src it \<and>
    fi_file it' = fi_file it \<and>
    file_start env it' = file_start env it + fi_size it \<and> file_fuel env it' < file_fuel env it"
    using rv start file_chunk_fuel [OF ch same D(7)] by (simp add: file_stream_def P)
qed

text \<open>
  Skipping from a new iterator finds the chunk that holds the offset, as long as the file has it.
  From a chunk of the file it is only relied on inside the chunk; the last section says why.
\<close>

definition file_fresh where
  "file_fresh it \<longleftrightarrow> file_position it = (0, 0) \<and> fi_size it = 0 \<and>
     sqsh__map_reader_size (fi_map_reader it) = 0"

definition file_skips where
  "file_skips env it off \<longleftrightarrow> off < fi_size it \<or> file_fresh it \<and> off < sqsh_file_size env (fi_file it)"

lemma skip_loop_correct:
  "file_chunk_ok env se ee src impls cache_init sizes it \<Longrightarrow> file_fuel env it < fuel \<Longrightarrow>
   skip_loop fuel env impls cache_init it off d = (rv, off', it') \<Longrightarrow>
   safe_rv rv \<and> (rv = Ok \<longrightarrow> file_chunk_ok env se ee src impls cache_init sizes it' \<and>
     file_stream env impls src it' = file_stream env impls src it \<and>
     file_start env it' + off' = file_start env it + off \<and> off' < fi_size it')"
proof (induction fuel arbitrary: it off)
  case (Suc fuel)
  show ?case
  proof (cases "fi_size it \<le> off")
    case False
    then show ?thesis using Suc.prems by (auto simp: sqsh_file_iterator_size_def)
  next
    case True
    obtain b r1 it1 where nx: "sqsh_file_iterator_next env impls cache_init it d = (b, r1, it1)"
      by (rule prod_cases3)
    note N = file_next_chunk [OF Suc.prems(1) nx]
    show ?thesis
    proof (cases b)
      case False
      then have "rv = (if r1 \<noteq> Ok then r1 else Err SQSH_ERROR_OUT_OF_BOUNDS)"
        using Suc.prems(3) True nx by (auto simp: sqsh_file_iterator_size_def)
      then show ?thesis using N(1) by auto
    next
      case b: True
      note N2 = N(2) [OF b]
      have "skip_loop fuel env impls cache_init it1 (off - fi_size it) d = (rv, off', it')"
        using Suc.prems(3) True nx N2 b by (simp add: sqsh_file_iterator_size_def Let_def)
      moreover have "file_fuel env it1 < fuel" using N2 Suc.prems(2) by simp
      ultimately show ?thesis using Suc.IH [of it1 "off - fi_size it"] N2 True by simp
    qed
  qed
qed simp

lemma skip_forward_correct:
  "b + i \<le> N \<Longrightarrow> N < 2 ^ 63 \<Longrightarrow> file_block_address env f b + acc' = file_block_address env f (b + i) \<Longrightarrow>
   acc + acc' < 2 ^ 64 \<Longrightarrow> skip_forward env f N i b acc = (b + i, acc + acc')"
proof (induction i arbitrary: b acc acc')
  case (Suc i)
  let ?n = "sqsh_file_block_size2 env f b"
  have "file_block_address env f (b + 1) \<le> file_block_address env f (b + Suc i)"
    by (intro file_block_address_mono) simp
  then have n: "?n \<le> acc'" using Suc.prems(3) by (simp add: file_block_address_Suc)
  have "skip_forward env f N (Suc i) b acc = skip_forward env f N i (b + 1) (acc + ?n)"
    using Suc.prems n by (simp add: wrap_add_exact)
  also have "\<dots> = (b + 1 + i, acc + ?n + (acc' - ?n))"
    using Suc.prems n by (intro Suc.IH) (simp_all add: file_block_address_Suc)
  finally show ?case using n by simp
qed simp

text \<open>From a new iterator the first loop ends at the block that holds the offset.\<close>

lemma file_skip_forward:
  assumes ok: "file_chunk_ok env se ee src impls cache_init sizes it" and fr: "file_fresh it"
    and off: "off < sqsh_file_size env (fi_file it)"
    and eq: "sqsh_file_iterator_skip2 env impls cache_init it off d = (rv, off', it')"
  obtains r1 mr i fwd fuel j where
    "fwd \<le> file_block_address env (fi_file it)
        (sqsh_file_block_count2 env (fi_archive it) (fi_file it)) - file_block_address env (fi_file it) 0"
    "sqsh__map_reader_advance (env_maps env) (env_buf env) (fi_map_reader it) fwd 0 = (r1, mr)"
    "safe_rv r1" "r1 \<noteq> Ok \<Longrightarrow> rv = r1"
    "j = it\<lparr>fi_map_reader := mr, fi_sparse_size := 0, fi_block_index := i\<rparr>" "file_fuel env j < fuel"
    "r1 = Ok \<Longrightarrow> skip_loop fuel env impls cache_init j (off mod 2 ^ fi_block_log it) d = (rv, off', it')"
    "r1 = Ok \<Longrightarrow> file_chunk_ok env se ee src impls cache_init sizes j"
    "r1 = Ok \<Longrightarrow> file_start env j + off mod 2 ^ fi_block_log it = off"
proof -
  let ?f = "fi_file it" and ?ar = "fi_archive it" and ?mr = "fi_map_reader it"
  let ?N = "sqsh_file_block_count2 env ?ar ?f" and ?a = "file_block_address env ?f"
  define b where "b = (2::nat) ^ sqsh_superblock_block_log env (ar_superblock ?ar)"
  define i where "i = off div b"
  note K = file_chunk_okD [OF ok]
  note D = file_iterator_saneD [OF K(1)]
  have b: "0 < b" "2 ^ fi_block_log it = b" using D(7) by (simp_all add: b_def)
  have iN: "i \<le> ?N"
  proof -
    have "i \<le> sqsh_file_size env ?f div b" using off by (simp add: i_def div_le_mono)
    also have "\<dots> \<le> ?N" by (auto simp: sqsh_file_block_count2_def sqsh__block_count_def
          sqsh_block_count_ceil_div divide_ceil_def b_def)
    finally show ?thesis .
  qed
  have ib: "i * b \<le> off" by (simp add: i_def)
  have stored: "?a ?N \<le> length (ar_bytes src ?ar)" using K(6) by (simp add: file_stored_ok_def)
  have len: "length (ar_bytes src ?ar) < 2 ^ 52" using D(1) by (simp add: archive_inv_def archive_ok_def)
  define fwd where "fwd = ?a i - ?a 0"
  have a0: "?a 0 \<le> ?a i" "?a i \<le> ?a ?N" using iN by (simp_all add: file_block_address_mono)
  have f64: "fwd < 2 ^ 64" using a0 stored len by (simp add: fwd_def)
  have sf: "skip_forward env ?f ?N i 0 0 = (i, fwd)"
    using skip_forward_correct [of 0 i ?N env ?f fwd 0] iN file_block_count_bound [OF K(1)] a0 f64
    by (simp add: fwd_def)
  obtain r1 mr where ad: "sqsh__map_reader_advance (env_maps env) (env_buf env) ?mr fwd 0 = (r1, mr)"
    by fastforce
  have fr': "fi_block_index it = 0" "fi_sparse_size it = 0" "fi_size it = 0"
    "sqsh__map_reader_size ?mr \<le> 0" "sqsh__map_reader_size ?mr = 0"
    using fr by (simp_all add: file_fresh_def)
  have sup: "advance_supported (mr_reader ?mr) fwd 0"
    using advance_supported_le [OF D(8), of fwd 0] fr'(5) by simp
  note A = map_reader_advance_correct [OF D(14,8) sup _ ad]
  let ?j = "it\<lparr>fi_map_reader := mr, fi_sparse_size := 0, fi_block_index := i\<rparr>"
  have main: "(if r1 \<noteq> Ok then (r1, off mod b, it\<lparr>fi_map_reader := mr\<rparr>)
      else skip_loop (Suc (file_fuel env ?j + 1)) env impls cache_init ?j (off mod b) d) = (rv, off', it')"
    using eq fr'(1-3) sf ad b(2)
    by (simp add: sqsh_file_iterator_skip2_def sqsh_file_iterator_size_def i_def Let_def cong: if_cong
        del: skip_loop.simps)
  have okj: "file_chunk_ok env se ee src impls cache_init sizes ?j \<and> file_start env ?j + off mod b = off"
    if "r1 = Ok"
  proof -
    have o: "file_offset env ?ar ?f (i, 0) = i * b" using ib off by (simp add: file_offset_def flip: b_def)
    have i64: "i < 2 ^ 64" using iN file_block_count_bound [OF K(1)] by simp
    have "mr_address mr + sqsh__map_reader_size mr = ?a i"
      using A that D(10) fr' a0 by (simp add: fwd_def)
    then have "file_iterator_sane env se ee src impls sizes ?j"
      using K(1) A that i64 fr'(2) by (auto simp: file_iterator_sane_def Let_def)
    then have "file_chunk_ok env se ee src impls cache_init sizes ?j"
      using K(2-6) fr'(3) by (simp add: file_chunk_ok_def file_position_ok_def sqsh_file_iterator_data_def)
    moreover have "file_start env ?j = i * b" using o fr' by (simp add: file_start_def)
    ultimately show ?thesis by (simp add: i_def)
  qed
  have "fwd \<le> ?a ?N - ?a 0" using a0 by (simp add: fwd_def)
  moreover have "safe_rv r1" using A by simp
  moreover have "rv = r1" if "r1 \<noteq> Ok" using main that by simp
  moreover have "skip_loop (Suc (file_fuel env ?j + 1)) env impls cache_init ?j
      (off mod 2 ^ fi_block_log it) d = (rv, off', it')" if "r1 = Ok"
    using main that b(2) by (simp del: skip_loop.simps)
  ultimately show thesis using that [OF _ ad, of ?j i "Suc (file_fuel env ?j + 1)"] okj b(2) by simp
qed

lemma file_skip_fresh:
  assumes ok: "file_chunk_ok env se ee src impls cache_init sizes it" and fr: "file_fresh it"
    and off: "off < sqsh_file_size env (fi_file it)"
    and eq: "sqsh_file_iterator_skip2 env impls cache_init it off d = (rv, off', it')"
  shows "safe_rv rv \<and> (rv = Ok \<longrightarrow> file_chunk_ok env se ee src impls cache_init sizes it' \<and>
     file_stream env impls src it' = file_stream env impls src it \<and>
     file_start env it' + off' = file_start env it + off \<and> off' < fi_size it')"
proof -
  from file_skip_forward [OF ok fr off eq] obtain r1 mr i fwd fuel j where F: "safe_rv r1"
    "r1 \<noteq> Ok \<Longrightarrow> rv = r1" "file_fuel env j < fuel"
    "j = it\<lparr>fi_map_reader := mr, fi_sparse_size := 0, fi_block_index := i\<rparr>"
    "r1 = Ok \<Longrightarrow> skip_loop fuel env impls cache_init j (off mod 2 ^ fi_block_log it) d = (rv, off', it')"
    "r1 = Ok \<Longrightarrow> file_chunk_ok env se ee src impls cache_init sizes j"
    "r1 = Ok \<Longrightarrow> file_start env j + off mod 2 ^ fi_block_log it = off" by metis
  have z: "file_start env it = 0" using fr by (simp add: file_start_def file_fresh_def file_offset_def)
  show ?thesis
  proof (cases "r1 = Ok")
    case False
    then show ?thesis using F(1,2) by simp
  next
    case True
    from skip_loop_correct [OF F(6) [OF True] F(3) F(5) [OF True]] F(7) [OF True] z show ?thesis
      by (simp add: file_stream_def F(4))
  qed
qed

section \<open>Starting an iterator\<close>

lemma file_stored_layout:
  "file_stored_ok env impls src sizes ar f \<Longrightarrow> file_layout env ar f sizes"
  by (auto simp: file_stored_ok_def file_layout_def)

lemma file_iterator_init_correct:
  assumes inv: "archive_inv env se ee src ar" and f: "file_sane env se ee src ar f"
    and lk: "safe_rv (env_lock env)" and ci: "safe_rv (fst cache_init)" "\<forall>P. ee P (snd cache_init)"
    and im: "\<forall>c i. sqsh__extractor_impl_from_id impls c = Some i \<longrightarrow> extractor_impl_ok i"
    and d: "archive_data_ok env ee impls src sizes ar" and lay: "file_layout env ar f sizes"
    and z: "fi_size it0 = 0"
    and eq: "sqsh__file_iterator_init env impls cache_init it0 ar f = (rv, it)"
  shows "safe_rv rv \<and> (rv = Ok \<longrightarrow> file_iterator_sane env se ee src impls sizes it \<and> file_fresh it \<and>
    fi_file it = f \<and> archive_core (fi_archive it) = archive_core ar \<and>
    fragment_info env (fi_archive it) f = fragment_info env ar f)"
proof (cases "sqsh_file_type env f = Some SQSH_FILE_TYPE_FILE \<and> sqsh_file_blocks_start env f < 2 ^ 64")
  case False
  then show ?thesis using eq
    by (auto simp: sqsh__file_iterator_init_def sqsh__file_iterator_init_with_state_def
        split: option.splits if_splits)
next
  case True
  have bo: "cx_buffer_ok (env_buf env)" using inv by (simp add: archive_inv_def archive_ok_def)
  let ?a = "sqsh_file_blocks_start env f"
  obtain r1 xm ar1 where dm: "sqsh__archive_data_extract_manager env impls cache_init ar = (r1, xm, ar1)"
    by (rule prod_cases3)
  note M = data_manager_data_ok [OF inv lk d ci im dm]
  show ?thesis
  proof (cases "r1 = Ok")
    case False
    then show ?thesis using eq True dm M
      by (simp add: sqsh__file_iterator_init_def sqsh__file_iterator_init_with_state_def add_overflow_def
          del: add_overflow_Some)
  next
    case r1: True
    then obtain m where m: "xm = Some m" "data_manager_ok env ee impls src sizes ar m" using M by auto
    have core: "archive_core ar1 = archive_core ar" and inv1: "archive_inv env se ee src ar1"
      using M by auto
    note C = archive_coreD [OF core]
    obtain r2 mr where mi: "sqsh__map_reader_init (env_maps env) (env_buf env) (ar_map_manager ar1) ?a
      (sqsh_superblock_bytes_used env (ar_superblock ar1)) (fi_map_reader it0) = (r2, mr)" by fastforce
    have mm: "manager_ok (env_maps env) se src (ar_map_manager ar1)"
      using inv1 by (simp add: archive_inv_def archive_ok_def)
    note I = map_reader_init_correct [OF bo mm conjunct2 [OF True] mi]
    have main: "(rv, it) = (if r2 \<noteq> Ok then (r2, it0\<lparr>fi_archive := ar1, fi_compression_manager := m,
        fi_map_reader := mr\<rparr>) else (Ok, it0\<lparr>fi_archive := ar1, fi_compression_manager := m,
        fi_map_reader := mr, fi_block_index := 0,
        fi_block_log := sqsh_superblock_block_log env (ar_superblock ar1), fi_file := f,
        fi_sparse_size := 0\<rparr>))"
      using eq True dm r1 m(1) mi C
      by (simp add: sqsh__file_iterator_init_def sqsh__file_iterator_init_with_state_def add_overflow_def
          Let_def del: add_overflow_Some cong: if_cong)
    show ?thesis
    proof (cases "r2 = Ok")
      case False
      then show ?thesis using main I by simp
    next
      case True
      have fi: "fragment_info env ar1 f = fragment_info env ar f"
        using fragment_info_stable [OF core] M by simp
      have "file_layout env ar1 f sizes"
        using lay fi by (simp add: file_layout_def sqsh_file_block_count2_def C(2))
      moreover have "data_manager_ok env ee impls src sizes ar1 m"
        using m(2) by (simp add: data_manager_core(1) [OF core])
      moreover have "file_sane env se ee src ar1 f" using f file_sane_core [OF core] by blast
      ultimately show ?thesis
        using main True M I inv1 z fi core \<open>sqsh_file_type env f = Some SQSH_FILE_TYPE_FILE \<and> _\<close>
        by (auto simp: file_iterator_sane_def Let_def file_fresh_def file_block_address_def
            ar_bytes_def)
    qed
  qed
qed

text \<open>Iterating until the iterator has no more chunks.\<close>

fun file_iterate ::
  "nat \<Rightarrow> ('c, 'b, 'e) sqsh_env \<Rightarrow> 'x extractor_impls \<Rightarrow> rv \<times> 'e \<Rightarrow>
   ('u, 'c, 'b, 'e, 'x, 'h) file_iterator \<Rightarrow> nat \<Rightarrow> byte list \<times> rv" where
  "file_iterate 0 env impls cache_init it desired_size = ([], Diverge)"
| "file_iterate (Suc fuel) env impls cache_init it desired_size =
     (case sqsh_file_iterator_next env impls cache_init it desired_size of
        (has_next, rv, it) \<Rightarrow>
          if has_next
          then (case file_iterate fuel env impls cache_init it desired_size of
                  (data, rv) \<Rightarrow> (sqsh_file_iterator_data it @ data, rv))
          else ([], rv))"

lemma file_iterate_safe:
  assumes "safe_rv (env_lock env)" "safe_rv (fst cache_init)" "\<forall>P. ee P (snd cache_init)"
    "\<forall>c i. sqsh__extractor_impl_from_id impls c = Some i \<longrightarrow> extractor_impl_ok i"
  shows "file_iterator_sane env se ee src impls sizes it \<Longrightarrow> file_fuel env it < fuel \<Longrightarrow>
    safe_rv (snd (file_iterate fuel env impls cache_init it d))"
proof (induction fuel arbitrary: it)
  case (Suc fuel)
  obtain b r1 it1 where nx: "sqsh_file_iterator_next env impls cache_init it d = (b, r1, it1)"
    by (rule prod_cases3)
  note N = file_iterator_next_correct [OF Suc.prems(1) assms nx]
  have "file_fuel env it1 < fuel" if b
    using file_chunk_fuel [of env impls src sizes it "sqsh_file_iterator_data it1" it1] N that Suc.prems(2)
      file_iterator_saneD(7) [OF Suc.prems(1)] file_block_count_bound [OF Suc.prems(1)]
    by (simp add: BLOCK_INDEX_FINISHED_def)
  then show ?case using nx N Suc.IH [of it1] by (auto split: prod.split)
qed simp

lemma file_next_end:
  assumes ok: "file_chunk_ok env se ee src impls cache_init sizes it"
    and eq: "sqsh_file_iterator_next env impls cache_init it d = (False, Ok, it')"
  shows "file_start env it + fi_size it = sqsh_file_size env (fi_file it)"
proof -
  let ?f = "fi_file it" and ?ar = "fi_archive it"
  let ?N = "sqsh_file_block_count2 env ?ar ?f" and ?k = "fi_block_index it"
  note K = file_chunk_okD [OF ok]
  note N = file_iterator_next_correct [OF K(1-5) eq]
  have k: "?N \<le> ?k" "fi_sparse_size it = 0" "sqsh_file_has_fragment env ?f \<Longrightarrow> ?N < ?k"
    using N by (auto simp: Let_def)
  define b where "b = (2::nat) ^ sqsh_superblock_block_log env (ar_superblock ?ar)"
  have b: "0 < b" by (simp add: b_def)
  have "sqsh_file_size env ?f \<le> ?k * b"
  proof (cases "sqsh_file_has_fragment env ?f")
    case True
    then have "sqsh_file_size env ?f div b < ?k" using k(3)
      by (simp add: sqsh_file_block_count2_def sqsh__block_count_def b_def)
    then show ?thesis using b by (metis less_imp_le div_less_iff_less_mult)
  next
    case False
    then have "divide_ceil (sqsh_file_size env ?f) b \<le> ?k" using k(1)
      by (simp add: sqsh_file_block_count2_def sqsh__block_count_def sqsh_block_count_ceil_div b_def)
    then show ?thesis using divide_ceil_least [OF b] by (metis mult.commute)
  qed
  then show ?thesis using K(8) k(2) by (simp add: file_offset_def flip: b_def)
qed

lemma file_iterate_content:
  "file_chunk_ok env se ee src impls cache_init sizes it \<Longrightarrow> file_fuel env it < fuel \<Longrightarrow>
   file_iterate fuel env impls cache_init it d = (data, rv) \<Longrightarrow>
   safe_rv rv \<and> (rv = Ok \<longrightarrow> data = drop (file_start env it + fi_size it) (file_stream env impls src it))"
proof (induction fuel arbitrary: it data)
  case (Suc fuel)
  obtain b r1 it1 where nx: "sqsh_file_iterator_next env impls cache_init it d = (b, r1, it1)"
    by (rule prod_cases3)
  note K = file_chunk_okD [OF Suc.prems(1)] and N = file_next_chunk [OF Suc.prems(1) nx]
  show ?case
  proof (cases b)
    case False
    have "data = []" "rv = r1" using Suc.prems(3) nx False by simp_all
    moreover have "file_start env it + fi_size it = sqsh_file_size env (fi_file it)" if "r1 = Ok"
      using file_next_end [OF Suc.prems(1), of d it1] nx False that by simp
    ultimately show ?thesis using N(1) K(10) by simp
  next
    case True
    note N2 = N(2) [OF True]
    obtain data1 r2 where rec: "file_iterate fuel env impls cache_init it1 d = (data1, r2)" by fastforce
    have dv: "data = sqsh_file_iterator_data it1 @ data1" "rv = r2" using Suc.prems(3) nx True rec by simp_all
    have ok1: "file_chunk_ok env se ee src impls cache_init sizes it1" using N2 by blast
    have "file_fuel env it1 < fuel" using N2 Suc.prems(2) by simp
    note IH = Suc.IH [OF ok1 this rec [folded dv(2)]]
    have "sqsh_file_iterator_data it1 = window (file_start env it + fi_size it) (fi_size it1)
        (file_stream env impls src it)"
      using file_chunk_okD(9) [OF ok1] N2 by simp
    moreover have "window s n xs @ drop (s + n) xs = drop s xs" for s n and xs :: "byte list"
      by (metis append_take_drop_id drop_drop add.commute window_def)
    ultimately show ?thesis using IH dv N2 by simp
  qed
qed simp

end
