(* ===== verification/Sqsh_FileReader.thy ===== *)
theory Sqsh_FileReader
  imports Sqsh_FileIterator
begin

text \<open>
  \<^verbatim>\<open>libsqsh/src/file/file_reader.c\<close>: the generic reader on top of the file iterator. The file iterator is an
  interpretation of the reader's interface, so that the reader's lemmas hold for files: what it
  presents is a window of the file's contents, and with memory enough it always presents it.
\<close>

section \<open>The file reader\<close>

definition file_reader_impl ::
  "('c, 'b, 'e) sqsh_env \<Rightarrow> 'x extractor_impls \<Rightarrow> rv \<times> 'e \<Rightarrow>
   ('u, 'c, 'b, 'e, 'x, 'h) file_iterator reader_iterator_impl" where
  "file_reader_impl env impls cache_init =
     \<lparr>ri_next = sqsh_file_iterator_next env impls cache_init,
      ri_skip = sqsh_file_iterator_skip2 env impls cache_init,
      ri_data = sqsh_file_iterator_data, ri_size = sqsh_file_iterator_size,
      ri_fuel = file_fuel env\<rparr>"

type_synonym ('u, 'c, 'b, 'e, 'x, 'h) file_reader =
  "(('u, 'c, 'b, 'e, 'x, 'h) file_iterator, 'b) reader"

definition sqsh__file_reader_init ::
  "('c, 'b, 'e) sqsh_env \<Rightarrow> 'x extractor_impls \<Rightarrow> rv \<times> 'e \<Rightarrow>
   ('u, 'c, 'b, 'e, 'x, 'h) file_reader \<Rightarrow> ('u, 'c, 'b, 'e, 'x, 'h) sqsh_archive \<Rightarrow>
   ('u, 'c, 'b, 'e, 'x) sqsh_file \<Rightarrow> rv \<times> ('u, 'c, 'b, 'e, 'x, 'h) file_reader" where
  "sqsh__file_reader_init env impls cache_init r archive file =
     (case sqsh__file_iterator_init env impls cache_init (rd_iterator r) archive file of
        (rv, it) \<Rightarrow>
          (let r = r\<lparr>rd_iterator := it\<rparr>
           in if rv \<noteq> Ok then (rv, r) else sqsh__reader_init (env_buf env) it r))"

definition zero_file_reader ::
  "('c, 'b, 'e) sqsh_env \<Rightarrow> ('u, 'c, 'b, 'e, 'x, 'h) sqsh_archive \<Rightarrow> ('u, 'c, 'b, 'e, 'x) sqsh_file \<Rightarrow>
   ('u, 'c, 'b, 'e, 'x, 'h) file_reader" where
  "zero_file_reader env ar f = \<lparr>rd_iterator = zero_file_iterator env ar f, rd_iterator_offset = 0,
     rd_offset = 0, rd_buffer = snd (cb_init (env_buf env)), rd_data = RNull, rd_size = 0,
     rd_iterator_size = 0\<rparr>"

definition sqsh_file_reader_new ::
  "('c, 'b, 'e) sqsh_env \<Rightarrow> 'x extractor_impls \<Rightarrow> rv \<times> 'e \<Rightarrow> ('u, 'c, 'b, 'e, 'x, 'h) sqsh_archive \<Rightarrow>
   ('u, 'c, 'b, 'e, 'x) sqsh_file \<Rightarrow>
   rv \<times> ('u, 'c, 'b, 'e, 'x, 'h) file_reader option \<times> ('u, 'c, 'b, 'e, 'x, 'h) sqsh_archive" where
  "sqsh_file_reader_new env impls cache_init archive file =
     (case sqsh__file_reader_init env impls cache_init (zero_file_reader env archive file) archive file of
        (rv, r) \<Rightarrow> (rv, if rv = Ok then Some r else None, fi_archive (rd_iterator r)))"

definition sqsh_file_reader_advance2 ::
  "('c, 'b, 'e) sqsh_env \<Rightarrow> 'x extractor_impls \<Rightarrow> rv \<times> 'e \<Rightarrow>
   ('u, 'c, 'b, 'e, 'x, 'h) file_reader \<Rightarrow> nat \<Rightarrow> nat \<Rightarrow>
   rv \<times> ('u, 'c, 'b, 'e, 'x, 'h) file_reader" where
  "sqsh_file_reader_advance2 env impls cache_init r offset sz =
     sqsh__reader_advance (file_reader_impl env impls cache_init) (env_buf env) r offset sz"

definition sqsh_file_reader_advance where
  "sqsh_file_reader_advance env impls cache_init r offset sz =
     sqsh__reader_advance (file_reader_impl env impls cache_init) (env_buf env) r offset sz"

definition sqsh_file_reader_data ::
  "('c, 'b, 'e) sqsh_env \<Rightarrow> 'x extractor_impls \<Rightarrow> rv \<times> 'e \<Rightarrow>
   ('u, 'c, 'b, 'e, 'x, 'h) file_reader \<Rightarrow> byte list" where
  "sqsh_file_reader_data env impls cache_init r =
     sqsh__reader_data (file_reader_impl env impls cache_init) (env_buf env) r"

definition sqsh_file_reader_size :: "('u, 'c, 'b, 'e, 'x, 'h) file_reader \<Rightarrow> nat" where
  "sqsh_file_reader_size r = sqsh__reader_size r"

definition sqsh__file_reader_cleanup ::
  "('c, 'b, 'e) sqsh_env \<Rightarrow> ('u, 'c, 'b, 'e, 'x, 'h) file_reader \<Rightarrow>
   rv \<times> ('u, 'c, 'b, 'e, 'x, 'h) file_reader" where
  "sqsh__file_reader_cleanup env r =
     (case sqsh__file_iterator_cleanup env (rd_iterator r) of (_, it) \<Rightarrow>
        (Ok, r\<lparr>rd_iterator := it\<rparr>))"

section \<open>Progress\<close>

text \<open>
  With memory that is never exhausted and a mapper that always maps, reading a completely stored file
  whose blocks lie inside the archive never fails.
\<close>

definition data_live where
  "data_live env src ar \<longleftrightarrow> env_lock env = Ok \<and> cache_total (env_maps env) \<and>
     live_memory_mapper (mp_impl (mm_mapper (ar_map_manager ar))) src \<and>
     cx_buffer_total (env_buf env) \<and> cache_total (env_cache env)"

definition file_inside where
  "file_inside env src ar f \<longleftrightarrow>
     file_block_address env f (sqsh_file_block_count2 env ar f) < length (ar_bytes src ar) \<and>
     (\<forall>info. sqsh_file_has_fragment env f \<longrightarrow> fragment_info env ar f = Some info \<longrightarrow>
        (let a = sqsh__data_fragment_start info
         in a < length (ar_bytes src ar) \<and>
            a + sqsh_datablock_size (sqsh__data_fragment_size_info info) \<le> length (ar_bytes src ar)))"

definition file_live where
  "file_live env src it \<longleftrightarrow> map_reader_live (env_maps env) src (env_buf env) (fi_map_reader it) \<and>
     data_live env src (fi_archive it) \<and> ar_data_manager (fi_archive it) \<noteq> None \<and>
     file_inside env src (fi_archive it) (fi_file it)"

lemma data_live_core:
  "archive_core ar' = archive_core ar \<Longrightarrow> data_live env src ar' = data_live env src ar"
  using archive_coreD(1) [of ar' ar] by (simp add: data_live_def)

lemma extract_view_init_live:
  assumes "cx_buffer_ok (env_buf env)" "extract_manager_ok (env_cache env) ee Q m"
    and "\<And>b. decode (env_buf env) (xm_impl m) (xm_block_size m)
        (sqsh__map_reader_data (env_maps env) (env_buf env) mr) = Some (cb_data (env_buf env) b) \<Longrightarrow>
      Q (mr_address mr) b"
    and "cache_total (env_cache env)" "decode (env_buf env) (xm_impl m) (xm_block_size m)
      (sqsh__map_reader_data (env_maps env) (env_buf env) mr) \<noteq> None"
  shows "fst (sqsh__extract_view_init env m mr) = Ok"
proof -
  obtain r b m1 where un: "sqsh__extract_manager_uncompress env m mr = (r, b, m1)"
    by (rule prod_cases3)
  have Q': "Q (sqsh__map_reader_address mr) b" if "decode (env_buf env) (xm_impl m) (xm_block_size m)
        (sqsh__map_reader_data (env_maps env) (env_buf env) mr) = Some (cb_data (env_buf env) b)" for b
    using assms(3) that by (simp add: sqsh__map_reader_address_def)
  note U = uncompress_correct [OF assms(1,2) Q' un]
  have r: "r = Ok" using U assms(4,5) by blast
  obtain b' where "b = Some b'" using U r by blast
  then show ?thesis using r un by (simp add: sqsh__extract_view_init_def)
qed

lemma data_view_init_live:
  assumes bo: "cx_buffer_ok (env_buf env)" and m: "data_manager_ok env ee impls src sizes ar m"
    and sz: "sizes (mr_address mr) = Some n"
    and win: "sqsh__map_reader_data (env_maps env) (env_buf env) mr
      = window (mr_address mr) n (ar_bytes src ar)"
    and lv: "cache_total (env_cache env)" and d: "data_decode env impls src ar (mr_address mr) n \<noteq> None"
  shows "fst (sqsh__extract_view_init env m mr) = Ok"
proof (rule extract_view_init_live [OF bo, of ee "data_entry env impls src ar sizes" m mr])
  have im: "xm_impl m = data_codec env impls ar"
      "xm_block_size m = 2 ^ sqsh_superblock_block_log env (ar_superblock ar)"
    and "extract_manager_ok (env_cache env) ee (data_entry env impls src ar sizes) m"
    using m by (simp_all add: data_manager_ok_def)
  then show "extract_manager_ok (env_cache env) ee (data_entry env impls src ar sizes) m" by simp
  have e: "decode (env_buf env) (xm_impl m) (xm_block_size m)
      (sqsh__map_reader_data (env_maps env) (env_buf env) mr) = data_decode env impls src ar (mr_address mr) n"
    unfolding im win by (simp add: data_decode_def)
  show "data_entry env impls src ar sizes (mr_address mr) b"
    if "decode (env_buf env) (xm_impl m) (xm_block_size m)
      (sqsh__map_reader_data (env_maps env) (env_buf env) mr) = Some (cb_data (env_buf env) b)" for b
    using that sz e by (simp add: data_entry_def)
  show "decode (env_buf env) (xm_impl m) (xm_block_size m)
      (sqsh__map_reader_data (env_maps env) (env_buf env) mr) \<noteq> None" using d e by simp
qed (rule lv)

lemma file_stored_block:
  assumes st: "file_stored_ok env impls src sizes ar f" and k: "k < sqsh_file_block_count2 env ar f"
    and ins: "file_inside env src ar f"
  shows "file_block_address env f k < length (ar_bytes src ar)"
    "file_block_address env f k + sqsh_file_block_size2 env f k < length (ar_bytes src ar)"
proof -
  have "file_block_address env f (Suc k) \<le> file_block_address env f (sqsh_file_block_count2 env ar f)"
    using k by (intro file_block_address_mono) simp
  then show "file_block_address env f k + sqsh_file_block_size2 env f k < length (ar_bytes src ar)"
    using ins by (simp add: file_block_address_Suc file_inside_def)
  then show "file_block_address env f k < length (ar_bytes src ar)" by simp
qed

lemma map_block_compressed_live:
  assumes S: "file_iterator_sane env se ee src impls sizes it"
    and st: "file_stored_ok env impls src sizes (fi_archive it) (fi_file it)"
    and lv: "file_live env src it"
    and k: "fi_block_index it = k" "k < sqsh_file_block_count2 env (fi_archive it) (fi_file it)"
    and c: "sqsh_file_block_is_compressed2 env (fi_file it) k"
      "sqsh_file_block_size2 env (fi_file it) k \<noteq> 0"
    and eq: "map_block_compressed env it (sqsh__map_reader_size (fi_map_reader it)) = (rv, it')"
  shows "rv = Ok \<and> file_live env src it'"
proof -
  let ?f = "fi_file it" and ?n = "sqsh_file_block_size2 env (fi_file it) k"
    and ?a = "file_block_address env (fi_file it) k" and ?mr = "fi_map_reader it"
  note D = file_iterator_saneD [OF S]
  have ins: "file_inside env src (fi_archive it) ?f"
    and mlv: "map_reader_live (env_maps env) src (env_buf env) ?mr"
    and dl: "data_live env src (fi_archive it)" using lv by (simp_all add: file_live_def)
  note I = file_stored_block [OF st k(2) ins]
  obtain r1 mr where ad: "sqsh__map_reader_advance (env_maps env) (env_buf env) ?mr
    (sqsh__map_reader_size ?mr) ?n = (r1, mr)" by fastforce
  have n64: "?n < 2 ^ 64" using file_block_size_bound [of env ?f k] by simp
  note sup = advance_supported_le [OF D(8) order_refl, of ?n]
  note A = map_reader_advance_correct [OF D(14,8) sup n64 ad]
  have a: "mr_address ?mr + sqsh__map_reader_size ?mr = ?a" using D(10) k by simp
  have L: "r1 = Ok \<and> map_reader_live (env_maps env) src (env_buf env) mr"
    by (rule map_reader_advance_live [OF D(14,8) mlv sup _ _ ad]) (use I a D(9) in simp_all)
  obtain r2 ev m where x: "sqsh__extract_view_init env (fi_compression_manager it) mr = (r2, ev, m)"
    by (rule prod_cases3)
  have mr: "mr_address mr = ?a" using A L a by simp
  have win: "sqsh__map_reader_data (env_maps env) (env_buf env) mr
      = window (mr_address mr) ?n (ar_bytes src (fi_archive it))"
    using A L a mr D(9) by simp
  obtain d where d: "sizes ?a = Some ?n" "data_decode env impls src (fi_archive it) ?a ?n = Some d"
    "length d = file_block_bytes env (fi_archive it) ?f k"
    using st k c by (auto simp: file_stored_ok_def)
  have "r2 = Ok" using data_view_init_live [OF D(14,6) _ win, of] x d mr dl by (simp add: data_live_def)
  moreover have "sqsh__extract_view_size ev = file_block_bytes env (fi_archive it) ?f k"
    using data_view_init [OF D(14,6) _ win x] d mr \<open>r2 = Ok\<close> by simp
  moreover let ?i = "it\<lparr>fi_map_reader := mr, fi_extract_view := ev, fi_compression_manager := m,
      fi_data := sqsh__extract_view_data (env_buf env) ev, fi_size := sqsh__extract_view_size ev\<rparr>"
  have "get_block_size env ?i = file_block_bytes env (fi_archive it) ?f k"
    by (rule get_block_size_bytes [OF S k(2)]) (simp_all add: k)
  moreover have "add_overflow 64 k 1 = Some (k + 1)" using k(2) file_block_count_bound [OF S] by simp
  ultimately have "(rv, it') = (Ok, ?i\<lparr>fi_block_index := k + 1\<rparr>)"
    using eq ad L x k(1)
    by (simp add: map_block_compressed_def Let_def del: add_overflow_Some cong: if_cong)
  then show ?thesis using lv L by (simp add: file_live_def)
qed

lemma uncompressed_loop_live:
  assumes S: "file_iterator_sane env se ee src impls sizes it0"
    and N: "N = sqsh_file_block_count2 env (fi_archive it0) (fi_file it0)"
    and ns: "no_short_block env (fi_archive it0) (fi_file it0)"
    and b: "file_block_address env (fi_file it0) N < 2 ^ 64"
  shows "uncompressed_loop env desired direct N it i outer = (rv, it', j, outer') \<Longrightarrow>
    it = it0\<lparr>fi_block_index := bi, fi_sparse_size := sp\<rparr> \<Longrightarrow> i \<le> N \<Longrightarrow>
    outer \<le> file_block_address env (fi_file it0) i \<Longrightarrow> rv = Ok"
proof (induction "N - i" arbitrary: it i outer bi sp rule: less_induct)
  case less
  let ?f = "fi_file it0" and ?n = "sqsh_file_block_size2 env (fi_file it0) i"
  let ?stop = "\<not> (fi_sparse_size it = 0 \<and> i < N) \<or>
    sqsh_file_block_is_compressed2 env ?f i \<or> desired \<le> outer"
  have f: "fi_file it = ?f" "fi_sparse_size it = sp" "fi_block_log it = fi_block_log it0"
    using less.prems(2) by simp_all
  show ?case
  proof (cases ?stop)
    case True
    then show ?thesis
      using less.prems(1) f uncompressed_loop_stop [of it N i env desired outer direct] by auto
  next
    case go: False
    define it1 where "it1 = it\<lparr>fi_block_index := i\<rparr>"
    define sp2 where "sp2 = (if i + 1 \<noteq> N then wrap_sub (push_bit (fi_block_log it0) 1) ?n else 0)"
    define it2 where "it2 = it1\<lparr>fi_sparse_size := sp2\<rparr>"
    have g: "get_block_size env it1 = ?n"
      using get_block_size_bytes [OF S, of i it1] ns go N less.prems(2) f
      by (simp add: it1_def no_short_block_def)
    have it2: "it2 = it1\<lparr>fi_sparse_size := if i + 1 \<noteq> N then
        wrap_sub (push_bit (fi_block_log it) 1) ?n else 0\<rparr>"
      by (simp add: it2_def sp2_def f)
    have "file_block_address env ?f (Suc i) \<le> file_block_address env ?f N"
      using go by (intro file_block_address_mono) simp
    then have n: "outer + ?n \<le> file_block_address env ?f (i + 1)" "outer + ?n < 2 ^ 64"
      using less.prems(4) b by (simp_all add: file_block_address_Suc)
    have step: "uncompressed_loop env desired direct N it i outer =
      (if direct < outer + ?n \<and> 0 < outer then (Ok, it2, i, outer)
       else uncompressed_loop env desired direct N it2 (i + 1) (outer + ?n))"
      using uncompressed_loop_step [of it i N env outer desired ?n it1 it2 direct] go f g it2 n
      by (simp add: it1_def)
    have it2e: "it2 = it0\<lparr>fi_block_index := i, fi_sparse_size := sp2\<rparr>"
      using less.prems(2) by (simp add: it2_def it1_def)
    show ?thesis
    proof (cases "direct < outer + ?n \<and> 0 < outer")
      case True
      then show ?thesis using less.prems(1) step by simp
    next
      case False
      then have "uncompressed_loop env desired direct N it2 (i + 1) (outer + ?n) = (rv, it', j, outer')"
        using less.prems(1) step by (simp only: if_False)
      moreover have "N - (i + 1) < N - i" "i + 1 \<le> N" using go by auto
      ultimately show ?thesis using less.hyps [of "i + 1" it2] it2e n(1) by blast
    qed
  qed
qed

lemma map_block_uncompressed_live:
  assumes S: "file_iterator_sane env se ee src impls sizes it"
    and st: "file_stored_ok env impls src sizes (fi_archive it) (fi_file it)"
    and lv: "file_live env src it"
    and k: "fi_block_index it = k" "k < sqsh_file_block_count2 env (fi_archive it) (fi_file it)"
    and c: "\<not> sqsh_file_block_is_compressed2 env (fi_file it) k" and d: "0 < desired"
    and sp: "fi_sparse_size it = 0"
    and eq: "map_block_uncompressed env it (sqsh__map_reader_size (fi_map_reader it)) desired
      = (rv, it')"
  shows "rv = Ok \<and> file_live env src it'"
proof -
  let ?f = "fi_file it" and ?mr = "fi_map_reader it" and ?a = "file_block_address env (fi_file it)"
  let ?N = "sqsh_file_block_count2 env (fi_archive it) (fi_file it)"
  let ?A = "ar_bytes src (fi_archive it)"
  note D = file_iterator_saneD [OF S]
  have ins: "file_inside env src (fi_archive it) ?f"
    and mlv: "map_reader_live (env_maps env) src (env_buf env) ?mr"
    using lv by (simp_all add: file_live_def)
  have ns: "no_short_block env (fi_archive it) ?f" using st by (simp add: file_stored_ok_def)
  have "length ?A < 2 ^ 52" using D(1) by (simp add: archive_inv_def archive_ok_def)
  then have aN: "?a ?N < length ?A" "?a ?N < 2 ^ 64" using ins by (simp_all add: file_inside_def)
  obtain r1 it1 j outer where lp: "uncompressed_loop env desired
      (sqsh__map_reader_remaining_direct ?mr) ?N it k 0 = (r1, it1, j, outer)" by (rule prod_cases4)
  have it: "it = it\<lparr>fi_block_index := k, fi_sparse_size := 0\<rparr>" using k(1) sp by simp
  note L = uncompressed_loop_correct [OF S refl lp it _ less_imp_le [OF k(2)]]
  have r1: "r1 = Ok" by (rule uncompressed_loop_live [OF S refl ns aN(2) lp it]) (use k(2) in auto)
  with L obtain bi sp' where L1: "j \<le> ?N" "outer < 2 ^ 64" "outer + ?a k = ?a j"
      "it1 = it\<lparr>fi_block_index := bi, fi_sparse_size := sp'\<rparr>"
    using k c d by auto
  have "?a j \<le> ?a ?N" using L1(1) by (rule file_block_address_mono)
  obtain r2 mr where ad: "sqsh__map_reader_advance (env_maps env) (env_buf env) ?mr
    (sqsh__map_reader_size ?mr) outer = (r2, mr)" by fastforce
  note sup = advance_supported_le [OF D(8) order_refl, of outer]
  have a: "mr_address ?mr + sqsh__map_reader_size ?mr = ?a k" using D(10) k by simp
  have "r2 = Ok \<and> map_reader_live (env_maps env) src (env_buf env) mr"
    by (rule map_reader_advance_live [OF D(14,8) mlv sup _ _ ad])
      (use L1 a D(9) aN \<open>?a j \<le> ?a ?N\<close> in simp_all)
  then show ?thesis using eq lp r1 ad k(1) L1(4) lv
    by (auto simp: map_block_uncompressed_def Let_def file_live_def)
qed
lemma apply_fragment_live:
  assumes inv: "archive_inv env se ee src ar" and len: "length data < 2 ^ 32"
    and r: "sqsh_file_fragment_block_offset env f
      + sqsh_file_size env f mod 2 ^ sqsh_superblock_block_log env (ar_superblock ar) \<le> length data"
  shows "fst (apply_fragment env view ar f data (length data)) = Ok"
proof -
  let ?lg = "sqsh_superblock_block_log env (ar_superblock ar)"
  have "?lg < 32" using archive_block_log(1) [OF inv] by simp
  then have "(2::nat) ^ ?lg < 2 ^ 32" by (intro power_strict_increasing) auto
  then have "n mod 2 ^ ?lg mod 2 ^ 32 = n mod 2 ^ ?lg" for n :: nat
    by (intro mod_less) (meson less_trans mod_less_divisor zero_less_numeral zero_less_power)
  then show ?thesis using r len
    by (auto simp: apply_fragment_def Let_def add_overflow_def simp del: add_overflow_Some
        add_overflow_None)
qed

lemma data_decode_length:
  assumes "archive_inv env se ee src ar"
    and "\<forall>c i. sqsh__extractor_impl_from_id impls c = Some i \<longrightarrow> extractor_impl_ok i"
    and "data_decode env impls src ar a n = Some b"
  shows "length b < 2 ^ 32"
proof -
  have bo: "cx_buffer_ok (env_buf env)" using assms(1) by (simp add: archive_inv_def archive_ok_def)
  have "length b \<le> 2 ^ sqsh_superblock_block_log env (ar_superblock ar)"
    using decode_length [OF bo, of "data_codec env impls ar"] assms(2,3)
    by (simp add: data_decode_def data_codec_def)
  also have "(2::nat) ^ sqsh_superblock_block_log env (ar_superblock ar) < 2 ^ 32"
    using archive_block_log(1) [OF assms(1)] by (intro power_strict_increasing) auto
  finally show ?thesis .
qed

lemma fragment_view_init_live:
  assumes inv: "archive_inv env se ee src ar" and dl: "data_live env src ar"
    and d: "archive_data_ok env ee impls src sizes ar" and dm: "ar_data_manager ar \<noteq> None"
    and st: "file_stored_ok env impls src sizes ar f" and ins: "file_inside env src ar f"
    and hf: "sqsh_file_has_fragment env f"
    and im: "\<forall>c i. sqsh__extractor_impl_from_id impls c = Some i \<longrightarrow> extractor_impl_ok i"
    and eq: "sqsh__fragment_view_init env impls cache_init view ar f = (rv, view', ar')"
  shows "rv = Ok \<and> ar_data_manager ar' \<noteq> None"
proof -
  have bo: "cx_buffer_ok (env_buf env)" using inv by (simp add: archive_inv_def archive_ok_def)
  have lk: "env_lock env = Ok" and live: "cache_total (env_maps env)"
    "live_memory_mapper (mp_impl (mm_mapper (ar_map_manager ar))) src"
    "cx_buffer_total (env_buf env)" "cache_total (env_cache env)" using dl by (simp_all add: data_live_def)
  obtain info b where info: "fragment_info env ar f = Some info"
    and fo: "(let a = sqsh__data_fragment_start info;
             w = sqsh__data_fragment_size_info info; n = sqsh_datablock_size w;
             off = sqsh_file_fragment_block_offset env f;
             rest = sqsh_file_size env f mod 2 ^ sqsh_superblock_block_log env (ar_superblock ar)
         in (if sqsh_datablock_is_compressed w
             then sizes a \<noteq> None \<longrightarrow> data_decode env impls src ar a n = Some b
             else a + n \<le> length (ar_bytes src ar) \<and> b = window a n (ar_bytes src ar)) \<and>
            off + rest \<le> length b)"
    using st hf unfolding file_stored_ok_def file_fragment_ok_def Let_def by blast
  define a w where "a = sqsh__data_fragment_start info" and "w = sqsh__data_fragment_size_info info"
  define n where "n = sqsh_datablock_size w"
  let ?off = "sqsh_file_fragment_block_offset env f"
    and ?rest = "sqsh_file_size env f mod 2 ^ sqsh_superblock_block_log env (ar_superblock ar)"
  obtain t ar1 where tb: "sqsh_archive_fragment_table env ar = (Ok, Some t, ar1)"
    and fi: "sqsh__fragment_table_get env ar t f = (Ok, info)"
    using info by (auto simp: fragment_info_def split: prod.splits rv.splits option.splits)
  have "safe_rv (env_lock env)" using lk by simp
  note T = fragment_table_inv [OF inv this tb] and T2 = fragment_table_loaded [OF tb]
  have inv1: "archive_inv env se ee src ar1" and core1: "archive_core ar1 = archive_core ar"
    using T by auto
  note C1 = archive_coreD [OF core1]
  have fi1: "sqsh__fragment_table_get env ar1 t f = (Ok, info)"
    using fi by (simp add: sqsh__fragment_table_get_def table_get_core [OF core1])
  obtain m where m: "ar_data_manager ar = Some m" using dm by blast
  then have m1: "ar_data_manager ar1 = Some m" "data_manager_ok env ee impls src sizes ar1 m"
    using T2(1) d by (simp_all add: archive_data_ok_def data_manager_core(1) [OF core1])
  have a64: "a < 2 ^ 64" using get_le_8_bound [of 0 info] by (simp add: a_def sqsh__data_fragment_start_def)
  have n32: "n < 2 ^ 32" using datablock_size_bound [of w] by (simp add: n_def)
  have A: "a < length (ar_bytes src ar)" "a + n \<le> length (ar_bytes src ar)"
    using ins hf info by (simp_all add: file_inside_def Let_def a_def n_def w_def)
  obtain r1 mr0 where i0: "sqsh__map_reader_init (env_maps env) (env_buf env) (ar_map_manager ar1) a
             (sqsh_superblock_inode_table_start env (ar_superblock ar1)) (fv_map_reader view) = (r1, mr0)"
    by fastforce
  have mm: "manager_ok (env_maps env) se src (ar_map_manager ar1)"
    using inv1 by (simp add: archive_inv_def archive_ok_def)
  note I = map_reader_init_correct [OF bo mm a64 i0]
  have I2: "r1 = Ok" "map_reader_live (env_maps env) src (env_buf env) mr0"
    using I live A(1) C1(1) by (simp_all add: ar_bytes_def)
  obtain r2 mr where ad: "sqsh__map_reader_advance (env_maps env) (env_buf env) mr0 0 n = (r2, mr)"
    by fastforce
  have ok0: "map_reader_ok (env_maps env) se src (env_buf env) mr0" "sqsh__map_reader_size mr0 \<le> 0"
    using I I2 by auto
  have "r2 = Ok \<and> map_reader_live (env_maps env) src (env_buf env) mr"
    by (rule map_reader_advance_live [OF bo ok0(1) I2(2) advance_supported_le [OF ok0] _ _ ad])
      (use I I2 A C1(1) in \<open>simp_all add: ar_bytes_def\<close>)
  then have mi: "andthen (sqsh__map_reader_init (env_maps env) (env_buf env) (ar_map_manager ar1) a
             (sqsh_superblock_inode_table_start env (ar_superblock ar1)) (fv_map_reader view))
          (\<lambda>mr. sqsh__map_reader_advance (env_maps env) (env_buf env) mr 0 n) = (Ok, mr)"
    using i0 I2 ad by (simp add: andthen_def)
  have n64: "n < 2 ^ 64" using n32 by simp
  note MI = map_reader_window_init [OF bo mm a64 n64 mi]
  have mr: "mr_address mr = a" "sqsh__map_reader_size mr = n"
    "sqsh__map_reader_data (env_maps env) (env_buf env) mr = window a n (ar_bytes src ar)"
    using MI C1(1) by (simp_all add: ar_bytes_def)
  have rest: "?off + ?rest \<le> length b" using fo by (simp add: Let_def)
  let ?v = "view\<lparr>fv_map_reader := mr\<rparr>"
  show ?thesis
  proof (cases "sqsh_datablock_is_compressed w")
    case False
    then have b: "b = window a n (ar_bytes src ar)" using fo by (simp add: Let_def a_def w_def n_def)
    have "fst (apply_fragment env ?v ar1 f b (length b)) = Ok"
      using apply_fragment_live [OF inv1, of b f ?v] rest n32 A(2) C1(2) by (simp add: b)
    moreover have "length b = n" using A(2) by (simp add: b)
    ultimately show ?thesis
      using eq tb T2(2) fi1 mi mr False dm T2(1)
      by (auto simp: sqsh__fragment_view_init_def a_def w_def n_def Let_def b
          read_fragment_uncompressed_def split: prod.splits)
  next
    case True
    have sz: "sizes (mr_address mr) = Some n"
      using st hf info True by (simp add: file_stored_ok_def mr(1) a_def w_def n_def)
    then have db: "data_decode env impls src ar1 (mr_address mr) n = Some b"
      using fo True by (simp add: Let_def a_def w_def n_def mr(1) data_manager_core(2) [OF core1])
    have win: "sqsh__map_reader_data (env_maps env) (env_buf env) mr
        = window (mr_address mr) n (ar_bytes src ar1)" using mr C1(4) [of src] by simp
    obtain r5 ev m' where x: "sqsh__extract_view_init env m mr = (r5, ev, m')" by (rule prod_cases3)
    have r5: "r5 = Ok" using data_view_init_live [OF bo m1(2) sz win live(4)] db x by simp
    have "sqsh__extract_view_data (env_buf env) ev = b" "sqsh__extract_view_size ev = length b"
      using data_view_init [OF bo m1(2) _ win x] r5 sz db by simp_all
    moreover have "length b < 2 ^ 32" by (rule data_decode_length [OF inv1 im db])
    moreover have dme: "sqsh__archive_data_extract_manager env impls cache_init ar1 = (Ok, Some m, ar1)"
      using lk m1(1) by (simp add: sqsh__archive_data_extract_manager_def)
    let ?ar3 = "ar1\<lparr>ar_data_manager := Some m'\<rparr>"
    have inv3: "archive_inv env se ee src ?ar3"
      using archive_invI [of env se ee src ar1 ?ar3] inv1
      by (simp add: archive_inv_def archive_tables_ok_def)
    ultimately have "fst (apply_fragment env (?v\<lparr>fv_extract_view := ev\<rparr>) ?ar3 f
        (sqsh__extract_view_data (env_buf env) ev) (sqsh__extract_view_size ev)) = Ok"
      using apply_fragment_live [OF inv3, of b f "?v\<lparr>fv_extract_view := ev\<rparr>"] rest C1(2) by simp
    then show ?thesis
      using eq tb T2(2) fi1 mi True dme x r5
      by (auto simp: sqsh__fragment_view_init_def a_def w_def n_def Let_def
          read_fragment_compressed_def split: prod.splits)
  qed
qed
lemma file_inside_core:
  assumes "archive_core ar' = archive_core ar" "fragment_info env ar' f = fragment_info env ar f"
  shows "file_inside env src ar' f = file_inside env src ar f"
  by (simp add: file_inside_def sqsh_file_block_count2_def assms(2) archive_coreD(2,4) [OF assms(1)])

lemma map_fragment_live:
  assumes S: "file_iterator_sane env se ee src impls sizes it"
    and st: "file_stored_ok env impls src sizes (fi_archive it) (fi_file it)"
    and lv: "file_live env src it"
    and hf: "sqsh_file_has_fragment env (fi_file it)"
    and ci: "safe_rv (fst cache_init)" "\<forall>P. ee P (snd cache_init)"
    and im: "\<forall>c i. sqsh__extractor_impl_from_id impls c = Some i \<longrightarrow> extractor_impl_ok i"
    and eq: "map_fragment env impls cache_init it = (rv, it')"
  shows "rv = Ok \<and> file_live env src it'"
proof -
  let ?f = "fi_file it" and ?ar = "fi_archive it"
  note D = file_iterator_saneD [OF S]
  have dl: "data_live env src ?ar" and dm: "ar_data_manager ?ar \<noteq> None"
    and ins: "file_inside env src ?ar ?f" and mlv: "map_reader_live (env_maps env) src (env_buf env) (fi_map_reader it)"
    using lv by (simp_all add: file_live_def)
  have lk: "safe_rv (env_lock env)" using dl by (simp add: data_live_def)
  obtain info where info: "fragment_info env ?ar ?f = Some info"
    using st hf by (auto simp: file_stored_ok_def file_fragment_ok_def)
  obtain t ar1 where tb: "sqsh_archive_fragment_table env ?ar = (Ok, Some t, ar1)"
    using info by (auto simp: fragment_info_def split: prod.splits rv.splits option.splits)
  note T = fragment_table_inv [OF D(1) lk tb] and T2 = fragment_table_loaded [OF tb]
  have inv1: "archive_inv env se ee src ar1" and core1: "archive_core ar1 = archive_core ?ar"
    using T by auto
  have fi1: "fragment_info env ar1 ?f = fragment_info env ?ar ?f"
    by (rule fragment_info_loaded [OF tb core1])
  have d1: "archive_data_ok env ee impls src sizes ar1"
    using D(5) T2(1) by (simp add: archive_data_ok_def data_manager_core(1) [OF core1])
  have ins1: "file_inside env src ar1 ?f" using ins file_inside_core [OF core1 fi1] by blast
  have "same_file env it (it\<lparr>fi_archive := ar1\<rparr>)" using core1 fi1 by (simp add: same_file_def)
  then have st1: "file_stored_ok env impls src sizes ar1 ?f"
    using st by (simp add: same_file_spec(3) [where it' = "it\<lparr>fi_archive := ar1\<rparr>", simplified])
  obtain r2 v ar2 where fv: "sqsh__fragment_view_init env impls cache_init (fi_fragment_view it)
      ar1 ?f = (r2, v, ar2)" by (rule prod_cases3)
  have dl1: "data_live env src ar1" using dl data_live_core [OF core1] by blast
  have dm1: "ar_data_manager ar1 \<noteq> None" using dm T2(1) by simp
  note V = fragment_view_init_live [OF inv1 dl1 d1 dm1 st1 ins1 hf im fv]
  have lay1: "file_layout env ar1 ?f sizes" using file_stored_layout [OF st1] .
  note V2 = fragment_view_init_correct [OF inv1 lk d1 lay1 hf ci im fv]
  have core2: "archive_core ar2 = archive_core ar1" and fi2: "fragment_info env ar2 ?f = fragment_info env ar1 ?f"
    using V2 by auto
  have "rv = Ok" "fi_archive it' = ar2" "fi_file it' = ?f" "fi_map_reader it' = fi_map_reader it"
    using eq tb fv V by (auto simp: map_fragment_def Let_def)
  moreover have "data_live env src ar2" using dl1 data_live_core [OF core2] by blast
  moreover have "file_inside env src ar2 ?f" using ins1 file_inside_core [OF core2 fi2] by blast
  ultimately show ?thesis using V mlv by (simp add: file_live_def)
qed

lemma map_block_live:
  assumes S: "file_iterator_sane env se ee src impls sizes it"
    and st: "file_stored_ok env impls src sizes (fi_archive it) (fi_file it)"
    and lv: "file_live env src it"
    and k: "fi_block_index it < sqsh_file_block_count2 env (fi_archive it) (fi_file it)"
    and sp: "fi_sparse_size it = 0" and d: "0 < desired"
    and eq: "map_block env it desired = (rv, it')"
  shows "rv = Ok \<and> file_live env src it'"
proof -
  let ?f = "fi_file it" and ?k = "fi_block_index it"
  let ?n = "sqsh_file_block_size2 env ?f ?k" and ?z = "sqsh__map_reader_size (fi_map_reader it)"
  consider (hole) "?n = 0" | (comp) "?n \<noteq> 0" "sqsh_file_block_is_compressed2 env ?f ?k"
    | (plain) "?n \<noteq> 0" "\<not> sqsh_file_block_is_compressed2 env ?f ?k" by blast
  then show ?thesis
  proof cases
    case hole
    then show ?thesis using eq lv by (auto simp: map_block_def map_zero_block_def Let_def file_live_def)
  next
    case comp
    then have "map_block_compressed env it ?z = (rv, it')" using eq by (simp add: map_block_def Let_def)
    then show ?thesis by (rule map_block_compressed_live [OF S st lv refl k comp(2,1)])
  next
    case plain
    then have "map_block_uncompressed env it ?z desired = (rv, it')"
      using eq by (simp add: map_block_def Let_def)
    then show ?thesis by (rule map_block_uncompressed_live [OF S st lv refl k plain(2) d sp])
  qed
qed

lemma file_next_live:
  assumes ok: "file_chunk_ok env se ee src impls cache_init sizes it" and lv: "file_live env src it"
    and eq: "sqsh_file_iterator_next env impls cache_init it desired = (b, rv, it')"
  shows "rv = Ok" "file_live env src it'"
    "file_start env it + fi_size it < sqsh_file_size env (fi_file it) \<Longrightarrow> b"
proof -
  let ?ar = "fi_archive it" and ?f = "fi_file it"
  note K = file_chunk_okD [OF ok]
  note D = file_iterator_saneD [OF K(1)]
  obtain r0 v m where cl: "sqsh__extract_view_cleanup (env_cache env) (fi_compression_manager it)
    (fi_extract_view it) = (r0, v, m)" by (rule prod_cases3)
  define i where "i = it\<lparr>fi_extract_view := v, fi_compression_manager := m\<rparr>"
  have Si: "file_iterator_sane env se ee src impls sizes i"
    using K(1) data_view_cleanup [OF D(6) cl] D(7,13) by (auto simp: i_def file_iterator_sane_def Let_def)
  have e: "fi_archive i = ?ar" "fi_file i = ?f" "fi_sparse_size i = fi_sparse_size it"
    "fi_block_index i = fi_block_index it" by (simp_all add: i_def)
  have lvi: "file_live env src i" using lv by (simp add: file_live_def i_def)
  have sti: "file_stored_ok env impls src sizes (fi_archive i) (fi_file i)" using K(6) e by simp
  let ?n = "sqsh_file_block_count2 env ?ar ?f" and ?d = "if desired = 0 then 1 else desired"
  obtain b1 r1 j where st: "(if 0 < fi_sparse_size it then (True, map_zero_block i)
      else if fi_block_index it < ?n then (True, map_block env i ?d)
      else if sqsh_file_has_fragment env ?f \<and> fi_block_index it = ?n
      then (True, map_fragment env impls cache_init i)
      else (False, Ok, i\<lparr>fi_data := [], fi_size := 0\<rparr>)) = (b1, r1, j)" by (rule prod_cases3)
  have res: "rv = r1 \<and> it' = j \<and> b = (r1 = Ok \<and> b1)"
    using eq st cl unfolding sqsh_file_iterator_next_def
    by (auto simp: Let_def sqsh_file_iterator_is_zero_block_def i_def split: if_splits)
  have "r1 = Ok \<and> file_live env src j"
  proof (cases "0 < fi_sparse_size it")
    case True
    then show ?thesis using st lvi by (auto simp: map_zero_block_def Let_def file_live_def)
  next
    case ns: False
    show ?thesis
    proof (cases "fi_block_index it < ?n")
      case True
      then have "map_block env i ?d = (r1, j)" using st ns by simp
      moreover have "0 < ?d" by simp
      ultimately show ?thesis using map_block_live [OF Si sti lvi] True ns e by simp
    next
      case False
      show ?thesis
      proof (cases "sqsh_file_has_fragment env ?f \<and> fi_block_index it = ?n")
        case True
        then have "map_fragment env impls cache_init i = (r1, j)" using st ns by simp
        from map_fragment_live [OF Si sti lvi _ K(3-5) this] True e show ?thesis by simp
      next
        case False
        then have "r1 = Ok" "j = i\<lparr>fi_data := [], fi_size := 0\<rparr>"
          using st ns \<open>\<not> fi_block_index it < ?n\<close> by auto
        then show ?thesis using lvi by (simp add: file_live_def)
      qed
    qed
  qed
  then show rv: "rv = Ok" "file_live env src it'" using res by auto
  show b if "file_start env it + fi_size it < sqsh_file_size env ?f"
    using file_next_end [OF ok, of desired it'] eq rv that by (cases b) simp_all
qed

lemma skip_loop_live:
  "file_chunk_ok env se ee src impls cache_init sizes it \<Longrightarrow> file_live env src it \<Longrightarrow>
   file_fuel env it < fuel \<Longrightarrow> file_start env it + off < sqsh_file_size env (fi_file it) \<Longrightarrow>
   skip_loop fuel env impls cache_init it off d = (rv, off', it') \<Longrightarrow>
   rv = Ok \<and> file_live env src it'"
proof (induction fuel arbitrary: it off)
  case (Suc fuel)
  show ?case
  proof (cases "fi_size it \<le> off")
    case False
    then show ?thesis using Suc.prems by (auto simp: sqsh_file_iterator_size_def)
  next
    case True
    obtain b r1 it1 where nx: "sqsh_file_iterator_next env impls cache_init it d = (b, r1, it1)"
      by (rule prod_cases3)
    note L = file_next_live [OF Suc.prems(1,2) nx]
    have b: b using L(3) Suc.prems(4) True by simp
    note N2 = file_next_chunk(2) [OF Suc.prems(1) nx b]
    have rec: "skip_loop fuel env impls cache_init it1 (off - fi_size it) d = (rv, off', it')"
      using Suc.prems(5) True nx N2 b by (simp add: sqsh_file_iterator_size_def Let_def)
    have "file_chunk_ok env se ee src impls cache_init sizes it1" "file_fuel env it1 < fuel"
      "file_start env it1 + (off - fi_size it) < sqsh_file_size env (fi_file it1)"
      using N2 Suc.prems(3,4) True by auto
    from Suc.IH [OF this(1) L(2) this(2,3) rec] show ?thesis .
  qed
qed simp
lemma file_skip_live:
  assumes ok: "file_chunk_ok env se ee src impls cache_init sizes it" and lv: "file_live env src it"
    and fr: "file_fresh it" and off: "off < sqsh_file_size env (fi_file it)"
    and eq: "sqsh_file_iterator_skip2 env impls cache_init it off d = (rv, off', it')"
  shows "rv = Ok \<and> file_live env src it'"
proof -
  let ?f = "fi_file it" and ?ar = "fi_archive it" and ?mr = "fi_map_reader it"
  note K = file_chunk_okD [OF ok]
  note D = file_iterator_saneD [OF K(1)]
  from file_skip_forward [OF ok fr off eq] obtain r1 mr i fwd fuel j where F:
    "fwd \<le> file_block_address env ?f (sqsh_file_block_count2 env ?ar ?f) - file_block_address env ?f 0"
    "sqsh__map_reader_advance (env_maps env) (env_buf env) ?mr fwd 0 = (r1, mr)"
    "file_fuel env j < fuel"
    "j = it\<lparr>fi_map_reader := mr, fi_sparse_size := 0, fi_block_index := i\<rparr>"
    "r1 = Ok \<Longrightarrow> skip_loop fuel env impls cache_init j (off mod 2 ^ fi_block_log it) d = (rv, off', it')"
    "r1 = Ok \<Longrightarrow> file_chunk_ok env se ee src impls cache_init sizes j"
    "r1 = Ok \<Longrightarrow> file_start env j + off mod 2 ^ fi_block_log it = off" by metis
  have fr': "sqsh__map_reader_size ?mr = 0" "fi_block_index it = 0" using fr by (simp_all add: file_fresh_def)
  have sup: "advance_supported (mr_reader ?mr) fwd 0"
    using advance_supported_le [OF D(8), of fwd 0] fr'(1) by simp
  have mlv: "map_reader_live (env_maps env) src (env_buf env) ?mr" and ins: "file_inside env src ?ar ?f"
    using lv by (simp_all add: file_live_def)
  have "file_block_address env ?f 0 \<le> file_block_address env ?f (sqsh_file_block_count2 env ?ar ?f)"
    by (rule file_block_address_mono) simp
  then have "mr_address ?mr + fwd < length (ar_bytes src ?ar)"
    using F(1) conjunct1 [OF ins [unfolded file_inside_def]] D(10) fr' by simp
  then have L: "r1 = Ok \<and> map_reader_live (env_maps env) src (env_buf env) mr"
    using map_reader_advance_live [OF D(14,8) mlv sup _ _ F(2)] D(9) by simp
  then have "file_live env src j" using lv by (simp add: file_live_def F(4))
  moreover have "file_start env j + off mod 2 ^ fi_block_log it < sqsh_file_size env (fi_file j)"
    using F(4,7) L off by simp
  ultimately show ?thesis using skip_loop_live [OF F(6) _ F(3) _ F(5)] L by blast
qed
lemma file_iterator_init_live:
  assumes inv: "archive_inv env se ee src ar" and f: "file_sane env se ee src ar f"
    and lk: "safe_rv (env_lock env)" and ci: "safe_rv (fst cache_init)" "\<forall>P. ee P (snd cache_init)"
    and im: "\<forall>c i. sqsh__extractor_impl_from_id impls c = Some i \<longrightarrow> extractor_impl_ok i"
    and d: "archive_data_ok env ee impls src sizes ar" and st: "file_stored_ok env impls src sizes ar f"
    and z: "fi_size it0 = 0"
    and ty: "sqsh_file_type env f = Some SQSH_FILE_TYPE_FILE" and dl: "data_live env src ar"
    and ins: "file_inside env src ar f"
    and known: "data_codec env impls ar \<noteq> None" "fst cache_init = Ok"
    and eq: "sqsh__file_iterator_init env impls cache_init it0 ar f = (rv, it)"
  shows "rv = Ok \<and> file_live env src it"
proof -
  let ?a = "sqsh_file_blocks_start env f"
  have bo: "cx_buffer_ok (env_buf env)" using inv by (simp add: archive_inv_def archive_ok_def)
  have lk1: "env_lock env = Ok" using dl by (simp add: data_live_def)
  have len: "length (ar_bytes src ar) < 2 ^ 52" using inv by (simp add: archive_inv_def archive_ok_def)
  have "file_block_address env f 0 \<le> file_block_address env f (sqsh_file_block_count2 env ar f)"
    by (rule file_block_address_mono) simp
  then have "?a \<le> file_block_address env f (sqsh_file_block_count2 env ar f)"
    by (simp add: file_block_address_def)
  moreover have "file_block_address env f (sqsh_file_block_count2 env ar f) < length (ar_bytes src ar)"
    using ins by (simp add: file_inside_def)
  ultimately have a: "?a < length (ar_bytes src ar)" by (rule le_less_trans)
  then have a64: "?a < 2 ^ 64" using len by simp
  obtain r1 xm ar1 where dm: "sqsh__archive_data_extract_manager env impls cache_init ar = (r1, xm, ar1)"
    by (rule prod_cases3)
  note M = data_manager_data_ok [OF inv lk d ci im dm]
  have r1: "r1 = Ok" using dm lk1 known
    by (auto simp: sqsh__archive_data_extract_manager_def sqsh__extract_manager_init_def data_codec_def
        Let_def split: option.splits prod.splits if_splits)
  then obtain m where m: "xm = Some m" "ar_data_manager ar1 = Some m" using M by auto
  have core: "archive_core ar1 = archive_core ar" and inv1: "archive_inv env se ee src ar1"
    using M by auto
  note C = archive_coreD [OF core]
  obtain r2 mr where mi: "sqsh__map_reader_init (env_maps env) (env_buf env) (ar_map_manager ar1) ?a
    (sqsh_superblock_bytes_used env (ar_superblock ar1)) (fi_map_reader it0) = (r2, mr)" by fastforce
  have mm: "manager_ok (env_maps env) se src (ar_map_manager ar1)"
    using inv1 by (simp add: archive_inv_def archive_ok_def)
  note I = map_reader_init_correct [OF bo mm a64 mi]
  have dl1: "data_live env src ar1" using dl data_live_core [OF core] by blast
  then have r2: "r2 = Ok" "map_reader_live (env_maps env) src (env_buf env) mr"
    using I a C(4) [of src] by (simp_all add: data_live_def ar_bytes_def)
  have main: "(rv, it) = (Ok, it0\<lparr>fi_archive := ar1, fi_compression_manager := m,
        fi_map_reader := mr, fi_block_index := 0,
        fi_block_log := sqsh_superblock_block_log env (ar_superblock ar1), fi_file := f,
        fi_sparse_size := 0\<rparr>)"
    using eq ty a64 dm r1 m(1) mi C r2
    by (simp add: sqsh__file_iterator_init_def sqsh__file_iterator_init_with_state_def add_overflow_def
        Let_def del: add_overflow_Some cong: if_cong)
  have "fragment_info env ar1 f = fragment_info env ar f"
    using fragment_info_stable [OF core] M by simp
  then have "file_inside env src ar1 f" using ins file_inside_core [OF core] by blast
  then show ?thesis using main dl1 m(2) r2(2) by (simp add: file_live_def)
qed
section \<open>The iterator as a source of chunks\<close>

interpretation file_source: live_chunk_iterator "file_reader_impl env impls cache_init"
  "file_chunk_ok env se ee src impls cache_init sizes" "file_stream env impls src" "file_start env"
  "file_skips env" "file_live env src"
proof (unfold_locales, goal_cases)
  case (1 it)
  then show ?case using file_iterator_saneD(12) [OF file_chunk_okD(1) [OF 1]]
    by (simp add: file_reader_impl_def sqsh_file_iterator_size_def sqsh_file_iterator_data_def)
next
  case (2 it)
  then show ?case using file_chunk_okD(9) [OF 2]
    by (simp add: file_reader_impl_def sqsh_file_iterator_size_def)
next
  case (3 it)
  then show ?case using file_chunk_okD(10,11) [OF 3]
    by (simp add: file_reader_impl_def sqsh_file_iterator_size_def)
next
  case (4 it)
  then show ?case using file_chunk_okD(10,12) [OF 4] by simp
next
  case (5 it d rv it')
  then show ?case using file_next_chunk(2) [OF 5(1), of d True rv it']
    by (simp add: file_reader_impl_def sqsh_file_iterator_size_def)
next
  case (6 it d rv it')
  then show ?case using file_next_chunk(1) [OF 6(1), of d False rv it']
    by (simp add: file_reader_impl_def)
next
  case (7 it off d rv off' it')
  then have sk: "sqsh_file_iterator_skip2 env impls cache_init it off d = (rv, off', it')"
    by (simp add: file_reader_impl_def)
  show ?case
  proof (cases "off < fi_size it")
    case True
    then show ?thesis using sk by (simp add: sqsh_file_iterator_skip2_def sqsh_file_iterator_size_def)
  next
    case False
    then show ?thesis using file_skip_fresh [OF 7(1) _ _ sk] 7(2) by (simp add: file_skips_def)
  qed
next
  case (8 it off d off' it')
  then have sk: "sqsh_file_iterator_skip2 env impls cache_init it off d = (Ok, off', it')"
    by (simp add: file_reader_impl_def)
  show ?case
  proof (cases "off < fi_size it")
    case True
    then show ?thesis using sk 8(1)
      by (simp add: sqsh_file_iterator_skip2_def sqsh_file_iterator_size_def file_reader_impl_def)
  next
    case False
    then show ?thesis using file_skip_fresh [OF 8(1) _ _ sk] 8(2)
      by (simp add: file_skips_def file_reader_impl_def sqsh_file_iterator_size_def)
  qed
next
  case (9 it d)
  then have lt: "file_start env it + fi_size it < sqsh_file_size env (fi_file it)"
    using file_chunk_okD(10) [OF 9(1)] by (simp add: file_reader_impl_def sqsh_file_iterator_size_def)
  obtain b r1 it1 where nx: "sqsh_file_iterator_next env impls cache_init it d = (b, r1, it1)"
    by (rule prod_cases3)
  show ?case using file_next_live [OF 9(1,2) nx] lt nx by (simp add: file_reader_impl_def)
next
  case (10 it off d)
  obtain rv off' it' where sk: "sqsh_file_iterator_skip2 env impls cache_init it off d = (rv, off', it')"
    by (rule prod_cases3)
  have "rv = Ok \<and> file_live env src it'"
  proof (cases "off < fi_size it")
    case True
    then show ?thesis using sk 10(2) by (auto simp: sqsh_file_iterator_skip2_def sqsh_file_iterator_size_def)
  next
    case False
    then show ?thesis using file_skip_live [OF 10(1,2) _ _ sk] 10(3) by (simp add: file_skips_def)
  qed
  then show ?case using sk by (simp add: file_reader_impl_def)
qed

section \<open>Starting an iterator and a reader\<close>

lemma file_iterator_init_chunk:
  assumes inv: "archive_inv env se ee src ar" and f: "file_sane env se ee src ar f"
    and lk: "safe_rv (env_lock env)" and ci: "safe_rv (fst cache_init)" "\<forall>P. ee P (snd cache_init)"
    and im: "\<forall>c i. sqsh__extractor_impl_from_id impls c = Some i \<longrightarrow> extractor_impl_ok i"
    and d: "archive_data_ok env ee impls src sizes ar" and st: "file_stored_ok env impls src sizes ar f"
    and z: "fi_size it0 = 0"
    and eq: "sqsh__file_iterator_init env impls cache_init it0 ar f = (rv, it)"
  shows "safe_rv rv \<and> (rv = Ok \<longrightarrow> file_chunk_ok env se ee src impls cache_init sizes it \<and>
    file_stream env impls src it = file_content env impls src ar f \<and> file_start env it = 0 \<and>
    file_fresh it \<and> fi_file it = f)"
proof (cases "rv = Ok")
  case True
  note I = file_iterator_init_correct [OF inv f lk ci im d file_stored_layout [OF st] z eq]
  have same: "fi_file it = f" "archive_core (fi_archive it) = archive_core ar"
    "fragment_info env (fi_archive it) f = fragment_info env ar f"
    and fr: "file_fresh it" and S: "file_iterator_sane env se ee src impls sizes it"
    using I True by simp_all
  have "same_file env (it\<lparr>fi_archive := ar\<rparr>) it" using same by (simp add: same_file_def)
  note P = same_file_spec(2,3) [OF this, simplified, unfolded same(1)]
  have z: "fi_block_index it = 0" "fi_sparse_size it = 0" "fi_size it = 0"
    using fr by (simp_all add: file_fresh_def)
  have "file_stored_ok env impls src sizes (fi_archive it) (fi_file it)" using st same by (simp add: P)
  then have "file_chunk_ok env se ee src impls cache_init sizes it"
    using S lk ci im z by (simp add: file_chunk_ok_def file_position_ok_def sqsh_file_iterator_data_def)
  moreover have "file_stream env impls src it = file_content env impls src ar f"
    using same by (simp add: file_stream_def P)
  moreover have "file_start env it = 0" using z by (simp add: file_start_def file_offset_def)
  ultimately show ?thesis using True fr same(1) by simp
qed (use file_iterator_init_correct [OF inv f lk ci im d file_stored_layout [OF st] z eq] in simp)

lemma file_reader_init_correct:
  assumes inv: "archive_inv env se ee src ar" and f: "file_sane env se ee src ar f"
    and lk: "safe_rv (env_lock env)" and ci: "safe_rv (fst cache_init)" "\<forall>P. ee P (snd cache_init)"
    and im: "\<forall>c i. sqsh__extractor_impl_from_id impls c = Some i \<longrightarrow> extractor_impl_ok i"
    and d: "archive_data_ok env ee impls src sizes ar" and st: "file_stored_ok env impls src sizes ar f"
    and z: "fi_size (rd_iterator r0) = 0"
    and eq: "sqsh__file_reader_init env impls cache_init r0 ar f = (rv, r)"
  shows "safe_rv rv \<and> (rv = Ok \<longrightarrow>
    reader_at (file_reader_impl env impls cache_init) (env_buf env)
      (file_chunk_ok env se ee src impls cache_init sizes) (file_stream env impls src) (file_start env) r 0 \<and>
    file_stream env impls src (rd_iterator r) = file_content env impls src ar f \<and>
    file_fresh (rd_iterator r) \<and> fi_file (rd_iterator r) = f \<and> rd_offset r = 0 \<and> rd_iterator_offset r = 0) \<and>
    (sqsh_file_type env f = Some SQSH_FILE_TYPE_FILE \<and> data_live env src ar \<and> file_inside env src ar f \<and>
      data_codec env impls ar \<noteq> None \<and> fst cache_init = Ok \<longrightarrow> rv = Ok \<and> file_live env src (rd_iterator r))"
proof -
  obtain r1 it where i: "sqsh__file_iterator_init env impls cache_init (rd_iterator r0) ar f = (r1, it)"
    by fastforce
  note I = file_iterator_init_chunk [OF inv f lk ci im d st z i]
  note L = file_iterator_init_live [OF inv f lk ci im d st z _ _ _ _ _ i]
  have bo: "cx_buffer_ok (env_buf env)" using inv by (simp add: archive_inv_def archive_ok_def)
  obtain r2 b where cb: "cb_init (env_buf env) = (r2, b)" by fastforce
  note B = cx_buffer_init [OF bo cb]
  have tot: "r2 = Ok" if "data_live env src ar" using that cb
    by (simp add: data_live_def cx_buffer_total_def)
  show ?thesis
  proof (cases "r1 = Ok")
    case False
    then show ?thesis using I L eq i by (auto simp: sqsh__file_reader_init_def)
  next
    case True
    have eqs: "rv = r2" "r = r0\<lparr>rd_data := RNull, rd_size := 0, rd_offset := 0, rd_iterator_offset := 0,
        rd_iterator := it, rd_iterator_size := 0, rd_buffer := b\<rparr>"
      using eq i True cb by (simp_all add: sqsh__file_reader_init_def sqsh__reader_init_def)
    show ?thesis using I True eqs B L tot
      by (simp add: reader_at_def reader_mapped_def)
  qed
qed
lemma file_iterate_live:
  "file_chunk_ok env se ee src impls cache_init sizes it \<Longrightarrow> file_live env src it \<Longrightarrow>
   file_fuel env it < fuel \<Longrightarrow> snd (file_iterate fuel env impls cache_init it d) = Ok"
proof (induction fuel arbitrary: it)
  case (Suc fuel)
  obtain b r1 it1 where nx: "sqsh_file_iterator_next env impls cache_init it d = (b, r1, it1)"
    by (rule prod_cases3)
  note L = file_next_live [OF Suc.prems(1,2) nx] and N = file_next_chunk(2) [OF Suc.prems(1) nx]
  show ?case using nx L(1,2) N Suc.IH [of it1] Suc.prems(3) by (auto split: prod.split)
qed simp

section \<open>What the properties assume\<close>

text \<open>An archive in order, an open file, and a place for the cache of decompressed blocks.\<close>

definition file_env_ok where
  "file_env_ok env se ee src impls cache_init sizes ar f \<longleftrightarrow>
     archive_inv env se ee src ar \<and> file_sane env se ee src ar f \<and> safe_rv (env_lock env) \<and>
     safe_rv (fst cache_init) \<and> (\<forall>P. ee P (snd cache_init)) \<and>
     (\<forall>c i. sqsh__extractor_impl_from_id impls c = Some i \<longrightarrow> extractor_impl_ok i) \<and>
     archive_data_ok env ee impls src sizes ar"

text \<open>Nothing outside the archive is in the way: memory, mutex, compression library.\<close>

definition file_resources ::
  "('c, 'b, 'e) sqsh_env \<Rightarrow> ('u \<Rightarrow> byte list) \<Rightarrow> 'x extractor_impls \<Rightarrow> rv \<times> 'e \<Rightarrow>
   ('u, 'c, 'b, 'e, 'x, 'h) sqsh_archive \<Rightarrow> ('u, 'c, 'b, 'e, 'x) sqsh_file \<Rightarrow> bool" where
  "file_resources env src impls cache_init ar f \<longleftrightarrow>
     sqsh_file_type env f = Some SQSH_FILE_TYPE_FILE \<and> data_live env src ar \<and>
     file_inside env src ar f \<and> data_codec env impls ar \<noteq> None \<and> fst cache_init = Ok"

section \<open>A small file\<close>

text \<open>
  An archive with one file of two blocks: a hole of 131072 bytes and three stored bytes, which lie
  behind the superblock; the inode is in the metablock behind them.
\<close>

definition tiny_file_inode :: "byte list" where
  "tiny_file_inode = le_bytes 2 2 @ le_bytes 2 420 @ le_bytes 2 0 @ le_bytes 2 0 @ le_bytes 4 0
     @ le_bytes 4 1 @ le_bytes 4 96 @ le_bytes 4 0xFFFFFFFF @ le_bytes 4 0 @ le_bytes 4 131075
     @ le_bytes 4 0 @ le_bytes 4 (2 ^ 24 + 3)"

definition tiny_file_archive :: "byte list" where
  "tiny_file_archive = tiny_superblock 141 @ [7, 8, 9] @ le_bytes 2 (0x8000 + 40) @ tiny_file_inode"

abbreviation tiny_file_sqsh :: tiny_archive where
  "tiny_file_sqsh \<equiv> tiny_sqsh 256 tiny_file_archive"

lemma tiny_file_length: "length tiny_file_archive = 141" "length tiny_file_inode = 40"
  by (simp_all add: tiny_file_archive_def tiny_file_inode_def tiny_superblock_def SQSH_SUPERBLOCK_MAGIC_def)

lemma tiny_file_inv:
  "archive_inv tiny_env alist_entries alist_entries (\<lambda>u. u) tiny_file_sqsh"
  "sqsh_superblock_block_log tiny_env (ar_superblock tiny_file_sqsh) = 17"
  "sqsh_superblock_inode_table_start tiny_env (ar_superblock tiny_file_sqsh) = 96"
  "sqsh_superblock_compression_id tiny_env (ar_superblock tiny_file_sqsh) = 1"
proof -
  have c: "superblock_check tiny_file_archive = Ok" by code_simp
  from tiny_sqsh_inv [OF c] show inv: "archive_inv tiny_env alist_entries alist_entries (\<lambda>u. u) tiny_file_sqsh"
    by (simp add: tiny_file_length)
  have "get_header tiny_env (ar_superblock tiny_file_sqsh) = window 0 96 tiny_file_archive"
    using archive_superblock [OF inv] tiny_sqsh_bytes [of tiny_file_archive 256]
    by (simp add: tiny_file_length)
  moreover have "sqsh__data_superblock_block_log (window 0 96 tiny_file_archive) = 17"
    "sqsh__data_superblock_inode_table_start (window 0 96 tiny_file_archive) = 96"
    "sqsh__data_superblock_compression_id (window 0 96 tiny_file_archive) = 1" by code_simp+
  ultimately show "sqsh_superblock_block_log tiny_env (ar_superblock tiny_file_sqsh) = 17"
    "sqsh_superblock_inode_table_start tiny_env (ar_superblock tiny_file_sqsh) = 96"
    "sqsh_superblock_compression_id tiny_env (ar_superblock tiny_file_sqsh) = 1"
    by (simp_all add: sqsh_superblock_block_log_def sqsh_superblock_inode_table_start_def
        sqsh_superblock_compression_id_def)
qed

text \<open>Opening the file at the reference of its inode gives the bytes of the inode.\<close>

lemma tiny_file_bytes: "ar_bytes (\<lambda>u. u) tiny_file_sqsh = tiny_file_archive"
  by (rule tiny_sqsh_bytes) (simp add: tiny_file_length)

lemma tiny_sqsh_live:
  assumes "length bytes < 2 ^ 52" "sqsh__data_metablock_size (window (length bytes - 2) 2 bytes) \<noteq> 0"
  shows "archive_live tiny_env (\<lambda>u. u) (tiny_sqsh bs bytes)"
proof -
  have "live_memory_mapper (mp_impl (mm_mapper (ar_map_manager (tiny_sqsh bs bytes)))) (\<lambda>u. u)"
    using tiny_manager_live by (simp add: tiny_sqsh_def)
  moreover have "a = length bytes - 2" if "a + 2 = length bytes" for a using that by simp
  ultimately show ?thesis using assms tiny_sqsh_bytes [of bytes bs] by (auto simp: archive_live_def)
qed

lemma tiny_file_open:
  obtains f where "file_sane tiny_env alist_entries alist_entries (\<lambda>u. u) tiny_file_sqsh f"
    "get_inode tiny_env f = tiny_file_inode" "file_impl tiny_env f = sqsh__inode_file_impl"
proof -
  let ?ref = "3 * 2 ^ 16"
  have "metablock_chain list_buffer (Some copy_codec) tiny_file_archive 99 = [tiny_file_inode]" by code_simp
  moreover have "sqsh_address_ref_outer_offset ?ref = 3" "sqsh_address_ref_inner_offset ?ref = 0" by code_simp+
  ultimately have tb: "inode_table_bytes tiny_env (\<lambda>u. u) tiny_file_sqsh ?ref = ([tiny_file_inode], 0)"
    by (simp add: inode_table_bytes_def ar_chain_def tiny_file_bytes tiny_file_inv)
  have ref: "(?ref::nat) < 2 ^ 64" by simp
  have "sqsh__data_inode_type tiny_file_inode = 2" by code_simp
  then have ty: "inode_impl_of_type (sqsh__data_inode_type (drop 0 (concat [tiny_file_inode])))
      = Some sqsh__inode_file_impl" by (simp add: inode_impl_of_type_def inode_type_defs)
  have sz: "inode_bytes sqsh__inode_file_impl tiny_file_inode 17 = 40" by code_simp
  have reach: "chain_reaches [tiny_file_inode] 0" using tiny_file_length by auto
  have "sqsh__data_metablock_size (window 139 2 tiny_file_archive) \<noteq> 0" by code_simp
  then have live: "archive_live tiny_env (\<lambda>u. u) tiny_file_sqsh"
    by (intro tiny_sqsh_live) (simp_all add: tiny_file_length)
  from file_init_load_exact [OF tiny_file_inv(1) ref tb reach live ty] obtain f where
    "file_sane tiny_env alist_entries alist_entries (\<lambda>u. u) tiny_file_sqsh f"
    "get_impl tiny_env f = Some sqsh__inode_file_impl" "get_inode tiny_env f = window 0 40 tiny_file_inode"
    by (auto simp: tiny_file_inv tiny_file_length sz)
  then show thesis using that tiny_file_length by (simp add: file_impl_def window_def)
qed

text \<open>What the accessors say of it, and its contents.\<close>

lemma tiny_file_fields:
  assumes "get_inode tiny_env f = tiny_file_inode" "file_impl tiny_env f = sqsh__inode_file_impl"
  shows "sqsh_file_size tiny_env f = 131075" "\<not> sqsh_file_has_fragment tiny_env f"
    "sqsh_file_blocks_start tiny_env f = 96" "sqsh_file_block_count2 tiny_env tiny_file_sqsh f = 2"
    "sqsh_file_block_size2 tiny_env f 0 = 0" "sqsh_file_block_size2 tiny_env f 1 = 3"
    "sqsh_file_block_is_compressed2 tiny_env f 0" "\<not> sqsh_file_block_is_compressed2 tiny_env f 1"
    "sqsh_file_type tiny_env f = Some SQSH_FILE_TYPE_FILE"
proof -
  have n: "ii_size sqsh__inode_file_impl tiny_file_inode = 131075"
    "ii_fragment_block_index sqsh__inode_file_impl tiny_file_inode = SQSH_INODE_NO_FRAGMENT"
    "ii_blocks_start sqsh__inode_file_impl tiny_file_inode = 96"
    "ii_block_size_info sqsh__inode_file_impl tiny_file_inode 0 = 0"
    "ii_block_size_info sqsh__inode_file_impl tiny_file_inode 1 = 16777219"
    "sqsh__data_inode_type tiny_file_inode = 2" by code_simp+
  have b: "sqsh__block_count 131075 17 False = 2" "sqsh_datablock_size 0 = 0"
    "sqsh_datablock_size 16777219 = 3" "sqsh_datablock_is_compressed 0"
    "\<not> sqsh_datablock_is_compressed 16777219" by code_simp+
  show sz: "sqsh_file_size tiny_env f = 131075" and fr: "\<not> sqsh_file_has_fragment tiny_env f"
    "sqsh_file_blocks_start tiny_env f = 96"
    using n by (simp_all add: sqsh_file_size_def sqsh_file_has_fragment_def
        sqsh_file_fragment_block_index_def sqsh_file_blocks_start_def assms)
  show "sqsh_file_block_count2 tiny_env tiny_file_sqsh f = 2"
    using b by (simp add: sqsh_file_block_count2_def sz fr tiny_file_inv)
  show "sqsh_file_block_size2 tiny_env f 0 = 0" "sqsh_file_block_size2 tiny_env f 1 = 3"
    "sqsh_file_block_is_compressed2 tiny_env f 0" "\<not> sqsh_file_block_is_compressed2 tiny_env f 1"
    unfolding sqsh_file_block_size2_def sqsh_file_block_is_compressed2_def assms n by (rule b)+
  show "sqsh_file_type tiny_env f = Some SQSH_FILE_TYPE_FILE"
    using n by (simp add: sqsh_file_type_def assms file_type_of_type_def inode_type_defs)
qed

lemma tiny_file_contents:
  assumes "get_inode tiny_env f = tiny_file_inode" "file_impl tiny_env f = sqsh__inode_file_impl"
  shows "file_content tiny_env impls (\<lambda>u. u) tiny_file_sqsh f = replicate 131072 0 @ [7, 8, 9]"
    "file_stored_ok tiny_env impls (\<lambda>u. u) (\<lambda>_. None) tiny_file_sqsh f"
    "file_inside tiny_env (\<lambda>u. u) tiny_file_sqsh f"
proof -
  note F = tiny_file_fields [OF assms]
  have a: "file_block_address tiny_env f 0 = 96" "file_block_address tiny_env f (Suc 0) = 96"
    "file_block_address tiny_env f 2 = 99"
    by (simp_all add: file_block_address_def F numeral_2_eq_2 lessThan_Suc F(6) [unfolded One_nat_def])
  have b: "file_block_bytes tiny_env tiny_file_sqsh f 0 = 131072"
    "file_block_bytes tiny_env tiny_file_sqsh f (Suc 0) = 3"
    by (simp_all add: file_block_bytes_def F tiny_file_inv Let_def)
  have u: "[0..<2] = [0, 1::nat]" by code_simp
  have "window 96 3 tiny_file_archive = [7, 8, 9]" by code_simp
  then show "file_content tiny_env impls (\<lambda>u. u) tiny_file_sqsh f = replicate 131072 0 @ [7, 8, 9]"
    using a b F by (simp add: file_content_def file_block_def file_fragment_def u tiny_file_bytes)
  have two: "k = 0 \<or> k = Suc 0" if "k < 2" for k :: nat using that by auto
  show "file_stored_ok tiny_env impls (\<lambda>u. u) (\<lambda>_. None) tiny_file_sqsh f"
    using two a b F by (fastforce simp: file_stored_ok_def no_short_block_def tiny_file_bytes tiny_file_length)
  show "file_inside tiny_env (\<lambda>u. u) tiny_file_sqsh f"
    using a F by (simp add: file_inside_def tiny_file_bytes tiny_file_length)
qed

text \<open>The hypotheses of the file properties hold of it.\<close>

lemma tiny_file_ok:
  assumes "file_sane tiny_env alist_entries alist_entries (\<lambda>u. u) tiny_file_sqsh f"
  shows "file_env_ok tiny_env alist_entries alist_entries (\<lambda>u. u) tiny_impls (Ok, []) (\<lambda>_. None) tiny_file_sqsh f"
    "get_inode tiny_env f = tiny_file_inode \<Longrightarrow> file_impl tiny_env f = sqsh__inode_file_impl \<Longrightarrow>
     file_resources tiny_env (\<lambda>u. u) tiny_impls (Ok, []) tiny_file_sqsh f"
proof -
  have "\<forall>c i. sqsh__extractor_impl_from_id tiny_impls c = Some i \<longrightarrow> extractor_impl_ok i"
    by (auto simp: sqsh__extractor_impl_from_id_def tiny_impls_def)
  moreover have "archive_data_ok tiny_env alist_entries tiny_impls (\<lambda>u. u) (\<lambda>_. None) tiny_file_sqsh"
    by (simp add: archive_data_ok_def tiny_sqsh_def)
  ultimately show "file_env_ok tiny_env alist_entries alist_entries (\<lambda>u. u) tiny_impls (Ok, []) (\<lambda>_. None)
      tiny_file_sqsh f"
    using assms tiny_file_inv(1) by (simp add: file_env_ok_def alist_entries_def)
  assume g: "get_inode tiny_env f = tiny_file_inode" "file_impl tiny_env f = sqsh__inode_file_impl"
  have "sqsh__extractor_impl_from_id tiny_impls 1 = Some copy_codec"
    by (simp add: sqsh__extractor_impl_from_id_def tiny_impls_def SQSH_COMPRESSION_GZIP_def)
  moreover have "live_memory_mapper (mp_impl (mm_mapper (ar_map_manager tiny_file_sqsh))) (\<lambda>u. u)"
    using tiny_manager_live by (simp add: tiny_sqsh_def)
  ultimately show "file_resources tiny_env (\<lambda>u. u) tiny_impls (Ok, []) tiny_file_sqsh f"
    using tiny_file_contents(3) [OF g] tiny_file_fields(9) [OF g]
    by (simp add: file_resources_def data_live_def data_codec_def tiny_file_inv)
qed

section \<open>Where the iterator falls short\<close>

text \<open>
  A skip to the end of the current chunk, where the next block begins, goes one block too far and
  keeps the old chunk, which it then presents as the bytes of the next one.
\<close>

lemma file_skip_stale:
  assumes "0 < fi_size it" "fi_block_index it < sqsh_file_block_count2 env (fi_archive it) (fi_file it)"
    and "sqsh__map_reader_advance (env_maps env) (env_buf env) (fi_map_reader it)
      (sqsh_file_block_size2 env (fi_file it) (fi_block_index it)) 0 = (Ok, mr)"
  shows "sqsh_file_iterator_skip2 env impls cache_init it (fi_size it) d =
    (Ok, 0, it\<lparr>fi_map_reader := mr, fi_sparse_size := 0, fi_block_index := wrap_add (fi_block_index it) 1\<rparr>)"
proof -
  have "sqsh_file_block_size2 env (fi_file it) (fi_block_index it) < 2 ^ 64"
    using file_block_size_bound [of env "fi_file it" "fi_block_index it"] by simp
  then have "wrap_add 0 (sqsh_file_block_size2 env (fi_file it) (fi_block_index it))
      = sqsh_file_block_size2 env (fi_file it) (fi_block_index it)" by (simp add: wrap_add_exact)
  moreover have "sqsh_block_count 0 n = 0" "sqsh_block_remainder 0 n = 0" for n
    by (simp_all add: sqsh_block_count_def sqsh_block_remainder_def)
  ultimately show ?thesis using assms
    by (simp add: sqsh_file_iterator_skip2_def sqsh_file_iterator_size_def Let_def)
qed

text \<open>
  The zeros behind a block that is stored short are set before it is known whether the block fits
  the mapping: here the second block is not taken, but its zeros are due before it.
\<close>

lemma uncompressed_padding_early:
  assumes "file_iterator_sane env se ee src impls sizes it" "fi_block_index it = k" "fi_sparse_size it = 0"
    and "k + 2 < sqsh_file_block_count2 env (fi_archive it) (fi_file it)"
    and "\<forall>i \<in> {k, k + 1}. \<not> sqsh_file_block_is_compressed2 env (fi_file it) i"
    and "sqsh_file_block_size2 env (fi_file it) k = 2 ^ fi_block_log it"
    and "sqsh_file_block_size2 env (fi_file it) (k + 1) < 2 ^ fi_block_log it"
    and "direct < 2 ^ fi_block_log it + sqsh_file_block_size2 env (fi_file it) (k + 1)"
    and "2 ^ fi_block_log it < desired"
  shows "\<exists>it'. uncompressed_loop env desired direct
      (sqsh_file_block_count2 env (fi_archive it) (fi_file it)) it k 0 = (Ok, it', k + 1, 2 ^ fi_block_log it) \<and>
    fi_sparse_size it' = 2 ^ fi_block_log it - sqsh_file_block_size2 env (fi_file it) (k + 1)"
proof -
  let ?f = "fi_file it" and ?N = "sqsh_file_block_count2 env (fi_archive it) (fi_file it)"
  let ?b = "2 ^ fi_block_log it :: nat" and ?n = "sqsh_file_block_size2 env ?f (k + 1)"
  have lg: "fi_block_log it = sqsh_superblock_block_log env (ar_superblock (fi_archive it))"
    "fi_block_log it \<in> {12..20}" using file_iterator_saneD(7,15) [OF assms(1)] by auto
  have "fi_block_log it < 31" using lg(2) by simp
  then have b: "?b < 2 ^ 31" by (intro power_strict_increasing) auto
  have g: "get_block_size env j = ?b"
    if "fi_archive j = fi_archive it" "fi_file j = ?f" "fi_block_log j = fi_block_log it"
      "fi_block_index j \<in> {k, k + 1}" for j
    using get_block_size_bytes [OF assms(1) _ that(1-3), of "fi_block_index j"] that(4) assms(4) lg
    by (auto simp: file_block_bytes_def Let_def)
  define i1 i2 where "i1 = it\<lparr>fi_block_index := k\<rparr>" and "i2 = i1\<lparr>fi_sparse_size := 0\<rparr>"
  have w: "wrap_sub ?b ?b = 0" "wrap_sub ?b ?n = ?b - ?n"
    using b assms(7) by (simp_all add: wrap_sub_exact)
  have n: "k < ?N" "k + 1 < ?N" "k + 1 + 1 \<noteq> ?N" "k + 1 \<noteq> ?N" using assms(4) by simp_all
  have i2: "i2 = i1\<lparr>fi_sparse_size := if k + 1 \<noteq> ?N then wrap_sub (push_bit (fi_block_log it) 1) ?b else 0\<rparr>"
    using n w(1) by (simp add: i2_def push_bit_eq_mult)
  have "get_block_size env i1 = ?b" by (rule g) (simp_all add: i1_def)
  then have s1: "uncompressed_loop env desired direct ?N it k 0
      = uncompressed_loop env desired direct ?N i2 (k + 1) ?b"
    using uncompressed_loop_step [where desired = desired and direct = direct and outer = 0,
        OF assms(3) n(1) _ _ assms(6) [symmetric] i1_def i2]
      assms(5,9) b by simp
  have i2s: "fi_sparse_size i2 = 0" "fi_file i2 = ?f" "fi_block_log i2 = fi_block_log it"
    "fi_archive i2 = fi_archive it" by (simp_all add: i1_def i2_def)
  define j1 j2 where "j1 = i2\<lparr>fi_block_index := k + 1\<rparr>" and "j2 = j1\<lparr>fi_sparse_size := ?b - ?n\<rparr>"
  have j2: "j2 = j1\<lparr>fi_sparse_size := if k + 1 + 1 \<noteq> ?N then
      wrap_sub (push_bit (fi_block_log i2) 1) ?n else 0\<rparr>"
    using n w(2) i2s by (simp add: j2_def push_bit_eq_mult)
  have "get_block_size env j1 = ?b" by (rule g) (simp_all add: j1_def i2s)
  then have "uncompressed_loop env desired direct ?N i2 (k + 1) ?b = (Ok, j2, k + 1, ?b)"
    using uncompressed_loop_step [where direct = direct, OF i2s(1) n(2) _ assms(9) _ j1_def j2]
      assms(5,7,8) b i2s by simp
  then show ?thesis unfolding s1 by (simp add: j2_def)
qed

section \<open>Properties\<close>

text \<open>
  C33. Reading a file: a reader started on a completely stored file presents, after an advance to any
  offset inside the file, exactly the requested bytes of the file's contents (its blocks
  decompressed, its holes as zeros, then its share of the fragment block); an advance beyond the
  end is refused; nothing outside the given memory is read; and when memory and the compression
  library do not fail, the advance succeeds.
\<close>

theorem file_reader_window:
  assumes "file_env_ok env se ee src impls cache_init sizes ar f"
    and "file_stored_ok env impls src sizes ar f" "fi_size (rd_iterator r0) = 0"
    and "sqsh__file_reader_init env impls cache_init r0 ar f = (rv1, r1)"
    and "off < sqsh_file_size env f" "n < 2 ^ 64"
    and "sqsh_file_reader_advance env impls cache_init r1 off n = (rv2, r2)"
  shows "safe_rv rv1 \<and>
    (rv1 = Ok \<longrightarrow> safe_rv rv2 \<and>
      (rv2 = Ok \<longrightarrow> off + n \<le> sqsh_file_size env f \<and> sqsh_file_reader_size r2 = n \<and>
        sqsh_file_reader_data env impls cache_init r2 = window off n (file_content env impls src ar f))) \<and>
    (file_resources env src impls cache_init ar f \<and> off + n \<le> sqsh_file_size env f \<longrightarrow>
      rv1 = Ok \<and> rv2 = Ok)"
proof -
  from assms(1) have E: "archive_inv env se ee src ar" "file_sane env se ee src ar f" "safe_rv (env_lock env)"
    "safe_rv (fst cache_init)" "\<forall>P. ee P (snd cache_init)"
    "\<forall>c i. sqsh__extractor_impl_from_id impls c = Some i \<longrightarrow> extractor_impl_ok i"
    "archive_data_ok env ee impls src sizes ar" by (simp_all add: file_env_ok_def)
  note I = file_reader_init_correct [OF E assms(2-4)]
  show ?thesis
  proof (cases "rv1 = Ok")
    case False
    then show ?thesis using I unfolding file_resources_def by blast
  next
    case True
    let ?impl = "file_reader_impl env impls cache_init"
    have bo: "cx_buffer_ok (env_buf env)" using E(1) by (simp add: archive_inv_def archive_ok_def)
    have at: "reader_at ?impl (env_buf env) (file_chunk_ok env se ee src impls cache_init sizes)
        (file_stream env impls src) (file_start env) r1 0"
      and st: "file_stream env impls src (rd_iterator r1) = file_content env impls src ar f"
      and fr: "file_fresh (rd_iterator r1)" "fi_file (rd_iterator r1) = f" "rd_offset r1 = 0"
        "rd_iterator_offset r1 = 0"
      using I True by simp_all
    have sup: "advance_supported r1 off n" using fr by (simp add: advance_supported_def)
    have skp: "file_skips env (rd_iterator r1) (off - rd_iterator_offset r1 + rd_offset r1)"
      using fr assms(5) by (simp add: file_skips_def)
    have ad: "sqsh__reader_advance ?impl (env_buf env) r1 off n = (rv2, r2)"
      using assms(7) by (simp add: sqsh_file_reader_advance_def)
    have len: "length (file_content env impls src ar f) = sqsh_file_size env f"
      by (rule file_content_length(1) [OF assms(2) file_size_bound [OF E(2)]])
    have "rv2 = Ok" if "file_resources env src impls cache_init ar f" "off + n \<le> sqsh_file_size env f"
    proof -
      have "file_live env src (rd_iterator r1)" "cx_buffer_total (env_buf env)"
        using I that(1) by (simp_all add: file_resources_def data_live_def)
      from file_source.advance_live [OF bo this(2) at this(1) sup skp _ _ ad] that(2) assms(5) st len
      show ?thesis by simp
    qed
    then show ?thesis using file_source.advance_correct [OF bo at sup assms(6) skp ad] I True st len
      by (simp add: sqsh_file_reader_size_def sqsh_file_reader_data_def sqsh__reader_size_def)
  qed
qed

theorem file_reader_window_witness:
  "\<exists>f r1 r2. sqsh__file_reader_init tiny_env tiny_impls (Ok, []) (zero_file_reader tiny_env tiny_file_sqsh f)
      tiny_file_sqsh f = (Ok, r1) \<and>
    sqsh_file_reader_advance tiny_env tiny_impls (Ok, []) r1 131070 5 = (Ok, r2) \<and>
    sqsh_file_reader_data tiny_env tiny_impls (Ok, []) r2 = [0, 0, 7, 8, 9]"
proof -
  obtain f where f: "file_sane tiny_env alist_entries alist_entries (\<lambda>u. u) tiny_file_sqsh f"
    "get_inode tiny_env f = tiny_file_inode" "file_impl tiny_env f = sqsh__inode_file_impl"
    by (rule tiny_file_open)
  let ?r0 = "zero_file_reader tiny_env tiny_file_sqsh f"
  obtain rv1 r1 where i: "sqsh__file_reader_init tiny_env tiny_impls (Ok, []) ?r0 tiny_file_sqsh f = (rv1, r1)"
    by fastforce
  obtain rv2 r2 where a: "sqsh_file_reader_advance tiny_env tiny_impls (Ok, []) r1 131070 5 = (rv2, r2)"
    by fastforce
  have z: "fi_size (rd_iterator ?r0) = 0" by (simp add: zero_file_reader_def zero_file_iterator_def)
  have "window 131070 5 (replicate 131072 0 @ [7, 8, 9 :: 8 word]) = [0, 0, 7, 8, 9]"
    by (simp add: window_def numeral_2_eq_2 numeral_3_eq_3)
  then have "rv1 = Ok \<and> rv2 = Ok \<and> sqsh_file_reader_data tiny_env tiny_impls (Ok, []) r2 = [0, 0, 7, 8, 9]"
    using file_reader_window [OF tiny_file_ok(1) [OF f(1)] tiny_file_contents(2) [OF f(2,3)] z i _ _ a]
      tiny_file_fields(1) [OF f(2,3)] tiny_file_contents(1) [OF f(2,3), of tiny_impls]
      tiny_file_ok(2) [OF f] by simp
  then show ?thesis using i a by blast
qed

text \<open>
  C35. Iterating over a file ends: on every archive, valid or not, and for every file in it,
  calling \<^verbatim>\<open>sqsh_file_iterator_next\<close> until it returns false takes at most \<open>file_fuel\<close> calls, and
  no call reads outside its memory, whatever the block sizes and the fragment entry say.
\<close>

theorem file_iteration_ends:
  assumes "file_env_ok env se ee src impls cache_init (\<lambda>_. None) ar f" "fi_size it0 = 0"
    and "sqsh__file_iterator_init env impls cache_init it0 ar f = (rv, it)"
  shows "safe_rv rv \<and>
    (rv = Ok \<longrightarrow> safe_rv (snd (file_iterate (Suc (file_fuel env it)) env impls cache_init it desired)))"
proof -
  from assms(1) have E: "archive_inv env se ee src ar" "file_sane env se ee src ar f" "safe_rv (env_lock env)"
    "safe_rv (fst cache_init)" "\<forall>P. ee P (snd cache_init)"
    "\<forall>c i. sqsh__extractor_impl_from_id impls c = Some i \<longrightarrow> extractor_impl_ok i"
    "archive_data_ok env ee impls src (\<lambda>_. None) ar" by (simp_all add: file_env_ok_def)
  have "file_layout env ar f (\<lambda>_. None)" by (simp add: file_layout_def)
  note I = file_iterator_init_correct [OF E this assms(2,3)]
  then show ?thesis
    using file_iterate_safe [of env cache_init ee impls, OF E(3-6)] by blast
qed

theorem file_iteration_ends_witness:
  "\<exists>f it. sqsh__file_iterator_init tiny_env tiny_impls (Ok, []) (zero_file_iterator tiny_env tiny_file_sqsh f)
      tiny_file_sqsh f = (Ok, it) \<and>
    safe_rv (snd (file_iterate (Suc (file_fuel tiny_env it)) tiny_env tiny_impls (Ok, []) it 1))"
proof -
  obtain f where f: "file_sane tiny_env alist_entries alist_entries (\<lambda>u. u) tiny_file_sqsh f"
    "get_inode tiny_env f = tiny_file_inode" "file_impl tiny_env f = sqsh__inode_file_impl"
    by (rule tiny_file_open)
  obtain rv it where i: "sqsh__file_iterator_init tiny_env tiny_impls (Ok, [])
      (zero_file_iterator tiny_env tiny_file_sqsh f) tiny_file_sqsh f = (rv, it)" by fastforce
  have z: "fi_size (zero_file_iterator tiny_env tiny_file_sqsh f) = 0" by (simp add: zero_file_iterator_def)
  note E = tiny_file_ok(1) [OF f(1), unfolded file_env_ok_def]
    and R = tiny_file_ok(2) [OF f, unfolded file_resources_def]
  have "rv = Ok"
    by (rule conjunct1 [OF file_iterator_init_live [OF _ f(1) _ _ _ _ _ tiny_file_contents(2) [OF f(2,3)] z
          _ _ _ _ _ i]]) (use E R in blast)+
  then show ?thesis using file_iteration_ends [OF tiny_file_ok(1) [OF f(1)] z i] i by blast
qed

text \<open>
  C34. Iterating over a file yields the file: when memory and the compression library do not fail,
  the chunks that \<^verbatim>\<open>sqsh_file_iterator_next\<close> delivers until it returns false, put together, are exactly
  the contents of a completely stored file, whatever chunk sizes are asked for, and the last call
  reports no error.
\<close>

theorem file_iteration_contents:
  assumes "file_env_ok env se ee src impls cache_init sizes ar f"
    and "file_stored_ok env impls src sizes ar f" "file_resources env src impls cache_init ar f"
    and "fi_size it0 = 0" "sqsh__file_iterator_init env impls cache_init it0 ar f = (rv, it)"
  shows "rv = Ok \<and> file_iterate (Suc (file_fuel env it)) env impls cache_init it desired
      = (file_content env impls src ar f, Ok) \<and>
    length (file_content env impls src ar f) = sqsh_file_size env f"
proof -
  from assms(1) have E: "archive_inv env se ee src ar" "file_sane env se ee src ar f" "safe_rv (env_lock env)"
    "safe_rv (fst cache_init)" "\<forall>P. ee P (snd cache_init)"
    "\<forall>c i. sqsh__extractor_impl_from_id impls c = Some i \<longrightarrow> extractor_impl_ok i"
    "archive_data_ok env ee impls src sizes ar" by (simp_all add: file_env_ok_def)
  note I = file_iterator_init_chunk [OF E assms(2,4,5)]
  have L: "rv = Ok" "file_live env src it"
    using file_iterator_init_live [OF E assms(2,4) _ _ _ _ _ assms(5)] assms(3)
    by (simp_all add: file_resources_def)
  obtain data r where it: "file_iterate (Suc (file_fuel env it)) env impls cache_init it desired = (data, r)"
    by fastforce
  have ok: "file_chunk_ok env se ee src impls cache_init sizes it" using I L(1) by simp
  have "r = Ok" using file_iterate_live [OF ok L(2), of "Suc (file_fuel env it)" desired] it
    by (simp del: file_iterate.simps)
  moreover have "data = file_content env impls src ar f"
    using file_iterate_content [OF ok _ it] I L(1) \<open>r = Ok\<close>
    by (simp add: file_start_def file_fresh_def file_offset_def del: file_iterate.simps)
  ultimately show ?thesis using it L(1) file_content_length(1) [OF assms(2) file_size_bound [OF E(2)]] by simp
qed

theorem file_iteration_contents_witness:
  "\<exists>f it. sqsh__file_iterator_init tiny_env tiny_impls (Ok, []) (zero_file_iterator tiny_env tiny_file_sqsh f)
      tiny_file_sqsh f = (Ok, it) \<and>
    file_iterate (Suc (file_fuel tiny_env it)) tiny_env tiny_impls (Ok, []) it 4096
      = (replicate 131072 0 @ [7, 8, 9], Ok)"
proof -
  obtain f where f: "file_sane tiny_env alist_entries alist_entries (\<lambda>u. u) tiny_file_sqsh f"
    "get_inode tiny_env f = tiny_file_inode" "file_impl tiny_env f = sqsh__inode_file_impl"
    by (rule tiny_file_open)
  obtain rv it where i: "sqsh__file_iterator_init tiny_env tiny_impls (Ok, [])
      (zero_file_iterator tiny_env tiny_file_sqsh f) tiny_file_sqsh f = (rv, it)" by fastforce
  have "fi_size (zero_file_iterator tiny_env tiny_file_sqsh f) = 0" by (simp add: zero_file_iterator_def)
  from file_iteration_contents [OF tiny_file_ok(1) [OF f(1)] tiny_file_contents(2) [OF f(2,3)]
      tiny_file_ok(2) [OF f] this i, of 4096] i
  have "rv = Ok" "file_iterate (Suc (file_fuel tiny_env it)) tiny_env tiny_impls (Ok, []) it 4096
      = (replicate 131072 0 @ [7, 8, 9], Ok)"
    using tiny_file_contents(1) [OF f(2,3), of tiny_impls] by (simp_all del: file_iterate.simps)
  then show ?thesis using i by blast
qed

end
