(* ===== verification/Sqsh_Directory.thy ===== *)
theory Sqsh_Directory
  imports Sqsh_File
begin

unbundle bit_operations_syntax

text \<open>
  Directories: \<^verbatim>\<open>libsqsh/src/directory/directory_iterator.c\<close> and \<^verbatim>\<open>directory_index_iterator.c\<close>. A listing is
  a sequence of runs in the directory table, each a header (number of entries less one, inode block,
  inode base) and its entries; the iterator reads it through a metablock reader. The index of an
  extended directory lies behind its inode.

  A name is the list of its bytes; where the code passes a pointer and a length, the length is
  that of the list. \<open>mem\<close> says for a number of bytes whether \<^verbatim>\<open>calloc\<close> delivers them.
\<close>

section \<open>The C string functions\<close>

text \<open>
  Their signs only, as the standard defines them. They read \<open>n\<close> bytes of both strings; the callers
  are charged with a \<open>Fault\<close> where these are not there.
\<close>

fun memcmp :: "nat \<Rightarrow> byte list \<Rightarrow> byte list \<Rightarrow> int" where
  "memcmp (Suc n) (x # xs) (y # ys) = (if x = y then memcmp n xs ys else if x < y then - 1 else 1)"
| "memcmp _ _ _ = 0"

fun strncmp :: "nat \<Rightarrow> byte list \<Rightarrow> byte list \<Rightarrow> int" where
  "strncmp (Suc n) (x # xs) (y # ys) =
     (if x \<noteq> y then (if x < y then - 1 else 1) else if x = 0 then 0 else strncmp n xs ys)"
| "strncmp _ _ _ = 0"

definition memchr :: "byte list \<Rightarrow> byte \<Rightarrow> nat \<Rightarrow> bool" where
  "memchr s c n \<longleftrightarrow> c \<in> set (take n s)"

section \<open>The index of an extended directory\<close>

record ('u, 'c, 'b, 'e, 'x) directory_index_iterator =
  dx_file :: "('u, 'c, 'b, 'e, 'x) sqsh_file"
  dx_remaining_entries :: nat
  dx_next_offset :: nat

definition INODE_HEADER_SIZE :: nat where
  "INODE_HEADER_SIZE = sizeof_SqshDataInodeHeader + sizeof_SqshDataInodeDirectoryExt"

definition get_directory_index ::
  "('c, 'b, 'e) sqsh_env \<Rightarrow> ('u, 'c, 'b, 'e, 'x) directory_index_iterator \<Rightarrow> byte list" where
  "get_directory_index env iterator = sqsh__metablock_reader_data env (fl_metablock (dx_file iterator))"

definition sqsh__directory_index_iterator_cleanup ::
  "('c, 'b, 'e) sqsh_env \<Rightarrow> ('u, 'c, 'b, 'e, 'x) directory_index_iterator \<Rightarrow>
   rv \<times> ('u, 'c, 'b, 'e, 'x) directory_index_iterator" where
  "sqsh__directory_index_iterator_cleanup env iterator =
     (Ok, iterator\<lparr>dx_file := snd (sqsh__file_cleanup env (dx_file iterator))\<rparr>)"

definition sqsh__directory_index_iterator_init ::
  "('c, 'b, 'e) sqsh_env \<Rightarrow> 'h hash_map_ops \<Rightarrow> ('u, 'c, 'b, 'e, 'x) directory_index_iterator \<Rightarrow>
   ('u, 'c, 'b, 'e, 'x, 'h) sqsh_archive \<Rightarrow> nat \<Rightarrow>
   rv \<times> ('u, 'c, 'b, 'e, 'x) directory_index_iterator \<times> ('u, 'c, 'b, 'e, 'x, 'h) sqsh_archive" where
  "sqsh__directory_index_iterator_init env ho iterator sqsh inode_ref =
     (case sqsh__file_init env ho sqsh (dx_file iterator) inode_ref of (rv, file, sqsh) \<Rightarrow>
        (let iterator = iterator\<lparr>dx_file := file\<rparr>
         in if rv \<noteq> Ok then (rv, snd (sqsh__directory_index_iterator_cleanup env iterator), sqsh)
            else if sqsh_file_type env file \<noteq> Some SQSH_FILE_TYPE_DIRECTORY \<or>
                    \<not> sqsh_file_is_extended env file
            then (Err SQSH_ERROR_NO_EXTENDED_DIRECTORY,
                  snd (sqsh__directory_index_iterator_cleanup env iterator), sqsh)
            else (Ok, iterator\<lparr>dx_next_offset := INODE_HEADER_SIZE,
                    dx_remaining_entries := sqsh__data_inode_directory_ext_index_count
                      (sqsh__data_inode_directory_ext (get_inode env file))\<rparr>, sqsh)))"

definition sqsh__directory_index_iterator_index where
  "sqsh__directory_index_iterator_index env iterator =
     sqsh__data_inode_directory_index_index (get_directory_index env iterator)"

definition sqsh__directory_index_iterator_start where
  "sqsh__directory_index_iterator_start env iterator =
     sqsh__data_inode_directory_index_start (get_directory_index env iterator)"

definition sqsh__directory_index_iterator_name_size where
  "sqsh__directory_index_iterator_name_size env iterator =
     (case add_overflow 64 (sqsh__data_inode_directory_index_name_size (get_directory_index env iterator)) 1
      of None \<Rightarrow> SIZE_MAX | Some name_size \<Rightarrow> name_size)"

definition sqsh__directory_index_iterator_name where
  "sqsh__directory_index_iterator_name env iterator =
     sqsh__data_inode_directory_index_name (get_directory_index env iterator)"

text \<open>At the end of the index the error code is left as it is.\<close>

definition sqsh__directory_index_iterator_next ::
  "('c, 'b, 'e) sqsh_env \<Rightarrow> ('u, 'c, 'b, 'e, 'x) directory_index_iterator \<Rightarrow> rv \<Rightarrow>
   bool \<times> rv \<times> ('u, 'c, 'b, 'e, 'x) directory_index_iterator" where
  "sqsh__directory_index_iterator_next env iterator err =
     (if dx_remaining_entries iterator = 0 then (False, err, iterator)
      else let remaining_entries = dx_remaining_entries iterator;
               iterator = iterator\<lparr>dx_remaining_entries := remaining_entries - 1\<rparr>;
               sz = sizeof_SqshDataInodeDirectoryIndex;
               file = dx_file iterator
           in case sqsh__metablock_reader_advance env (fl_metablock file) (dx_next_offset iterator) sz of
             (rv, r) \<Rightarrow>
               (let iterator = iterator\<lparr>dx_file := file\<lparr>fl_metablock := r\<rparr>\<rparr>
                in if rv \<noteq> Ok then (False, rv, iterator)
                   else case add_overflow 64 sz (sqsh__directory_index_iterator_name_size env iterator) of
                     None \<Rightarrow> (False, Err SQSH_ERROR_INTEGER_OVERFLOW, iterator)
                   | Some sz \<Rightarrow>
                       (case sqsh__metablock_reader_advance env r 0 sz of (rv, r) \<Rightarrow>
                          (let iterator = iterator\<lparr>dx_file := file\<lparr>fl_metablock := r\<rparr>\<rparr>
                           in if rv \<noteq> Ok then (False, rv, iterator)
                              else (0 < remaining_entries, Ok, iterator\<lparr>dx_next_offset := sz\<rparr>)))))"

section \<open>The directory iterator\<close>

record ('u, 'c, 'b, 'e, 'x) directory_iterator =
  di_file :: "('u, 'c, 'b, 'e, 'x) sqsh_file"
  di_remaining_size :: nat
  di_metablock :: "('u, 'c, 'b, 'e, 'x) metablock_reader"
  di_remaining_entries :: nat
  di_next_offset :: nat
  di_current_inode :: nat
  di_last_dir_name :: "byte list option"
  di_last_dir_name_size :: nat
  di_last_dir_name_capacity :: nat
  di_start_base :: nat
  di_inode_base :: nat

definition get_upper_limit :: "('c, 'b, 'e) sqsh_env \<Rightarrow> ('u, 'c, 'b) map_reader \<Rightarrow> nat" where
  "get_upper_limit env superblock =
     (if sqsh_superblock_has_fragments env superblock
      then sqsh_superblock_fragment_table_start env superblock
      else if sqsh_superblock_has_export_table env superblock
      then sqsh_superblock_export_table_start env superblock
      else sqsh_superblock_id_table_start env superblock)"

definition load_metablock ::
  "('c, 'b, 'e) sqsh_env \<Rightarrow> ('u, 'c, 'b, 'e, 'x, 'h) sqsh_archive \<Rightarrow>
   ('u, 'c, 'b, 'e, 'x) directory_iterator \<Rightarrow> nat \<Rightarrow> nat \<Rightarrow>
   rv \<times> ('u, 'c, 'b, 'e, 'x) directory_iterator" where
  "load_metablock env archive iterator outer_offset inner_offset =
     (let superblock = ar_superblock archive;
          upper_limit = get_upper_limit env superblock
      in case add_overflow 64 (sqsh_superblock_directory_table_start env superblock) outer_offset of
           None \<Rightarrow> (Err SQSH_ERROR_INTEGER_OVERFLOW, iterator)
         | Some start_address \<Rightarrow>
             (case sqsh__metablock_reader_init env (ar_map_manager archive) (ar_metablock_manager archive)
                     start_address upper_limit (di_metablock iterator) of
                (rv, r) \<Rightarrow> (rv, iterator\<lparr>di_next_offset := inner_offset, di_remaining_entries := 0,
                                  di_metablock := r\<rparr>)))"

definition get_entry ::
  "('c, 'b, 'e) sqsh_env \<Rightarrow> ('u, 'c, 'b, 'e, 'x) directory_iterator \<Rightarrow> byte list" where
  "get_entry env iterator = sqsh__metablock_reader_data env (di_metablock iterator)"

definition get_fragment ::
  "('c, 'b, 'e) sqsh_env \<Rightarrow> ('u, 'c, 'b, 'e, 'x) directory_iterator \<Rightarrow> byte list" where
  "get_fragment env iterator = sqsh__metablock_reader_data env (di_metablock iterator)"

definition sqsh_directory_iterator_name2 ::
  "('c, 'b, 'e) sqsh_env \<Rightarrow> ('u, 'c, 'b, 'e, 'x) directory_iterator \<Rightarrow> byte list \<times> nat" where
  "sqsh_directory_iterator_name2 env iterator =
     (let entry = get_entry env iterator
      in (sqsh__data_directory_entry_name entry, sqsh__data_directory_entry_name_size entry + 1))"

definition sqsh_directory_iterator_name where
  "sqsh_directory_iterator_name env iterator = fst (sqsh_directory_iterator_name2 env iterator)"

definition sqsh_directory_iterator_name_size where
  "sqsh_directory_iterator_name_size env iterator =
     snd (sqsh_directory_iterator_name2 env iterator) mod 2 ^ 16"

definition sqsh_directory_iterator_inode_ref ::
  "('c, 'b, 'e) sqsh_env \<Rightarrow> ('u, 'c, 'b, 'e, 'x) directory_iterator \<Rightarrow> nat" where
  "sqsh_directory_iterator_inode_ref env iterator =
     sqsh_address_ref_create (di_start_base iterator)
       (sqsh__data_directory_entry_offset (get_entry env iterator))"

definition sqsh_directory_iterator_inode :: "('u, 'c, 'b, 'e, 'x) directory_iterator \<Rightarrow> nat" where
  "sqsh_directory_iterator_inode iterator = di_current_inode iterator"

definition sqsh_directory_iterator_inode_number :: "('u, 'c, 'b, 'e, 'x) directory_iterator \<Rightarrow> nat" where
  "sqsh_directory_iterator_inode_number iterator = sqsh_directory_iterator_inode iterator"

text \<open>\<open>None\<close> is the value that the code declares unreachable.\<close>

definition entry_file_type :: "nat \<Rightarrow> sqsh_file_type option" where
  "entry_file_type type =
     (if type = SQSH_INODE_TYPE_BASIC_DIRECTORY then Some SQSH_FILE_TYPE_DIRECTORY
      else if type = SQSH_INODE_TYPE_BASIC_FILE then Some SQSH_FILE_TYPE_FILE
      else if type = SQSH_INODE_TYPE_BASIC_SYMLINK then Some SQSH_FILE_TYPE_SYMLINK
      else if type = SQSH_INODE_TYPE_BASIC_BLOCK then Some SQSH_FILE_TYPE_BLOCK
      else if type = SQSH_INODE_TYPE_BASIC_CHAR then Some SQSH_FILE_TYPE_CHAR
      else if type = SQSH_INODE_TYPE_BASIC_FIFO then Some SQSH_FILE_TYPE_FIFO
      else if type = SQSH_INODE_TYPE_BASIC_SOCKET then Some SQSH_FILE_TYPE_SOCKET
      else None)"

definition sqsh_directory_iterator_file_type where
  "sqsh_directory_iterator_file_type env iterator =
     entry_file_type (sqsh__data_directory_entry_type (get_entry env iterator))"

text \<open>
  The subtractions store the wrapped difference in the 32-bit field even when they report the
  overflow.
\<close>

definition sub_remaining ::
  "('u, 'c, 'b, 'e, 'x) directory_iterator \<Rightarrow> nat \<Rightarrow> bool \<times> ('u, 'c, 'b, 'e, 'x) directory_iterator" where
  "sub_remaining iterator n =
     (let remaining = di_remaining_size iterator
      in (remaining < n,
          iterator\<lparr>di_remaining_size := (remaining + 2 ^ 32 - n mod 2 ^ 32) mod 2 ^ 32\<rparr>))"

definition process_fragment ::
  "('c, 'b, 'e) sqsh_env \<Rightarrow> ('u, 'c, 'b, 'e, 'x) directory_iterator \<Rightarrow>
   rv \<times> ('u, 'c, 'b, 'e, 'x) directory_iterator" where
  "process_fragment env iterator =
     (case sqsh__metablock_reader_advance env (di_metablock iterator) (di_next_offset iterator)
             sizeof_SqshDataDirectoryFragment of (rv, r) \<Rightarrow>
        (let iterator = iterator\<lparr>di_metablock := r\<rparr>
         in if rv \<noteq> Ok then (rv, iterator)
            else let fragment = get_fragment env iterator;
                     iterator = iterator\<lparr>
                       di_remaining_entries := sqsh__data_directory_fragment_count fragment,
                       di_start_base := sqsh__data_directory_fragment_start fragment,
                       di_inode_base := sqsh__data_directory_fragment_inode_number fragment,
                       di_next_offset := sizeof_SqshDataDirectoryFragment\<rparr>
                 in case sub_remaining iterator sizeof_SqshDataDirectoryFragment of
                      (overflow, iterator) \<Rightarrow>
                        if overflow then (Err SQSH_ERROR_CORRUPTED_DIRECTORY_HEADER, iterator)
                        else if di_remaining_size iterator div sizeof_SqshDataDirectoryEntry
                                < di_remaining_entries iterator
                        then (Err SQSH_ERROR_CORRUPTED_DIRECTORY_HEADER, iterator)
                        else (Ok, iterator)))"

text \<open>The part of \<^verbatim>\<open>directory_iterator_next\<close> behind the choice of the run: the entry and its name.\<close>

definition load_entry ::
  "('c, 'b, 'e) sqsh_env \<Rightarrow> ('u, 'c, 'b, 'e, 'x) directory_iterator \<Rightarrow>
   bool \<times> rv \<times> ('u, 'c, 'b, 'e, 'x) directory_iterator" where
  "load_entry env iterator =
     (let sz = sizeof_SqshDataDirectoryEntry
      in case sqsh__metablock_reader_advance env (di_metablock iterator) (di_next_offset iterator) sz of
        (rv, r) \<Rightarrow>
          (let iterator = iterator\<lparr>di_metablock := r\<rparr>
           in if rv \<noteq> Ok then (False, rv, iterator)
              else let name_size = snd (sqsh_directory_iterator_name2 env iterator)
                   in case add_overflow 64 sz name_size of
                     None \<Rightarrow> (False, Err SQSH_ERROR_INTEGER_OVERFLOW, iterator)
                   | Some sz \<Rightarrow>
                       (case sqsh__metablock_reader_advance env r 0 sz of (rv, r) \<Rightarrow>
                          (let iterator = iterator\<lparr>di_metablock := r\<rparr>
                           in if rv \<noteq> Ok then (False, rv, iterator)
                              else case sub_remaining (iterator\<lparr>di_next_offset := sz\<rparr>) sz of
                                (overflow, iterator) \<Rightarrow>
                                  if overflow then (False, Err SQSH_ERROR_INTEGER_OVERFLOW, iterator)
                                  else (True, Ok, iterator)))))"

definition directory_iterator_next ::
  "('c, 'b, 'e) sqsh_env \<Rightarrow> ('u, 'c, 'b, 'e, 'x) directory_iterator \<Rightarrow>
   bool \<times> rv \<times> ('u, 'c, 'b, 'e, 'x) directory_iterator" where
  "directory_iterator_next env iterator =
     (if di_remaining_size iterator = 0
      then (False, if di_remaining_entries iterator \<noteq> 0
                   then Err SQSH_ERROR_CORRUPTED_DIRECTORY_HEADER else Ok, iterator)
      else if di_remaining_entries iterator = 0
      then (case process_fragment env iterator of (rv, iterator) \<Rightarrow>
              if rv \<noteq> Ok then (False, rv, iterator) else load_entry env iterator)
      else load_entry env (iterator\<lparr>di_remaining_entries := di_remaining_entries iterator - 1\<rparr>))"

definition check_entry_consistency ::
  "('c, 'b, 'e) sqsh_env \<Rightarrow> (nat \<Rightarrow> bool) \<Rightarrow> ('u, 'c, 'b, 'e, 'x) directory_iterator \<Rightarrow>
   rv \<times> ('u, 'c, 'b, 'e, 'x) directory_iterator" where
  "check_entry_consistency env mem iterator =
     (case sqsh_directory_iterator_name2 env iterator of (name, name_len) \<Rightarrow>
        if entry_file_type (sqsh__data_directory_entry_type (get_entry env iterator)) = None
        then (Err SQSH_ERROR_CORRUPTED_DIRECTORY_ENTRY, iterator)
        else if length name < name_len then (Fault, iterator)
        else if memchr name 0 name_len then (Err SQSH_ERROR_CORRUPTED_DIRECTORY_ENTRY, iterator)
        else if memchr name 47 name_len then (Err SQSH_ERROR_CORRUPTED_DIRECTORY_ENTRY, iterator)
        else if name_len = 1 \<and> memcmp (min name_len 1) name [46] = 0
        then (Err SQSH_ERROR_CORRUPTED_DIRECTORY_ENTRY, iterator)
        else if name_len = 2 \<and> memcmp (min name_len 2) name [46, 46] = 0
        then (Err SQSH_ERROR_CORRUPTED_DIRECTORY_ENTRY, iterator)
        else let cmp_size = min (di_last_dir_name_size iterator) name_len;
                 last_name = (case di_last_dir_name iterator of None \<Rightarrow> [] | Some b \<Rightarrow> b);
                 cmp = memcmp cmp_size last_name name
             in if cmp_size \<noteq> 0 \<and> length last_name < cmp_size then (Fault, iterator)
                else if cmp_size \<noteq> 0 \<and> (0 < cmp \<or> cmp = 0 \<and> name_len \<le> di_last_dir_name_size iterator)
                then (Err SQSH_ERROR_CORRUPTED_DIRECTORY_ENTRY, iterator)
                else let capacity = divide_ceil name_len 64 * 64;
                         grow = di_last_dir_name_capacity iterator < name_len
                     in if grow \<and> \<not> mem capacity
                        then (Err SQSH_ERROR_MALLOC_FAILED, iterator\<lparr>di_last_dir_name := None\<rparr>)
                        else let buffer = (if grow then replicate capacity 0 else last_name);
                                 iterator = (if grow then iterator\<lparr>di_last_dir_name_capacity := capacity\<rparr>
                                             else iterator)
                             in if length buffer < name_len then (Fault, iterator)
                                else (Ok, iterator\<lparr>di_last_dir_name_size := name_len,
                                       di_last_dir_name := Some (take name_len name @ drop name_len buffer)\<rparr>))"

definition update_inode ::
  "('c, 'b, 'e) sqsh_env \<Rightarrow> ('u, 'c, 'b, 'e, 'x) directory_iterator \<Rightarrow>
   rv \<times> ('u, 'c, 'b, 'e, 'x) directory_iterator" where
  "update_inode env iterator =
     (let inode = int (di_inode_base iterator)
            + sqsh__data_directory_entry_inode_offset (get_entry env iterator)
      in if inode < 0 \<or> 2 ^ 32 \<le> inode then (Err SQSH_ERROR_CORRUPTED_DIRECTORY_ENTRY, iterator)
         else if inode = 0 then (Err SQSH_ERROR_CORRUPTED_DIRECTORY_ENTRY, iterator)
         else (Ok, iterator\<lparr>di_current_inode := nat inode\<rparr>))"

definition directory_iterator_next_finalize ::
  "('c, 'b, 'e) sqsh_env \<Rightarrow> (nat \<Rightarrow> bool) \<Rightarrow> ('u, 'c, 'b, 'e, 'x) directory_iterator \<Rightarrow>
   rv \<times> ('u, 'c, 'b, 'e, 'x) directory_iterator" where
  "directory_iterator_next_finalize env mem iterator =
     (case check_entry_consistency env mem iterator of (rv, iterator) \<Rightarrow>
        if rv \<noteq> Ok then (rv, iterator) else update_inode env iterator)"

definition sqsh_directory_iterator_next ::
  "('c, 'b, 'e) sqsh_env \<Rightarrow> (nat \<Rightarrow> bool) \<Rightarrow> ('u, 'c, 'b, 'e, 'x) directory_iterator \<Rightarrow>
   bool \<times> rv \<times> ('u, 'c, 'b, 'e, 'x) directory_iterator" where
  "sqsh_directory_iterator_next env mem iterator =
     (case directory_iterator_next env iterator of (has_next, rv, iterator) \<Rightarrow>
        case (if has_next then directory_iterator_next_finalize env mem iterator else (rv, iterator)) of
          (rv, iterator) \<Rightarrow> (if rv \<noteq> Ok then False else has_next, rv, iterator))"

section \<open>Looking up a name\<close>

text \<open>
  The loop over the index: the last entry that does not lie behind the name says where to start.
  It runs at most once for each entry.
\<close>

primrec index_loop ::
  "nat \<Rightarrow> ('c, 'b, 'e) sqsh_env \<Rightarrow> byte list \<Rightarrow> ('u, 'c, 'b, 'e, 'x) directory_index_iterator \<Rightarrow> nat \<Rightarrow> nat \<Rightarrow>
   rv \<times> ('u, 'c, 'b, 'e, 'x) directory_index_iterator \<times> nat \<times> nat" where
  "index_loop 0 env name index_iterator outer_offset dir_index =
     (Diverge, index_iterator, outer_offset, dir_index)"
| "index_loop (Suc fuel) env name index_iterator outer_offset dir_index =
     (case sqsh__directory_index_iterator_next env index_iterator Ok of (has_next, rv, index_iterator) \<Rightarrow>
        if \<not> has_next then (rv, index_iterator, outer_offset, dir_index)
        else let index_name = sqsh__directory_index_iterator_name env index_iterator;
                 index_name_size = sqsh__directory_index_iterator_name_size env index_iterator;
                 cmp_size = min index_name_size (length name);
                 cmp = strncmp cmp_size name index_name
             in if length index_name < cmp_size then (Fault, index_iterator, outer_offset, dir_index)
                else if cmp < 0 \<or> cmp = 0 \<and> length name < index_name_size
                then (Ok, index_iterator, outer_offset, dir_index)
                else index_loop fuel env name index_iterator
                       (sqsh__directory_index_iterator_start env index_iterator)
                       (sqsh__directory_index_iterator_index env index_iterator))"

definition directory_iterator_index_lookup ::
  "('c, 'b, 'e) sqsh_env \<Rightarrow> 'h hash_map_ops \<Rightarrow> ('u, 'c, 'b, 'e, 'x, 'h) sqsh_archive \<Rightarrow>
   ('u, 'c, 'b, 'e, 'x) directory_iterator \<Rightarrow> byte list \<Rightarrow>
   rv \<times> ('u, 'c, 'b, 'e, 'x) directory_iterator \<times> ('u, 'c, 'b, 'e, 'x, 'h) sqsh_archive" where
  "directory_iterator_index_lookup env ho archive iterator name =
     (let file = di_file iterator;
          inode_ref = sqsh_file_inode_ref file
      in case sqsh__directory_index_iterator_init env ho
                \<lparr>dx_file = zero_file env archive, dx_remaining_entries = 0, dx_next_offset = 0\<rparr>
                archive inode_ref of
        (rv, index_iterator, archive) \<Rightarrow>
          if rv \<noteq> Ok then (rv, iterator, archive)
          else case index_loop (Suc (dx_remaining_entries index_iterator)) env name index_iterator
                      (sqsh_file_directory_block_start env file) 0 of
            (rv, index_iterator, outer_offset, dir_index) \<Rightarrow>
              if rv \<noteq> Ok then (rv, iterator, archive)
              else let iterator = iterator\<lparr>di_metablock :=
                         snd (sqsh__metablock_reader_cleanup env (di_metablock iterator))\<rparr>
                   in case add_overflow 16 (di_next_offset iterator) dir_index of
                        None \<Rightarrow> (Err SQSH_ERROR_INTEGER_OVERFLOW, iterator, archive)
                      | Some inner_offset \<Rightarrow>
                          (let inner_offset = inner_offset mod SQSH_METABLOCK_BLOCK_SIZE
                           in case sub_remaining iterator dir_index of (overflow, iterator) \<Rightarrow>
                             if overflow then (Err SQSH_ERROR_INTEGER_OVERFLOW, iterator, archive)
                             else case load_metablock env archive iterator outer_offset inner_offset of
                               (rv, iterator) \<Rightarrow>
                                 (rv, iterator\<lparr>di_remaining_entries := 0\<rparr>, archive)))"

text \<open>The scan of \<^verbatim>\<open>sqsh_directory_iterator_lookup\<close>; every round uses up some of the remaining size.\<close>

primrec lookup_loop ::
  "nat \<Rightarrow> ('c, 'b, 'e) sqsh_env \<Rightarrow> (nat \<Rightarrow> bool) \<Rightarrow> byte list \<Rightarrow> ('u, 'c, 'b, 'e, 'x) directory_iterator \<Rightarrow>
   rv \<times> ('u, 'c, 'b, 'e, 'x) directory_iterator" where
  "lookup_loop 0 env mem name iterator = (Diverge, iterator)"
| "lookup_loop (Suc fuel) env mem name iterator =
     (case directory_iterator_next env iterator of (has_next, rv, iterator) \<Rightarrow>
        if \<not> has_next then (if rv \<noteq> Ok then rv else Err SQSH_ERROR_NO_SUCH_FILE, iterator)
        else case sqsh_directory_iterator_name2 env iterator of (entry_name, entry_name_size) \<Rightarrow>
          if entry_name_size = length name \<and> length entry_name < length name then (Fault, iterator)
          else if entry_name_size = length name \<and> memcmp (length name) entry_name name = 0
          then directory_iterator_next_finalize env mem iterator
          else lookup_loop fuel env mem name iterator)"

definition sqsh_directory_iterator_lookup ::
  "('c, 'b, 'e) sqsh_env \<Rightarrow> 'h hash_map_ops \<Rightarrow> (nat \<Rightarrow> bool) \<Rightarrow> ('u, 'c, 'b, 'e, 'x, 'h) sqsh_archive \<Rightarrow>
   ('u, 'c, 'b, 'e, 'x) directory_iterator \<Rightarrow> byte list \<Rightarrow>
   rv \<times> ('u, 'c, 'b, 'e, 'x) directory_iterator \<times> ('u, 'c, 'b, 'e, 'x, 'h) sqsh_archive" where
  "sqsh_directory_iterator_lookup env ho mem archive iterator name =
     (case (if sqsh_file_is_extended env (di_file iterator)
            then directory_iterator_index_lookup env ho archive iterator name
            else (Ok, iterator, archive)) of (rv, iterator, archive) \<Rightarrow>
        if rv \<noteq> Ok then (rv, iterator, archive)
        else case lookup_loop (Suc (di_remaining_size iterator)) env mem name iterator of
          (rv, iterator) \<Rightarrow> (rv, iterator, archive))"

section \<open>Starting, opening, cleaning up\<close>

definition zero_directory_iterator ::
  "('c, 'b, 'e) sqsh_env \<Rightarrow> ('u, 'c, 'b, 'e, 'x, 'h) sqsh_archive \<Rightarrow> ('u, 'c, 'b, 'e, 'x) sqsh_file \<Rightarrow>
   ('u, 'c, 'b, 'e, 'x) directory_iterator" where
  "zero_directory_iterator env archive file = \<lparr>di_file = file, di_remaining_size = 0,
     di_metablock = zero_metablock_reader env (ar_map_manager archive) (ar_metablock_manager archive),
     di_remaining_entries = 0, di_next_offset = 0, di_current_inode = 0, di_last_dir_name = None,
     di_last_dir_name_size = 0, di_last_dir_name_capacity = 0, di_start_base = 0, di_inode_base = 0\<rparr>"

definition sqsh__directory_iterator_init ::
  "('c, 'b, 'e) sqsh_env \<Rightarrow> ('u, 'c, 'b, 'e, 'x, 'h) sqsh_archive \<Rightarrow>
   ('u, 'c, 'b, 'e, 'x) directory_iterator \<Rightarrow> ('u, 'c, 'b, 'e, 'x) sqsh_file \<Rightarrow>
   rv \<times> ('u, 'c, 'b, 'e, 'x) directory_iterator" where
  "sqsh__directory_iterator_init env archive iterator file =
     (if sqsh_file_type env file \<noteq> Some SQSH_FILE_TYPE_DIRECTORY
      then (Err SQSH_ERROR_NOT_A_DIRECTORY, iterator)
      else let iterator = zero_directory_iterator env archive file
           in case sub_overflow 32 (sqsh_file_size env file) 3 of
                None \<Rightarrow> (Err SQSH_ERROR_INTEGER_OVERFLOW, iterator)
              | Some remaining_size \<Rightarrow>
                  load_metablock env archive (iterator\<lparr>di_remaining_size := remaining_size\<rparr>)
                    (sqsh_file_directory_block_start env file)
                    (sqsh_file_directory_block_offset2 env file))"

definition sqsh_directory_iterator_new ::
  "('c, 'b, 'e) sqsh_env \<Rightarrow> ('u, 'c, 'b, 'e, 'x, 'h) sqsh_archive \<Rightarrow> ('u, 'c, 'b, 'e, 'x) sqsh_file \<Rightarrow>
   rv \<times> ('u, 'c, 'b, 'e, 'x) directory_iterator option" where
  "sqsh_directory_iterator_new env archive file =
     (case sqsh__directory_iterator_init env archive (zero_directory_iterator env archive file) file of
        (rv, it) \<Rightarrow> (rv, if rv = Ok then Some it else None))"

definition check_file_consistency ::
  "('c, 'b, 'e) sqsh_env \<Rightarrow> ('u, 'c, 'b, 'e, 'x) directory_iterator \<Rightarrow> ('u, 'c, 'b, 'e, 'x) sqsh_file \<Rightarrow> rv" where
  "check_file_consistency env iterator file =
     (if sqsh_directory_iterator_inode iterator \<noteq> sqsh_file_inode env file
      then Err SQSH_ERROR_CORRUPTED_DIRECTORY_ENTRY
      else if sqsh_directory_iterator_file_type env iterator = None then Fault
      else if sqsh_directory_iterator_file_type env iterator \<noteq> sqsh_file_type env file
      then Err SQSH_ERROR_CORRUPTED_DIRECTORY_ENTRY
      else Ok)"

definition sqsh_directory_iterator_open_file ::
  "('c, 'b, 'e) sqsh_env \<Rightarrow> 'h hash_map_ops \<Rightarrow> ('u, 'c, 'b, 'e, 'x, 'h) sqsh_archive \<Rightarrow>
   ('u, 'c, 'b, 'e, 'x) directory_iterator \<Rightarrow>
   rv \<times> ('u, 'c, 'b, 'e, 'x) sqsh_file option \<times> ('u, 'c, 'b, 'e, 'x, 'h) sqsh_archive" where
  "sqsh_directory_iterator_open_file env ho archive iterator =
     (case sqsh_open_by_ref env ho archive (sqsh_directory_iterator_inode_ref env iterator) of
        (rv, file, archive) \<Rightarrow>
          if rv \<noteq> Ok then (rv, None, archive)
          else case file of None \<Rightarrow> (Fault, None, archive)
          | Some file \<Rightarrow>
              (let file = sqsh__file_set_parent_inode_ref file (sqsh_file_inode_ref (di_file iterator));
                   rv = check_file_consistency env iterator file
               in (rv, if rv = Ok then Some file else None, archive)))"

text \<open>The copy is made by \<^verbatim>\<open>cx_memdup\<close> of cextras, a parameter.\<close>

definition sqsh_directory_iterator_name_dup ::
  "('c, 'b, 'e) sqsh_env \<Rightarrow> (byte list \<Rightarrow> byte list option) \<Rightarrow>
   ('u, 'c, 'b, 'e, 'x) directory_iterator \<Rightarrow> byte list option" where
  "sqsh_directory_iterator_name_dup env cx_memdup iterator =
     (case sqsh_directory_iterator_name2 env iterator of (name, sz) \<Rightarrow> cx_memdup (take sz name))"

definition sqsh__directory_iterator_cleanup ::
  "('c, 'b, 'e) sqsh_env \<Rightarrow> ('u, 'c, 'b, 'e, 'x) directory_iterator \<Rightarrow>
   rv \<times> ('u, 'c, 'b, 'e, 'x) directory_iterator" where
  "sqsh__directory_iterator_cleanup env iterator =
     (case sqsh__metablock_reader_cleanup env (di_metablock iterator) of
        (rv, r) \<Rightarrow> (rv, iterator\<lparr>di_last_dir_name := None, di_metablock := r\<rparr>))"

section \<open>Names\<close>

lemma memcmp_less:
  "memcmp (min (length xs) (length ys)) xs ys < 0 \<or>
   memcmp (min (length xs) (length ys)) xs ys = 0 \<and> length xs < length ys \<longleftrightarrow> ord_class.lexordp xs ys"
proof (induction xs arbitrary: ys)
  case Nil
  then show ?case by (cases ys) auto
next
  case (Cons x xs)
  show ?case
  proof (cases ys)
    case (Cons y zs)
    show ?thesis using Cons.IH [of zs] by (auto simp: Cons)
  qed simp
qed

lemma memcmp_eq:
  "n \<le> length xs \<Longrightarrow> n \<le> length ys \<Longrightarrow> memcmp n xs ys = 0 \<longleftrightarrow> take n xs = take n ys"
proof (induction n arbitrary: xs ys)
  case (Suc n)
  then show ?case by (cases xs; cases ys) auto
qed simp

lemma memcmp_take: "n \<le> m \<Longrightarrow> memcmp n (take m xs) ys = memcmp n xs ys"
proof (induction n arbitrary: m xs ys)
  case (Suc n)
  then show ?case by (cases xs; cases ys; cases m) auto
qed simp

text \<open>The names that the iterator delivers.\<close>

definition name_valid :: "byte list \<Rightarrow> bool" where
  "name_valid name \<longleftrightarrow> name \<noteq> [] \<and> 0 \<notin> set name \<and> 47 \<notin> set name \<and> name \<noteq> [46] \<and> name \<noteq> [46, 46]"

section \<open>The state of an iterator\<close>

text \<open>
  What holds of an iterator on any archive: its reader is in order, and a window that crosses
  metablocks does not end before the next entry; the copy of the last name has its capacity.
\<close>

definition last_name_ok :: "('u, 'c, 'b, 'e, 'x) directory_iterator \<Rightarrow> bool" where
  "last_name_ok it \<longleftrightarrow>
     (case di_last_dir_name it of None \<Rightarrow> di_last_dir_name_capacity it = 0 \<and> di_last_dir_name_size it = 0
      | Some b \<Rightarrow> length b = di_last_dir_name_capacity it \<and> di_last_dir_name_size it \<le> length b)"

definition last_name :: "('u, 'c, 'b, 'e, 'x) directory_iterator \<Rightarrow> byte list" where
  "last_name it = take (di_last_dir_name_size it) (case di_last_dir_name it of None \<Rightarrow> [] | Some b \<Rightarrow> b)"

lemma last_name_upd [simp]:
  "last_name_ok (it\<lparr>di_metablock := r\<rparr>) = last_name_ok it" "last_name (it\<lparr>di_metablock := r\<rparr>) = last_name it"
  "last_name_ok (it\<lparr>di_remaining_entries := n\<rparr>) = last_name_ok it"
  "last_name (it\<lparr>di_remaining_entries := n\<rparr>) = last_name it"
  "last_name_ok (it\<lparr>di_remaining_size := n\<rparr>) = last_name_ok it" "last_name (it\<lparr>di_remaining_size := n\<rparr>) = last_name it"
  "last_name_ok (it\<lparr>di_next_offset := n\<rparr>) = last_name_ok it" "last_name (it\<lparr>di_next_offset := n\<rparr>) = last_name it"
  "last_name_ok (it\<lparr>di_start_base := n\<rparr>) = last_name_ok it" "last_name (it\<lparr>di_start_base := n\<rparr>) = last_name it"
  "last_name_ok (it\<lparr>di_inode_base := n\<rparr>) = last_name_ok it" "last_name (it\<lparr>di_inode_base := n\<rparr>) = last_name it"
  "last_name_ok (it\<lparr>di_current_inode := n\<rparr>) = last_name_ok it" "last_name (it\<lparr>di_current_inode := n\<rparr>) = last_name it"
  by (simp_all add: last_name_ok_def last_name_def split: option.split)

definition directory_iterator_sane where
  "directory_iterator_sane env se ee src it \<longleftrightarrow>
     metablock_reader_sane env se ee src (di_metablock it) \<and>
     rd_iterator_offset (di_metablock it) \<le> di_next_offset it \<and> di_next_offset it < 2 ^ 32 \<and>
     di_remaining_size it < 2 ^ 32 \<and> di_remaining_entries it < 2 ^ 32 \<and> last_name_ok it"

text \<open>An entry is loaded when the window of the reader is the entry with its name.\<close>

definition entry_loaded where
  "entry_loaded env it \<longleftrightarrow> length (get_entry env it) = 8 + snd (sqsh_directory_iterator_name2 env it)"

definition entry_name where
  "entry_name env it = drop 8 (get_entry env it)"

lemma entry_loaded_name:
  assumes "entry_loaded env it"
  shows "sqsh_directory_iterator_name2 env it = (entry_name env it, length (entry_name env it))"
    "0 < length (entry_name env it)" "length (entry_name env it) \<le> 2 ^ 16"
  using assms get_le_bound [of 2 6 "get_entry env it"]
  by (auto simp: entry_loaded_def entry_name_def sqsh_directory_iterator_name2_def Let_def
      sqsh__data_directory_entry_name_def sqsh__data_directory_entry_name_size_def
      sizeof_SqshDataDirectoryEntry_def)

lemma sub_wrap:
  assumes "n \<le> r" "r < (M::nat)"
  shows "(r + M - n mod M) mod M = r - n"
proof -
  have n: "n mod M = n" "r + M - n = (r - n) + M" using assms by simp_all
  have "(r + M - n mod M) mod M = (r - n + M) mod M" by (simp only: n)
  also have "\<dots> = (r - n) mod M" by (rule mod_add_self2)
  also have "\<dots> = r - n" using assms(2) by (intro mod_less) simp
  finally show ?thesis .
qed

lemma sub_remaining_simps:
  assumes "di_remaining_size it < 2 ^ 32" "sub_remaining it n = (overflow, it')"
  shows "overflow \<longleftrightarrow> di_remaining_size it < n"
    "\<not> overflow \<Longrightarrow> it' = it\<lparr>di_remaining_size := di_remaining_size it - n\<rparr>"
proof -
  have eq: "overflow = (di_remaining_size it < n)"
    "it' = it\<lparr>di_remaining_size := (di_remaining_size it + 2 ^ 32 - n mod 2 ^ 32) mod 2 ^ 32\<rparr>"
    using assms(2) by (simp_all add: sub_remaining_def Let_def)
  show "overflow \<longleftrightarrow> di_remaining_size it < n" by (rule eq)
  assume "\<not> overflow"
  then have "n \<le> di_remaining_size it" using eq(1) by simp
  from sub_wrap [OF this assms(1)] show "it' = it\<lparr>di_remaining_size := di_remaining_size it - n\<rparr>"
    by (simp only: eq(2))
qed

lemma metablock_reader_io:
  assumes "metablock_reader_sane env se ee src r"
  shows "rd_iterator_offset r \<le> sqsh__metablock_reader_size r"
  using assms by (auto simp: metablock_reader_sane_def metablock_reader_at_def reader_at_def
      reader_mapped_def reader_buffered_def sqsh__metablock_reader_size_def sqsh__reader_size_def)

text \<open>Making the window longer at the same place keeps what it showed.\<close>

lemma metablock_reader_grow:
  assumes sane: "metablock_reader_sane env se ee src r"
    and n: "0 < sqsh__metablock_reader_size r" "sqsh__metablock_reader_size r \<le> sz" "sz < 2 ^ 64"
    and eq: "sqsh__metablock_reader_advance env r 0 sz = (rv, r')"
  shows "safe_rv rv"
    "rv = Ok \<Longrightarrow> metablock_reader_sane env se ee src r' \<and> sqsh__metablock_reader_size r' = sz \<and>
      length (sqsh__metablock_reader_data env r') = sz \<and>
      take (sqsh__metablock_reader_size r) (sqsh__metablock_reader_data env r') = sqsh__metablock_reader_data env r"
proof -
  obtain B base p where at: "metablock_reader_at env se ee src B base r p"
    using sane by (auto simp: metablock_reader_sane_def)
  have "advance_supported r 0 sz" using n(2)
    by (simp add: advance_supported_def sqsh__metablock_reader_size_def sqsh__reader_size_def)
  note A = metablock_reader_advance_safe [OF sane this n(3) eq]
  note X = metablock_reader_extend [OF at n eq] and W = metablock_reader_at_window(1) [OF at]
  show "safe_rv rv" using A by simp
  assume o: "rv = Ok"
  have "sqsh__metablock_reader_data env r' = window p sz (concat (B base))" using X o by simp
  then have "take (sqsh__metablock_reader_size r) (sqsh__metablock_reader_data env r') =
    sqsh__metablock_reader_data env r" using W n(2) by (simp add: window_def min_def)
  then show "metablock_reader_sane env se ee src r' \<and> sqsh__metablock_reader_size r' = sz \<and>
      length (sqsh__metablock_reader_data env r') = sz \<and>
      take (sqsh__metablock_reader_size r) (sqsh__metablock_reader_data env r') = sqsh__metablock_reader_data env r"
    using A o by simp
qed

lemma process_fragment_safe:
  assumes S: "directory_iterator_sane env se ee src it"
    and eq: "process_fragment env it = (rv, it')"
  shows "safe_rv rv \<and> (rv = Ok \<longrightarrow> directory_iterator_sane env se ee src it' \<and>
    di_remaining_size it = di_remaining_size it' + 12 \<and> di_file it' = di_file it \<and>
    last_name it' = last_name it)"
proof -
  have D: "metablock_reader_sane env se ee src (di_metablock it)"
    "rd_iterator_offset (di_metablock it) \<le> di_next_offset it" "di_remaining_size it < 2 ^ 32"
    "last_name_ok it"
    using S by (simp_all add: directory_iterator_sane_def)
  obtain r1 r where ad: "sqsh__metablock_reader_advance env (di_metablock it) (di_next_offset it) 12 = (r1, r)"
    by fastforce
  have "advance_supported (di_metablock it) (di_next_offset it) 12" using D(2) by (simp add: advance_supported_def)
  note A = metablock_reader_advance_safe [OF D(1) this _ ad]
  show ?thesis
  proof (cases "r1 = Ok")
    case False
    then show ?thesis using eq ad A
      by (simp add: process_fragment_def sizeof_SqshDataDirectoryFragment_def)
  next
    case True
    define d where "d = sqsh__metablock_reader_data env r"
    define it1 where "it1 = it\<lparr>di_metablock := r,
      di_remaining_entries := sqsh__data_directory_fragment_count d,
      di_start_base := sqsh__data_directory_fragment_start d,
      di_inode_base := sqsh__data_directory_fragment_inode_number d, di_next_offset := 12\<rparr>"
    obtain ov it2 where s: "sub_remaining it1 12 = (ov, it2)" by fastforce
    have main: "(rv, it') = (if ov then (Err SQSH_ERROR_CORRUPTED_DIRECTORY_HEADER, it2)
      else if di_remaining_size it2 div 8 < di_remaining_entries it2
      then (Err SQSH_ERROR_CORRUPTED_DIRECTORY_HEADER, it2) else (Ok, it2))"
      using eq ad True s
      by (simp add: process_fragment_def sizeof_SqshDataDirectoryFragment_def it1_def d_def Let_def
          get_fragment_def sizeof_SqshDataDirectoryEntry_def cong: if_cong)
    have "di_remaining_size it1 < 2 ^ 32" using D(3) by (simp add: it1_def)
    note R = sub_remaining_simps [OF this s]
    have c: "sqsh__data_directory_fragment_count d < 2 ^ 32"
      using get_le_bound [of 4 0 d] by (simp add: sqsh__data_directory_fragment_count_def)
    show ?thesis
    proof (cases "rv = Ok")
      case False
      then show ?thesis using main by (auto split: if_splits)
    next
      case ok: True
      then have o: "\<not> ov" "it' = it2" using main by (auto split: if_splits)
      have "rd_iterator_offset r \<le> 12" using metablock_reader_io [of env se ee src r] A True by simp
      then show ?thesis using ok o R A True D c main
        by (auto simp: directory_iterator_sane_def it1_def split: if_splits)
    qed
  qed
qed

lemma load_entry_safe:
  assumes S: "directory_iterator_sane env se ee src it"
    and eq: "load_entry env it = (b, rv, it')"
  shows "safe_rv rv \<and> b = (rv = Ok) \<and> (rv = Ok \<longrightarrow> directory_iterator_sane env se ee src it' \<and>
    entry_loaded env it' \<and>
    di_remaining_size it = di_remaining_size it' + 8 + length (entry_name env it') \<and>
    di_next_offset it' = 8 + length (entry_name env it') \<and>
    di_file it' = di_file it \<and> di_start_base it' = di_start_base it \<and> di_inode_base it' = di_inode_base it \<and>
    di_remaining_entries it' = di_remaining_entries it \<and> last_name it' = last_name it)"
proof -
  have D: "metablock_reader_sane env se ee src (di_metablock it)"
    "rd_iterator_offset (di_metablock it) \<le> di_next_offset it" "di_remaining_size it < 2 ^ 32"
    "last_name_ok it"
    using S by (simp_all add: directory_iterator_sane_def)
  obtain r1 r where ad: "sqsh__metablock_reader_advance env (di_metablock it) (di_next_offset it) 8 = (r1, r)"
    by fastforce
  have "advance_supported (di_metablock it) (di_next_offset it) 8" using D(2) by (simp add: advance_supported_def)
  note A = metablock_reader_advance_safe [OF D(1) this _ ad]
  show ?thesis
  proof (cases "r1 = Ok")
    case False
    then show ?thesis using eq ad A by (auto simp: load_entry_def sizeof_SqshDataDirectoryEntry_def)
  next
    case r1: True
    define n where "n = sqsh__data_directory_entry_name_size (sqsh__metablock_reader_data env r) + 1"
    have n: "0 < n" "n \<le> 2 ^ 16"
      using get_le_bound [of 2 6 "sqsh__metablock_reader_data env r"]
      by (simp_all add: n_def sqsh__data_directory_entry_name_size_def)
    obtain r2 r' where ad2: "sqsh__metablock_reader_advance env r 0 (8 + n) = (r2, r')" by fastforce
    have sane_r: "metablock_reader_sane env se ee src r" "sqsh__metablock_reader_size r = 8"
      using A r1 by auto
    have A2: "safe_rv r2" "r2 = Ok \<Longrightarrow> metablock_reader_sane env se ee src r' \<and>
        sqsh__metablock_reader_size r' = 8 + n \<and> length (sqsh__metablock_reader_data env r') = 8 + n \<and>
        take 8 (sqsh__metablock_reader_data env r') = sqsh__metablock_reader_data env r"
      using metablock_reader_grow [OF sane_r(1) _ _ _ ad2] sane_r(2) n by simp_all
    define it1 where "it1 = it\<lparr>di_metablock := r', di_next_offset := 8 + n\<rparr>"
    obtain ov it2 where s: "sub_remaining it1 (8 + n) = (ov, it2)" by fastforce
    have nm: "snd (sqsh_directory_iterator_name2 env (it\<lparr>di_metablock := r\<rparr>)) = n"
      by (simp add: sqsh_directory_iterator_name2_def get_entry_def n_def Let_def)
    have ovf: "add_overflow 64 8 n = Some (8 + n)" using n by (simp add: add_overflow_def)
    have main: "(b, rv, it') = (if r2 \<noteq> Ok then (False, r2, it\<lparr>di_metablock := r'\<rparr>)
      else if ov then (False, Err SQSH_ERROR_INTEGER_OVERFLOW, it2) else (True, Ok, it2))"
      using eq ad r1 nm ovf ad2 s
      by (simp add: load_entry_def sizeof_SqshDataDirectoryEntry_def it1_def Let_def
          del: add_overflow_Some cong: if_cong)
    show ?thesis
    proof (cases "rv = Ok")
      case False
      then show ?thesis using main A2 n by (auto split: if_splits)
    next
      case True
      then have o: "r2 = Ok" "\<not> ov" "it' = it2" "b" using main by (auto split: if_splits)
      have "di_remaining_size it1 < 2 ^ 32" using D(3) by (simp add: it1_def)
      note R = sub_remaining_simps [OF this s]
      have sane2: "metablock_reader_sane env se ee src r'" "sqsh__metablock_reader_size r' = 8 + n"
        "length (sqsh__metablock_reader_data env r') = 8 + n"
        "take 8 (sqsh__metablock_reader_data env r') = sqsh__metablock_reader_data env r" using A2 o(1) by auto
      have "get_le 2 6 (sqsh__metablock_reader_data env r') = get_le 2 6 (sqsh__metablock_reader_data env r)"
        using get_le_take [of 6 2 8 "sqsh__metablock_reader_data env r'"] sane2(4) by simp
      then have n': "sqsh__data_directory_entry_name_size (sqsh__metablock_reader_data env r') + 1 = n"
        by (simp add: n_def sqsh__data_directory_entry_name_size_def)
      have it': "it' = it\<lparr>di_metablock := r', di_next_offset := 8 + n,
          di_remaining_size := di_remaining_size it - (8 + n)\<rparr>" "8 + n \<le> di_remaining_size it"
        using o R by (simp_all add: it1_def)
      have g: "get_entry env it' = sqsh__metablock_reader_data env r'" by (simp add: get_entry_def it')
      have "entry_loaded env it'" "length (entry_name env it') = n"
        using sane2(3) n' by (simp_all add: entry_loaded_def entry_name_def g
            sqsh_directory_iterator_name2_def Let_def)
      moreover have "rd_iterator_offset r' \<le> 8 + n" using metablock_reader_io [OF sane2(1)] sane2(2) by simp
      ultimately show ?thesis using True o(4) S sane2(1) n it'
        by (simp add: directory_iterator_sane_def less_imp_diff_less)
    qed
  qed
qed

section \<open>The checks on an entry\<close>

lemma name_valid_checks:
  assumes "name \<noteq> []"
  shows "name_valid name \<longleftrightarrow> \<not> memchr name 0 (length name) \<and> \<not> memchr name 47 (length name) \<and>
    \<not> (length name = 1 \<and> memcmp (min (length name) 1) name [46] = 0) \<and>
    \<not> (length name = 2 \<and> memcmp (min (length name) 2) name [46, 46] = 0)"
proof -
  have 1: "length name = 1 \<and> memcmp (min (length name) 1) name [46] = 0 \<longleftrightarrow> name = [46]"
    by (cases name) (auto split: if_splits)
  have 2: "length name = 2 \<and> memcmp (min (length name) 2) name [46, 46] = 0 \<longleftrightarrow> name = [46, 46]"
    by (cases name; cases "tl name") (auto simp: numeral_2_eq_2 split: if_splits)
  show ?thesis unfolding 1 2 using assms by (auto simp: name_valid_def memchr_def)
qed

lemma last_name_compare:
  assumes ok: "last_name_ok it" and ne: "name \<noteq> []"
  defines "n \<equiv> min (di_last_dir_name_size it) (length name)"
  defines "b \<equiv> (case di_last_dir_name it of None \<Rightarrow> [] | Some b \<Rightarrow> b)"
  shows "ord_class.lexordp (last_name it) name \<longleftrightarrow>
    \<not> (n \<noteq> 0 \<and> (0 < memcmp n b name \<or> memcmp n b name = 0 \<and> length name \<le> di_last_dir_name_size it))"
    and "n \<le> length b"
proof -
  have le: "di_last_dir_name_size it \<le> length b"
    using ok by (auto simp: last_name_ok_def b_def split: option.splits)
  then show "n \<le> length b" by (simp add: n_def)
  have l: "last_name it = take (di_last_dir_name_size it) b" by (simp add: last_name_def b_def)
  show "ord_class.lexordp (last_name it) name \<longleftrightarrow>
    \<not> (n \<noteq> 0 \<and> (0 < memcmp n b name \<or> memcmp n b name = 0 \<and> length name \<le> di_last_dir_name_size it))"
  proof (cases "di_last_dir_name_size it = 0")
    case True
    then show ?thesis using ne by (cases name) (auto simp: l n_def)
  next
    case False
    have len: "length (last_name it) = di_last_dir_name_size it" using le by (simp add: l)
    then have "min (length (last_name it)) (length name) = n" by (simp add: n_def)
    then have "ord_class.lexordp (last_name it) name \<longleftrightarrow>
      memcmp n (last_name it) name < 0 \<or>
      memcmp n (last_name it) name = 0 \<and> di_last_dir_name_size it < length name"
      using memcmp_less [of "last_name it" name] by (simp only: len)
    moreover have "memcmp n (last_name it) name = memcmp n b name"
      unfolding l by (rule memcmp_take) (simp add: n_def)
    moreover have "n \<noteq> 0" using False ne by (simp add: n_def)
    ultimately show ?thesis by auto
  qed
qed

lemma divide_ceil_64: "n \<le> divide_ceil n 64 * 64"
  by (simp add: divide_ceil_def) presburger

text \<open>The checks succeed exactly for a valid type and a valid name behind the last one.\<close>

definition entry_acceptable where
  "entry_acceptable env it \<longleftrightarrow>
     sqsh_directory_iterator_file_type env it \<noteq> None \<and> name_valid (entry_name env it) \<and>
     ord_class.lexordp (last_name it) (entry_name env it)"

lemma nested_checks:
  assumes "\<not> f1" "\<not> f2" "a \<longleftrightarrow> \<not> t \<and> (\<not> c1 \<and> \<not> c2 \<and> \<not> c3 \<and> \<not> c4) \<and> \<not> c5"
  shows "(if t then e else if f1 then g else if c1 then e else if c2 then e else if c3 then e else if c4 then e
    else if f2 then g else if c5 then e else r) = (if \<not> a then e else r)"
  using assms by simp

lemma check_entry_result:
  assumes ok: "last_name_ok it" and ld: "entry_loaded env it"
    and eq: "check_entry_consistency env mem it = (rv, it')"
  shows "safe_rv rv" "rv = Ok \<Longrightarrow> entry_acceptable env it"
    "entry_acceptable env it \<Longrightarrow> \<forall>n. mem n \<Longrightarrow> rv = Ok"
    "rv = Ok \<Longrightarrow> last_name_ok it' \<and> last_name it' = entry_name env it \<and>
      (\<exists>c m b. it' = it\<lparr>di_last_dir_name_capacity := c, di_last_dir_name_size := m, di_last_dir_name := b\<rparr>)"
    "\<forall>n. mem n \<Longrightarrow> rv \<noteq> Ok \<Longrightarrow> rv = Err SQSH_ERROR_CORRUPTED_DIRECTORY_ENTRY"
proof -
  let ?name = "entry_name env it" and ?n = "di_last_dir_name_size it"
  define b where "b = (case di_last_dir_name it of None \<Rightarrow> [] | Some b \<Rightarrow> b)"
  define cs where "cs = min ?n (length ?name)"
  define cap where "cap = divide_ceil (length ?name) 64 * 64"
  define grow where "grow = (di_last_dir_name_capacity it < length ?name)"
  define buf where "buf = (if grow then replicate cap 0 else b)"
  note N = entry_loaded_name [OF ld]
  have ne: "?name \<noteq> []" using N(2) by auto
  note L = last_name_compare [OF ok ne, folded b_def cs_def]
  note V = name_valid_checks [OF ne]
  have bl: "length b = di_last_dir_name_capacity it"
    using ok by (auto simp: last_name_ok_def b_def split: option.splits)
  have bufl: "length ?name \<le> length buf"
    using divide_ceil_64 [of "length ?name"] bl by (auto simp: buf_def cap_def grow_def)
  have main: "check_entry_consistency env mem it =
    (if \<not> entry_acceptable env it then (Err SQSH_ERROR_CORRUPTED_DIRECTORY_ENTRY, it)
     else if grow \<and> \<not> mem cap then (Err SQSH_ERROR_MALLOC_FAILED, it\<lparr>di_last_dir_name := None\<rparr>)
     else (Ok, it\<lparr>di_last_dir_name_capacity := if grow then cap else di_last_dir_name_capacity it,
       di_last_dir_name_size := length ?name,
       di_last_dir_name := Some (?name @ drop (length ?name) buf)\<rparr>))"
  proof -
    have 1: "\<not> length ?name < length ?name" by simp
    have 2: "\<not> (cs \<noteq> 0 \<and> length b < cs)" using L(2) by simp
    note 3 = entry_acceptable_def [of env it, unfolded V L(1) sqsh_directory_iterator_file_type_def]
    show ?thesis unfolding check_entry_consistency_def N(1) prod.case Let_def
      b_def [symmetric] cs_def [symmetric] cap_def [symmetric] grow_def [symmetric] buf_def [symmetric]
      nested_checks [OF 1 2 3]
      using bufl by simp
  qed
  show "safe_rv rv" "rv = Ok \<Longrightarrow> entry_acceptable env it"
    "entry_acceptable env it \<Longrightarrow> \<forall>n. mem n \<Longrightarrow> rv = Ok"
    "\<forall>n. mem n \<Longrightarrow> rv \<noteq> Ok \<Longrightarrow> rv = Err SQSH_ERROR_CORRUPTED_DIRECTORY_ENTRY"
    using eq main by (auto split: if_splits)
  assume "rv = Ok"
  then have it': "it' = it\<lparr>di_last_dir_name_capacity := if grow then cap else di_last_dir_name_capacity it,
       di_last_dir_name_size := length ?name,
       di_last_dir_name := Some (?name @ drop (length ?name) buf)\<rparr>"
    using eq main by (auto split: if_splits)
  have "length buf = (if grow then cap else di_last_dir_name_capacity it)" using bl by (simp add: buf_def)
  then have "last_name_ok it' \<and> last_name it' = entry_name env it"
    using bufl unfolding it' by (auto simp: last_name_ok_def last_name_def)
  moreover have "\<exists>c m b. it' = it\<lparr>di_last_dir_name_capacity := c, di_last_dir_name_size := m, di_last_dir_name := b\<rparr>"
    unfolding it' by (intro exI) (rule refl)
  ultimately show "last_name_ok it' \<and> last_name it' = entry_name env it \<and>
      (\<exists>c m b. it' = it\<lparr>di_last_dir_name_capacity := c, di_last_dir_name_size := m, di_last_dir_name := b\<rparr>)"
    by blast
qed

text \<open>The number of the inode, as the entry and its run give it.\<close>

definition entry_inode :: "('c, 'b, 'e) sqsh_env \<Rightarrow> ('u, 'c, 'b, 'e, 'x) directory_iterator \<Rightarrow> int" where
  "entry_inode env it = int (di_inode_base it) + sqsh__data_directory_entry_inode_offset (get_entry env it)"

lemma finalize_result:
  assumes ok: "directory_iterator_sane env se ee src it" and ld: "entry_loaded env it"
    and eq: "directory_iterator_next_finalize env mem it = (rv, it')"
  shows "safe_rv rv"
    "rv = Ok \<Longrightarrow> entry_acceptable env it \<and> 0 < entry_inode env it \<and> entry_inode env it < 2 ^ 32"
    "entry_acceptable env it \<Longrightarrow> 0 < entry_inode env it \<Longrightarrow> entry_inode env it < 2 ^ 32 \<Longrightarrow>
      \<forall>n. mem n \<Longrightarrow> rv = Ok"
    "rv = Ok \<Longrightarrow> directory_iterator_sane env se ee src it' \<and> entry_loaded env it' \<and>
      entry_name env it' = entry_name env it \<and> last_name it' = entry_name env it \<and>
      int (di_current_inode it') = entry_inode env it \<and>
      di_remaining_size it' = di_remaining_size it \<and> di_remaining_entries it' = di_remaining_entries it \<and>
      di_next_offset it' = di_next_offset it \<and> di_metablock it' = di_metablock it \<and>
      di_start_base it' = di_start_base it \<and> di_inode_base it' = di_inode_base it \<and>
      di_file it' = di_file it"
    "\<forall>n. mem n \<Longrightarrow> rv \<noteq> Ok \<Longrightarrow> rv = Err SQSH_ERROR_CORRUPTED_DIRECTORY_ENTRY"
proof -
  have lo: "last_name_ok it" using ok by (simp add: directory_iterator_sane_def)
  obtain r1 j where c: "check_entry_consistency env mem it = (r1, j)" by fastforce
  note C = check_entry_result [OF lo ld c]
  have fin: "(rv, it') = (if r1 \<noteq> Ok then (r1, j) else update_inode env j)"
    using eq c by (simp add: directory_iterator_next_finalize_def)
  have ej: "entry_inode env j = entry_inode env it" if "r1 = Ok"
    using C(4) [OF that] by (auto simp: entry_inode_def get_entry_def)
  have up: "update_inode env j = (if entry_inode env j \<le> 0 \<or> 2 ^ 32 \<le> entry_inode env j
    then (Err SQSH_ERROR_CORRUPTED_DIRECTORY_ENTRY, j)
    else (Ok, j\<lparr>di_current_inode := nat (entry_inode env j)\<rparr>))"
    by (auto simp: update_inode_def entry_inode_def Let_def)
  show "safe_rv rv"
    "rv = Ok \<Longrightarrow> entry_acceptable env it \<and> 0 < entry_inode env it \<and> entry_inode env it < 2 ^ 32"
    "entry_acceptable env it \<Longrightarrow> 0 < entry_inode env it \<Longrightarrow> entry_inode env it < 2 ^ 32 \<Longrightarrow>
      \<forall>n. mem n \<Longrightarrow> rv = Ok"
    "\<forall>n. mem n \<Longrightarrow> rv \<noteq> Ok \<Longrightarrow> rv = Err SQSH_ERROR_CORRUPTED_DIRECTORY_ENTRY"
    using fin C(1-3,5) ej up by (auto split: if_splits)
  assume "rv = Ok"
  then have r: "r1 = Ok" "0 < entry_inode env it" "it' = j\<lparr>di_current_inode := nat (entry_inode env it)\<rparr>"
    using fin ej up by (auto split: if_splits)
  obtain cc m b where j: "j = it\<lparr>di_last_dir_name_capacity := cc, di_last_dir_name_size := m, di_last_dir_name := b\<rparr>"
    "last_name_ok j" "last_name j = entry_name env it" using C(4) [OF r(1)] by blast
  have "last_name_ok it'" "last_name it' = entry_name env it" using j(2,3) r(3) by simp_all
  moreover have "get_entry env it' = get_entry env it" using j(1) r(3) by (simp add: get_entry_def)
  then have "entry_loaded env it' = entry_loaded env it" "entry_name env it' = entry_name env it"
    by (simp_all add: entry_loaded_def entry_name_def sqsh_directory_iterator_name2_def)
  ultimately show "directory_iterator_sane env se ee src it' \<and> entry_loaded env it' \<and>
      entry_name env it' = entry_name env it \<and> last_name it' = entry_name env it \<and>
      int (di_current_inode it') = entry_inode env it \<and>
      di_remaining_size it' = di_remaining_size it \<and> di_remaining_entries it' = di_remaining_entries it \<and>
      di_next_offset it' = di_next_offset it \<and> di_metablock it' = di_metablock it \<and>
      di_start_base it' = di_start_base it \<and> di_inode_base it' = di_inode_base it \<and>
      di_file it' = di_file it"
    using ok ld r j(1) by (simp add: directory_iterator_sane_def)
qed

section \<open>Going through a directory\<close>

lemma directory_iterator_next_safe:
  assumes S: "directory_iterator_sane env se ee src it"
    and eq: "directory_iterator_next env it = (b, rv, it')"
  shows "safe_rv rv" "b \<Longrightarrow> rv = Ok"
    "b \<Longrightarrow> directory_iterator_sane env se ee src it' \<and> entry_loaded env it' \<and>
      di_remaining_size it' + 9 \<le> di_remaining_size it \<and> di_file it' = di_file it \<and>
      last_name it' = last_name it"
    "\<not> b \<Longrightarrow> rv = Ok \<Longrightarrow> di_remaining_size it = 0 \<and> it' = it"
proof -
  have "safe_rv rv \<and> (b \<longrightarrow> rv = Ok) \<and>
    (b \<longrightarrow> directory_iterator_sane env se ee src it' \<and> entry_loaded env it' \<and>
      di_remaining_size it' + 9 \<le> di_remaining_size it \<and> di_file it' = di_file it \<and>
      last_name it' = last_name it) \<and>
    (\<not> b \<longrightarrow> rv = Ok \<longrightarrow> di_remaining_size it = 0 \<and> it' = it)"
  proof (cases "di_remaining_size it = 0")
    case True
    then show ?thesis using eq by (auto simp: directory_iterator_next_def)
  next
    case nz: False
    show ?thesis
    proof (cases "di_remaining_entries it = 0")
      case True
      obtain r1 j where p: "process_fragment env it = (r1, j)" by fastforce
      note P = process_fragment_safe [OF S p]
      show ?thesis
      proof (cases "r1 = Ok")
        case False
        then show ?thesis using eq nz True p P by (simp add: directory_iterator_next_def)
      next
        case ok: True
        then have l: "load_entry env j = (b, rv, it')"
          using eq nz True p by (simp add: directory_iterator_next_def)
        have Sj: "directory_iterator_sane env se ee src j" using P ok by simp
        show ?thesis using load_entry_safe [OF Sj l] P ok entry_loaded_name(2) [of env it'] by (auto simp: Suc_le_eq)
      qed
    next
      case False
      let ?j = "it\<lparr>di_remaining_entries := di_remaining_entries it - 1\<rparr>"
      have l: "load_entry env ?j = (b, rv, it')"
        using eq nz False by (simp add: directory_iterator_next_def)
      have Sj: "directory_iterator_sane env se ee src ?j" using S by (simp add: directory_iterator_sane_def less_imp_diff_less)
      show ?thesis using load_entry_safe [OF Sj l] entry_loaded_name(2) [of env it'] by (auto simp: Suc_le_eq)
    qed
  qed
  then show "safe_rv rv" "b \<Longrightarrow> rv = Ok"
    "b \<Longrightarrow> directory_iterator_sane env se ee src it' \<and> entry_loaded env it' \<and>
      di_remaining_size it' + 9 \<le> di_remaining_size it \<and> di_file it' = di_file it \<and>
      last_name it' = last_name it"
    "\<not> b \<Longrightarrow> rv = Ok \<Longrightarrow> di_remaining_size it = 0 \<and> it' = it" by simp_all
qed

lemma sqsh_directory_iterator_next_safe:
  assumes S: "directory_iterator_sane env se ee src it"
    and eq: "sqsh_directory_iterator_next env mem it = (b, rv, it')"
  shows "safe_rv rv" "b \<Longrightarrow> rv = Ok"
    "b \<Longrightarrow> directory_iterator_sane env se ee src it' \<and> entry_loaded env it' \<and>
      di_remaining_size it' + 9 \<le> di_remaining_size it \<and> di_file it' = di_file it \<and>
      name_valid (entry_name env it') \<and> ord_class.lexordp (last_name it) (entry_name env it') \<and>
      last_name it' = entry_name env it' \<and> sqsh_directory_iterator_file_type env it' \<noteq> None \<and>
      0 < di_current_inode it' \<and> di_current_inode it' < 2 ^ 32"
proof -
  obtain b1 r1 j where n: "directory_iterator_next env it = (b1, r1, j)" by (rule prod_cases3)
  note N = directory_iterator_next_safe [OF S n]
  obtain r2 k where f: "directory_iterator_next_finalize env mem j = (r2, k)" by fastforce
  have main: "(b, rv, it') = (if b1 then (r2 = Ok, r2, k) else (False, r1, j))"
    using eq n f by (auto simp: sqsh_directory_iterator_next_def split: if_splits)
  show "safe_rv rv" "b \<Longrightarrow> rv = Ok"
    using main N(1) finalize_result(1) [OF conjunct1 [OF N(3)] _ f] N(3) by (auto split: if_splits)
  assume b
  then have o: b1 "r2 = Ok" "it' = k" using main by (auto split: if_splits)
  have Sj: "directory_iterator_sane env se ee src j" "entry_loaded env j" using N(3) o(1) by auto
  have "get_entry env k = get_entry env j" using finalize_result(4) [OF Sj f o(2)] by (simp add: get_entry_def)
  then have "sqsh_directory_iterator_file_type env k = sqsh_directory_iterator_file_type env j"
    by (simp add: sqsh_directory_iterator_file_type_def)
  then show "directory_iterator_sane env se ee src it' \<and> entry_loaded env it' \<and>
      di_remaining_size it' + 9 \<le> di_remaining_size it \<and> di_file it' = di_file it \<and>
      name_valid (entry_name env it') \<and> ord_class.lexordp (last_name it) (entry_name env it') \<and>
      last_name it' = entry_name env it' \<and> sqsh_directory_iterator_file_type env it' \<noteq> None \<and>
      0 < di_current_inode it' \<and> di_current_inode it' < 2 ^ 32"
    using finalize_result(2,4) [OF Sj f o(2)] N(3) [OF o(1)] o(3) by (auto simp: entry_acceptable_def)
qed

section \<open>Starting at a directory\<close>

lemma directory_offset_bound:
  assumes "file_sane env se ee src ar f"
  shows "sqsh_file_directory_block_offset2 env f < 2 ^ 16"
proof -
  have k: "file_impl env f \<in> inode_kinds"
    using assms inode_impl_kind by (auto simp: file_sane_def file_impl_def get_impl_def)
  have "ii_directory_block_offset impl s < 2 ^ 16" if "impl \<in> inode_kinds" for impl s
    using that get_le_bound [of 2 10 "drop 16 s"] get_le_bound [of 2 18 "drop 16 s"]
    unfolding inode_kinds_def
    by (elim insertE emptyE; hypsubst; simp add: inode_impl_defs inode_accessor_defs inode_get_defs inode_sizes UINT16_MAX_def)
  then show ?thesis using k by (simp add: sqsh_file_directory_block_offset2_def)
qed

text \<open>The blocks that the reader of a directory goes through, and where the listing starts.\<close>

definition directory_address where
  "directory_address env ar f =
     sqsh_superblock_directory_table_start env (ar_superblock ar) + sqsh_file_directory_block_start env f"

lemma directory_iterator_init_correct:
  assumes inv: "archive_inv env se ee src ar" and f: "file_sane env se ee src ar f"
    and eq: "sqsh__directory_iterator_init env ar it0 f = (rv, it)"
  shows "safe_rv rv"
    "rv = Ok \<Longrightarrow> directory_iterator_sane env se ee src it \<and> last_name it = [] \<and> di_file it = f \<and>
      sqsh_file_size env f = di_remaining_size it + 3 \<and> di_remaining_entries it = 0 \<and>
      metablock_reader_at env se ee src (ar_chain env src ar) (directory_address env ar f) (di_metablock it) 0 \<and>
      rd_iterator_offset (di_metablock it) = 0 \<and> sqsh__metablock_reader_size (di_metablock it) = 0 \<and>
      di_next_offset it = sqsh_file_directory_block_offset2 env f"
    "archive_live env src ar \<Longrightarrow> sqsh_file_type env f = Some SQSH_FILE_TYPE_DIRECTORY \<Longrightarrow>
      3 \<le> sqsh_file_size env f \<Longrightarrow> sqsh_file_size env f < 2 ^ 32 \<Longrightarrow>
      directory_address env ar f < length (ar_bytes src ar) \<Longrightarrow>
      rv = Ok \<and> metablock_live env src (rd_iterator (di_metablock it))"
proof -
  let ?start = "directory_address env ar f" and ?size = "sqsh_file_size env f"
  have ok: "archive_ok env se ee src ar" using inv by (simp add: archive_inv_def)
  have len: "length (ar_bytes src ar) < 2 ^ 64" using ok by (simp add: archive_ok_def)
  obtain r1 r where i: "sqsh__metablock_reader_init env (ar_map_manager ar) (ar_metablock_manager ar) ?start
    (get_upper_limit env (ar_superblock ar))
    (zero_metablock_reader env (ar_map_manager ar) (ar_metablock_manager ar)) = (r1, r)" by fastforce
  define it2 where "it2 = (zero_directory_iterator env ar f)\<lparr>di_remaining_size := ?size - 3,
    di_next_offset := sqsh_file_directory_block_offset2 env f, di_remaining_entries := 0, di_metablock := r\<rparr>"
  have main: "if sqsh_file_type env f = Some SQSH_FILE_TYPE_DIRECTORY \<and> 3 \<le> ?size \<and> ?size - 3 < 2 ^ 32
      \<and> ?start < 2 ^ 64 then (rv, it) = (r1, it2) else safe_rv rv \<and> rv \<noteq> Ok"
    using eq i
    by (auto simp: sqsh__directory_iterator_init_def sub_overflow_def load_metablock_def add_overflow_def
        zero_directory_iterator_def it2_def directory_address_def Let_def split: if_splits prod.splits)
  note I = archive_reader_init [OF ok _ i]
  show "safe_rv rv" using main I by (auto split: if_splits)
  show "rv = Ok \<and> metablock_live env src (rd_iterator (di_metablock it))"
    if "archive_live env src ar" "sqsh_file_type env f = Some SQSH_FILE_TYPE_DIRECTORY"
      "3 \<le> ?size" "?size < 2 ^ 32" "?start < length (ar_bytes src ar)"
    using main I that len by (auto simp: it2_def split: if_splits)
  assume "rv = Ok"
  then have m: "3 \<le> ?size" "?size - 3 < 2 ^ 32" "?start < 2 ^ 64" "r1 = Ok" "it = it2"
    using main by (auto split: if_splits)
  note J = I [OF m(3)]
  have "metablock_reader_sane env se ee src r" using J m(4) by (auto simp: metablock_reader_sane_def)
  moreover have "sqsh_file_directory_block_offset2 env f < 2 ^ 32"
    using directory_offset_bound [OF f] by simp
  ultimately have "directory_iterator_sane env se ee src it"
    using J m by (simp add: directory_iterator_sane_def it2_def zero_directory_iterator_def last_name_ok_def)
  moreover have "last_name it = []" using m(5) by (simp add: last_name_def it2_def zero_directory_iterator_def)
  ultimately show "directory_iterator_sane env se ee src it \<and> last_name it = [] \<and> di_file it = f \<and>
      sqsh_file_size env f = di_remaining_size it + 3 \<and> di_remaining_entries it = 0 \<and>
      metablock_reader_at env se ee src (ar_chain env src ar) (directory_address env ar f) (di_metablock it) 0 \<and>
      rd_iterator_offset (di_metablock it) = 0 \<and> sqsh__metablock_reader_size (di_metablock it) = 0 \<and>
      di_next_offset it = sqsh_file_directory_block_offset2 env f"
    using m J by (simp add: it2_def zero_directory_iterator_def)
qed

text \<open>
  What a caller sees of an entry, and the loop with which callers go through a directory:
  \<^verbatim>\<open>while (sqsh_directory_iterator_next(it, &err))\<close>.
\<close>

record directory_entry =
  en_name :: "byte list"
  en_inode_ref :: nat
  en_inode :: nat
  en_type :: "sqsh_file_type option"

definition current_entry where
  "current_entry env it = \<lparr>en_name = sqsh_directory_iterator_name env it,
     en_inode_ref = sqsh_directory_iterator_inode_ref env it,
     en_inode = sqsh_directory_iterator_inode it,
     en_type = sqsh_directory_iterator_file_type env it\<rparr>"

primrec directory_entries ::
  "nat \<Rightarrow> ('c, 'b, 'e) sqsh_env \<Rightarrow> (nat \<Rightarrow> bool) \<Rightarrow> ('u, 'c, 'b, 'e, 'x) directory_iterator \<Rightarrow>
   rv \<times> directory_entry list" where
  "directory_entries 0 env mem it = (Diverge, [])"
| "directory_entries (Suc fuel) env mem it =
     (case sqsh_directory_iterator_next env mem it of (has_next, rv, it) \<Rightarrow>
        if \<not> has_next then (rv, [])
        else case directory_entries fuel env mem it of
          (rv, entries) \<Rightarrow> (rv, current_entry env it # entries))"

text \<open>An entry takes at least nine bytes, which bounds the rounds of the loop.\<close>

definition list_directory ::
  "('c, 'b, 'e) sqsh_env \<Rightarrow> (nat \<Rightarrow> bool) \<Rightarrow> ('u, 'c, 'b, 'e, 'x, 'h) sqsh_archive \<Rightarrow>
   ('u, 'c, 'b, 'e, 'x) sqsh_file \<Rightarrow> rv \<times> directory_entry list" where
  "list_directory env mem archive file =
     (case sqsh_directory_iterator_new env archive file of
        (rv, None) \<Rightarrow> (rv, [])
      | (rv, Some it) \<Rightarrow> directory_entries (Suc (sqsh_file_size env file div 9)) env mem it)"

lemma current_entry_name:
  assumes "entry_loaded env it"
  shows "en_name (current_entry env it) = entry_name env it"
  by (simp add: current_entry_def sqsh_directory_iterator_name_def entry_loaded_name [OF assms])

definition entry_valid :: "directory_entry \<Rightarrow> bool" where
  "entry_valid e \<longleftrightarrow> name_valid (en_name e) \<and> length (en_name e) \<le> 2 ^ 16 \<and> en_type e \<noteq> None \<and>
     0 < en_inode e \<and> en_inode e < 2 ^ 32"

lemma directory_entries_safe:
  assumes "directory_iterator_sane env se ee src it" "di_remaining_size it div 9 < fuel"
    and "directory_entries fuel env mem it = (rv, es)"
  shows "safe_rv rv \<and> 9 * length es \<le> di_remaining_size it \<and> list_all entry_valid es \<and>
    sorted_wrt ord_class.lexordp (last_name it # map en_name es)"
  using assms
proof (induction fuel arbitrary: it rv es)
  case (Suc fuel)
  obtain b r1 j where n: "sqsh_directory_iterator_next env mem it = (b, r1, j)" by (rule prod_cases3)
  note N = sqsh_directory_iterator_next_safe [OF Suc.prems(1) n]
  show ?case
  proof (cases b)
    case False
    then show ?thesis using Suc.prems n N(1) by auto
  next
    case True
    obtain r2 es' where r: "directory_entries fuel env mem j = (r2, es')" by fastforce
    have e: "rv = r2" "es = current_entry env j # es'" using Suc.prems(3) n True r by auto
    note J = N(3) [OF True]
    have Sj: "directory_iterator_sane env se ee src j" and ld: "entry_loaded env j" using J by auto
    have "di_remaining_size j div 9 < fuel" using J Suc.prems(2) by linarith
    note IH = Suc.IH [OF Sj this r]
    have nm: "en_name (current_entry env j) = entry_name env j" by (rule current_entry_name [OF ld])
    have val: "entry_valid (current_entry env j)"
      using J entry_loaded_name(3) [OF ld] nm
      by (simp add: entry_valid_def current_entry_def sqsh_directory_iterator_inode_def)
    have lt: "ord_class.lexordp (last_name it) (entry_name env j)" "last_name j = entry_name env j"
      using J by auto
    then have "sorted_wrt ord_class.lexordp (last_name it # map en_name es)"
      using IH lexordp_trans [OF lt(1)] by (auto simp: e(2) nm)
    moreover have "9 * length es \<le> di_remaining_size it" using J IH e(2) by simp
    ultimately show ?thesis using IH val e by simp
  qed
qed simp

lemma list_directory_safe:
  assumes inv: "archive_inv env se ee src ar" and f: "file_sane env se ee src ar f"
    and eq: "list_directory env mem ar f = (rv, es)"
  shows "safe_rv rv \<and> 9 * length es \<le> sqsh_file_size env f \<and> list_all entry_valid es \<and>
    sorted_wrt ord_class.lexordp (map en_name es)"
proof -
  obtain r1 it where i: "sqsh__directory_iterator_init env ar (zero_directory_iterator env ar f) f = (r1, it)"
    by fastforce
  note I = directory_iterator_init_correct [OF inv f i]
  show ?thesis
  proof (cases "r1 = Ok")
    case False
    then show ?thesis using eq i I(1) by (simp add: list_directory_def sqsh_directory_iterator_new_def)
  next
    case True
    then have e: "directory_entries (Suc (sqsh_file_size env f div 9)) env mem it = (rv, es)"
      using eq i by (simp add: list_directory_def sqsh_directory_iterator_new_def)
    have S: "directory_iterator_sane env se ee src it" and z: "sqsh_file_size env f = di_remaining_size it + 3"
      using I(2) [OF True] by auto
    have "di_remaining_size it div 9 < Suc (sqsh_file_size env f div 9)"
      using z by (simp add: less_Suc_eq_le div_le_mono)
    from directory_entries_safe [OF S this e] z show ?thesis by auto
  qed
qed

end
