(* ===== verification/Sqsh_Listing.thy ===== *)
theory Sqsh_Listing
  imports Sqsh_Directory Sqsh_FileReader
begin

text \<open>
  The format of a listing as a list of runs, and what the directory iterator makes of it: the
  iterator is a list of the entries still to come, going through a directory gives the entries of the
  listing, and looking up a name finds its entry.
\<close>

unbundle bit_operations_syntax

section \<open>The format of a listing\<close>

record dirent =
  de_name :: "byte list"
  de_offset :: nat
  de_inode :: nat
  de_type :: sqsh_file_type

record dir_run =
  dr_start :: nat
  dr_base :: nat
  dr_entries :: "dirent list"

definition type_code :: "sqsh_file_type \<Rightarrow> nat" where
  "type_code t = (case t of
     SQSH_FILE_TYPE_DIRECTORY \<Rightarrow> SQSH_INODE_TYPE_BASIC_DIRECTORY
   | SQSH_FILE_TYPE_FILE \<Rightarrow> SQSH_INODE_TYPE_BASIC_FILE
   | SQSH_FILE_TYPE_SYMLINK \<Rightarrow> SQSH_INODE_TYPE_BASIC_SYMLINK
   | SQSH_FILE_TYPE_BLOCK \<Rightarrow> SQSH_INODE_TYPE_BASIC_BLOCK
   | SQSH_FILE_TYPE_CHAR \<Rightarrow> SQSH_INODE_TYPE_BASIC_CHAR
   | SQSH_FILE_TYPE_FIFO \<Rightarrow> SQSH_INODE_TYPE_BASIC_FIFO
   | SQSH_FILE_TYPE_SOCKET \<Rightarrow> SQSH_INODE_TYPE_BASIC_SOCKET)"

definition encode_dirent :: "nat \<Rightarrow> dirent \<Rightarrow> byte list" where
  "encode_dirent base e =
     le_bytes 2 (de_offset e) @ le_bytes 2 (nat ((int (de_inode e) - int base) mod 2 ^ 16)) @
     le_bytes 2 (type_code (de_type e)) @ le_bytes 2 (length (de_name e) - 1) @ de_name e"

definition encode_dirents :: "nat \<Rightarrow> dirent list \<Rightarrow> byte list" where
  "encode_dirents base es = concat (map (encode_dirent base) es)"

definition encode_run :: "dir_run \<Rightarrow> byte list" where
  "encode_run r =
     le_bytes 4 (length (dr_entries r) - 1) @ le_bytes 4 (dr_start r) @ le_bytes 4 (dr_base r) @
     encode_dirents (dr_base r) (dr_entries r)"

definition encode_listing :: "dir_run list \<Rightarrow> byte list" where
  "encode_listing rs = concat (map encode_run rs)"

definition dirent_ok :: "nat \<Rightarrow> dirent \<Rightarrow> bool" where
  "dirent_ok base e \<longleftrightarrow> name_valid (de_name e) \<and> length (de_name e) \<le> 2 ^ 16 \<and> de_offset e < 2 ^ 16 \<and>
     0 < de_inode e \<and> de_inode e < 2 ^ 32 \<and>
     - (2 ^ 15) \<le> int (de_inode e) - int base \<and> int (de_inode e) - int base < 2 ^ 15"

definition dir_run_ok :: "dir_run \<Rightarrow> bool" where
  "dir_run_ok r \<longleftrightarrow> dr_start r < 2 ^ 32 \<and> dr_base r < 2 ^ 32 \<and> dr_entries r \<noteq> [] \<and>
     length (dr_entries r) \<le> 2 ^ 32 \<and> list_all (dirent_ok (dr_base r)) (dr_entries r)"

definition entry_of :: "nat \<Rightarrow> dirent \<Rightarrow> directory_entry" where
  "entry_of start e = \<lparr>en_name = de_name e, en_inode_ref = sqsh_address_ref_create start (de_offset e),
     en_inode = de_inode e, en_type = Some (de_type e)\<rparr>"

definition run_entries :: "dir_run \<Rightarrow> directory_entry list" where
  "run_entries r = map (entry_of (dr_start r)) (dr_entries r)"

definition listing_entries :: "dir_run list \<Rightarrow> directory_entry list" where
  "listing_entries rs = concat (map run_entries rs)"

definition listing_ok :: "dir_run list \<Rightarrow> bool" where
  "listing_ok rs \<longleftrightarrow> list_all dir_run_ok rs \<and>
     sorted_wrt ord_class.lexordp (map en_name (listing_entries rs))"

lemma entry_file_type_code [simp]: "entry_file_type (type_code t) = Some t" "type_code t < 2 ^ 16"
  by (cases t; simp add: entry_file_type_def type_code_def inode_type_defs)+

lemma encode_listing_simps [simp]:
  "encode_dirents base [] = []" "encode_dirents base (e # es) = encode_dirent base e @ encode_dirents base es"
  "encode_listing [] = []" "encode_listing (r # rs) = encode_run r @ encode_listing rs"
  "listing_entries [] = []" "listing_entries (r # rs) = run_entries r @ listing_entries rs"
  by (simp_all add: encode_dirents_def encode_listing_def listing_entries_def)

lemma length_encode_dirent [simp]: "length (encode_dirent base e) = 8 + length (de_name e)"
  by (simp add: encode_dirent_def)

lemma get_le_le_bytes:
  assumes "length xs = off" "v < 256 ^ n"
  shows "get_le n off (xs @ le_bytes n v @ ys) = v"
  using assms by (simp add: get_le_def window_def le_nat_le_bytes)

lemma sint_delta:
  assumes "- (2 ^ 15) \<le> d" "d < (2 ^ 15 :: int)"
  shows "sint (word_of_nat (nat (d mod 2 ^ 16)) :: 16 word) = d"
proof -
  have "(word_of_nat (nat (d mod 2 ^ 16)) :: 16 word) = word_of_int (d mod 2 ^ 16)" by simp
  also have "\<dots> = word_of_int d"
    by (simp add: word_of_int_eq_iff take_bit_eq_mod)
  finally show ?thesis using assms
    by (simp add: signed_take_bit_int_eq_self_iff sint_sbintrunc')
qed

text \<open>What the accessors read of an encoded entry and of the header of a run.\<close>

lemma dirent_fields:
  assumes ok: "dirent_ok base e"
  shows "sqsh__data_directory_entry_offset (encode_dirent base e) = de_offset e"
    "sqsh__data_directory_entry_inode_offset (encode_dirent base e) = int (de_inode e) - int base"
    "sqsh__data_directory_entry_type (encode_dirent base e) = type_code (de_type e)"
    "sqsh__data_directory_entry_name_size (encode_dirent base e @ rest) + 1 = length (de_name e)"
    "sqsh__data_directory_entry_name (encode_dirent base e) = de_name e"
proof -
  let ?d = "nat ((int (de_inode e) - int base) mod 2 ^ 16)"
  have d: "?d < 2 ^ 16" by (simp add: nat_less_iff)
  have n: "0 < length (de_name e)" "length (de_name e) \<le> 2 ^ 16" using ok by (auto simp: dirent_ok_def name_valid_def)
  show "sqsh__data_directory_entry_offset (encode_dirent base e) = de_offset e"
    using ok get_le_le_bytes [of "[]" 0 "de_offset e" 2]
    by (simp add: sqsh__data_directory_entry_offset_def encode_dirent_def dirent_ok_def)
  have "get_le 2 2 (encode_dirent base e) = ?d"
    using d get_le_le_bytes [of "le_bytes 2 (de_offset e)" 2 ?d 2] by (simp add: encode_dirent_def)
  then show "sqsh__data_directory_entry_inode_offset (encode_dirent base e) = int (de_inode e) - int base"
    using sint_delta ok by (simp add: sqsh__data_directory_entry_inode_offset_def dirent_ok_def)
  show "sqsh__data_directory_entry_type (encode_dirent base e) = type_code (de_type e)"
    using get_le_le_bytes [of "le_bytes 2 (de_offset e) @ le_bytes 2 ?d" 4 "type_code (de_type e)" 2]
      entry_file_type_code(2) [of "de_type e"]
    by (simp add: sqsh__data_directory_entry_type_def encode_dirent_def)
  show "sqsh__data_directory_entry_name_size (encode_dirent base e @ rest) + 1 = length (de_name e)"
    using n get_le_le_bytes [of "le_bytes 2 (de_offset e) @ le_bytes 2 ?d @ le_bytes 2 (type_code (de_type e))" 6
        "length (de_name e) - 1" 2]
    by (simp add: sqsh__data_directory_entry_name_size_def encode_dirent_def)
  show "sqsh__data_directory_entry_name (encode_dirent base e) = de_name e"
    by (simp add: sqsh__data_directory_entry_name_def encode_dirent_def sizeof_SqshDataDirectoryEntry_def)
qed

definition run_header :: "dir_run \<Rightarrow> byte list" where
  "run_header r = le_bytes 4 (length (dr_entries r) - 1) @ le_bytes 4 (dr_start r) @ le_bytes 4 (dr_base r)"

lemma run_fields:
  assumes ok: "dir_run_ok r"
  shows "encode_run r = run_header r @ encode_dirents (dr_base r) (dr_entries r)" "length (run_header r) = 12"
    "sqsh__data_directory_fragment_count (run_header r) = length (dr_entries r) - 1"
    "sqsh__data_directory_fragment_start (run_header r) = dr_start r"
    "sqsh__data_directory_fragment_inode_number (run_header r) = dr_base r"
proof -
  have n: "length (dr_entries r) - 1 < 256 ^ 4"
    using ok by (cases "dr_entries r") (auto simp: dir_run_ok_def)
  show "encode_run r = run_header r @ encode_dirents (dr_base r) (dr_entries r)" "length (run_header r) = 12"
    "sqsh__data_directory_fragment_count (run_header r) = length (dr_entries r) - 1"
    "sqsh__data_directory_fragment_start (run_header r) = dr_start r"
    "sqsh__data_directory_fragment_inode_number (run_header r) = dr_base r"
  using ok get_le_le_bytes [OF _ n, of "[]" 0]
    get_le_le_bytes [of "le_bytes 4 (length (dr_entries r) - 1)" 4 "dr_start r" 4]
    get_le_le_bytes [of "le_bytes 4 (length (dr_entries r) - 1) @ le_bytes 4 (dr_start r)" 8 "dr_base r" 4 "[]"]
  by (simp_all add: run_header_def encode_run_def dir_run_ok_def
      sqsh__data_directory_fragment_count_def sqsh__data_directory_fragment_start_def
      sqsh__data_directory_fragment_inode_number_def)
qed

lemma length_encode_dirents: "list_all (dirent_ok base) es \<Longrightarrow> 9 * length es \<le> length (encode_dirents base es)"
proof (induction es)
  case (Cons e es)
  then have "1 \<le> length (de_name e)" by (auto simp: dirent_ok_def name_valid_def Suc_le_eq)
  moreover have "9 * length es \<le> length (encode_dirents base es)" using Cons by simp
  ultimately show ?case by simp
qed simp

section \<open>Bytes at a place of a chain\<close>

definition bytes_at :: "byte list list \<Rightarrow> nat \<Rightarrow> byte list \<Rightarrow> bool" where
  "bytes_at blocks pos bs \<longleftrightarrow> window pos (length bs) (concat blocks) = bs \<and>
     (bs \<noteq> [] \<longrightarrow> chain_reaches blocks (pos + length bs - 1))"

lemma chain_reaches_le: "chain_reaches cs off \<Longrightarrow> off' \<le> off \<Longrightarrow> chain_reaches cs off'"
proof (induction cs off arbitrary: off' rule: chain_reaches.induct)
  case (2 c cs off)
  show ?case
  proof (cases "off' < min 8192 (length c)")
    case False
    then have "length c = 8192" "8192 \<le> off" "chain_reaches cs (off - 8192)" "8192 \<le> off'" using 2 by auto
    then show ?thesis using 2(1) [of "off' - 8192"] 2(3) by auto
  qed simp
qed simp

lemma bytes_at_append:
  assumes "bytes_at blocks pos (xs @ ys)"
  shows "bytes_at blocks pos xs" "bytes_at blocks (pos + length xs) ys"
proof -
  have w: "window pos (length xs + length ys) (concat blocks) = xs @ ys" using assms by (simp add: bytes_at_def)
  have "take (length xs) (window pos (length xs + length ys) (concat blocks)) = xs"
    "drop (length xs) (window pos (length xs + length ys) (concat blocks)) = ys" unfolding w by simp_all
  moreover have "chain_reaches blocks (pos + length xs - 1)" if "xs \<noteq> []"
    using assms that chain_reaches_le [of blocks "pos + length (xs @ ys) - 1"] by (simp add: bytes_at_def)
  moreover have "chain_reaches blocks (pos + length xs + length ys - 1)" if "ys \<noteq> []"
    using assms that by (simp add: bytes_at_def add.assoc)
  ultimately show "bytes_at blocks pos xs" "bytes_at blocks (pos + length xs) ys"
    by (simp_all add: bytes_at_def drop_window)
qed

lemma bytes_atD:
  assumes "bytes_at blocks pos bs" "bs \<noteq> []"
  shows "chain_reaches blocks pos" "pos + length bs \<le> length (concat blocks)"
proof -
  have r: "chain_reaches blocks (pos + length bs - 1)" using assms by (simp add: bytes_at_def)
  have n: "0 < length bs" using assms(2) by simp
  show "chain_reaches blocks pos" by (rule chain_reaches_le [OF r]) (use n in linarith)
  show "pos + length bs \<le> length (concat blocks)" using chain_reaches_bound [OF r] n by linarith
qed
section \<open>The iterator as a list of entries still to come\<close>

definition reader_position where
  "reader_position env se ee src B base it p \<longleftrightarrow>
     (\<exists>q. metablock_reader_at env se ee src B base (di_metablock it) q \<and> p = q + di_next_offset it)"

lemma load_entry_at:
  assumes S: "directory_iterator_sane env se ee src it"
    and at: "reader_position env se ee src B base it p"
    and bs: "bytes_at (B base) p (encode_dirent ib e @ ys)" and e: "dirent_ok ib e"
    and z: "di_remaining_size it = length (encode_dirent ib e @ ys)"
    and eq: "load_entry env it = (b, rv, it')"
  shows "b \<Longrightarrow> get_entry env it' = encode_dirent ib e \<and> di_remaining_size it' = length ys \<and>
      reader_position env se ee src B base it' (p + length (encode_dirent ib e))"
    "cx_buffer_total (env_buf env) \<Longrightarrow> metablock_live env src (rd_iterator (di_metablock it)) \<Longrightarrow>
      b \<and> metablock_live env src (rd_iterator (di_metablock it'))"
proof -
  let ?xs = "encode_dirent ib e" and ?n = "length (de_name e)"
  obtain q where q: "metablock_reader_at env se ee src B base (di_metablock it) q" "p = q + di_next_offset it"
    using at by (auto simp: reader_position_def)
  have io: "rd_iterator_offset (di_metablock it) \<le> di_next_offset it"
    using S by (simp add: directory_iterator_sane_def)
  have n: "0 < ?n" "?n \<le> 2 ^ 16" using e by (auto simp: dirent_ok_def name_valid_def)
  have bx: "bytes_at (B base) p ?xs" by (rule bytes_at_append [OF bs])
  have ne: "?xs \<noteq> []" using length_encode_dirent [of ib e] by (auto simp del: length_encode_dirent)
  note R = bytes_atD [OF bx ne]
  have wx: "window p (8 + ?n) (concat (B base)) = ?xs" using bx by (simp add: bytes_at_def)
  then have w8: "window p 8 (concat (B base)) = take 8 ?xs"
    using take_window [of 8 p "8 + ?n" "concat (B base)"] by simp
  obtain r1 r where ad: "sqsh__metablock_reader_advance env (di_metablock it) (di_next_offset it) 8 = (r1, r)"
    by fastforce
  have sup: "advance_supported (di_metablock it) (di_next_offset it) 8" using io by (simp add: advance_supported_def)
  have A: "r1 = Ok \<longrightarrow> metablock_reader_at env se ee src B base r p \<and> sqsh__metablock_reader_size r = 8 \<and>
      sqsh__metablock_reader_data env r = take 8 ?xs"
    "cx_buffer_total (env_buf env) \<and> metablock_live env src (rd_iterator (di_metablock it)) \<longrightarrow>
      r1 = Ok \<and> metablock_live env src (rd_iterator r)"
    using metablock_reader_advance_general [OF q(1) sup _ _ ad] R q(2) w8 n by auto
  have ns: "sqsh__data_directory_entry_name_size (take 8 ?xs) + 1 = ?n"
    using dirent_fields(4) [OF e, of "[]"] by (simp add: sqsh__data_directory_entry_name_size_def)
  obtain r2 r' where ad2: "sqsh__metablock_reader_advance env r 0 (8 + ?n) = (r2, r')" by fastforce
  have A2: "r2 = Ok \<longrightarrow> metablock_reader_at env se ee src B base r' p \<and>
      sqsh__metablock_reader_data env r' = ?xs"
    "cx_buffer_total (env_buf env) \<and> metablock_live env src (rd_iterator r) \<longrightarrow>
      r2 = Ok \<and> metablock_live env src (rd_iterator r')" if "r1 = Ok"
    using metablock_reader_extend [OF _ _ _ _ ad2, of se ee src B base p] A(1) that wx n R(2) by auto
  define it1 where "it1 = it\<lparr>di_metablock := r', di_next_offset := 8 + ?n\<rparr>"
  obtain ov it2 where s: "sub_remaining it1 (8 + ?n) = (ov, it2)" by fastforce
  have "di_remaining_size it1 < 2 ^ 32" using S by (simp add: directory_iterator_sane_def it1_def)
  note Q = sub_remaining_simps [OF this s]
  have "di_remaining_size it1 = 8 + ?n + length ys" using z by (simp add: it1_def)
  then have ov: "\<not> ov" "it2 = it1\<lparr>di_remaining_size := length ys\<rparr>" using Q by simp_all
  have nm: "snd (sqsh_directory_iterator_name2 env (it\<lparr>di_metablock := r\<rparr>)) = ?n" if "r1 = Ok"
    using A(1) that ns by (simp add: sqsh_directory_iterator_name2_def get_entry_def Let_def)
  have ovf: "add_overflow 64 8 ?n = Some (8 + ?n)" using n by (simp add: add_overflow_def)
  have main: "(b, rv, it') = (if r1 \<noteq> Ok then (False, r1, it\<lparr>di_metablock := r\<rparr>)
      else if r2 \<noteq> Ok then (False, r2, it\<lparr>di_metablock := r'\<rparr>)
      else (True, Ok, it2))"
  proof (cases "r1 = Ok")
    case True
    then show ?thesis using eq ad nm [OF True] ovf ad2 s ov(1)
      by (simp add: load_entry_def sizeof_SqshDataDirectoryEntry_def it1_def Let_def
          del: add_overflow_Some cong: if_cong)
  qed (use eq ad in \<open>simp add: load_entry_def sizeof_SqshDataDirectoryEntry_def\<close>)
  show "get_entry env it' = ?xs \<and> di_remaining_size it' = length ys \<and>
      reader_position env se ee src B base it' (p + length ?xs)" if b
  proof -
    have "r1 = Ok" "r2 = Ok" "it' = it2" using that main by (auto split: if_splits)
    then show ?thesis using A2(1) ov(2) by (auto simp: it1_def get_entry_def reader_position_def)
  qed
  show "b \<and> metablock_live env src (rd_iterator (di_metablock it'))"
    if "cx_buffer_total (env_buf env)" "metablock_live env src (rd_iterator (di_metablock it))"
    using that A(2) A2(2) main ov(2) by (simp add: it1_def)
qed

lemma process_fragment_at:
  assumes S: "directory_iterator_sane env se ee src it"
    and at: "reader_position env se ee src B base it p"
    and bs: "bytes_at (B base) p (encode_run r @ ys)" and r: "dir_run_ok r"
    and z: "di_remaining_size it = length (encode_run r @ ys)"
    and eq: "process_fragment env it = (rv, it')"
  shows "rv = Ok \<Longrightarrow> di_remaining_entries it' = length (dr_entries r) - 1 \<and> di_start_base it' = dr_start r \<and>
      di_inode_base it' = dr_base r \<and>
      di_remaining_size it' = length (encode_dirents (dr_base r) (dr_entries r) @ ys) \<and>
      reader_position env se ee src B base it' (p + 12)"
    "cx_buffer_total (env_buf env) \<Longrightarrow> metablock_live env src (rd_iterator (di_metablock it)) \<Longrightarrow>
      rv = Ok \<and> metablock_live env src (rd_iterator (di_metablock it'))"
proof -
  let ?h = "run_header r" and ?es = "encode_dirents (dr_base r) (dr_entries r)"
  note F = run_fields [OF r]
  obtain q where q: "metablock_reader_at env se ee src B base (di_metablock it) q" "p = q + di_next_offset it"
    using at by (auto simp: reader_position_def)
  have io: "rd_iterator_offset (di_metablock it) \<le> di_next_offset it"
    using S by (simp add: directory_iterator_sane_def)
  have bx: "bytes_at (B base) p ?h" using bytes_at_append(1) [of _ _ ?h "?es @ ys"] bs by (simp add: F(1))
  have "?h \<noteq> []" using F(2) by auto
  note R = bytes_atD [OF bx this]
  have wx: "window p 12 (concat (B base)) = ?h" using bx F(2) by (simp add: bytes_at_def)
  obtain r1 rd where ad: "sqsh__metablock_reader_advance env (di_metablock it) (di_next_offset it) 12 = (r1, rd)"
    by fastforce
  have sup: "advance_supported (di_metablock it) (di_next_offset it) 12" using io by (simp add: advance_supported_def)
  have A: "r1 = Ok \<longrightarrow> metablock_reader_at env se ee src B base rd p \<and> sqsh__metablock_reader_data env rd = ?h"
    "cx_buffer_total (env_buf env) \<and> metablock_live env src (rd_iterator (di_metablock it)) \<longrightarrow>
      r1 = Ok \<and> metablock_live env src (rd_iterator rd)"
    using metablock_reader_advance_general [OF q(1) sup _ _ ad] R q(2) wx F(2) by auto
  define it1 where "it1 = it\<lparr>di_metablock := rd, di_remaining_entries := length (dr_entries r) - 1,
      di_start_base := dr_start r, di_inode_base := dr_base r, di_next_offset := 12\<rparr>"
  obtain ov it2 where s: "sub_remaining it1 12 = (ov, it2)" by fastforce
  have "di_remaining_size it1 < 2 ^ 32" using S by (simp add: directory_iterator_sane_def it1_def)
  note Q = sub_remaining_simps [OF this s]
  have "di_remaining_size it1 = 12 + length (?es @ ys)" using z F(1,2) by (simp add: it1_def)
  then have ov: "\<not> ov" "it2 = it1\<lparr>di_remaining_size := length (?es @ ys)\<rparr>" using Q by simp_all
  have "9 * length (dr_entries r) \<le> length ?es" using length_encode_dirents r by (simp add: dir_run_ok_def)
  then have fits: "length (dr_entries r) - 1 \<le> (length ?es + length ys) div 8" by linarith
  have main: "(rv, it') = (if r1 \<noteq> Ok then (r1, it\<lparr>di_metablock := rd\<rparr>) else (Ok, it2))"
  proof (cases "r1 = Ok")
    case True
    then have "sqsh__metablock_reader_data env rd = ?h" using A(1) by simp
    then show ?thesis using eq ad True s ov fits F(3-5)
      by (simp add: process_fragment_def sizeof_SqshDataDirectoryFragment_def it1_def Let_def
          get_fragment_def sizeof_SqshDataDirectoryEntry_def)
  qed (use eq ad in \<open>simp add: process_fragment_def sizeof_SqshDataDirectoryFragment_def\<close>)
  show "rv = Ok \<and> metablock_live env src (rd_iterator (di_metablock it'))"
    if "cx_buffer_total (env_buf env)" "metablock_live env src (rd_iterator (di_metablock it))"
    using that main A(2) ov(2) by (simp add: it1_def)
  show "di_remaining_entries it' = length (dr_entries r) - 1 \<and> di_start_base it' = dr_start r \<and>
      di_inode_base it' = dr_base r \<and> di_remaining_size it' = length (?es @ ys) \<and>
      reader_position env se ee src B base it' (p + 12)" if "rv = Ok"
  proof -
    have "r1 = Ok" "it' = it2" using that main by (auto split: if_splits)
    then show ?thesis using A(1) ov(2) by (auto simp: it1_def reader_position_def)
  qed
qed
definition listing_at where
  "listing_at env se ee src B base it vs \<longleftrightarrow>
     (\<exists>p cur runs. directory_iterator_sane env se ee src it \<and>
        reader_position env se ee src B base it p \<and>
        list_all (dirent_ok (di_inode_base it)) cur \<and> list_all dir_run_ok runs \<and>
        di_remaining_entries it = length cur \<and>
        di_remaining_size it = length (encode_dirents (di_inode_base it) cur @ encode_listing runs) \<and>
        bytes_at (B base) p (encode_dirents (di_inode_base it) cur @ encode_listing runs) \<and>
        vs = map (entry_of (di_start_base it)) cur @ listing_entries runs)"

text \<open>The entry in the window, with the inode number that the finalisation computes.\<close>

definition loaded_entry where
  "loaded_entry env it = (current_entry env it)\<lparr>en_inode := nat (entry_inode env it)\<rparr>"

lemma loaded_entry_of:
  assumes "get_entry env it = encode_dirent (di_inode_base it) e" "dirent_ok (di_inode_base it) e"
  shows "loaded_entry env it = entry_of (di_start_base it) e" "entry_name env it = de_name e"
    "entry_inode env it = int (de_inode e)" "sqsh_directory_iterator_file_type env it = Some (de_type e)"
  using dirent_fields(1-3,5) [OF assms(2)]
  by (simp_all add: loaded_entry_def current_entry_def entry_of_def entry_inode_def entry_name_def assms(1)
      sqsh_directory_iterator_name_def sqsh_directory_iterator_name2_def
      sqsh_directory_iterator_inode_ref_def sqsh_directory_iterator_file_type_def Let_def
      sqsh__data_directory_entry_name_def sizeof_SqshDataDirectoryEntry_def)

lemma listing_step:
  assumes S: "directory_iterator_sane env se ee src it"
    and at: "reader_position env se ee src B base it p"
    and ok: "dirent_ok (di_inode_base it) e" "list_all (dirent_ok (di_inode_base it)) cur"
      "list_all dir_run_ok runs"
    and n: "di_remaining_entries it = length cur"
    and bs: "bytes_at (B base) p (encode_dirent (di_inode_base it) e @
      encode_dirents (di_inode_base it) cur @ encode_listing runs)" (is "bytes_at _ _ (?x @ ?ys)")
    and z: "di_remaining_size it = length (encode_dirent (di_inode_base it) e @
      encode_dirents (di_inode_base it) cur @ encode_listing runs)"
    and eq: "load_entry env it = (b, rv, it')"
  shows "b \<Longrightarrow> listing_at env se ee src B base it' (map (entry_of (di_start_base it)) cur @ listing_entries runs) \<and>
      loaded_entry env it' = entry_of (di_start_base it) e \<and> entry_name env it' = de_name e \<and>
      entry_inode env it' = int (de_inode e) \<and>
      sqsh_directory_iterator_file_type env it' = Some (de_type e)"
    "cx_buffer_total (env_buf env) \<Longrightarrow> metablock_live env src (rd_iterator (di_metablock it)) \<Longrightarrow>
      b \<and> metablock_live env src (rd_iterator (di_metablock it'))"
proof -
  note L = load_entry_at [OF S at bs ok(1) z eq]
  show "b \<and> metablock_live env src (rd_iterator (di_metablock it'))"
    if "cx_buffer_total (env_buf env)" "metablock_live env src (rd_iterator (di_metablock it))"
    by (rule L(2) [OF that])
  assume b
  have s: "directory_iterator_sane env se ee src it'" "di_start_base it' = di_start_base it"
    "di_inode_base it' = di_inode_base it" "di_remaining_entries it' = length cur"
    using load_entry_safe [OF S eq] \<open>b\<close> n by auto
  have g: "get_entry env it' = ?x" "di_remaining_size it' = length ?ys"
    "reader_position env se ee src B base it' (p + length ?x)" using L(1) [OF \<open>b\<close>] by simp_all
  have "listing_at env se ee src B base it' (map (entry_of (di_start_base it)) cur @ listing_entries runs)"
    unfolding listing_at_def s(2,3)
    using s g ok bytes_at_append(2) [OF bs]
    by (intro exI [of _ "p + length ?x"] exI [of _ cur] exI [of _ runs]) simp
  then show "listing_at env se ee src B base it' (map (entry_of (di_start_base it)) cur @ listing_entries runs) \<and>
      loaded_entry env it' = entry_of (di_start_base it) e \<and> entry_name env it' = de_name e \<and>
      entry_inode env it' = int (de_inode e) \<and>
      sqsh_directory_iterator_file_type env it' = Some (de_type e)"
    using loaded_entry_of [of env it' e] g(1) s(2,3) ok(1) by simp
qed

text \<open>
  The refinement: a step of the iterator takes the first entry off the list of those to come.
\<close>

lemma directory_iterator_next_listing:
  assumes L: "listing_at env se ee src B base it vs"
    and eq: "directory_iterator_next env it = (b, rv, it')"
  shows "vs = [] \<longleftrightarrow> di_remaining_size it = 0" "vs = [] \<Longrightarrow> \<not> b \<and> rv = Ok"
    "b \<Longrightarrow> vs \<noteq> [] \<and> listing_at env se ee src B base it' (tl vs) \<and> loaded_entry env it' = hd vs \<and>
      entry_name env it' = en_name (hd vs) \<and> entry_inode env it' = int (en_inode (hd vs)) \<and>
      sqsh_directory_iterator_file_type env it' = en_type (hd vs)"
    "cx_buffer_total (env_buf env) \<Longrightarrow> metablock_live env src (rd_iterator (di_metablock it)) \<Longrightarrow>
      vs \<noteq> [] \<Longrightarrow> b \<and> metablock_live env src (rd_iterator (di_metablock it'))"
proof -
  obtain p cur runs where D: "directory_iterator_sane env se ee src it"
    "reader_position env se ee src B base it p"
    "list_all (dirent_ok (di_inode_base it)) cur" "list_all dir_run_ok runs"
    "di_remaining_entries it = length cur"
    "di_remaining_size it = length (encode_dirents (di_inode_base it) cur @ encode_listing runs)"
    "bytes_at (B base) p (encode_dirents (di_inode_base it) cur @ encode_listing runs)"
    "vs = map (entry_of (di_start_base it)) cur @ listing_entries runs"
    using L by (auto simp: listing_at_def)
  have "(vs = [] \<longleftrightarrow> di_remaining_size it = 0) \<and> (vs = [] \<longrightarrow> \<not> b \<and> rv = Ok) \<and>
    (b \<longrightarrow> vs \<noteq> [] \<and> listing_at env se ee src B base it' (tl vs) \<and> loaded_entry env it' = hd vs \<and>
      entry_name env it' = en_name (hd vs) \<and> entry_inode env it' = int (en_inode (hd vs)) \<and>
      sqsh_directory_iterator_file_type env it' = en_type (hd vs)) \<and>
    (cx_buffer_total (env_buf env) \<and> metablock_live env src (rd_iterator (di_metablock it)) \<and>
      vs \<noteq> [] \<longrightarrow> b \<and> metablock_live env src (rd_iterator (di_metablock it')))"
  proof (cases cur)
    case (Cons e cur')
    let ?j = "it\<lparr>di_remaining_entries := di_remaining_entries it - 1\<rparr>"
    have nz: "di_remaining_size it \<noteq> 0" "di_remaining_entries it \<noteq> 0" using D(5,6) Cons by simp_all
    then have l: "load_entry env ?j = (b, rv, it')" using eq by (simp add: directory_iterator_next_def)
    have Sj: "directory_iterator_sane env se ee src ?j"
      using D(1) by (simp add: directory_iterator_sane_def less_imp_diff_less)
    have at: "reader_position env se ee src B base ?j p" using D(2) by (simp add: reader_position_def)
    note T = listing_step [OF Sj at _ _ D(4) _ _ _ l, of e cur']
    show ?thesis using T D Cons nz by (simp add: entry_of_def)
  next
    case Nil
    show ?thesis
    proof (cases runs)
      case Nil
      then show ?thesis using D \<open>cur = []\<close> eq by (simp add: directory_iterator_next_def)
    next
      case (Cons r rs)
      have r: "dir_run_ok r" "list_all dir_run_ok rs" using D(4) Cons by simp_all
      obtain e es where es: "dr_entries r = e # es" using r(1) by (cases "dr_entries r") (auto simp: dir_run_ok_def)
      have eok: "dirent_ok (dr_base r) e" "list_all (dirent_ok (dr_base r)) es"
        using r(1) es by (simp_all add: dir_run_ok_def)
      have bs: "bytes_at (B base) p (encode_run r @ encode_listing rs)"
        and z: "di_remaining_size it = length (encode_run r @ encode_listing rs)"
        using D(6,7) Cons \<open>cur = []\<close> by simp_all
      obtain r1 j where pf: "process_fragment env it = (r1, j)" by fastforce
      note P = process_fragment_at [OF D(1,2) bs r(1) z pf] and Q = process_fragment_safe [OF D(1) pf]
      have nz: "di_remaining_size it \<noteq> 0" using z run_fields(1,2) [OF r(1)] by simp
      have vs: "vs = entry_of (dr_start r) e # map (entry_of (dr_start r)) es @ listing_entries rs"
        using D(8) Cons \<open>cur = []\<close> es by (simp add: run_entries_def)
      show ?thesis
      proof (cases "r1 = Ok")
        case False
        then have "(b, rv, it') = (False, r1, j)"
          using eq nz D(5) \<open>cur = []\<close> pf by (simp add: directory_iterator_next_def)
        then show ?thesis using P(2) False vs nz by auto
      next
        case True
        then have l: "load_entry env j = (b, rv, it')"
          using eq nz D(5) \<open>cur = []\<close> pf by (simp add: directory_iterator_next_def)
        have Sj: "directory_iterator_sane env se ee src j" using Q True by simp
        note J = P(1) [OF True]
        have at: "reader_position env se ee src B base j (p + 12)" using J by simp
        have bj: "bytes_at (B base) (p + 12) (encode_dirent (di_inode_base j) e @
            encode_dirents (di_inode_base j) es @ encode_listing rs)"
          using bytes_at_append(2) [of "B base" p "run_header r"] bs run_fields(1,2) [OF r(1)] J
          by (simp add: es)
        note T = listing_step [OF Sj at _ _ r(2) _ bj _ l]
        show ?thesis using T J eok vs nz P(2) es True by (simp add: entry_of_def)
      qed
    qed
  qed
  then show "vs = [] \<longleftrightarrow> di_remaining_size it = 0" "vs = [] \<Longrightarrow> \<not> b \<and> rv = Ok"
    "b \<Longrightarrow> vs \<noteq> [] \<and> listing_at env se ee src B base it' (tl vs) \<and> loaded_entry env it' = hd vs \<and>
      entry_name env it' = en_name (hd vs) \<and> entry_inode env it' = int (en_inode (hd vs)) \<and>
      sqsh_directory_iterator_file_type env it' = en_type (hd vs)"
    "cx_buffer_total (env_buf env) \<Longrightarrow> metablock_live env src (rd_iterator (di_metablock it)) \<Longrightarrow>
      vs \<noteq> [] \<Longrightarrow> b \<and> metablock_live env src (rd_iterator (di_metablock it'))" by blast+
qed

lemma sqsh_directory_iterator_next_listing:
  assumes L: "listing_at env se ee src B base it vs"
    and so: "sorted_wrt ord_class.lexordp (last_name it # map en_name vs)"
    and ok: "list_all entry_valid vs"
    and eq: "sqsh_directory_iterator_next env mem it = (b, rv, it')"
  shows "b \<Longrightarrow> vs \<noteq> [] \<and> listing_at env se ee src B base it' (tl vs) \<and> current_entry env it' = hd vs \<and>
      last_name it' = en_name (hd vs)"
    "\<not> b \<Longrightarrow> rv = Ok \<Longrightarrow> vs = []"
    "cx_buffer_total (env_buf env) \<Longrightarrow> metablock_live env src (rd_iterator (di_metablock it)) \<Longrightarrow>
      \<forall>n. mem n \<Longrightarrow> rv = Ok \<and> (vs \<noteq> [] \<longrightarrow> b \<and> metablock_live env src (rd_iterator (di_metablock it')))"
proof -
  have S: "directory_iterator_sane env se ee src it" using L by (auto simp: listing_at_def)
  obtain b1 r1 j where n: "directory_iterator_next env it = (b1, r1, j)" by (rule prod_cases3)
  note N = directory_iterator_next_safe [OF S n] and T = directory_iterator_next_listing [OF L n]
  obtain r2 k where f: "directory_iterator_next_finalize env mem j = (r2, k)" by fastforce
  have main: "(b, rv, it') = (if b1 then (r2 = Ok, r2, k) else (False, r1, j))"
    using eq n f by (auto simp: sqsh_directory_iterator_next_def split: if_splits)
  have F: "r2 = Ok \<longrightarrow> listing_at env se ee src B base k (tl vs) \<and> current_entry env k = hd vs \<and>
      last_name k = en_name (hd vs) \<and> di_metablock k = di_metablock j"
    "(\<forall>n. mem n) \<longrightarrow> r2 = Ok" if "b1"
  proof -
    have Sj: "directory_iterator_sane env se ee src j" "entry_loaded env j" "last_name j = last_name it"
      using N(3) [OF that] by auto
    note R = T(3) [OF that] and Fi = finalize_result [OF Sj(1,2) f]
    have v: "entry_valid (hd vs)" using ok R by (cases vs) auto
    have "entry_acceptable env j"
      using R v so Sj(3) by (cases vs) (auto simp: entry_acceptable_def entry_valid_def)
    moreover have "0 < entry_inode env j" "entry_inode env j < 2 ^ 32" using R v by (auto simp: entry_valid_def)
    ultimately show "(\<forall>n. mem n) \<longrightarrow> r2 = Ok" using Fi(3) by blast
    show "r2 = Ok \<longrightarrow> listing_at env se ee src B base k (tl vs) \<and> current_entry env k = hd vs \<and>
      last_name k = en_name (hd vs) \<and> di_metablock k = di_metablock j"
    proof
      assume o: "r2 = Ok"
      note K = Fi(4) [OF o]
      have "listing_at env se ee src B base k (tl vs)"
        using R K by (auto simp: listing_at_def reader_position_def)
      moreover have "di_current_inode k = nat (entry_inode env j)" using K by linarith
      then have "current_entry env k = loaded_entry env j"
        using K by (simp add: loaded_entry_def current_entry_def sqsh_directory_iterator_name_def
            sqsh_directory_iterator_name2_def get_entry_def sqsh_directory_iterator_inode_ref_def
            sqsh_directory_iterator_inode_def sqsh_directory_iterator_file_type_def Let_def)
      ultimately show "listing_at env se ee src B base k (tl vs) \<and> current_entry env k = hd vs \<and>
        last_name k = en_name (hd vs) \<and> di_metablock k = di_metablock j" using R K by simp
    qed
  qed
  show "b \<Longrightarrow> vs \<noteq> [] \<and> listing_at env se ee src B base it' (tl vs) \<and> current_entry env it' = hd vs \<and>
      last_name it' = en_name (hd vs)"
    using main F(1) T(3) by (auto split: if_splits)
  show "vs = []" if "\<not> b" "rv = Ok"
    using main N(4) T(1) that by (auto split: if_splits)
  show "rv = Ok \<and> (vs \<noteq> [] \<longrightarrow> b \<and> metablock_live env src (rd_iterator (di_metablock it')))"
    if "cx_buffer_total (env_buf env)" "metablock_live env src (rd_iterator (di_metablock it))" "\<forall>n. mem n"
  proof (cases "vs = []")
    case True
    then show ?thesis using T(2) main by (auto split: if_splits)
  next
    case False
    then show ?thesis using T(4) [OF that(1,2)] F main that(3) by (auto split: if_splits)
  qed
qed

lemma directory_entries_listing:
  assumes "listing_at env se ee src B base it vs"
    and "sorted_wrt ord_class.lexordp (last_name it # map en_name vs)" "list_all entry_valid vs"
    and "directory_entries fuel env mem it = (rv, es)"
  shows "\<exists>k. es = take k vs"
    "rv = Ok \<Longrightarrow> es = vs"
    "cx_buffer_total (env_buf env) \<Longrightarrow> metablock_live env src (rd_iterator (di_metablock it)) \<Longrightarrow>
      \<forall>n. mem n \<Longrightarrow> length vs < fuel \<Longrightarrow> rv = Ok"
proof -
  have "(\<exists>k. es = take k vs) \<and> (rv = Ok \<longrightarrow> es = vs) \<and>
    (cx_buffer_total (env_buf env) \<and> metablock_live env src (rd_iterator (di_metablock it)) \<and>
      (\<forall>n. mem n) \<and> length vs < fuel \<longrightarrow> rv = Ok)"
    using assms
  proof (induction fuel arbitrary: it vs rv es)
    case 0
    then show ?case by (auto intro: exI [of _ 0])
  next
    case (Suc fuel)
    obtain b r1 j where n: "sqsh_directory_iterator_next env mem it = (b, r1, j)" by (rule prod_cases3)
    note T = sqsh_directory_iterator_next_listing [OF Suc.prems(1-3) n]
    show ?case
    proof (cases b)
      case False
      then have "rv = r1" "es = []" using Suc.prems(4) n by auto
      then show ?thesis using T(2,3) False by (auto intro: exI [of _ 0])
    next
      case True
      obtain r2 es' where r: "directory_entries fuel env mem j = (r2, es')" by fastforce
      have e: "rv = r2" "es = current_entry env j # es'" using Suc.prems(4) n True r by auto
      obtain v ws where vs: "vs = v # ws" using T(1) [OF True] by (cases vs) auto
      have J: "listing_at env se ee src B base j ws" "current_entry env j = v" "last_name j = en_name v"
        using T(1) [OF True] vs by auto
      have "sorted_wrt ord_class.lexordp (last_name j # map en_name ws)" "list_all entry_valid ws"
        using Suc.prems(2,3) vs J(3) by simp_all
      note IH = Suc.IH [OF J(1) this r]
      obtain k where "es' = take k ws" using IH by blast
      then have "es = take (Suc k) vs" using e J(2) vs by simp
      moreover have "rv = Ok \<longrightarrow> es = vs" using IH e J(2) vs by simp
      moreover have "cx_buffer_total (env_buf env) \<and> metablock_live env src (rd_iterator (di_metablock it)) \<and>
          (\<forall>n. mem n) \<and> length vs < Suc fuel \<longrightarrow> rv = Ok"
      proof
        assume l: "cx_buffer_total (env_buf env) \<and> metablock_live env src (rd_iterator (di_metablock it)) \<and>
          (\<forall>n. mem n) \<and> length vs < Suc fuel"
        then have "metablock_live env src (rd_iterator (di_metablock j))" using T(3) vs by simp
        then show "rv = Ok" using IH l e vs by simp
      qed
      ultimately show ?thesis by (intro conjI exI)
    qed
  qed
  then show "\<exists>k. es = take k vs" "rv = Ok \<Longrightarrow> es = vs"
    "cx_buffer_total (env_buf env) \<Longrightarrow> metablock_live env src (rd_iterator (di_metablock it)) \<Longrightarrow>
      \<forall>n. mem n \<Longrightarrow> length vs < fuel \<Longrightarrow> rv = Ok" by blast+
qed

lemma listing_entries_valid:
  assumes "list_all dir_run_ok L"
  shows "list_all entry_valid (listing_entries L)" "9 * length (listing_entries L) \<le> length (encode_listing L)"
  using assms
proof (induction L)
  case (Cons r L)
  { case 1
    then show ?case using Cons.IH(1)
      by (auto simp: dir_run_ok_def run_entries_def list_all_iff entry_of_def entry_valid_def dirent_ok_def) }
  { case 2
    then have "9 * length (dr_entries r) \<le> length (encode_dirents (dr_base r) (dr_entries r))"
      by (intro length_encode_dirents) (simp add: dir_run_ok_def)
    then show ?case using 2 Cons.IH(2) by (simp add: run_entries_def encode_run_def) }
qed simp_all

text \<open>The listing of a directory, as the archive keeps it.\<close>

definition directory_listing where
  "directory_listing env src ar f L \<longleftrightarrow>
     sqsh_file_type env f = Some SQSH_FILE_TYPE_DIRECTORY \<and> listing_ok L \<and>
     sqsh_file_size env f = length (encode_listing L) + 3 \<and> sqsh_file_size env f < 2 ^ 32 \<and>
     bytes_at (ar_chain env src ar (directory_address env ar f))
       (sqsh_file_directory_block_offset2 env f) (encode_listing L)"

lemma directory_iterator_init_listing:
  assumes inv: "archive_inv env se ee src ar" and f: "file_sane env se ee src ar f"
    and L: "directory_listing env src ar f L"
    and eq: "sqsh__directory_iterator_init env ar it0 f = (Ok, it)"
  shows "listing_at env se ee src (ar_chain env src ar) (directory_address env ar f) it (listing_entries L)"
    "sorted_wrt ord_class.lexordp (last_name it # map en_name (listing_entries L))"
    "list_all entry_valid (listing_entries L)" "last_name it = []"
proof -
  note I = directory_iterator_init_correct(2) [OF inv f eq refl]
  have ok: "list_all dir_run_ok L" "sorted_wrt ord_class.lexordp (map en_name (listing_entries L))"
    using L by (simp_all add: directory_listing_def listing_ok_def)
  show v: "list_all entry_valid (listing_entries L)" by (rule listing_entries_valid [OF ok(1)])
  have "reader_position env se ee src (ar_chain env src ar) (directory_address env ar f) it
    (sqsh_file_directory_block_offset2 env f)" using I by (auto simp: reader_position_def)
  then show "listing_at env se ee src (ar_chain env src ar) (directory_address env ar f) it (listing_entries L)"
    unfolding listing_at_def using I L ok
    by (intro exI [of _ "sqsh_file_directory_block_offset2 env f"] exI [of _ "[]"] exI [of _ L])
      (simp add: directory_listing_def)
  have "ord_class.lexordp [] (en_name e)" if "e \<in> set (listing_entries L)" for e
    using v that by (cases "en_name e") (auto simp: list_all_iff entry_valid_def name_valid_def)
  then show "sorted_wrt ord_class.lexordp (last_name it # map en_name (listing_entries L))"
    using I ok(2) by simp
  show "last_name it = []" using I by simp
qed

lemma list_directory_listing:
  assumes inv: "archive_inv env se ee src ar" and f: "file_sane env se ee src ar f"
    and L: "directory_listing env src ar f L"
    and eq: "list_directory env mem ar f = (rv, es)"
  shows "(\<exists>k. es = take k (listing_entries L)) \<and> (rv = Ok \<longrightarrow> es = listing_entries L) \<and>
    (archive_live env src ar \<and> cx_buffer_total (env_buf env) \<and> (\<forall>n. mem n) \<and>
      directory_address env ar f < length (ar_bytes src ar) \<longrightarrow> rv = Ok)"
proof -
  obtain r1 it where i: "sqsh__directory_iterator_init env ar (zero_directory_iterator env ar f) f = (r1, it)"
    by fastforce
  note I = directory_iterator_init_correct [OF inv f i]
  have D: "sqsh_file_type env f = Some SQSH_FILE_TYPE_DIRECTORY" "list_all dir_run_ok L"
    "sqsh_file_size env f = length (encode_listing L) + 3" "sqsh_file_size env f < 2 ^ 32"
    using L by (simp_all add: directory_listing_def listing_ok_def)
  show ?thesis
  proof (cases "r1 = Ok")
    case False
    then have "rv = r1" "es = []"
      using eq i by (simp_all add: list_directory_def sqsh_directory_iterator_new_def)
    then show ?thesis using I(3) D False by (auto intro: exI [of _ 0])
  next
    case True
    then have e: "directory_entries (Suc (sqsh_file_size env f div 9)) env mem it = (rv, es)"
      using eq i by (simp add: list_directory_def sqsh_directory_iterator_new_def)
    note T = directory_iterator_init_listing [OF inv f L i [unfolded True]]
    note E = directory_entries_listing [OF T(1-3) e]
    have "length (listing_entries L) < Suc (sqsh_file_size env f div 9)"
      using listing_entries_valid(2) [OF D(2)] D(3) by linarith
    then show ?thesis using E I(3) D by simp
  qed
qed

section \<open>Looking up a name\<close>

lemma lookup_loop_safe:
  assumes "directory_iterator_sane env se ee src it" "di_remaining_size it < fuel"
    and "lookup_loop fuel env mem name it = (rv, it')"
  shows "safe_rv rv \<and> (rv = Ok \<longrightarrow> directory_iterator_sane env se ee src it' \<and> entry_loaded env it' \<and>
    sqsh_directory_iterator_name env it' = name \<and> name_valid name \<and>
    sqsh_directory_iterator_file_type env it' \<noteq> None \<and> 0 < sqsh_directory_iterator_inode it' \<and>
    di_file it' = di_file it)"
  using assms
proof (induction fuel arbitrary: it)
  case (Suc fuel)
  obtain b r1 j where n: "directory_iterator_next env it = (b, r1, j)" by (rule prod_cases3)
  note N = directory_iterator_next_safe [OF Suc.prems(1) n]
  show ?case
  proof (cases b)
    case False
    then show ?thesis using Suc.prems(3) n N(1) by (auto split: if_splits)
  next
    case True
    have Sj: "directory_iterator_sane env se ee src j" and ld: "entry_loaded env j"
      and dec: "di_remaining_size j < fuel" "di_file j = di_file it" using N(3) [OF True] Suc.prems(2) by auto
    note nm = entry_loaded_name(1) [OF ld]
    show ?thesis
    proof (cases "entry_name env j = name")
      case hit: True
      then have f: "directory_iterator_next_finalize env mem j = (rv, it')"
        using Suc.prems(3) n True nm memcmp_eq [of "length name" name name] by simp
      note F = finalize_result [OF Sj ld f]
      show ?thesis
      proof (cases "rv = Ok")
        case True
        have "get_entry env it' = get_entry env j" using F(4) [OF True] by (simp add: get_entry_def)
        then show ?thesis
          using F(2) [OF True] F(4) [OF True] dec(2) hit entry_loaded_name(1) [of env it']
          by (auto simp: entry_acceptable_def sqsh_directory_iterator_name_def
              sqsh_directory_iterator_file_type_def sqsh_directory_iterator_inode_def True)
      qed (use F(1) in simp)
    next
      case False
      then have "\<not> (length (entry_name env j) = length name \<and> memcmp (length name) (entry_name env j) name = 0)"
        using memcmp_eq [of "length name" "entry_name env j" name] by auto
      then have l: "lookup_loop fuel env mem name j = (rv, it')"
        using Suc.prems(3) n True nm by (auto split: if_splits)
      show ?thesis using Suc.IH [OF Sj dec(1) l] dec(2) by simp
    qed
  qed
qed simp

lemma lookup_loop_listing:
  assumes "listing_at env se ee src B base it vs" "list_all entry_valid vs" "last_name it = []"
    and "lookup_loop fuel env mem name it = (rv, it')"
  shows "(rv = Ok \<longrightarrow> (\<exists>v \<in> set vs. en_name v = name \<and> current_entry env it' = v)) \<and>
    (cx_buffer_total (env_buf env) \<and> metablock_live env src (rd_iterator (di_metablock it)) \<and>
      (\<forall>n. mem n) \<and> length vs < fuel \<longrightarrow>
      rv = (if name \<in> en_name ` set vs then Ok else Err SQSH_ERROR_NO_SUCH_FILE))"
  using assms
proof (induction fuel arbitrary: it vs)
  case (Suc fuel)
  have S: "directory_iterator_sane env se ee src it" using Suc.prems(1) by (auto simp: listing_at_def)
  obtain b r1 j where n: "directory_iterator_next env it = (b, r1, j)" by (rule prod_cases3)
  note N = directory_iterator_next_safe [OF S n] and T = directory_iterator_next_listing [OF Suc.prems(1) n]
  show ?case
  proof (cases b)
    case False
    then have "rv = (if r1 \<noteq> Ok then r1 else Err SQSH_ERROR_NO_SUCH_FILE)"
      using Suc.prems(4) n by (auto split: if_splits)
    then show ?thesis using T(2,4) False by (cases "vs = []") auto
  next
    case True
    obtain v ws where vs: "vs = v # ws" using T(3) [OF True] by (cases vs) auto
    have J: "listing_at env se ee src B base j ws" "loaded_entry env j = v" "entry_name env j = en_name v"
      "entry_inode env j = int (en_inode v)" "sqsh_directory_iterator_file_type env j = en_type v"
      using T(3) [OF True] vs by auto
    have Sj: "directory_iterator_sane env se ee src j" and ld: "entry_loaded env j"
      and ln: "last_name j = []" using N(3) [OF True] Suc.prems(3) by auto
    have v: "entry_valid v" "list_all entry_valid ws" using Suc.prems(2) vs by simp_all
    note nm = entry_loaded_name(1) [OF ld]
    show ?thesis
    proof (cases "en_name v = name")
      case hit: True
      then have f: "directory_iterator_next_finalize env mem j = (rv, it')"
        using Suc.prems(4) n True nm memcmp_eq [of "length name" name name] J(3) by simp
      note F = finalize_result [OF Sj ld f]
      have ne: "name \<noteq> []" using v(1) hit by (auto simp: entry_valid_def name_valid_def)
      then have "ord_class.lexordp [] name" by (cases name) auto
      then have "entry_acceptable env j" "0 < entry_inode env j" "entry_inode env j < 2 ^ 32"
        using v(1) J hit ln by (auto simp: entry_acceptable_def entry_valid_def)
      then have ok: "(\<forall>n. mem n) \<Longrightarrow> rv = Ok" using F(3) by blast
      have "current_entry env it' = v" if o: "rv = Ok"
      proof -
        have "di_current_inode it' = nat (entry_inode env j)" using F(4) [OF o] by linarith
        then have "current_entry env it' = loaded_entry env j" using F(4) [OF o]
          by (simp add: loaded_entry_def current_entry_def sqsh_directory_iterator_name_def
            sqsh_directory_iterator_name2_def get_entry_def sqsh_directory_iterator_inode_ref_def
            sqsh_directory_iterator_inode_def sqsh_directory_iterator_file_type_def Let_def)
        then show ?thesis using J(2) by simp
      qed
      then show ?thesis using ok vs hit by auto
    next
      case False
      then have "\<not> (length (entry_name env j) = length name \<and> memcmp (length name) (entry_name env j) name = 0)"
        using memcmp_eq [of "length name" "entry_name env j" name] J(3) by auto
      then have l: "lookup_loop fuel env mem name j = (rv, it')"
        using Suc.prems(4) n True nm by (auto split: if_splits)
      note IH = Suc.IH [OF J(1) v(2) ln l]
      show ?thesis
      proof (intro conjI impI)
        show "\<exists>v\<in>set vs. en_name v = name \<and> current_entry env it' = v" if "rv = Ok"
          using IH that vs by auto
        assume l: "cx_buffer_total (env_buf env) \<and> metablock_live env src (rd_iterator (di_metablock it)) \<and>
          (\<forall>n. mem n) \<and> length vs < Suc fuel"
        then have "metablock_live env src (rd_iterator (di_metablock j))" using T(4) vs by simp
        then have "rv = (if name \<in> en_name ` set ws then Ok else Err SQSH_ERROR_NO_SUCH_FILE)"
          using conjunct2 [OF IH] l vs by simp
        then show "rv = (if name \<in> en_name ` set vs then Ok else Err SQSH_ERROR_NO_SUCH_FILE)"
          using False vs by auto
      qed
    qed
  qed
qed simp
section \<open>The index of an extended directory\<close>

definition index_iterator_sane where
  "index_iterator_sane env se ee src it \<longleftrightarrow>
     metablock_reader_sane env se ee src (fl_metablock (dx_file it)) \<and>
     rd_iterator_offset (fl_metablock (dx_file it)) \<le> dx_next_offset it"

lemma index_next_safe:
  assumes S: "index_iterator_sane env se ee src it"
    and eq: "sqsh__directory_index_iterator_next env it Ok = (b, rv, it')"
  shows "safe_rv rv" "b \<Longrightarrow> rv = Ok \<and> index_iterator_sane env se ee src it' \<and>
      dx_remaining_entries it = Suc (dx_remaining_entries it') \<and>
      length (sqsh__directory_index_iterator_name env it') = sqsh__directory_index_iterator_name_size env it'"
proof -
  let ?r = "fl_metablock (dx_file it)"
  have D: "metablock_reader_sane env se ee src ?r" "rd_iterator_offset ?r \<le> dx_next_offset it"
    using S by (simp_all add: index_iterator_sane_def)
  obtain r1 r where ad: "sqsh__metablock_reader_advance env ?r (dx_next_offset it) 12 = (r1, r)" by fastforce
  have "advance_supported ?r (dx_next_offset it) 12" using D(2) by (simp add: advance_supported_def)
  note A = metablock_reader_advance_safe [OF D(1) this _ ad]
  define d where "d = sqsh__metablock_reader_data env r"
  define n where "n = sqsh__data_inode_directory_index_name_size d + 1"
  have n: "0 < n" "n \<le> 2 ^ 32" using get_le_bound [of 4 8 d]
    by (simp_all add: n_def sqsh__data_inode_directory_index_name_size_def)
  obtain r2 r' where ad2: "sqsh__metablock_reader_advance env r 0 (12 + n) = (r2, r')" by fastforce
  have ovf: "add_overflow 64 (sqsh__data_inode_directory_index_name_size d) 1 = Some n"
    "add_overflow 64 12 n = Some (12 + n)" using n by (simp_all add: add_overflow_def n_def)
  define it1 where "it1 = it\<lparr>dx_remaining_entries := dx_remaining_entries it - 1,
    dx_file := (dx_file it)\<lparr>fl_metablock := r\<rparr>\<rparr>"
  define it2 where "it2 = it\<lparr>dx_remaining_entries := dx_remaining_entries it - 1,
    dx_file := (dx_file it)\<lparr>fl_metablock := r'\<rparr>\<rparr>"
  have ns: "sqsh__directory_index_iterator_name_size env it1 = n"
    using n by (simp add: sqsh__directory_index_iterator_name_size_def get_directory_index_def it1_def
        d_def n_def add_overflow_def)
  have main: "(b, rv, it') = (if dx_remaining_entries it = 0 then (False, Ok, it)
    else if r1 \<noteq> Ok then (False, r1, it1) else if r2 \<noteq> Ok then (False, r2, it2)
    else (True, Ok, it2\<lparr>dx_next_offset := 12 + n\<rparr>))"
    using eq ad ad2 ns ovf(2)
    by (simp add: sqsh__directory_index_iterator_next_def sizeof_SqshDataInodeDirectoryIndex_def
        it1_def it2_def Let_def del: add_overflow_Some cong: if_cong)
  have A2: "safe_rv r2" "r2 = Ok \<Longrightarrow> metablock_reader_sane env se ee src r' \<and>
      sqsh__metablock_reader_size r' = 12 + n \<and> length (sqsh__metablock_reader_data env r') = 12 + n \<and>
      sqsh__data_inode_directory_index_name_size (sqsh__metablock_reader_data env r') + 1 = n" if "r1 = Ok"
  proof -
    have sane_r: "metablock_reader_sane env se ee src r" "sqsh__metablock_reader_size r = 12"
      using A that by auto
    note E = metablock_reader_grow [OF sane_r(1) _ _ _ ad2, unfolded sane_r(2)]
    show "safe_rv r2" using E(1) n by simp
    assume o: "r2 = Ok"
    have E2: "metablock_reader_sane env se ee src r'" "sqsh__metablock_reader_size r' = 12 + n"
      "length (sqsh__metablock_reader_data env r') = 12 + n" "take 12 (sqsh__metablock_reader_data env r') = d"
      using E(2) n o by (simp_all add: d_def)
    have "get_le 4 8 (sqsh__metablock_reader_data env r') = get_le 4 8 d"
      using get_le_take [of 8 4 12 "sqsh__metablock_reader_data env r'"] E2(4) by simp
    then show "metablock_reader_sane env se ee src r' \<and>
      sqsh__metablock_reader_size r' = 12 + n \<and> length (sqsh__metablock_reader_data env r') = 12 + n \<and>
      sqsh__data_inode_directory_index_name_size (sqsh__metablock_reader_data env r') + 1 = n"
      using E2(1-3) by (simp add: n_def sqsh__data_inode_directory_index_name_size_def)
  qed
  show "safe_rv rv" using main A A2(1) by (auto split: if_splits)
  assume b
  then have o: "r1 = Ok" "r2 = Ok" "rv = Ok" "it' = it2\<lparr>dx_next_offset := 12 + n\<rparr>" "dx_remaining_entries it \<noteq> 0"
    using main by (auto split: if_splits)
  note E = A2(2) [OF o(1,2)]
  have "sqsh__directory_index_iterator_name_size env it' = n"
    using E n by (simp add: sqsh__directory_index_iterator_name_size_def get_directory_index_def o(4)
        it2_def add_overflow_def)
  moreover have "length (sqsh__directory_index_iterator_name env it') = n"
    using E by (simp add: sqsh__directory_index_iterator_name_def get_directory_index_def o(4) it2_def
        sqsh__data_inode_directory_index_name_def sizeof_SqshDataInodeDirectoryIndex_def)
  moreover have "rd_iterator_offset r' \<le> 12 + n" using metablock_reader_io E by metis
  ultimately show "rv = Ok \<and> index_iterator_sane env se ee src it' \<and>
      dx_remaining_entries it = Suc (dx_remaining_entries it') \<and>
      length (sqsh__directory_index_iterator_name env it') = sqsh__directory_index_iterator_name_size env it'"
    using o E by (simp add: index_iterator_sane_def it2_def)
qed

lemma index_loop_safe:
  assumes "index_iterator_sane env se ee src it" "dx_remaining_entries it < fuel" "outer < 2 ^ 32" "idx < 2 ^ 32"
    and "index_loop fuel env name it outer idx = (rv, it', outer', idx')"
  shows "safe_rv rv \<and> outer' < 2 ^ 32 \<and> idx' < 2 ^ 32"
  using assms
proof (induction fuel arbitrary: it outer idx)
  case (Suc fuel)
  obtain b r1 j where n: "sqsh__directory_index_iterator_next env it Ok = (b, r1, j)" by (rule prod_cases3)
  note N = index_next_safe [OF Suc.prems(1) n]
  show ?case
  proof (cases b)
    case False
    then show ?thesis using Suc.prems n N(1) by simp
  next
    case True
    let ?o = "sqsh__directory_index_iterator_start env j" and ?i = "sqsh__directory_index_iterator_index env j"
    have b: "?o < 2 ^ 32" "?i < 2 ^ 32"
      using get_le_bound [of 4 0 "get_directory_index env j"] get_le_bound [of 4 4 "get_directory_index env j"]
      by (simp_all add: sqsh__directory_index_iterator_start_def sqsh__directory_index_iterator_index_def
          sqsh__data_inode_directory_index_start_def sqsh__data_inode_directory_index_index_def)
    have Sj: "index_iterator_sane env se ee src j" "dx_remaining_entries j < fuel"
      using N(2) [OF True] Suc.prems(2) by auto
    show ?thesis using Suc.prems(3-5) Suc.IH [OF Sj b] n True N(2) [OF True]
      by (auto simp: Let_def split: if_splits)
  qed
qed simp
lemma directory_kind:
  assumes "inode_impl_of_type ty = Some impl" "file_type_of_type ty = Some SQSH_FILE_TYPE_DIRECTORY"
  shows "impl = sqsh__inode_directory_impl \<or> impl = sqsh__inode_directory_ext_impl"
  using assms by (auto simp: inode_impl_of_type_def file_type_of_type_def inode_type_defs split: if_splits)

lemma directory_start_bound:
  assumes "file_sane env se ee src ar f"
  shows "sqsh_file_directory_block_start env f < 2 ^ 32"
proof -
  have k: "file_impl env f \<in> inode_kinds"
    using assms inode_impl_kind by (auto simp: file_sane_def file_impl_def get_impl_def)
  have "ii_directory_block_start impl s < 2 ^ 32" if "impl \<in> inode_kinds" for impl s
    using that get_le_bound [of 4 0 "drop 16 s"] get_le_bound [of 4 8 "drop 16 s"]
    unfolding inode_kinds_def
    by (elim insertE emptyE; hypsubst; simp add: inode_impl_defs inode_accessor_defs inode_get_defs inode_sizes UINT32_MAX_def)
  then show ?thesis using k by (simp add: sqsh_file_directory_block_start_def)
qed

lemma metablock_reader_data_length:
  assumes "metablock_reader_sane env se ee src r"
  shows "length (sqsh__metablock_reader_data env r) = sqsh__metablock_reader_size r"
proof -
  obtain B base p where at: "metablock_reader_at env se ee src B base r p"
    using assms by (auto simp: metablock_reader_sane_def)
  show ?thesis using metablock_reader_at_window [OF at] by (cases "sqsh__metablock_reader_size r = 0") auto
qed

lemma index_iterator_init_safe:
  assumes inv: "archive_inv env se ee src ar" and lk: "safe_rv (env_lock env)"
    and hs: "hash_map_safe ho" and ref: "ref < 2 ^ 64"
    and eq: "sqsh__directory_index_iterator_init env ho dx0 ar ref = (rv, dx, ar')"
  shows "safe_rv rv" "archive_inv env se ee src ar'" "archive_core ar' = archive_core ar"
    "rv = Ok \<Longrightarrow> index_iterator_sane env se ee src dx"
proof -
  obtain r1 f a where i: "sqsh__file_init env ho ar (dx_file dx0) ref = (r1, f, a)" by (rule prod_cases3)
  obtain bl off where tb: "inode_table_bytes env src ar ref = (bl, off)" by fastforce
  note F = file_init_correct [OF inv lk hs ref tb i]
  let ?ok = "sqsh_file_type env f = Some SQSH_FILE_TYPE_DIRECTORY \<and> sqsh_file_is_extended env f"
  have main: "rv = (if r1 \<noteq> Ok then r1 else if \<not> ?ok then Err SQSH_ERROR_NO_EXTENDED_DIRECTORY else Ok)"
    "ar' = a" "rv = Ok \<Longrightarrow> dx_file dx = f \<and> dx_next_offset dx = INODE_HEADER_SIZE"
    using eq i by (auto simp: sqsh__directory_index_iterator_init_def Let_def split: if_splits)
  show "safe_rv rv" "archive_inv env se ee src ar'" "archive_core ar' = archive_core ar"
    using main(1,2) F by auto
  assume rv: "rv = Ok"
  then have r: "r1 = Ok" "sqsh_file_type env f = Some SQSH_FILE_TYPE_DIRECTORY" "sqsh_file_is_extended env f"
    using main(1) by (auto split: if_splits)
  have S: "file_sane env se ee src a f" using F r(1) by simp
  then obtain impl where g: "get_impl env f = Some impl" "metablock_reader_sane env se ee src (fl_metablock f)"
    by (auto simp: file_sane_def)
  have "impl = sqsh__inode_directory_ext_impl"
    using directory_kind [of "sqsh__data_inode_type (get_inode env f)" impl] g(1) r(2,3)
    by (auto simp: get_impl_def sqsh_file_type_def sqsh_file_is_extended_def file_impl_def
        sqsh__inode_directory_impl_def)
  then have "length (get_inode env f) = 40"
    using S g(1) by (simp add: file_sane_def file_impl_def inode_bytes_def inode_fixed_size_def sqsh__inode_directory_ext_impl_def
        inode_directory_ext_payload_size_def sizeof_SqshDataInodeHeader_def sizeof_SqshDataInodeDirectoryExt_def)
  then have "sqsh__metablock_reader_size (fl_metablock f) = 40"
    using metablock_reader_data_length [OF g(2)] by (simp add: get_inode_def)
  then show "index_iterator_sane env se ee src dx"
    using metablock_reader_io [OF g(2)] g(2) main(3) [OF rv]
    by (simp add: index_iterator_sane_def INODE_HEADER_SIZE_def sizeof_SqshDataInodeHeader_def
        sizeof_SqshDataInodeDirectoryExt_def)
qed

lemma index_lookup_safe:
  assumes inv: "archive_inv env se ee src ar" and lk: "safe_rv (env_lock env)" and hs: "hash_map_safe ho"
    and S: "directory_iterator_sane env se ee src it" and f: "file_sane env se ee src ar (di_file it)"
    and ref: "sqsh_file_inode_ref (di_file it) < 2 ^ 64"
    and eq: "directory_iterator_index_lookup env ho ar it name = (rv, it', ar')"
  shows "safe_rv rv" "archive_inv env se ee src ar'" "archive_core ar' = archive_core ar"
    "rv = Ok \<Longrightarrow> directory_iterator_sane env se ee src it' \<and> di_file it' = di_file it"
proof -
  obtain r1 dx a where i: "sqsh__directory_index_iterator_init env ho
    \<lparr>dx_file = zero_file env ar, dx_remaining_entries = 0, dx_next_offset = 0\<rparr>
    ar (sqsh_file_inode_ref (di_file it)) = (r1, dx, a)" by (rule prod_cases3)
  note I = index_iterator_init_safe [OF inv lk hs ref i]
  obtain r2 dx' outer idx where l: "index_loop (Suc (dx_remaining_entries dx)) env name dx
    (sqsh_file_directory_block_start env (di_file it)) 0 = (r2, dx', outer, idx)" by (rule prod_cases4)
  have LL: "safe_rv r2 \<and> outer < 2 ^ 32 \<and> idx < 2 ^ 32" if "r1 = Ok"
    using index_loop_safe [OF I(4) [OF that] _ directory_start_bound [OF f] _ l] by simp
  have "safe_rv rv \<and> archive_inv env se ee src ar' \<and> archive_core ar' = archive_core ar \<and>
    (rv = Ok \<longrightarrow> directory_iterator_sane env se ee src it' \<and> di_file it' = di_file it)"
  proof (cases "r1 = Ok \<and> r2 = Ok")
    case False
    then show ?thesis using eq i l I LL
      by (auto simp: directory_iterator_index_lookup_def Let_def split: if_splits)
  next
    case True
    let ?in = "di_next_offset it + idx"
    define it1 where "it1 = it\<lparr>di_metablock := snd (sqsh__metablock_reader_cleanup env (di_metablock it))\<rparr>"
    obtain ov it2 where s: "sub_remaining it1 idx = (ov, it2)" by fastforce
    obtain r3 it3 where m: "load_metablock env a it2 outer (?in mod 8192) = (r3, it3)" by fastforce
    have main: "(rv, it', ar') = (if 2 ^ 16 \<le> ?in then (Err SQSH_ERROR_INTEGER_OVERFLOW, it1, a)
      else if ov then (Err SQSH_ERROR_INTEGER_OVERFLOW, it2, a)
      else (r3, it3\<lparr>di_remaining_entries := 0\<rparr>, a))"
      using eq i l True s m
      by (cases "2 ^ 16 \<le> ?in"; cases ov) (simp_all add: directory_iterator_index_lookup_def it1_def add_overflow_def
          Let_def SQSH_METABLOCK_BLOCK_SIZE_def)
    have D: "di_remaining_size it1 < 2 ^ 32" "last_name_ok it1"
      using S by (simp_all add: directory_iterator_sane_def it1_def)
    note Q = sub_remaining_simps [OF D(1) s]
    let ?start = "sqsh_superblock_directory_table_start env (ar_superblock a) + outer"
    have ok: "archive_ok env se ee src a" using I(2) by (simp add: archive_inv_def)
    obtain r4 r where ri: "sqsh__metablock_reader_init env (ar_map_manager a) (ar_metablock_manager a) ?start
      (get_upper_limit env (ar_superblock a)) (di_metablock it2) = (r4, r)" by fastforce
    have lm: "(r3, it3) = (if 2 ^ 64 \<le> ?start then (Err SQSH_ERROR_INTEGER_OVERFLOW, it2)
      else (r4, it2\<lparr>di_next_offset := ?in mod 8192, di_remaining_entries := 0, di_metablock := r\<rparr>))"
      using m ri by (cases "2 ^ 64 \<le> ?start") (simp_all add: load_metablock_def add_overflow_def Let_def)
    have R: "safe_rv r4 \<and> (r4 = Ok \<longrightarrow> metablock_reader_sane env se ee src r \<and> rd_iterator_offset r = 0)"
      if "?start < 2 ^ 64" using archive_reader_init [OF ok that ri] by (auto simp: metablock_reader_sane_def)
    have sane: "directory_iterator_sane env se ee src it' \<and> di_file it' = di_file it" if "rv = Ok"
    proof -
      have o: "\<not> ov" "r3 = Ok" "it' = it3\<lparr>di_remaining_entries := 0\<rparr>" "?start < 2 ^ 64" "r4 = Ok"
        "it3 = it2\<lparr>di_next_offset := ?in mod 8192, di_remaining_entries := 0, di_metablock := r\<rparr>"
        using that main lm by (auto split: if_splits)
      have "?in mod 8192 < 2 ^ 32" by (rule less_trans [of _ 8192]) simp_all
      then show ?thesis using o Q(2) [OF o(1)] R D
        by (simp add: directory_iterator_sane_def less_imp_diff_less) (simp add: it1_def)
    qed
    have "safe_rv rv" using main lm R by (auto split: if_splits)
    moreover have "ar' = a" using main by (auto split: if_splits)
    ultimately show ?thesis using sane I by simp
  qed
  then show "safe_rv rv" "archive_inv env se ee src ar'" "archive_core ar' = archive_core ar"
    "rv = Ok \<Longrightarrow> directory_iterator_sane env se ee src it' \<and> di_file it' = di_file it" by simp_all
qed

lemma directory_lookup_result:
  assumes inv: "archive_inv env se ee src ar" and lk: "safe_rv (env_lock env)" and hs: "hash_map_safe ho"
    and S: "directory_iterator_sane env se ee src it" and f: "file_sane env se ee src ar (di_file it)"
    and ref: "sqsh_file_inode_ref (di_file it) < 2 ^ 64"
    and eq: "sqsh_directory_iterator_lookup env ho mem ar it name = (rv, it', ar')"
  shows "safe_rv rv \<and> archive_inv env se ee src ar' \<and> archive_core ar' = archive_core ar \<and>
    (rv = Ok \<longrightarrow> directory_iterator_sane env se ee src it' \<and> entry_loaded env it' \<and>
      sqsh_directory_iterator_name env it' = name \<and> name_valid name \<and>
      sqsh_directory_iterator_file_type env it' \<noteq> None \<and> 0 < sqsh_directory_iterator_inode it' \<and>
      di_file it' = di_file it)"
proof -
  obtain r1 j a where x: "(if sqsh_file_is_extended env (di_file it)
    then directory_iterator_index_lookup env ho ar it name else (Ok, it, ar)) = (r1, j, a)" by (rule prod_cases3)
  have X: "safe_rv r1" "archive_inv env se ee src a" "archive_core a = archive_core ar"
    "r1 = Ok \<Longrightarrow> directory_iterator_sane env se ee src j \<and> di_file j = di_file it"
    using index_lookup_safe [OF inv lk hs S f ref] x inv S by (auto split: if_splits)
  show ?thesis
  proof (cases "r1 = Ok")
    case False
    then show ?thesis using eq x X by (simp add: sqsh_directory_iterator_lookup_def)
  next
    case True
    obtain r2 k where l: "lookup_loop (Suc (di_remaining_size j)) env mem name j = (r2, k)" by fastforce
    then have e: "rv = r2" "it' = k" "ar' = a"
      using eq x True by (simp_all add: sqsh_directory_iterator_lookup_def del: lookup_loop.simps)
    have Sj: "directory_iterator_sane env se ee src j" "di_file j = di_file it" using X(4) [OF True] by auto
    show ?thesis using lookup_loop_safe [OF Sj(1) _ l] X(2,3) Sj(2) e by simp
  qed
qed

lemma directory_lookup_listing:
  assumes inv: "archive_inv env se ee src ar" and f: "file_sane env se ee src ar f"
    and L: "directory_listing env src ar f L" and bx: "\<not> sqsh_file_is_extended env f"
    and i: "sqsh_directory_iterator_new env ar f = (Ok, Some it)"
    and eq: "sqsh_directory_iterator_lookup env ho mem ar it name = (rv, it', ar')"
  shows "(rv = Ok \<longrightarrow> (\<exists>v \<in> set (listing_entries L). en_name v = name \<and> current_entry env it' = v)) \<and>
    (archive_live env src ar \<and> cx_buffer_total (env_buf env) \<and> (\<forall>n. mem n) \<and>
      directory_address env ar f < length (ar_bytes src ar) \<longrightarrow>
      rv = (if name \<in> en_name ` set (listing_entries L) then Ok else Err SQSH_ERROR_NO_SUCH_FILE))"
proof -
  have i': "sqsh__directory_iterator_init env ar (zero_directory_iterator env ar f) f = (Ok, it)"
    using i by (auto simp: sqsh_directory_iterator_new_def split: prod.splits if_splits)
  note I = directory_iterator_init_correct [OF inv f i']
  note T = directory_iterator_init_listing [OF inv f L i']
  have D: "sqsh_file_type env f = Some SQSH_FILE_TYPE_DIRECTORY" "list_all dir_run_ok L"
    "sqsh_file_size env f = length (encode_listing L) + 3" "sqsh_file_size env f < 2 ^ 32"
    using L by (simp_all add: directory_listing_def listing_ok_def)
  have it: "di_file it = f" "di_remaining_size it = length (encode_listing L)" using I(2) D(3) by auto
  obtain r2 k where l: "lookup_loop (Suc (di_remaining_size it)) env mem name it = (r2, k)" by fastforce
  then have e: "rv = r2" "it' = k"
    using eq bx it(1) by (simp_all add: sqsh_directory_iterator_lookup_def del: lookup_loop.simps)
  have "length (listing_entries L) < Suc (di_remaining_size it)"
    using listing_entries_valid(2) [OF D(2)] it(2) by linarith
  note LL = lookup_loop_listing [OF T(1,3,4) l]
  have lv: "metablock_live env src (rd_iterator (di_metablock it))"
    if "archive_live env src ar" "directory_address env ar f < length (ar_bytes src ar)"
    using I(3) that D by simp
  show ?thesis using LL lv \<open>length (listing_entries L) < _\<close> by (simp only: e) blast
qed

section \<open>Properties\<close>

text \<open>
  C14. Going through a directory always ends: for every archive in order and every directory of it,
  damaged or not, the loop over \<^verbatim>\<open>sqsh_directory_iterator_next\<close> stops after at most one round for
  every nine bytes of the directory's size, stays inside its memory on the way, and reports either the
  end or an error.
\<close>

theorem directory_listing_ends:
  assumes "archive_inv env se ee src ar" "file_sane env se ee src ar f"
  shows "fst (list_directory env mem ar f) \<noteq> Diverge \<and> fst (list_directory env mem ar f) \<noteq> Fault \<and>
    9 * length (snd (list_directory env mem ar f)) \<le> sqsh_file_size env f"
  using list_directory_safe [OF assms, of mem] by (cases "list_directory env mem ar f") auto

text \<open>
  C13. Every entry that the iterator delivers is well formed, whatever the archive says: its name is
  not empty, has neither a null byte nor a slash in it and is neither \<^verbatim>\<open>.\<close> nor \<^verbatim>\<open>..\<close>; its type is one
  of the seven file types, so that \<^verbatim>\<open>sqsh_directory_iterator_file_type\<close> never reaches the case it
  declares unreachable; its inode number is a positive 32-bit number; and the names are strictly
  ascending, hence distinct.
\<close>

theorem directory_entries_well_formed:
  assumes "archive_inv env se ee src ar" "file_sane env se ee src ar f"
    and "list_directory env mem ar f = (rv, es)"
  shows "list_all entry_valid es \<and> sorted_wrt ord_class.lexordp (map en_name es) \<and> distinct (map en_name es)"
proof -
  have "distinct xs" if "sorted_wrt ord_class.lexordp xs" for xs :: "byte list list"
    using that by (induction xs) (auto simp: lexordp_irreflexive')
  then show ?thesis using list_directory_safe [OF assms] by blast
qed

text \<open>
  C4. Reading a directory gives back what was written: when the directory's bytes are the encoding of
  a well-formed listing, in as many metablocks as it takes, the iterator delivers a prefix of the
  listing's entries, with names, inode references, inode numbers and types; it delivers all of them when
  it ends without an error; and it does so when memory is available.
\<close>

theorem list_directory_exact:
  assumes "archive_inv env se ee src ar" "file_sane env se ee src ar f"
    and "directory_listing env src ar f L" "list_directory env mem ar f = (rv, es)"
  shows "(\<exists>k. es = take k (listing_entries L)) \<and> (rv = Ok \<longrightarrow> es = listing_entries L) \<and>
    (archive_live env src ar \<and> cx_buffer_total (env_buf env) \<and> (\<forall>n. mem n) \<and>
      directory_address env ar f < length (ar_bytes src ar) \<longrightarrow> rv = Ok)"
  by (rule list_directory_listing [OF assms])

text \<open>
  C12. Looking up a name is safe on every archive: \<^verbatim>\<open>sqsh_directory_iterator_lookup\<close>, with the index of
  an extended directory or without, ends, stays inside its memory and keeps the archive's
  invariant; and when it succeeds the iterator stands on an entry with exactly that name, which is
  valid, and a valid type and inode number.
\<close>

theorem directory_lookup_sound:
  assumes "archive_inv env se ee src ar" "safe_rv (env_lock env)" "hash_map_safe ho"
    and "directory_iterator_sane env se ee src it" "file_sane env se ee src ar (di_file it)"
    and "sqsh_file_inode_ref (di_file it) < 2 ^ 64"
    and "sqsh_directory_iterator_lookup env ho mem ar it name = (rv, it', ar')"
  shows "rv \<noteq> Diverge \<and> rv \<noteq> Fault \<and> archive_inv env se ee src ar' \<and>
    (rv = Ok \<longrightarrow> sqsh_directory_iterator_name env it' = name \<and> name_valid name \<and>
      sqsh_directory_iterator_file_type env it' \<noteq> None \<and> 0 < sqsh_directory_iterator_inode it')"
  using directory_lookup_result [OF assms] by auto

text \<open>
  C11. A name is found exactly when the listing has it: on a directory without an index, a new iterator
  and available memory, \<^verbatim>\<open>sqsh_directory_iterator_lookup\<close> succeeds for the names of the listing
  and reports \<^verbatim>\<open>SQSH_ERROR_NO_SUCH_FILE\<close> for all others; and the entry it stands on afterwards is
  the listing's entry of that name.
\<close>

theorem directory_lookup_exact:
  assumes "archive_inv env se ee src ar" "file_sane env se ee src ar f"
    and "directory_listing env src ar f L" "\<not> sqsh_file_is_extended env f"
    and "sqsh_directory_iterator_new env ar f = (Ok, Some it)"
    and "sqsh_directory_iterator_lookup env ho mem ar it name = (rv, it', ar')"
  shows "(rv = Ok \<longrightarrow> (\<exists>v \<in> set (listing_entries L). en_name v = name \<and> current_entry env it' = v)) \<and>
    (archive_live env src ar \<and> cx_buffer_total (env_buf env) \<and> (\<forall>n. mem n) \<and>
      directory_address env ar f < length (ar_bytes src ar) \<longrightarrow>
      rv = (if name \<in> en_name ` set (listing_entries L) then Ok else Err SQSH_ERROR_NO_SUCH_FILE))"
  by (rule directory_lookup_listing [OF assms])

text \<open>
  C15. What is refused: when an entry has been read and memory is available, the iterator accepts it
  if its type is known, its name is valid and lies behind the last name, and its inode number is
  positive and fits; in every other case it reports \<^verbatim>\<open>SQSH_ERROR_CORRUPTED_DIRECTORY_ENTRY\<close>.
\<close>

theorem directory_entry_refused:
  assumes "directory_iterator_sane env se ee src it" "\<forall>n. mem n"
    and "directory_iterator_next env it = (True, Ok, it1)"
    and "sqsh_directory_iterator_next env mem it = (has_next, rv, it')"
  shows "has_next = (rv = Ok) \<and>
    rv = (if sqsh_directory_iterator_file_type env it1 \<noteq> None \<and>
            name_valid (sqsh_directory_iterator_name env it1) \<and>
            ord_class.lexordp (last_name it) (sqsh_directory_iterator_name env it1) \<and>
            0 < entry_inode env it1 \<and> entry_inode env it1 < 2 ^ 32
          then Ok else Err SQSH_ERROR_CORRUPTED_DIRECTORY_ENTRY)"
proof -
  note N = directory_iterator_next_safe(3) [OF assms(1,3), simplified]
  have S: "directory_iterator_sane env se ee src it1" and ld: "entry_loaded env it1" using N by simp_all
  obtain r k where f: "directory_iterator_next_finalize env mem it1 = (r, k)" by fastforce
  note F = finalize_result [OF S ld f]
  have "has_next = (r = Ok)" "rv = r"
    using assms(3,4) f by (auto simp: sqsh_directory_iterator_next_def split: if_splits)
  moreover have "r = Ok \<longleftrightarrow> entry_acceptable env it1 \<and> 0 < entry_inode env it1 \<and> entry_inode env it1 < 2 ^ 32"
    using F(2,3) assms(2) by blast
  moreover have "sqsh_directory_iterator_name env it1 = entry_name env it1"
    by (simp add: sqsh_directory_iterator_name_def entry_loaded_name(1) [OF ld])
  ultimately show ?thesis using F(5) assms(2) N by (simp add: entry_acceptable_def)
qed

section \<open>A small directory\<close>

text \<open>
  An archive with one directory of two entries: the listing is the first metablock behind the
  superblock, the inode is in the second.
\<close>

definition tiny_listing :: "dir_run list" where
  "tiny_listing = [\<lparr>dr_start = 0, dr_base = 1, dr_entries =
     [\<lparr>de_name = [97], de_offset = 0, de_inode = 2, de_type = SQSH_FILE_TYPE_FILE\<rparr>,
      \<lparr>de_name = [98, 99], de_offset = 32, de_inode = 3, de_type = SQSH_FILE_TYPE_DIRECTORY\<rparr>]\<rparr>]"

definition tiny_directory_inode :: "byte list" where
  "tiny_directory_inode = le_bytes 2 1 @ le_bytes 2 420 @ le_bytes 2 0 @ le_bytes 2 0 @ le_bytes 4 0
     @ le_bytes 4 1 @ le_bytes 4 0 @ le_bytes 4 2 @ le_bytes 2 34 @ le_bytes 2 0 @ le_bytes 4 5"

definition tiny_directory_archive :: "byte list" where
  "tiny_directory_archive = tiny_superblock 165 @ le_bytes 2 (0x8000 + 31) @ encode_listing tiny_listing
     @ le_bytes 2 (0x8000 + 32) @ tiny_directory_inode @ [1, 1]"

abbreviation tiny_directory_sqsh :: tiny_archive where
  "tiny_directory_sqsh \<equiv> tiny_sqsh 256 tiny_directory_archive"

lemma tiny_directory_length:
  "length tiny_directory_archive = 165" "length tiny_directory_inode = 32" "length (encode_listing tiny_listing) = 31"
  by (simp_all add: tiny_directory_archive_def tiny_directory_inode_def tiny_superblock_def
      SQSH_SUPERBLOCK_MAGIC_def tiny_listing_def encode_run_def)

lemma tiny_directory_inv:
  "archive_inv tiny_env alist_entries alist_entries (\<lambda>u. u) tiny_directory_sqsh"
  "sqsh_superblock_block_log tiny_env (ar_superblock tiny_directory_sqsh) = 17"
  "sqsh_superblock_inode_table_start tiny_env (ar_superblock tiny_directory_sqsh) = 96"
  "sqsh_superblock_directory_table_start tiny_env (ar_superblock tiny_directory_sqsh) = 96"
proof -
  have c: "superblock_check tiny_directory_archive = Ok" by code_simp
  from tiny_sqsh_inv [OF c]
  show inv: "archive_inv tiny_env alist_entries alist_entries (\<lambda>u. u) tiny_directory_sqsh"
    by (simp add: tiny_directory_length)
  have "get_header tiny_env (ar_superblock tiny_directory_sqsh) = window 0 96 tiny_directory_archive"
    using archive_superblock [OF inv] tiny_sqsh_bytes [of tiny_directory_archive 256]
    by (simp add: tiny_directory_length)
  moreover have "sqsh__data_superblock_block_log (window 0 96 tiny_directory_archive) = 17"
    "sqsh__data_superblock_inode_table_start (window 0 96 tiny_directory_archive) = 96"
    "sqsh__data_superblock_directory_table_start (window 0 96 tiny_directory_archive) = 96" by code_simp+
  ultimately show "sqsh_superblock_block_log tiny_env (ar_superblock tiny_directory_sqsh) = 17"
    "sqsh_superblock_inode_table_start tiny_env (ar_superblock tiny_directory_sqsh) = 96"
    "sqsh_superblock_directory_table_start tiny_env (ar_superblock tiny_directory_sqsh) = 96"
    by (simp_all add: sqsh_superblock_block_log_def sqsh_superblock_inode_table_start_def
        sqsh_superblock_directory_table_start_def)
qed

lemma tiny_directory_bytes: "ar_bytes (\<lambda>u. u) tiny_directory_sqsh = tiny_directory_archive"
  by (rule tiny_sqsh_bytes) (simp add: tiny_directory_length)

lemma tiny_directory_live: "archive_live tiny_env (\<lambda>u. u) tiny_directory_sqsh"
proof -
  have "sqsh__data_metablock_size (window 163 2 tiny_directory_archive) \<noteq> 0" by code_simp
  then show ?thesis by (intro tiny_sqsh_live) (simp_all add: tiny_directory_length)
qed

lemma tiny_directory_open:
  obtains f where "file_sane tiny_env alist_entries alist_entries (\<lambda>u. u) tiny_directory_sqsh f"
    "get_inode tiny_env f = tiny_directory_inode" "file_impl tiny_env f = sqsh__inode_directory_impl"
    "file_init_load tiny_env tiny_directory_sqsh (zero_file tiny_env tiny_directory_sqsh) (33 * 2 ^ 16) = (Ok, f)"
proof -
  let ?ref = "33 * 2 ^ 16"
  have "metablock_chain list_buffer (Some copy_codec) tiny_directory_archive 129 = [tiny_directory_inode]" by code_simp
  moreover have "sqsh_address_ref_outer_offset ?ref = 33" "sqsh_address_ref_inner_offset ?ref = 0" by code_simp+
  ultimately have tb: "inode_table_bytes tiny_env (\<lambda>u. u) tiny_directory_sqsh ?ref = ([tiny_directory_inode], 0)"
    by (simp add: inode_table_bytes_def ar_chain_def tiny_directory_bytes tiny_directory_inv)
  have ref: "(?ref::nat) < 2 ^ 64" by simp
  have "sqsh__data_inode_type tiny_directory_inode = 1" by code_simp
  then have ty: "inode_impl_of_type (sqsh__data_inode_type (drop 0 (concat [tiny_directory_inode])))
      = Some sqsh__inode_directory_impl" by (simp add: inode_impl_of_type_def inode_type_defs)
  have sz: "inode_bytes sqsh__inode_directory_impl tiny_directory_inode 17 = 32" by code_simp
  have reach: "chain_reaches [tiny_directory_inode] 0" using tiny_directory_length by auto
  from file_init_load_exact [OF tiny_directory_inv(1) ref tb reach tiny_directory_live ty] obtain f where
    "file_init_load tiny_env tiny_directory_sqsh (zero_file tiny_env tiny_directory_sqsh) ?ref = (Ok, f)"
    "file_sane tiny_env alist_entries alist_entries (\<lambda>u. u) tiny_directory_sqsh f"
    "get_impl tiny_env f = Some sqsh__inode_directory_impl" "get_inode tiny_env f = window 0 32 tiny_directory_inode"
    by (auto simp: tiny_directory_inv tiny_directory_length sz)
  then show thesis using that tiny_directory_length by (simp add: file_impl_def window_def)
qed

lemma tiny_directory_fields:
  assumes "get_inode tiny_env f = tiny_directory_inode" "file_impl tiny_env f = sqsh__inode_directory_impl"
  shows "sqsh_file_type tiny_env f = Some SQSH_FILE_TYPE_DIRECTORY" "sqsh_file_size tiny_env f = 34"
    "sqsh_file_directory_block_start tiny_env f = 0" "sqsh_file_directory_block_offset2 tiny_env f = 0"
    "\<not> sqsh_file_is_extended tiny_env f"
proof -
  have n: "ii_size sqsh__inode_directory_impl tiny_directory_inode = 34"
    "ii_directory_block_start sqsh__inode_directory_impl tiny_directory_inode = 0"
    "ii_directory_block_offset sqsh__inode_directory_impl tiny_directory_inode = 0"
    "sqsh__data_inode_type tiny_directory_inode = 1" by code_simp+
  show "sqsh_file_type tiny_env f = Some SQSH_FILE_TYPE_DIRECTORY" "sqsh_file_size tiny_env f = 34"
    "sqsh_file_directory_block_start tiny_env f = 0" "sqsh_file_directory_block_offset2 tiny_env f = 0"
    "\<not> sqsh_file_is_extended tiny_env f"
    using n by (simp_all add: sqsh_file_type_def file_type_of_type_def inode_type_defs assms
        sqsh_file_size_def sqsh_file_directory_block_start_def sqsh_file_directory_block_offset2_def
        sqsh_file_is_extended_def sqsh__inode_directory_impl_def)
qed

lemma tiny_directory_has_listing:
  assumes "get_inode tiny_env f = tiny_directory_inode" "file_impl tiny_env f = sqsh__inode_directory_impl"
  shows "directory_listing tiny_env (\<lambda>u. u) tiny_directory_sqsh f tiny_listing"
    "directory_address tiny_env tiny_directory_sqsh f = 96"
    "listing_entries tiny_listing =
      [\<lparr>en_name = [97], en_inode_ref = 0, en_inode = 2, en_type = Some SQSH_FILE_TYPE_FILE\<rparr>,
       \<lparr>en_name = [98, 99], en_inode_ref = 32, en_inode = 3, en_type = Some SQSH_FILE_TYPE_DIRECTORY\<rparr>]"
proof -
  note F = tiny_directory_fields [OF assms]
  show a: "directory_address tiny_env tiny_directory_sqsh f = 96"
    by (simp add: directory_address_def F tiny_directory_inv)
  have c: "metablock_chain list_buffer (Some copy_codec) tiny_directory_archive 96
    = [encode_listing tiny_listing, tiny_directory_inode]" by code_simp
  have ar: "sqsh_address_ref_create 0 0 = 0" "sqsh_address_ref_create 0 32 = 32" by code_simp+
  show es: "listing_entries tiny_listing =
      [\<lparr>en_name = [97], en_inode_ref = 0, en_inode = 2, en_type = Some SQSH_FILE_TYPE_FILE\<rparr>,
       \<lparr>en_name = [98, 99], en_inode_ref = 32, en_inode = 3, en_type = Some SQSH_FILE_TYPE_DIRECTORY\<rparr>]"
    by (simp add: tiny_listing_def run_entries_def entry_of_def ar)
  have "listing_ok tiny_listing"
    by (simp add: listing_ok_def es) (simp add: tiny_listing_def dir_run_ok_def dirent_ok_def name_valid_def)
  moreover have "bytes_at [encode_listing tiny_listing, tiny_directory_inode] 0 (encode_listing tiny_listing)"
    by (simp add: bytes_at_def window_def tiny_directory_length)
  ultimately show "directory_listing tiny_env (\<lambda>u. u) tiny_directory_sqsh f tiny_listing"
    by (simp add: directory_listing_def F a ar_chain_def tiny_directory_bytes c tiny_directory_length)
qed

theorem directory_listing_ends_witness:
  "\<exists>f. sqsh_file_type tiny_env f = Some SQSH_FILE_TYPE_DIRECTORY \<and>
     9 * length (snd (list_directory tiny_env (\<lambda>_. False) tiny_directory_sqsh f)) \<le> 34"
proof -
  obtain f where f: "file_sane tiny_env alist_entries alist_entries (\<lambda>u. u) tiny_directory_sqsh f"
    "get_inode tiny_env f = tiny_directory_inode" "file_impl tiny_env f = sqsh__inode_directory_impl"
    by (rule tiny_directory_open)
  then show ?thesis using directory_listing_ends [OF tiny_directory_inv(1) f(1), of "\<lambda>_. False"]
    tiny_directory_fields [OF f(2,3)] by auto
qed

theorem list_directory_exact_witness:
  "\<exists>f. sqsh_file_type tiny_env f = Some SQSH_FILE_TYPE_DIRECTORY \<and>
     list_directory tiny_env (\<lambda>_. True) tiny_directory_sqsh f = (Ok,
      [\<lparr>en_name = [97], en_inode_ref = 0, en_inode = 2, en_type = Some SQSH_FILE_TYPE_FILE\<rparr>,
       \<lparr>en_name = [98, 99], en_inode_ref = 32, en_inode = 3, en_type = Some SQSH_FILE_TYPE_DIRECTORY\<rparr>])"
proof -
  obtain f where f: "file_sane tiny_env alist_entries alist_entries (\<lambda>u. u) tiny_directory_sqsh f"
    "get_inode tiny_env f = tiny_directory_inode" "file_impl tiny_env f = sqsh__inode_directory_impl"
    by (rule tiny_directory_open)
  note L = tiny_directory_has_listing [OF f(2,3)]
  obtain rv es where l: "list_directory tiny_env (\<lambda>_. True) tiny_directory_sqsh f = (rv, es)" by fastforce
  have bt: "cx_buffer_total (env_buf tiny_env)" using tiny_directory_live by (simp add: archive_live_def)
  note X = list_directory_exact [OF tiny_directory_inv(1) f(1) L(1) l]
  have "rv = Ok" using X tiny_directory_live bt by (simp add: L(2) tiny_directory_bytes tiny_directory_length)
  then show ?thesis using X l tiny_directory_fields(1) [OF f(2,3)] by (auto simp: L(3))
qed

theorem directory_entries_well_formed_witness:
  "\<exists>f rv es. list_directory tiny_env (\<lambda>_. True) tiny_directory_sqsh f = (rv, es) \<and>
     sqsh_file_size tiny_env f = 34 \<and> distinct (map en_name es)"
proof -
  obtain f where f: "file_sane tiny_env alist_entries alist_entries (\<lambda>u. u) tiny_directory_sqsh f"
    "get_inode tiny_env f = tiny_directory_inode" "file_impl tiny_env f = sqsh__inode_directory_impl"
    by (rule tiny_directory_open)
  obtain rv es where l: "list_directory tiny_env (\<lambda>_. True) tiny_directory_sqsh f = (rv, es)" by fastforce
  from directory_entries_well_formed [OF tiny_directory_inv(1) f(1) l] l show ?thesis
    using tiny_directory_fields(2) [OF f(2,3)] by auto
qed

text \<open>A new iterator at the small directory.\<close>

lemma tiny_directory_iterator:
  obtains f it where "file_sane tiny_env alist_entries alist_entries (\<lambda>u. u) tiny_directory_sqsh f"
    "get_inode tiny_env f = tiny_directory_inode" "file_impl tiny_env f = sqsh__inode_directory_impl"
    "sqsh_directory_iterator_new tiny_env tiny_directory_sqsh f = (Ok, Some it)" "di_file it = f"
    "directory_iterator_sane tiny_env alist_entries alist_entries (\<lambda>u. u) it"
    "listing_at tiny_env alist_entries alist_entries (\<lambda>u. u) (ar_chain tiny_env (\<lambda>u. u) tiny_directory_sqsh) 96
      it (listing_entries tiny_listing)"
    "last_name it = []" "sqsh_file_inode_ref f = 33 * 2 ^ 16" "cx_buffer_total (env_buf tiny_env)"
    "metablock_live tiny_env (\<lambda>u. u) (rd_iterator (di_metablock it))"
proof -
  obtain f where f: "file_sane tiny_env alist_entries alist_entries (\<lambda>u. u) tiny_directory_sqsh f"
    "get_inode tiny_env f = tiny_directory_inode" "file_impl tiny_env f = sqsh__inode_directory_impl"
    "file_init_load tiny_env tiny_directory_sqsh (zero_file tiny_env tiny_directory_sqsh) (33 * 2 ^ 16) = (Ok, f)"
    by (rule tiny_directory_open)
  note F = tiny_directory_fields [OF f(2,3)] and L = tiny_directory_has_listing [OF f(2,3)]
  obtain rv it where i: "sqsh__directory_iterator_init tiny_env tiny_directory_sqsh
    (zero_directory_iterator tiny_env tiny_directory_sqsh f) f = (rv, it)" by fastforce
  note I = directory_iterator_init_correct [OF tiny_directory_inv(1) f(1) i]
  have rv: "rv = Ok" "metablock_live tiny_env (\<lambda>u. u) (rd_iterator (di_metablock it))"
    using I(3) [OF tiny_directory_live F(1)] by (simp_all add: F L(2) tiny_directory_bytes tiny_directory_length)
  note T = directory_iterator_init_listing [OF tiny_directory_inv(1) f(1) L(1) i [unfolded rv(1)]]
  obtain bl off where "inode_table_bytes tiny_env (\<lambda>u. u) tiny_directory_sqsh (33 * 2 ^ 16) = (bl, off)" by fastforce
  then have "fl_inode_ref f = 33 * 2 ^ 16"
    using file_init_load_correct [OF tiny_directory_inv(1) _ refl _ f(4)] by simp
  then show thesis using that [OF f(1-3), of it] I(2) [OF rv(1)] T rv i tiny_directory_live
    by (simp add: sqsh_directory_iterator_new_def L(2) sqsh_file_inode_ref_def archive_live_def)
qed

theorem directory_lookup_exact_witness:
  "\<exists>f it it' ar'. sqsh_directory_iterator_new tiny_env tiny_directory_sqsh f = (Ok, Some it) \<and>
     sqsh_directory_iterator_lookup tiny_env list_hash_map (\<lambda>_. True) tiny_directory_sqsh it [98, 99]
       = (Ok, it', ar') \<and> en_inode (current_entry tiny_env it') = 3 \<and>
     fst (sqsh_directory_iterator_lookup tiny_env list_hash_map (\<lambda>_. True) tiny_directory_sqsh it [98])
       = Err SQSH_ERROR_NO_SUCH_FILE"
proof -
  obtain f it where f: "file_sane tiny_env alist_entries alist_entries (\<lambda>u. u) tiny_directory_sqsh f"
    "get_inode tiny_env f = tiny_directory_inode" "file_impl tiny_env f = sqsh__inode_directory_impl"
    "sqsh_directory_iterator_new tiny_env tiny_directory_sqsh f = (Ok, Some it)"
    "cx_buffer_total (env_buf tiny_env)" using tiny_directory_iterator by metis
  note F = tiny_directory_fields [OF f(2,3)] and L = tiny_directory_has_listing [OF f(2,3)]
  let ?look = "sqsh_directory_iterator_lookup tiny_env list_hash_map (\<lambda>_. True) tiny_directory_sqsh it"
  note X = directory_lookup_exact [OF tiny_directory_inv(1) f(1) L(1) F(5) f(4)]
  obtain rv it' ar' where a: "?look [98, 99] = (rv, it', ar')" by (rule prod_cases3)
  obtain rv2 it2 ar2 where b: "?look [98] = (rv2, it2, ar2)" by (rule prod_cases3)
  have "rv = Ok" using X [OF a] tiny_directory_live f(5)
    by (simp add: L(2,3) tiny_directory_bytes tiny_directory_length)
  moreover from this have "en_inode (current_entry tiny_env it') = 3" using X [OF a] by (auto simp: L(3))
  moreover have "rv2 = Err SQSH_ERROR_NO_SUCH_FILE" using X [OF b] tiny_directory_live f(5)
    by (simp add: L(2,3) tiny_directory_bytes tiny_directory_length)
  ultimately have "?look [98, 99] = (Ok, it', ar') \<and> en_inode (current_entry tiny_env it') = 3 \<and>
     fst (?look [98]) = Err SQSH_ERROR_NO_SUCH_FILE" using a b by simp
  then show ?thesis using f(4) by blast
qed

theorem directory_lookup_sound_witness:
  "\<exists>f it. sqsh_directory_iterator_new tiny_env tiny_directory_sqsh f = (Ok, Some it) \<and>
     fst (sqsh_directory_iterator_lookup tiny_env list_hash_map (\<lambda>_. False) tiny_directory_sqsh it [47])
       \<notin> {Diverge, Fault, Ok}"
proof -
  obtain f it where f: "file_sane tiny_env alist_entries alist_entries (\<lambda>u. u) tiny_directory_sqsh (di_file it)"
    "sqsh_directory_iterator_new tiny_env tiny_directory_sqsh f = (Ok, Some it)"
    "directory_iterator_sane tiny_env alist_entries alist_entries (\<lambda>u. u) it"
    "sqsh_file_inode_ref (di_file it) = 33 * 2 ^ 16" by (rule tiny_directory_iterator) metis
  obtain rv it' ar' where a: "sqsh_directory_iterator_lookup tiny_env list_hash_map (\<lambda>_. False)
    tiny_directory_sqsh it [47] = (rv, it', ar')" by (rule prod_cases3)
  have lk: "safe_rv (env_lock tiny_env)" by (simp add: tiny_env_def)
  have "sqsh_file_inode_ref (di_file it) < 2 ^ 64" using f(4) by simp
  from directory_lookup_sound [OF tiny_directory_inv(1) lk tiny_hash_map f(3,1) this a]
  have "rv \<notin> {Diverge, Fault, Ok}" by (auto simp: name_valid_def)
  then have "fst (sqsh_directory_iterator_lookup tiny_env list_hash_map (\<lambda>_. False) tiny_directory_sqsh it [47])
    \<notin> {Diverge, Fault, Ok}" using a by simp
  then show ?thesis using f(2) by (intro exI conjI)
qed

theorem directory_entry_refused_witness:
  "\<exists>f it it'. sqsh_directory_iterator_new tiny_env tiny_directory_sqsh f = (Ok, Some it) \<and>
     sqsh_directory_iterator_next tiny_env (\<lambda>_. True) it = (True, Ok, it')"
proof -
  obtain f it where f:
    "sqsh_directory_iterator_new tiny_env tiny_directory_sqsh f = (Ok, Some it)"
    "directory_iterator_sane tiny_env alist_entries alist_entries (\<lambda>u. u) it"
    "listing_at tiny_env alist_entries alist_entries (\<lambda>u. u) (ar_chain tiny_env (\<lambda>u. u) tiny_directory_sqsh) 96
      it (listing_entries tiny_listing)"
    "last_name it = []" "cx_buffer_total (env_buf tiny_env)"
    "metablock_live tiny_env (\<lambda>u. u) (rd_iterator (di_metablock it))"
    and fi: "get_inode tiny_env f = tiny_directory_inode" "file_impl tiny_env f = sqsh__inode_directory_impl"
    by (rule tiny_directory_iterator) metis
  note L = tiny_directory_has_listing [OF fi]
  obtain b r1 j where n: "directory_iterator_next tiny_env it = (b, r1, j)" by (rule prod_cases3)
  note T = directory_iterator_next_listing [OF f(3) n]
  have b: b using T(4) [OF f(5,6)] by (simp add: L(3))
  have r1: "r1 = Ok" using directory_iterator_next_safe(2) [OF f(2) n b] .
  have ld: "entry_loaded tiny_env j" using directory_iterator_next_safe(3) [OF f(2) n b] by simp
  have nm: "sqsh_directory_iterator_name tiny_env j = [97]"
    using T(3) [OF b] by (simp add: sqsh_directory_iterator_name_def entry_loaded_name(1) [OF ld] L(3))
  have v: "sqsh_directory_iterator_file_type tiny_env j = Some SQSH_FILE_TYPE_FILE" "entry_inode tiny_env j = 2"
    using T(3) [OF b] by (simp_all add: L(3))
  obtain hn rv it' where x: "sqsh_directory_iterator_next tiny_env (\<lambda>_. True) it = (hn, rv, it')"
    by (rule prod_cases3)
  have n': "directory_iterator_next tiny_env it = (True, Ok, j)" using n b r1 by simp
  have m: "\<forall>n. (\<lambda>_. True) n" by simp
  from directory_entry_refused [OF f(2) m n' x] have "hn" "rv = Ok"
    by (simp_all add: nm v f(4) name_valid_def)
  then show ?thesis using f(1) x by auto
qed

section \<open>A limit of the index\<close>

text \<open>
  The position that the index gives is added in 16 bits before it is reduced to the offset in its
  metablock: every name behind the first 64 KiB of a listing with an index is reported as an
  overflow, whatever the listing holds.
\<close>

lemma index_lookup_far:
  assumes "sqsh_file_is_extended env (di_file it)"
    and "sqsh__directory_index_iterator_init env ho
      \<lparr>dx_file = zero_file env ar, dx_remaining_entries = 0, dx_next_offset = 0\<rparr>
      ar (sqsh_file_inode_ref (di_file it)) = (Ok, dx, a)"
    and "index_loop (Suc (dx_remaining_entries dx)) env name dx
      (sqsh_file_directory_block_start env (di_file it)) 0 = (Ok, dx', outer, idx)"
    and "2 ^ 16 \<le> di_next_offset it + idx"
  shows "fst (sqsh_directory_iterator_lookup env ho mem ar it name) = Err SQSH_ERROR_INTEGER_OVERFLOW"
  using assms
  by (simp add: sqsh_directory_iterator_lookup_def directory_iterator_index_lookup_def add_overflow_def
      Let_def del: index_loop.simps lookup_loop.simps)

end
