(* ===== verification/Sqsh_Xattr.thy ===== *)
theory Sqsh_Xattr
  imports Sqsh_Listing
begin

unbundle bit_operations_syntax

text \<open>
  Extended attributes: \<^verbatim>\<open>libsqsh/src/xattr/xattr_iterator.c\<close>. The attributes of a file are consecutive
  in a chain of metablocks; the value of an attribute is either behind its key or, when the type of
  the key has bit 8 set, at a reference that stands in the place of the value. The iterator has one
  reader for the keys and another one for such a value.
\<close>

section \<open>The iterator\<close>

definition SQSH_XATTR_USER :: nat where "SQSH_XATTR_USER = 0"
definition SQSH_XATTR_TRUSTED :: nat where "SQSH_XATTR_TRUSTED = 1"
definition SQSH_XATTR_SECURITY :: nat where "SQSH_XATTR_SECURITY = 2"

record ('u, 'c, 'b, 'e, 'x, 'h) xattr_iterator =
  xi_archive :: "('u, 'c, 'b, 'e, 'x, 'h) sqsh_archive"
  xi_metablock :: "('u, 'c, 'b, 'e, 'x) metablock_reader"
  xi_out_of_line_value :: "('u, 'c, 'b, 'e, 'x) metablock_reader"
  xi_context :: "('u, 'c, 'b) xattr_table"
  xi_remaining_entries :: nat
  xi_remaining_size :: nat
  xi_upper_limit :: nat
  xi_next_offset :: nat
  xi_value_index :: nat

definition sqsh__xattr_iterator_cleanup ::
  "('c, 'b, 'e) sqsh_env \<Rightarrow> ('u, 'c, 'b, 'e, 'x, 'h) xattr_iterator \<Rightarrow>
   rv \<times> ('u, 'c, 'b, 'e, 'x, 'h) xattr_iterator" where
  "sqsh__xattr_iterator_cleanup env iterator =
     (Ok, iterator\<lparr>
        xi_out_of_line_value := snd (sqsh__metablock_reader_cleanup env (xi_out_of_line_value iterator)),
        xi_metablock := snd (sqsh__metablock_reader_cleanup env (xi_metablock iterator))\<rparr>)"

definition sqsh__xattr_iterator_init ::
  "('c, 'b, 'e) sqsh_env \<Rightarrow> ('u, 'c, 'b, 'e, 'x, 'h) xattr_iterator \<Rightarrow>
   ('u, 'c, 'b, 'e, 'x, 'h) sqsh_archive \<Rightarrow> ('u, 'c, 'b, 'e, 'x) sqsh_file \<Rightarrow>
   rv \<times> ('u, 'c, 'b, 'e, 'x, 'h) xattr_iterator \<times> ('u, 'c, 'b, 'e, 'x, 'h) sqsh_archive" where
  "sqsh__xattr_iterator_init env iterator sqsh file =
     (let superblock = ar_superblock sqsh;
          index = sqsh_file_xattr_index env file
      in if index = SQSH_INODE_NO_XATTR \<or> \<not> sqsh_superblock_has_xattr_table env superblock
         then (Ok, iterator\<lparr>xi_remaining_entries := 0\<rparr>, sqsh)
         else case sqsh_archive_xattr_table env sqsh of (rv, xattr_table, sqsh) \<Rightarrow>
           if rv \<noteq> Ok then (rv, iterator, sqsh)
           else case xattr_table of
             None \<Rightarrow> (Err SQSH_ERROR_CORRUPTED_INODE, iterator, sqsh)
           | Some xattr_table \<Rightarrow>
               (case sqsh__xattr_table_get env sqsh xattr_table index of (rv, ref) \<Rightarrow>
                  if rv \<noteq> Ok then (rv, snd (sqsh__xattr_iterator_cleanup env iterator), sqsh)
                  else let address_ref = sqsh__data_xattr_lookup_table_xattr_ref ref;
                           inner_offset = sqsh_address_ref_inner_offset address_ref;
                           outer_offset = sqsh_address_ref_outer_offset address_ref;
                           archive_size = sqsh_superblock_bytes_used env superblock
                       in case add_overflow 64 (sqsh__xattr_table_start env xattr_table) outer_offset of
                            None \<Rightarrow> (Err SQSH_ERROR_INTEGER_OVERFLOW,
                                     snd (sqsh__xattr_iterator_cleanup env iterator), sqsh)
                          | Some start_block \<Rightarrow>
                              (case sqsh__metablock_reader_init env (ar_map_manager sqsh)
                                      (ar_metablock_manager sqsh) start_block archive_size
                                      (xi_metablock iterator) of (rv, r) \<Rightarrow>
                                 (let iterator = iterator\<lparr>xi_metablock := r\<rparr>
                                  in if rv \<noteq> Ok
                                     then (rv, snd (sqsh__xattr_iterator_cleanup env iterator), sqsh)
                                     else (Ok, iterator\<lparr>
                                       xi_remaining_entries := sqsh__data_xattr_lookup_table_count ref,
                                       xi_remaining_size := sqsh__data_xattr_lookup_table_size ref,
                                       xi_next_offset := inner_offset,
                                       xi_value_index := 0,
                                       xi_context := xattr_table,
                                       xi_archive := sqsh,
                                       xi_upper_limit := archive_size\<rparr>, sqsh)))))"

definition zero_xattr_iterator ::
  "('c, 'b, 'e) sqsh_env \<Rightarrow> ('u, 'c, 'b, 'e, 'x, 'h) sqsh_archive \<Rightarrow>
   ('u, 'c, 'b, 'e, 'x, 'h) xattr_iterator" where
  "zero_xattr_iterator env archive =
     (let r = zero_metablock_reader env (ar_map_manager archive) (ar_metablock_manager archive);
          m = zero_map_reader env (ar_map_manager archive)
      in \<lparr>xi_archive = archive, xi_metablock = r, xi_out_of_line_value = r,
          xi_context = \<lparr>xt_header = m, xt_table = \<lparr>tb_lookup_table = m, tb_element_size = 0,
                          tb_element_count = 0\<rparr>\<rparr>,
          xi_remaining_entries = 0, xi_remaining_size = 0, xi_upper_limit = 0, xi_next_offset = 0,
          xi_value_index = 0\<rparr>)"

definition sqsh_xattr_iterator_new ::
  "('c, 'b, 'e) sqsh_env \<Rightarrow> ('u, 'c, 'b, 'e, 'x, 'h) sqsh_archive \<Rightarrow> ('u, 'c, 'b, 'e, 'x) sqsh_file \<Rightarrow>
   rv \<times> ('u, 'c, 'b, 'e, 'x, 'h) xattr_iterator option \<times> ('u, 'c, 'b, 'e, 'x, 'h) sqsh_archive" where
  "sqsh_xattr_iterator_new env archive file =
     (case sqsh__xattr_iterator_init env (zero_xattr_iterator env archive) archive file of
        (rv, it, archive) \<Rightarrow> (rv, if rv = Ok then Some it else None, archive))"

section \<open>The current attribute\<close>

definition get_value ::
  "('c, 'b, 'e) sqsh_env \<Rightarrow> ('u, 'c, 'b, 'e, 'x, 'h) xattr_iterator \<Rightarrow> byte list" where
  "get_value env iterator =
     (let source = (if xi_value_index iterator = 0 then xi_out_of_line_value iterator
                    else xi_metablock iterator)
      in drop (xi_value_index iterator) (sqsh__metablock_reader_data env source))"

definition get_key ::
  "('c, 'b, 'e) sqsh_env \<Rightarrow> ('u, 'c, 'b, 'e, 'x, 'h) xattr_iterator \<Rightarrow> byte list" where
  "get_key env iterator = sqsh__metablock_reader_data env (xi_metablock iterator)"

definition sqsh_xattr_iterator_type where
  "sqsh_xattr_iterator_type env iterator =
     sqsh__data_xattr_key_type (get_key env iterator) AND (2 ^ 16 - 1 - 0x0100)"

definition sqsh_xattr_iterator_is_indirect where
  "sqsh_xattr_iterator_is_indirect env iterator \<longleftrightarrow>
     sqsh__data_xattr_key_type (get_key env iterator) AND 0x0100 \<noteq> 0"

definition sqsh_xattr_iterator_name where
  "sqsh_xattr_iterator_name env iterator = sqsh__data_xattr_key_name (get_key env iterator)"

definition sqsh_xattr_iterator_name_size where
  "sqsh_xattr_iterator_name_size env iterator = sqsh__data_xattr_key_name_size (get_key env iterator)"

text \<open>The bytes of \<^verbatim>\<open>"user."\<close>, \<^verbatim>\<open>"trusted."\<close> and \<^verbatim>\<open>"security."\<close>, by the type.\<close>

definition xattr_prefix :: "nat \<Rightarrow> byte list option" where
  "xattr_prefix type =
     (if type = SQSH_XATTR_USER then Some [117, 115, 101, 114, 46]
      else if type = SQSH_XATTR_TRUSTED then Some [116, 114, 117, 115, 116, 101, 100, 46]
      else if type = SQSH_XATTR_SECURITY then Some [115, 101, 99, 117, 114, 105, 116, 121, 46]
      else None)"

definition sqsh_xattr_iterator_prefix where
  "sqsh_xattr_iterator_prefix env iterator = xattr_prefix (sqsh_xattr_iterator_type env iterator)"

definition sqsh_xattr_iterator_prefix_size :: "('c, 'b, 'e) sqsh_env \<Rightarrow> ('u, 'c, 'b, 'e, 'x, 'h) xattr_iterator \<Rightarrow> nat" where
  "sqsh_xattr_iterator_prefix_size env iterator =
     (let type = sqsh_xattr_iterator_type env iterator
      in if type = SQSH_XATTR_USER then 5
         else if type = SQSH_XATTR_TRUSTED then 8
         else if type = SQSH_XATTR_SECURITY then 9
         else 0)"

definition sqsh_xattr_iterator_value where
  "sqsh_xattr_iterator_value env iterator = sqsh__data_xattr_value (get_value env iterator)"

definition sqsh_xattr_iterator_value_size2 where
  "sqsh_xattr_iterator_value_size2 env iterator = sqsh__data_xattr_value_size (get_value env iterator)"

definition sqsh_xattr_iterator_value_size where
  "sqsh_xattr_iterator_value_size env iterator = sqsh_xattr_iterator_value_size2 env iterator mod 2 ^ 16"

section \<open>Moving on\<close>

definition xattr_value_indirect_load ::
  "('c, 'b, 'e) sqsh_env \<Rightarrow> ('u, 'c, 'b, 'e, 'x, 'h) xattr_iterator \<Rightarrow>
   rv \<times> ('u, 'c, 'b, 'e, 'x, 'h) xattr_iterator" where
  "xattr_value_indirect_load env iterator =
     (let value = get_value env iterator
      in if sqsh__data_xattr_value_size value \<noteq> 8 then (Err SQSH_ERROR_SIZE_MISMATCH, iterator)
         else let ref = sqsh__data_xattr_value_ref value;
                  outer_offset = sqsh_address_ref_outer_offset ref;
                  inner_offset = sqsh_address_ref_inner_offset ref;
                  sz = sizeof_SqshDataXattrValue
              in case add_overflow 64 (sqsh__xattr_table_start env (xi_context iterator)) outer_offset of
                   None \<Rightarrow> (Err SQSH_ERROR_INTEGER_OVERFLOW, iterator)
                 | Some start_block \<Rightarrow>
                     (case sqsh__metablock_reader_init env (ar_map_manager (xi_archive iterator))
                             (ar_metablock_manager (xi_archive iterator)) start_block
                             (xi_upper_limit iterator) (xi_out_of_line_value iterator) of (rv, r) \<Rightarrow>
                        if rv \<noteq> Ok then (rv, iterator\<lparr>xi_out_of_line_value := r\<rparr>)
                        else case sqsh__metablock_reader_advance env r inner_offset sz of (rv, r) \<Rightarrow>
                          (let iterator = iterator\<lparr>xi_out_of_line_value := r\<rparr>
                           in if rv \<noteq> Ok then (rv, iterator)
                              else let iterator = iterator\<lparr>xi_value_index := 0\<rparr>;
                                       value = get_value env iterator;
                                       sz = sz + sqsh__data_xattr_value_size value
                                   in case sqsh__metablock_reader_advance env r 0 sz of (rv, r) \<Rightarrow>
                                        (rv, iterator\<lparr>xi_out_of_line_value := r\<rparr>))))"

text \<open>The end of \<^verbatim>\<open>sqsh_xattr_iterator_next\<close>; the size of what was read is 32-bit arithmetic.\<close>

definition xattr_account ::
  "('c, 'b, 'e) sqsh_env \<Rightarrow> nat \<Rightarrow> ('u, 'c, 'b, 'e, 'x, 'h) xattr_iterator \<Rightarrow>
   bool \<times> rv \<times> ('u, 'c, 'b, 'e, 'x, 'h) xattr_iterator" where
  "xattr_account env name_size iterator =
     (let processed_size = (sqsh_xattr_iterator_prefix_size env iterator + name_size +
            sqsh_xattr_iterator_value_size2 env iterator + 1) mod 2 ^ 32
      in case sub_overflow 64 (xi_remaining_size iterator) processed_size of
           None \<Rightarrow> (False, Err SQSH_ERROR_XATTR_SIZE_MISMATCH,
                    iterator\<lparr>xi_remaining_size := wrap_sub (xi_remaining_size iterator) processed_size\<rparr>)
         | Some remaining_size \<Rightarrow>
             (True, Ok, iterator\<lparr>xi_remaining_size := remaining_size,
                xi_remaining_entries := xi_remaining_entries iterator - 1\<rparr>))"

text \<open>The middle: the name, the header of the value and the value.\<close>

definition xattr_load_entry ::
  "('c, 'b, 'e) sqsh_env \<Rightarrow> ('u, 'c, 'b, 'e, 'x, 'h) xattr_iterator \<Rightarrow>
   bool \<times> rv \<times> ('u, 'c, 'b, 'e, 'x, 'h) xattr_iterator" where
  "xattr_load_entry env iterator =
     (let name_size = sqsh_xattr_iterator_name_size env iterator;
          sz = sizeof_SqshDataXattrKey + sizeof_SqshDataXattrValue + name_size
      in case sqsh__metablock_reader_advance env (xi_metablock iterator) 0 sz of (rv, r) \<Rightarrow>
           (let iterator = iterator\<lparr>xi_metablock := r\<rparr>
            in if rv \<noteq> Ok then (False, rv, iterator)
               else let iterator = iterator\<lparr>xi_value_index := sizeof_SqshDataXattrKey + name_size\<rparr>;
                        sz = sz + sqsh_xattr_iterator_value_size2 env iterator
                    in case sqsh__metablock_reader_advance env r 0 sz of (rv, r) \<Rightarrow>
                         (let iterator = iterator\<lparr>xi_metablock := r\<rparr>
                          in if rv \<noteq> Ok then (False, rv, iterator)
                             else let iterator = iterator\<lparr>xi_next_offset := sz\<rparr>
                                  in if sqsh_xattr_iterator_is_indirect env iterator
                                     then (case xattr_value_indirect_load env iterator of (rv, iterator) \<Rightarrow>
                                             if rv \<noteq> Ok then (False, rv, iterator)
                                             else xattr_account env name_size iterator)
                                     else xattr_account env name_size iterator)))"

definition sqsh_xattr_iterator_next ::
  "('c, 'b, 'e) sqsh_env \<Rightarrow> ('u, 'c, 'b, 'e, 'x, 'h) xattr_iterator \<Rightarrow>
   bool \<times> rv \<times> ('u, 'c, 'b, 'e, 'x, 'h) xattr_iterator" where
  "sqsh_xattr_iterator_next env iterator =
     (let iterator = iterator\<lparr>xi_out_of_line_value :=
            snd (sqsh__metablock_reader_cleanup env (xi_out_of_line_value iterator))\<rparr>
      in if xi_remaining_entries iterator = 0
         then (False, if xi_remaining_size iterator \<noteq> 0 then Err SQSH_ERROR_XATTR_SIZE_MISMATCH else Ok,
               iterator)
         else case sqsh__metablock_reader_advance env (xi_metablock iterator) (xi_next_offset iterator)
                     sizeof_SqshDataXattrKey of (rv, r) \<Rightarrow>
           (let iterator = iterator\<lparr>xi_metablock := r\<rparr>
            in if rv \<noteq> Ok then (False, rv, iterator)
               else if sqsh_xattr_iterator_prefix env iterator = None
               then (False, Err SQSH_ERROR_CORRUPTED_XATTR, iterator)
               else xattr_load_entry env iterator))"

section \<open>Names and values\<close>

text \<open>A C string is passed without its null byte, which \<^verbatim>\<open>strncmp\<close> sees.\<close>

definition sqsh_xattr_iterator_fullname_cmp ::
  "('c, 'b, 'e) sqsh_env \<Rightarrow> ('u, 'c, 'b, 'e, 'x, 'h) xattr_iterator \<Rightarrow> byte list \<Rightarrow> int" where
  "sqsh_xattr_iterator_fullname_cmp env iterator name =
     (case sqsh_xattr_iterator_prefix env iterator of
        None \<Rightarrow> - 1
      | Some prefix \<Rightarrow>
          (let prefix_len = sqsh_xattr_iterator_prefix_size env iterator;
               rv = strncmp prefix_len (name @ [0]) prefix
           in if rv \<noteq> 0 then rv
              else let name = drop prefix_len name;
                       xattr_name = sqsh_xattr_iterator_name env iterator
                   in if length name \<noteq> sqsh_xattr_iterator_name_size env iterator then - 1
                      else strncmp (sqsh_xattr_iterator_name_size env iterator) (name @ [0]) xattr_name))"

primrec xattr_lookup_loop ::
  "nat \<Rightarrow> ('c, 'b, 'e) sqsh_env \<Rightarrow> ('u, 'c, 'b, 'e, 'x, 'h) xattr_iterator \<Rightarrow> byte list \<Rightarrow>
   rv \<times> ('u, 'c, 'b, 'e, 'x, 'h) xattr_iterator" where
  "xattr_lookup_loop 0 env iterator name = (Diverge, iterator)"
| "xattr_lookup_loop (Suc fuel) env iterator name =
     (case sqsh_xattr_iterator_next env iterator of (has_next, rv, iterator) \<Rightarrow>
        if \<not> has_next then (if rv \<noteq> Ok then rv else Err SQSH_ERROR_NO_SUCH_XATTR, iterator)
        else let rv_cmp = sqsh_xattr_iterator_fullname_cmp env iterator name
             in if rv_cmp = 0 then (Ok, iterator)
                else if rv_cmp > 0 then (Err SQSH_ERROR_NO_SUCH_XATTR, iterator)
                else xattr_lookup_loop fuel env iterator name)"

text \<open>Every round takes one of the remaining entries, so that one more than these is enough.\<close>

definition sqsh_xattr_iterator_lookup ::
  "('c, 'b, 'e) sqsh_env \<Rightarrow> ('u, 'c, 'b, 'e, 'x, 'h) xattr_iterator \<Rightarrow> byte list \<Rightarrow>
   rv \<times> ('u, 'c, 'b, 'e, 'x, 'h) xattr_iterator" where
  "sqsh_xattr_iterator_lookup env iterator name =
     xattr_lookup_loop (Suc (xi_remaining_entries iterator)) env iterator name"

text \<open>The copies: \<open>mem\<close> says whether \<^verbatim>\<open>calloc\<close> delivers, \<^verbatim>\<open>cx_memdup\<close> is of cextras.\<close>

definition sqsh_xattr_iterator_fullname_dup ::
  "('c, 'b, 'e) sqsh_env \<Rightarrow> (nat \<Rightarrow> bool) \<Rightarrow> ('u, 'c, 'b, 'e, 'x, 'h) xattr_iterator \<Rightarrow>
   byte list option" where
  "sqsh_xattr_iterator_fullname_dup env mem iterator =
     (case sqsh_xattr_iterator_prefix env iterator of
        None \<Rightarrow> None
      | Some prefix \<Rightarrow>
          (let name = take (sqsh_xattr_iterator_name_size env iterator) (sqsh_xattr_iterator_name env iterator);
               sz = length prefix + sqsh_xattr_iterator_name_size env iterator
           in if \<not> mem (sz + 1) then None else Some (prefix @ name @ [0])))"

definition sqsh_xattr_iterator_value_dup ::
  "('c, 'b, 'e) sqsh_env \<Rightarrow> (byte list \<Rightarrow> byte list option) \<Rightarrow>
   ('u, 'c, 'b, 'e, 'x, 'h) xattr_iterator \<Rightarrow> byte list option" where
  "sqsh_xattr_iterator_value_dup env cx_memdup iterator =
     cx_memdup (take (sqsh_xattr_iterator_value_size2 env iterator) (sqsh_xattr_iterator_value env iterator))"

section \<open>Safety on any archive\<close>

definition xattr_iterator_sane where
  "xattr_iterator_sane env se ee src it \<longleftrightarrow>
     archive_inv env se ee src (xi_archive it) \<and>
     (xi_remaining_entries it \<noteq> 0 \<longrightarrow> metablock_reader_sane env se ee src (xi_metablock it) \<and>
       rd_iterator_offset (xi_metablock it) \<le> xi_next_offset it)"

text \<open>
  After a step the windows hold what the accessors of the attribute read: the key with its name, and
  the value.
\<close>

definition xattr_loaded where
  "xattr_loaded env it \<longleftrightarrow>
     sqsh_xattr_iterator_name_size env it \<le> length (sqsh_xattr_iterator_name env it) \<and>
     sqsh_xattr_iterator_prefix env it \<noteq> None \<and>
     length (sqsh_xattr_iterator_value env it) = sqsh_xattr_iterator_value_size2 env it \<and>
     4 \<le> length (get_key env it) \<and> 4 \<le> length (get_value env it)"

lemma xattr_start_bound: "sqsh__xattr_table_start env xt < 2 ^ 64"
  using get_le_bound [of 8 0 "sqsh__map_reader_data (env_maps env) (env_buf env) (xt_header xt)"]
  by (simp add: sqsh__xattr_table_start_def sqsh__data_xattr_id_table_xattr_table_start_def)

lemma xattr_indirect_safe:
  assumes inv: "archive_inv env se ee src (xi_archive it)"
    and eq: "xattr_value_indirect_load env it = (rv, it')"
  shows "safe_rv rv"
    "rv = Ok \<Longrightarrow> \<exists>r. it' = it\<lparr>xi_out_of_line_value := r, xi_value_index := 0\<rparr> \<and>
      length (get_value env it') = 4 + sqsh_xattr_iterator_value_size2 env it'"
proof -
  let ?v = "get_value env it" and ?ar = "xi_archive it"
  let ?ref = "sqsh__data_xattr_value_ref ?v"
  let ?start = "sqsh__xattr_table_start env (xi_context it) + sqsh_address_ref_outer_offset ?ref"
  let ?in = "sqsh_address_ref_inner_offset ?ref"
  have ok: "archive_ok env se ee src ?ar" using inv by (simp add: archive_inv_def)
  obtain r1 r where i: "sqsh__metablock_reader_init env (ar_map_manager ?ar) (ar_metablock_manager ?ar) ?start
    (xi_upper_limit it) (xi_out_of_line_value it) = (r1, r)" by fastforce
  obtain r2 r' where a: "sqsh__metablock_reader_advance env r ?in 4 = (r2, r')" by fastforce
  define n where "n = sqsh__data_xattr_value_size (sqsh__metablock_reader_data env r')"
  obtain r3 r'' where a2: "sqsh__metablock_reader_advance env r' 0 (4 + n) = (r3, r'')" by fastforce
  have n: "n < 2 ^ 32" using get_le_bound [of 4 0 "sqsh__metablock_reader_data env r'"]
    by (simp add: n_def sqsh__data_xattr_value_size_def)
  let ?it3 = "it\<lparr>xi_out_of_line_value := r'', xi_value_index := 0\<rparr>"
  have main: "if sqsh__data_xattr_value_size ?v \<noteq> 8 \<or> 2 ^ 64 \<le> ?start then safe_rv rv \<and> rv \<noteq> Ok
    else (rv, it') = (if r1 \<noteq> Ok then (r1, it\<lparr>xi_out_of_line_value := r\<rparr>)
      else if r2 \<noteq> Ok then (r2, it\<lparr>xi_out_of_line_value := r'\<rparr>) else (r3, ?it3))"
    using eq i a a2
    by (auto simp: xattr_value_indirect_load_def add_overflow_def sizeof_SqshDataXattrValue_def Let_def n_def
        get_value_def split: if_splits)
  have R1: "safe_rv r1 \<and> (r1 = Ok \<longrightarrow> metablock_reader_sane env se ee src r \<and> rd_iterator_offset r = 0)"
    if "?start < 2 ^ 64" using archive_reader_init [OF ok that i] by (auto simp: metablock_reader_sane_def)
  have R2: "safe_rv r2 \<and> (r2 = Ok \<longrightarrow> metablock_reader_sane env se ee src r' \<and> sqsh__metablock_reader_size r' = 4)"
    if "?start < 2 ^ 64" "r1 = Ok"
    using metablock_reader_advance_safe [OF _ _ _ a, of se ee src] R1 [OF that(1)] that(2)
    by (simp add: advance_supported_def)
  have R3: "safe_rv r3" "r3 = Ok \<Longrightarrow> length (sqsh__metablock_reader_data env r'') = 4 + n \<and>
      sqsh__data_xattr_value_size (sqsh__metablock_reader_data env r'') = n"
    if "?start < 2 ^ 64" "r1 = Ok" "r2 = Ok"
  proof -
    have s: "metablock_reader_sane env se ee src r'" "sqsh__metablock_reader_size r' = 4"
      using R2 that by auto
    note G = metablock_reader_grow [OF s(1) _ _ _ a2, unfolded s(2)]
    show "safe_rv r3" using G(1) n by simp
    assume "r3 = Ok"
    then have g: "length (sqsh__metablock_reader_data env r'') = 4 + n"
      "take 4 (sqsh__metablock_reader_data env r'') = sqsh__metablock_reader_data env r'" using G(2) n by simp_all
    have "get_le 4 0 (sqsh__metablock_reader_data env r'') = get_le 4 0 (sqsh__metablock_reader_data env r')"
      using get_le_take [of 0 4 4 "sqsh__metablock_reader_data env r''"] g(2) by simp
    then show "length (sqsh__metablock_reader_data env r'') = 4 + n \<and>
      sqsh__data_xattr_value_size (sqsh__metablock_reader_data env r'') = n"
      using g(1) by (simp add: n_def sqsh__data_xattr_value_size_def)
  qed
  show "safe_rv rv" using main R1 R2 R3(1) by (auto split: if_splits)
  assume "rv = Ok"
  then have o: "?start < 2 ^ 64" "r1 = Ok" "r2 = Ok" "r3 = Ok" "it' = ?it3" using main by (auto split: if_splits)
  show "\<exists>r. it' = it\<lparr>xi_out_of_line_value := r, xi_value_index := 0\<rparr> \<and>
      length (get_value env it') = 4 + sqsh_xattr_iterator_value_size2 env it'"
    using R3(2) [OF o(1-4)] o(5) by (auto simp: get_value_def sqsh_xattr_iterator_value_size2_def)
qed

lemma xattr_account_result:
  assumes "xattr_account env n it = (b, rv, it')"
  shows "safe_rv rv" "b = (rv = Ok)"
    "b \<Longrightarrow> \<exists>m. it' = it\<lparr>xi_remaining_size := m, xi_remaining_entries := xi_remaining_entries it - 1\<rparr> \<and>
      m + (sqsh_xattr_iterator_prefix_size env it + n + sqsh_xattr_iterator_value_size2 env it + 1) mod 2 ^ 32
        = xi_remaining_size it"
  using assms by (auto simp: xattr_account_def sub_overflow_def Let_def split: if_splits)

lemma xattr_accessors_upd [simp]:
  "get_key env (it\<lparr>xi_remaining_size := m\<rparr>) = get_key env it"
  "get_key env (it\<lparr>xi_remaining_entries := m\<rparr>) = get_key env it"
  "get_key env (it\<lparr>xi_out_of_line_value := r\<rparr>) = get_key env it"
  "get_key env (it\<lparr>xi_value_index := m\<rparr>) = get_key env it"
  "get_key env (it\<lparr>xi_next_offset := m\<rparr>) = get_key env it"
  "get_value env (it\<lparr>xi_remaining_size := m\<rparr>) = get_value env it"
  "get_value env (it\<lparr>xi_remaining_entries := m\<rparr>) = get_value env it"
  "get_value env (it\<lparr>xi_next_offset := m\<rparr>) = get_value env it"
  by (simp_all add: get_key_def get_value_def)

lemmas xattr_accessors =
  sqsh_xattr_iterator_name_size_def sqsh_xattr_iterator_name_def sqsh_xattr_iterator_prefix_def
  sqsh_xattr_iterator_type_def sqsh_xattr_iterator_value_def sqsh_xattr_iterator_value_size2_def
  sqsh_xattr_iterator_prefix_size_def sqsh_xattr_iterator_is_indirect_def

lemma take_key:
  assumes "take 4 d' = take 4 d"
  shows "sqsh__data_xattr_key_type d' = sqsh__data_xattr_key_type d"
    "sqsh__data_xattr_key_name_size d' = sqsh__data_xattr_key_name_size d"
  using get_le_take [of 0 2 4 d'] get_le_take [of 0 2 4 d] get_le_take [of 2 2 4 d'] get_le_take [of 2 2 4 d] assms
  by (simp_all add: sqsh__data_xattr_key_type_def sqsh__data_xattr_key_name_size_def)

lemma take_value_size:
  assumes "take (k + 4) d' = take (k + 4) d"
  shows "sqsh__data_xattr_value_size (drop k d') = sqsh__data_xattr_value_size (drop k d)"
proof -
  have "take 4 (drop k d') = take 4 (drop k d)" using assms by (metis add.commute take_drop)
  then show ?thesis using get_le_take [of 0 4 4 "drop k d'"] get_le_take [of 0 4 4 "drop k d"]
    by (simp add: sqsh__data_xattr_value_size_def)
qed

lemma xattr_load_entry_safe:
  assumes inv: "archive_inv env se ee src (xi_archive it)"
    and S: "metablock_reader_sane env se ee src (xi_metablock it)" "sqsh__metablock_reader_size (xi_metablock it) = 4"
    and pr: "sqsh_xattr_iterator_prefix env it \<noteq> None"
    and eq: "xattr_load_entry env it = (b, rv, it')"
  shows "safe_rv rv" "b = (rv = Ok)"
    "b \<Longrightarrow> xattr_iterator_sane env se ee src it' \<and> xattr_loaded env it' \<and>
      xi_remaining_entries it' = xi_remaining_entries it - 1 \<and> xi_archive it' = xi_archive it"
proof -
  let ?d = "get_key env it"
  define n where "n = sqsh__data_xattr_key_name_size ?d"
  have n: "n < 2 ^ 16" using get_le_bound [of 2 2 ?d] by (simp add: n_def sqsh__data_xattr_key_name_size_def)
  obtain r1 r where a1: "sqsh__metablock_reader_advance env (xi_metablock it) 0 (8 + n) = (r1, r)" by fastforce
  define d1 where "d1 = sqsh__metablock_reader_data env r"
  define m where "m = sqsh__data_xattr_value_size (drop (4 + n) d1)"
  have m: "m < 2 ^ 32" using get_le_bound [of 4 0 "drop (4 + n) d1"] by (simp add: m_def sqsh__data_xattr_value_size_def)
  obtain r2 r' where a2: "sqsh__metablock_reader_advance env r 0 (8 + n + m) = (r2, r')" by fastforce
  define d2 where "d2 = sqsh__metablock_reader_data env r'"
  define it2 where "it2 = it\<lparr>xi_value_index := 4 + n, xi_metablock := r', xi_next_offset := 8 + n + m\<rparr>"
  note G1 = metablock_reader_grow [OF S(1) _ _ _ a1, unfolded S(2)]
  have l1: "safe_rv r1" "r1 = Ok \<Longrightarrow> metablock_reader_sane env se ee src r \<and>
    sqsh__metablock_reader_size r = 8 + n \<and> take 4 d1 = ?d"
    using G1 n by (simp_all add: d1_def get_key_def)
  have l2: "safe_rv r2" "r2 = Ok \<Longrightarrow> metablock_reader_sane env se ee src r' \<and>
      sqsh__metablock_reader_size r' = 8 + n + m \<and> length d2 = 8 + n + m \<and> take (8 + n) d2 = d1" if "r1 = Ok"
  proof -
    have s: "metablock_reader_sane env se ee src r" "sqsh__metablock_reader_size r = 8 + n" using l1(2) that by auto
    note G = metablock_reader_grow [OF s(1) _ _ _ a2, unfolded s(2)]
    show "safe_rv r2" "r2 = Ok \<Longrightarrow> metablock_reader_sane env se ee src r' \<and>
      sqsh__metablock_reader_size r' = 8 + n + m \<and> length d2 = 8 + n + m \<and> take (8 + n) d2 = d1"
      using G n m by (simp_all add: d1_def d2_def)
  qed
  have pre: "sqsh_xattr_iterator_name_size env it = n" by (simp add: n_def sqsh_xattr_iterator_name_size_def)
  have vs: "sqsh_xattr_iterator_value_size2 env (it\<lparr>xi_metablock := r, xi_value_index := 4 + n\<rparr>) = m"
    by (simp add: sqsh_xattr_iterator_value_size2_def get_value_def m_def d1_def)
  obtain r3 it3 where ind: "xattr_value_indirect_load env it2 = (r3, it3)" by fastforce
  have main: "(b, rv, it') = (if r1 \<noteq> Ok then (False, r1, it\<lparr>xi_metablock := r\<rparr>)
    else if r2 \<noteq> Ok then (False, r2, it\<lparr>xi_value_index := 4 + n, xi_metablock := r'\<rparr>)
    else if sqsh_xattr_iterator_is_indirect env it2
      then (if r3 \<noteq> Ok then (False, r3, it3) else xattr_account env n it3)
    else xattr_account env n it2)"
    using eq a1 a2 ind pre vs
    by (cases "r1 = Ok"; cases "r2 = Ok"; cases "sqsh_xattr_iterator_is_indirect env it2")
      (simp_all add: xattr_load_entry_def sizeof_SqshDataXattrKey_def sizeof_SqshDataXattrValue_def Let_def it2_def)
  have inv2: "archive_inv env se ee src (xi_archive it2)" using inv by (simp add: it2_def)
  note I = xattr_indirect_safe [OF inv2 ind]
  have acc: "xattr_account env n j = (b, rv, it') \<Longrightarrow> safe_rv rv \<and> b = (rv = Ok)" for j
    using xattr_account_result(1,2) by metis
  have "safe_rv rv \<and> b = (rv = Ok)"
  proof (cases "r1 = Ok \<and> r2 = Ok")
    case False
    then show ?thesis using main l1(1) l2(1) by (cases "r1 = Ok") auto
  next
    case True
    then show ?thesis using main I(1) acc [of it2] acc [of it3]
      by (cases "sqsh_xattr_iterator_is_indirect env it2"; cases "r3 = Ok") auto
  qed
  then show "safe_rv rv" "b = (rv = Ok)" by simp_all
  assume b
  define j where "j = (if sqsh_xattr_iterator_is_indirect env it2 then it3 else it2)"
  have o: "r1 = Ok" "r2 = Ok" "xattr_account env n j = (b, rv, it')"
    "sqsh_xattr_iterator_is_indirect env it2 \<Longrightarrow> r3 = Ok"
    using \<open>b\<close> main by (auto simp: j_def split: if_splits)
  have D: "metablock_reader_sane env se ee src r'" "sqsh__metablock_reader_size r' = 8 + n + m"
    "length d2 = 8 + n + m" "take (8 + n) d2 = d1" "take 4 d1 = ?d" using l1(2) l2(2) o(1,2) by auto
  have e: "take (8 + n) d2 = take (8 + n) d1" unfolding D(4) [symmetric] by simp
  have "4 + n + 4 = 8 + n" by simp
  then have vs2: "sqsh__data_xattr_value_size (drop (4 + n) d2) = m"
    unfolding m_def using e by (intro take_value_size) (simp only:)
  have "take 4 d2 = take 4 d1" using arg_cong [OF e, of "take 4"] by (simp add: min_def)
  then have "take 4 d2 = take 4 ?d" unfolding D(5) [symmetric] by simp
  note tk = take_key [OF this]
  have keys: "get_key env j = d2" "xi_metablock j = r'" "xi_next_offset j = 8 + n + m"
    "xi_archive j = xi_archive it" "xi_remaining_entries j = xi_remaining_entries it"
    using I(2) o(4) by (auto simp: j_def it2_def d2_def get_key_def)
  have val: "length (get_value env j) = 4 + sqsh_xattr_iterator_value_size2 env j"
  proof (cases "sqsh_xattr_iterator_is_indirect env it2")
    case True
    then show ?thesis using I(2) o(4) by (auto simp: j_def)
  next
    case False
    have "get_value env it2 = drop (4 + n) d2" by (simp add: get_value_def it2_def d2_def)
    then show ?thesis using False D(3) vs2 by (simp add: j_def sqsh_xattr_iterator_value_size2_def)
  qed
  obtain k where it': "it' = j\<lparr>xi_remaining_size := k, xi_remaining_entries := xi_remaining_entries j - 1\<rparr>"
    using xattr_account_result(3) [OF o(3) \<open>b\<close>] by blast
  have "xattr_loaded env it'"
    using val keys(1) tk pr D(3) by (simp add: xattr_loaded_def it' xattr_accessors n_def
      sqsh__data_xattr_key_name_def sqsh__data_xattr_value_def sizeof_SqshDataXattrKey_def
      sizeof_SqshDataXattrValue_def)
  moreover have "rd_iterator_offset r' \<le> 8 + n + m" using metablock_reader_io [OF D(1)] D(2) by simp
  ultimately show "xattr_iterator_sane env se ee src it' \<and> xattr_loaded env it' \<and>
      xi_remaining_entries it' = xi_remaining_entries it - 1 \<and> xi_archive it' = xi_archive it"
    using keys inv D(1) by (simp add: xattr_iterator_sane_def it')
qed

lemma xattr_next_safe:
  assumes S: "xattr_iterator_sane env se ee src it"
    and eq: "sqsh_xattr_iterator_next env it = (b, rv, it')"
  shows "safe_rv rv" "b \<Longrightarrow> rv = Ok \<and> xattr_iterator_sane env se ee src it' \<and> xattr_loaded env it' \<and>
      xi_remaining_entries it = Suc (xi_remaining_entries it')"
proof -
  define i where "i = it\<lparr>xi_out_of_line_value :=
    snd (sqsh__metablock_reader_cleanup env (xi_out_of_line_value it))\<rparr>"
  obtain r1 r where a: "sqsh__metablock_reader_advance env (xi_metablock it) (xi_next_offset it) 4 = (r1, r)" by fastforce
  let ?j = "i\<lparr>xi_metablock := r\<rparr>"
  have main: "(b, rv, it') = (if xi_remaining_entries it = 0
      then (False, if xi_remaining_size it \<noteq> 0 then Err SQSH_ERROR_XATTR_SIZE_MISMATCH else Ok, i)
    else if r1 \<noteq> Ok then (False, r1, ?j)
    else if sqsh_xattr_iterator_prefix env ?j = None then (False, Err SQSH_ERROR_CORRUPTED_XATTR, ?j)
    else xattr_load_entry env ?j)"
    using eq a by (simp add: sqsh_xattr_iterator_next_def i_def Let_def sizeof_SqshDataXattrKey_def cong: if_cong)
  have "safe_rv rv \<and> (b \<longrightarrow> rv = Ok \<and> xattr_iterator_sane env se ee src it' \<and> xattr_loaded env it' \<and>
      xi_remaining_entries it = Suc (xi_remaining_entries it'))"
  proof (cases "xi_remaining_entries it = 0")
    case True
    then show ?thesis using main by (auto split: if_splits)
  next
    case nz: False
    then have D: "metablock_reader_sane env se ee src (xi_metablock it)"
      "rd_iterator_offset (xi_metablock it) \<le> xi_next_offset it" and inv: "archive_inv env se ee src (xi_archive it)"
      using S by (simp_all add: xattr_iterator_sane_def)
    have "advance_supported (xi_metablock it) (xi_next_offset it) 4" using D(2) by (simp add: advance_supported_def)
    note A = metablock_reader_advance_safe [OF D(1) this _ a]
    show ?thesis
    proof (cases "r1 = Ok \<and> sqsh_xattr_iterator_prefix env ?j \<noteq> None")
      case False
      then show ?thesis using main nz A by (auto split: if_splits)
    next
      case True
      then have l: "xattr_load_entry env ?j = (b, rv, it')" using main nz by (auto split: if_splits)
      have s: "metablock_reader_sane env se ee src (xi_metablock ?j)" "sqsh__metablock_reader_size (xi_metablock ?j) = 4"
        "archive_inv env se ee src (xi_archive ?j)" using A True inv by (simp_all add: i_def)
      show ?thesis using xattr_load_entry_safe [OF s(3,1,2) _ l] True nz by (simp add: i_def)
    qed
  qed
  then show "safe_rv rv" "b \<Longrightarrow> rv = Ok \<and> xattr_iterator_sane env se ee src it' \<and> xattr_loaded env it' \<and>
      xi_remaining_entries it = Suc (xi_remaining_entries it')" by simp_all
qed

section \<open>The format of the attributes\<close>

record xattr =
  xa_type :: nat
  xa_name :: "byte list"
  xa_value :: "byte list"
  xa_ref :: "nat option"

definition encode_value :: "byte list \<Rightarrow> byte list" where
  "encode_value v = le_bytes 4 (length v) @ v"

text \<open>What stands behind the key: the value, or the reference to it.\<close>

definition xattr_stored :: "xattr \<Rightarrow> byte list" where
  "xattr_stored x = (case xa_ref x of None \<Rightarrow> xa_value x | Some ref \<Rightarrow> le_bytes 8 ref)"

definition xattr_key :: "xattr \<Rightarrow> byte list" where
  "xattr_key x = le_bytes 2 (xa_type x + (if xa_ref x = None then 0 else 256)) @ le_bytes 2 (length (xa_name x))"

definition encode_xattr :: "xattr \<Rightarrow> byte list" where
  "encode_xattr x = xattr_key x @ xa_name x @ encode_value (xattr_stored x)"

definition encode_xattrs :: "xattr list \<Rightarrow> byte list" where
  "encode_xattrs xs = concat (map encode_xattr xs)"

definition xattr_full_name :: "xattr \<Rightarrow> byte list" where
  "xattr_full_name x = the (xattr_prefix (xa_type x)) @ xa_name x"

definition xattr_size :: "xattr \<Rightarrow> nat" where
  "xattr_size x = length (xattr_full_name x) + length (xa_value x) + 1"

definition xattr_ok ::
  "('c, 'b, 'e) sqsh_env \<Rightarrow> ('u \<Rightarrow> byte list) \<Rightarrow> ('u, 'c, 'b, 'e, 'x, 'h) sqsh_archive \<Rightarrow> nat \<Rightarrow>
   xattr \<Rightarrow> bool" where
  "xattr_ok env src ar start x \<longleftrightarrow>
     xa_type x \<le> 2 \<and> length (xa_name x) < 2 ^ 16 \<and> xattr_size x < 2 ^ 32 \<and>
     (\<forall>ref. xa_ref x = Some ref \<longrightarrow> ref < 2 ^ 64 \<and> start + sqsh_address_ref_outer_offset ref < 2 ^ 64 \<and>
        bytes_at (ar_chain env src ar (start + sqsh_address_ref_outer_offset ref))
          (sqsh_address_ref_inner_offset ref) (encode_value (xa_value x)))"

definition xattr_reachable ::
  "('u \<Rightarrow> byte list) \<Rightarrow> ('u, 'c, 'b, 'e, 'x, 'h) sqsh_archive \<Rightarrow> nat \<Rightarrow> xattr \<Rightarrow> bool" where
  "xattr_reachable src ar start x \<longleftrightarrow>
     (\<forall>ref. xa_ref x = Some ref \<longrightarrow> start + sqsh_address_ref_outer_offset ref < length (ar_bytes src ar))"

lemma xattr_type_cases:
  assumes "xattr_ok env src ar start x"
  shows "xa_type x = 0 \<or> xa_type x = 1 \<or> xa_type x = 2"
  using assms by (auto simp: xattr_ok_def)

lemma xattr_key_fields:
  assumes "xattr_ok env src ar start x"
  shows "sqsh__data_xattr_key_type (xattr_key x @ ys) AND (2 ^ 16 - 1 - 0x0100) = xa_type x"
    "sqsh__data_xattr_key_type (xattr_key x @ ys) AND 0x0100 \<noteq> 0 \<longleftrightarrow> xa_ref x \<noteq> None"
    "sqsh__data_xattr_key_name_size (xattr_key x @ ys) = length (xa_name x)"
    "length (xattr_key x) = 4"
proof -
  let ?t = "xa_type x + (if xa_ref x = None then 0 else 256)"
  have t: "?t < 256 ^ 2" using xattr_type_cases [OF assms] by auto
  have k: "sqsh__data_xattr_key_type (xattr_key x @ ys) = ?t"
    using get_le_le_bytes [OF _ t, of "[]" 0] by (simp add: sqsh__data_xattr_key_type_def xattr_key_def)
  show "sqsh__data_xattr_key_type (xattr_key x @ ys) AND (2 ^ 16 - 1 - 0x0100) = xa_type x"
    "sqsh__data_xattr_key_type (xattr_key x @ ys) AND 0x0100 \<noteq> 0 \<longleftrightarrow> xa_ref x \<noteq> None"
    unfolding k using xattr_type_cases [OF assms] by auto
  show "sqsh__data_xattr_key_name_size (xattr_key x @ ys) = length (xa_name x)"
    using assms get_le_le_bytes [of "le_bytes 2 ?t" 2 "length (xa_name x)" 2 ys]
    by (simp add: sqsh__data_xattr_key_name_size_def xattr_key_def xattr_ok_def)
  show "length (xattr_key x) = 4" by (simp add: xattr_key_def)
qed

lemma prefix_size:
  assumes "xattr_prefix (sqsh_xattr_iterator_type env it) = Some p"
  shows "sqsh_xattr_iterator_prefix_size env it = length p" "0 \<notin> set p"
  using assms by (auto simp: sqsh_xattr_iterator_prefix_size_def xattr_prefix_def Let_def
      SQSH_XATTR_USER_def SQSH_XATTR_TRUSTED_def SQSH_XATTR_SECURITY_def split: if_splits)

lemma encode_value_fields:
  assumes "length v < 2 ^ 32"
  shows "sqsh__data_xattr_value_size (encode_value v @ ys) = length v" "length (encode_value v) = 4 + length v"
    "sqsh__data_xattr_value (encode_value v) = v"
  using assms get_le_le_bytes [of "[]" 0 "length v" 4 "v @ ys"]
  by (simp_all add: encode_value_def sqsh__data_xattr_value_size_def sqsh__data_xattr_value_def
      sizeof_SqshDataXattrValue_def)

section \<open>Fetching known bytes\<close>

lemma reader_fetch:
  assumes at: "metablock_reader_at env se ee src B base r q" and io: "rd_iterator_offset r \<le> off"
    and bs: "bytes_at (B base) (q + off) (xs @ ys)" and n: "0 < length xs" "length xs < 2 ^ 64"
    and eq: "sqsh__metablock_reader_advance env r off (length xs) = (rv, r')"
  shows "rv = Ok \<Longrightarrow> metablock_reader_at env se ee src B base r' (q + off) \<and>
      sqsh__metablock_reader_size r' = length xs \<and> sqsh__metablock_reader_data env r' = xs"
    "cx_buffer_total (env_buf env) \<Longrightarrow> metablock_live env src (rd_iterator r) \<Longrightarrow>
      rv = Ok \<and> metablock_live env src (rd_iterator r')"
proof -
  have bx: "bytes_at (B base) (q + off) xs" by (rule bytes_at_append [OF bs])
  have "xs \<noteq> []" using n(1) by auto
  note R = bytes_atD [OF bx this]
  have sup: "advance_supported r off (length xs)" using io by (simp add: advance_supported_def)
  have w: "window (q + off) (length xs) (concat (B base)) = xs" using bx by (simp add: bytes_at_def)
  note A = metablock_reader_advance_general [OF at sup n(2) _ eq]
  show "rv = Ok \<Longrightarrow> metablock_reader_at env se ee src B base r' (q + off) \<and>
      sqsh__metablock_reader_size r' = length xs \<and> sqsh__metablock_reader_data env r' = xs"
    "cx_buffer_total (env_buf env) \<Longrightarrow> metablock_live env src (rd_iterator r) \<Longrightarrow>
      rv = Ok \<and> metablock_live env src (rd_iterator r')"
    using A R w n(1) by simp_all
qed

lemma reader_grow_at:
  assumes at: "metablock_reader_at env se ee src B base r p"
    and bs: "bytes_at (B base) p (xs @ ys)"
    and n: "0 < sqsh__metablock_reader_size r" "sqsh__metablock_reader_size r \<le> length xs" "length xs < 2 ^ 64"
    and eq: "sqsh__metablock_reader_advance env r 0 (length xs) = (rv, r')"
  shows "rv = Ok \<Longrightarrow> metablock_reader_at env se ee src B base r' p \<and>
      sqsh__metablock_reader_size r' = length xs \<and> sqsh__metablock_reader_data env r' = xs"
    "cx_buffer_total (env_buf env) \<Longrightarrow> metablock_live env src (rd_iterator r) \<Longrightarrow>
      rv = Ok \<and> metablock_live env src (rd_iterator r')"
proof -
  have bx: "bytes_at (B base) p xs" by (rule bytes_at_append [OF bs])
  have "xs \<noteq> []" using n(1,2) by auto
  note R = bytes_atD [OF bx this]
  have w: "window p (length xs) (concat (B base)) = xs" using bx by (simp add: bytes_at_def)
  show "rv = Ok \<Longrightarrow> metablock_reader_at env se ee src B base r' p \<and>
      sqsh__metablock_reader_size r' = length xs \<and> sqsh__metablock_reader_data env r' = xs"
    "cx_buffer_total (env_buf env) \<Longrightarrow> metablock_live env src (rd_iterator r) \<Longrightarrow>
      rv = Ok \<and> metablock_live env src (rd_iterator r')"
    using metablock_reader_extend [OF at n eq] R w by simp_all
qed

lemma xattr_indirect_at:
  assumes inv: "archive_inv env se ee src (xi_archive it)"
    and v: "get_value env it = encode_value (le_bytes 8 ref)"
    and x: "xattr_ok env src (xi_archive it) (sqsh__xattr_table_start env (xi_context it)) x" "xa_ref x = Some ref"
    and eq: "xattr_value_indirect_load env it = (rv, it')"
  shows "rv = Ok \<Longrightarrow> get_value env it' = encode_value (xa_value x)"
    "archive_live env src (xi_archive it) \<Longrightarrow>
      xattr_reachable src (xi_archive it) (sqsh__xattr_table_start env (xi_context it)) x \<Longrightarrow> rv = Ok"
proof -
  let ?ar = "xi_archive it"
  let ?start = "sqsh__xattr_table_start env (xi_context it) + sqsh_address_ref_outer_offset ref"
  let ?in = "sqsh_address_ref_inner_offset ref" and ?v = "xa_value x"
  have ok: "archive_ok env se ee src ?ar" using inv by (simp add: archive_inv_def)
  have X: "ref < 2 ^ 64" "?start < 2 ^ 64" "bytes_at (ar_chain env src ?ar ?start) ?in (encode_value ?v)"
    using x by (auto simp: xattr_ok_def)
  have vl: "length ?v < 2 ^ 32" using x(1) by (simp add: xattr_ok_def xattr_size_def)
  note V = encode_value_fields [OF vl]
  have r8: "length (le_bytes 8 ref) < 2 ^ 32" by simp
  note V8 = encode_value_fields [OF r8]
  have vr: "sqsh__data_xattr_value_ref (encode_value (le_bytes 8 ref)) = ref"
    "sqsh__data_xattr_value_size (encode_value (le_bytes 8 ref)) = 8"
    using V8(1) [of "[]"] V8(3) get_le_le_bytes [of "[]" 0 ref 8 "[]"] X(1)
    by (simp_all add: sqsh__data_xattr_value_ref_def)
  obtain r1 r where i: "sqsh__metablock_reader_init env (ar_map_manager ?ar) (ar_metablock_manager ?ar) ?start
    (xi_upper_limit it) (xi_out_of_line_value it) = (r1, r)" by fastforce
  note I = archive_reader_init [OF ok X(2) i]
  obtain r2 r' where a: "sqsh__metablock_reader_advance env r ?in 4 = (r2, r')" by fastforce
  obtain r3 r'' where a2: "sqsh__metablock_reader_advance env r' 0 (4 + length ?v) = (r3, r'')" by fastforce
  have A: "r2 = Ok \<longrightarrow> metablock_reader_at env se ee src (ar_chain env src ?ar) ?start r' ?in \<and>
      sqsh__metablock_reader_size r' = 4 \<and> sqsh__metablock_reader_data env r' = le_bytes 4 (length ?v)"
    "cx_buffer_total (env_buf env) \<longrightarrow> metablock_live env src (rd_iterator r) \<longrightarrow>
      r2 = Ok \<and> metablock_live env src (rd_iterator r')" if "r1 = Ok"
  proof -
    have ra: "metablock_reader_at env se ee src (ar_chain env src ?ar) ?start r 0" "rd_iterator_offset r \<le> ?in"
      using I that by simp_all
    have bs: "bytes_at (ar_chain env src ?ar ?start) (0 + ?in) (le_bytes 4 (length ?v) @ ?v)"
      using X(3) by (simp add: encode_value_def)
    have l: "0 < length (le_bytes 4 (length ?v))" "length (le_bytes 4 (length ?v)) < 2 ^ 64" by simp_all
    have a': "sqsh__metablock_reader_advance env r ?in (length (le_bytes 4 (length ?v))) = (r2, r')" using a by simp
    note T = reader_fetch [OF ra bs l a', unfolded length_le_bytes add_0]
    show "r2 = Ok \<longrightarrow> metablock_reader_at env se ee src (ar_chain env src ?ar) ?start r' ?in \<and>
      sqsh__metablock_reader_size r' = 4 \<and> sqsh__metablock_reader_data env r' = le_bytes 4 (length ?v)"
      "cx_buffer_total (env_buf env) \<longrightarrow> metablock_live env src (rd_iterator r) \<longrightarrow>
      r2 = Ok \<and> metablock_live env src (rd_iterator r')" using T by blast+
  qed
  have A2: "r3 = Ok \<longrightarrow> sqsh__metablock_reader_data env r'' = encode_value ?v"
    "cx_buffer_total (env_buf env) \<longrightarrow> metablock_live env src (rd_iterator r') \<longrightarrow> r3 = Ok"
    if "r1 = Ok" "r2 = Ok"
  proof -
    have ra: "metablock_reader_at env se ee src (ar_chain env src ?ar) ?start r' ?in"
      "0 < sqsh__metablock_reader_size r'" "sqsh__metablock_reader_size r' \<le> length (encode_value ?v)"
      using A(1) [OF that(1)] that(2) V(2) by simp_all
    have bs: "bytes_at (ar_chain env src ?ar ?start) ?in (encode_value ?v @ [])" using X(3) by simp
    have l: "length (encode_value ?v) < 2 ^ 64" using V(2) vl by simp
    have a2': "sqsh__metablock_reader_advance env r' 0 (length (encode_value ?v)) = (r3, r'')" using a2 V(2) by simp
    note T = reader_grow_at [OF ra(1) bs ra(2,3) l a2']
    show "r3 = Ok \<longrightarrow> sqsh__metablock_reader_data env r'' = encode_value ?v"
      "cx_buffer_total (env_buf env) \<longrightarrow> metablock_live env src (rd_iterator r') \<longrightarrow> r3 = Ok"
      using T by blast+
  qed
  have ns: "sqsh__data_xattr_value_size (sqsh__metablock_reader_data env r') = length ?v" if "r1 = Ok" "r2 = Ok"
    using A(1) that V(1) [of "[]"] get_le_le_bytes [of "[]" 0 "length ?v" 4 "[]"] vl
    by (simp add: sqsh__data_xattr_value_size_def)
  have gv: "get_value env (it\<lparr>xi_out_of_line_value := r', xi_value_index := 0\<rparr>)
    = sqsh__metablock_reader_data env r'" by (simp add: get_value_def)
  have main: "(rv, it') = (if r1 \<noteq> Ok then (r1, it\<lparr>xi_out_of_line_value := r\<rparr>)
      else if r2 \<noteq> Ok then (r2, it\<lparr>xi_out_of_line_value := r'\<rparr>)
      else (r3, it\<lparr>xi_out_of_line_value := r'', xi_value_index := 0\<rparr>))"
    using eq i a a2 X(2) ns
    by (cases "r1 = Ok"; cases "r2 = Ok")
      (auto simp: xattr_value_indirect_load_def add_overflow_def sizeof_SqshDataXattrValue_def Let_def v vr gv)
  show "rv = Ok \<Longrightarrow> get_value env it' = encode_value (xa_value x)"
    using main A2(1) by (auto simp: get_value_def split: if_splits)
  assume l: "archive_live env src ?ar"
    "xattr_reachable src ?ar (sqsh__xattr_table_start env (xi_context it)) x"
  then have "r1 = Ok" "metablock_live env src (rd_iterator r)" "cx_buffer_total (env_buf env)"
    using I x(2) by (auto simp: xattr_reachable_def archive_live_def)
  then show "rv = Ok" using main A(2) A2(2) by simp
qed

section \<open>The iterator as a list of attributes still to come\<close>

definition xattrs_at where
  "xattrs_at env se ee src B base it xs \<longleftrightarrow>
     archive_inv env se ee src (xi_archive it) \<and>
     xi_remaining_entries it = length xs \<and> xi_remaining_size it = sum_list (map xattr_size xs) \<and>
     xi_remaining_size it < 2 ^ 64 \<and>
     list_all (xattr_ok env src (xi_archive it) (sqsh__xattr_table_start env (xi_context it))) xs \<and>
     (xs \<noteq> [] \<longrightarrow> rd_iterator_offset (xi_metablock it) \<le> xi_next_offset it \<and>
       (\<exists>q. metablock_reader_at env se ee src B base (xi_metablock it) q \<and>
         bytes_at (B base) (q + xi_next_offset it) (encode_xattrs xs)))"

text \<open>What a caller sees of an attribute: its full name and its value.\<close>

definition current_xattr where
  "current_xattr env it =
     (the (sqsh_xattr_iterator_prefix env it) @
        take (sqsh_xattr_iterator_name_size env it) (sqsh_xattr_iterator_name env it),
      take (sqsh_xattr_iterator_value_size2 env it) (sqsh_xattr_iterator_value env it))"

definition xattr_pair :: "xattr \<Rightarrow> byte list \<times> byte list" where
  "xattr_pair x = (xattr_full_name x, xa_value x)"

definition xattrs_live where
  "xattrs_live env src it xs \<longleftrightarrow> archive_live env src (xi_archive it) \<and>
     (xs \<noteq> [] \<longrightarrow> metablock_live env src (rd_iterator (xi_metablock it))) \<and>
     list_all (xattr_reachable src (xi_archive it) (sqsh__xattr_table_start env (xi_context it))) xs"

lemma xattr_account_at:
  assumes "sqsh_xattr_iterator_prefix_size env it + n + sqsh_xattr_iterator_value_size2 env it + 1 = k" "k < 2 ^ 32"
    and "k \<le> xi_remaining_size it" "xi_remaining_size it < 2 ^ 64"
  shows "xattr_account env n it = (True, Ok, it\<lparr>xi_remaining_size := xi_remaining_size it - k,
    xi_remaining_entries := xi_remaining_entries it - 1\<rparr>)"
  using assms by (simp add: xattr_account_def sub_overflow_def Let_def)

lemma xattr_load_entry_at:
  assumes inv: "archive_inv env se ee src (xi_archive it)"
    and x: "xattr_ok env src (xi_archive it) (sqsh__xattr_table_start env (xi_context it)) x"
    and at: "metablock_reader_at env se ee src B base (xi_metablock it) p"
      "sqsh__metablock_reader_size (xi_metablock it) = 4" "get_key env it = xattr_key x"
    and bs: "bytes_at (B base) p (encode_xattr x @ ys)"
    and z: "xattr_size x \<le> xi_remaining_size it" "xi_remaining_size it < 2 ^ 64"
    and eq: "xattr_load_entry env it = (b, rv, it')"
  shows "b \<Longrightarrow> current_xattr env it' = xattr_pair x \<and> xi_archive it' = xi_archive it \<and>
      xi_context it' = xi_context it \<and> xi_remaining_entries it' = xi_remaining_entries it - 1 \<and>
      xi_remaining_size it' = xi_remaining_size it - xattr_size x \<and>
      xi_next_offset it' = length (encode_xattr x) \<and>
      metablock_reader_at env se ee src B base (xi_metablock it') p \<and>
      sqsh__metablock_reader_size (xi_metablock it') = length (encode_xattr x) \<and>
      sqsh_xattr_iterator_prefix env it' = xattr_prefix (xa_type x) \<and>
      sqsh_xattr_iterator_name_size env it' = length (xa_name x) \<and>
      take (length (xa_name x)) (sqsh_xattr_iterator_name env it') = xa_name x"
    "archive_live env src (xi_archive it) \<Longrightarrow> metablock_live env src (rd_iterator (xi_metablock it)) \<Longrightarrow>
      xattr_reachable src (xi_archive it) (sqsh__xattr_table_start env (xi_context it)) x \<Longrightarrow>
      b \<and> metablock_live env src (rd_iterator (xi_metablock it'))"
proof -
  let ?n = "length (xa_name x)" and ?s = "xattr_stored x"
  let ?xs1 = "xattr_key x @ xa_name x @ le_bytes 4 (length ?s)" and ?xs = "encode_xattr x"
  have key: "length (xattr_key x) = 4" using xattr_key_fields(4) [OF x] .
  have nl: "?n < 2 ^ 16" and sl: "length ?s < 2 ^ 32"
    using x by (auto simp: xattr_ok_def xattr_size_def xattr_stored_def split: option.split)
  note V = encode_value_fields [OF sl]
  have e1: "?xs = ?xs1 @ ?s" by (simp add: encode_xattr_def encode_value_def)
  have len: "length ?xs1 = 8 + ?n" "length ?xs = 8 + ?n + length ?s" using key by (simp_all add: e1)
  obtain r1 r where a1: "sqsh__metablock_reader_advance env (xi_metablock it) 0 (8 + ?n) = (r1, r)" by fastforce
  obtain r2 r' where a2: "sqsh__metablock_reader_advance env r 0 (8 + ?n + length ?s) = (r2, r')" by fastforce
  have A1: "r1 = Ok \<longrightarrow> metablock_reader_at env se ee src B base r p \<and> sqsh__metablock_reader_size r = 8 + ?n \<and>
      sqsh__metablock_reader_data env r = ?xs1"
    "cx_buffer_total (env_buf env) \<longrightarrow> metablock_live env src (rd_iterator (xi_metablock it)) \<longrightarrow>
      r1 = Ok \<and> metablock_live env src (rd_iterator r)"
    using reader_grow_at [OF at(1), of ?xs1 "?s @ ys" r1 r] bs at(2) len(1) a1 nl by (simp_all add: e1)
  have A2: "r2 = Ok \<longrightarrow> metablock_reader_at env se ee src B base r' p \<and>
      sqsh__metablock_reader_size r' = length ?xs \<and> sqsh__metablock_reader_data env r' = ?xs"
    "cx_buffer_total (env_buf env) \<longrightarrow> metablock_live env src (rd_iterator r) \<longrightarrow>
      r2 = Ok \<and> metablock_live env src (rd_iterator r')" if "r1 = Ok"
  proof -
    have ra: "metablock_reader_at env se ee src B base r p" "0 < sqsh__metablock_reader_size r"
      "sqsh__metablock_reader_size r \<le> length ?xs" using A1(1) that len(2) by simp_all
    have l: "length ?xs < 2 ^ 64" using len(2) nl sl by simp
    have a2': "sqsh__metablock_reader_advance env r 0 (length ?xs) = (r2, r')" using a2 len(2) by simp
    note T = reader_grow_at [OF ra(1) bs ra(2,3) l a2']
    show "r2 = Ok \<longrightarrow> metablock_reader_at env se ee src B base r' p \<and>
      sqsh__metablock_reader_size r' = length ?xs \<and> sqsh__metablock_reader_data env r' = ?xs"
      "cx_buffer_total (env_buf env) \<longrightarrow> metablock_live env src (rd_iterator r) \<longrightarrow>
      r2 = Ok \<and> metablock_live env src (rd_iterator r')" using T by blast+
  qed
  define it2 where "it2 = it\<lparr>xi_value_index := 4 + ?n, xi_metablock := r', xi_next_offset := 8 + ?n + length ?s\<rparr>"
  have pre: "sqsh_xattr_iterator_name_size env it = ?n"
    using xattr_key_fields(3) [OF x, of "[]"] at(3) by (simp add: sqsh_xattr_iterator_name_size_def)
  have vs: "sqsh_xattr_iterator_value_size2 env (it\<lparr>xi_metablock := r, xi_value_index := 4 + ?n\<rparr>) = length ?s"
    if "r1 = Ok"
    using A1(1) that key get_le_le_bytes [of "[]" 0 "length ?s" 4 "[]"] sl
    by (simp add: sqsh_xattr_iterator_value_size2_def get_value_def sqsh__data_xattr_value_size_def)
  have k2: "get_key env it2 = ?xs" if "r1 = Ok" "r2 = Ok" using A2(1) that by (simp add: get_key_def it2_def)
  have flag: "sqsh_xattr_iterator_is_indirect env it2 \<longleftrightarrow> xa_ref x \<noteq> None" if "r1 = Ok" "r2 = Ok"
    using xattr_key_fields(2) [OF x] k2 [OF that] by (simp add: sqsh_xattr_iterator_is_indirect_def encode_xattr_def)
  have v2: "get_value env it2 = encode_value ?s" if "r1 = Ok" "r2 = Ok"
    using A2(1) that key by (simp add: get_value_def it2_def encode_xattr_def)
  obtain r3 it3 where ind: "xattr_value_indirect_load env it2 = (r3, it3)" by fastforce
  have inv2: "archive_inv env se ee src (xi_archive it2)" and x2: "xattr_ok env src (xi_archive it2)
    (sqsh__xattr_table_start env (xi_context it2)) x" using inv x by (simp_all add: it2_def)
  have I: "xattr_value_indirect_load env it2 = (r3, it3)" "safe_rv r3" "r3 = Ok \<longrightarrow> (\<exists>w. it3 = it2\<lparr>xi_out_of_line_value := w, xi_value_index := 0\<rparr>)"
    using ind xattr_indirect_safe [OF inv2 ind] by auto
  have IV: "r3 = Ok \<longrightarrow> get_value env it3 = encode_value (xa_value x)"
    "archive_live env src (xi_archive it) \<longrightarrow>
      xattr_reachable src (xi_archive it) (sqsh__xattr_table_start env (xi_context it)) x \<longrightarrow> r3 = Ok"
    if "r1 = Ok" "r2 = Ok" "xa_ref x = Some ref" for ref
  proof -
    have "get_value env it2 = encode_value (le_bytes 8 ref)" using v2 that by (simp add: xattr_stored_def)
    note T = xattr_indirect_at [OF inv2 this x2 that(3) ind]
    show "r3 = Ok \<longrightarrow> get_value env it3 = encode_value (xa_value x)"
      "archive_live env src (xi_archive it) \<longrightarrow>
      xattr_reachable src (xi_archive it) (sqsh__xattr_table_start env (xi_context it)) x \<longrightarrow> r3 = Ok"
      using T by (simp_all add: it2_def)
  qed
  define j where "j = (if xa_ref x = None then it2 else it3)"
  have main: "(b, rv, it') = (if r1 \<noteq> Ok then (False, r1, it\<lparr>xi_metablock := r\<rparr>)
    else if r2 \<noteq> Ok then (False, r2, it\<lparr>xi_value_index := 4 + ?n, xi_metablock := r'\<rparr>)
    else if xa_ref x \<noteq> None \<and> r3 \<noteq> Ok then (False, r3, it3) else xattr_account env ?n j)"
    using eq a1 a2 ind pre vs flag
    by (cases "r1 = Ok"; cases "r2 = Ok"; cases "xa_ref x"; cases "r3 = Ok")
      (simp_all add: xattr_load_entry_def sizeof_SqshDataXattrKey_def sizeof_SqshDataXattrValue_def Let_def it2_def j_def)
  have J: "get_value env j = encode_value (xa_value x)" "get_key env j = ?xs" "xi_metablock j = r'"
    "xi_archive j = xi_archive it" "xi_context j = xi_context it" "xi_next_offset j = length ?xs"
    "xi_remaining_size j = xi_remaining_size it" "xi_remaining_entries j = xi_remaining_entries it"
    if "r1 = Ok" "r2 = Ok" "xa_ref x = None \<or> r3 = Ok"
  proof -
    show "get_value env j = encode_value (xa_value x)"
      using v2 IV(1) that by (cases "xa_ref x") (auto simp: j_def xattr_stored_def)
    show "get_key env j = ?xs" "xi_metablock j = r'"
    "xi_archive j = xi_archive it" "xi_context j = xi_context it" "xi_next_offset j = length ?xs"
    "xi_remaining_size j = xi_remaining_size it" "xi_remaining_entries j = xi_remaining_entries it"
      using I(3) that A2(1) len(2) by (auto simp: j_def it2_def get_key_def)
  qed
  have vl: "length (xa_value x) < 2 ^ 32" using x by (simp add: xattr_ok_def xattr_size_def)
  note W = encode_value_fields [OF vl]
  have ty: "xattr_prefix (xa_type x) \<noteq> None"
    using xattr_type_cases [OF x] by (auto simp: xattr_prefix_def SQSH_XATTR_USER_def SQSH_XATTR_TRUSTED_def SQSH_XATTR_SECURITY_def)
  have K: "sqsh_xattr_iterator_prefix env j = xattr_prefix (xa_type x)"
    "sqsh_xattr_iterator_name_size env j = ?n" "take ?n (sqsh_xattr_iterator_name env j) = xa_name x"
    "sqsh_xattr_iterator_prefix_size env j + ?n + sqsh_xattr_iterator_value_size2 env j + 1 = xattr_size x"
    "sqsh_xattr_iterator_value_size2 env j = length (xa_value x)" "sqsh_xattr_iterator_value env j = xa_value x"
    if "r1 = Ok" "r2 = Ok" "xa_ref x = None \<or> r3 = Ok"
  proof -
    note k = J(1,2) [OF that]
    have t: "sqsh_xattr_iterator_type env j = xa_type x"
      using xattr_key_fields(1) [OF x] by (simp add: sqsh_xattr_iterator_type_def k(2) encode_xattr_def)
    show "sqsh_xattr_iterator_prefix env j = xattr_prefix (xa_type x)"
      by (simp add: sqsh_xattr_iterator_prefix_def t)
    show "sqsh_xattr_iterator_name_size env j = ?n"
      using xattr_key_fields(3) [OF x] by (simp add: sqsh_xattr_iterator_name_size_def k(2) encode_xattr_def)
    show "take ?n (sqsh_xattr_iterator_name env j) = xa_name x"
      using key by (simp add: sqsh_xattr_iterator_name_def k(2) encode_xattr_def sqsh__data_xattr_key_name_def
          sizeof_SqshDataXattrKey_def)
    show v: "sqsh_xattr_iterator_value_size2 env j = length (xa_value x)" "sqsh_xattr_iterator_value env j = xa_value x"
      using W(1) [of "[]"] W(3) by (simp_all add: sqsh_xattr_iterator_value_size2_def sqsh_xattr_iterator_value_def k(1))
    obtain pf where pf: "xattr_prefix (sqsh_xattr_iterator_type env j) = Some pf" using ty t by auto
    from prefix_size(1) [OF pf]
    show "sqsh_xattr_iterator_prefix_size env j + ?n + sqsh_xattr_iterator_value_size2 env j + 1 = xattr_size x"
      using pf t by (simp add: v xattr_size_def xattr_full_name_def)
  qed
  have acc: "xattr_account env ?n j = (True, Ok, j\<lparr>xi_remaining_size := xi_remaining_size it - xattr_size x,
    xi_remaining_entries := xi_remaining_entries it - 1\<rparr>)" if "r1 = Ok" "r2 = Ok" "xa_ref x = None \<or> r3 = Ok"
    using xattr_account_at [OF K(4) [OF that]] x z J(7,8) [OF that] by (simp add: xattr_ok_def)
  show "current_xattr env it' = xattr_pair x \<and> xi_archive it' = xi_archive it \<and>
      xi_context it' = xi_context it \<and> xi_remaining_entries it' = xi_remaining_entries it - 1 \<and>
      xi_remaining_size it' = xi_remaining_size it - xattr_size x \<and>
      xi_next_offset it' = length (encode_xattr x) \<and>
      metablock_reader_at env se ee src B base (xi_metablock it') p \<and>
      sqsh__metablock_reader_size (xi_metablock it') = length (encode_xattr x) \<and>
      sqsh_xattr_iterator_prefix env it' = xattr_prefix (xa_type x) \<and>
      sqsh_xattr_iterator_name_size env it' = length (xa_name x) \<and>
      take (length (xa_name x)) (sqsh_xattr_iterator_name env it') = xa_name x" if b
  proof -
    have o: "r1 = Ok" "r2 = Ok" "xa_ref x = None \<or> r3 = Ok" using main that by (auto split: if_splits)
    then have it': "it' = j\<lparr>xi_remaining_size := xi_remaining_size it - xattr_size x,
      xi_remaining_entries := xi_remaining_entries it - 1\<rparr>" using main acc by auto
    show ?thesis using J [OF o] K [OF o] A2(1) [OF o(1)] o(2)
      by (simp add: it' current_xattr_def xattr_pair_def xattr_full_name_def xattr_accessors)
  qed
  show "b \<and> metablock_live env src (rd_iterator (xi_metablock it'))"
    if "archive_live env src (xi_archive it)" "metablock_live env src (rd_iterator (xi_metablock it))"
      "xattr_reachable src (xi_archive it) (sqsh__xattr_table_start env (xi_context it)) x"
  proof -
    have bt: "cx_buffer_total (env_buf env)" using that(1) by (simp add: archive_live_def)
    then have o: "r1 = Ok" "r2 = Ok" "metablock_live env src (rd_iterator r')" using A1(2) A2(2) that(2) by blast+
    then have o3: "xa_ref x = None \<or> r3 = Ok" using IV(2) that by (cases "xa_ref x") auto
    then show ?thesis using main acc [OF o(1,2) o3] o J(3) by auto
  qed
qed

lemma xattr_next_at:
  assumes L: "xattrs_at env se ee src B base it xs"
    and eq: "sqsh_xattr_iterator_next env it = (b, rv, it')"
  shows "xs = [] \<Longrightarrow> \<not> b \<and> rv = Ok" "\<not> b \<Longrightarrow> rv = Ok \<Longrightarrow> xs = []"
    "b \<Longrightarrow> xs \<noteq> [] \<and> xattrs_at env se ee src B base it' (tl xs) \<and> current_xattr env it' = xattr_pair (hd xs) \<and>
      sqsh_xattr_iterator_prefix env it' = xattr_prefix (xa_type (hd xs)) \<and>
      sqsh_xattr_iterator_name_size env it' = length (xa_name (hd xs)) \<and>
      take (length (xa_name (hd xs))) (sqsh_xattr_iterator_name env it') = xa_name (hd xs)"
    "xattrs_live env src it xs \<Longrightarrow> rv = Ok \<and> (xs \<noteq> [] \<longrightarrow> b \<and> xattrs_live env src it' (tl xs))"
proof -
  define i where "i = it\<lparr>xi_out_of_line_value :=
    snd (sqsh__metablock_reader_cleanup env (xi_out_of_line_value it))\<rparr>"
  obtain r1 r where a: "sqsh__metablock_reader_advance env (xi_metablock it) (xi_next_offset it) 4 = (r1, r)" by fastforce
  define j where "j = i\<lparr>xi_metablock := r\<rparr>"
  have main: "(b, rv, it') = (if xi_remaining_entries it = 0
      then (False, if xi_remaining_size it \<noteq> 0 then Err SQSH_ERROR_XATTR_SIZE_MISMATCH else Ok, i)
    else if r1 \<noteq> Ok then (False, r1, j)
    else if sqsh_xattr_iterator_prefix env j = None then (False, Err SQSH_ERROR_CORRUPTED_XATTR, j)
    else xattr_load_entry env j)"
    using eq a by (simp add: sqsh_xattr_iterator_next_def i_def j_def Let_def sizeof_SqshDataXattrKey_def cong: if_cong)
  have D: "archive_inv env se ee src (xi_archive it)" "xi_remaining_entries it = length xs"
    "xi_remaining_size it = sum_list (map xattr_size xs)" "xi_remaining_size it < 2 ^ 64"
    "list_all (xattr_ok env src (xi_archive it) (sqsh__xattr_table_start env (xi_context it))) xs"
    using L by (simp_all add: xattrs_at_def)
  have "(xs = [] \<longrightarrow> \<not> b \<and> rv = Ok) \<and> (\<not> b \<and> rv = Ok \<longrightarrow> xs = []) \<and>
    (b \<longrightarrow> xs \<noteq> [] \<and> xattrs_at env se ee src B base it' (tl xs) \<and> current_xattr env it' = xattr_pair (hd xs) \<and>
      sqsh_xattr_iterator_prefix env it' = xattr_prefix (xa_type (hd xs)) \<and>
      sqsh_xattr_iterator_name_size env it' = length (xa_name (hd xs)) \<and>
      take (length (xa_name (hd xs))) (sqsh_xattr_iterator_name env it') = xa_name (hd xs)) \<and>
    (xattrs_live env src it xs \<longrightarrow> rv = Ok \<and> (xs \<noteq> [] \<longrightarrow> b \<and> xattrs_live env src it' (tl xs)))"
  proof (cases xs)
    case Nil
    then show ?thesis using main D by simp
  next
    case (Cons x ws)
    have x: "xattr_ok env src (xi_archive j) (sqsh__xattr_table_start env (xi_context j)) x"
      using D(5) Cons by (simp add: j_def i_def)
    obtain q where q: "metablock_reader_at env se ee src B base (xi_metablock it) q"
      "bytes_at (B base) (q + xi_next_offset it) (encode_xattrs xs)"
      "rd_iterator_offset (xi_metablock it) \<le> xi_next_offset it" using L Cons by (auto simp: xattrs_at_def)
    have bs: "bytes_at (B base) (q + xi_next_offset it) (encode_xattr x @ encode_xattrs ws)"
      using q(2) Cons by (simp add: encode_xattrs_def)
    have key: "length (xattr_key x) = 4" by (rule xattr_key_fields(4) [OF x])
    have bk: "bytes_at (B base) (q + xi_next_offset it)
      (xattr_key x @ xa_name x @ encode_value (xattr_stored x) @ encode_xattrs ws)"
      using bs by (simp add: encode_xattr_def)
    have F: "r1 = Ok \<longrightarrow> metablock_reader_at env se ee src B base r (q + xi_next_offset it) \<and>
        sqsh__metablock_reader_size r = 4 \<and> sqsh__metablock_reader_data env r = xattr_key x"
      "cx_buffer_total (env_buf env) \<longrightarrow> metablock_live env src (rd_iterator (xi_metablock it)) \<longrightarrow>
        r1 = Ok \<and> metablock_live env src (rd_iterator r)"
      using reader_fetch [OF q(1,3) bk, of r1 r] a key by simp_all
    have invj: "archive_inv env se ee src (xi_archive j)" using D(1) by (simp add: j_def i_def)
    have ty: "xattr_prefix (xa_type x) \<noteq> None" using xattr_type_cases [OF x]
      by (auto simp: xattr_prefix_def SQSH_XATTR_USER_def SQSH_XATTR_TRUSTED_def SQSH_XATTR_SECURITY_def)
    have kj: "get_key env j = xattr_key x" if "r1 = Ok" using F(1) that by (simp add: get_key_def j_def)
    have pj: "sqsh_xattr_iterator_prefix env j \<noteq> None" if "r1 = Ok"
      using xattr_key_fields(1) [OF x, of "[]"] ty kj [OF that]
      by (simp add: sqsh_xattr_iterator_prefix_def sqsh_xattr_iterator_type_def)
    have z: "xattr_size x \<le> xi_remaining_size j" "xi_remaining_size j < 2 ^ 64"
      using D(3,4) Cons by (simp_all add: j_def i_def)
    have main2: "(b, rv, it') = (if r1 \<noteq> Ok then (False, r1, j) else xattr_load_entry env j)"
      using main D(2) Cons pj by auto
    have E: "b \<longrightarrow> current_xattr env it' = xattr_pair x \<and> xi_archive it' = xi_archive it \<and>
        xi_context it' = xi_context it \<and> xi_remaining_entries it' = length ws \<and>
        xi_remaining_size it' = sum_list (map xattr_size ws) \<and>
        xi_next_offset it' = length (encode_xattr x) \<and>
        metablock_reader_at env se ee src B base (xi_metablock it') (q + xi_next_offset it) \<and>
        sqsh__metablock_reader_size (xi_metablock it') = length (encode_xattr x) \<and>
        sqsh_xattr_iterator_prefix env it' = xattr_prefix (xa_type x) \<and>
        sqsh_xattr_iterator_name_size env it' = length (xa_name x) \<and>
        take (length (xa_name x)) (sqsh_xattr_iterator_name env it') = xa_name x"
      "xattrs_live env src it xs \<longrightarrow> b \<and> metablock_live env src (rd_iterator (xi_metablock it'))"
      "b = (rv = Ok)"
    proof -
      have rj: "metablock_reader_at env se ee src B base (xi_metablock j) (q + xi_next_offset it)"
        "sqsh__metablock_reader_size (xi_metablock j) = 4" if "r1 = Ok" using F(1) that by (simp_all add: j_def)
      note T = xattr_load_entry_at [OF invj x rj kj bs z]
      have jf: "xi_archive j = xi_archive it" "xi_context j = xi_context it"
        "xi_remaining_entries j = Suc (length ws)" "xi_remaining_size j = xattr_size x + sum_list (map xattr_size ws)"
        "rd_iterator (xi_metablock j) = rd_iterator r" using D(2,3) Cons by (simp_all add: j_def i_def)
      show "b \<longrightarrow> current_xattr env it' = xattr_pair x \<and> xi_archive it' = xi_archive it \<and>
        xi_context it' = xi_context it \<and> xi_remaining_entries it' = length ws \<and>
        xi_remaining_size it' = sum_list (map xattr_size ws) \<and>
        xi_next_offset it' = length (encode_xattr x) \<and>
        metablock_reader_at env se ee src B base (xi_metablock it') (q + xi_next_offset it) \<and>
        sqsh__metablock_reader_size (xi_metablock it') = length (encode_xattr x) \<and>
        sqsh_xattr_iterator_prefix env it' = xattr_prefix (xa_type x) \<and>
        sqsh_xattr_iterator_name_size env it' = length (xa_name x) \<and>
        take (length (xa_name x)) (sqsh_xattr_iterator_name env it') = xa_name x"
      proof
        assume b
        then have o: "r1 = Ok" "xattr_load_entry env j = (b, rv, it')" using main2 by (auto split: if_splits)
        show "current_xattr env it' = xattr_pair x \<and> xi_archive it' = xi_archive it \<and>
          xi_context it' = xi_context it \<and> xi_remaining_entries it' = length ws \<and>
          xi_remaining_size it' = sum_list (map xattr_size ws) \<and>
          xi_next_offset it' = length (encode_xattr x) \<and>
          metablock_reader_at env se ee src B base (xi_metablock it') (q + xi_next_offset it) \<and>
          sqsh__metablock_reader_size (xi_metablock it') = length (encode_xattr x) \<and>
          sqsh_xattr_iterator_prefix env it' = xattr_prefix (xa_type x) \<and>
          sqsh_xattr_iterator_name_size env it' = length (xa_name x) \<and>
          take (length (xa_name x)) (sqsh_xattr_iterator_name env it') = xa_name x"
          using T(1) [OF o(1) o(1) o(1) o(2) \<open>b\<close>] by (simp add: jf)
      qed
      show "xattrs_live env src it xs \<longrightarrow> b \<and> metablock_live env src (rd_iterator (xi_metablock it'))"
      proof
        assume l: "xattrs_live env src it xs"
        then have al: "archive_live env src (xi_archive it)" "cx_buffer_total (env_buf env)"
          by (simp_all add: xattrs_live_def archive_live_def)
        have o: "r1 = Ok" "metablock_live env src (rd_iterator r)"
          using F(2) al(2) l Cons by (simp_all add: xattrs_live_def)
        then have e: "xattr_load_entry env j = (b, rv, it')" using main2 by simp
        show "b \<and> metablock_live env src (rd_iterator (xi_metablock it'))"
          using T(2) [OF o(1) o(1) o(1) e] al(1) o(2) l Cons by (simp add: jf xattrs_live_def)
      qed
      show "b = (rv = Ok)"
      proof (cases "r1 = Ok")
        case True
        have sj: "metablock_reader_sane env se ee src (xi_metablock j)" using rj(1) [OF True]
          by (auto simp: metablock_reader_sane_def)
        have e: "xattr_load_entry env j = (b, rv, it')" using main2 True by simp
        show ?thesis using xattr_load_entry_safe(2) [OF invj sj rj(2) [OF True] pj [OF True] e] .
      qed (use main2 in simp)
    qed
    have "xattrs_at env se ee src B base it' ws" if b
    proof -
      note e = E(1) [THEN mp, OF that]
      have sn: "metablock_reader_sane env se ee src (xi_metablock it')" using e by (auto simp: metablock_reader_sane_def)
      have "bytes_at (B base) (q + xi_next_offset it + xi_next_offset it') (encode_xattrs ws)"
        using bytes_at_append(2) [OF bs] e by simp
      then show ?thesis unfolding xattrs_at_def
        using e D(1,3,4,5) Cons metablock_reader_io [OF sn] by (auto simp: add.assoc)
    qed
    moreover have "xattrs_live env src it xs \<longrightarrow> b \<and> xattrs_live env src it' ws"
      using E(1,2) Cons by (auto simp: xattrs_live_def)
    ultimately show ?thesis using E Cons by auto
  qed
  then show "xs = [] \<Longrightarrow> \<not> b \<and> rv = Ok" "\<not> b \<Longrightarrow> rv = Ok \<Longrightarrow> xs = []"
    "b \<Longrightarrow> xs \<noteq> [] \<and> xattrs_at env se ee src B base it' (tl xs) \<and> current_xattr env it' = xattr_pair (hd xs) \<and>
      sqsh_xattr_iterator_prefix env it' = xattr_prefix (xa_type (hd xs)) \<and>
      sqsh_xattr_iterator_name_size env it' = length (xa_name (hd xs)) \<and>
      take (length (xa_name (hd xs))) (sqsh_xattr_iterator_name env it') = xa_name (hd xs)"
    "xattrs_live env src it xs \<Longrightarrow> rv = Ok \<and> (xs \<noteq> [] \<longrightarrow> b \<and> xattrs_live env src it' (tl xs))" by blast+
qed

text \<open>The loop \<^verbatim>\<open>while (sqsh_xattr_iterator_next(it, &err))\<close> of a caller.\<close>

primrec xattr_entries ::
  "nat \<Rightarrow> ('c, 'b, 'e) sqsh_env \<Rightarrow> ('u, 'c, 'b, 'e, 'x, 'h) xattr_iterator \<Rightarrow>
   rv \<times> (byte list \<times> byte list) list" where
  "xattr_entries 0 env it = (Diverge, [])"
| "xattr_entries (Suc fuel) env it =
     (case sqsh_xattr_iterator_next env it of (has_next, rv, it) \<Rightarrow>
        if \<not> has_next then (rv, [])
        else case xattr_entries fuel env it of (rv, entries) \<Rightarrow> (rv, current_xattr env it # entries))"

definition list_xattrs ::
  "('c, 'b, 'e) sqsh_env \<Rightarrow> ('u, 'c, 'b, 'e, 'x, 'h) sqsh_archive \<Rightarrow> ('u, 'c, 'b, 'e, 'x) sqsh_file \<Rightarrow>
   rv \<times> (byte list \<times> byte list) list" where
  "list_xattrs env archive file =
     (case sqsh_xattr_iterator_new env archive file of
        (rv, None, archive) \<Rightarrow> (rv, [])
      | (rv, Some it, archive) \<Rightarrow> xattr_entries (Suc (xi_remaining_entries it)) env it)"

lemma xattr_entries_safe:
  assumes "xattr_iterator_sane env se ee src it" "xi_remaining_entries it < fuel"
    and "xattr_entries fuel env it = (rv, es)"
  shows "safe_rv rv \<and> length es \<le> xi_remaining_entries it"
  using assms
proof (induction fuel arbitrary: it rv es)
  case (Suc fuel)
  obtain b r1 j where n: "sqsh_xattr_iterator_next env it = (b, r1, j)" by (rule prod_cases3)
  note N = xattr_next_safe [OF Suc.prems(1) n]
  show ?case
  proof (cases b)
    case False
    then show ?thesis using Suc.prems n N(1) by auto
  next
    case True
    obtain r2 es' where r: "xattr_entries fuel env j = (r2, es')" by fastforce
    have "xattr_iterator_sane env se ee src j" "xi_remaining_entries j < fuel" using N(2) [OF True] Suc.prems(2) by auto
    from Suc.IH [OF this r] show ?thesis using Suc.prems(3) n True r N(2) [OF True] by auto
  qed
qed simp

lemma xattr_entries_at:
  assumes "xattrs_at env se ee src B base it xs" "xattr_entries fuel env it = (rv, es)"
  shows "(\<exists>k. es = take k (map xattr_pair xs)) \<and> (rv = Ok \<longrightarrow> es = map xattr_pair xs) \<and>
    (xattrs_live env src it xs \<and> length xs < fuel \<longrightarrow> rv = Ok)"
  using assms
proof (induction fuel arbitrary: it xs rv es)
  case 0
  then show ?case by (auto intro: exI [of _ 0])
next
  case (Suc fuel)
  obtain b r1 j where n: "sqsh_xattr_iterator_next env it = (b, r1, j)" by (rule prod_cases3)
  note N = xattr_next_at [OF Suc.prems(1) n]
  show ?case
  proof (cases b)
    case False
    then have "rv = r1" "es = []" using Suc.prems(2) n by auto
    then show ?thesis using N(2,4) False by (auto intro: exI [of _ 0])
  next
    case True
    obtain x ws where xs: "xs = x # ws" using N(3) [OF True] by (cases xs) auto
    obtain r2 es' where r: "xattr_entries fuel env j = (r2, es')" by fastforce
    have e: "rv = r2" "es = xattr_pair x # es'" using Suc.prems(2) n True r N(3) [OF True] xs by auto
    have J: "xattrs_at env se ee src B base j ws" using N(3) [OF True] xs by simp
    note IH = Suc.IH [OF J r]
    obtain k where "es' = take k (map xattr_pair ws)" using IH by blast
    then have "es = take (Suc k) (map xattr_pair xs)" using e xs by simp
    moreover have "rv = Ok \<longrightarrow> es = map xattr_pair xs" using IH e xs by simp
    moreover have "xattrs_live env src it xs \<and> length xs < Suc fuel \<longrightarrow> rv = Ok"
      using IH N(4) e(1) xs by auto
    ultimately show ?thesis by (intro conjI exI)
  qed
qed

section \<open>Comparing and looking up names\<close>

lemma strncmp_take: "strncmp n xs (take n ys) = strncmp n xs ys"
proof (induction n arbitrary: xs ys)
  case (Suc n)
  then show ?case by (cases xs; cases ys) auto
qed simp

lemma strncmp_eq_0:
  assumes "0 \<notin> set xs" "0 \<notin> set ys \<or> length ys \<le> length xs"
  shows "strncmp (length ys) (xs @ [0]) ys = 0 \<longleftrightarrow> take (length ys) xs = ys"
  using assms
proof (induction ys arbitrary: xs)
  case (Cons y ys)
  show ?case
  proof (cases xs)
    case (Cons x zs)
    then show ?thesis using Cons.IH [of zs] Cons.prems by auto
  qed (use Cons.prems in auto)
qed simp

text \<open>The comparison on an attribute of the list.\<close>

definition xattr_cmp :: "byte list \<Rightarrow> xattr \<Rightarrow> int" where
  "xattr_cmp name x =
     (let prefix = the (xattr_prefix (xa_type x));
          rv = strncmp (length prefix) (name @ [0]) prefix
      in if rv \<noteq> 0 then rv
         else if length (drop (length prefix) name) \<noteq> length (xa_name x) then - 1
         else strncmp (length (xa_name x)) (drop (length prefix) name @ [0]) (xa_name x))"

lemma xattr_cmp_eq:
  assumes "sqsh_xattr_iterator_prefix env it = xattr_prefix (xa_type x)" "xattr_prefix (xa_type x) \<noteq> None"
    and "sqsh_xattr_iterator_name_size env it = length (xa_name x)"
    and "take (length (xa_name x)) (sqsh_xattr_iterator_name env it) = xa_name x"
  shows "sqsh_xattr_iterator_fullname_cmp env it name = xattr_cmp name x"
proof -
  obtain pf where pf: "xattr_prefix (xa_type x) = Some pf" using assms(2) by auto
  have "xattr_prefix (sqsh_xattr_iterator_type env it) = Some pf"
    using assms(1) pf by (simp add: sqsh_xattr_iterator_prefix_def)
  then have "sqsh_xattr_iterator_prefix_size env it = length pf" by (rule prefix_size(1))
  then show ?thesis
    using strncmp_take [of "length (xa_name x)" "drop (length pf) name @ [0]" "sqsh_xattr_iterator_name env it"]
    by (simp add: sqsh_xattr_iterator_fullname_cmp_def xattr_cmp_def assms pf Let_def)
qed

lemma xattr_cmp_0:
  assumes "0 \<notin> set name" "xattr_prefix (xa_type x) \<noteq> None"
  shows "xattr_cmp name x = 0 \<longleftrightarrow> name = xattr_full_name x"
proof -
  obtain pf where pf: "xattr_prefix (xa_type x) = Some pf" using assms(2) by auto
  have z: "0 \<notin> set pf" using pf by (auto simp: xattr_prefix_def split: if_splits)
  have "0 \<notin> set (drop (length pf) name)" using assms(1) by (auto dest: in_set_dropD)
  then have 2: "strncmp (length (xa_name x)) (drop (length pf) name @ [0]) (xa_name x) = 0 \<longleftrightarrow>
    take (length (xa_name x)) (drop (length pf) name) = xa_name x" if "length (drop (length pf) name) = length (xa_name x)"
    using strncmp_eq_0 [of "drop (length pf) name" "xa_name x"] that by simp
  have 1: "strncmp (length pf) (name @ [0]) pf = 0 \<longleftrightarrow> take (length pf) name = pf"
    using strncmp_eq_0 [of name pf] assms(1) z by simp
  have "name = xattr_full_name x \<longleftrightarrow> take (length pf) name = pf \<and> drop (length pf) name = xa_name x"
    unfolding xattr_full_name_def pf option.sel by (metis append_take_drop_id append_eq_conv_conj)
  also have "\<dots> \<longleftrightarrow> xattr_cmp name x = 0"
  proof (cases "length (drop (length pf) name) = length (xa_name x)")
    case True
    then show ?thesis using 1 2 [OF True] by (auto simp: xattr_cmp_def pf Let_def)
  next
    case False
    then have "drop (length pf) name \<noteq> xa_name x" by (metis)
    then show ?thesis using 1 False by (auto simp: xattr_cmp_def pf Let_def)
  qed
  finally show ?thesis by simp
qed

text \<open>Where the lookup stops: at the first attribute that does not compare below zero.\<close>

primrec xattr_find :: "byte list \<Rightarrow> xattr list \<Rightarrow> xattr option" where
  "xattr_find name [] = None"
| "xattr_find name (x # xs) =
     (if xattr_cmp name x = 0 then Some x else if xattr_cmp name x > 0 then None else xattr_find name xs)"

lemma xattr_lookup_at:
  assumes "xattrs_at env se ee src B base it xs" "xattr_lookup_loop fuel env it name = (rv, it')"
  shows "(rv = Ok \<longrightarrow> (\<exists>x. xattr_find name xs = Some x \<and> current_xattr env it' = xattr_pair x)) \<and>
    (xattrs_live env src it xs \<and> length xs < fuel \<longrightarrow>
      rv = (if xattr_find name xs = None then Err SQSH_ERROR_NO_SUCH_XATTR else Ok))"
  using assms
proof (induction fuel arbitrary: it xs)
  case (Suc fuel)
  obtain b r1 j where n: "sqsh_xattr_iterator_next env it = (b, r1, j)" by (rule prod_cases3)
  note N = xattr_next_at [OF Suc.prems(1) n]
  show ?case
  proof (cases b)
    case False
    then have "rv = (if r1 \<noteq> Ok then r1 else Err SQSH_ERROR_NO_SUCH_XATTR)" using Suc.prems(2) n by auto
    then show ?thesis using N(2,4) False by (cases "xs = []") auto
  next
    case True
    obtain x ws where xs: "xs = x # ws" using N(3) [OF True] by (cases xs) auto
    have J: "xattrs_at env se ee src B base j ws" "current_xattr env j = xattr_pair x" using N(3) [OF True] xs by simp_all
    have ok: "xattr_ok env src (xi_archive it) (sqsh__xattr_table_start env (xi_context it)) x"
      using Suc.prems(1) xs by (simp add: xattrs_at_def)
    have ty: "xattr_prefix (xa_type x) \<noteq> None" using xattr_type_cases [OF ok]
      by (auto simp: xattr_prefix_def SQSH_XATTR_USER_def SQSH_XATTR_TRUSTED_def SQSH_XATTR_SECURITY_def)
    have cmp: "sqsh_xattr_iterator_fullname_cmp env j name = xattr_cmp name x"
      by (rule xattr_cmp_eq [OF _ ty]) (use N(3) [OF True] xs in simp_all)
    show ?thesis
    proof (cases "xattr_cmp name x < 0")
      case False
      then have "rv = (if xattr_cmp name x = 0 then Ok else Err SQSH_ERROR_NO_SUCH_XATTR)" "it' = j"
        using Suc.prems(2) n True cmp by (auto simp: Let_def split: if_splits)
      then show ?thesis using J(2) False xs by auto
    next
      case lt: True
      then have l: "xattr_lookup_loop fuel env j name = (rv, it')"
        using Suc.prems(2) n True cmp by (simp add: Let_def)
      have "xattrs_live env src j ws" if "xattrs_live env src it xs" using N(4) [OF that] xs by simp
      then show ?thesis using Suc.IH [OF J(1) l] xs lt by auto
    qed
  qed
qed simp

lemma xattr_find_Some:
  assumes "xattr_find name xs = Some x"
  shows "x \<in> set xs" "xattr_cmp name x = 0"
  using assms by (induction xs) (auto split: if_splits)

lemma xattr_lookup_safe:
  assumes "xattr_iterator_sane env se ee src it" "xi_remaining_entries it < fuel"
    and "xattr_lookup_loop fuel env it name = (rv, it')"
  shows "safe_rv rv \<and> (rv = Ok \<longrightarrow> xattr_loaded env it' \<and> sqsh_xattr_iterator_fullname_cmp env it' name = 0)"
  using assms
proof (induction fuel arbitrary: it)
  case (Suc fuel)
  obtain b r1 j where n: "sqsh_xattr_iterator_next env it = (b, r1, j)" by (rule prod_cases3)
  note N = xattr_next_safe [OF Suc.prems(1) n]
  show ?case
  proof (cases b)
    case False
    then show ?thesis using Suc.prems(3) n N(1) by (auto split: if_splits)
  next
    case True
    have J: "xattr_iterator_sane env se ee src j" "xi_remaining_entries j < fuel" using N(2) [OF True] Suc.prems(2) by auto
    show ?thesis using Suc.prems(3) n True N(2) [OF True] Suc.IH [OF J]
      by (auto simp: Let_def split: if_splits)
  qed
qed simp

section \<open>The xattr table on disk\<close>

lemma xattr_table_init_exact:
  assumes ok: "archive_ok env se ee src ar"
    and a: "a = sqsh_superblock_xattr_id_table_start env (ar_superblock ar)" "a + 16 < 2 ^ 64"
    and ids: "ids = get_le 4 (a + 8) (ar_bytes src ar)"
    and eq: "sqsh__xattr_table_init env ar = (rv, xt)"
  shows "rv = Ok \<Longrightarrow> sqsh__xattr_table_start env xt = get_le 8 a (ar_bytes src ar) \<and>
      sqsh__table_init env (ar_map_manager ar) (a + 16) 16 ids = (Ok, xt_table xt)"
    "archive_live env src ar \<Longrightarrow> a + 16 < length (ar_bytes src ar) \<Longrightarrow>
      a + 16 + 8 * divide_ceil (16 * ids) 8192 \<le> length (ar_bytes src ar) \<Longrightarrow> rv = Ok"
proof -
  let ?m = "ar_map_manager ar" and ?H = "ar_bytes src ar"
  have bo: "cx_buffer_ok (env_buf env)" and m: "manager_ok (env_maps env) se src ?m"
    using ok by (simp_all add: archive_ok_def)
  obtain r1 mr where ld: "andthen (sqsh__map_reader_init (env_maps env) (env_buf env) ?m a (a + 16)
      (zero_map_reader env ?m)) (sqsh__map_reader_all (env_maps env) (env_buf env)) = (r1, mr)"
    by fastforce
  have le: "a \<le> a + 16" by simp
  note L = map_reader_load_correct [OF bo m le a(2) ld, folded ar_bytes_def]
  obtain r2 t where ti: "sqsh__table_init env ?m (a + 16) 16 (sqsh__data_xattr_id_table_xattr_ids
      (sqsh__map_reader_data (env_maps env) (env_buf env) mr)) = (r2, t)" by fastforce
  note T = table_init_correct [OF bo m a(2) ti, folded ar_bytes_def]
  have main: "rv = (if r1 \<noteq> Ok then r1 else r2) \<and> (rv = Ok \<longrightarrow> xt = \<lparr>xt_header = mr, xt_table = t\<rparr>)"
    using eq a(2) ld ti
    by (auto simp: sqsh__xattr_table_init_def Let_def add_overflow_def a(1) sizeof_SqshDataXattrIdTable_def
        sizeof_SqshDataXattrLookupTable_def split: if_splits)
  have F: "get_le 8 0 (window a 16 ?H) = get_le 8 a ?H" "get_le 4 8 (window a 16 ?H) = ids"
    by (simp_all add: get_le_def window_window ids)
  have D: "sqsh__map_reader_data (env_maps env) (env_buf env) mr = window a 16 ?H" if "r1 = Ok"
    using L that by simp
  have I: "sqsh__data_xattr_id_table_xattr_ids (sqsh__map_reader_data (env_maps env) (env_buf env) mr) = ids"
    if "r1 = Ok" using D [OF that] F(2) by (simp add: sqsh__data_xattr_id_table_xattr_ids_def)
  show "sqsh__xattr_table_start env xt = get_le 8 a ?H \<and> sqsh__table_init env ?m (a + 16) 16 ids = (Ok, xt_table xt)"
    if "rv = Ok"
  proof -
    have o: "r1 = Ok" "r2 = Ok" "xt = \<lparr>xt_header = mr, xt_table = t\<rparr>" using main that by (auto split: if_splits)
    then show ?thesis using ti I D F(1)
      by (simp add: sqsh__xattr_table_start_def sqsh__data_xattr_id_table_xattr_table_start_def)
  qed
  assume l: "archive_live env src ar" "a + 16 < length ?H" "a + 16 + 8 * divide_ceil (16 * ids) 8192 \<le> length ?H"
  have r1: "r1 = Ok" using L l by (simp add: archive_live_def)
  have "ids < 2 ^ 32" using get_le_bound [of 4 "a + 8" ?H] ids by simp
  then have "16 * ids < 2 ^ 64" by simp
  then have "r2 = Ok" using T l unfolding I [OF r1] by (simp add: archive_live_def)
  then show "rv = Ok" using main r1 by simp
qed

text \<open>
  The entry of the table for an index, and the address the references of the table are relative to.
\<close>

definition xattr_table_entry where
  "xattr_table_entry env src ar i start entry \<longleftrightarrow>
     (let a = sqsh_superblock_xattr_id_table_start env (ar_superblock ar); H = ar_bytes src ar;
          ids = get_le 4 (a + 8) H; off = i * 16 mod 8192;
          b = get_le 8 (a + 16 + 8 * (i * 16 div 8192)) H; blocks = ar_chain env src ar b
      in a \<noteq> NO_SEGMENT \<and> a + 16 < length H \<and> a + 16 + 8 * divide_ceil (16 * ids) 8192 \<le> length H \<and>
         i < ids \<and> b + 8192 < 2 ^ 64 \<and> chain_reaches blocks off \<and> off + 16 \<le> length (concat blocks) \<and>
         start = get_le 8 a H \<and> entry = window off 16 (concat blocks))"

text \<open>A table that has been loaded before is the one that the archive has.\<close>

definition xattr_table_current where
  "xattr_table_current env ar \<longleftrightarrow>
     (\<forall>xt. ar_xattr_table ar = Some xt \<longrightarrow> sqsh__xattr_table_init env ar = (Ok, xt))"

lemma xattr_table_entry_read:
  assumes inv: "archive_inv env se ee src ar" and lk: "safe_rv (env_lock env)"
    and cur: "xattr_table_current env ar" and e: "xattr_table_entry env src ar i start entry"
    and eq: "sqsh_archive_xattr_table env ar = (rv, xo, ar1)"
  shows "rv = Ok \<Longrightarrow> \<exists>xt. xo = Some xt \<and> sqsh__xattr_table_start env xt = start \<and>
      (\<forall>r out. sqsh__xattr_table_get env ar1 xt i = (r, out) \<longrightarrow>
        (r = Ok \<longrightarrow> out = entry) \<and> (archive_live env src ar \<longrightarrow> r = Ok))"
    "archive_live env src ar \<Longrightarrow> env_lock env = Ok \<Longrightarrow> rv = Ok"
proof -
  define a where "a = sqsh_superblock_xattr_id_table_start env (ar_superblock ar)"
  let ?H = "ar_bytes src ar"
  define ids where "ids = get_le 4 (a + 8) ?H"
  let ?off = "i * 16 mod 8192"
  define b where "b = get_le 8 (a + 16 + 8 * (i * 16 div 8192)) ?H"
  have E: "a \<noteq> NO_SEGMENT" "a + 16 < length ?H" "a + 16 + 8 * divide_ceil (16 * ids) 8192 \<le> length ?H"
    "i < ids" "b + 8192 < 2 ^ 64" "chain_reaches (ar_chain env src ar b) ?off"
    "?off + 16 \<le> length (concat (ar_chain env src ar b))" "start = get_le 8 a ?H"
    "entry = window ?off 16 (concat (ar_chain env src ar b))"
    using e by (simp_all add: xattr_table_entry_def Let_def a_def ids_def b_def)
  have ok: "archive_ok env se ee src ar" using inv by (simp add: archive_inv_def)
  have "length ?H < 2 ^ 52" using ok by (simp add: archive_ok_def)
  then have a64: "a + 16 < 2 ^ 64" using E(2) by simp
  obtain r0 xt0 where i0: "sqsh__xattr_table_init env ar = (r0, xt0)" by fastforce
  note X = xattr_table_init_exact [OF ok a_def a64 ids_def i0]
  have main: "rv = (if env_lock env \<noteq> Ok then env_lock env else r0) \<and> (rv = Ok \<longrightarrow> xo = Some xt0)"
    using eq i0 E(1) cur
    by (auto simp: sqsh_archive_xattr_table_def a_def xattr_table_current_def split: if_splits option.splits)
  have core: "archive_core ar1 = archive_core ar" using xattr_table_inv [OF inv lk eq] by simp
  note C = archive_coreD [OF core]
  have ok1: "archive_ok env se ee src ar1" using ok archive_core_ok [OF core] by simp
  have live1: "archive_live env src ar1 = archive_live env src ar" by (rule archive_core_live [OF core])
  show "\<exists>xt. xo = Some xt \<and> sqsh__xattr_table_start env xt = start \<and>
      (\<forall>r out. sqsh__xattr_table_get env ar1 xt i = (r, out) \<longrightarrow>
        (r = Ok \<longrightarrow> out = entry) \<and> (archive_live env src ar \<longrightarrow> r = Ok))" if "rv = Ok"
  proof -
    have o: "r0 = Ok" "xo = Some xt0" using main that by (auto split: if_splits)
    note X1 = X(1) [OF o(1)]
    have ti: "sqsh__table_init env (ar_map_manager ar1) (a + 16) 16 ids = (Ok, xt_table xt0)"
      using X1 C(1) by simp
    have g: "(r = Ok \<longrightarrow> out = entry) \<and> (archive_live env src ar \<longrightarrow> r = Ok)"
      if "sqsh__xattr_table_get env ar1 xt0 i = (r, out)" for r out
    proof -
      have tg: "sqsh_table_get env ar1 (xt_table xt0) i = (r, out)" using that by (simp add: sqsh__xattr_table_get_def)
      have "(0::nat) < 16" by simp
      have bo: "cx_buffer_ok (env_buf env)" and m: "manager_ok (env_maps env) se src (ar_map_manager ar1)"
        using ok1 by (simp_all add: archive_ok_def)
      note T = table_init_correct [OF bo m a64 ti, simplified, folded ar_bytes_def]
      have t: "tb_element_size (xt_table xt0) = 16" "tb_element_count (xt_table xt0) = ids" "16 * ids < 2 ^ 64"
        "sqsh__map_reader_size (tb_lookup_table (xt_table xt0)) = 8 * divide_ceil (16 * ids) 8192"
        "sqsh__map_reader_data (env_maps env) (env_buf env) (tb_lookup_table (xt_table xt0))
          = window (a + 16) (8 * divide_ceil (16 * ids) 8192) (ar_bytes src ar1)"
        "a + 16 + 8 * divide_ceil (16 * ids) 8192 \<le> length (ar_bytes src ar1)"
        using T by auto
      note G = table_get_correct [OF ok1 t \<open>0 < 16\<close> E(4) refl tg, unfolded C(4,5), folded b_def]
      show ?thesis using G E(5-7,9) live1 by simp
    qed
    show ?thesis using o(2) X1 E(8) g by auto
  qed
  show "rv = Ok" if "archive_live env src ar" "env_lock env = Ok"
    using main X(2) [OF that(1) E(2,3)] that(2) by simp
qed

section \<open>Starting at a file\<close>

lemma xattr_init_safe:
  assumes inv: "archive_inv env se ee src ar" and lk: "safe_rv (env_lock env)"
    and it0: "xi_archive it0 = ar"
    and eq: "sqsh__xattr_iterator_init env it0 ar f = (rv, it, ar')"
  shows "safe_rv rv \<and> archive_inv env se ee src ar' \<and> archive_core ar' = archive_core ar \<and>
    (rv = Ok \<longrightarrow> xattr_iterator_sane env se ee src it)"
proof (cases "sqsh_file_xattr_index env f = SQSH_INODE_NO_XATTR \<or>
    \<not> sqsh_superblock_has_xattr_table env (ar_superblock ar)")
  case True
  then have "rv = Ok" "it = it0\<lparr>xi_remaining_entries := 0\<rparr>" "ar' = ar"
    using eq by (simp_all add: sqsh__xattr_iterator_init_def Let_def)
  then show ?thesis using inv it0 by (simp add: xattr_iterator_sane_def)
next
  case False
  let ?i = "sqsh_file_xattr_index env f"
  obtain r1 xo a where t: "sqsh_archive_xattr_table env ar = (r1, xo, a)" by (rule prod_cases3)
  note T = xattr_table_inv [OF inv lk t]
  show ?thesis
  proof (cases "r1 = Ok")
    case False
    then show ?thesis using eq t T \<open>\<not> (_ \<or> _)\<close> by (simp add: sqsh__xattr_iterator_init_def Let_def)
  next
    case True
    then obtain xt where xt: "xo = Some xt"
      "table_loaded env (ar_map_manager ar) sizeof_SqshDataXattrLookupTable (xt_table xt)" using T by auto
    have inva: "archive_inv env se ee src a" and core: "archive_core a = archive_core ar" using T by auto
    have ok: "archive_ok env se ee src a" using inva by (simp add: archive_inv_def)
    obtain r2 ref where g: "sqsh__xattr_table_get env a xt ?i = (r2, ref)" by fastforce
    have tl: "table_loaded env (ar_map_manager a) sizeof_SqshDataXattrLookupTable (xt_table xt)"
      using xt(2) archive_coreD(1) [OF core] by simp
    have s2: "safe_rv r2" using table_loaded_get [OF ok tl, of "sqsh_file_xattr_index env f" r2 ref] g
      by (simp add: sqsh__xattr_table_get_def sizeof_SqshDataXattrLookupTable_def)
    let ?start = "sqsh__xattr_table_start env xt
      + sqsh_address_ref_outer_offset (sqsh__data_xattr_lookup_table_xattr_ref ref)"
    let ?size = "sqsh_superblock_bytes_used env (ar_superblock ar)"
    obtain r3 r where i: "sqsh__metablock_reader_init env (ar_map_manager a) (ar_metablock_manager a) ?start
      ?size (xi_metablock it0) = (r3, r)" by fastforce
    have R: "safe_rv r3 \<and> (r3 = Ok \<longrightarrow> metablock_reader_sane env se ee src r \<and> rd_iterator_offset r = 0)"
      if "?start < 2 ^ 64" using archive_reader_init [OF ok that i] by (auto simp: metablock_reader_sane_def)
    show ?thesis
    proof (cases "r2 = Ok \<and> ?start < 2 ^ 64")
      case False
      then show ?thesis using eq t True xt(1) g s2 inva core \<open>\<not> (_ \<or> _)\<close>
        by (auto simp: sqsh__xattr_iterator_init_def Let_def add_overflow_def split: if_splits)
    next
      case o: True
      then show ?thesis using eq t True xt(1) g i R inva core \<open>\<not> (_ \<or> _)\<close>
        by (auto simp: sqsh__xattr_iterator_init_def Let_def add_overflow_def xattr_iterator_sane_def split: if_splits)
    qed
  qed
qed

text \<open>
  The attributes of a file, as the archive has them: the xattr table gives an entry with their number,
  their size and where they are.
\<close>

definition file_xattrs where
  "file_xattrs env src ar f xs \<longleftrightarrow>
     sqsh_file_xattr_index env f \<noteq> SQSH_INODE_NO_XATTR \<and>
     sqsh_superblock_has_xattr_table env (ar_superblock ar) \<and> xattr_table_current env ar \<and>
     (\<exists>start entry. xattr_table_entry env src ar (sqsh_file_xattr_index env f) start entry \<and>
        sqsh__data_xattr_lookup_table_count entry = length xs \<and>
        sqsh__data_xattr_lookup_table_size entry = sum_list (map xattr_size xs) \<and>
        (let ref = sqsh__data_xattr_lookup_table_xattr_ref entry;
             address = start + sqsh_address_ref_outer_offset ref
         in address < length (ar_bytes src ar) \<and>
            bytes_at (ar_chain env src ar address) (sqsh_address_ref_inner_offset ref) (encode_xattrs xs) \<and>
            list_all (xattr_ok env src ar start) xs \<and> list_all (xattr_reachable src ar start) xs))"

lemma xattr_init_at:
  assumes inv: "archive_inv env se ee src ar" and lk: "safe_rv (env_lock env)"
    and fx: "file_xattrs env src ar f xs"
    and eq: "sqsh__xattr_iterator_init env it0 ar f = (rv, it, ar')"
  shows "rv = Ok \<Longrightarrow> \<exists>base. xattrs_at env se ee src (ar_chain env src ar) base it xs"
    "archive_live env src ar \<Longrightarrow> env_lock env = Ok \<Longrightarrow> rv = Ok \<and> xattrs_live env src it xs"
proof -
  let ?i = "sqsh_file_xattr_index env f"
  obtain start entry where X: "xattr_table_entry env src ar ?i start entry"
    "sqsh__data_xattr_lookup_table_count entry = length xs"
    "sqsh__data_xattr_lookup_table_size entry = sum_list (map xattr_size xs)"
    using fx by (auto simp: file_xattrs_def)
  let ?ref = "sqsh__data_xattr_lookup_table_xattr_ref entry"
  let ?a = "start + sqsh_address_ref_outer_offset ?ref" and ?in = "sqsh_address_ref_inner_offset ?ref"
  have Y: "?a < length (ar_bytes src ar)" "bytes_at (ar_chain env src ar ?a) ?in (encode_xattrs xs)"
    "list_all (xattr_ok env src ar start) xs" "list_all (xattr_reachable src ar start) xs"
    "?i \<noteq> SQSH_INODE_NO_XATTR" "sqsh_superblock_has_xattr_table env (ar_superblock ar)"
    "xattr_table_current env ar"
    using fx X(1) by (auto simp: file_xattrs_def xattr_table_entry_def Let_def)
  obtain r1 xo ar1 where t: "sqsh_archive_xattr_table env ar = (r1, xo, ar1)" by (rule prod_cases3)
  note E = xattr_table_entry_read [OF inv lk Y(7) X(1) t]
  have inv1: "archive_inv env se ee src ar1" and core: "archive_core ar1 = archive_core ar"
    using xattr_table_inv [OF inv lk t] by auto
  note C = archive_coreD [OF core]
  have ok: "archive_ok env se ee src ar1" using inv1 by (simp add: archive_inv_def)
  have "length (ar_bytes src ar) < 2 ^ 52" using inv by (simp add: archive_inv_def archive_ok_def)
  then have a64: "?a < 2 ^ 64" using Y(1) by simp
  obtain r3 r where i: "sqsh__metablock_reader_init env (ar_map_manager ar1) (ar_metablock_manager ar1) ?a
    (sqsh_superblock_bytes_used env (ar_superblock ar)) (xi_metablock it0) = (r3, r)" by fastforce
  note R = archive_reader_init [OF ok a64 i, unfolded C(4,5)]
  have main: "rv = r3 \<and> (rv = Ok \<longrightarrow> it = it0\<lparr>xi_metablock := r, xi_remaining_entries := length xs,
      xi_remaining_size := sum_list (map xattr_size xs), xi_next_offset := ?in, xi_value_index := 0,
      xi_context := xt, xi_archive := ar1, xi_upper_limit := sqsh_superblock_bytes_used env (ar_superblock ar)\<rparr>)"
    if "r1 = Ok" "xo = Some xt" "sqsh__xattr_table_start env xt = start"
      "sqsh__xattr_table_get env ar1 xt ?i = (Ok, entry)" for xt
    using eq X(2,3) Y(5,6) a64 i t that
    by (auto simp: sqsh__xattr_iterator_init_def Let_def add_overflow_def split: if_splits)
  have fail: "rv \<noteq> Ok" if "r1 \<noteq> Ok" using eq Y(5,6) t that by (simp add: sqsh__xattr_iterator_init_def Let_def)
  have fail2: "rv \<noteq> Ok" if "r1 = Ok" "xo = Some xt" "sqsh__xattr_table_get env ar1 xt ?i = (r2, out)" "r2 \<noteq> Ok" for xt r2 out
    using eq Y(5,6) t that by (simp add: sqsh__xattr_iterator_init_def Let_def)
  have got: "\<exists>xt r2 out. xo = Some xt \<and> sqsh__xattr_table_start env xt = start \<and>
      sqsh__xattr_table_get env ar1 xt ?i = (r2, out) \<and> (r2 = Ok \<longrightarrow> out = entry) \<and>
      (archive_live env src ar \<longrightarrow> r2 = Ok)" if "r1 = Ok"
    using E(1) [OF that] by (metis prod.collapse)
  have sz: "sum_list (map xattr_size xs) < 2 ^ 64"
    using get_le_bound [of 4 12 entry] X(3) by (simp add: sqsh__data_xattr_lookup_table_size_def)
  show "\<exists>base. xattrs_at env se ee src (ar_chain env src ar) base it xs" if "rv = Ok"
  proof -
    note rv_ok = that
    have r1: "r1 = Ok" using fail rv_ok by blast
    obtain xt r2 out where g: "xo = Some xt" "sqsh__xattr_table_start env xt = start"
      "sqsh__xattr_table_get env ar1 xt ?i = (r2, out)" "r2 = Ok \<longrightarrow> out = entry" using got [OF r1] by blast
    have "r2 = Ok" using fail2 [OF r1 g(1,3)] rv_ok by blast
    then have xt: "xo = Some xt" "sqsh__xattr_table_start env xt = start"
      "sqsh__xattr_table_get env ar1 xt ?i = (Ok, entry)" using g by simp_all
    note m = main [OF r1 xt]
    have at: "metablock_reader_at env se ee src (ar_chain env src ar) ?a r 0" "rd_iterator_offset r = 0"
      using R m rv_ok by auto
    have "xattr_ok env src ar1 = xattr_ok env src ar" by (intro ext) (simp add: xattr_ok_def C)
    then have "xattrs_at env se ee src (ar_chain env src ar) ?a it xs"
      using m rv_ok inv1 Y(2,3) sz at xt(2) by (auto simp: xattrs_at_def)
    then show ?thesis by blast
  qed
  assume l: "archive_live env src ar" "env_lock env = Ok"
  have l1: "archive_live env src ar1" using archive_core_live [OF core] l(1) by simp
  have r1: "r1 = Ok" by (rule E(2) [OF l])
  obtain xt where xt: "xo = Some xt" "sqsh__xattr_table_start env xt = start"
    "sqsh__xattr_table_get env ar1 xt ?i = (Ok, entry)" using got [OF r1] l(1) by metis
  note m = main [OF r1 xt]
  have o: "rv = Ok" "metablock_live env src (rd_iterator r)" using R l1 Y(1) m C(3) by auto
  have "xattr_reachable src ar1 = xattr_reachable src ar" by (intro ext) (simp add: xattr_reachable_def C)
  then show "rv = Ok \<and> xattrs_live env src it xs" using o l1 Y(4) m xt(2)
    by (simp add: xattrs_live_def)
qed

section \<open>Properties\<close>

text \<open>
  C16. Reading the attributes of a file gives back what was written: when the xattr table points at the
  encoding of a list of attributes, with values behind their keys or at a reference elsewhere in the
  xattr area, the iterator delivers a prefix of the list, with full names and values; it delivers
  all when it ends without an error; and it does so when memory is available.
\<close>

theorem xattr_iteration_exact:
  assumes "archive_inv env se ee src ar" "safe_rv (env_lock env)" "file_xattrs env src ar f xs"
    and "list_xattrs env ar f = (rv, es)"
  shows "(\<exists>k. es = take k (map xattr_pair xs)) \<and> (rv = Ok \<longrightarrow> es = map xattr_pair xs) \<and>
    (archive_live env src ar \<and> env_lock env = Ok \<longrightarrow> rv = Ok)"
proof -
  obtain r1 it ar' where i: "sqsh__xattr_iterator_init env (zero_xattr_iterator env ar) ar f = (r1, it, ar')"
    by (rule prod_cases3)
  note I = xattr_init_at [OF assms(1-3) i]
  show ?thesis
  proof (cases "r1 = Ok")
    case False
    then have "rv = r1" "es = []" using assms(4) i by (simp_all add: list_xattrs_def sqsh_xattr_iterator_new_def)
    then show ?thesis using False I(2) by (auto intro: exI [of _ 0])
  next
    case True
    then have e: "xattr_entries (Suc (xi_remaining_entries it)) env it = (rv, es)"
      using assms(4) i by (simp add: list_xattrs_def sqsh_xattr_iterator_new_def)
    obtain base where x: "xattrs_at env se ee src (ar_chain env src ar) base it xs" using I(1) [OF True] by blast
    have "length xs < Suc (xi_remaining_entries it)" using x by (simp add: xattrs_at_def)
    then show ?thesis using xattr_entries_at [OF x e] I(2) by blast
  qed
qed



section \<open>A small file with attributes\<close>

text \<open>
  A named pipe with two attributes: \<^verbatim>\<open>user.a\<close> with its value in place and \<^verbatim>\<open>security.b\<close> with its value
  elsewhere, in front of the attributes.
\<close>

definition tiny_xattrs :: "xattr list" where
  "tiny_xattrs = [\<lparr>xa_type = 0, xa_name = [97], xa_value = [120, 121], xa_ref = None\<rparr>,
     \<lparr>xa_type = 2, xa_name = [98], xa_value = [9, 9, 9], xa_ref = Some 0\<rparr>]"

definition tiny_xattr_inode :: "byte list" where
  "tiny_xattr_inode = le_bytes 2 13 @ le_bytes 2 420 @ le_bytes 2 0 @ le_bytes 2 0 @ le_bytes 4 0
     @ le_bytes 4 1 @ le_bytes 4 1 @ le_bytes 4 0"

definition tiny_xattr_block :: "byte list" where
  "tiny_xattr_block = encode_value [9, 9, 9] @ encode_xattrs tiny_xattrs"

definition tiny_xattr_archive :: "byte list" where
  "tiny_xattr_archive = SQSH_SUPERBLOCK_MAGIC @ le_bytes 4 1 @ le_bytes 4 0 @ le_bytes 4 131072
     @ le_bytes 4 0 @ le_bytes 2 1 @ le_bytes 2 17 @ le_bytes 2 0 @ le_bytes 2 2 @ le_bytes 2 4
     @ le_bytes 2 0 @ le_bytes 8 0 @ le_bytes 8 203 @ le_bytes 8 106 @ le_bytes 8 177
     @ le_bytes 8 96 @ le_bytes 8 96 @ le_bytes 8 NO_SEGMENT @ le_bytes 8 NO_SEGMENT
     @ le_bytes 2 (0x8000 + 24) @ tiny_xattr_inode
     @ le_bytes 2 (0x8000 + 35) @ tiny_xattr_block
     @ le_bytes 2 (0x8000 + 16) @ le_bytes 8 7 @ le_bytes 4 2 @ le_bytes 4 23
     @ le_bytes 8 122 @ le_bytes 4 1 @ le_bytes 4 0 @ le_bytes 8 159 @ [1, 1]"

abbreviation tiny_xattr_sqsh :: tiny_archive where
  "tiny_xattr_sqsh \<equiv> tiny_sqsh 256 tiny_xattr_archive"

lemma tiny_xattr_length:
  "length tiny_xattr_archive = 203" "length tiny_xattr_inode = 24" "length tiny_xattr_block = 35"
  by (simp_all add: tiny_xattr_archive_def tiny_xattr_inode_def tiny_xattr_block_def SQSH_SUPERBLOCK_MAGIC_def
      tiny_xattrs_def encode_xattrs_def encode_xattr_def xattr_key_def xattr_stored_def encode_value_def)

lemma tiny_xattr_inv:
  "archive_inv tiny_env alist_entries alist_entries (\<lambda>u. u) tiny_xattr_sqsh"
  "sqsh_superblock_block_log tiny_env (ar_superblock tiny_xattr_sqsh) = 17"
  "sqsh_superblock_inode_table_start tiny_env (ar_superblock tiny_xattr_sqsh) = 96"
  "sqsh_superblock_xattr_id_table_start tiny_env (ar_superblock tiny_xattr_sqsh) = 177"
  "sqsh_superblock_has_xattr_table tiny_env (ar_superblock tiny_xattr_sqsh)"
proof -
  have c: "superblock_check tiny_xattr_archive = Ok" by code_simp
  from tiny_sqsh_inv [OF c]
  show inv: "archive_inv tiny_env alist_entries alist_entries (\<lambda>u. u) tiny_xattr_sqsh"
    by (simp add: tiny_xattr_length)
  have "get_header tiny_env (ar_superblock tiny_xattr_sqsh) = window 0 96 tiny_xattr_archive"
    using archive_superblock [OF inv] tiny_sqsh_bytes [of tiny_xattr_archive 256]
    by (simp add: tiny_xattr_length)
  moreover have "sqsh__data_superblock_block_log (window 0 96 tiny_xattr_archive) = 17"
    "sqsh__data_superblock_inode_table_start (window 0 96 tiny_xattr_archive) = 96"
    "sqsh__data_superblock_xattr_id_table_start (window 0 96 tiny_xattr_archive) = 177"
    "sqsh__data_superblock_flags (window 0 96 tiny_xattr_archive) = 0" by code_simp+
  ultimately show "sqsh_superblock_block_log tiny_env (ar_superblock tiny_xattr_sqsh) = 17"
    "sqsh_superblock_inode_table_start tiny_env (ar_superblock tiny_xattr_sqsh) = 96"
    "sqsh_superblock_xattr_id_table_start tiny_env (ar_superblock tiny_xattr_sqsh) = 177"
    "sqsh_superblock_has_xattr_table tiny_env (ar_superblock tiny_xattr_sqsh)"
    by (simp_all add: sqsh_superblock_block_log_def sqsh_superblock_inode_table_start_def
        sqsh_superblock_xattr_id_table_start_def sqsh_superblock_has_xattr_table_def check_flag_def)
qed

lemma tiny_xattr_bytes: "ar_bytes (\<lambda>u. u) tiny_xattr_sqsh = tiny_xattr_archive"
  by (rule tiny_sqsh_bytes) (simp add: tiny_xattr_length)

lemma tiny_xattr_live: "archive_live tiny_env (\<lambda>u. u) tiny_xattr_sqsh" "env_lock tiny_env = Ok"
proof -
  have "sqsh__data_metablock_size (window 201 2 tiny_xattr_archive) \<noteq> 0" by code_simp
  then show "archive_live tiny_env (\<lambda>u. u) tiny_xattr_sqsh"
    by (intro tiny_sqsh_live) (simp_all add: tiny_xattr_length)
qed (simp add: tiny_env_def)

lemma tiny_xattr_open:
  obtains f where "file_sane tiny_env alist_entries alist_entries (\<lambda>u. u) tiny_xattr_sqsh f"
    "sqsh_file_xattr_index tiny_env f = 0"
proof -
  have "metablock_chain list_buffer (Some copy_codec) tiny_xattr_archive 96
    = [tiny_xattr_inode, tiny_xattr_block, le_bytes 8 7 @ le_bytes 4 2 @ le_bytes 4 23]" by code_simp
  moreover have "sqsh_address_ref_outer_offset 0 = 0" "sqsh_address_ref_inner_offset 0 = 0" by code_simp+
  ultimately have tb: "inode_table_bytes tiny_env (\<lambda>u. u) tiny_xattr_sqsh 0
    = ([tiny_xattr_inode, tiny_xattr_block, le_bytes 8 7 @ le_bytes 4 2 @ le_bytes 4 23], 0)"
    by (simp add: inode_table_bytes_def ar_chain_def tiny_xattr_bytes tiny_xattr_inv)
  have "sqsh__data_inode_type (tiny_xattr_inode @ tiny_xattr_block @ le_bytes 8 7 @ le_bytes 4 2 @ le_bytes 4 23) = 13"
    by code_simp
  then have ty: "inode_impl_of_type (sqsh__data_inode_type (drop 0 (concat
      [tiny_xattr_inode, tiny_xattr_block, le_bytes 8 7 @ le_bytes 4 2 @ le_bytes 4 23]))) = Some sqsh__inode_ipc_ext_impl"
    by (simp add: inode_impl_of_type_def inode_type_defs)
  have sz: "inode_bytes sqsh__inode_ipc_ext_impl tiny_xattr_inode 17 = 24" by code_simp
  have sz': "inode_bytes sqsh__inode_ipc_ext_impl (tiny_xattr_inode @ xs) 17 = 24" for xs
    using sz by (simp add: inode_bytes_def sqsh__inode_ipc_ext_impl_def inode_ipc_payload_size_def inode_fixed_size_def)
  have xi: "xattr_index_of sqsh__inode_ipc_ext_impl tiny_xattr_inode = 0" by code_simp
  have reach: "chain_reaches [tiny_xattr_inode, tiny_xattr_block, le_bytes 8 7 @ le_bytes 4 2 @ le_bytes 4 23] 0"
    using tiny_xattr_length by auto
  have ref: "(0::nat) < 2 ^ 64" by simp
  from file_init_load_exact [OF tiny_xattr_inv(1) ref tb reach tiny_xattr_live(1) ty] obtain f where
    "file_sane tiny_env alist_entries alist_entries (\<lambda>u. u) tiny_xattr_sqsh f"
    "get_impl tiny_env f = Some sqsh__inode_ipc_ext_impl"
    "get_inode tiny_env f = window 0 24 (tiny_xattr_inode @ tiny_xattr_block @ le_bytes 8 7 @ le_bytes 4 2 @ le_bytes 4 23)"
    by (auto simp: tiny_xattr_inv tiny_xattr_length sz')
  then show thesis using that tiny_xattr_length xi
    by (simp add: file_impl_def window_def sqsh_file_xattr_index_def)
qed

lemma tiny_file_xattrs:
  assumes "sqsh_file_xattr_index tiny_env f = 0"
  shows "file_xattrs tiny_env (\<lambda>u. u) tiny_xattr_sqsh f tiny_xattrs"
proof -
  let ?e = "le_bytes 8 7 @ le_bytes 4 2 @ le_bytes 4 23"
  have g: "get_le 4 185 tiny_xattr_archive = 1" "get_le 8 193 tiny_xattr_archive = 159"
    "get_le 8 177 tiny_xattr_archive = 122" by code_simp+
  have c: "metablock_chain list_buffer (Some copy_codec) tiny_xattr_archive 159 = [?e]"
    "metablock_chain list_buffer (Some copy_codec) tiny_xattr_archive 122 = [tiny_xattr_block, ?e]" by code_simp+
  have n: "divide_ceil 16 8192 = 1" by code_simp
  have e: "xattr_table_entry tiny_env (\<lambda>u. u) tiny_xattr_sqsh 0 122 ?e"
    by (simp add: xattr_table_entry_def tiny_xattr_inv tiny_xattr_bytes tiny_xattr_length ar_chain_def g c n
        NO_SEGMENT_def window_def)
  have d: "sqsh__data_xattr_lookup_table_count ?e = 2" "sqsh__data_xattr_lookup_table_size ?e = 23"
    "sqsh__data_xattr_lookup_table_xattr_ref ?e = 7" "sqsh_address_ref_outer_offset 7 = 0"
    "sqsh_address_ref_inner_offset 7 = 7" "sqsh_address_ref_outer_offset 0 = 0"
    "sqsh_address_ref_inner_offset 0 = 0" by code_simp+
  have s: "length tiny_xattrs = 2" "sum_list (map xattr_size tiny_xattrs) = 23" by code_simp+
  have v: "encode_value [9, 9, 9] = le_bytes 4 3 @ [9, 9, 9]" by (simp add: encode_value_def numeral_3_eq_3)
  have l: "length (encode_xattrs tiny_xattrs) = 28" by code_simp
  have b: "bytes_at [tiny_xattr_block, ?e] 7 (encode_xattrs tiny_xattrs)"
    "bytes_at [tiny_xattr_block, ?e] 0 (encode_value [9, 9, 9])"
    by (simp_all add: bytes_at_def window_def tiny_xattr_length l) (simp_all add: tiny_xattr_block_def v l)
  have o: "list_all (xattr_ok tiny_env (\<lambda>u. u) tiny_xattr_sqsh 122) tiny_xattrs"
    using b(2) by (simp add: tiny_xattrs_def xattr_ok_def d ar_chain_def tiny_xattr_bytes c xattr_size_def
        xattr_full_name_def xattr_prefix_def SQSH_XATTR_USER_def SQSH_XATTR_TRUSTED_def SQSH_XATTR_SECURITY_def)
  have r: "list_all (xattr_reachable (\<lambda>u. u) tiny_xattr_sqsh 122) tiny_xattrs"
    by (simp add: tiny_xattrs_def xattr_reachable_def d tiny_xattr_bytes tiny_xattr_length)
  show ?thesis unfolding file_xattrs_def
    by (rule conjI, simp add: assms SQSH_INODE_NO_XATTR_def, rule conjI, rule tiny_xattr_inv(5), rule conjI,
        simp add: xattr_table_current_def tiny_sqsh_def, intro exI [of _ 122] exI [of _ ?e])
      (simp add: assms e d s b(1) o r ar_chain_def tiny_xattr_bytes tiny_xattr_length c)
qed

text \<open>
  The end of the search on the sign of the comparison: with \<^verbatim>\<open>security.b\<close> in front, \<^verbatim>\<open>user.a\<close> is not found
  although it is there.
\<close>

lemma xattr_find_order:
  "xattr_find [115, 101, 99, 117, 114, 105, 116, 121, 46, 98] tiny_xattrs \<noteq> None"
  "xattr_find [117, 115, 101, 114, 46, 97] tiny_xattrs \<noteq> None"
  "xattr_find [117, 115, 101, 114, 46, 97] (rev tiny_xattrs) = None"
  by (simp_all add: xattr_find_def tiny_xattrs_def xattr_cmp_def xattr_full_name_def xattr_prefix_def SQSH_XATTR_USER_def
      SQSH_XATTR_TRUSTED_def SQSH_XATTR_SECURITY_def)

theorem xattr_iteration_exact_witness:
  "\<exists>f. file_xattrs tiny_env (\<lambda>u. u) tiny_xattr_sqsh f tiny_xattrs \<and>
     list_xattrs tiny_env tiny_xattr_sqsh f = (Ok, map xattr_pair tiny_xattrs)"
proof -
  obtain f where f: "file_sane tiny_env alist_entries alist_entries (\<lambda>u. u) tiny_xattr_sqsh f"
    "sqsh_file_xattr_index tiny_env f = 0" by (rule tiny_xattr_open)
  note X = tiny_file_xattrs [OF f(2)]
  obtain rv es where l: "list_xattrs tiny_env tiny_xattr_sqsh f = (rv, es)" by fastforce
  have "safe_rv (env_lock tiny_env)" by (simp add: tiny_xattr_live(2))
  note E = xattr_iteration_exact [OF tiny_xattr_inv(1) this X l]
  have "rv = Ok" using E tiny_xattr_live by blast
  then have "list_xattrs tiny_env tiny_xattr_sqsh f = (Ok, map xattr_pair tiny_xattrs)" using E l by simp
  then show ?thesis using X by blast
qed

text \<open>The names and values that this delivers.\<close>

lemma tiny_xattr_pairs:
  "map xattr_pair tiny_xattrs =
     [([117, 115, 101, 114, 46, 97], [120, 121]),
      ([115, 101, 99, 117, 114, 105, 116, 121, 46, 98], [9, 9, 9])]"
  by code_simp

lemma tiny_xattr_iterator:
  obtains f it ar' where "file_xattrs tiny_env (\<lambda>u. u) tiny_xattr_sqsh f tiny_xattrs"
    "sqsh_xattr_iterator_new tiny_env tiny_xattr_sqsh f = (Ok, Some it, ar')"
proof -
  obtain f where f: "file_sane tiny_env alist_entries alist_entries (\<lambda>u. u) tiny_xattr_sqsh f"
    "sqsh_file_xattr_index tiny_env f = 0" by (rule tiny_xattr_open)
  note X = tiny_file_xattrs [OF f(2)]
  obtain rv it ar' where i: "sqsh__xattr_iterator_init tiny_env (zero_xattr_iterator tiny_env tiny_xattr_sqsh)
    tiny_xattr_sqsh f = (rv, it, ar')" by (rule prod_cases3)
  have "safe_rv (env_lock tiny_env)" by (simp add: tiny_xattr_live(2))
  from xattr_init_at(2) [OF tiny_xattr_inv(1) this X i tiny_xattr_live] have "rv = Ok" by simp
  then have "sqsh_xattr_iterator_new tiny_env tiny_xattr_sqsh f = (Ok, Some it, ar')"
    using i by (simp add: sqsh_xattr_iterator_new_def)
  then show thesis using that X by blast
qed



end
