(* ===== verification/Sqsh_Stored.thy ===== *)
theory Sqsh_Stored
  imports Sqsh_Listing
begin

text \<open>
  What it means that an archive holds a tree of files: which bytes of the archive are the inode of a
  reference, which reference an inode number has, and which listing a directory has. These notions are
  stated over the bytes alone; the lemmas show that opening a file by its reference finds what is stored.
\<close>

section \<open>Stored inodes\<close>

text \<open>The inode behind a reference, with its kind and its whole window.\<close>

definition inode_stored where
  "inode_stored env src ar ref impl bytes \<longleftrightarrow>
     (case inode_table_bytes env src ar ref of (blocks, inner) \<Rightarrow>
        let data = drop inner (concat blocks);
            size = inode_bytes impl data (sqsh_superblock_block_log env (ar_superblock ar))
        in ref < SQSH_INODE_REF_NULL \<and> chain_reaches blocks inner \<and>
           inode_impl_of_type (sqsh__data_inode_type data) = Some impl \<and>
           inner + size \<le> length (concat blocks) \<and> bytes = window inner size (concat blocks))"

text \<open>
  The numbering of the inodes: \<open>refs\<close> gives the reference of every number. The inode map of an archive
  agrees with it when it says nothing else.
\<close>

definition map_agrees where
  "map_agrees env ho refs ar \<longleftrightarrow>
     (\<exists>i. ar_inode_map ar = Some i \<and> im_inode_count i = sqsh_superblock_inode_count env (ar_superblock ar) \<and>
        (case im_impl i of
           DynMapImpl h \<Rightarrow> buckets_ok ho h \<and> (\<forall>n r. 0 < n \<longrightarrow> dyn_map_abs ho h n = Some r \<longrightarrow> r = refs n)
         | ExportTableImpl t \<Rightarrow> \<forall>n. \<not> inode_number_bad i n \<longrightarrow> sqsh_inode_map_get2 env ho ar i n = (Ok, refs n)))"

definition inode_numbered where
  "inode_numbered env refs ar ref bytes \<longleftrightarrow>
     (let n = sqsh__data_inode_number bytes
      in 0 < n \<and> n \<le> sqsh_superblock_inode_count env (ar_superblock ar) \<and> refs n = ref)"

lemma inode_stored_core:
  assumes "archive_core ar' = archive_core ar"
  shows "inode_stored env src ar' ref impl bytes = inode_stored env src ar ref impl bytes"
    "inode_numbered env refs ar' ref bytes = inode_numbered env refs ar ref bytes"
    "archive_live env src ar' = archive_live env src ar"
  using archive_coreD [OF assms]
  by (simp_all add: inode_stored_def inode_numbered_def inode_table_bytes_def ar_chain_def archive_live_def ar_bytes_def)

text \<open>A registration that agrees with the numbering is accepted.\<close>

lemma map_agrees_set:
  assumes m: "map_agrees env ho refs ar" and ho: "hash_map_ok ho" "hash_map_total ho" and lk: "env_lock env = Ok"
    and i: "ar_inode_map ar = Some i" and n: "0 < n" "n \<le> sqsh_superblock_inode_count env (ar_superblock ar)"
    and r: "refs n = r" "r < SQSH_INODE_REF_NULL"
    and eq: "sqsh_inode_map_set2 env ho ar i n r = (rv, i')"
  shows "rv = Ok" "map_agrees env ho refs (ar\<lparr>ar_inode_map := Some i'\<rparr>)"
proof -
  have c: "im_inode_count i = sqsh_superblock_inode_count env (ar_superblock ar)" using m i by (simp add: map_agrees_def)
  then have bad: "\<not> inode_number_bad i n" using n by (auto simp: inode_number_bad_def)
  have r': "r < 2 ^ 64" "r \<noteq> SQSH_INODE_REF_NULL" using r(2) by (auto simp: SQSH_INODE_REF_NULL_def)
  have "rv = Ok \<and> map_agrees env ho refs (ar\<lparr>ar_inode_map := Some i'\<rparr>)"
  proof (cases "im_impl i")
    case (ExportTableImpl t)
    have g: "sqsh_inode_map_get2 env ho ar i n = (Ok, refs n)" using m i ExportTableImpl bad by (simp add: map_agrees_def)
    have "rv = Ok" "i' = i" using eq g r(1) export_table_set_unchanged [OF ExportTableImpl, of env ho ar n r]
      by (simp_all split: if_splits)
    moreover have "sqsh_inode_map_get2 env ho (ar\<lparr>ar_inode_map := Some i\<rparr>) i k = sqsh_inode_map_get2 env ho ar i k" for k
      using inode_map_get_core [of "ar\<lparr>ar_inode_map := Some i\<rparr>" ar env ho] by simp
    ultimately show ?thesis using m i ExportTableImpl by (simp add: map_agrees_def)
  next
    case (DynMapImpl h)
    have h: "buckets_ok ho h" "\<And>k q. 0 < k \<Longrightarrow> dyn_map_abs ho h k = Some q \<Longrightarrow> q = refs k"
      using m i DynMapImpl by (simp_all add: map_agrees_def)
    have "rv = Ok" "i' = i\<lparr>im_impl := DynMapImpl (dyn_map_store ho h n r)\<rparr>"
      using eq dyn_map_set_abs [OF lk bad r', of ho h] h(2) [OF n(1)] r(1) DynMapImpl
      by (cases "dyn_map_abs ho h n"; simp add: sqsh_inode_map_set2_def)+
    moreover have "q = refs k" if "0 < k" "dyn_map_abs ho (dyn_map_store ho h n r) k = Some q" for k q
      using that h(2) [of k q] dyn_map_abs_store [OF ho h(1) _ _ r', of n k] n(1) r(1) by (auto split: if_splits)
    ultimately show ?thesis using c dyn_map_store_ok [OF ho h(1)] by (simp add: map_agrees_def)
  qed
  then show "rv = Ok" "map_agrees env ho refs (ar\<lparr>ar_inode_map := Some i'\<rparr>)" by simp_all
qed

text \<open>An archive without an export table gets a map that agrees with every numbering.\<close>

lemma map_agrees_new:
  assumes "ar_inode_map ar = None" "\<not> sqsh_superblock_has_export_table env (ar_superblock ar)"
    and "env_lock env = Ok" "hm_mutex ho = Ok" "hm_init ho = (Ok, h)" "\<And>k. hm_get ho h k = None"
  shows "\<exists>i ar'. sqsh_archive_inode_map env ho ar = (Ok, Some i, ar') \<and> archive_core ar' = archive_core ar \<and>
    map_agrees env ho refs ar' \<and> ar_config ar' = ar_config ar"
  using assms by (simp add: sqsh_archive_inode_map_def sqsh__inode_map_init_def dyn_map_init_def map_agrees_def Let_def
      buckets_ok_def dyn_map_abs_def stored_word_def)

section \<open>Opening a stored inode\<close>

lemma stored_file_init:
  assumes inv: "archive_inv env se ee src ar" and hs: "hash_map_safe ho" "hash_map_ok ho" "hash_map_total ho"
    and live: "archive_live env src ar" and lk: "env_lock env = Ok"
    and st: "inode_stored env src ar ref impl bytes" and num: "inode_numbered env refs ar ref bytes"
    and m: "map_agrees env ho refs ar"
  obtains f ar' where "sqsh__file_init env ho ar f0 ref = (Ok, f, ar')" "file_sane env se ee src ar' f"
    "get_inode env f = bytes" "get_impl env f = Some impl" "sqsh_file_inode_ref f = ref"
    "sqsh_file_inode env f = sqsh__data_inode_number bytes"
    "archive_inv env se ee src ar'" "archive_core ar' = archive_core ar" "map_agrees env ho refs ar'"
proof -
  obtain blocks inner where tb: "inode_table_bytes env src ar ref = (blocks, inner)" by fastforce
  have S: "ref < SQSH_INODE_REF_NULL" "chain_reaches blocks inner"
    "inode_impl_of_type (sqsh__data_inode_type (drop inner (concat blocks))) = Some impl"
    "inner + inode_bytes impl (drop inner (concat blocks)) (sqsh_superblock_block_log env (ar_superblock ar))
      \<le> length (concat blocks)"
    "bytes = window inner (inode_bytes impl (drop inner (concat blocks))
      (sqsh_superblock_block_log env (ar_superblock ar))) (concat blocks)"
    using st tb by (simp_all add: inode_stored_def Let_def)
  have ref: "ref < 2 ^ 64" using S(1) by (simp add: SQSH_INODE_REF_NULL_def)
  obtain f1 where l: "file_init_load env ar f0 ref = (Ok, f1)" and g: "get_inode env f1 = bytes"
    and gi: "get_impl env f1 = Some impl"
    using file_init_load_exact [OF inv ref tb S(2) live S(3,4), of f0] S(5) by metis
  obtain i where i: "ar_inode_map ar = Some i" using m by (auto simp: map_agrees_def)
  have mp: "sqsh_archive_inode_map env ho ar = (Ok, Some i, ar)" using i lk by (simp add: sqsh_archive_inode_map_def)
  have n: "sqsh_file_inode env f1 = sqsh__data_inode_number bytes" using g by (simp add: sqsh_file_inode_def)
  obtain rv i' where s: "sqsh_inode_map_set2 env ho ar i (sqsh__data_inode_number bytes) ref = (rv, i')" by fastforce
  have N: "0 < sqsh__data_inode_number bytes" "sqsh__data_inode_number bytes \<le> sqsh_superblock_inode_count env (ar_superblock ar)"
    "refs (sqsh__data_inode_number bytes) = ref" using num by (simp_all add: inode_numbered_def Let_def)
  note M = map_agrees_set [OF m hs(2,3) lk i N S(1) s]
  define f where "f = f1\<lparr>fl_parent_inode_ref := SQSH_INODE_REF_NULL\<rparr>"
  have e: "sqsh__file_init env ho ar f0 ref = (Ok, f, ar\<lparr>ar_inode_map := Some i'\<rparr>)"
    using l mp s n M(1) by (simp add: sqsh__file_init_def f_def)
  have lks: "safe_rv (env_lock env)" using lk by simp
  note F = file_init_correct [OF inv lks hs(1) ref tb e]
  have fs: "file_sane env se ee src (ar\<lparr>ar_inode_map := Some i'\<rparr>) f" "fl_inode_ref f = ref" using F by simp_all
  have g': "get_inode env f = bytes" using g by (simp add: f_def get_inode_def)
  have im: "get_impl env f = Some impl"
    using gi by (simp add: get_impl_def f_def get_inode_def)
  show thesis
    using that [OF e] fs g' im F M(2) n by (simp add: sqsh_file_inode_ref_def f_def sqsh_file_inode_def get_inode_def)
qed

section \<open>Stored directories and trees\<close>

text \<open>The reference is that of a directory with the given listing.\<close>

definition directory_at ::
  "('c, 'b, 'e) sqsh_env \<Rightarrow> ('u \<Rightarrow> byte list) \<Rightarrow> ('u, 'c, 'b, 'e, 'x, 'h) sqsh_archive \<Rightarrow> (nat \<Rightarrow> nat) \<Rightarrow> nat \<Rightarrow>
   directory_entry list \<Rightarrow> bool" where
  "directory_at env src ar refs ref entries \<longleftrightarrow>
     (\<exists>impl bytes. inode_stored env src ar ref impl bytes \<and> inode_numbered env refs ar ref bytes \<and>
        (\<forall>f :: ('u, 'c, 'b, 'e, 'x) sqsh_file. get_inode env f = bytes \<and> get_impl env f = Some impl \<longrightarrow>
           directory_address env ar f < length (ar_bytes src ar) \<and>
           (\<exists>L. directory_listing env src ar f L \<and> listing_entries L = entries)))"

text \<open>
  A tree of entries: those of a directory in their order, each with what is below it. After the entry of a
  directory come the entries in it, then the rest of its own directory.
\<close>

datatype entry_tree =
  EntryEnd | EntryFile directory_entry entry_tree | EntryDirectory directory_entry entry_tree entry_tree

primrec tree_entries :: "entry_tree \<Rightarrow> directory_entry list" where
  "tree_entries EntryEnd = []"
| "tree_entries (EntryFile e rest) = e # tree_entries rest"
| "tree_entries (EntryDirectory e sub rest) = e # tree_entries rest"

text \<open>
  The tree is what the archive holds. No entry is one of the directories around it, and the numbers
  of the entries agree with the numbering.
\<close>

primrec tree_stored where
  "tree_stored env src ar refs around EntryEnd \<longleftrightarrow> True"
| "tree_stored env src ar refs around (EntryFile e rest) \<longleftrightarrow>
     en_type e \<noteq> Some SQSH_FILE_TYPE_DIRECTORY \<and> refs (en_inode e) = en_inode_ref e \<and> en_inode_ref e \<notin> around \<and>
     tree_stored env src ar refs around rest"
| "tree_stored env src ar refs around (EntryDirectory e sub rest) \<longleftrightarrow>
     en_type e = Some SQSH_FILE_TYPE_DIRECTORY \<and> refs (en_inode e) = en_inode_ref e \<and> en_inode_ref e \<notin> around \<and>
     directory_at env src ar refs (en_inode_ref e) (tree_entries sub) \<and>
     tree_stored env src ar refs (insert (en_inode_ref e) around) sub \<and>
     tree_stored env src ar refs around rest"

lemma directory_listing_core:
  assumes "archive_core ar' = archive_core ar"
  shows "directory_listing env src ar' f L = directory_listing env src ar f L"
    "directory_address env ar' f = directory_address env ar f"
  using archive_coreD [OF assms] by (simp_all add: directory_listing_def directory_address_def)

lemma directory_at_core:
  assumes "archive_core ar' = archive_core ar"
  shows "directory_at env src ar' refs ref es = directory_at env src ar refs ref es"
  unfolding directory_at_def inode_stored_core [OF assms] directory_listing_core [OF assms] archive_coreD [OF assms] ..

lemma tree_stored_core:
  assumes "archive_core ar' = archive_core ar"
  shows "tree_stored env src ar' refs around t = tree_stored env src ar refs around t"
  by (induction t arbitrary: around) (simp_all add: directory_at_core [OF assms])

text \<open>Opening a stored directory, and starting to read it.\<close>

lemma stored_directory_init:
  fixes ar :: "('u, 'c, 'b, 'e, 'x, 'h) sqsh_archive"
  assumes inv: "archive_inv env se ee src ar" and hs: "hash_map_safe ho" "hash_map_ok ho" "hash_map_total ho"
    and live: "archive_live env src ar" and lk: "env_lock env = Ok"
    and st: "directory_at env src ar refs ref es" and m: "map_agrees env ho refs ar"
  obtains f ar' L where "sqsh__file_init env ho ar f0 ref = (Ok, f, ar')" "file_sane env se ee src ar' f"
    "sqsh_file_inode_ref f = ref" "refs (sqsh_file_inode env f) = ref"
    "directory_address env ar f < length (ar_bytes src ar)"
    "directory_listing env src ar f L" "listing_entries L = es"
    "archive_inv env se ee src ar'" "archive_core ar' = archive_core ar" "map_agrees env ho refs ar'"
proof -
  obtain impl bytes where s: "inode_stored env src ar ref impl bytes" "inode_numbered env refs ar ref bytes"
    "\<And>f :: ('u, 'c, 'b, 'e, 'x) sqsh_file. get_inode env f = bytes \<Longrightarrow> get_impl env f = Some impl \<Longrightarrow>
       directory_address env ar f < length (ar_bytes src ar) \<and>
       (\<exists>L. directory_listing env src ar f L \<and> listing_entries L = es)"
    using st by (auto simp: directory_at_def)
  obtain f ar' where F: "sqsh__file_init env ho ar f0 ref = (Ok, f, ar')" "file_sane env se ee src ar' f"
    "get_inode env f = bytes" "get_impl env f = Some impl" "sqsh_file_inode_ref f = ref"
    "sqsh_file_inode env f = sqsh__data_inode_number bytes"
    "archive_inv env se ee src ar'" "archive_core ar' = archive_core ar" "map_agrees env ho refs ar'"
    by (rule stored_file_init [OF inv hs live lk s(1,2) m])
  obtain L where L: "directory_address env ar f < length (ar_bytes src ar)"
    "directory_listing env src ar f L" "listing_entries L = es" using s(3) [OF F(3,4)] by blast
  have n: "refs (sqsh_file_inode env f) = ref" using s(2) F(6) by (simp add: inode_numbered_def Let_def)
  show thesis by (rule that [OF F(1,2,5) n L F(7-9)])
qed

text \<open>The entries that are still to come of an iterator over a stored directory.\<close>

definition entries_left where
  "entries_left env se ee src ar it vs \<longleftrightarrow>
     (\<exists>base. listing_at env se ee src (ar_chain env src ar) base it vs) \<and>
     sorted_wrt ord_class.lexordp (last_name it # map en_name vs) \<and> list_all entry_valid vs \<and>
     metablock_live env src (rd_iterator (di_metablock it))"

lemma entries_left_core:
  assumes "archive_core ar' = archive_core ar"
  shows "entries_left env se ee src ar' it vs = entries_left env se ee src ar it vs"
  using archive_coreD [OF assms] by (simp add: entries_left_def)

lemma entries_left_sane: "entries_left env se ee src ar it vs \<Longrightarrow> directory_iterator_sane env se ee src it"
  by (auto simp: entries_left_def listing_at_def)

lemma stored_iterator_init:
  assumes inv: "archive_inv env se ee src ar" and live: "archive_live env src ar"
    and f: "file_sane env se ee src ar f" and L: "directory_listing env src ar f L"
    and a: "directory_address env ar f < length (ar_bytes src ar)"
  obtains it where "sqsh__directory_iterator_init env ar it0 f = (Ok, it)" "di_file it = f"
    "entries_left env se ee src ar it (listing_entries L)"
proof -
  obtain rv it where i: "sqsh__directory_iterator_init env ar it0 f = (rv, it)" by fastforce
  note I = directory_iterator_init_correct [OF inv f i]
  have D: "sqsh_file_type env f = Some SQSH_FILE_TYPE_DIRECTORY" "3 \<le> sqsh_file_size env f" "sqsh_file_size env f < 2 ^ 32"
    using L by (simp_all add: directory_listing_def)
  have ok: "rv = Ok" "metablock_live env src (rd_iterator (di_metablock it))" using I(3) [OF live D a] by simp_all
  note T = directory_iterator_init_listing [OF inv f L i [unfolded ok(1)]]
  have "entries_left env se ee src ar it (listing_entries L)" using T ok(2) by (auto simp: entries_left_def)
  moreover have "di_file it = f" using I(2) ok(1) by simp
  ultimately show thesis using that i ok(1) by simp
qed

lemma entries_left_next:
  assumes E: "entries_left env se ee src ar it vs" and bt: "cx_buffer_total (env_buf env)" and mem: "\<forall>n. mem n"
    and eq: "sqsh_directory_iterator_next env mem it = (b, rv, it')"
  shows "rv = Ok" "b \<longleftrightarrow> vs \<noteq> []"
    "b \<Longrightarrow> entries_left env se ee src ar it' (tl vs) \<and> current_entry env it' = hd vs \<and> entry_loaded env it' \<and>
      di_file it' = di_file it"
proof -
  obtain base where L: "listing_at env se ee src (ar_chain env src ar) base it vs" using E by (auto simp: entries_left_def)
  have so: "sorted_wrt ord_class.lexordp (last_name it # map en_name vs)" "list_all entry_valid vs"
    "metablock_live env src (rd_iterator (di_metablock it))" using E by (simp_all add: entries_left_def)
  note N = sqsh_directory_iterator_next_listing [OF L so(1,2) eq]
  note S = sqsh_directory_iterator_next_safe [OF entries_left_sane [OF E] eq]
  show "rv = Ok" using N(3) [OF bt so(3) mem] by simp
  show b: "b \<longleftrightarrow> vs \<noteq> []" using N(1) N(3) [OF bt so(3) mem] by auto
  assume b1: b
  have "sorted_wrt ord_class.lexordp (last_name it' # map en_name (tl vs))" "list_all entry_valid (tl vs)"
    using so(1,2) N(1) [OF b1] by (cases vs; simp)+
  then show "entries_left env se ee src ar it' (tl vs) \<and> current_entry env it' = hd vs \<and> entry_loaded env it' \<and>
      di_file it' = di_file it"
    using N(1) [OF b1] N(3) [OF bt so(3) mem] S(3) [OF b1] b1 b by (auto simp: entries_left_def)
qed

text \<open>An archive in order, with memory, of which the inode map agrees with the numbering.\<close>

definition readable where
  "readable env se ee src ho refs ar \<longleftrightarrow> archive_inv env se ee src ar \<and> hash_map_safe ho \<and> hash_map_ok ho \<and>
     hash_map_total ho \<and> archive_live env src ar \<and> env_lock env = Ok \<and> map_agrees env ho refs ar"

lemma readable_core:
  assumes "readable env se ee src ho refs ar" "archive_inv env se ee src ar'" "archive_core ar' = archive_core ar"
    "map_agrees env ho refs ar'"
  shows "readable env se ee src ho refs ar'"
  using assms inode_stored_core(3) [OF assms(3), of env src] by (simp add: readable_def)

lemma readable_total: "readable env se ee src ho refs ar \<Longrightarrow> cx_buffer_total (env_buf env)"
  by (simp add: readable_def archive_live_def)

lemma set_parent_same:
  "get_inode env (sqsh__file_set_parent_inode_ref f p) = get_inode env f"
  "get_impl env (sqsh__file_set_parent_inode_ref f p) = get_impl env f"
  "file_sane env se ee src ar (sqsh__file_set_parent_inode_ref f p) = file_sane env se ee src ar f"
  "sqsh_file_inode_ref (sqsh__file_set_parent_inode_ref f p) = sqsh_file_inode_ref f"
  by (simp_all add: sqsh__file_set_parent_inode_ref_def get_inode_def get_impl_def file_sane_def file_impl_def sqsh_file_inode_ref_def)

lemma directory_listing_same:
  assumes "get_inode env g = get_inode env f" "get_impl env g = get_impl env f"
  shows "directory_listing env src ar g L = directory_listing env src ar f L"
    "directory_address env ar g = directory_address env ar f"
  using assms by (simp_all add: directory_listing_def directory_address_def sqsh_file_type_def sqsh_file_size_def
      sqsh_file_directory_block_start_def sqsh_file_directory_block_offset2_def file_impl_def)

section \<open>A small tree\<close>

text \<open>
  An archive whose root holds a directory \<^verbatim>\<open>d\<close> with a named pipe \<^verbatim>\<open>p\<close>, and a symbolic link \<^verbatim>\<open>l\<close> to
  \<^verbatim>\<open>d/p\<close>. The four inodes are the first metablock behind the superblock, the two listings are the second.
\<close>

definition tiny_root_listing :: "dir_run list" where
  "tiny_root_listing = [\<lparr>dr_start = 0, dr_base = 1, dr_entries =
     [\<lparr>de_name = [100], de_offset = 32, de_inode = 2, de_type = SQSH_FILE_TYPE_DIRECTORY\<rparr>,
      \<lparr>de_name = [108], de_offset = 84, de_inode = 4, de_type = SQSH_FILE_TYPE_SYMLINK\<rparr>]\<rparr>]"

definition tiny_sub_listing :: "dir_run list" where
  "tiny_sub_listing = [\<lparr>dr_start = 0, dr_base = 1, dr_entries =
     [\<lparr>de_name = [112], de_offset = 64, de_inode = 3, de_type = SQSH_FILE_TYPE_FIFO\<rparr>]\<rparr>]"

definition tiny_inode_head :: "nat \<Rightarrow> nat \<Rightarrow> byte list" where
  "tiny_inode_head type number = le_bytes 2 type @ le_bytes 2 420 @ le_bytes 2 0 @ le_bytes 2 0 @ le_bytes 4 0
     @ le_bytes 4 number"

definition tiny_tree_inodes :: "byte list" where
  "tiny_tree_inodes =
     tiny_inode_head 1 1 @ le_bytes 4 113 @ le_bytes 4 2 @ le_bytes 2 33 @ le_bytes 2 0 @ le_bytes 4 5
     @ tiny_inode_head 1 2 @ le_bytes 4 113 @ le_bytes 4 2 @ le_bytes 2 24 @ le_bytes 2 30 @ le_bytes 4 1
     @ tiny_inode_head 6 3 @ le_bytes 4 1
     @ tiny_inode_head 3 4 @ le_bytes 4 1 @ le_bytes 4 3 @ [100, 47, 112]"

definition tiny_tree_archive :: "byte list" where
  "tiny_tree_archive = SQSH_SUPERBLOCK_MAGIC @ le_bytes 4 4 @ le_bytes 4 0 @ le_bytes 4 131072
     @ le_bytes 4 0 @ le_bytes 2 1 @ le_bytes 2 17 @ le_bytes 2 0 @ le_bytes 2 2 @ le_bytes 2 4
     @ le_bytes 2 0 @ le_bytes 8 0 @ le_bytes 8 264 @ le_bytes 8 106 @ le_bytes 8 NO_SEGMENT
     @ le_bytes 8 96 @ le_bytes 8 96 @ le_bytes 8 NO_SEGMENT @ le_bytes 8 NO_SEGMENT
     @ le_bytes 2 (0x8000 + 111) @ tiny_tree_inodes
     @ le_bytes 2 (0x8000 + 51) @ encode_listing tiny_root_listing @ encode_listing tiny_sub_listing @ [1, 1]"

abbreviation tiny_tree_sqsh :: tiny_archive where
  "tiny_tree_sqsh \<equiv> tiny_sqsh 512 tiny_tree_archive"

lemma tiny_tree_length:
  "length tiny_tree_archive = 264"
  by (simp_all add: tiny_tree_archive_def tiny_tree_inodes_def tiny_inode_head_def SQSH_SUPERBLOCK_MAGIC_def
      tiny_root_listing_def tiny_sub_listing_def encode_run_def)

lemma tiny_tree_inv: "archive_inv tiny_env alist_entries alist_entries (\<lambda>u. u) tiny_tree_sqsh"
proof -
  have c: "superblock_check tiny_tree_archive = Ok" by code_simp
  from tiny_sqsh_inv [OF c] show ?thesis by (simp add: tiny_tree_length)
qed

definition tiny_refs :: "nat \<Rightarrow> nat" where
  "tiny_refs = (\<lambda>_. 0)(2 := 32, 3 := 64, 4 := 84)"

definition tiny_tree :: entry_tree where
  "tiny_tree = EntryDirectory \<lparr>en_name = [100], en_inode_ref = 32, en_inode = 2, en_type = Some SQSH_FILE_TYPE_DIRECTORY\<rparr>
     (EntryFile \<lparr>en_name = [112], en_inode_ref = 64, en_inode = 3, en_type = Some SQSH_FILE_TYPE_FIFO\<rparr> EntryEnd)
     (EntryFile \<lparr>en_name = [108], en_inode_ref = 84, en_inode = 4, en_type = Some SQSH_FILE_TYPE_SYMLINK\<rparr> EntryEnd)"

lemma tiny_tree_bytes: "ar_bytes (\<lambda>u. u) tiny_tree_sqsh = tiny_tree_archive"
  by (rule tiny_sqsh_bytes) (simp add: tiny_tree_length)

lemma tiny_tree_superblock:
  "sqsh_superblock_block_log tiny_env (ar_superblock tiny_tree_sqsh) = 17"
  "sqsh_superblock_inode_table_start tiny_env (ar_superblock tiny_tree_sqsh) = 96"
  "sqsh_superblock_directory_table_start tiny_env (ar_superblock tiny_tree_sqsh) = 96"
  "sqsh_superblock_inode_count tiny_env (ar_superblock tiny_tree_sqsh) = 4"
  "sqsh_superblock_inode_root_ref tiny_env (ar_superblock tiny_tree_sqsh) = 0"
  "\<not> sqsh_superblock_has_export_table tiny_env (ar_superblock tiny_tree_sqsh)"
proof -
  have "get_header tiny_env (ar_superblock tiny_tree_sqsh) = window 0 96 tiny_tree_archive"
    using archive_superblock [OF tiny_tree_inv] tiny_sqsh_bytes [of tiny_tree_archive 512]
    by (simp add: tiny_tree_length)
  moreover have "sqsh__data_superblock_block_log (window 0 96 tiny_tree_archive) = 17"
    "sqsh__data_superblock_inode_table_start (window 0 96 tiny_tree_archive) = 96"
    "sqsh__data_superblock_directory_table_start (window 0 96 tiny_tree_archive) = 96"
    "sqsh__data_superblock_inode_count (window 0 96 tiny_tree_archive) = 4"
    "sqsh__data_superblock_root_inode_ref (window 0 96 tiny_tree_archive) = 0"
    "sqsh__data_superblock_flags (window 0 96 tiny_tree_archive) = 0" by code_simp+
  ultimately show "sqsh_superblock_block_log tiny_env (ar_superblock tiny_tree_sqsh) = 17"
    "sqsh_superblock_inode_table_start tiny_env (ar_superblock tiny_tree_sqsh) = 96"
    "sqsh_superblock_directory_table_start tiny_env (ar_superblock tiny_tree_sqsh) = 96"
    "sqsh_superblock_inode_count tiny_env (ar_superblock tiny_tree_sqsh) = 4"
    "sqsh_superblock_inode_root_ref tiny_env (ar_superblock tiny_tree_sqsh) = 0"
    "\<not> sqsh_superblock_has_export_table tiny_env (ar_superblock tiny_tree_sqsh)"
    by (simp_all add: sqsh_superblock_block_log_def sqsh_superblock_inode_table_start_def
        sqsh_superblock_directory_table_start_def sqsh_superblock_inode_count_def sqsh_superblock_inode_root_ref_def
        sqsh_superblock_has_export_table_def check_flag_def)
qed

lemma tiny_tree_live: "archive_live tiny_env (\<lambda>u. u) tiny_tree_sqsh"
proof -
  have "sqsh__data_metablock_size (window 262 2 tiny_tree_archive) \<noteq> 0" by code_simp
  then show ?thesis by (intro tiny_sqsh_live) (simp_all add: tiny_tree_length)
qed

lemma tiny_tree_chains:
  "ar_chain tiny_env (\<lambda>u. u) tiny_tree_sqsh 96 = [tiny_tree_inodes, encode_listing tiny_root_listing @ encode_listing tiny_sub_listing]"
  "ar_chain tiny_env (\<lambda>u. u) tiny_tree_sqsh 209 = [encode_listing tiny_root_listing @ encode_listing tiny_sub_listing]"
proof -
  have "metablock_chain list_buffer (Some copy_codec) tiny_tree_archive 96
      = [tiny_tree_inodes, encode_listing tiny_root_listing @ encode_listing tiny_sub_listing]"
    "metablock_chain list_buffer (Some copy_codec) tiny_tree_archive 209
      = [encode_listing tiny_root_listing @ encode_listing tiny_sub_listing]" by code_simp+
  then show "ar_chain tiny_env (\<lambda>u. u) tiny_tree_sqsh 96 = [tiny_tree_inodes, encode_listing tiny_root_listing @ encode_listing tiny_sub_listing]"
    "ar_chain tiny_env (\<lambda>u. u) tiny_tree_sqsh 209 = [encode_listing tiny_root_listing @ encode_listing tiny_sub_listing]"
    by (simp_all add: ar_chain_def tiny_tree_bytes)
qed

lemma tiny_listings:
  "listing_entries tiny_root_listing = tree_entries tiny_tree" "listing_ok tiny_root_listing"
  "listing_entries tiny_sub_listing =
    [\<lparr>en_name = [112], en_inode_ref = 64, en_inode = 3, en_type = Some SQSH_FILE_TYPE_FIFO\<rparr>]" "listing_ok tiny_sub_listing"
  "length (encode_listing tiny_root_listing) = 30" "length (encode_listing tiny_sub_listing) = 21"
proof -
  have a: "sqsh_address_ref_create 0 32 = 32" "sqsh_address_ref_create 0 84 = 84" "sqsh_address_ref_create 0 64 = 64"
    by code_simp+
  show e: "listing_entries tiny_root_listing = tree_entries tiny_tree"
    by (simp add: tiny_root_listing_def run_entries_def entry_of_def a tiny_tree_def)
  show f: "listing_entries tiny_sub_listing =
    [\<lparr>en_name = [112], en_inode_ref = 64, en_inode = 3, en_type = Some SQSH_FILE_TYPE_FIFO\<rparr>]"
    by (simp add: tiny_sub_listing_def run_entries_def entry_of_def a)
  show "listing_ok tiny_root_listing"
    by (simp add: listing_ok_def e)
      (simp add: tiny_tree_def tiny_root_listing_def dir_run_ok_def dirent_ok_def name_valid_def)
  show "listing_ok tiny_sub_listing"
    by (simp add: listing_ok_def f) (simp add: tiny_sub_listing_def dir_run_ok_def dirent_ok_def name_valid_def)
  show "length (encode_listing tiny_root_listing) = 30" "length (encode_listing tiny_sub_listing) = 21"
    by (simp_all add: tiny_root_listing_def tiny_sub_listing_def encode_run_def)
qed

text \<open>A directory inode of the archive, given what its bytes say.\<close>

lemma tiny_directory_at:
  defines "listings \<equiv> encode_listing tiny_root_listing @ encode_listing tiny_sub_listing"
  assumes o: "sqsh_address_ref_outer_offset ref = 0" "sqsh_address_ref_inner_offset ref = ref" "ref + 32 \<le> 111"
    and b: "bytes = window ref 32 (tiny_tree_inodes @ listings)"
      "sqsh__data_inode_type (drop ref (tiny_tree_inodes @ listings)) = 1"
      "inode_bytes sqsh__inode_directory_impl (drop ref (tiny_tree_inodes @ listings)) 17 = 32"
    and n: "sqsh__data_inode_number bytes = n" "0 < n" "n \<le> 4" "tiny_refs n = ref" "sqsh__data_inode_type bytes = 1"
    and d: "ii_size sqsh__inode_directory_impl bytes = length (encode_listing L) + 3"
      "ii_directory_block_start sqsh__inode_directory_impl bytes = 113"
      "ii_directory_block_offset sqsh__inode_directory_impl bytes = off"
    and l: "listing_ok L" "window off (length (encode_listing L)) listings = encode_listing L"
      "off + length (encode_listing L) \<le> 51" "0 < length (encode_listing L)"
  shows "directory_at tiny_env (\<lambda>u. u) tiny_tree_sqsh tiny_refs ref (listing_entries L)"
proof -
  have len: "length tiny_tree_inodes = 111" "length listings = 51"
    by (simp_all add: tiny_tree_inodes_def tiny_inode_head_def listings_def tiny_listings)
  have tb: "inode_table_bytes tiny_env (\<lambda>u. u) tiny_tree_sqsh ref = ([tiny_tree_inodes, listings], ref)"
    by (simp add: inode_table_bytes_def tiny_tree_superblock o tiny_tree_chains listings_def)
  have st: "inode_stored tiny_env (\<lambda>u. u) tiny_tree_sqsh ref sqsh__inode_directory_impl bytes"
    using o(3) b len
    by (simp add: inode_stored_def tb Let_def tiny_tree_superblock SQSH_INODE_REF_NULL_def inode_impl_of_type_def
        inode_type_defs)
  have num: "inode_numbered tiny_env tiny_refs tiny_tree_sqsh ref bytes"
    using n by (simp add: inode_numbered_def tiny_tree_superblock)
  have "directory_address tiny_env tiny_tree_sqsh f < length (ar_bytes (\<lambda>u. u) tiny_tree_sqsh) \<and>
      directory_listing tiny_env (\<lambda>u. u) tiny_tree_sqsh f L"
    if f: "get_inode tiny_env f = bytes" "get_impl tiny_env f = Some sqsh__inode_directory_impl" for f
  proof -
    have F: "sqsh_file_type tiny_env f = Some SQSH_FILE_TYPE_DIRECTORY" "sqsh_file_size tiny_env f = length (encode_listing L) + 3"
      "sqsh_file_directory_block_start tiny_env f = 113" "sqsh_file_directory_block_offset2 tiny_env f = off"
      using n(5) d f by (simp_all add: sqsh_file_type_def file_type_of_type_def inode_type_defs file_impl_def
          sqsh_file_size_def sqsh_file_directory_block_start_def sqsh_file_directory_block_offset2_def)
    have a: "directory_address tiny_env tiny_tree_sqsh f = 209" by (simp add: directory_address_def F tiny_tree_superblock)
    have c: "ar_chain tiny_env (\<lambda>u. u) tiny_tree_sqsh 209 = [listings]" by (simp add: tiny_tree_chains listings_def)
    show ?thesis using l len(2) by (simp add: directory_listing_def F a c bytes_at_def tiny_tree_bytes tiny_tree_length)
  qed
  then show ?thesis unfolding directory_at_def using st num by blast
qed

lemma tiny_root_at: "directory_at tiny_env (\<lambda>u. u) tiny_tree_sqsh tiny_refs 0 (tree_entries tiny_tree)"
  unfolding tiny_listings(1) [symmetric]
  by (rule tiny_directory_at [where n = 1 and off = 0, OF _ _ _ refl]) (code_simp | simp add: tiny_listings)+

lemma tiny_sub_at: "directory_at tiny_env (\<lambda>u. u) tiny_tree_sqsh tiny_refs 32
    [\<lparr>en_name = [112], en_inode_ref = 64, en_inode = 3, en_type = Some SQSH_FILE_TYPE_FIFO\<rparr>]"
  unfolding tiny_listings(3) [symmetric]
  by (rule tiny_directory_at [where n = 2 and off = 30, OF _ _ _ refl]) (code_simp | simp add: tiny_listings)+

lemma tiny_tree_is_stored: "tree_stored tiny_env (\<lambda>u. u) tiny_tree_sqsh tiny_refs {0} tiny_tree"
  using tiny_sub_at by (simp add: tiny_tree_def tiny_refs_def)

text \<open>The archive once its inode map has been made.\<close>

abbreviation tiny_tree_mapped :: tiny_archive where
  "tiny_tree_mapped \<equiv> tiny_tree_sqsh\<lparr>ar_inode_map := Some \<lparr>im_impl = DynMapImpl [], im_inode_count = 4\<rparr>\<rparr>"

lemma tiny_tree_readable: "readable tiny_env alist_entries alist_entries (\<lambda>u. u) list_hash_map tiny_refs tiny_tree_mapped"
proof -
  have inv: "archive_inv tiny_env alist_entries alist_entries (\<lambda>u. u) tiny_tree_mapped"
    by (rule archive_map_update [OF tiny_tree_inv]) (simp add: inode_map_table_ok_def)
  have live: "archive_live tiny_env (\<lambda>u. u) tiny_tree_mapped"
    using tiny_tree_live inode_stored_core(3) [of tiny_tree_mapped tiny_tree_sqsh tiny_env "\<lambda>u. u"] by simp
  have "map_agrees tiny_env list_hash_map tiny_refs tiny_tree_mapped"
    by (simp add: map_agrees_def tiny_tree_superblock buckets_ok_def dyn_map_abs_def stored_word_def
        list_hash_map_def [THEN arg_cong [where f = hm_get], simplified])
  then show ?thesis using inv live tiny_hash_map by (simp add: readable_def tiny_env_def)
qed

lemma tiny_tree_mapped_stored:
  "directory_at tiny_env (\<lambda>u. u) tiny_tree_mapped tiny_refs 0 (tree_entries tiny_tree)"
  "tree_stored tiny_env (\<lambda>u. u) tiny_tree_mapped tiny_refs {0} tiny_tree"
  using tiny_root_at tiny_tree_is_stored directory_at_core [of tiny_tree_mapped tiny_tree_sqsh]
    tree_stored_core [of tiny_tree_mapped tiny_tree_sqsh] by simp_all

text \<open>The root of the tree as an open file.\<close>

lemma tiny_root_file:
  obtains f ar where "sqsh_open_by_ref tiny_env list_hash_map tiny_tree_mapped 0 = (Ok, Some f, ar)"
    "file_sane tiny_env alist_entries alist_entries (\<lambda>u. u) ar f" "sqsh_file_inode_ref f = 0"
    "sqsh_file_type tiny_env f = Some SQSH_FILE_TYPE_DIRECTORY" "archive_core ar = archive_core tiny_tree_sqsh"
    "readable tiny_env alist_entries alist_entries (\<lambda>u. u) list_hash_map tiny_refs ar"
    "directory_at tiny_env (\<lambda>u. u) ar tiny_refs 0 (tree_entries tiny_tree)"
    "tree_stored tiny_env (\<lambda>u. u) ar tiny_refs {0} tiny_tree"
proof -
  note W = tiny_tree_readable [unfolded readable_def]
  obtain f ar L where F: "sqsh__file_init tiny_env list_hash_map tiny_tree_mapped (zero_file tiny_env tiny_tree_mapped) 0 = (Ok, f, ar)"
    "file_sane tiny_env alist_entries alist_entries (\<lambda>u. u) ar f"
    "sqsh_file_inode_ref f = 0" "directory_listing tiny_env (\<lambda>u. u) tiny_tree_mapped f L"
    "archive_inv tiny_env alist_entries alist_entries (\<lambda>u. u) ar" "archive_core ar = archive_core tiny_tree_mapped"
    "map_agrees tiny_env list_hash_map tiny_refs ar"
    using stored_directory_init [of tiny_env alist_entries alist_entries "\<lambda>u. u" tiny_tree_mapped list_hash_map tiny_refs 0
      "tree_entries tiny_tree" "zero_file tiny_env tiny_tree_mapped"] W tiny_tree_mapped_stored(1) by blast
  have c: "archive_core ar = archive_core tiny_tree_sqsh" using F(6) by simp
  have "directory_at tiny_env (\<lambda>u. u) ar tiny_refs 0 (tree_entries tiny_tree)"
    "tree_stored tiny_env (\<lambda>u. u) ar tiny_refs {0} tiny_tree"
    using tiny_root_at tiny_tree_is_stored directory_at_core [OF c] tree_stored_core [OF c] by simp_all
  then show thesis
    using that [of f ar] F c readable_core [OF tiny_tree_readable F(5-7)]
    by (simp add: sqsh_open_by_ref_def directory_listing_def)
qed

end
