(* ===== verification/Sqsh_Tree.thy ===== *)
theory Sqsh_Tree
  imports Sqsh_Stored
begin

text \<open>
  The path resolver (\<^verbatim>\<open>libsqsh/src/tree/path_resolver.c\<close>), the walker on top of it (\<^verbatim>\<open>walker.c\<close>), and the
  functions of \<^verbatim>\<open>file/file.c\<close> that open a file by its path or follow a symbolic link.

  The pointers of the resolver to the archive and to the archive's inode map are the argument \<open>archive\<close>
  of the operations; what they change in it is returned. The directory iterator of the C code refers to
  the file of the resolver by pointer: whenever that file changes, its copy in the iterator does. One
  field has no counterpart: \<open>pr_cwd_loaded\<close> says that the inode of that file is in memory, which
  holds from a successful load to the next \<^verbatim>\<open>sqsh__file_cleanup\<close>; a read of the inode at any other time is
  undefined behaviour of the C code, \<open>Fault\<close> here.
\<close>

section \<open>The state\<close>

record ('u, 'c, 'b, 'e, 'x) path_resolver =
  pr_max_symlink_depth :: nat
  pr_current_symlink_depth :: nat
  pr_cwd :: "('u, 'c, 'b, 'e, 'x) sqsh_file"
  pr_cwd_loaded :: bool
  pr_iterator :: "('u, 'c, 'b, 'e, 'x) directory_iterator"
  pr_current_inode_ref :: nat
  pr_root_inode_ref :: nat

definition SQSH_DEFAULT_MAX_SYMLINKS_FOLLOWED :: nat where
  "SQSH_DEFAULT_MAX_SYMLINKS_FOLLOWED = 100"

text \<open>The structure filled with zeros.\<close>

definition zero_path_resolver ::
  "('c, 'b, 'e) sqsh_env \<Rightarrow> ('u, 'c, 'b, 'e, 'x, 'h) sqsh_archive \<Rightarrow> ('u, 'c, 'b, 'e, 'x) path_resolver" where
  "zero_path_resolver env archive = \<lparr>pr_max_symlink_depth = 0, pr_current_symlink_depth = 0,
     pr_cwd = zero_file env archive, pr_cwd_loaded = False,
     pr_iterator = zero_directory_iterator env archive (zero_file env archive),
     pr_current_inode_ref = 0, pr_root_inode_ref = 0\<rparr>"

section \<open>Segments of a path\<close>

definition path_segment_len :: "byte list \<Rightarrow> nat \<Rightarrow> nat" where
  "path_segment_len path path_len = length (takeWhile (\<lambda>c. c \<noteq> 47) (take path_len path))"

definition path_next_segment :: "byte list \<Rightarrow> nat \<Rightarrow> byte list option" where
  "path_next_segment path path_len =
     (let current_segment_len = path_segment_len path path_len
      in if current_segment_len = path_len then None else Some (drop (current_segment_len + 1) path))"

section \<open>Moving\<close>

definition is_beginning :: "('u, 'c, 'b, 'e, 'x) path_resolver \<Rightarrow> bool" where
  "is_beginning resolver \<longleftrightarrow> pr_current_inode_ref resolver = sqsh_file_inode_ref (pr_cwd resolver)"

definition update_inode_from_iterator ::
  "('c, 'b, 'e) sqsh_env \<Rightarrow> ('u, 'c, 'b, 'e, 'x) path_resolver \<Rightarrow> rv \<times> ('u, 'c, 'b, 'e, 'x) path_resolver" where
  "update_inode_from_iterator env resolver =
     (let inode_number = sqsh_directory_iterator_inode (pr_iterator resolver);
          inode_ref = sqsh_directory_iterator_inode_ref env (pr_iterator resolver)
      in if \<not> pr_cwd_loaded resolver then (Fault, resolver)
         else if sqsh_file_inode env (pr_cwd resolver) = inode_number then (Err SQSH_ERROR_CORRUPTED_INODE, resolver)
         else if sqsh_file_inode_ref (pr_cwd resolver) = inode_ref then (Err SQSH_ERROR_CORRUPTED_INODE, resolver)
         else (Ok, resolver\<lparr>pr_current_inode_ref := inode_ref\<rparr>))"

definition update_inode_from_cwd ::
  "('c, 'b, 'e) sqsh_env \<Rightarrow> ('u, 'c, 'b, 'e, 'x, 'h) sqsh_archive \<Rightarrow> ('u, 'c, 'b, 'e, 'x) path_resolver \<Rightarrow>
   rv \<times> ('u, 'c, 'b, 'e, 'x) path_resolver" where
  "update_inode_from_cwd env archive resolver =
     (let inode_ref = sqsh_file_inode_ref (pr_cwd resolver)
      in case sqsh__directory_iterator_cleanup env (pr_iterator resolver) of
        (rv, iterator) \<Rightarrow>
          if rv \<noteq> Ok then (rv, resolver\<lparr>pr_iterator := iterator\<rparr>)
          else if \<not> pr_cwd_loaded resolver then (Fault, resolver\<lparr>pr_iterator := iterator\<rparr>)
          else case sqsh__directory_iterator_init env archive iterator (pr_cwd resolver) of
            (rv, iterator) \<Rightarrow>
              if rv \<noteq> Ok then (rv, resolver\<lparr>pr_iterator := iterator\<rparr>)
              else (Ok, resolver\<lparr>pr_iterator := iterator, pr_current_inode_ref := inode_ref\<rparr>))"

text \<open>The inode map of the archive; the pointer to it has been set by \<^verbatim>\<open>sqsh__path_resolver_init\<close>.\<close>

definition inode_number_to_ref ::
  "('c, 'b, 'e) sqsh_env \<Rightarrow> 'h hash_map_ops \<Rightarrow> ('u, 'c, 'b, 'e, 'x, 'h) sqsh_archive \<Rightarrow> nat \<Rightarrow> rv \<times> nat" where
  "inode_number_to_ref env ho archive inode_number =
     (case ar_inode_map archive of
        None \<Rightarrow> (Fault, 0)
      | Some inode_map \<Rightarrow> sqsh_inode_map_get2 env ho archive inode_map inode_number)"

definition sqsh__path_resolver_init ::
  "('c, 'b, 'e) sqsh_env \<Rightarrow> 'h hash_map_ops \<Rightarrow> ('u, 'c, 'b, 'e, 'x, 'h) sqsh_archive \<Rightarrow>
   ('u, 'c, 'b, 'e, 'x) path_resolver \<Rightarrow>
   rv \<times> ('u, 'c, 'b, 'e, 'x) path_resolver \<times> ('u, 'c, 'b, 'e, 'x, 'h) sqsh_archive" where
  "sqsh__path_resolver_init env ho archive resolver =
     (case sqsh_archive_inode_map env ho archive of (rv, _, archive) \<Rightarrow>
        if rv \<noteq> Ok then (rv, resolver, archive)
        else let depth = cfg_max_symlink_depth (ar_config archive)
             in (Ok, resolver\<lparr>
                  pr_max_symlink_depth := (if depth = 0 then SQSH_DEFAULT_MAX_SYMLINKS_FOLLOWED else depth),
                  pr_root_inode_ref := sqsh_superblock_inode_root_ref env (ar_superblock archive)\<rparr>, archive))"

text \<open>The file of the resolver changes, and with it the file that the iterator refers to.\<close>

definition set_cwd ::
  "('u, 'c, 'b, 'e, 'x) sqsh_file \<Rightarrow> bool \<Rightarrow> ('u, 'c, 'b, 'e, 'x) path_resolver \<Rightarrow>
   ('u, 'c, 'b, 'e, 'x) path_resolver" where
  "set_cwd file loaded resolver = resolver\<lparr>pr_cwd := file, pr_cwd_loaded := loaded,
     pr_iterator := (pr_iterator resolver)\<lparr>di_file := file\<rparr>\<rparr>"

definition sqsh__path_resolver_to_ref ::
  "('c, 'b, 'e) sqsh_env \<Rightarrow> 'h hash_map_ops \<Rightarrow> ('u, 'c, 'b, 'e, 'x, 'h) sqsh_archive \<Rightarrow>
   ('u, 'c, 'b, 'e, 'x) path_resolver \<Rightarrow> nat \<Rightarrow>
   rv \<times> ('u, 'c, 'b, 'e, 'x) path_resolver \<times> ('u, 'c, 'b, 'e, 'x, 'h) sqsh_archive" where
  "sqsh__path_resolver_to_ref env ho archive resolver inode_ref =
     (case sqsh__file_cleanup env (pr_cwd resolver) of (rv, cwd) \<Rightarrow>
        if rv \<noteq> Ok then (rv, set_cwd cwd False resolver, archive)
        else case sqsh__file_init env ho archive cwd inode_ref of (rv, cwd, archive) \<Rightarrow>
          let resolver = set_cwd cwd (rv = Ok) resolver
          in if rv \<noteq> Ok then (rv, resolver, archive)
             else if sqsh_file_type env cwd \<noteq> Some SQSH_FILE_TYPE_DIRECTORY
             then (Err SQSH_ERROR_NOT_A_DIRECTORY, resolver, archive)
             else case update_inode_from_cwd env archive resolver of
               (rv, resolver) \<Rightarrow> (rv, resolver, archive))"

definition sqsh__path_resolver_to_inode ::
  "('c, 'b, 'e) sqsh_env \<Rightarrow> 'h hash_map_ops \<Rightarrow> ('u, 'c, 'b, 'e, 'x, 'h) sqsh_archive \<Rightarrow>
   ('u, 'c, 'b, 'e, 'x) path_resolver \<Rightarrow> nat \<Rightarrow>
   rv \<times> ('u, 'c, 'b, 'e, 'x) path_resolver \<times> ('u, 'c, 'b, 'e, 'x, 'h) sqsh_archive" where
  "sqsh__path_resolver_to_inode env ho archive resolver inode_number =
     (case inode_number_to_ref env ho archive inode_number of (rv, inode_ref) \<Rightarrow>
        if rv \<noteq> Ok then (rv, resolver, archive)
        else sqsh__path_resolver_to_ref env ho archive resolver inode_ref)"

definition sqsh_path_resolver_to_root ::
  "('c, 'b, 'e) sqsh_env \<Rightarrow> 'h hash_map_ops \<Rightarrow> ('u, 'c, 'b, 'e, 'x, 'h) sqsh_archive \<Rightarrow>
   ('u, 'c, 'b, 'e, 'x) path_resolver \<Rightarrow>
   rv \<times> ('u, 'c, 'b, 'e, 'x) path_resolver \<times> ('u, 'c, 'b, 'e, 'x, 'h) sqsh_archive" where
  "sqsh_path_resolver_to_root env ho archive resolver =
     sqsh__path_resolver_to_ref env ho archive resolver (pr_root_inode_ref resolver)"

definition sqsh_path_resolver_new ::
  "('c, 'b, 'e) sqsh_env \<Rightarrow> 'h hash_map_ops \<Rightarrow> ('u, 'c, 'b, 'e, 'x, 'h) sqsh_archive \<Rightarrow>
   rv \<times> ('u, 'c, 'b, 'e, 'x) path_resolver option \<times> ('u, 'c, 'b, 'e, 'x, 'h) sqsh_archive" where
  "sqsh_path_resolver_new env ho archive =
     (case sqsh__path_resolver_init env ho archive (zero_path_resolver env archive) of (rv, resolver, archive) \<Rightarrow>
        if rv \<noteq> Ok then (rv, None, archive)
        else case sqsh_path_resolver_to_root env ho archive resolver of (rv, resolver, archive) \<Rightarrow>
          (rv, if rv = Ok then Some resolver else None, archive))"

definition sqsh__path_resolver_type ::
  "('c, 'b, 'e) sqsh_env \<Rightarrow> ('u, 'c, 'b, 'e, 'x) path_resolver \<Rightarrow> sqsh_file_type option" where
  "sqsh__path_resolver_type env resolver =
     (if is_beginning resolver then Some SQSH_FILE_TYPE_DIRECTORY
      else sqsh_directory_iterator_file_type env (pr_iterator resolver))"

definition sqsh_path_resolver_type ::
  "('c, 'b, 'e) sqsh_env \<Rightarrow> ('u, 'c, 'b, 'e, 'x) path_resolver \<Rightarrow> sqsh_file_type option" where
  "sqsh_path_resolver_type env walker =
     (if is_beginning walker then sqsh_file_type env (pr_cwd walker)
      else sqsh_directory_iterator_file_type env (pr_iterator walker))"

definition sqsh_path_resolver_down ::
  "('c, 'b, 'e) sqsh_env \<Rightarrow> 'h hash_map_ops \<Rightarrow> ('u, 'c, 'b, 'e, 'x, 'h) sqsh_archive \<Rightarrow>
   ('u, 'c, 'b, 'e, 'x) path_resolver \<Rightarrow>
   rv \<times> ('u, 'c, 'b, 'e, 'x) path_resolver \<times> ('u, 'c, 'b, 'e, 'x, 'h) sqsh_archive" where
  "sqsh_path_resolver_down env ho archive resolver =
     (if is_beginning resolver then (Err SQSH_ERROR_WALKER_CANNOT_GO_DOWN, resolver, archive)
      else if sqsh__path_resolver_type env resolver \<noteq> Some SQSH_FILE_TYPE_DIRECTORY
      then (Err SQSH_ERROR_NOT_A_DIRECTORY, resolver, archive)
      else let child_inode_ref = sqsh_directory_iterator_inode_ref env (pr_iterator resolver)
           in case sqsh__path_resolver_to_ref env ho archive resolver child_inode_ref of
                (rv, resolver, archive) \<Rightarrow>
                  (if rv = Err SQSH_ERROR_NOT_A_DIRECTORY then Err SQSH_ERROR_CORRUPTED_INODE else rv,
                   resolver, archive))"

definition sqsh_path_resolver_up ::
  "('c, 'b, 'e) sqsh_env \<Rightarrow> 'h hash_map_ops \<Rightarrow> ('u, 'c, 'b, 'e, 'x, 'h) sqsh_archive \<Rightarrow>
   ('u, 'c, 'b, 'e, 'x) path_resolver \<Rightarrow>
   rv \<times> ('u, 'c, 'b, 'e, 'x) path_resolver \<times> ('u, 'c, 'b, 'e, 'x, 'h) sqsh_archive" where
  "sqsh_path_resolver_up env ho archive resolver =
     (if \<not> is_beginning resolver
      then case update_inode_from_cwd env archive resolver of (rv, resolver) \<Rightarrow> (rv, resolver, archive)
      else if sqsh_file_inode_ref (pr_cwd resolver) = pr_root_inode_ref resolver
      then (Err SQSH_ERROR_WALKER_CANNOT_GO_UP, resolver, archive)
      else if \<not> pr_cwd_loaded resolver then (Fault, resolver, archive)
      else let parent_inode = sqsh_file_directory_parent_inode env (pr_cwd resolver)
           in if parent_inode \<le> 0 then (Err SQSH_ERROR_CORRUPTED_INODE, resolver, archive)
              else sqsh__path_resolver_to_inode env ho archive resolver parent_inode)"

definition sqsh_path_resolver_revert ::
  "('c, 'b, 'e) sqsh_env \<Rightarrow> ('u, 'c, 'b, 'e, 'x, 'h) sqsh_archive \<Rightarrow> ('u, 'c, 'b, 'e, 'x) path_resolver \<Rightarrow>
   rv \<times> ('u, 'c, 'b, 'e, 'x) path_resolver" where
  "sqsh_path_resolver_revert env archive resolver = update_inode_from_cwd env archive resolver"

definition sqsh_path_resolver_inode_ref :: "('u, 'c, 'b, 'e, 'x) path_resolver \<Rightarrow> nat" where
  "sqsh_path_resolver_inode_ref resolver = pr_current_inode_ref resolver"

definition sqsh_path_resolver_lookup ::
  "('c, 'b, 'e) sqsh_env \<Rightarrow> 'h hash_map_ops \<Rightarrow> (nat \<Rightarrow> bool) \<Rightarrow> ('u, 'c, 'b, 'e, 'x, 'h) sqsh_archive \<Rightarrow>
   ('u, 'c, 'b, 'e, 'x) path_resolver \<Rightarrow> byte list \<Rightarrow>
   rv \<times> ('u, 'c, 'b, 'e, 'x) path_resolver \<times> ('u, 'c, 'b, 'e, 'x, 'h) sqsh_archive" where
  "sqsh_path_resolver_lookup env ho mem archive walker name =
     (case update_inode_from_cwd env archive walker of (rv, walker) \<Rightarrow>
        if rv \<noteq> Ok then (rv, walker, archive)
        else case sqsh_directory_iterator_lookup env ho mem archive (pr_iterator walker) name of
          (rv, iterator, archive) \<Rightarrow>
            let walker = walker\<lparr>pr_iterator := iterator\<rparr>
            in if rv \<noteq> Ok then (rv, walker, archive)
               else case update_inode_from_iterator env walker of (rv, walker) \<Rightarrow> (rv, walker, archive))"

definition sqsh_path_resolver_dir_inode ::
  "('c, 'b, 'e) sqsh_env \<Rightarrow> ('u, 'c, 'b, 'e, 'x) path_resolver \<Rightarrow> nat" where
  "sqsh_path_resolver_dir_inode env resolver =
     (if is_beginning resolver then sqsh_file_directory_parent_inode env (pr_cwd resolver)
      else sqsh_file_inode env (pr_cwd resolver))"

definition sqsh_path_resolver_open_file ::
  "('c, 'b, 'e) sqsh_env \<Rightarrow> 'h hash_map_ops \<Rightarrow> ('u, 'c, 'b, 'e, 'x, 'h) sqsh_archive \<Rightarrow>
   ('u, 'c, 'b, 'e, 'x) path_resolver \<Rightarrow>
   rv \<times> ('u, 'c, 'b, 'e, 'x) sqsh_file option \<times> ('u, 'c, 'b, 'e, 'x, 'h) sqsh_archive" where
  "sqsh_path_resolver_open_file env ho archive resolver =
     (case sqsh_open_by_ref env ho archive (pr_current_inode_ref resolver) of (rv, file, archive) \<Rightarrow>
        if rv \<noteq> Ok then (rv, None, archive)
        else case file of None \<Rightarrow> (Fault, None, archive)
        | Some file \<Rightarrow>
            (Ok, Some (if is_beginning resolver then file
                       else sqsh__file_set_parent_inode_ref file (sqsh_file_inode_ref (pr_cwd resolver))),
             archive))"

section \<open>Resolving a path\<close>

text \<open>
  Following a link resolves the path it holds, so the functions below recur. The recursion is
  cut at the resolver of a path, which they get as an argument: \<open>resolve path path_len\<close>.
\<close>

text \<open>
  When the return to the directory fails, the code jumps behind the declaration of the local \<^verbatim>\<open>file\<close> and
  passes the structure uninitialised to \<^verbatim>\<open>sqsh__file_cleanup\<close>. The type of the entry is not compared with that of
  the inode: when the inode is not a link its target is the null pointer, of which the first byte is read.
\<close>

definition follow_symlink_with where
  "follow_symlink_with resolve env ho archive resolver =
     (if pr_current_symlink_depth resolver > pr_max_symlink_depth resolver
      then (Err SQSH_ERROR_TOO_MANY_SYMLINKS_FOLLOWED, resolver, archive)
      else if sqsh__path_resolver_type env resolver \<noteq> Some SQSH_FILE_TYPE_SYMLINK
      then (Err SQSH_ERROR_NOT_A_SYMLINK, resolver, archive)
      else let resolver = resolver\<lparr>pr_current_symlink_depth := wrap_add (pr_current_symlink_depth resolver) 1\<rparr>;
               inode_ref = sqsh_directory_iterator_inode_ref env (pr_iterator resolver)
           in case update_inode_from_cwd env archive resolver of (rv, resolver) \<Rightarrow>
                if rv \<noteq> Ok then (Fault, resolver, archive)
                else case sqsh__file_init env ho archive (zero_file env archive) inode_ref of
                  (rv, file, archive) \<Rightarrow>
                    if rv \<noteq> Ok then (rv, resolver, archive)
                    else case sqsh_file_symlink env file of
                           None \<Rightarrow> (Fault, resolver, archive)
                         | Some target \<Rightarrow> resolve target (sqsh_file_symlink_size env file) resolver archive)"

primrec follow_all_loop where
  "follow_all_loop 0 resolve env ho archive resolver = (Diverge, resolver, archive)"
| "follow_all_loop (Suc fuel) resolve env ho archive resolver =
     (case follow_symlink_with resolve env ho archive resolver of (rv, resolver, archive) \<Rightarrow>
        if rv = Err SQSH_ERROR_NOT_A_SYMLINK then (Ok, resolver, archive)
        else if rv \<noteq> Ok then (rv, resolver, archive)
        else follow_all_loop fuel resolve env ho archive resolver)"

text \<open>How many links may still be followed, and one more round to find that there is none.\<close>

definition symlink_fuel :: "('u, 'c, 'b, 'e, 'x) path_resolver \<Rightarrow> nat" where
  "symlink_fuel resolver = pr_max_symlink_depth resolver + 3 - pr_current_symlink_depth resolver"

definition follow_all_symlinks where
  "follow_all_symlinks resolve env ho archive resolver =
     follow_all_loop (symlink_fuel resolver) resolve env ho archive resolver"

text \<open>The loop over the segments; a \<^verbatim>\<open>continue\<close> goes on with the next one and leaves the code as it is.\<close>

primrec path_resolve_loop where
  "path_resolve_loop 0 resolve env ho mem follow_symlinks rv is_dir segment remaining_path_len resolver archive =
     (Diverge, resolver, archive)"
| "path_resolve_loop (Suc fuel) resolve env ho mem follow_symlinks rv is_dir segment remaining_path_len resolver archive =
     (if \<not> is_dir then (Err SQSH_ERROR_NOT_A_DIRECTORY, resolver, archive)
      else let segment_len = path_segment_len segment remaining_path_len;
               next_segment = path_next_segment segment remaining_path_len;
               remaining_path_len = wrap_sub remaining_path_len (segment_len + 1);
               continue = (\<lambda>rv is_dir resolver archive.
                 case next_segment of
                   None \<Rightarrow> (rv, resolver, archive)
                 | Some segment \<Rightarrow> path_resolve_loop fuel resolve env ho mem follow_symlinks rv is_dir segment
                     remaining_path_len resolver archive)
           in if segment_len = 0 then continue rv True resolver archive
              else if segment_len = 1 \<and> segment ! 0 = 46 then continue rv True resolver archive
              else if segment_len = 2 \<and> segment ! 0 = 46 \<and> segment ! 1 = 46
              then (case sqsh_path_resolver_up env ho archive resolver of (rv, resolver, archive) \<Rightarrow>
                      if rv \<noteq> Ok then (rv, resolver, archive) else continue Ok True resolver archive)
              else case sqsh_path_resolver_lookup env ho mem archive resolver (take segment_len segment) of
                (rv, resolver, archive) \<Rightarrow>
                  if rv \<noteq> Ok then (rv, resolver, archive)
                  else case (if next_segment \<noteq> None \<or> follow_symlinks
                             then follow_all_symlinks resolve env ho archive resolver
                             else (Ok, resolver, archive)) of
                    (rv, resolver, archive) \<Rightarrow>
                      if rv \<noteq> Ok then (rv, resolver, archive)
                      else let is_dir = (sqsh_path_resolver_type env resolver = Some SQSH_FILE_TYPE_DIRECTORY)
                           in if is_dir \<and> \<not> is_beginning resolver
                              then (case sqsh_path_resolver_down env ho archive resolver of
                                      (rv, resolver, archive) \<Rightarrow> continue rv is_dir resolver archive)
                              else continue Ok is_dir resolver archive)"

text \<open>
  The first byte is read before the length is looked at. The loop goes round at most once for every
  byte and once more.
\<close>

definition path_resolve_with where
  "path_resolve_with resolve env ho mem path path_len follow_symlinks resolver archive =
     (if path = [] then (Fault, resolver, archive)
      else case (if path ! 0 = 47 then sqsh_path_resolver_to_root env ho archive resolver
                 else (Ok, resolver, archive)) of
        (rv, resolver, archive) \<Rightarrow>
          if rv \<noteq> Ok then (rv, resolver, archive)
          else path_resolve_loop (Suc path_len) resolve env ho mem follow_symlinks Ok True path path_len
                 resolver archive)"

text \<open>The recursion through the links, bounded by the number of links that may be followed.\<close>

primrec path_resolve_nested where
  "path_resolve_nested 0 env ho mem path path_len follow_symlinks resolver archive = (Diverge, resolver, archive)"
| "path_resolve_nested (Suc fuel) env ho mem path path_len follow_symlinks resolver archive =
     path_resolve_with (\<lambda>target target_size. path_resolve_nested fuel env ho mem target target_size True)
       env ho mem path path_len follow_symlinks resolver archive"

definition path_resolve where
  "path_resolve env ho mem path path_len follow_symlinks resolver archive =
     path_resolve_nested (symlink_fuel resolver) env ho mem path path_len follow_symlinks resolver archive"

definition sqsh__path_resolver_follow_symlink where
  "sqsh__path_resolver_follow_symlink env ho mem archive resolver =
     follow_symlink_with (\<lambda>path path_len. path_resolve env ho mem path path_len True) env ho archive resolver"

definition sqsh__path_resolver_follow_all_symlinks where
  "sqsh__path_resolver_follow_all_symlinks env ho mem archive resolver =
     follow_all_symlinks (\<lambda>path path_len. path_resolve env ho mem path path_len True) env ho archive resolver"

definition sqsh__path_resolver_resolve_nt where
  "sqsh__path_resolver_resolve_nt env ho mem archive resolver path path_len follow_symlinks =
     path_resolve env ho mem path path_len follow_symlinks (resolver\<lparr>pr_current_symlink_depth := 0\<rparr>) archive"

text \<open>A C string is passed without its null byte.\<close>

definition sqsh_path_resolver_resolve where
  "sqsh_path_resolver_resolve env ho mem archive resolver path follow_symlinks =
     sqsh__path_resolver_resolve_nt env ho mem archive resolver (path @ [0]) (length path) follow_symlinks"

definition sqsh__path_resolver_cleanup ::
  "('c, 'b, 'e) sqsh_env \<Rightarrow> ('u, 'c, 'b, 'e, 'x) path_resolver \<Rightarrow> rv \<times> ('u, 'c, 'b, 'e, 'x) path_resolver" where
  "sqsh__path_resolver_cleanup env resolver =
     (case sqsh__file_cleanup env (pr_cwd resolver) of (_, cwd) \<Rightarrow>
        let resolver = set_cwd cwd False resolver
        in case sqsh__directory_iterator_cleanup env (pr_iterator resolver) of (_, iterator) \<Rightarrow>
             (Ok, resolver\<lparr>pr_iterator := iterator\<rparr>))"

section \<open>Going through a directory\<close>

definition sqsh_path_resolver_next ::
  "('c, 'b, 'e) sqsh_env \<Rightarrow> (nat \<Rightarrow> bool) \<Rightarrow> ('u, 'c, 'b, 'e, 'x) path_resolver \<Rightarrow>
   bool \<times> rv \<times> ('u, 'c, 'b, 'e, 'x) path_resolver" where
  "sqsh_path_resolver_next env mem walker =
     (case sqsh_directory_iterator_next env mem (pr_iterator walker) of (has_next, rv, iterator) \<Rightarrow>
        let walker = walker\<lparr>pr_iterator := iterator\<rparr>
        in if rv \<noteq> Ok then (False, rv, walker)
           else if has_next
           then (case update_inode_from_iterator env walker of (rv, walker) \<Rightarrow> (rv = Ok, rv, walker))
           else (False, Ok, walker))"

definition sqsh_path_resolver_name ::
  "('c, 'b, 'e) sqsh_env \<Rightarrow> ('u, 'c, 'b, 'e, 'x) path_resolver \<Rightarrow> byte list option" where
  "sqsh_path_resolver_name env walker =
     (if is_beginning walker then None
      else case sqsh_directory_iterator_name2 env (pr_iterator walker) of (name, sz) \<Rightarrow> Some name)"

definition sqsh_path_resolver_name_size ::
  "('c, 'b, 'e) sqsh_env \<Rightarrow> ('u, 'c, 'b, 'e, 'x) path_resolver \<Rightarrow> nat" where
  "sqsh_path_resolver_name_size env walker =
     (if is_beginning walker then 0
      else case sqsh_directory_iterator_name2 env (pr_iterator walker) of (name, sz) \<Rightarrow> sz mod 2 ^ 16)"

definition sqsh_path_resolver_name_dup ::
  "('c, 'b, 'e) sqsh_env \<Rightarrow> (byte list \<Rightarrow> byte list option) \<Rightarrow> ('u, 'c, 'b, 'e, 'x) path_resolver \<Rightarrow>
   byte list option" where
  "sqsh_path_resolver_name_dup env cx_memdup walker =
     (if is_beginning walker then None else sqsh_directory_iterator_name_dup env cx_memdup (pr_iterator walker))"

section \<open>The walker (\<^verbatim>\<open>walker.c\<close>)\<close>

text \<open>The structure has the resolver as its only member.\<close>

type_synonym ('u, 'c, 'b, 'e, 'x) tree_walker = "('u, 'c, 'b, 'e, 'x) path_resolver"

definition tree_walker_init where
  "tree_walker_init env ho archive walker =
     (case sqsh__path_resolver_init env ho archive walker of (rv, walker, archive) \<Rightarrow>
        if rv \<noteq> Ok then (rv, walker, archive)
        else sqsh_path_resolver_to_root env ho archive walker)"

definition sqsh_tree_walker_new where
  "sqsh_tree_walker_new env ho archive =
     (case tree_walker_init env ho archive (zero_path_resolver env archive) of
        (rv, walker, archive) \<Rightarrow> (rv, if rv = Ok then Some walker else None, archive))"

definition sqsh_tree_walker_up where
  "sqsh_tree_walker_up env ho archive walker = sqsh_path_resolver_up env ho archive walker"

text \<open>One for an entry, zero for the end, or the error.\<close>

definition sqsh_tree_walker_next :: "('c, 'b, 'e) sqsh_env \<Rightarrow> (nat \<Rightarrow> bool) \<Rightarrow>
  ('u, 'c, 'b, 'e, 'x) tree_walker \<Rightarrow> (rv + nat) \<times> ('u, 'c, 'b, 'e, 'x) tree_walker" where
  "sqsh_tree_walker_next env mem walker =
     (case sqsh_path_resolver_next env mem walker of (has_next, rv, walker) \<Rightarrow>
        (if rv \<noteq> Ok then Inl rv else Inr (if has_next then 1 else 0), walker))"

definition sqsh_tree_walker_type where
  "sqsh_tree_walker_type env walker = sqsh_path_resolver_type env walker"

definition sqsh_tree_walker_name where
  "sqsh_tree_walker_name env walker = sqsh_path_resolver_name env walker"

definition sqsh_tree_walker_name_size where
  "sqsh_tree_walker_name_size env walker = sqsh_path_resolver_name_size env walker"

definition sqsh_tree_walker_name_dup where
  "sqsh_tree_walker_name_dup env cx_memdup walker = sqsh_path_resolver_name_dup env cx_memdup walker"

definition sqsh_tree_walker_revert where
  "sqsh_tree_walker_revert env archive walker = sqsh_path_resolver_revert env archive walker"

definition sqsh_tree_walker_lookup where
  "sqsh_tree_walker_lookup env ho mem archive walker name = sqsh_path_resolver_lookup env ho mem archive walker name"

definition sqsh_tree_walker_down where
  "sqsh_tree_walker_down env ho archive walker = sqsh_path_resolver_down env ho archive walker"

definition sqsh_tree_walker_to_root where
  "sqsh_tree_walker_to_root env ho archive walker = sqsh_path_resolver_to_root env ho archive walker"

definition sqsh_tree_walker_open_file where
  "sqsh_tree_walker_open_file env ho archive walker = sqsh_path_resolver_open_file env ho archive walker"

definition sqsh_tree_walker_resolve where
  "sqsh_tree_walker_resolve env ho mem archive walker path follow_links =
     sqsh_path_resolver_resolve env ho mem archive walker path follow_links"

definition tree_walker_cleanup where
  "tree_walker_cleanup env walker = sqsh__path_resolver_cleanup env walker"

section \<open>Opening by path (\<^verbatim>\<open>file.c\<close>)\<close>

definition apply_parent ::
  "('c, 'b, 'e) sqsh_env \<Rightarrow> 'h hash_map_ops \<Rightarrow> ('u, 'c, 'b, 'e, 'x, 'h) sqsh_archive \<Rightarrow>
   ('u, 'c, 'b, 'e, 'x) sqsh_file \<Rightarrow> ('u, 'c, 'b, 'e, 'x) path_resolver \<Rightarrow>
   rv \<times> ('u, 'c, 'b, 'e, 'x) sqsh_file \<times> ('u, 'c, 'b, 'e, 'x) path_resolver \<times> ('u, 'c, 'b, 'e, 'x, 'h) sqsh_archive" where
  "apply_parent env ho archive file resolver =
     (case sqsh_path_resolver_up env ho archive resolver of (rv, resolver, archive) \<Rightarrow>
        if rv = Err SQSH_ERROR_WALKER_CANNOT_GO_UP
        then (Ok, sqsh__file_set_parent_inode_ref file SQSH_INODE_REF_NULL, resolver, archive)
        else if rv \<noteq> Ok then (rv, file, resolver, archive)
        else (Ok, sqsh__file_set_parent_inode_ref file (sqsh_path_resolver_inode_ref resolver), resolver, archive))"

definition symlink_resolve where
  "symlink_resolve env ho mem archive context follow_symlinks =
     (if sqsh_file_type env context \<noteq> Some SQSH_FILE_TYPE_SYMLINK
      then (Err SQSH_ERROR_NOT_A_SYMLINK, context, archive)
      else case sqsh__file_parent_inode_ref env ho archive context of (rv, old_parent_ref, context, archive) \<Rightarrow>
        if rv \<noteq> Ok then (rv, context, archive)
        else case sqsh__path_resolver_init env ho archive (zero_path_resolver env archive) of
          (rv, resolver, archive) \<Rightarrow>
            if rv \<noteq> Ok then (rv, context, archive)
            else case sqsh__path_resolver_to_ref env ho archive resolver old_parent_ref of
              (rv, resolver, archive) \<Rightarrow>
                if rv \<noteq> Ok then (rv, context, archive)
                else case (case sqsh_file_symlink env context of
                             None \<Rightarrow> (Fault, resolver, archive)
                           | Some target \<Rightarrow> sqsh__path_resolver_resolve_nt env ho mem archive resolver target
                               (sqsh_file_symlink_size env context) follow_symlinks) of
                  (rv, resolver, archive) \<Rightarrow>
                    if rv \<noteq> Ok then (rv, context, archive)
                    else case sqsh__file_init env ho archive (snd (sqsh__file_cleanup env context))
                                (sqsh_path_resolver_inode_ref resolver) of
                      (rv, context, archive) \<Rightarrow>
                        if rv \<noteq> Ok then (rv, context, archive)
                        else case apply_parent env ho archive context resolver of
                          (rv, context, resolver, archive) \<Rightarrow> (rv, context, archive))"

definition sqsh_file_symlink_resolve where
  "sqsh_file_symlink_resolve env ho mem archive context = symlink_resolve env ho mem archive context False"

definition sqsh_file_symlink_resolve_all where
  "sqsh_file_symlink_resolve_all env ho mem archive context = symlink_resolve env ho mem archive context True"

definition open_file where
  "open_file env ho mem archive path follow_symlink =
     (case sqsh__path_resolver_init env ho archive (zero_path_resolver env archive) of (rv, resolver, archive) \<Rightarrow>
        if rv \<noteq> Ok then (rv, None, archive)
        else case sqsh_path_resolver_to_root env ho archive resolver of (rv, resolver, archive) \<Rightarrow>
          if rv \<noteq> Ok then (rv, None, archive)
          else case sqsh_path_resolver_resolve env ho mem archive resolver path follow_symlink of
            (rv, resolver, archive) \<Rightarrow>
              if rv \<noteq> Ok then (rv, None, archive)
              else case sqsh_path_resolver_open_file env ho archive resolver of (rv, inode, archive) \<Rightarrow>
                if rv \<noteq> Ok then (rv, None, archive)
                else case inode of None \<Rightarrow> (Fault, None, archive)
                | Some inode \<Rightarrow>
                    (case apply_parent env ho archive inode resolver of (rv, inode, resolver, archive) \<Rightarrow>
                       (rv, if rv = Ok then Some inode else None, archive)))"

definition sqsh_open where
  "sqsh_open env ho mem archive path = open_file env ho mem archive path True"

definition sqsh_lopen where
  "sqsh_lopen env ho mem archive path = open_file env ho mem archive path False"

section \<open>References\<close>

text \<open>
  The run that an entry belongs to gives 32 bits of its reference, the entry 16 bits: a reference from a directory
  fits 48 bits.
\<close>

lemma address_ref_bound:
  assumes "a < 2 ^ 32" "b < 2 ^ 16"
  shows "sqsh_address_ref_create a b < 2 ^ 48"
proof -
  have "push_bit 16 a < (2::nat) ^ 48" using assms(1) by (simp add: push_bit_eq_mult)
  moreover have "b < (2::nat) ^ 48" using assms(2) by simp
  ultimately have "take_bit 48 (push_bit 16 a OR b) = push_bit 16 a OR b"
    by (simp only: take_bit_or take_bit_nat_eq_self)
  then show ?thesis using take_bit_nat_less_exp [of 48 "push_bit 16 a OR b"]
    by (simp add: sqsh_address_ref_create_def)
qed

definition based :: "('u, 'c, 'b, 'e, 'x) directory_iterator \<Rightarrow> bool" where
  "based it \<longleftrightarrow> di_start_base it < 2 ^ 32"

lemma iterator_ref_bound:
  assumes "based it" shows "sqsh_directory_iterator_inode_ref env it < 2 ^ 48"
proof -
  have "sqsh__data_directory_entry_offset (get_entry env it) < 2 ^ 16"
    using get_le_bound [of 2 0 "get_entry env it"] by (simp add: sqsh__data_directory_entry_offset_def)
  with assms show ?thesis
    unfolding sqsh_directory_iterator_inode_ref_def based_def by (rule address_ref_bound)
qed

lemma sub_remaining_base: "sub_remaining it n = (ov, it') \<Longrightarrow> based it' = based it"
  by (auto simp: sub_remaining_def Let_def based_def)

lemma load_metablock_base: "load_metablock env ar it outer inner = (rv, it') \<Longrightarrow> based it' = based it"
  by (auto simp: load_metablock_def Let_def based_def split: prod.splits option.splits)

lemma load_entry_base: "load_entry env it = (b, rv, it') \<Longrightarrow> based it' = based it"
  by (auto simp: load_entry_def Let_def sub_remaining_def based_def split: prod.splits option.splits if_splits)

lemma process_fragment_base: "process_fragment env it = (rv, it') \<Longrightarrow> based it \<Longrightarrow> based it'"
  using get_le_bound [of 4 4]
  by (auto simp: based_def process_fragment_def Let_def sub_remaining_def sqsh__data_directory_fragment_start_def
      split: prod.splits if_splits)

lemma directory_iterator_next_base: "directory_iterator_next env it = (b, rv, it') \<Longrightarrow> based it \<Longrightarrow> based it'"
  by (auto simp: directory_iterator_next_def split: prod.splits if_splits dest!: process_fragment_base load_entry_base)
    (simp_all add: based_def)

lemma check_entry_base: "di_start_base (snd (check_entry_consistency env mem it)) = di_start_base it"
  by (simp add: check_entry_consistency_def Let_def case_prod_beta if_distrib [of snd] if_distrib [of di_start_base])

lemma update_inode_base: "di_start_base (snd (update_inode env it)) = di_start_base it"
  by (simp add: update_inode_def Let_def)

lemma finalize_base:
  assumes "directory_iterator_next_finalize env mem it = (rv, it')" shows "based it' = based it"
proof -
  have "di_start_base (snd (directory_iterator_next_finalize env mem it)) = di_start_base it"
    by (simp add: directory_iterator_next_finalize_def case_prod_beta check_entry_base update_inode_base)
  then show ?thesis using assms by (simp add: based_def)
qed

lemma sqsh_directory_iterator_next_base:
  "sqsh_directory_iterator_next env mem it = (b, rv, it') \<Longrightarrow> based it \<Longrightarrow> based it'"
  by (auto simp: sqsh_directory_iterator_next_def split: prod.splits if_splits
      dest: directory_iterator_next_base finalize_base)

lemma lookup_loop_base: "lookup_loop n env mem name it = (rv, it') \<Longrightarrow> based it \<Longrightarrow> based it'"
proof (induction n arbitrary: it)
  case (Suc n)
  obtain b r j where n: "directory_iterator_next env it = (b, r, j)" by (rule prod_cases3)
  have "based j" using directory_iterator_next_base [OF n Suc.prems(2)] .
  then show ?case using Suc.IH [of j] Suc.prems(1) n finalize_base [of env mem j rv it']
    by (auto split: prod.splits if_splits)
qed simp

lemma index_lookup_base:
  "directory_iterator_index_lookup env ho ar it name = (rv, it', ar') \<Longrightarrow> based it \<Longrightarrow> based it'"
  by (auto simp: directory_iterator_index_lookup_def Let_def split: prod.splits if_splits option.splits
      dest!: load_metablock_base sub_remaining_base) (simp_all add: based_def)

lemma directory_lookup_base:
  "sqsh_directory_iterator_lookup env ho mem ar it name = (rv, it', ar') \<Longrightarrow> based it \<Longrightarrow> based it'"
  by (auto simp: sqsh_directory_iterator_lookup_def simp del: lookup_loop.simps split: prod.splits if_splits
      dest: lookup_loop_base index_lookup_base)

lemma directory_iterator_init_base:
  "sqsh__directory_iterator_init env ar it f = (rv, it') \<Longrightarrow> rv = Ok \<or> based it \<Longrightarrow> based it'"
  by (auto simp: sqsh__directory_iterator_init_def Let_def zero_directory_iterator_def based_def
      split: if_splits option.splits dest!: load_metablock_base)

lemma based_update [simp]: "based (it\<lparr>di_file := f\<rparr>) = based it"
  by (simp add: based_def)

lemma update_from_cwd_base:
  "update_inode_from_cwd env ar r = (rv, r') \<Longrightarrow> based (pr_iterator r) \<Longrightarrow> based (pr_iterator r')"
  by (auto simp: update_inode_from_cwd_def sqsh__directory_iterator_cleanup_def Let_def
      split: prod.splits if_splits dest!: directory_iterator_init_base) (simp_all add: based_def)

text \<open>What the inode map delivers is a 64-bit number.\<close>

lemma inode_map_get_bound: "sqsh_inode_map_get2 env ho ar i n = (rv, r) \<Longrightarrow> r < 2 ^ 64"
  using unsigned_less [where ?'b = 64] get_le_bound [of 8 0]
  by (auto simp: sqsh_inode_map_get2_def export_table_get_def dyn_map_get_def Let_def
      sqsh_export_table_resolve_inode2_def split: inode_map_impl.splits prod.splits if_splits option.splits)

section \<open>Every operation on any archive\<close>

text \<open>
  The resolver stands in a directory that is in memory. When the position is not the directory itself, it
  is an entry that has been read, of a known type.
\<close>

definition resolver_rooted where
  "resolver_rooted env se ee src ar r \<longleftrightarrow>
     file_sane env se ee src ar (pr_cwd r) \<and> pr_cwd_loaded r \<and> sqsh_file_inode_ref (pr_cwd r) < 2 ^ 64 \<and>
     sqsh_file_type env (pr_cwd r) = Some SQSH_FILE_TYPE_DIRECTORY \<and> pr_root_inode_ref r < 2 ^ 64 \<and>
     ar_inode_map ar \<noteq> None"

definition resolver_sane where
  "resolver_sane env se ee src ar r \<longleftrightarrow> resolver_rooted env se ee src ar r \<and>
     directory_iterator_sane env se ee src (pr_iterator r) \<and> based (pr_iterator r) \<and>
     di_file (pr_iterator r) = pr_cwd r \<and>
     (is_beginning r \<or> entry_loaded env (pr_iterator r) \<and>
        sqsh_directory_iterator_file_type env (pr_iterator r) \<noteq> None \<and>
        pr_current_inode_ref r = sqsh_directory_iterator_inode_ref env (pr_iterator r))"

text \<open>
  A failed move down is not the end of \<^verbatim>\<open>path_resolve\<close>. What holds of the resolver then: its file is one that was
  loaded, or is marked as not in memory.
\<close>

definition resolver_kept where
  "resolver_kept env se ee src ar r \<longleftrightarrow> pr_root_inode_ref r < 2 ^ 64 \<and> ar_inode_map ar \<noteq> None \<and>
     based (pr_iterator r) \<and>
     (pr_cwd_loaded r \<longrightarrow> file_sane env se ee src ar (pr_cwd r) \<and> sqsh_file_inode_ref (pr_cwd r) < 2 ^ 64)"

lemma sane_rooted: "resolver_sane env se ee src ar r \<Longrightarrow> resolver_rooted env se ee src ar r"
  by (simp add: resolver_sane_def)

lemma rooted_kept: "resolver_rooted env se ee src ar r \<Longrightarrow> based (pr_iterator r) \<Longrightarrow> resolver_kept env se ee src ar r"
  by (simp add: resolver_kept_def resolver_rooted_def)

lemma sane_kept: "resolver_sane env se ee src ar r \<Longrightarrow> resolver_kept env se ee src ar r"
  by (simp add: resolver_kept_def resolver_sane_def resolver_rooted_def)

lemma resolver_rootedD:
  assumes "resolver_sane env se ee src ar r"
  shows "pr_root_inode_ref r < 2 ^ 64" "ar_inode_map ar \<noteq> None" "pr_cwd_loaded r"
    "file_sane env se ee src ar (pr_cwd r)" "sqsh_file_inode_ref (pr_cwd r) < 2 ^ 64"
    "sqsh_file_type env (pr_cwd r) = Some SQSH_FILE_TYPE_DIRECTORY"
  using assms by (auto simp: resolver_sane_def resolver_rooted_def)

text \<open>What an operation does to the archive, and what it leaves when it succeeds.\<close>

definition moves where
  "moves env se ee src ar r rv r' ar' \<longleftrightarrow> rv \<noteq> Diverge \<and> (pr_cwd_loaded r \<longrightarrow> safe_rv rv) \<and>
     archive_inv env se ee src ar' \<and> archive_core ar' = archive_core ar \<and> resolver_kept env se ee src ar' r' \<and>
     pr_root_inode_ref r' = pr_root_inode_ref r \<and> pr_max_symlink_depth r' = pr_max_symlink_depth r \<and>
     pr_current_symlink_depth r' = pr_current_symlink_depth r \<and>
     (rv = Ok \<longrightarrow> resolver_sane env se ee src ar' r')"

lemma moves_stop:
  "archive_inv env se ee src ar \<Longrightarrow> resolver_kept env se ee src ar r \<Longrightarrow> rv \<noteq> Diverge \<Longrightarrow>
    (pr_cwd_loaded r \<Longrightarrow> safe_rv rv) \<Longrightarrow> rv \<noteq> Ok \<Longrightarrow> moves env se ee src ar r rv r ar"
  by (simp add: moves_def)

lemma safe_not_diverge: "safe_rv rv \<Longrightarrow> rv \<noteq> Diverge"
  by auto

lemma file_init_keeps_map:
  assumes "sqsh__file_init env ho ar f0 ref = (rv, f, ar')"
  shows "rv = Ok \<or> ar_inode_map ar \<noteq> None \<Longrightarrow> ar_inode_map ar' \<noteq> None"
  using assms
  by (auto simp: sqsh__file_init_def sqsh_archive_inode_map_def Let_def split: prod.splits if_splits option.splits)

lemma directory_lookup_keeps_map:
  assumes "sqsh_directory_iterator_lookup env ho mem ar it name = (rv, it', ar')" "ar_inode_map ar \<noteq> None"
  shows "ar_inode_map ar' \<noteq> None"
proof -
  have "ar_inode_map a \<noteq> None" if "sqsh__directory_index_iterator_init env ho dx ar ref = (r, d, a)" for dx ref r d a
    using that assms(2)
    by (auto simp: sqsh__directory_index_iterator_init_def Let_def split: prod.splits if_splits
        dest!: file_init_keeps_map)
  then show ?thesis using assms
    by (auto simp: sqsh_directory_iterator_lookup_def directory_iterator_index_lookup_def Let_def
        simp del: lookup_loop.simps split: prod.splits if_splits option.splits)
qed

lemma cleanup_ok [simp]:
  "fst (sqsh__directory_iterator_cleanup env it) = Ok" "fst (sqsh__file_cleanup env f) = Ok"
  by (simp_all add: sqsh__directory_iterator_cleanup_def sqsh__file_cleanup_def sqsh__metablock_reader_cleanup_def
      case_prod_beta)

text \<open>The start of the directory again.\<close>

lemma update_inode_from_cwd_result:
  assumes inv: "archive_inv env se ee src ar" and r: "resolver_rooted env se ee src ar r"
    and eq: "update_inode_from_cwd env ar r = (rv, r')"
  shows "safe_rv rv" "rv = Ok \<Longrightarrow> resolver_sane env se ee src ar r' \<and> is_beginning r' \<and>
      (\<exists>it0. sqsh__directory_iterator_init env ar it0 (pr_cwd r) = (Ok, pr_iterator r'))"
    "pr_cwd r' = pr_cwd r" "pr_root_inode_ref r' = pr_root_inode_ref r" "pr_cwd_loaded r' = pr_cwd_loaded r"
    "pr_max_symlink_depth r' = pr_max_symlink_depth r"
    "pr_current_symlink_depth r' = pr_current_symlink_depth r"
proof -
  obtain c where c: "sqsh__directory_iterator_cleanup env (pr_iterator r) = (Ok, c)"
    using cleanup_ok(1) [of env "pr_iterator r"] by (metis prod.collapse)
  obtain r1 it where i: "sqsh__directory_iterator_init env ar c (pr_cwd r) = (r1, it)" by fastforce
  have ld: "pr_cwd_loaded r" and fs: "file_sane env se ee src ar (pr_cwd r)"
    using r by (simp_all add: resolver_rooted_def)
  have e: "rv = r1" "r' = (if r1 = Ok then r\<lparr>pr_iterator := it, pr_current_inode_ref := sqsh_file_inode_ref (pr_cwd r)\<rparr>
      else r\<lparr>pr_iterator := it\<rparr>)"
    using eq c i ld by (auto simp: update_inode_from_cwd_def Let_def split: if_splits)
  note I = directory_iterator_init_correct [OF inv fs i]
  show "safe_rv rv" using I(1) e by simp
  show "pr_cwd r' = pr_cwd r" "pr_root_inode_ref r' = pr_root_inode_ref r" "pr_cwd_loaded r' = pr_cwd_loaded r"
    "pr_max_symlink_depth r' = pr_max_symlink_depth r"
    "pr_current_symlink_depth r' = pr_current_symlink_depth r"
    using e(2) by (simp_all split: if_splits)
  assume "rv = Ok"
  then have o: "r1 = Ok" "r' = r\<lparr>pr_iterator := it, pr_current_inode_ref := sqsh_file_inode_ref (pr_cwd r)\<rparr>"
    using e by simp_all
  have "based it" using directory_iterator_init_base [OF i] o(1) by blast
  then show "resolver_sane env se ee src ar r' \<and> is_beginning r' \<and>
      (\<exists>it0. sqsh__directory_iterator_init env ar it0 (pr_cwd r) = (Ok, pr_iterator r'))"
    using r I(2) [OF o(1)] i o(1)
    by (auto simp: o(2) resolver_sane_def resolver_rooted_def is_beginning_def)
qed

lemma update_from_cwd_moves:
  assumes inv: "archive_inv env se ee src ar" and K: "resolver_kept env se ee src ar r"
    and eq: "update_inode_from_cwd env ar r = (rv, r')"
  shows "moves env se ee src ar r rv r' ar" "rv = Ok \<Longrightarrow> resolver_rooted env se ee src ar r \<and> is_beginning r'"
    "pr_cwd r' = pr_cwd r"
proof -
  have "moves env se ee src ar r rv r' ar \<and> (rv = Ok \<longrightarrow> resolver_rooted env se ee src ar r \<and> is_beginning r') \<and>
    pr_cwd r' = pr_cwd r"
  proof (cases "pr_cwd_loaded r \<and> sqsh_file_type env (pr_cwd r) = Some SQSH_FILE_TYPE_DIRECTORY")
    case True
    then have rt: "resolver_rooted env se ee src ar r" using K by (simp add: resolver_rooted_def resolver_kept_def)
    note U = update_inode_from_cwd_result [OF inv rt eq]
    show ?thesis using U K inv rt safe_not_diverge [OF U(1)] update_from_cwd_base [OF eq]
      by (simp add: moves_def resolver_kept_def)
  next
    case False
    obtain c where c: "sqsh__directory_iterator_cleanup env (pr_iterator r) = (Ok, c)"
      using cleanup_ok(1) [of env "pr_iterator r"] by (metis prod.collapse)
    have "rv \<noteq> Ok \<and> rv \<noteq> Diverge \<and> (pr_cwd_loaded r \<longrightarrow> safe_rv rv) \<and> (\<exists>it. r' = r\<lparr>pr_iterator := it\<rparr>)"
      using eq c False by (auto simp: update_inode_from_cwd_def sqsh__directory_iterator_init_def Let_def split: if_splits)
    then show ?thesis using K inv update_from_cwd_base [OF eq] by (auto simp: moves_def resolver_kept_def)
  qed
  then show "moves env se ee src ar r rv r' ar" "rv = Ok \<Longrightarrow> resolver_rooted env se ee src ar r \<and> is_beginning r'"
    "pr_cwd r' = pr_cwd r" by blast+
qed

lemma to_ref_result:
  assumes inv: "archive_inv env se ee src ar" and lk: "safe_rv (env_lock env)" and hs: "hash_map_safe ho"
    and root: "pr_root_inode_ref r < 2 ^ 64" and bs: "based (pr_iterator r)" and ref: "ref < 2 ^ 64"
    and eq: "sqsh__path_resolver_to_ref env ho ar r ref = (rv, r', ar')"
  shows "safe_rv rv" "ar_inode_map ar \<noteq> None \<Longrightarrow> moves env se ee src ar r rv r' ar'"
    "archive_inv env se ee src ar'" "archive_core ar' = archive_core ar"
    "rv = Ok \<Longrightarrow> resolver_sane env se ee src ar' r' \<and> is_beginning r' \<and> sqsh_file_inode_ref (pr_cwd r') = ref"
    "pr_current_symlink_depth r' = pr_current_symlink_depth r"
proof -
  obtain c where c: "sqsh__file_cleanup env (pr_cwd r) = (Ok, c)"
    using cleanup_ok(2) [of env "pr_cwd r"] by (metis prod.collapse)
  obtain r1 f a where i: "sqsh__file_init env ho ar c ref = (r1, f, a)" by (rule prod_cases3)
  obtain blocks inner where tb: "inode_table_bytes env src ar ref = (blocks, inner)" by fastforce
  note F = file_init_correct [OF inv lk hs ref tb i] and K = file_init_keeps_map [OF i]
  let ?r = "set_cwd f (r1 = Ok) r"
  obtain r2 q where u: "update_inode_from_cwd env a ?r = (r2, q)" by fastforce
  have main: "(rv, r', ar') = (if r1 \<noteq> Ok then (r1, ?r, a)
      else if sqsh_file_type env f \<noteq> Some SQSH_FILE_TYPE_DIRECTORY then (Err SQSH_ERROR_NOT_A_DIRECTORY, ?r, a)
      else (r2, q, a))"
    using eq c i u by (simp add: sqsh__path_resolver_to_ref_def Let_def split: if_splits)
  have inva: "archive_inv env se ee src a" and core: "archive_core a = archive_core ar" using F by blast+
  have ka: "resolver_kept env se ee src a ?r" if "r1 = Ok \<or> ar_inode_map ar \<noteq> None"
    using F K that root bs ref by (simp add: resolver_kept_def set_cwd_def sqsh_file_inode_ref_def)
  have q: "pr_root_inode_ref ?r = pr_root_inode_ref r" "pr_max_symlink_depth ?r = pr_max_symlink_depth r"
    "pr_current_symlink_depth ?r = pr_current_symlink_depth r" "pr_cwd ?r = f" "pr_cwd_loaded ?r = (r1 = Ok)"
    by (simp_all add: set_cwd_def)
  have U: "moves env se ee src a ?r r2 q a" "r2 = Ok \<Longrightarrow> is_beginning q" "pr_cwd q = f" if "r1 = Ok"
    using update_from_cwd_moves [OF inva ka u] that q(4) by auto
  show s: "safe_rv rv" using main F U(1) q(5) by (auto simp: moves_def split: if_splits)
  show "archive_inv env se ee src ar'" "archive_core ar' = archive_core ar" using main inva core by (auto split: if_splits)
  show "pr_current_symlink_depth r' = pr_current_symlink_depth r"
    using main q U(1) by (auto simp: moves_def split: if_splits)
  have sane: "resolver_sane env se ee src ar' r' \<and> is_beginning r' \<and> sqsh_file_inode_ref (pr_cwd r') = ref" if "rv = Ok"
  proof -
    have o: "r1 = Ok" "r2 = Ok" "r' = q" "ar' = a" using main that by (auto split: if_splits)
    show ?thesis using U [OF o(1)] o F by (simp add: moves_def sqsh_file_inode_ref_def)
  qed
  then show "rv = Ok \<Longrightarrow> resolver_sane env se ee src ar' r' \<and> is_beginning r' \<and> sqsh_file_inode_ref (pr_cwd r') = ref" .
  assume "ar_inode_map ar \<noteq> None"
  then show "moves env se ee src ar r rv r' ar'"
    using main sane s safe_not_diverge [OF s] inva core ka q U(1) by (auto simp: moves_def split: if_splits)
qed

lemma to_ref_moves:
  assumes "archive_inv env se ee src ar" "safe_rv (env_lock env)" "hash_map_safe ho"
    and "resolver_kept env se ee src ar r" "ref < 2 ^ 64" "sqsh__path_resolver_to_ref env ho ar r ref = (rv, r', ar')"
  shows "moves env se ee src ar r rv r' ar'"
  using to_ref_result(2) [OF assms(1-3) _ _ assms(5,6)] assms(4) by (simp add: resolver_kept_def)

lemma to_root_moves:
  assumes "archive_inv env se ee src ar" "safe_rv (env_lock env)" "hash_map_safe ho"
    and "resolver_kept env se ee src ar r" "sqsh_path_resolver_to_root env ho ar r = (rv, r', ar')"
  shows "moves env se ee src ar r rv r' ar'"
  using to_ref_moves [OF assms(1-4) _ assms(5) [unfolded sqsh_path_resolver_to_root_def]] assms(4)
  by (simp add: resolver_kept_def)

lemma down_moves:
  assumes inv: "archive_inv env se ee src ar" and lk: "safe_rv (env_lock env)" and hs: "hash_map_safe ho"
    and K: "resolver_kept env se ee src ar r" and eq: "sqsh_path_resolver_down env ho ar r = (rv, r', ar')"
  shows "moves env se ee src ar r rv r' ar'"
proof -
  obtain r1 q a where t: "sqsh__path_resolver_to_ref env ho ar r
    (sqsh_directory_iterator_inode_ref env (pr_iterator r)) = (r1, q, a)" by (rule prod_cases3)
  have "based (pr_iterator r)" using K by (simp add: resolver_kept_def)
  then have ref: "sqsh_directory_iterator_inode_ref env (pr_iterator r) < 2 ^ 64"
    by (rule less_trans [OF iterator_ref_bound]) simp
  note T = to_ref_moves [OF inv lk hs K ref t]
  have "r' = q \<and> ar' = a \<and> (rv = r1 \<or> rv = Err SQSH_ERROR_CORRUPTED_INODE) \<or>
      r' = r \<and> ar' = ar \<and> (rv = Err SQSH_ERROR_WALKER_CANNOT_GO_DOWN \<or> rv = Err SQSH_ERROR_NOT_A_DIRECTORY)"
    using eq t by (auto simp: sqsh_path_resolver_down_def Let_def split: if_splits)
  then show ?thesis
  proof (elim disjE conjE)
    assume "r' = q" "ar' = a" "rv = Err SQSH_ERROR_CORRUPTED_INODE"
    then show ?thesis using T by (simp add: moves_def)
  qed (use T moves_stop [OF inv K] in simp_all)
qed

lemma up_moves:
  assumes inv: "archive_inv env se ee src ar" and lk: "safe_rv (env_lock env)" and hs: "hash_map_safe ho"
    and K: "resolver_kept env se ee src ar r" and eq: "sqsh_path_resolver_up env ho ar r = (rv, r', ar')"
  shows "moves env se ee src ar r rv r' ar'"
proof (cases "is_beginning r")
  case False
  then obtain q where "update_inode_from_cwd env ar r = (rv, q)" "r' = q" "ar' = ar"
    using eq by (auto simp: sqsh_path_resolver_up_def split: prod.splits)
  then show ?thesis using update_from_cwd_moves(1) [OF inv K] by simp
next
  case True
  let ?n = "sqsh_file_directory_parent_inode env (pr_cwd r)"
  obtain i where i: "ar_inode_map ar = Some i" using K by (auto simp: resolver_kept_def)
  obtain r1 ref where g: "sqsh_inode_map_get2 env ho ar i ?n = (r1, ref)" by fastforce
  have ok: "archive_ok env se ee src ar" and it: "inode_map_table_ok env (ar_map_manager ar) i"
    using inv i by (auto simp: archive_inv_def archive_tables_ok_def inode_map_table_ok_def)
  have sg: "safe_rv r1" by (rule inode_map_get_safe [OF ok lk it g])
  obtain r2 q a where t: "sqsh__path_resolver_to_ref env ho ar r ref = (r2, q, a)" by (rule prod_cases3)
  note T = to_ref_moves [OF inv lk hs K inode_map_get_bound [OF g] t]
  have "(rv, r', ar') = (r2, q, a) \<or>
      r' = r \<and> ar' = ar \<and> rv \<noteq> Ok \<and> rv \<noteq> Diverge \<and> (pr_cwd_loaded r \<longrightarrow> safe_rv rv)"
    using eq True i g t sg
    by (auto simp: sqsh_path_resolver_up_def Let_def sqsh__path_resolver_to_inode_def inode_number_to_ref_def
        split: if_splits)
  then show ?thesis using T moves_stop [OF inv K] by blast
qed

lemma update_inode_from_iterator_result:
  assumes S: "resolver_rooted env se ee src ar r" "directory_iterator_sane env se ee src (pr_iterator r)"
    "based (pr_iterator r)" "di_file (pr_iterator r) = pr_cwd r" "entry_loaded env (pr_iterator r)"
    "sqsh_directory_iterator_file_type env (pr_iterator r) \<noteq> None"
    and eq: "update_inode_from_iterator env r = (rv, r')"
  shows "safe_rv rv" "rv = Ok \<Longrightarrow> resolver_sane env se ee src ar r' \<and> \<not> is_beginning r'"
    "resolver_kept env se ee src ar r'"
    "pr_root_inode_ref r' = pr_root_inode_ref r" "pr_max_symlink_depth r' = pr_max_symlink_depth r"
    "pr_current_symlink_depth r' = pr_current_symlink_depth r"
    "pr_cwd r' = pr_cwd r" "pr_iterator r' = pr_iterator r"
  using eq S by (auto simp: update_inode_from_iterator_def Let_def resolver_rooted_def resolver_sane_def
      resolver_kept_def is_beginning_def split: if_splits)

text \<open>A name is looked up behind a return to the directory, which fails if the directory is not in memory.\<close>

lemma lookup_moves:
  assumes inv: "archive_inv env se ee src ar" and lk: "safe_rv (env_lock env)" and hs: "hash_map_safe ho"
    and K: "resolver_kept env se ee src ar r"
    and eq: "sqsh_path_resolver_lookup env ho mem ar r name = (rv, r', ar')"
  shows "moves env se ee src ar r rv r' ar'"
    "rv = Ok \<Longrightarrow> sqsh_directory_iterator_name env (pr_iterator r') = name \<and> \<not> is_beginning r' \<and> name_valid name"
proof -
  obtain r1 q where u: "update_inode_from_cwd env ar r = (r1, q)" by fastforce
  note U = update_from_cwd_moves [OF inv K u]
  have "moves env se ee src ar r rv r' ar' \<and>
    (rv = Ok \<longrightarrow> sqsh_directory_iterator_name env (pr_iterator r') = name \<and> \<not> is_beginning r' \<and> name_valid name)"
  proof (cases "r1 = Ok")
    case False
    then show ?thesis using eq u U(1) by (simp add: sqsh_path_resolver_lookup_def)
  next
    case True
    have Q: "resolver_sane env se ee src ar q" using U(1) True by (simp add: moves_def)
    have qs: "directory_iterator_sane env se ee src (pr_iterator q)" "based (pr_iterator q)"
      "di_file (pr_iterator q) = pr_cwd q" using Q by (simp_all add: resolver_sane_def)
    obtain r2 it a where l: "sqsh_directory_iterator_lookup env ho mem ar (pr_iterator q) name = (r2, it, a)"
      by (rule prod_cases3)
    have fs: "file_sane env se ee src ar (di_file (pr_iterator q))"
      "sqsh_file_inode_ref (di_file (pr_iterator q)) < 2 ^ 64" using resolver_rootedD [OF Q] qs(3) by simp_all
    note L = directory_lookup_result [OF inv lk hs qs(1) fs l]
    have ma: "ar_inode_map a \<noteq> None" by (rule directory_lookup_keeps_map [OF l resolver_rootedD(2) [OF Q]])
    have core: "archive_core a = archive_core ar" using L by blast
    let ?w = "q\<lparr>pr_iterator := it\<rparr>"
    have rw: "resolver_rooted env se ee src a ?w"
      using resolver_rootedD [OF Q] ma by (simp add: resolver_rooted_def file_sane_core [OF core])
    obtain r3 w where f: "update_inode_from_iterator env ?w = (r3, w)" by fastforce
    have main: "(rv, r', ar') = (if r2 \<noteq> Ok then (r2, ?w, a) else (r3, w, a))"
      using eq u True l f by (simp add: sqsh_path_resolver_lookup_def Let_def split: if_splits)
    show ?thesis
    proof (cases "r2 = Ok")
      case False
      have "resolver_kept env se ee src a ?w" using rw directory_lookup_base [OF l qs(2)] by (simp add: rooted_kept)
      then show ?thesis using main False L U(1) safe_not_diverge [of r2] by (auto simp: moves_def)
    next
      case r2: True
      have X: "directory_iterator_sane env se ee src (pr_iterator ?w)" "based (pr_iterator ?w)"
        "di_file (pr_iterator ?w) = pr_cwd ?w" "entry_loaded env (pr_iterator ?w)"
        "sqsh_directory_iterator_file_type env (pr_iterator ?w) \<noteq> None"
        using L r2 qs directory_lookup_base [OF l qs(2)] by simp_all
      note I = update_inode_from_iterator_result [OF rw X f]
      then show ?thesis using main r2 L U(1) I safe_not_diverge [OF I(1)] by (auto simp: moves_def)
    qed
  qed
  then show "moves env se ee src ar r rv r' ar'"
    "rv = Ok \<Longrightarrow> sqsh_directory_iterator_name env (pr_iterator r') = name \<and> \<not> is_beginning r' \<and> name_valid name"
    by blast+
qed

lemma revert_moves:
  assumes "archive_inv env se ee src ar" "resolver_kept env se ee src ar r"
    and "sqsh_path_resolver_revert env ar r = (rv, r')"
  shows "moves env se ee src ar r rv r' ar"
  using update_from_cwd_moves(1) [OF assms(1,2) assms(3) [unfolded sqsh_path_resolver_revert_def]] .

lemma next_moves:
  assumes inv: "archive_inv env se ee src ar" and S: "resolver_sane env se ee src ar r"
    and eq: "sqsh_path_resolver_next env mem r = (b, rv, r')"
  shows "moves env se ee src ar r rv r' ar" "b \<Longrightarrow> rv = Ok \<and> \<not> is_beginning r'"
    "\<not> b \<Longrightarrow> rv = Ok \<Longrightarrow> r' = r"
proof -
  obtain b1 r1 it where n: "sqsh_directory_iterator_next env mem (pr_iterator r) = (b1, r1, it)" by (rule prod_cases3)
  have s: "directory_iterator_sane env se ee src (pr_iterator r)" "based (pr_iterator r)"
    "di_file (pr_iterator r) = pr_cwd r" using S by (simp_all add: resolver_sane_def)
  note N = sqsh_directory_iterator_next_safe [OF s(1) n]
  note D = resolver_rootedD [OF S]
  have same: "it = pr_iterator r" if "\<not> b1" "r1 = Ok"
  proof -
    obtain b2 r2 j where m: "directory_iterator_next env (pr_iterator r) = (b2, r2, j)" by (rule prod_cases3)
    have "\<not> b2" "r2 = Ok" "it = j" using n m that directory_iterator_next_safe(2) [OF s(1) m]
      by (auto simp: sqsh_directory_iterator_next_def split: prod.splits if_splits)
    then show ?thesis using directory_iterator_next_safe(4) [OF s(1) m] by simp
  qed
  let ?w = "r\<lparr>pr_iterator := it\<rparr>"
  obtain r3 w where f: "update_inode_from_iterator env ?w = (r3, w)" by fastforce
  have main: "(b, rv, r') = (if r1 \<noteq> Ok then (False, r1, ?w) else if b1 then (r3 = Ok, r3, w) else (False, Ok, ?w))"
    using eq n f by (cases "r1 = Ok"; cases b1) (auto simp: sqsh_path_resolver_next_def Let_def)
  have I: "safe_rv r3" "resolver_kept env se ee src ar w" "r3 = Ok \<Longrightarrow> resolver_sane env se ee src ar w \<and> \<not> is_beginning w"
    "pr_root_inode_ref w = pr_root_inode_ref r" "pr_max_symlink_depth w = pr_max_symlink_depth r"
    "pr_current_symlink_depth w = pr_current_symlink_depth r" if b1
  proof -
    have rw: "resolver_rooted env se ee src ar ?w" using sane_rooted [OF S] by (simp add: resolver_rooted_def)
    have X: "directory_iterator_sane env se ee src (pr_iterator ?w)" "based (pr_iterator ?w)"
      "di_file (pr_iterator ?w) = pr_cwd ?w" "entry_loaded env (pr_iterator ?w)"
      "sqsh_directory_iterator_file_type env (pr_iterator ?w) \<noteq> None"
      using N(3) [OF that] s sqsh_directory_iterator_next_base [OF n s(2)] by simp_all
    note I = update_inode_from_iterator_result [OF rw X f]
    show "safe_rv r3" "resolver_kept env se ee src ar w" "r3 = Ok \<Longrightarrow> resolver_sane env se ee src ar w \<and> \<not> is_beginning w"
      "pr_root_inode_ref w = pr_root_inode_ref r" "pr_max_symlink_depth w = pr_max_symlink_depth r"
      "pr_current_symlink_depth w = pr_current_symlink_depth r" using I by simp_all
  qed
  have kw: "resolver_kept env se ee src ar ?w"
    using sane_kept [OF S] sqsh_directory_iterator_next_base [OF n s(2)] by (simp add: resolver_kept_def)
  have "moves env se ee src ar r rv r' ar \<and> (b \<longrightarrow> rv = Ok \<and> \<not> is_beginning r') \<and> (\<not> b \<longrightarrow> rv = Ok \<longrightarrow> r' = r)"
  proof (cases "r1 = Ok")
    case False
    then have "b = False" "rv = r1" "r' = ?w" using main by simp_all
    then show ?thesis using False N(1) safe_not_diverge [OF N(1)] inv kw by (simp add: moves_def)
  next
    case ok: True
    show ?thesis
    proof (cases b1)
      case True
      then have "b = (r3 = Ok)" "rv = r3" "r' = w" using main ok by simp_all
      then show ?thesis using I [OF True] safe_not_diverge [OF I(1) [OF True]] inv by (simp add: moves_def)
    next
      case False
      then have "b = False" "rv = Ok" "r' = r" using main ok same by simp_all
      then show ?thesis using inv S sane_kept [OF S] by (simp add: moves_def)
    qed
  qed
  then show "moves env se ee src ar r rv r' ar" "b \<Longrightarrow> rv = Ok \<and> \<not> is_beginning r'" "\<not> b \<Longrightarrow> rv = Ok \<Longrightarrow> r' = r"
    by blast+
qed

lemma open_file_result:
  assumes inv: "archive_inv env se ee src ar" and lk: "safe_rv (env_lock env)" and hs: "hash_map_safe ho"
    and S: "resolver_sane env se ee src ar r"
    and eq: "sqsh_path_resolver_open_file env ho ar r = (rv, fo, ar')"
  shows "safe_rv rv \<and> archive_inv env se ee src ar' \<and> archive_core ar' = archive_core ar \<and>
    (rv = Ok \<longrightarrow> (\<exists>f. fo = Some f \<and> file_sane env se ee src ar' f \<and>
      sqsh_file_inode_ref f = sqsh_path_resolver_inode_ref r))"
proof -
  obtain r1 f a where i: "sqsh__file_init env ho ar (zero_file env ar) (pr_current_inode_ref r) = (r1, f, a)"
    by (rule prod_cases3)
  have "sqsh_directory_iterator_inode_ref env (pr_iterator r) < 2 ^ 64"
    using S by (intro less_trans [OF iterator_ref_bound]) (simp_all add: resolver_sane_def)
  then have ref: "pr_current_inode_ref r < 2 ^ 64"
    using S by (auto simp: resolver_sane_def resolver_rooted_def is_beginning_def)
  obtain blocks inner where tb: "inode_table_bytes env src ar (pr_current_inode_ref r) = (blocks, inner)" by fastforce
  note F = file_init_correct [OF inv lk hs ref tb i]
  show ?thesis using eq i F
    by (auto simp: sqsh_path_resolver_open_file_def sqsh_open_by_ref_def sqsh_path_resolver_inode_ref_def
        sqsh__file_set_parent_inode_ref_def sqsh_file_inode_ref_def split: if_splits)
qed

lemma resolver_init_result:
  assumes inv: "archive_inv env se ee src ar" and lk: "safe_rv (env_lock env)" and hs: "hash_map_safe ho"
    and eq: "sqsh__path_resolver_init env ho ar r = (rv, r', ar')"
  shows "safe_rv rv" "archive_inv env se ee src ar'" "archive_core ar' = archive_core ar"
    "rv = Ok \<Longrightarrow> ar_inode_map ar' \<noteq> None \<and> pr_root_inode_ref r' < 2 ^ 64 \<and>
      pr_root_inode_ref r' = sqsh_superblock_inode_root_ref env (ar_superblock ar) \<and>
      pr_current_symlink_depth r' = pr_current_symlink_depth r \<and> pr_cwd r' = pr_cwd r \<and>
      pr_iterator r' = pr_iterator r"
proof -
  obtain r1 io a where m: "sqsh_archive_inode_map env ho ar = (r1, io, a)" by (rule prod_cases3)
  note M = inode_map_inv [OF inv lk hs m]
  have "sqsh_superblock_inode_root_ref env (ar_superblock ar) < 2 ^ 64"
    using get_le_bound [of 8 32 "get_header env (ar_superblock ar)"]
    by (simp add: sqsh_superblock_inode_root_ref_def sqsh__data_superblock_root_inode_ref_def)
  moreover have "ar_superblock a = ar_superblock ar" using M by (simp add: archive_core_def)
  ultimately show "safe_rv rv" "archive_inv env se ee src ar'" "archive_core ar' = archive_core ar"
    "rv = Ok \<Longrightarrow> ar_inode_map ar' \<noteq> None \<and> pr_root_inode_ref r' < 2 ^ 64 \<and>
      pr_root_inode_ref r' = sqsh_superblock_inode_root_ref env (ar_superblock ar) \<and>
      pr_current_symlink_depth r' = pr_current_symlink_depth r \<and> pr_cwd r' = pr_cwd r \<and>
      pr_iterator r' = pr_iterator r"
    using eq m M by (auto simp: sqsh__path_resolver_init_def Let_def split: if_splits)
qed

lemma resolver_new_result:
  assumes inv: "archive_inv env se ee src ar" and lk: "safe_rv (env_lock env)" and hs: "hash_map_safe ho"
    and eq: "sqsh_path_resolver_new env ho ar = (rv, ro, ar')"
  shows "safe_rv rv" "archive_inv env se ee src ar'" "archive_core ar' = archive_core ar"
    "rv = Ok \<Longrightarrow> \<exists>r. ro = Some r \<and> resolver_sane env se ee src ar' r \<and> is_beginning r \<and>
      pr_current_symlink_depth r = 0 \<and>
      sqsh_file_inode_ref (pr_cwd r) = sqsh_superblock_inode_root_ref env (ar_superblock ar)"
proof -
  obtain r1 q a where i: "sqsh__path_resolver_init env ho ar (zero_path_resolver env ar) = (r1, q, a)"
    by (rule prod_cases3)
  note I = resolver_init_result [OF inv lk hs i]
  obtain r2 w a2 where t: "sqsh_path_resolver_to_root env ho a q = (r2, w, a2)" by (rule prod_cases3)
  note T = to_ref_result [OF I(2) lk hs _ _ _ t [unfolded sqsh_path_resolver_to_root_def]]
  show "safe_rv rv" "archive_inv env se ee src ar'" "archive_core ar' = archive_core ar"
    "rv = Ok \<Longrightarrow> \<exists>r. ro = Some r \<and> resolver_sane env se ee src ar' r \<and> is_beginning r \<and>
      pr_current_symlink_depth r = 0 \<and>
      sqsh_file_inode_ref (pr_cwd r) = sqsh_superblock_inode_root_ref env (ar_superblock ar)"
    using eq i t I T by (auto simp: sqsh_path_resolver_new_def zero_path_resolver_def zero_directory_iterator_def
        based_def split: if_splits)
qed

section \<open>Any sequence of moves\<close>

text \<open>One successful operation on a resolver and its archive.\<close>

inductive resolver_step for env ho mem where
  step_up: "sqsh_path_resolver_up env ho ar r = (Ok, r', ar') \<Longrightarrow> resolver_step env ho mem (ar, r) (ar', r')"
| step_down: "sqsh_path_resolver_down env ho ar r = (Ok, r', ar') \<Longrightarrow> resolver_step env ho mem (ar, r) (ar', r')"
| step_root: "sqsh_path_resolver_to_root env ho ar r = (Ok, r', ar') \<Longrightarrow> resolver_step env ho mem (ar, r) (ar', r')"
| step_lookup: "sqsh_path_resolver_lookup env ho mem ar r name = (Ok, r', ar') \<Longrightarrow>
    resolver_step env ho mem (ar, r) (ar', r')"
| step_revert: "sqsh_path_resolver_revert env ar r = (Ok, r') \<Longrightarrow> resolver_step env ho mem (ar, r) (ar, r')"
| step_next: "sqsh_path_resolver_next env mem r = (b, Ok, r') \<Longrightarrow> resolver_step env ho mem (ar, r) (ar, r')"

inductive_cases resolver_stepE: "resolver_step env ho mem (ar, r) (ar', r')"

lemma step_moves:
  assumes "archive_inv env se ee src ar" "safe_rv (env_lock env)" "hash_map_safe ho"
    and "resolver_sane env se ee src ar r" "resolver_step env ho mem (ar, r) (ar', r')"
  shows "moves env se ee src ar r Ok r' ar'"
proof -
  note k = sane_kept [OF assms(4)]
  show ?thesis using assms(5)
    by (cases rule: resolver_stepE)
      (use up_moves [OF assms(1-3) k] down_moves [OF assms(1-3) k] to_root_moves [OF assms(1-3) k]
         lookup_moves(1) [OF assms(1-3) k] revert_moves [OF assms(1) k] next_moves(1) [OF assms(1,4)] in blast)+
qed

lemma steps_sane:
  assumes "(resolver_step env ho mem)\<^sup>*\<^sup>* s s'" "s = (ar, r)" "s' = (ar', r')"
    and "safe_rv (env_lock env)" "hash_map_safe ho"
    and "archive_inv env se ee src ar" "resolver_sane env se ee src ar r"
  shows "archive_inv env se ee src ar' \<and> archive_core ar' = archive_core ar \<and> resolver_sane env se ee src ar' r'"
  using assms(1-3)
proof (induction arbitrary: ar' r' rule: rtranclp_induct)
  case base
  then show ?case using assms(6,7) by simp
next
  case (step y z)
  obtain a q where y: "y = (a, q)" by fastforce
  have I: "archive_inv env se ee src a" "archive_core a = archive_core ar" "resolver_sane env se ee src a q"
    using step.IH [OF step.prems(1) y] by auto
  have "resolver_step env ho mem (a, q) (ar', r')" using step.hyps(2) step.prems(2) y by simp
  from step_moves [OF I(1) assms(4,5) I(3) this] I(2) show ?case by (simp add: moves_def)
qed

lemma moves_fst:
  "(\<And>rv r' ar'. p = (rv, r', ar') \<Longrightarrow> moves env se ee src ar r rv r' ar') \<Longrightarrow> pr_cwd_loaded r \<Longrightarrow>
    safe_rv (fst p)"
  by (cases p) (auto simp: moves_def)

text \<open>
  C10. A path resolver is safe on every archive: however it is moved from its start at the root, by any sequence of
  successful moves up, down, to the root, to a name, to the next entry or back to the directory, the invariant
  of the archive holds, the directory it stands in is in memory, its position is the directory itself or an
  entry with a valid type, and no further move leaves the memory or fails to end.
\<close>

theorem path_resolver_moves_safe:
  assumes "archive_inv env se ee src ar" "safe_rv (env_lock env)" "hash_map_safe ho"
    and "sqsh_path_resolver_new env ho ar = (Ok, Some r0, ar0)"
    and "(resolver_step env ho mem)\<^sup>*\<^sup>* (ar0, r0) (ar1, r1)"
  shows "archive_inv env se ee src ar1 \<and> archive_core ar1 = archive_core ar \<and> pr_cwd_loaded r1 \<and>
    sqsh_path_resolver_type env r1 \<noteq> None \<and>
    safe_rv (fst (sqsh_path_resolver_up env ho ar1 r1)) \<and> safe_rv (fst (sqsh_path_resolver_down env ho ar1 r1)) \<and>
    safe_rv (fst (sqsh_path_resolver_to_root env ho ar1 r1)) \<and>
    safe_rv (fst (sqsh_path_resolver_lookup env ho mem ar1 r1 name)) \<and>
    safe_rv (fst (sqsh_path_resolver_revert env ar1 r1)) \<and>
    safe_rv (fst (snd (sqsh_path_resolver_next env mem r1))) \<and>
    safe_rv (fst (sqsh_path_resolver_open_file env ho ar1 r1))"
proof -
  have N: "archive_inv env se ee src ar0" "archive_core ar0 = archive_core ar" "resolver_sane env se ee src ar0 r0"
    using resolver_new_result [OF assms(1-4)] by auto
  have S: "archive_inv env se ee src ar1" "archive_core ar1 = archive_core ar" "resolver_sane env se ee src ar1 r1"
    using steps_sane [OF assms(5) refl refl assms(2,3) N(1,3)] N(2) by auto
  note H = S(1) assms(2,3) S(3) and k = S(1) assms(2,3) sane_kept [OF S(3)]
  note ld = resolver_rootedD(3) [OF S(3)]
  obtain b rv r' where n: "sqsh_path_resolver_next env mem r1 = (b, rv, r')" by (rule prod_cases3)
  moreover obtain rv2 r2 where v: "sqsh_path_resolver_revert env ar1 r1 = (rv2, r2)" by fastforce
  moreover obtain rv3 fo a3 where f: "sqsh_path_resolver_open_file env ho ar1 r1 = (rv3, fo, a3)" by (rule prod_cases3)
  moreover have "pr_cwd_loaded r1 \<and> sqsh_path_resolver_type env r1 \<noteq> None"
    using S(3) by (auto simp: resolver_sane_def resolver_rooted_def sqsh_path_resolver_type_def)
  ultimately show ?thesis
    using S(1,2) moves_fst [OF up_moves [OF k] ld] moves_fst [OF down_moves [OF k] ld]
      moves_fst [OF to_root_moves [OF k] ld] moves_fst [OF lookup_moves(1) [OF k] ld]
      next_moves(1) [OF S(1,3) n] revert_moves [OF k(1,4) v] ld open_file_result [OF H f] by (simp add: moves_def)
qed

section \<open>The end of a path\<close>

text \<open>Moves in a row; following links raises their count.\<close>

definition ends where
  "ends env se ee src ar r rv r' ar' \<longleftrightarrow> rv \<noteq> Diverge \<and> archive_inv env se ee src ar' \<and>
     archive_core ar' = archive_core ar \<and> resolver_kept env se ee src ar' r' \<and>
     pr_max_symlink_depth r' = pr_max_symlink_depth r \<and>
     pr_current_symlink_depth r \<le> pr_current_symlink_depth r' \<and>
     (pr_current_symlink_depth r \<le> pr_max_symlink_depth r + 1 \<longrightarrow>
       pr_current_symlink_depth r' \<le> pr_max_symlink_depth r + 1)"

lemma ends_trans:
  assumes "ends env se ee src ar r rv1 r1 ar1" "ends env se ee src ar1 r1 rv r' ar'"
  shows "ends env se ee src ar r rv r' ar'"
  using assms by (auto simp: ends_def)

lemma ends_stop:
  "archive_inv env se ee src ar \<Longrightarrow> resolver_kept env se ee src ar r \<Longrightarrow> rv \<noteq> Diverge \<Longrightarrow> ends env se ee src ar r rv r ar"
  by (simp add: ends_def)

lemma ends_code: "ends env se ee src ar r rv r' ar' \<Longrightarrow> rv' \<noteq> Diverge \<Longrightarrow> ends env se ee src ar r rv' r' ar'"
  by (simp add: ends_def)

lemma moves_ends: "moves env se ee src ar r rv r' ar' \<Longrightarrow> ends env se ee src ar r rv r' ar'"
  by (simp add: moves_def ends_def)

text \<open>What is asked of the resolver of the path in a link, when \<open>n\<close> more links may be followed.\<close>

definition resolve_ends where
  "resolve_ends env se ee src resolve n \<longleftrightarrow>
     (\<forall>path path_len r ar rv r' ar'. archive_inv env se ee src ar \<longrightarrow> resolver_kept env se ee src ar r \<longrightarrow>
        path_len < 2 ^ 64 \<longrightarrow> pr_max_symlink_depth r < 2 ^ 64 - 1 \<longrightarrow>
        pr_current_symlink_depth r \<le> pr_max_symlink_depth r + 1 \<longrightarrow>
        pr_max_symlink_depth r + 2 \<le> pr_current_symlink_depth r + n \<longrightarrow>
        resolve path path_len r ar = (rv, r', ar') \<longrightarrow> ends env se ee src ar r rv r' ar')"

lemma symlink_size_bound:
  assumes "file_sane env se ee src ar f" shows "sqsh_file_symlink_size env f < 2 ^ 64"
proof -
  have k: "file_impl env f \<in> inode_kinds"
    using assms inode_impl_kind by (auto simp: file_sane_def file_impl_def get_impl_def)
  have "ii_symlink_target_size impl s < 2 ^ 64" if "impl \<in> inode_kinds" for impl s
    using that get_le_bound [of 4 4 "drop 16 s"]
    unfolding inode_kinds_def
    by (elim insertE emptyE; hypsubst; simp add: inode_impl_defs inode_accessor_defs inode_get_defs inode_sizes)
  then show ?thesis using k by (simp add: sqsh_file_symlink_size_def)
qed

lemma follow_symlink_ends:
  assumes inv: "archive_inv env se ee src ar" and lk: "safe_rv (env_lock env)" and hs: "hash_map_safe ho"
    and K: "resolver_kept env se ee src ar r" and R: "resolve_ends env se ee src resolve n"
    and m: "pr_max_symlink_depth r < 2 ^ 64 - 1" "pr_current_symlink_depth r \<le> pr_max_symlink_depth r + 1"
      "pr_max_symlink_depth r + 1 \<le> pr_current_symlink_depth r + n"
    and eq: "follow_symlink_with resolve env ho ar r = (rv, r', ar')"
  shows "ends env se ee src ar r rv r' ar' \<and> (rv = Ok \<longrightarrow> pr_current_symlink_depth r < pr_current_symlink_depth r')"
proof -
  let ?d = "pr_current_symlink_depth r"
  let ?q = "r\<lparr>pr_current_symlink_depth := ?d + 1\<rparr>"
  let ?ref = "sqsh_directory_iterator_inode_ref env (pr_iterator r)"
  obtain r1 w where u: "update_inode_from_cwd env ar ?q = (r1, w)" by fastforce
  obtain r2 f a where i: "sqsh__file_init env ho ar (zero_file env ar) ?ref = (r2, f, a)" by (rule prod_cases3)
  have kq: "resolver_kept env se ee src ar ?q" using K by (simp add: resolver_kept_def)
  have U: "moves env se ee src ar ?q r1 w ar" by (rule update_from_cwd_moves(1) [OF inv kq u])
  have "based (pr_iterator r)" using K by (simp add: resolver_kept_def)
  then have ref: "?ref < 2 ^ 64" by (rule less_trans [OF iterator_ref_bound]) simp
  obtain blocks inner where tb: "inode_table_bytes env src ar ?ref = (blocks, inner)" by fastforce
  note F = file_init_correct [OF inv lk hs ref tb i]
  have w: "wrap_add ?d 1 = ?d + 1" if "?d \<le> pr_max_symlink_depth r" using that m(1) by (intro wrap_add_exact) simp
  show ?thesis
  proof (cases "?d > pr_max_symlink_depth r \<or> sqsh__path_resolver_type env r \<noteq> Some SQSH_FILE_TYPE_SYMLINK")
    case True
    then show ?thesis using eq ends_stop [OF inv K] by (auto simp: follow_symlink_with_def split: if_splits)
  next
    case False
    then have d: "?d \<le> pr_max_symlink_depth r" "sqsh__path_resolver_type env r = Some SQSH_FILE_TYPE_SYMLINK" by simp_all
    have raise: "ends env se ee src ar r e x b \<and> ?d < pr_current_symlink_depth x" if "ends env se ee src ar ?q e x b" for e x b
      using that d(1) by (auto simp: ends_def)
    show ?thesis
    proof (cases "r1 = Ok")
      case False
      then have "rv = Fault" "r' = w" "ar' = ar" using eq d w u by (auto simp: follow_symlink_with_def Let_def)
      then show ?thesis using raise [OF ends_code [OF moves_ends [OF U]]] by simp
    next
      case r1: True
      have core: "archive_core a = archive_core ar" and inva: "archive_inv env se ee src a" using F by blast+
      have ma: "ar_inode_map a \<noteq> None" using file_init_keeps_map [OF i] K by (simp add: resolver_kept_def)
      have kw: "resolver_kept env se ee src a w"
        using U ma by (simp add: moves_def resolver_kept_def file_sane_core [OF core])
      have cw: "pr_current_symlink_depth w = ?d + 1" "pr_max_symlink_depth w = pr_max_symlink_depth r"
        using U by (simp_all add: moves_def)
      have E: "ends env se ee src ar ?q e w a" if "e \<noteq> Diverge" for e
        using U inva core kw that by (simp add: moves_def ends_def)
      show ?thesis
      proof (cases "r2 = Ok \<and> sqsh_file_symlink env f \<noteq> None")
        case False
        then have "rv \<noteq> Diverge" "r' = w" "ar' = a"
          using eq d w u r1 i F by (auto simp: follow_symlink_with_def Let_def split: if_splits)
        then show ?thesis using raise [OF E] by simp
      next
        case True
        then obtain t where t: "sqsh_file_symlink env f = Some t" by auto
        have fs: "file_sane env se ee src a f" using F True by simp
        have e: "resolve t (sqsh_file_symlink_size env f) w a = (rv, r', ar')"
          using eq d w u r1 i True t by (simp add: follow_symlink_with_def Let_def)
        have "pr_max_symlink_depth w < 2 ^ 64 - 1" "pr_current_symlink_depth w \<le> pr_max_symlink_depth w + 1"
          "pr_max_symlink_depth w + 2 \<le> pr_current_symlink_depth w + n" using m d cw by simp_all
        then have "ends env se ee src a w rv r' ar'"
          using R e inva kw symlink_size_bound [OF fs] unfolding resolve_ends_def by blast
        then have "ends env se ee src ar ?q rv r' ar'" using ends_trans [OF E [of Ok]] by blast
        then show ?thesis using raise by blast
      qed
    qed
  qed
qed

lemma follow_all_ends:
  assumes "archive_inv env se ee src ar" "safe_rv (env_lock env)" "hash_map_safe ho"
    and "resolver_kept env se ee src ar r" "resolve_ends env se ee src resolve n"
    and "pr_max_symlink_depth r < 2 ^ 64 - 1" "pr_current_symlink_depth r \<le> pr_max_symlink_depth r + 1"
      "pr_max_symlink_depth r + 1 \<le> pr_current_symlink_depth r + n" "pr_max_symlink_depth r + 2 \<le> pr_current_symlink_depth r + fuel"
    and "follow_all_loop fuel resolve env ho ar r = (rv, r', ar')"
  shows "ends env se ee src ar r rv r' ar'"
  using assms
proof (induction fuel arbitrary: ar r)
  case (Suc fuel)
  obtain r1 q a where f: "follow_symlink_with resolve env ho ar r = (r1, q, a)" by (rule prod_cases3)
  have F: "ends env se ee src ar r r1 q a" "r1 = Ok \<Longrightarrow> pr_current_symlink_depth r < pr_current_symlink_depth q"
    using follow_symlink_ends [OF Suc.prems(1-8) f] by simp_all
  show ?case
  proof (cases "r1 = Ok")
    case False
    then have "r' = q \<and> ar' = a \<and> rv \<noteq> Diverge" using Suc.prems(10) f F(1) by (auto simp: ends_def split: if_splits)
    then show ?thesis using ends_code [OF F(1)] by simp
  next
    case True
    then have l: "follow_all_loop fuel resolve env ho a q = (rv, r', ar')" using Suc.prems(10) f by simp
    have "ends env se ee src a q rv r' ar'"
      using F True Suc.prems(2,3,5-9) by (intro Suc.IH [OF _ _ _ _ _ _ _ _ _ l]) (auto simp: ends_def)
    then show ?thesis by (rule ends_trans [OF F(1)])
  qed
qed simp

text \<open>One round over a segment; the rest of the path is what remains behind it.\<close>

lemma next_segment:
  assumes "path_next_segment s n = Some s'" "n < 2 ^ 64"
  shows "wrap_sub n (path_segment_len s n + 1) < n"
proof -
  have "path_segment_len s n \<le> length (take n s)" unfolding path_segment_len_def by (rule length_takeWhile_le)
  then have "path_segment_len s n < n" using assms(1) by (auto simp: path_next_segment_def Let_def split: if_splits)
  then show ?thesis using assms(2) by (simp add: wrap_sub_def mod_if)
qed

lemma resolve_loop_ends:
  assumes "archive_inv env se ee src ar" "safe_rv (env_lock env)" "hash_map_safe ho"
    and "resolver_kept env se ee src ar r" "resolve_ends env se ee src resolve n"
    and "pr_max_symlink_depth r < 2 ^ 64 - 1" "pr_current_symlink_depth r \<le> pr_max_symlink_depth r + 1"
      "pr_max_symlink_depth r + 1 \<le> pr_current_symlink_depth r + n" "rem < fuel" "rem < 2 ^ 64" "e \<noteq> Diverge"
    and "path_resolve_loop fuel resolve env ho mem fs e d s rem r ar = (rv, r', ar')"
  shows "ends env se ee src ar r rv r' ar'"
  using assms
proof (induction fuel arbitrary: ar r e d s rem)
  case (Suc fuel)
  note K = Suc.prems(1-4)
  let ?len = "path_segment_len s rem" and ?next = "path_next_segment s rem"
  define cont where "cont = (\<lambda>rv is_dir resolver archive. case ?next of None \<Rightarrow> (rv, resolver, archive)
    | Some segment \<Rightarrow> path_resolve_loop fuel resolve env ho mem fs rv is_dir segment (wrap_sub rem (?len + 1))
        resolver archive)"
  have C: "ends env se ee src ar r rv r' ar'"
    if "ends env se ee src ar r e1 q a" "cont e1 d1 q a = (rv, r', ar')" for e1 d1 q a
  proof (cases ?next)
    case None
    then show ?thesis using that by (simp add: cont_def)
  next
    case (Some s')
    have l: "path_resolve_loop fuel resolve env ho mem fs e1 d1 s' (wrap_sub rem (?len + 1)) q a = (rv, r', ar')"
      using that(2) Some by (simp add: cont_def)
    have n: "wrap_sub rem (?len + 1) < rem" using next_segment [OF Some Suc.prems(10)] .
    have "ends env se ee src a q rv r' ar'"
      using that(1) Suc.prems(2,3,5-10) n by (intro Suc.IH [OF _ _ _ _ _ _ _ _ _ _ _ l]) (auto simp: ends_def)
    then show ?thesis by (rule ends_trans [OF that(1)])
  qed
  have stop: "ends env se ee src ar r e1 r ar" if "e1 \<noteq> Diverge" for e1 by (rule ends_stop [OF K(1,4) that])
  show ?case
  proof (cases d)
    case False
    then have "rv = Err SQSH_ERROR_NOT_A_DIRECTORY" "r' = r" "ar' = ar" using Suc.prems(12) by simp_all
    then show ?thesis using stop [of rv] by simp
  next
    case d: True
    obtain r1 q1 a1 where u: "sqsh_path_resolver_up env ho ar r = (r1, q1, a1)" by (rule prod_cases3)
    obtain r2 q2 a2 where l: "sqsh_path_resolver_lookup env ho mem ar r (take ?len s) = (r2, q2, a2)" by (rule prod_cases3)
    have U: "ends env se ee src ar r r1 q1 a1" by (rule moves_ends [OF up_moves [OF K u]])
    have L: "ends env se ee src ar r r2 q2 a2" by (rule moves_ends [OF lookup_moves(1) [OF K l]])
    obtain r3 q3 a3 where f: "(if ?next \<noteq> None \<or> fs then follow_all_symlinks resolve env ho a2 q2
      else (Ok, q2, a2)) = (r3, q3, a3)" by (rule prod_cases3)
    have F: "ends env se ee src a2 q2 r3 q3 a3"
    proof (cases "?next \<noteq> None \<or> fs")
      case True
      then have x: "follow_all_loop (symlink_fuel q2) resolve env ho a2 q2 = (r3, q3, a3)"
        using f by (simp add: follow_all_symlinks_def)
      show ?thesis using L Suc.prems(2,3,5-8)
        by (intro follow_all_ends [OF _ _ _ _ _ _ _ _ _ x]) (auto simp: ends_def symlink_fuel_def)
    next
      case False
      then show ?thesis using f L by (auto simp: ends_def)
    qed
    have LF: "ends env se ee src ar r r3 q3 a3" by (rule ends_trans [OF L F])
    obtain r4 q4 a4 where w: "sqsh_path_resolver_down env ho a3 q3 = (r4, q4, a4)" by (rule prod_cases3)
    have W: "ends env se ee src ar r r4 q4 a4"
      using ends_trans [OF LF moves_ends [OF down_moves [OF _ Suc.prems(2,3) _ w]]] LF by (simp add: ends_def)
    let ?dir = "sqsh_path_resolver_type env q3 = Some SQSH_FILE_TYPE_DIRECTORY"
    note eq = Suc.prems(12) [unfolded path_resolve_loop.simps Let_def]
    show ?thesis
    proof (cases "?len = 0 \<or> ?len = 1 \<and> s ! 0 = 46")
      case True
      then have "cont e True r ar = (rv, r', ar')" using eq d by (auto simp: cont_def)
      then show ?thesis by (rule C [OF stop [OF Suc.prems(11)]])
    next
      case 1: False
      show ?thesis
      proof (cases "?len = 2 \<and> s ! 0 = 46 \<and> s ! 1 = 46")
        case True
        then have "(if r1 \<noteq> Ok then (r1, q1, a1) else cont Ok True q1 a1) = (rv, r', ar')"
          using eq d u by (auto simp: cont_def split: if_splits)
        then show ?thesis using C [OF U] U by (auto split: if_splits)
      next
        case False
        have n: "(?len = 0) = False" "(?len = 1 \<and> s ! 0 = 46) = False" "(?len = 2 \<and> s ! 0 = 46 \<and> s ! 1 = 46) = False"
          using 1 False by blast+
        have e: "(if r2 \<noteq> Ok then (r2, q2, a2) else if r3 \<noteq> Ok then (r3, q3, a3)
          else if ?dir \<and> \<not> is_beginning q3 then cont r4 ?dir q4 a4 else cont Ok ?dir q3 a3) = (rv, r', ar')"
          using eq [unfolded n if_False] d l f w by (auto simp: cont_def split: if_splits option.splits)
        show ?thesis
        proof (cases "r2 = Ok \<and> r3 = Ok")
          case True
          then show ?thesis using C [OF W] C [OF LF] e by (auto split: if_splits)
        next
          case False
          then show ?thesis using L LF e by (auto split: if_splits)
        qed
      qed
    qed
  qed
qed simp

lemma resolve_with_ends:
  assumes "archive_inv env se ee src ar" "safe_rv (env_lock env)" "hash_map_safe ho"
    and "resolver_kept env se ee src ar r" "resolve_ends env se ee src resolve n"
    and "pr_max_symlink_depth r < 2 ^ 64 - 1" "pr_current_symlink_depth r \<le> pr_max_symlink_depth r + 1"
      "pr_max_symlink_depth r + 1 \<le> pr_current_symlink_depth r + n" "path_len < 2 ^ 64"
    and "path_resolve_with resolve env ho mem path path_len fs r ar = (rv, r', ar')"
  shows "ends env se ee src ar r rv r' ar'"
proof -
  obtain r1 q a where t: "(if path ! 0 = 47 then sqsh_path_resolver_to_root env ho ar r else (Ok, r, ar)) = (r1, q, a)"
    by (rule prod_cases3)
  have T: "ends env se ee src ar r r1 q a"
    using t moves_ends [OF to_root_moves [OF assms(1-4)]] ends_stop [OF assms(1,4), of Ok] by (auto split: if_splits)
  show ?thesis
  proof (cases "path = []")
    case True
    then show ?thesis using assms(10) ends_stop [OF assms(1,4), of Fault] by (simp add: path_resolve_with_def)
  next
    case False
    show ?thesis
    proof (cases "r1 = Ok")
      case True
      then have l: "path_resolve_loop (Suc path_len) resolve env ho mem fs Ok True path path_len q a = (rv, r', ar')"
        using assms(10) t False by (simp add: path_resolve_with_def del: path_resolve_loop.simps)
      have "ends env se ee src a q rv r' ar'" using T assms(2,3,5-9)
        by (intro resolve_loop_ends [OF _ _ _ _ _ _ _ _ _ _ _ l]) (auto simp: ends_def)
      then show ?thesis by (rule ends_trans [OF T])
    next
      case no: False
      then have "rv = r1" "r' = q" "ar' = a"
        using assms(10) t False by (simp_all add: path_resolve_with_def del: path_resolve_loop.simps)
      then show ?thesis using T by simp
    qed
  qed
qed

lemma resolve_nested_ends:
  assumes "safe_rv (env_lock env)" "hash_map_safe ho"
  shows "resolve_ends env se ee src (\<lambda>path path_len. path_resolve_nested n env ho mem path path_len fs) n"
proof (induction n arbitrary: fs)
  case 0
  show ?case by (auto simp: resolve_ends_def)
next
  case (Suc n)
  show ?case unfolding resolve_ends_def
    by (intro allI impI, rule resolve_with_ends [OF _ assms _ Suc.IH [of True]]) simp_all
qed

text \<open>
  C8. Resolving a path always ends: for every archive, damaged or not, with links that lead in circles or
  not, every path and every setting of the greatest number of links (below the greatest number there is),
  \<^verbatim>\<open>sqsh_path_resolver_resolve\<close> returns; it has followed at most one link more than the setting allows, and the
  archive keeps its invariant.
\<close>

theorem path_resolution_ends:
  assumes "archive_inv env se ee src ar" "safe_rv (env_lock env)" "hash_map_safe ho"
    and "sqsh_path_resolver_new env ho ar = (Ok, Some r, ar0)"
    and "pr_max_symlink_depth r < 2 ^ 64 - 1" "length path < 2 ^ 64"
    and "sqsh_path_resolver_resolve env ho mem ar0 r path follow_symlinks = (rv, r', ar')"
  shows "rv \<noteq> Diverge \<and> pr_current_symlink_depth r' \<le> pr_max_symlink_depth r + 1 \<and>
    archive_inv env se ee src ar' \<and> archive_core ar' = archive_core ar"
proof -
  have N: "archive_inv env se ee src ar0" "archive_core ar0 = archive_core ar" "resolver_sane env se ee src ar0 r"
    using resolver_new_result [OF assms(1-4)] by auto
  let ?r = "r\<lparr>pr_current_symlink_depth := 0\<rparr>"
  have k: "resolver_kept env se ee src ar0 ?r" using sane_kept [OF N(3)] by (simp add: resolver_kept_def)
  have e: "path_resolve_nested (symlink_fuel ?r) env ho mem (path @ [0]) (length path) follow_symlinks ?r ar0 = (rv, r', ar')"
    using assms(7) by (simp add: sqsh_path_resolver_resolve_def sqsh__path_resolver_resolve_nt_def path_resolve_def)
  have "ends env se ee src ar0 ?r rv r' ar'"
    by (rule resolve_nested_ends [OF assms(2,3), unfolded resolve_ends_def, rule_format, OF N(1) k _ _ _ _ e])
      (use assms(5,6) in \<open>simp_all add: symlink_fuel_def\<close>)
  then show ?thesis using N(2) by (simp add: ends_def)
qed

end
