(* ===== verification/Sqsh_Resolve.thy ===== *)
theory Sqsh_Resolve
  imports Sqsh_Tree
begin

text \<open>
  The path resolver of \<^verbatim>\<open>libsqsh/src/tree/path_resolver.c\<close> against its specification: on an archive that
  holds a tree of files, a path is resolved to the reference of the entry it names in that tree.
\<close>

section \<open>The specification\<close>

text \<open>The segments of a path, and the entry of a name in a directory.\<close>

function split_path :: "byte list \<Rightarrow> byte list list" where
  "split_path path = takeWhile (\<lambda>c. c \<noteq> 47) path #
     (case dropWhile (\<lambda>c. c \<noteq> 47) path of [] \<Rightarrow> [] | _ # rest \<Rightarrow> split_path rest)"
  by auto
termination
proof (relation "measure length")
  fix path rest :: "byte list" and x :: byte
  assume "dropWhile (\<lambda>c. c \<noteq> 47) path = x # rest"
  then have "length (x # rest) \<le> length path" by (metis length_dropWhile_le)
  then show "(rest, path) \<in> measure length" by simp
qed simp

declare split_path.simps [simp del]

primrec tree_child :: "entry_tree \<Rightarrow> byte list \<Rightarrow> (directory_entry \<times> entry_tree option) option" where
  "tree_child EntryEnd name = None"
| "tree_child (EntryFile e rest) name = (if en_name e = name then Some (e, None) else tree_child rest name)"
| "tree_child (EntryDirectory e sub rest) name =
     (if en_name e = name then Some (e, Some sub) else tree_child rest name)"

text \<open>
  What a path names: the result code and the reference. Nothing is said of a path with a segment \<^verbatim>\<open>..\<close> and
  of one that goes through a symbolic link.
\<close>

fun tree_resolve :: "bool \<Rightarrow> nat \<Rightarrow> entry_tree option \<Rightarrow> byte list list \<Rightarrow> (rv \<times> nat) option" where
  "tree_resolve follow ref dir [] = Some (Ok, ref)"
| "tree_resolve follow ref None (s # ss) = Some (Err SQSH_ERROR_NOT_A_DIRECTORY, 0)"
| "tree_resolve follow ref (Some dir) (s # ss) =
     (if s = [] \<or> s = [46] then tree_resolve follow ref (Some dir) ss
      else if s = [46, 46] then None
      else case tree_child dir s of
             None \<Rightarrow> Some (Err SQSH_ERROR_NO_SUCH_FILE, 0)
           | Some (e, sub) \<Rightarrow>
               if en_type e = Some SQSH_FILE_TYPE_SYMLINK \<and> (follow \<or> ss \<noteq> []) then None
               else tree_resolve follow (en_inode_ref e) sub ss)"

text \<open>The directories of a tree, which are to have no index.\<close>

primrec tree_directories :: "entry_tree \<Rightarrow> nat set" where
  "tree_directories EntryEnd = {}"
| "tree_directories (EntryFile e rest) = tree_directories rest"
| "tree_directories (EntryDirectory e sub rest) =
     insert (en_inode_ref e) (tree_directories sub \<union> tree_directories rest)"

definition directory_plain where
  "directory_plain env src ar ref \<longleftrightarrow> (\<exists>bytes. inode_stored env src ar ref sqsh__inode_directory_impl bytes)"

lemma tree_child_entry:
  assumes "tree_stored env src ar refs around t" "tree_child t name = Some (e, sub)"
  shows "e \<in> set (tree_entries t)" "en_name e = name" "refs (en_inode e) = en_inode_ref e" "en_inode_ref e \<notin> around"
    "case sub of None \<Rightarrow> en_type e \<noteq> Some SQSH_FILE_TYPE_DIRECTORY
     | Some s \<Rightarrow> en_type e = Some SQSH_FILE_TYPE_DIRECTORY \<and> directory_at env src ar refs (en_inode_ref e) (tree_entries s) \<and>
         tree_stored env src ar refs (insert (en_inode_ref e) around) s \<and>
         insert (en_inode_ref e) (tree_directories s) \<subseteq> tree_directories t"
  using assms by (induction t) (auto split: if_splits option.splits)

lemma tree_child_None: "tree_child t name = None \<longleftrightarrow> name \<notin> en_name ` set (tree_entries t)"
  by (induction t) auto

lemma inode_stored_unique:
  "inode_stored env src ar ref impl bytes \<Longrightarrow> inode_stored env src ar ref impl' bytes' \<Longrightarrow> impl' = impl"
  by (auto simp: inode_stored_def Let_def split: prod.splits)

section \<open>Standing in a stored directory\<close>

definition standing where
  "standing env se ee src ar refs r ref entries \<longleftrightarrow> pr_cwd_loaded r \<and> file_sane env se ee src ar (pr_cwd r) \<and>
     sqsh_file_inode_ref (pr_cwd r) = ref \<and> refs (sqsh_file_inode env (pr_cwd r)) = ref \<and>
     \<not> sqsh_file_is_extended env (pr_cwd r) \<and> directory_address env ar (pr_cwd r) < length (ar_bytes src ar) \<and>
     directory_plain env src ar ref \<and>
     (\<exists>L. directory_listing env src ar (pr_cwd r) L \<and> listing_entries L = entries)"

lemma standing_core:
  assumes "archive_core ar' = archive_core ar"
  shows "standing env se ee src ar' refs r ref es = standing env se ee src ar refs r ref es"
  using archive_coreD [OF assms]
  by (simp add: standing_def file_sane_core [OF assms] directory_listing_core [OF assms] directory_plain_def
      inode_stored_core [OF assms])

text \<open>An archive with an inode map changes by opening files in the inode map only.\<close>

definition map_changed ::
  "('u, 'c, 'b, 'e, 'x, 'h) sqsh_archive \<Rightarrow> ('u, 'c, 'b, 'e, 'x, 'h) sqsh_archive \<Rightarrow> bool" where
  "map_changed ar' ar \<longleftrightarrow> (\<exists>i. ar' = ar\<lparr>ar_inode_map := i\<rparr>)"

lemma map_changed_refl [simp]: "map_changed ar ar"
  unfolding map_changed_def by (rule exI [of _ "ar_inode_map ar"]) simp

lemma map_changed_trans: "map_changed b a \<Longrightarrow> map_changed c b \<Longrightarrow> map_changed c a"
  by (auto simp: map_changed_def)

lemma map_changed_core: "map_changed ar' ar \<Longrightarrow> archive_core ar' = archive_core ar"
  by (auto simp: map_changed_def)

lemma file_init_map_changed:
  assumes "sqsh__file_init env ho ar f0 ref = (rv, f, ar')" "ar_inode_map ar \<noteq> None"
  shows "map_changed ar' ar"
proof -
  have "(rv', m, a) = sqsh_archive_inode_map env ho ar \<Longrightarrow> a = ar" for rv' m a
    using assms(2) by (auto simp: sqsh_archive_inode_map_def split: if_splits)
  then show ?thesis using assms(1)
    by (auto simp: sqsh__file_init_def Let_def map_changed_def [of _ ar] map_changed_refl [unfolded map_changed_def]
        split: prod.splits if_splits option.splits)
qed

lemma standing_iterator:
  assumes W: "readable env se ee src ho refs ar" and S: "standing env se ee src ar refs r ref es"
  obtains it where "update_inode_from_cwd env ar r = (Ok, r\<lparr>pr_iterator := it, pr_current_inode_ref := ref\<rparr>)"
    "sqsh_directory_iterator_new env ar (pr_cwd r) = (Ok, Some it)" "di_file it = pr_cwd r"
proof -
  obtain c where c: "sqsh__directory_iterator_cleanup env (pr_iterator r) = (Ok, c)"
    using cleanup_ok(1) [of env "pr_iterator r"] by (metis prod.collapse)
  obtain L where L: "directory_listing env src ar (pr_cwd r) L" using S by (auto simp: standing_def)
  have "archive_inv env se ee src ar" "archive_live env src ar" "file_sane env se ee src ar (pr_cwd r)"
    "directory_address env ar (pr_cwd r) < length (ar_bytes src ar)"
    using W S by (simp_all add: readable_def standing_def)
  then obtain it where i: "sqsh__directory_iterator_init env ar c (pr_cwd r) = (Ok, it)" "di_file it = pr_cwd r"
    using stored_iterator_init [OF _ _ _ L] by metis
  have "sqsh__directory_iterator_init env ar (zero_directory_iterator env ar (pr_cwd r)) (pr_cwd r) = (Ok, it)"
    using i(1) by (simp add: sqsh__directory_iterator_init_def Let_def split: if_splits option.splits)
  then have "sqsh_directory_iterator_new env ar (pr_cwd r) = (Ok, Some it)" by (simp add: sqsh_directory_iterator_new_def)
  moreover have "update_inode_from_cwd env ar r = (Ok, r\<lparr>pr_iterator := it, pr_current_inode_ref := ref\<rparr>)"
    using c i(1) S by (simp add: update_inode_from_cwd_def standing_def Let_def)
  ultimately show thesis using that i(2) by blast
qed

lemma to_ref_stored:
  fixes ar :: "('u, 'c, 'b, 'e, 'x, 'h) sqsh_archive"
  assumes W: "readable env se ee src ho refs ar" and D: "directory_at env src ar refs ref es"
    and P: "directory_plain env src ar ref"
  obtains r' ar' where "sqsh__path_resolver_to_ref env ho ar r ref = (Ok, r', ar')"
    "standing env se ee src ar' refs r' ref es" "pr_current_inode_ref r' = ref" "readable env se ee src ho refs ar'"
    "archive_core ar' = archive_core ar" "pr_root_inode_ref r' = pr_root_inode_ref r"
    "pr_max_symlink_depth r' = pr_max_symlink_depth r" "pr_current_symlink_depth r' = pr_current_symlink_depth r"
    "map_changed ar' ar"
proof -
  obtain c where c: "sqsh__file_cleanup env (pr_cwd r) = (Ok, c)"
    using cleanup_ok(2) [of env "pr_cwd r"] by (metis prod.collapse)
  have W': "archive_inv env se ee src ar" "hash_map_safe ho" "hash_map_ok ho" "hash_map_total ho" "archive_live env src ar"
    "env_lock env = Ok" "map_agrees env ho refs ar" using W by (simp_all add: readable_def)
  obtain f ar' L where F: "sqsh__file_init env ho ar c ref = (Ok, f, ar')"
    "file_sane env se ee src ar' f" "sqsh_file_inode_ref f = ref" "refs (sqsh_file_inode env f) = ref"
    "directory_address env ar f < length (ar_bytes src ar)" "directory_listing env src ar f L" "listing_entries L = es"
    "archive_inv env se ee src ar'" "archive_core ar' = archive_core ar" "map_agrees env ho refs ar'"
    by (rule stored_directory_init [OF W'(1-6) D W'(7)])
  obtain bytes where st: "inode_stored env src ar ref sqsh__inode_directory_impl bytes" using P by (auto simp: directory_plain_def)
  obtain impl bs where st2: "inode_stored env src ar ref impl bs" "inode_numbered env refs ar ref bs"
    using D by (auto simp: directory_at_def)
  obtain f2 a2 where F2: "sqsh__file_init env ho ar c ref = (Ok, f2, a2)" "get_impl env f2 = Some impl"
    by (rule stored_file_init [OF W'(1-6) st2 W'(7)])
  have "impl = sqsh__inode_directory_impl" "f2 = f" using inode_stored_unique [OF st st2(1)] F2(1) F(1) by simp_all
  then have ne: "\<not> sqsh_file_is_extended env f"
    using F2(2) by (simp add: sqsh_file_is_extended_def file_impl_def sqsh__inode_directory_impl_def)
  let ?r = "set_cwd f True r"
  have S: "standing env se ee src ar' refs ?r ref es"
    unfolding standing_core [OF F(9)] using F ne P file_sane_core [OF F(9), of env se ee src f]
    by (auto simp: standing_def set_cwd_def)
  have mc: "map_changed ar' ar"
    using F(1) W'(7) by (intro file_init_map_changed) (auto simp: map_agrees_def)
  have Wa: "readable env se ee src ho refs ar'" by (rule readable_core [OF W F(8-10)])
  obtain it where U: "update_inode_from_cwd env ar' ?r = (Ok, ?r\<lparr>pr_iterator := it, pr_current_inode_ref := ref\<rparr>)"
    by (rule standing_iterator [OF Wa S])
  have ty: "sqsh_file_type env f = Some SQSH_FILE_TYPE_DIRECTORY" using F(6) by (simp add: directory_listing_def)
  let ?q = "?r\<lparr>pr_iterator := it, pr_current_inode_ref := ref\<rparr>"
  have e: "sqsh__path_resolver_to_ref env ho ar r ref = (Ok, ?q, ar')"
    using c F(1) ty U by (simp add: sqsh__path_resolver_to_ref_def Let_def)
  have "standing env se ee src ar' refs ?q ref es" using S by (simp add: standing_def)
  then show thesis by (rule that [OF e _ _ Wa F(9) _ _ _ mc]) (simp_all add: set_cwd_def)
qed

lemma lookup_stored:
  assumes W: "readable env se ee src ho refs ar" and mem: "\<forall>n. mem n"
    and S: "standing env se ee src ar refs r ref (tree_entries t)"
    and T: "tree_stored env src ar refs around t" "ref \<in> around"
  shows "\<exists>it. sqsh_path_resolver_lookup env ho mem ar r name =
    (case tree_child t name of
       None \<Rightarrow> (Err SQSH_ERROR_NO_SUCH_FILE, r\<lparr>pr_iterator := it, pr_current_inode_ref := ref\<rparr>, ar)
     | Some (e, sub) \<Rightarrow> (Ok, r\<lparr>pr_iterator := it, pr_current_inode_ref := en_inode_ref e\<rparr>, ar)) \<and>
    (\<forall>e sub. tree_child t name = Some (e, sub) \<longrightarrow> sqsh_directory_iterator_file_type env it = en_type e \<and>
       sqsh_directory_iterator_inode_ref env it = en_inode_ref e)"
proof -
  obtain it where U: "update_inode_from_cwd env ar r = (Ok, r\<lparr>pr_iterator := it, pr_current_inode_ref := ref\<rparr>)"
    "sqsh_directory_iterator_new env ar (pr_cwd r) = (Ok, Some it)" "di_file it = pr_cwd r"
    by (rule standing_iterator [OF W S])
  obtain L where L: "directory_listing env src ar (pr_cwd r) L" "listing_entries L = tree_entries t"
    using S by (auto simp: standing_def)
  have W': "archive_inv env se ee src ar" "archive_live env src ar" "cx_buffer_total (env_buf env)"
    using W readable_total [OF W] by (simp_all add: readable_def)
  have S': "pr_cwd_loaded r" "file_sane env se ee src ar (pr_cwd r)" "sqsh_file_inode_ref (pr_cwd r) = ref"
    "refs (sqsh_file_inode env (pr_cwd r)) = ref" "\<not> sqsh_file_is_extended env (pr_cwd r)"
    "directory_address env ar (pr_cwd r) < length (ar_bytes src ar)" using S by (simp_all add: standing_def)
  obtain rv jt a where l: "sqsh_directory_iterator_lookup env ho mem ar it name = (rv, jt, a)" by (rule prod_cases3)
  have a: "a = ar" using l S'(5) U(3) by (auto simp: sqsh_directory_iterator_lookup_def split: prod.splits simp del: lookup_loop.simps)
  note X = directory_lookup_listing [OF W'(1) S'(2) L(1) S'(5) U(2) l]
  have rv: "rv = (if tree_child t name = None then Err SQSH_ERROR_NO_SUCH_FILE else Ok)"
    using X W' mem S'(6) by (simp add: L(2) tree_child_None)
  show ?thesis
  proof (cases "tree_child t name")
    case None
    then show ?thesis using U(1) l a rv by (intro exI [of _ jt]) (simp add: sqsh_path_resolver_lookup_def Let_def)
  next
    case (Some p)
    obtain e sub where p: "p = (e, sub)" by (cases p)
    note E = tree_child_entry [OF T(1) Some [unfolded p]]
    obtain v where v: "v \<in> set (tree_entries t)" "en_name v = name" "current_entry env jt = v"
      using X rv Some L(2) by auto
    have "distinct (map en_name (tree_entries t))"
    proof -
      have "sorted_wrt ord_class.lexordp (map en_name (tree_entries t))"
        using L by (simp add: directory_listing_def listing_ok_def)
      moreover have "distinct xs" if "sorted_wrt ord_class.lexordp xs" for xs :: "byte list list"
        using that by (induction xs) (auto simp: lexordp_irreflexive')
      ultimately show ?thesis by blast
    qed
    then have "v = e" using v(1,2) E(1,2) by (metis distinct_map inj_onD)
    then have j: "sqsh_directory_iterator_inode_ref env jt = en_inode_ref e" "sqsh_directory_iterator_inode jt = en_inode e"
      "sqsh_directory_iterator_file_type env jt = en_type e"
      using v(3) by (auto simp: current_entry_def)
    have g: "en_inode_ref e \<noteq> ref" "sqsh_file_inode env (pr_cwd r) \<noteq> en_inode e" using E(3,4) T(2) S'(4) by metis+
    have "update_inode_from_iterator env (r\<lparr>pr_current_inode_ref := ref, pr_iterator := jt\<rparr>) =
      (Ok, r\<lparr>pr_iterator := jt, pr_current_inode_ref := en_inode_ref e\<rparr>)"
      using j g S'(1,3) by (simp add: update_inode_from_iterator_def Let_def)
    then show ?thesis using U(1) l a rv Some p j
      by (intro exI [of _ jt]) (simp add: sqsh_path_resolver_lookup_def Let_def)
  qed
qed

section \<open>A whole path\<close>

lemma segment_facts:
  fixes rest :: "byte list"
  defines "s \<equiv> takeWhile (\<lambda>c. c \<noteq> 47) rest"
  assumes "length rest < 2 ^ 64"
  shows "path_segment_len (rest @ [0]) (length rest) = length s" "take (length s) (rest @ [0]) = s"
    "(length s = 1 \<and> (rest @ [0]) ! 0 = 46) = (s = [46])"
    "(length s = 2 \<and> (rest @ [0]) ! 0 = 46 \<and> (rest @ [0]) ! 1 = 46) = (s = [46, 46])"
    "dropWhile (\<lambda>c. c \<noteq> 47) rest = [] \<Longrightarrow> path_next_segment (rest @ [0]) (length rest) = None"
    "dropWhile (\<lambda>c. c \<noteq> 47) rest = x # r2 \<Longrightarrow> path_next_segment (rest @ [0]) (length rest) = Some (r2 @ [0]) \<and>
      wrap_sub (length rest) (length s + 1) = length r2 \<and> length r2 < length rest"
proof -
  let ?d = "dropWhile (\<lambda>c. c \<noteq> 47) rest"
  have sd: "rest = s @ ?d" by (simp add: s_def)
  show len: "path_segment_len (rest @ [0]) (length rest) = length s" by (simp add: path_segment_len_def s_def)
  show "take (length s) (rest @ [0]) = s" by (subst sd) simp
  have nth: "(rest @ [0]) ! i = s ! i" if "i < length s" for i using that by (subst sd) (simp add: nth_append)
  show "(length s = 1 \<and> (rest @ [0]) ! 0 = 46) = (s = [46])"
    using nth [of 0] by (cases s) auto
  show "(length s = 2 \<and> (rest @ [0]) ! 0 = 46 \<and> (rest @ [0]) ! 1 = 46) = (s = [46, 46])"
  proof (cases "length s = 2")
    case True
    then obtain a b where "s = [a, b]" by (auto simp: numeral_2_eq_2 length_Suc_conv)
    then show ?thesis using nth [of 0] nth [of 1] by auto
  qed auto
  show "path_next_segment (rest @ [0]) (length rest) = None" if "?d = []"
  proof -
    have "length s = length rest" using sd that by (metis append_Nil2)
    then show ?thesis by (simp add: path_next_segment_def len)
  qed
  assume d: "?d = x # r2"
  have r: "rest = s @ x # r2" using sd d by simp
  then have n: "length s \<noteq> length rest" "length rest = length s + 1 + length r2" "drop (length s + 1) (rest @ [0]) = r2 @ [0]"
    by simp_all
  have "wrap_sub (length rest) (length s + 1) = length r2" using assms(2) n(2) by (simp add: wrap_sub_def)
  then show "path_next_segment (rest @ [0]) (length rest) = Some (r2 @ [0]) \<and>
      wrap_sub (length rest) (length s + 1) = length r2 \<and> length r2 < length rest"
    unfolding path_next_segment_def len Let_def using n by simp
qed

lemma no_symlink_followed:
  assumes "sqsh__path_resolver_type env r \<noteq> Some SQSH_FILE_TYPE_SYMLINK" "pr_current_symlink_depth r \<le> pr_max_symlink_depth r"
  shows "follow_all_symlinks resolve env ho ar r = (Ok, r, ar)"
proof -
  obtain n where "symlink_fuel r = Suc n" using assms(2) by (cases "symlink_fuel r") (auto simp: symlink_fuel_def)
  then show ?thesis using assms by (simp add: follow_all_symlinks_def follow_symlink_with_def)
qed

text \<open>What resolving leaves behind: the reference, and a resolver that stands in a stored directory.\<close>

definition resolved where
  "resolved env se ee src ho refs ar code target r' ar' \<longleftrightarrow>
     (code = Ok \<longrightarrow> pr_current_inode_ref r' = target \<and> readable env se ee src ho refs ar' \<and>
        map_changed ar' ar \<and> (\<exists>d es. standing env se ee src ar' refs r' d es))"

lemma resolved_trans:
  "resolved env se ee src ho refs a code target r' ar' \<Longrightarrow> map_changed a ar \<Longrightarrow>
   resolved env se ee src ho refs ar code target r' ar'"
  using map_changed_trans [of a ar ar'] by (auto simp: resolved_def)

lemma resolve_loop_stored:
  fixes ar :: "('u, 'c, 'b, 'e, 'x, 'h) sqsh_archive"
  assumes "readable env se ee src ho refs ar" "\<forall>n. mem n"
    and "standing env se ee src ar refs r ref (tree_entries t)" "pr_current_inode_ref r = ref"
    and "tree_stored env src ar refs around t" "ref \<in> around"
    and "\<forall>d \<in> tree_directories t. directory_plain env src ar d"
    and "pr_current_symlink_depth r \<le> pr_max_symlink_depth r"
    and "tree_resolve fs ref (Some t) (split_path rest) = Some (code, target)"
    and "length rest < 2 ^ 64" "length rest < fuel"
  shows "\<exists>r' ar'. path_resolve_loop fuel resolve env ho mem fs Ok True (rest @ [0]) (length rest) r ar = (code, r', ar') \<and>
    resolved env se ee src ho refs ar code target r' ar'"
  using assms(1,3-11)
proof (induction "length rest" arbitrary: fuel rest r ar ref t around rule: less_induct)
  case less
  note W = less.prems(1) and S = less.prems(2)
  obtain n where fuel: "fuel = Suc n" using less.prems(10) by (cases fuel) auto
  define s where "s = takeWhile (\<lambda>c. c \<noteq> 47) rest"
  let ?d = "dropWhile (\<lambda>c. c \<noteq> 47) rest" and ?next = "path_next_segment (rest @ [0]) (length rest)"
  note G = segment_facts [OF less.prems(9), folded s_def]
  define ss where "ss = (case ?d of [] \<Rightarrow> [] | _ # r2 \<Rightarrow> split_path r2)"
  have ssn: "?d = [] \<Longrightarrow> ss = []" "?d = x # r2 \<Longrightarrow> ss = split_path r2" for x r2 by (simp_all only: ss_def list.case)
  have sp: "split_path rest = s # ss" by (simp add: split_path.simps [of rest] s_def ss_def)
  define cont where "cont = (\<lambda>is_dir resolver archive. case ?next of None \<Rightarrow> (Ok, resolver, archive)
    | Some segment \<Rightarrow> path_resolve_loop n resolve env ho mem fs Ok is_dir segment
        (wrap_sub (length rest) (length s + 1)) resolver archive)"
  have C: "\<exists>r' ar'. cont True q a = (code, r', ar') \<and> resolved env se ee src ho refs ar code target r' ar'"
    if "readable env se ee src ho refs a" "standing env se ee src a refs q ref' (tree_entries t')" "pr_current_inode_ref q = ref'"
      "tree_stored env src a refs around' t'" "ref' \<in> around'" "\<forall>d \<in> tree_directories t'. directory_plain env src a d"
      "pr_current_symlink_depth q \<le> pr_max_symlink_depth q" "tree_resolve fs ref' (Some t') ss = Some (code, target)"
      and core: "map_changed a ar"
    for q a ref' t' around'
  proof (cases ?d)
    case Nil
    then show ?thesis using that(1-3,8) core G(5) [OF Nil] ssn(1) [OF Nil] by (auto simp: cont_def resolved_def)
  next
    case (Cons x r2)
    note N = G(6) [OF Cons]
    have "\<exists>r' ar'. path_resolve_loop n resolve env ho mem fs Ok True (r2 @ [0]) (length r2) q a = (code, r', ar') \<and>
        resolved env se ee src ho refs a code target r' ar'"
      by (rule less.hyps [OF _ that(1-7)]) (use N that(8) ssn(2) [OF Cons] less.prems(9,10) fuel in simp_all)
    then obtain r' ar' where "path_resolve_loop n resolve env ho mem fs Ok True (r2 @ [0]) (length r2) q a = (code, r', ar')"
      "resolved env se ee src ho refs a code target r' ar'" by blast
    then show ?thesis using N resolved_trans [OF _ core] by (simp add: cont_def)
  qed
  show ?case
  proof (cases "s = [] \<or> s = [46]")
    case True
    have ct: "tree_resolve fs ref (Some t) ss = Some (code, target)" using less.prems(8) True by (simp add: sp)
    have "length s = 0 \<or> length s = 1 \<and> (rest @ [0]) ! 0 = 46" using True G(3) by auto
    then have "path_resolve_loop fuel resolve env ho mem fs Ok True (rest @ [0]) (length rest) r ar = cont True r ar"
      unfolding fuel path_resolve_loop.simps Let_def G(1) cont_def
      by (elim disjE; simp only: simp_thms if_True if_False one_neq_zero)
    then show ?thesis using C [OF W S less.prems(3-7) ct map_changed_refl] by simp
  next
    case nd: False
    have ns: "s \<noteq> [46, 46]" using less.prems(8) by (auto simp: sp split: if_splits)
    have cond: "(length s = 0) = False" "(length s = 1 \<and> (rest @ [0]) ! 0 = 46) = False"
      "(length s = 2 \<and> (rest @ [0]) ! 0 = 46 \<and> (rest @ [0]) ! 1 = 46) = False"
      using nd ns G(3,4) by simp_all
    obtain it where LK: "sqsh_path_resolver_lookup env ho mem ar r s =
      (case tree_child t s of
         None \<Rightarrow> (Err SQSH_ERROR_NO_SUCH_FILE, r\<lparr>pr_iterator := it, pr_current_inode_ref := ref\<rparr>, ar)
       | Some (e, sub) \<Rightarrow> (Ok, r\<lparr>pr_iterator := it, pr_current_inode_ref := en_inode_ref e\<rparr>, ar))"
      "\<And>e sub. tree_child t s = Some (e, sub) \<Longrightarrow> sqsh_directory_iterator_file_type env it = en_type e \<and>
         sqsh_directory_iterator_inode_ref env it = en_inode_ref e"
      using lookup_stored [OF W assms(2) S less.prems(4,5), of s] by blast
    show ?thesis
    proof (cases "tree_child t s")
      case None
      have "path_resolve_loop fuel resolve env ho mem fs Ok True (rest @ [0]) (length rest) r ar =
        (Err SQSH_ERROR_NO_SUCH_FILE, r\<lparr>pr_iterator := it, pr_current_inode_ref := ref\<rparr>, ar)"
        unfolding fuel path_resolve_loop.simps Let_def G(1,2) cond if_False LK(1) None by simp
      then show ?thesis using less.prems(8) nd ns None by (auto simp: sp resolved_def)
    next
      case (Some p)
      obtain e sub where p: "p = (e, sub)" by (cases p)
      note E = tree_child_entry [OF less.prems(4) Some [unfolded p]] and I = LK(2) [OF Some [unfolded p]]
      have ct: "\<not> (en_type e = Some SQSH_FILE_TYPE_SYMLINK \<and> (fs \<or> ss \<noteq> []))"
        "tree_resolve fs (en_inode_ref e) sub ss = Some (code, target)"
        using less.prems(8) nd ns Some p by (auto simp: sp split: if_splits)
      let ?q = "r\<lparr>pr_iterator := it, pr_current_inode_ref := en_inode_ref e\<rparr>"
      have Sq: "standing env se ee src ar refs ?q ref (tree_entries t)" using S by (simp add: standing_def)
      have nb: "\<not> is_beginning ?q" using E(4) less.prems(5) S by (auto simp: is_beginning_def standing_def)
      have ty: "sqsh__path_resolver_type env ?q = en_type e" "sqsh_path_resolver_type env ?q = en_type e"
        using nb I by (simp_all add: sqsh__path_resolver_type_def sqsh_path_resolver_type_def)
      have "(?next \<noteq> None) = (ss \<noteq> [])"
      proof (cases ?d)
        case Nil
        then show ?thesis using G(5) [OF Nil] ssn(1) [OF Nil] by simp
      next
        case (Cons x r2)
        then show ?thesis using G(6) [OF Cons] ssn(2) [OF Cons] by (simp add: split_path.simps [of r2])
      qed
      then have f: "(if ?next \<noteq> None \<or> fs then follow_all_symlinks resolve env ho ar ?q else (Ok, ?q, ar)) = (Ok, ?q, ar)"
        using no_symlink_followed [of env ?q resolve ho ar] ct(1) ty less.prems(7) by auto
      have step: "path_resolve_loop fuel resolve env ho mem fs Ok True (rest @ [0]) (length rest) r ar =
        (if en_type e = Some SQSH_FILE_TYPE_DIRECTORY
         then case sqsh_path_resolver_down env ho ar ?q of (rv, q, a) \<Rightarrow>
           (case ?next of None \<Rightarrow> (rv, q, a)
            | Some segment \<Rightarrow> path_resolve_loop n resolve env ho mem fs rv
                (en_type e = Some SQSH_FILE_TYPE_DIRECTORY) segment (wrap_sub (length rest) (length s + 1)) q a)
         else cont (en_type e = Some SQSH_FILE_TYPE_DIRECTORY) ?q ar)"
        unfolding fuel path_resolve_loop.simps Let_def G(1,2) cond if_False LK(1) Some p option.case prod.case f ty(2) cont_def
        using nb by simp
      show ?thesis
      proof (cases sub)
        case None
        then have "en_type e \<noteq> Some SQSH_FILE_TYPE_DIRECTORY" using E(5) by simp
        then have e: "path_resolve_loop fuel resolve env ho mem fs Ok True (rest @ [0]) (length rest) r ar = cont False ?q ar"
          using step by simp
        show ?thesis
        proof (cases ?d)
          case Nil
          then show ?thesis using e ct(2) None G(5) [OF Nil] ssn(1) [OF Nil] W Sq
            by (auto simp: cont_def resolved_def)
        next
          case (Cons x r2)
          note N = G(6) [OF Cons]
          obtain m where "n = Suc m" using N less.prems(10) fuel by (cases n) auto
          moreover have "code = Err SQSH_ERROR_NOT_A_DIRECTORY"
            using ct(2) None ssn(2) [OF Cons] by (simp add: split_path.simps [of r2])
          ultimately show ?thesis using e N by (simp add: cont_def resolved_def)
        qed
      next
        case (Some t')
        have D: "en_type e = Some SQSH_FILE_TYPE_DIRECTORY" "directory_at env src ar refs (en_inode_ref e) (tree_entries t')"
          "tree_stored env src ar refs (insert (en_inode_ref e) around) t'" "directory_plain env src ar (en_inode_ref e)"
          "\<forall>d \<in> tree_directories t'. directory_plain env src ar d"
          using E(5) Some less.prems(6) by auto
        obtain q a where T: "sqsh__path_resolver_to_ref env ho ar ?q (en_inode_ref e) = (Ok, q, a)"
          "standing env se ee src a refs q (en_inode_ref e) (tree_entries t')" "pr_current_inode_ref q = en_inode_ref e"
          "readable env se ee src ho refs a" "archive_core a = archive_core ar"
          "pr_root_inode_ref q = pr_root_inode_ref ?q" "pr_max_symlink_depth q = pr_max_symlink_depth ?q"
          "pr_current_symlink_depth q = pr_current_symlink_depth ?q" "map_changed a ar"
          by (rule to_ref_stored [OF W D(2,4)])
        have dn: "sqsh_path_resolver_down env ho ar ?q = (Ok, q, a)"
          using nb ty(1) D(1) I T(1) by (simp add: sqsh_path_resolver_down_def)
        have e: "path_resolve_loop fuel resolve env ho mem fs Ok True (rest @ [0]) (length rest) r ar = cont True q a"
        proof -
          have "path_resolve_loop fuel resolve env ho mem fs Ok True (rest @ [0]) (length rest) r ar
            = cont (en_type e = Some SQSH_FILE_TYPE_DIRECTORY) q a"
            unfolding step dn prod.case cont_def using D(1) by (simp only: simp_thms if_True)
          then show ?thesis using D(1) by simp
        qed
        have pl: "directory_plain env src a d = directory_plain env src ar d" for d
          by (simp add: directory_plain_def inode_stored_core [OF T(5)])
        show ?thesis unfolding e
          by (rule C [OF T(4,2,3), where around' = "insert (en_inode_ref e) around"])
            (use D T(7-9) less.prems(7) ct(2) Some in \<open>simp_all add: tree_stored_core [OF T(5)] pl\<close>)
      qed
    qed
  qed
qed

section \<open>From the root\<close>

lemma resolver_new_stored:
  fixes ar :: "('u, 'c, 'b, 'e, 'x, 'h) sqsh_archive"
  assumes W: "readable env se ee src ho refs ar"
    and D: "directory_at env src ar refs (sqsh_superblock_inode_root_ref env (ar_superblock ar)) es"
      "directory_plain env src ar (sqsh_superblock_inode_root_ref env (ar_superblock ar))"
  obtains r ar' where "sqsh_path_resolver_new env ho ar = (Ok, Some r, ar')" "readable env se ee src ho refs ar'"
    "standing env se ee src ar' refs r (sqsh_superblock_inode_root_ref env (ar_superblock ar)) es"
    "archive_core ar' = archive_core ar" "pr_current_symlink_depth r = 0"
    "pr_current_inode_ref r = sqsh_superblock_inode_root_ref env (ar_superblock ar)"
    "pr_root_inode_ref r = sqsh_superblock_inode_root_ref env (ar_superblock ar)"
    "pr_max_symlink_depth r = (if cfg_max_symlink_depth (ar_config ar) = 0 then SQSH_DEFAULT_MAX_SYMLINKS_FOLLOWED
       else cfg_max_symlink_depth (ar_config ar))"
proof -
  let ?root = "sqsh_superblock_inode_root_ref env (ar_superblock ar)"
  obtain i where "ar_inode_map ar = Some i" using W by (auto simp: readable_def map_agrees_def)
  then have m: "sqsh_archive_inode_map env ho ar = (Ok, Some i, ar)"
    using W by (simp add: sqsh_archive_inode_map_def readable_def)
  define q where "q = (zero_path_resolver env ar)\<lparr>pr_max_symlink_depth := (if cfg_max_symlink_depth (ar_config ar) = 0
      then SQSH_DEFAULT_MAX_SYMLINKS_FOLLOWED else cfg_max_symlink_depth (ar_config ar)), pr_root_inode_ref := ?root\<rparr>"
  have i: "sqsh__path_resolver_init env ho ar (zero_path_resolver env ar) = (Ok, q, ar)"
    using m by (simp add: sqsh__path_resolver_init_def q_def Let_def)
  obtain r a where T: "sqsh__path_resolver_to_ref env ho ar q ?root = (Ok, r, a)"
    "standing env se ee src a refs r ?root es" "pr_current_inode_ref r = ?root"
    "readable env se ee src ho refs a" "archive_core a = archive_core ar" "pr_root_inode_ref r = pr_root_inode_ref q"
    "pr_max_symlink_depth r = pr_max_symlink_depth q" "pr_current_symlink_depth r = pr_current_symlink_depth q"
    "map_changed a ar"
    by (rule to_ref_stored [OF W D])
  have e: "sqsh_path_resolver_new env ho ar = (Ok, Some r, a)"
    using i T(1) by (simp add: sqsh_path_resolver_new_def sqsh_path_resolver_to_root_def q_def)
  show thesis
    by (rule that [OF e T(4,2,5)]) (use T(3,6-8) in \<open>simp_all add: q_def zero_path_resolver_def\<close>)
qed

text \<open>From a resolver whose path begins at the root: an absolute path, or one that stands there.\<close>

lemma resolve_from_root:
  fixes ar :: "('u, 'c, 'b, 'e, 'x, 'h) sqsh_archive"
  assumes W: "readable env se ee src ho refs ar" and mem: "\<forall>n. mem n"
    and D: "directory_at env src ar refs root (tree_entries tree)" "tree_stored env src ar refs {root} tree"
      "\<forall>d \<in> insert root (tree_directories tree). directory_plain env src ar d"
    and P: "length path < 2 ^ 64" "tree_resolve follow root (Some tree) (split_path path) = Some (code, target)"
    and Q: "pr_root_inode_ref q = root"
      "path \<noteq> [] \<and> path ! 0 = 47 \<or> standing env se ee src ar refs q root (tree_entries tree) \<and> pr_current_inode_ref q = root"
  shows "\<exists>r' ar'. sqsh_path_resolver_resolve env ho mem ar q path follow = (code, r', ar') \<and>
    resolved env se ee src ho refs ar code target r' ar'"
proof -
  let ?q = "q\<lparr>pr_current_symlink_depth := 0\<rparr>"
  obtain n where n: "symlink_fuel ?q = Suc n" by (cases "symlink_fuel ?q") (auto simp: symlink_fuel_def)
  define res :: "byte list \<Rightarrow> nat \<Rightarrow> ('u, 'c, 'b, 'e, 'x) path_resolver \<Rightarrow> ('u, 'c, 'b, 'e, 'x, 'h) sqsh_archive \<Rightarrow>
      rv \<times> ('u, 'c, 'b, 'e, 'x) path_resolver \<times> ('u, 'c, 'b, 'e, 'x, 'h) sqsh_archive"
    where "res = (\<lambda>target target_size. path_resolve_nested n env ho mem target target_size True)"
  have "\<exists>s b. (if (path @ [0]) ! 0 = 47 then sqsh_path_resolver_to_root env ho ar ?q else (Ok, ?q, ar)) = (Ok, s, b) \<and>
      readable env se ee src ho refs b \<and> standing env se ee src b refs s root (tree_entries tree) \<and>
      map_changed b ar \<and> pr_current_symlink_depth s \<le> pr_max_symlink_depth s \<and> pr_current_inode_ref s = root"
  proof (cases "(path @ [0]) ! 0 = 47")
    case True
    have pl: "directory_plain env src ar root" using D(3) by simp
    obtain s b where "sqsh__path_resolver_to_ref env ho ar ?q root = (Ok, s, b)"
      "standing env se ee src b refs s root (tree_entries tree)" "pr_current_inode_ref s = root"
      "readable env se ee src ho refs b" "archive_core b = archive_core ar"
      "pr_root_inode_ref s = pr_root_inode_ref ?q" "pr_max_symlink_depth s = pr_max_symlink_depth ?q"
      "pr_current_symlink_depth s = pr_current_symlink_depth ?q" "map_changed b ar"
      by (rule to_ref_stored [OF W D(1) pl])
    then show ?thesis using True Q(1) by (simp add: sqsh_path_resolver_to_root_def)
  next
    case False
    then have "standing env se ee src ar refs q root (tree_entries tree)" "pr_current_inode_ref q = root"
      using Q(2) by (auto simp: nth_append)
    then show ?thesis using False W by (simp add: standing_def)
  qed
  then obtain s b where S: "(if (path @ [0]) ! 0 = 47 then sqsh_path_resolver_to_root env ho ar ?q else (Ok, ?q, ar)) = (Ok, s, b)"
    "readable env se ee src ho refs b" "standing env se ee src b refs s root (tree_entries tree)"
    "map_changed b ar" "pr_current_symlink_depth s \<le> pr_max_symlink_depth s" "pr_current_inode_ref s = root"
    by blast
  note core = map_changed_core [OF S(4)]
  have pl2: "directory_plain env src b d = directory_plain env src ar d" for d
    by (simp add: directory_plain_def inode_stored_core [OF core])
  have "\<exists>r' ar'. path_resolve_loop (Suc (length path)) res env ho mem follow Ok True (path @ [0]) (length path) s b =
      (code, r', ar') \<and> resolved env se ee src ho refs b code target r' ar'"
    by (rule resolve_loop_stored [OF S(2) mem S(3,6) _ _ _ S(5) P(2,1), where around = "{root}"])
      (use D(2,3) in \<open>simp_all add: tree_stored_core [OF core] pl2\<close>)
  then obtain r' ar' where L: "path_resolve_loop (Suc (length path)) res env ho mem follow Ok True (path @ [0]) (length path) s b =
      (code, r', ar')" "resolved env se ee src ho refs b code target r' ar'" by blast
  have "sqsh_path_resolver_resolve env ho mem ar q path follow = (code, r', ar')"
    unfolding sqsh_path_resolver_resolve_def sqsh__path_resolver_resolve_nt_def path_resolve_def n path_resolve_nested.simps
      path_resolve_with_def res_def [symmetric] using S(1) L(1) by simp
  moreover have "resolved env se ee src ho refs ar code target r' ar'" by (rule resolved_trans [OF L(2) S(4)])
  ultimately show ?thesis by blast
qed

text \<open>
  C6. A path is resolved to what it names: on an archive in order that holds the tree, whose directories have no
  index, with memory available, a new resolver takes every path without \<^verbatim>\<open>..\<close> and without links on the way to
  the reference of the entry that the tree has under its segments, empty segments and \<^verbatim>\<open>.\<close> left out; it
  reports \<^verbatim>\<open>SQSH_ERROR_NO_SUCH_FILE\<close> if a directory on the way has no entry of the name, and
  \<^verbatim>\<open>SQSH_ERROR_NOT_A_DIRECTORY\<close> if a segment follows a file.
\<close>

theorem path_resolution_exact:
  fixes ar :: "('u, 'c, 'b, 'e, 'x, 'h) sqsh_archive"
  assumes "readable env se ee src ho refs ar" "\<forall>n. mem n"
    and "root = sqsh_superblock_inode_root_ref env (ar_superblock ar)"
    and "directory_at env src ar refs root (tree_entries tree)" "tree_stored env src ar refs {root} tree"
    and "\<forall>d \<in> insert root (tree_directories tree). directory_plain env src ar d"
    and "length path < 2 ^ 64" "tree_resolve follow root (Some tree) (split_path path) = Some (code, target)"
  shows "\<exists>r ar0 r' ar'. sqsh_path_resolver_new env ho ar = (Ok, Some r, ar0) \<and>
    sqsh_path_resolver_resolve env ho mem ar0 r path follow = (code, r', ar') \<and>
    (code = Ok \<longrightarrow> sqsh_path_resolver_inode_ref r' = target)"
proof -
  note T = assms(4,6) [unfolded assms(3)]
  obtain r a where N: "sqsh_path_resolver_new env ho ar = (Ok, Some r, a)" "readable env se ee src ho refs a"
    "standing env se ee src a refs r root (tree_entries tree)" "archive_core a = archive_core ar"
    "pr_current_symlink_depth r = 0" "pr_root_inode_ref r = root" "pr_current_inode_ref r = root"
    using resolver_new_stored [OF assms(1) T(1)] T(2) assms(3) by (metis insertI1)
  have pl: "directory_plain env src a d = directory_plain env src ar d" for d
    by (simp add: directory_plain_def inode_stored_core [OF N(4)])
  have "\<exists>r' ar'. sqsh_path_resolver_resolve env ho mem a r path follow = (code, r', ar') \<and>
      resolved env se ee src ho refs a code target r' ar'"
    by (rule resolve_from_root [OF N(2) assms(2) _ _ _ assms(7,8) N(6)])
      (use assms(4-6) N(3,7) in \<open>simp_all add: directory_at_core [OF N(4)] tree_stored_core [OF N(4)] pl\<close>)
  then show ?thesis using N(1) by (auto simp: resolved_def sqsh_path_resolver_inode_ref_def)
qed

section \<open>The small tree\<close>

lemma tiny_plain: "\<forall>d \<in> insert 0 (tree_directories tiny_tree). directory_plain tiny_env (\<lambda>u. u) tiny_tree_mapped d"
proof -
  have p: "directory_plain tiny_env (\<lambda>u. u) tiny_tree_mapped d = directory_plain tiny_env (\<lambda>u. u) tiny_tree_sqsh d" for d
    using inode_stored_core(1) [of tiny_tree_mapped tiny_tree_sqsh] by (simp add: directory_plain_def)
  let ?all = "tiny_tree_inodes @ encode_listing tiny_root_listing @ encode_listing tiny_sub_listing"
  have len: "length ?all = 162" "length tiny_tree_inodes = 111"
    by (simp_all add: tiny_listings tiny_tree_inodes_def tiny_inode_head_def)
  have plain: "directory_plain tiny_env (\<lambda>u. u) tiny_tree_sqsh ref"
    if "sqsh_address_ref_outer_offset ref = 0" "sqsh_address_ref_inner_offset ref = ref" "ref < 111"
      "inode_impl_of_type (sqsh__data_inode_type (drop ref ?all)) = Some sqsh__inode_directory_impl"
      "ref + inode_bytes sqsh__inode_directory_impl (drop ref ?all) 17 \<le> 162" for ref
    using that len
    by (auto simp: directory_plain_def inode_stored_def inode_table_bytes_def tiny_tree_superblock tiny_tree_chains Let_def
        SQSH_INODE_REF_NULL_def)
  have i: "inode_impl_of_type 1 = Some sqsh__inode_directory_impl" by (simp add: inode_impl_of_type_def inode_type_defs)
  have t: "sqsh__data_inode_type (drop 0 ?all) = 1" "sqsh__data_inode_type (drop 32 ?all) = 1" by code_simp+
  have "directory_plain tiny_env (\<lambda>u. u) tiny_tree_sqsh 0" "directory_plain tiny_env (\<lambda>u. u) tiny_tree_sqsh 32"
    by (rule plain; (simp only: t i | code_simp))+
  then show ?thesis by (simp add: tiny_tree_def p)
qed

lemma tiny_root_ref: "sqsh_superblock_inode_root_ref tiny_env (ar_superblock tiny_tree_mapped) = 0"
  by (simp add: tiny_tree_superblock)

theorem path_resolution_exact_witness:
  "\<exists>r ar0 r' ar'. sqsh_path_resolver_new tiny_env list_hash_map tiny_tree_mapped = (Ok, Some r, ar0) \<and>
    sqsh_path_resolver_resolve tiny_env list_hash_map (\<lambda>_. True) ar0 r [47, 100, 47, 46, 47, 112] True = (Ok, r', ar') \<and>
    sqsh_path_resolver_inode_ref r' = 64"
proof -
  have "split_path [47, 100, 47, 46, 47, 112] = [[], [100], [46], [112]]" by (simp add: split_path.simps)
  then have "tree_resolve True 0 (Some tiny_tree) (split_path [47, 100, 47, 46, 47, 112]) = Some (Ok, 64)"
    by (simp add: tiny_tree_def)
  from path_resolution_exact [OF tiny_tree_readable _ _ tiny_tree_mapped_stored tiny_plain _ this, of "\<lambda>_. True"]
  show ?thesis by (simp add: tiny_tree_superblock)
qed

text \<open>The archive that a resolver has been made for, and its first moves.\<close>

lemma tiny_resolver:
  obtains r ar where "sqsh_path_resolver_new tiny_env list_hash_map tiny_tree_mapped = (Ok, Some r, ar)"
    "readable tiny_env alist_entries alist_entries (\<lambda>u. u) list_hash_map tiny_refs ar"
    "standing tiny_env alist_entries alist_entries (\<lambda>u. u) ar tiny_refs r 0 (tree_entries tiny_tree)"
    "archive_core ar = archive_core tiny_tree_sqsh" "pr_max_symlink_depth r = 100"
proof -
  have "directory_plain tiny_env (\<lambda>u. u) tiny_tree_mapped 0" using tiny_plain by simp
  then obtain r ar where R: "sqsh_path_resolver_new tiny_env list_hash_map tiny_tree_mapped = (Ok, Some r, ar)"
    "readable tiny_env alist_entries alist_entries (\<lambda>u. u) list_hash_map tiny_refs ar"
    "standing tiny_env alist_entries alist_entries (\<lambda>u. u) ar tiny_refs r 0 (tree_entries tiny_tree)"
    "archive_core ar = archive_core tiny_tree_mapped"
    "pr_max_symlink_depth r = (if cfg_max_symlink_depth (ar_config tiny_tree_mapped) = 0
       then SQSH_DEFAULT_MAX_SYMLINKS_FOLLOWED else cfg_max_symlink_depth (ar_config tiny_tree_mapped))"
    using resolver_new_stored [OF tiny_tree_readable, unfolded tiny_root_ref, OF tiny_tree_mapped_stored(1)] by metis
  have "cfg_max_symlink_depth (ar_config tiny_tree_mapped) = 0" by (simp add: tiny_sqsh_def zero_config_def)
  then have "pr_max_symlink_depth r = 100" using R(5) by (simp add: SQSH_DEFAULT_MAX_SYMLINKS_FOLLOWED_def)
  moreover have "archive_core ar = archive_core tiny_tree_sqsh" using R(4) by simp
  ultimately show thesis using that R(1-3) by blast
qed

theorem path_resolver_moves_safe_witness:
  "\<exists>r0 ar0 r1 ar1. sqsh_path_resolver_new tiny_env list_hash_map tiny_tree_mapped = (Ok, Some r0, ar0) \<and>
    sqsh_path_resolver_lookup tiny_env list_hash_map (\<lambda>_. True) ar0 r0 [108] = (Ok, r1, ar1) \<and>
    sqsh_path_resolver_type tiny_env r1 = Some SQSH_FILE_TYPE_SYMLINK \<and>
    safe_rv (fst (sqsh_path_resolver_down tiny_env list_hash_map ar1 r1))"
proof -
  obtain r ar where R: "sqsh_path_resolver_new tiny_env list_hash_map tiny_tree_mapped = (Ok, Some r, ar)"
    "readable tiny_env alist_entries alist_entries (\<lambda>u. u) list_hash_map tiny_refs ar"
    "standing tiny_env alist_entries alist_entries (\<lambda>u. u) ar tiny_refs r 0 (tree_entries tiny_tree)"
    "archive_core ar = archive_core tiny_tree_sqsh" "pr_max_symlink_depth r = 100"
    by (rule tiny_resolver)
  have ts: "tree_stored tiny_env (\<lambda>u. u) ar tiny_refs {0} tiny_tree"
    using tiny_tree_is_stored tree_stored_core [OF R(4)] by simp
  obtain it where L: "sqsh_path_resolver_lookup tiny_env list_hash_map (\<lambda>_. True) ar r [108] =
      (Ok, r\<lparr>pr_iterator := it, pr_current_inode_ref := 84\<rparr>, ar)"
    "sqsh_directory_iterator_file_type tiny_env it = Some SQSH_FILE_TYPE_SYMLINK"
    using lookup_stored [OF R(2) _ R(3) ts, of "\<lambda>_. True" "[108]"] by (auto simp: tiny_tree_def)
  let ?r = "r\<lparr>pr_iterator := it, pr_current_inode_ref := 84\<rparr>"
  have "archive_inv tiny_env alist_entries alist_entries (\<lambda>u. u) tiny_tree_mapped" "safe_rv (env_lock tiny_env)"
    using tiny_tree_readable by (simp_all add: readable_def)
  moreover have "(resolver_step tiny_env list_hash_map (\<lambda>_. True))\<^sup>*\<^sup>* (ar, r) (ar, ?r)"
    by (rule r_into_rtranclp) (rule step_lookup [OF L(1)])
  ultimately have "safe_rv (fst (sqsh_path_resolver_down tiny_env list_hash_map ar ?r))"
    using path_resolver_moves_safe [OF _ _ tiny_hash_map R(1)] by blast
  moreover have "sqsh_path_resolver_type tiny_env ?r = Some SQSH_FILE_TYPE_SYMLINK"
    using L(2) R(3) by (simp add: sqsh_path_resolver_type_def is_beginning_def standing_def)
  ultimately show ?thesis using R(1) L(1) by blast
qed

theorem path_resolution_ends_witness:
  "\<exists>r ar0 rv r' ar'. sqsh_path_resolver_new tiny_env list_hash_map tiny_tree_mapped = (Ok, Some r, ar0) \<and>
    sqsh_path_resolver_resolve tiny_env list_hash_map (\<lambda>_. True) ar0 r [108, 47, 46, 46] True = (rv, r', ar') \<and>
    rv \<noteq> Diverge \<and> pr_current_symlink_depth r' \<le> 101"
proof -
  obtain r ar where R: "sqsh_path_resolver_new tiny_env list_hash_map tiny_tree_mapped = (Ok, Some r, ar)"
    "pr_max_symlink_depth r = 100"
    by (rule tiny_resolver)
  obtain rv r' ar' where e: "sqsh_path_resolver_resolve tiny_env list_hash_map (\<lambda>_. True) ar r [108, 47, 46, 46] True = (rv, r', ar')"
    by (rule prod_cases3)
  have "archive_inv tiny_env alist_entries alist_entries (\<lambda>u. u) tiny_tree_mapped" "safe_rv (env_lock tiny_env)"
    using tiny_tree_readable by (simp_all add: readable_def)
  from path_resolution_ends [OF this tiny_hash_map R(1) _ _ e] show ?thesis using R e by simp
qed

end
