(* ===== verification/Sqsh_Traversal.thy ===== *)
theory Sqsh_Traversal
  imports Sqsh_Tree
begin

text \<open>
  The traversal of a directory tree (\<^verbatim>\<open>libsqsh/src/tree/traversal.c\<close>): a state machine over a stack of
  open directories, that delivers the beginning and the end of every directory and the other files.

  The stack is the vector \<^verbatim>\<open>CxPinVec\<close> of cextras, whose elements keep their address: a list here, with the
  innermost directory last. Its elements are filled with zeros when they are pushed. Whether there is memory
  for a vector of a given length is the parameter \<open>pv\<close>. A pointer to an element is its index; the file pointer
  \<open>None\<close> is the file that the traversal was started with, the iterator \<open>None\<close> is the null pointer. The error code
  that \<^verbatim>\<open>sqsh_tree_traversal_next\<close> writes through a pointer is passed in and returned, because it is not
  written on every path.
\<close>

section \<open>The state\<close>

datatype sqsh_tree_traversal_state =
  SQSH_TREE_TRAVERSAL_STATE_INIT | SQSH_TREE_TRAVERSAL_STATE_DIRECTORY_BEGIN
  | SQSH_TREE_TRAVERSAL_STATE_DIRECTORY_END | SQSH_TREE_TRAVERSAL_STATE_FILE

record ('u, 'c, 'b, 'e, 'x) traversal_stack_element =
  te_iterator :: "('u, 'c, 'b, 'e, 'x) directory_iterator"
  te_file :: "('u, 'c, 'b, 'e, 'x) sqsh_file"

record ('u, 'c, 'b, 'e, 'x) tree_traversal =
  tt_stack :: "('u, 'c, 'b, 'e, 'x) traversal_stack_element list"
  tt_depth :: nat
  tt_max_depth :: nat
  tt_base_file :: "('u, 'c, 'b, 'e, 'x) sqsh_file"
  tt_current_file :: "nat option"
  tt_current_iterator :: "nat option"
  tt_state :: sqsh_tree_traversal_state

definition RECURSION_CHECK_DEPTH :: nat where "RECURSION_CHECK_DEPTH = 128"

definition zero_element ::
  "('c, 'b, 'e) sqsh_env \<Rightarrow> ('u, 'c, 'b, 'e, 'x, 'h) sqsh_archive \<Rightarrow>
   ('u, 'c, 'b, 'e, 'x) traversal_stack_element" where
  "zero_element env archive = \<lparr>te_iterator = zero_directory_iterator env archive (zero_file env archive),
     te_file = zero_file env archive\<rparr>"

text \<open>What the two pointers refer to.\<close>

definition current_file ::
  "('u, 'c, 'b, 'e, 'x) tree_traversal \<Rightarrow> ('u, 'c, 'b, 'e, 'x) sqsh_file" where
  "current_file traversal =
     (case tt_current_file traversal of
        None \<Rightarrow> tt_base_file traversal
      | Some i \<Rightarrow> te_file (tt_stack traversal ! i))"

definition current_iterator ::
  "('u, 'c, 'b, 'e, 'x) tree_traversal \<Rightarrow> ('u, 'c, 'b, 'e, 'x) directory_iterator option" where
  "current_iterator traversal =
     (case tt_current_iterator traversal of
        None \<Rightarrow> None
      | Some i \<Rightarrow> Some (te_iterator (tt_stack traversal ! i)))"

definition set_iterator ::
  "nat \<Rightarrow> ('u, 'c, 'b, 'e, 'x) directory_iterator \<Rightarrow> ('u, 'c, 'b, 'e, 'x) tree_traversal \<Rightarrow>
   ('u, 'c, 'b, 'e, 'x) tree_traversal" where
  "set_iterator i it traversal = traversal\<lparr>tt_stack :=
     (tt_stack traversal)[i := (tt_stack traversal ! i)\<lparr>te_iterator := it\<rparr>]\<rparr>"

section \<open>Operations\<close>

definition sqsh__tree_traversal_init ::
  "('c, 'b, 'e) sqsh_env \<Rightarrow> 'h hash_map_ops \<Rightarrow> (nat \<Rightarrow> bool) \<Rightarrow> ('u, 'c, 'b, 'e, 'x, 'h) sqsh_archive \<Rightarrow>
   ('u, 'c, 'b, 'e, 'x) sqsh_file \<Rightarrow>
   rv \<times> ('u, 'c, 'b, 'e, 'x) tree_traversal option \<times> ('u, 'c, 'b, 'e, 'x, 'h) sqsh_archive" where
  "sqsh__tree_traversal_init env ho pv archive file =
     (if \<not> pv 8 then (Err SQSH_ERROR_MALLOC_FAILED, None, archive)
      else if \<not> pv 1 then (Err SQSH_ERROR_MALLOC_FAILED, None, archive)
      else let base = zero_element env archive
           in case sqsh__file_init env ho archive (te_file base) (sqsh_file_inode_ref file) of
                (rv, base_file, archive) \<Rightarrow>
                  if rv \<noteq> Ok then (rv, None, archive)
                  else (Ok, Some \<lparr>tt_stack = [base\<lparr>te_file :=
                              sqsh__file_set_parent_inode_ref base_file (fl_parent_inode_ref file)\<rparr>],
                            tt_depth = 0, tt_max_depth = SIZE_MAX, tt_base_file = file,
                            tt_current_file = Some 0, tt_current_iterator = None,
                            tt_state = SQSH_TREE_TRAVERSAL_STATE_INIT\<rparr>, archive))"

definition sqsh_tree_traversal_new where
  "sqsh_tree_traversal_new env ho pv archive file = sqsh__tree_traversal_init env ho pv archive file"

definition sqsh_tree_traversal_set_max_depth ::
  "('u, 'c, 'b, 'e, 'x) tree_traversal \<Rightarrow> nat \<Rightarrow> ('u, 'c, 'b, 'e, 'x) tree_traversal" where
  "sqsh_tree_traversal_set_max_depth traversal max_depth = traversal\<lparr>tt_max_depth := max_depth\<rparr>"

definition push_stack ::
  "('c, 'b, 'e) sqsh_env \<Rightarrow> 'h hash_map_ops \<Rightarrow> (nat \<Rightarrow> bool) \<Rightarrow> ('u, 'c, 'b, 'e, 'x, 'h) sqsh_archive \<Rightarrow>
   ('u, 'c, 'b, 'e, 'x) tree_traversal \<Rightarrow>
   rv \<times> ('u, 'c, 'b, 'e, 'x) tree_traversal \<times> ('u, 'c, 'b, 'e, 'x, 'h) sqsh_archive" where
  "push_stack env ho pv archive traversal =
     (case current_iterator traversal of
        None \<Rightarrow> (Fault, traversal, archive)
      | Some iterator \<Rightarrow>
          (let parent_inode_ref = sqsh_file_inode_ref (current_file traversal);
               inode_ref = sqsh_directory_iterator_inode_ref env iterator;
               stack = tt_stack traversal;
               element = zero_element env archive
           in if \<not> pv (length stack + 1) then (Err SQSH_ERROR_MALLOC_FAILED, traversal, archive)
              else case sqsh__file_init env ho archive (te_file element) inode_ref of (rv, file, archive) \<Rightarrow>
                if rv \<noteq> Ok then (rv, traversal, archive)
                else (Ok, traversal\<lparr>
                       tt_stack := stack @ [element\<lparr>te_file := sqsh__file_set_parent_inode_ref file parent_inode_ref\<rparr>],
                       tt_current_file := Some (length stack),
                       tt_state := SQSH_TREE_TRAVERSAL_STATE_DIRECTORY_BEGIN\<rparr>, archive)))"

definition pop_stack ::
  "('u, 'c, 'b, 'e, 'x) tree_traversal \<Rightarrow> ('u, 'c, 'b, 'e, 'x) tree_traversal" where
  "pop_stack traversal =
     (let stack = butlast (tt_stack traversal);
          top = (if stack = [] then None else Some (length stack - 1))
      in traversal\<lparr>tt_stack := stack, tt_current_file := top, tt_current_iterator := top,
           tt_state := SQSH_TREE_TRAVERSAL_STATE_DIRECTORY_END\<rparr>)"

text \<open>When the iterator fails, its error is reported beside the end of the directory and the result is true.\<close>

definition file_next ::
  "('c, 'b, 'e) sqsh_env \<Rightarrow> 'h hash_map_ops \<Rightarrow> (nat \<Rightarrow> bool) \<Rightarrow> (nat \<Rightarrow> bool) \<Rightarrow>
   ('u, 'c, 'b, 'e, 'x, 'h) sqsh_archive \<Rightarrow> ('u, 'c, 'b, 'e, 'x) tree_traversal \<Rightarrow> rv \<Rightarrow>
   bool \<times> rv \<times> ('u, 'c, 'b, 'e, 'x) tree_traversal \<times> ('u, 'c, 'b, 'e, 'x, 'h) sqsh_archive" where
  "file_next env ho mem pv archive traversal err =
     (case tt_current_iterator traversal of
        None \<Rightarrow> (False, err, traversal, archive)
      | Some i \<Rightarrow>
          if length (tt_stack traversal) \<le> i then (False, Fault, traversal, archive)
          else case sqsh_directory_iterator_next env mem (te_iterator (tt_stack traversal ! i)) of
            (has_next, err, iterator) \<Rightarrow>
              let traversal = set_iterator i iterator traversal
              in if \<not> has_next
                 then let traversal = pop_stack traversal
                      in (True, err, traversal\<lparr>tt_depth := wrap_sub (tt_depth traversal) 1\<rparr>, archive)
                 else if tt_depth traversal < tt_max_depth traversal \<and>
                   sqsh_directory_iterator_file_type env iterator = Some SQSH_FILE_TYPE_DIRECTORY
                 then (case push_stack env ho pv archive traversal of (rv, traversal, archive) \<Rightarrow>
                         if rv \<noteq> Ok then (False, rv, traversal, archive) else (True, err, traversal, archive))
                 else (True, err, traversal\<lparr>tt_state := SQSH_TREE_TRAVERSAL_STATE_FILE\<rparr>, archive))"

definition check_recursion :: "('u, 'c, 'b, 'e, 'x) tree_traversal \<Rightarrow> rv" where
  "check_recursion traversal =
     (let sz = length (tt_stack traversal);
          inode_ref = sqsh_file_inode_ref (te_file (tt_stack traversal ! (sz - 1)))
      in if sz < 2 then Ok
         else if list_ex (\<lambda>element. sqsh_file_inode_ref (te_file element) = inode_ref)
           (take (sz - 1) (tt_stack traversal))
         then Err SQSH_ERROR_DIRECTORY_RECURSION else Ok)"

definition directory_begin_next ::
  "('c, 'b, 'e) sqsh_env \<Rightarrow> 'h hash_map_ops \<Rightarrow> (nat \<Rightarrow> bool) \<Rightarrow> (nat \<Rightarrow> bool) \<Rightarrow>
   ('u, 'c, 'b, 'e, 'x, 'h) sqsh_archive \<Rightarrow> ('u, 'c, 'b, 'e, 'x) tree_traversal \<Rightarrow>
   bool \<times> rv \<times> ('u, 'c, 'b, 'e, 'x) tree_traversal \<times> ('u, 'c, 'b, 'e, 'x, 'h) sqsh_archive" where
  "directory_begin_next env ho mem pv archive traversal =
     (let traversal = traversal\<lparr>tt_depth := wrap_add (tt_depth traversal) 1\<rparr>;
          rv = (if RECURSION_CHECK_DEPTH \<le> tt_depth traversal then check_recursion traversal else Ok)
      in if rv \<noteq> Ok then (False, rv, traversal, archive)
         else if tt_stack traversal = [] then (False, Fault, traversal, archive)
         else let top = length (tt_stack traversal) - 1;
                  traversal = traversal\<lparr>tt_current_iterator := Some top\<rparr>
              in case sqsh__directory_iterator_init env archive (te_iterator (tt_stack traversal ! top))
                        (current_file traversal) of
                   (rv, iterator) \<Rightarrow>
                     let traversal = set_iterator top iterator traversal
                     in if rv \<noteq> Ok then (False, rv, traversal, archive)
                        else file_next env ho mem pv archive traversal Ok)"

definition init_next ::
  "('c, 'b, 'e) sqsh_env \<Rightarrow> ('u, 'c, 'b, 'e, 'x) tree_traversal \<Rightarrow> bool \<times> ('u, 'c, 'b, 'e, 'x) tree_traversal" where
  "init_next env traversal =
     (if tt_max_depth traversal \<noteq> 0 \<and>
        sqsh_file_type env (tt_base_file traversal) = Some SQSH_FILE_TYPE_DIRECTORY
      then (True, traversal\<lparr>tt_state := SQSH_TREE_TRAVERSAL_STATE_DIRECTORY_BEGIN\<rparr>)
      else (True, traversal\<lparr>tt_state := SQSH_TREE_TRAVERSAL_STATE_FILE\<rparr>))"

definition sqsh_tree_traversal_next ::
  "('c, 'b, 'e) sqsh_env \<Rightarrow> 'h hash_map_ops \<Rightarrow> (nat \<Rightarrow> bool) \<Rightarrow> (nat \<Rightarrow> bool) \<Rightarrow>
   ('u, 'c, 'b, 'e, 'x, 'h) sqsh_archive \<Rightarrow> ('u, 'c, 'b, 'e, 'x) tree_traversal \<Rightarrow> rv \<Rightarrow>
   bool \<times> rv \<times> ('u, 'c, 'b, 'e, 'x) tree_traversal \<times> ('u, 'c, 'b, 'e, 'x, 'h) sqsh_archive" where
  "sqsh_tree_traversal_next env ho mem pv archive traversal err =
     (case tt_state traversal of
        SQSH_TREE_TRAVERSAL_STATE_INIT \<Rightarrow>
          (case init_next env traversal of (b, traversal) \<Rightarrow> (b, err, traversal, archive))
      | SQSH_TREE_TRAVERSAL_STATE_DIRECTORY_BEGIN \<Rightarrow> directory_begin_next env ho mem pv archive traversal
      | SQSH_TREE_TRAVERSAL_STATE_DIRECTORY_END \<Rightarrow> file_next env ho mem pv archive traversal err
      | SQSH_TREE_TRAVERSAL_STATE_FILE \<Rightarrow> file_next env ho mem pv archive traversal err)"

section \<open>What the traversal stands on\<close>

definition sqsh_tree_traversal_type where
  "sqsh_tree_traversal_type env traversal =
     (case current_iterator traversal of
        None \<Rightarrow> sqsh_file_type env (tt_base_file traversal)
      | Some iterator \<Rightarrow> sqsh_directory_iterator_file_type env iterator)"

definition sqsh_tree_traversal_state where
  "sqsh_tree_traversal_state traversal = tt_state traversal"

text \<open>A name with its length, which is the number of bytes that belong to it.\<close>

definition sqsh_tree_traversal_name where
  "sqsh_tree_traversal_name env traversal =
     (case current_iterator traversal of
        None \<Rightarrow> ([], 0)
      | Some iterator \<Rightarrow> sqsh_directory_iterator_name2 env iterator)"

definition sqsh_tree_traversal_path_segment where
  "sqsh_tree_traversal_path_segment env traversal index =
     (if current_iterator traversal = None then (Some [], 0)
      else if tt_depth traversal \<le> index then (None, 0)
      else case sqsh_directory_iterator_name2 env (te_iterator (tt_stack traversal ! index)) of
             (name, len) \<Rightarrow> (Some name, len))"

definition sqsh_tree_traversal_depth where
  "sqsh_tree_traversal_depth traversal = tt_depth traversal"

text \<open>The names on the way to the current entry, one for each directory that has been entered.\<close>

definition path_segments where
  "path_segments env traversal =
     map (\<lambda>i. case sqsh_directory_iterator_name2 env (te_iterator (tt_stack traversal ! i)) of
                (name, len) \<Rightarrow> take len name) [0 ..< tt_depth traversal]"

definition total_path_length where
  "total_path_length env traversal =
     (let len = sum_list (map (\<lambda>i. snd (sqsh_directory_iterator_name2 env (te_iterator (tt_stack traversal ! i))) + 1)
                  [0 ..< tt_depth traversal])
      in if len \<noteq> 0 then len - 1 else 0)"

text \<open>
  The buffer is filled from the left, every segment with a separator behind it; the last separator becomes the null
  byte. \<open>Fault\<close> would be a write behind the buffer.
\<close>

definition sqsh_tree_traversal_path_dup where
  "sqsh_tree_traversal_path_dup env malloc_ok traversal =
     (let len = total_path_length env traversal
      in if \<not> malloc_ok (len + 1) then (Ok, None)
         else let written = concat (map (\<lambda>segment. segment @ [47]) (path_segments env traversal));
                  content = (if written = [] then [] else butlast written)
              in if len + 1 < length written \<or> len + 1 < length content + 1 then (Fault, None)
                 else (Ok, Some (content @ [0 :: byte])))"

definition sqsh_tree_traversal_name_dup where
  "sqsh_tree_traversal_name_dup env cx_memdup traversal =
     (case current_iterator traversal of
        None \<Rightarrow> (Fault, None)
      | Some iterator \<Rightarrow> (Ok, sqsh_directory_iterator_name_dup env cx_memdup iterator))"

definition sqsh_tree_traversal_open_file where
  "sqsh_tree_traversal_open_file env ho archive traversal =
     (case current_iterator traversal of
        None \<Rightarrow>
          (case sqsh_open_by_ref env ho archive (sqsh_file_inode_ref (tt_base_file traversal)) of
             (rv, file, archive) \<Rightarrow>
               if rv \<noteq> Ok then (rv, None, archive)
               else (Ok, map_option (\<lambda>f. sqsh__file_set_parent_inode_ref f
                       (fl_parent_inode_ref (tt_base_file traversal))) file, archive))
      | Some iterator \<Rightarrow> sqsh_directory_iterator_open_file env ho archive iterator)"

definition sqsh_tree_traversal_iterator where
  "sqsh_tree_traversal_iterator traversal = current_iterator traversal"

primrec cleanup_loop where
  "cleanup_loop 0 traversal = traversal"
| "cleanup_loop (Suc n) traversal =
     (if tt_stack traversal = [] then traversal else cleanup_loop n (pop_stack traversal))"

definition sqsh__tree_traversal_cleanup where
  "sqsh__tree_traversal_cleanup traversal = cleanup_loop (length (tt_stack traversal)) traversal"

section \<open>The shape of the stack\<close>

text \<open>
  Which of the iterators have been started, and what the pointers refer to, in every state. A directory whose
  beginning has just been delivered is on the stack, but its iterator has not been started.
\<close>

definition traversal_shape where
  "traversal_shape t \<longleftrightarrow>
     (let top = (if tt_depth t = 0 then None else Some (tt_depth t - 1))
      in case tt_state t of
        SQSH_TREE_TRAVERSAL_STATE_INIT \<Rightarrow>
          length (tt_stack t) = 1 \<and> tt_depth t = 0 \<and> tt_current_file t = Some 0 \<and> tt_current_iterator t = None
      | SQSH_TREE_TRAVERSAL_STATE_DIRECTORY_BEGIN \<Rightarrow>
          length (tt_stack t) = tt_depth t + 1 \<and> tt_current_file t = Some (tt_depth t) \<and> tt_current_iterator t = top
      | SQSH_TREE_TRAVERSAL_STATE_DIRECTORY_END \<Rightarrow>
          length (tt_stack t) = tt_depth t \<and> tt_current_file t = top \<and> tt_current_iterator t = top
      | SQSH_TREE_TRAVERSAL_STATE_FILE \<Rightarrow>
          (if tt_depth t = 0
           then length (tt_stack t) = 1 \<and> tt_current_file t = Some 0 \<and> tt_current_iterator t = None
           else length (tt_stack t) = tt_depth t \<and> tt_current_file t = top \<and> tt_current_iterator t = top))"

definition iterator_fit where
  "iterator_fit env se ee src it \<longleftrightarrow> directory_iterator_sane env se ee src it \<and> based it"

definition on_entry where
  "on_entry env it \<longleftrightarrow> entry_loaded env it \<and> sqsh_directory_iterator_file_type env it \<noteq> None \<and>
     name_valid (entry_name env it)"

text \<open>
  The elements of the stack; the iterators below \<open>n\<close> stand on an entry. Behind the depth at which the code starts
  to look for loops no directory is on the stack twice.
\<close>

definition elements_ok where
  "elements_ok env se ee src ar n stack \<longleftrightarrow>
     (\<forall>e \<in> set stack. file_sane env se ee src ar (te_file e) \<and> sqsh_file_inode_ref (te_file e) < 2 ^ 64) \<and>
     (\<forall>i < n. iterator_fit env se ee src (te_iterator (stack ! i)) \<and> on_entry env (te_iterator (stack ! i))) \<and>
     (\<forall>i < length stack. 0 < i \<longrightarrow> sqsh_file_inode_ref (te_file (stack ! i)) < 2 ^ 48)"

definition no_loop :: "nat \<Rightarrow> ('u, 'c, 'b, 'e, 'x) traversal_stack_element list \<Rightarrow> bool" where
  "no_loop n stack \<longleftrightarrow>
     (\<forall>j < n. RECURSION_CHECK_DEPTH \<le> j + 1 \<longrightarrow>
        (\<forall>i < j. sqsh_file_inode_ref (te_file (stack ! i)) \<noteq> sqsh_file_inode_ref (te_file (stack ! j))))"

definition traversal_sane where
  "traversal_sane env se ee src ar t \<longleftrightarrow> traversal_shape t \<and>
     elements_ok env se ee src ar (tt_depth t) (tt_stack t) \<and> no_loop (tt_depth t) (tt_stack t) \<and>
     file_sane env se ee src ar (tt_base_file t) \<and> sqsh_file_inode_ref (tt_base_file t) < 2 ^ 64"

text \<open>The state in which the next entry is asked for: the last iterator may be a new one.\<close>

definition traversal_ready where
  "traversal_ready env se ee src ar d t \<longleftrightarrow> length (tt_stack t) = Suc d \<and> tt_depth t = Suc d \<and>
     tt_current_file t = Some d \<and> tt_current_iterator t = Some d \<and>
     elements_ok env se ee src ar d (tt_stack t) \<and> iterator_fit env se ee src (te_iterator (tt_stack t ! d)) \<and>
     no_loop (Suc d) (tt_stack t) \<and>
     file_sane env se ee src ar (tt_base_file t) \<and> sqsh_file_inode_ref (tt_base_file t) < 2 ^ 64"

section \<open>How deep the stack can be\<close>

definition stack_bound :: nat where "stack_bound = 2 ^ 48 + 200"

lemma no_loop_depth:
  assumes e: "elements_ok env se ee src ar n stack" and l: "no_loop n stack" and n: "n \<le> length stack"
  shows "n \<le> 2 ^ 48 + 128"
proof (rule ccontr)
  assume big: "\<not> n \<le> 2 ^ 48 + 128"
  let ?f = "\<lambda>i. sqsh_file_inode_ref (te_file (stack ! i))"
  have "inj_on ?f {128 ..< n}"
  proof (rule inj_onI)
    fix i j assume ij: "i \<in> {128 ..< n}" "j \<in> {128 ..< n}" "?f i = ?f j"
    have ne: "?f i \<noteq> ?f j" if "i < j" "128 \<le> j" "j < n" for i j
      using that l by (simp add: no_loop_def RECURSION_CHECK_DEPTH_def)
    show "i = j" using ij ne [of i j] ne [of j i] by (metis atLeastLessThan_iff linorder_neqE_nat)
  qed
  moreover have "?f ` {128 ..< n} \<subseteq> {..< 2 ^ 48}" using e n by (auto simp: elements_ok_def)
  ultimately have "card {128 ..< n} \<le> card {..< (2::nat) ^ 48}" by (intro card_inj_on_le) simp_all
  then show False using big by simp
qed

text \<open>
  How much is left: in every directory that is open the size of its listing that has not been read, in a directory
  that has only been announced more than any listing can have.
\<close>

definition level :: "('u, 'c, 'b, 'e, 'x) tree_traversal \<Rightarrow> nat \<Rightarrow> nat" where
  "level t i = (if i < tt_depth t then Suc (di_remaining_size (te_iterator (tt_stack t ! i)))
     else if i < length (tt_stack t) then 2 ^ 32 + 2 else 0)"

definition levels :: "('u, 'c, 'b, 'e, 'x) tree_traversal \<Rightarrow> nat list" where
  "levels t = (if tt_state t = SQSH_TREE_TRAVERSAL_STATE_INIT then 1 else 0) # map (level t) [0 ..< stack_bound]"

definition sinks where
  "sinks d t t' \<longleftrightarrow> (\<forall>i < d. level t' i = level t i) \<and> level t' d < level t d"

lemma levels_decrease:
  assumes "sinks d t t'" "d < stack_bound" "tt_state t' \<noteq> SQSH_TREE_TRAVERSAL_STATE_INIT"
  shows "(levels t', levels t) \<in> lexn less_than (Suc stack_bound)"
proof (cases "tt_state t = SQSH_TREE_TRAVERSAL_STATE_INIT")
  case True
  then show ?thesis using assms(3) by (auto simp: levels_def lexn_conv intro!: exI [of _ "[]"])
next
  case False
  have s: "[0 ..< stack_bound] = [0 ..< d] @ d # [Suc d ..< stack_bound]"
    using assms(2) by (metis less_imp_le_nat upt_add_eq_append le_add_diff_inverse upt_conv_Cons zero_le)
  have "map (level t') [0 ..< d] = map (level t) [0 ..< d]" using assms(1) by (simp add: sinks_def)
  then have e: "levels t' = (0 # map (level t) [0 ..< d]) @ level t' d # map (level t') [Suc d ..< stack_bound]"
    "levels t = (0 # map (level t) [0 ..< d]) @ level t d # map (level t) [Suc d ..< stack_bound]"
    using False assms(3) by (simp_all add: levels_def s)
  have n: "length (levels t') = Suc stack_bound" "length (levels t) = Suc stack_bound" by (simp_all add: levels_def)
  have "(level t' d, level t d) \<in> less_than" using assms(1) by (simp add: sinks_def)
  then show ?thesis using e n unfolding lexn_conv by blast
qed
section \<open>One step\<close>

lemma next_unread:
  assumes "sqsh_directory_iterator_next env mem it = (b, rv, it')" "\<not> b" "rv = Ok" "directory_iterator_sane env se ee src it"
  shows "it' = it" "di_remaining_size it = 0"
proof -
  obtain b2 r2 j where m: "directory_iterator_next env it = (b2, r2, j)" by (rule prod_cases3)
  have "\<not> b2" "r2 = Ok" "it' = j" using assms(1-3) m directory_iterator_next_safe(2) [OF assms(4) m]
    by (auto simp: sqsh_directory_iterator_next_def split: prod.splits if_splits)
  then show "it' = it" "di_remaining_size it = 0" using directory_iterator_next_safe(4) [OF assms(4) m] by simp_all
qed

lemma elements_ok_core:
  assumes "archive_core ar' = archive_core ar"
  shows "elements_ok env se ee src ar' n st = elements_ok env se ee src ar n st"
  by (simp add: elements_ok_def file_sane_core [OF assms])

text \<open>Changing the last iterator, dropping it, and adding an element.\<close>

lemma elements_ok_set:
  assumes "elements_ok env se ee src ar d st" "length st = Suc d"
    and "iterator_fit env se ee src it" "on_entry env it"
  shows "elements_ok env se ee src ar (Suc d) (st[d := (st ! d)\<lparr>te_iterator := it\<rparr>])"
proof -
  let ?e = "(st ! d)\<lparr>te_iterator := it\<rparr>"
  have f: "te_file (st[d := ?e] ! i) = te_file (st ! i)" for i
    using assms(2) by (cases "i = d") simp_all
  have o: "\<forall>e \<in> set st. file_sane env se ee src ar (te_file e) \<and> sqsh_file_inode_ref (te_file e) < 2 ^ 64"
    "\<And>i. i < d \<Longrightarrow> iterator_fit env se ee src (te_iterator (st ! i)) \<and> on_entry env (te_iterator (st ! i))"
    "\<And>i. i < length st \<Longrightarrow> 0 < i \<Longrightarrow> sqsh_file_inode_ref (te_file (st ! i)) < 2 ^ 48"
    using assms(1) by (simp_all add: elements_ok_def)
  have m: "file_sane env se ee src ar (te_file e) \<and> sqsh_file_inode_ref (te_file e) < 2 ^ 64"
    if "e \<in> set (st[d := ?e])" for e
  proof -
    have "st ! d \<in> set st" using assms(2) by simp
    then show ?thesis using set_mp [OF set_update_subset_insert that] o(1) by auto
  qed
  have i: "iterator_fit env se ee src (te_iterator (st[d := ?e] ! i)) \<and> on_entry env (te_iterator (st[d := ?e] ! i))"
    if "i < Suc d" for i
    using that assms(2-4) o(2) [of i] by (cases "i = d") simp_all
  have r: "sqsh_file_inode_ref (te_file (st[d := ?e] ! i)) < 2 ^ 48" if "i < length (st[d := ?e])" "0 < i" for i
    unfolding f by (rule o(3)) (use that in simp_all)
  show ?thesis unfolding elements_ok_def using m i r by blast
qed

lemma no_loop_set [simp]: "no_loop n (st[d := (st ! d)\<lparr>te_iterator := it\<rparr>]) = no_loop n st"
proof -
  have "te_file ((st[d := (st ! d)\<lparr>te_iterator := it\<rparr>]) ! i) = te_file (st ! i)" for i
    by (cases "d < length st"; cases "i = d") (simp_all add: list_update_beyond)
  then show ?thesis by (simp add: no_loop_def)
qed

lemma elements_ok_butlast:
  assumes "elements_ok env se ee src ar d st" "length st = Suc d"
  shows "elements_ok env se ee src ar d (butlast st)"
proof -
  have "butlast st ! i = st ! i" if "i < d" for i using that assms(2) by (simp add: nth_butlast)
  then show ?thesis using assms by (auto simp: elements_ok_def dest: in_set_butlastD)
qed

lemma no_loop_butlast: "no_loop (Suc d) st \<Longrightarrow> length st = Suc d \<Longrightarrow> no_loop d (butlast st)"
  by (auto simp: no_loop_def nth_butlast)

lemma elements_ok_append:
  assumes "elements_ok env se ee src ar n st" "length st = n" "0 < n"
    and "file_sane env se ee src ar (te_file e)" "sqsh_file_inode_ref (te_file e) < 2 ^ 48"
  shows "elements_ok env se ee src ar n (st @ [e])"
proof -
  have "sqsh_file_inode_ref (te_file e) < 2 ^ 64" by (rule less_trans [OF assms(5)]) simp
  then show ?thesis using assms by (auto simp: elements_ok_def nth_append)
qed

lemma no_loop_append [simp]: "length st = n \<Longrightarrow> no_loop n (st @ [e]) = no_loop n st"
  by (auto simp: no_loop_def nth_append)

lemma push_stack_result:
  assumes inv: "archive_inv env se ee src ar" and lk: "safe_rv (env_lock env)" and hs: "hash_map_safe ho"
    and t: "length (tt_stack t) = Suc d" "tt_current_iterator t = Some d"
    and b: "based (te_iterator (tt_stack t ! d))"
    and eq: "push_stack env ho pv ar t = (rv, t', ar')"
  shows "safe_rv rv" "archive_inv env se ee src ar'" "archive_core ar' = archive_core ar"
    "rv = Ok \<Longrightarrow> \<exists>e. t' = t\<lparr>tt_stack := tt_stack t @ [e], tt_current_file := Some (Suc d),
        tt_state := SQSH_TREE_TRAVERSAL_STATE_DIRECTORY_BEGIN\<rparr> \<and>
      file_sane env se ee src ar (te_file e) \<and>
      sqsh_file_inode_ref (te_file e) = sqsh_directory_iterator_inode_ref env (te_iterator (tt_stack t ! d))"
proof -
  let ?ref = "sqsh_directory_iterator_inode_ref env (te_iterator (tt_stack t ! d))"
  obtain r1 f a where i: "sqsh__file_init env ho ar (te_file (zero_element env ar)) ?ref = (r1, f, a)" by (rule prod_cases3)
  obtain blocks inner where tb: "inode_table_bytes env src ar ?ref = (blocks, inner)" by fastforce
  have ref: "?ref < 2 ^ 64" by (rule less_trans [OF iterator_ref_bound [OF b]]) simp
  note F = file_init_correct [OF inv lk hs ref tb i]
  have core: "archive_core a = archive_core ar" using F by blast
  have fs: "file_sane env se ee src ar (sqsh__file_set_parent_inode_ref f p) \<and>
      sqsh_file_inode_ref (sqsh__file_set_parent_inode_ref f p) = ?ref" if "r1 = Ok" for p
    using F that by (simp add: file_sane_core [OF core] sqsh__file_set_parent_inode_ref_def sqsh_file_inode_ref_def)
  have main: "(rv, t', ar') = (if \<not> pv (Suc (Suc d)) then (Err SQSH_ERROR_MALLOC_FAILED, t, ar)
    else if r1 \<noteq> Ok then (r1, t, a)
    else (Ok, t\<lparr>tt_stack := tt_stack t @ [(zero_element env ar)\<lparr>te_file := sqsh__file_set_parent_inode_ref f
            (sqsh_file_inode_ref (current_file t))\<rparr>],
          tt_current_file := Some (Suc d), tt_state := SQSH_TREE_TRAVERSAL_STATE_DIRECTORY_BEGIN\<rparr>, a))"
    using eq i t by (simp add: push_stack_def current_iterator_def Let_def split: if_splits)
  show "safe_rv rv" "archive_inv env se ee src ar'" "archive_core ar' = archive_core ar"
    using main F inv by (auto split: if_splits)
  assume "rv = Ok"
  then have "r1 = Ok" "t' = t\<lparr>tt_stack := tt_stack t @ [(zero_element env ar)\<lparr>te_file := sqsh__file_set_parent_inode_ref f
            (sqsh_file_inode_ref (current_file t))\<rparr>],
          tt_current_file := Some (Suc d), tt_state := SQSH_TREE_TRAVERSAL_STATE_DIRECTORY_BEGIN\<rparr>"
    using main by (auto split: if_splits)
  then show "\<exists>e. t' = t\<lparr>tt_stack := tt_stack t @ [e], tt_current_file := Some (Suc d),
        tt_state := SQSH_TREE_TRAVERSAL_STATE_DIRECTORY_BEGIN\<rparr> \<and>
      file_sane env se ee src ar (te_file e) \<and>
      sqsh_file_inode_ref (te_file e) = sqsh_directory_iterator_inode_ref env (te_iterator (tt_stack t ! d))"
    using fs by (intro exI [of _ "(zero_element env ar)\<lparr>te_file := sqsh__file_set_parent_inode_ref f
            (sqsh_file_inode_ref (current_file t))\<rparr>"]) simp
qed

lemma file_next_result:
  assumes inv: "archive_inv env se ee src ar" and lk: "safe_rv (env_lock env)" and hs: "hash_map_safe ho"
    and R: "traversal_ready env se ee src ar d t" and d: "d < 2 ^ 48 + 150"
    and eq: "file_next env ho mem pv ar t err = (b, rv, t', ar')"
  shows "safe_rv rv \<and> archive_inv env se ee src ar' \<and> archive_core ar' = archive_core ar \<and>
    (b \<longrightarrow> traversal_sane env se ee src ar' t' \<and> sinks d t t' \<and> tt_state t' \<noteq> SQSH_TREE_TRAVERSAL_STATE_INIT)"
proof -
  let ?it = "te_iterator (tt_stack t ! d)"
  obtain b1 r1 it where n: "sqsh_directory_iterator_next env mem ?it = (b1, r1, it)" by (rule prod_cases3)
  have fit: "directory_iterator_sane env se ee src ?it" "based ?it" and E: "elements_ok env se ee src ar d (tt_stack t)"
    and NL: "no_loop (Suc d) (tt_stack t)" and sh: "length (tt_stack t) = Suc d" "tt_depth t = Suc d"
      "tt_current_file t = Some d" "tt_current_iterator t = Some d"
    and base: "file_sane env se ee src ar (tt_base_file t)" "sqsh_file_inode_ref (tt_base_file t) < 2 ^ 64"
    using R by (simp_all add: traversal_ready_def iterator_fit_def)
  note N = sqsh_directory_iterator_next_safe [OF fit(1) n]
  have bs: "based it" by (rule sqsh_directory_iterator_next_base [OF n fit(2)])
  let ?s = "set_iterator d it t"
  have st: "tt_stack ?s = (tt_stack t)[d := (tt_stack t ! d)\<lparr>te_iterator := it\<rparr>]" by (simp add: set_iterator_def)
  show ?thesis
  proof (cases b1)
    case False
    have w: "wrap_sub (Suc d) 1 = d" using d by (simp add: wrap_sub_def mod_if)
    have e: "b = True" "rv = r1" "ar' = ar" "t' = (pop_stack ?s)\<lparr>tt_depth := d\<rparr>"
      using eq n False sh w by (simp_all add: file_next_def Let_def set_iterator_def pop_stack_def)
    have bl: "butlast (tt_stack ?s) = butlast (tt_stack t)" using sh(1) by (simp add: st butlast_list_update)
    have ne: "butlast (tt_stack t) = [] \<longleftrightarrow> d = 0" using sh(1) by (metis length_0_conv length_butlast diff_Suc_1)
    have S: "traversal_sane env se ee src ar t'"
      using elements_ok_butlast [OF E sh(1)] no_loop_butlast [OF NL sh(1)] base sh
      by (simp add: e(4) traversal_sane_def traversal_shape_def pop_stack_def Let_def bl ne) (simp add: set_iterator_def)
    have "sinks d t t'" using sh by (auto simp: sinks_def level_def e(4) pop_stack_def Let_def bl nth_butlast)
    then show ?thesis using S N(1) inv e by (simp add: pop_stack_def Let_def)
  next
    case True
    have r1: "r1 = Ok" using N(2) True by simp
    have I: "iterator_fit env se ee src it" "on_entry env it" "di_remaining_size it < di_remaining_size ?it"
      using N(3) [OF True] bs by (auto simp: iterator_fit_def on_entry_def)
    have E': "elements_ok env se ee src ar (Suc d) (tt_stack ?s)" unfolding st by (rule elements_ok_set [OF E sh(1) I(1,2)])
    have lv: "sinks d t x" if "tt_depth x = Suc d" "tt_stack x = tt_stack ?s @ xs" for x xs
      using that sh(1,2) I(3) by (auto simp: sinks_def level_def st nth_append nth_list_update)
    show ?thesis
    proof (cases "tt_depth t < tt_max_depth t \<and> sqsh_directory_iterator_file_type env it = Some SQSH_FILE_TYPE_DIRECTORY")
      case False
      then have e: "b = True" "rv = Ok" "ar' = ar" "t' = ?s\<lparr>tt_state := SQSH_TREE_TRAVERSAL_STATE_FILE\<rparr>"
        using eq n True sh r1 by (auto simp: file_next_def Let_def set_iterator_def)
      have "traversal_sane env se ee src ar t'" using E' NL base sh st
        by (simp add: e(4) traversal_sane_def traversal_shape_def) (simp add: set_iterator_def)
      moreover have "sinks d t t'" using sh by (intro lv [of _ "[]"]) (simp_all add: e(4) set_iterator_def)
      ultimately show ?thesis using e inv by simp
    next
      case dir: True
      obtain r2 p a where ps: "push_stack env ho pv ar ?s = (r2, p, a)" by (rule prod_cases3)
      have e: "(b, rv, t', ar') = (if r2 \<noteq> Ok then (False, r2, p, a) else (True, Ok, p, a))"
        using eq n True sh r1 dir ps by (auto simp: file_next_def Let_def set_iterator_def)
      have sh': "length (tt_stack ?s) = Suc d" "tt_current_iterator ?s = Some d" "based (te_iterator (tt_stack ?s ! d))"
        using sh bs by (simp_all add: st) (simp add: set_iterator_def)
      note P = push_stack_result [OF inv lk hs sh' ps]
      show ?thesis
      proof (cases "r2 = Ok")
        case False
        then show ?thesis using e P(1-3) by simp
      next
        case ok: True
        obtain el where el: "p = ?s\<lparr>tt_stack := tt_stack ?s @ [el], tt_current_file := Some (Suc d),
            tt_state := SQSH_TREE_TRAVERSAL_STATE_DIRECTORY_BEGIN\<rparr>" "file_sane env se ee src ar (te_file el)"
          "sqsh_file_inode_ref (te_file el) = sqsh_directory_iterator_inode_ref env (te_iterator (tt_stack ?s ! d))"
          using P(4) [OF ok] by blast
        have ref: "sqsh_file_inode_ref (te_file el) < 2 ^ 48" unfolding el(3) by (rule iterator_ref_bound [OF sh'(3)])
        have "elements_ok env se ee src ar (Suc d) (tt_stack ?s @ [el])"
          using elements_ok_append [OF E' sh'(1) _ el(2) ref] by simp
        moreover have "tt_depth ?s = Suc d" "tt_base_file ?s = tt_base_file t" "tt_current_iterator ?s = Some d"
          using sh by (simp_all add: set_iterator_def)
        moreover have "no_loop (Suc d) (tt_stack ?s)" using NL by (simp add: st)
        ultimately have "traversal_sane env se ee src a p"
          using base sh'(1) by (simp add: el(1) traversal_sane_def traversal_shape_def elements_ok_core [OF P(3)]
              file_sane_core [OF P(3)])
        moreover have "sinks d t p" using sh by (intro lv [of _ "[el]"]) (simp_all add: el(1) set_iterator_def)
        ultimately show ?thesis using e ok P(2,3) el(1) by simp
      qed
    qed
  qed
qed

lemma check_recursion_Ok:
  assumes "check_recursion t = Ok" "length (tt_stack t) = Suc d" "i < d"
  shows "sqsh_file_inode_ref (te_file (tt_stack t ! i)) \<noteq> sqsh_file_inode_ref (te_file (tt_stack t ! d))"
proof -
  have "tt_stack t ! i \<in> set (take d (tt_stack t))" using assms(2,3) by (auto simp: in_set_conv_nth intro!: exI [of _ i])
  then show ?thesis using assms by (auto simp: check_recursion_def Let_def list_ex_iff split: if_splits)
qed

lemma sinks_trans: "sinks d t u \<Longrightarrow> sinks d u v \<Longrightarrow> sinks d t v"
  by (auto simp: sinks_def)

lemma elements_ok_less:
  assumes "elements_ok env se ee src ar d st" "length st = Suc d"
  shows "elements_ok env se ee src ar d (st[d := (st ! d)\<lparr>te_iterator := it\<rparr>])"
proof -
  let ?e = "(st ! d)\<lparr>te_iterator := it\<rparr>"
  have f: "te_file (st[d := ?e] ! i) = te_file (st ! i)" for i
    using assms(2) by (cases "i = d") simp_all
  have o: "\<forall>e \<in> set st. file_sane env se ee src ar (te_file e) \<and> sqsh_file_inode_ref (te_file e) < 2 ^ 64"
    "\<And>i. i < d \<Longrightarrow> iterator_fit env se ee src (te_iterator (st ! i)) \<and> on_entry env (te_iterator (st ! i))"
    "\<And>i. i < length st \<Longrightarrow> 0 < i \<Longrightarrow> sqsh_file_inode_ref (te_file (st ! i)) < 2 ^ 48"
    using assms(1) by (simp_all add: elements_ok_def)
  have m: "file_sane env se ee src ar (te_file e) \<and> sqsh_file_inode_ref (te_file e) < 2 ^ 64"
    if "e \<in> set (st[d := ?e])" for e
  proof -
    have "st ! d \<in> set st" using assms(2) by simp
    then show ?thesis using set_mp [OF set_update_subset_insert that] o(1) by auto
  qed
  have i: "iterator_fit env se ee src (te_iterator (st[d := ?e] ! i)) \<and> on_entry env (te_iterator (st[d := ?e] ! i))"
    if "i < d" for i using that assms(2) o(2) [of i] by simp
  have r: "sqsh_file_inode_ref (te_file (st[d := ?e] ! i)) < 2 ^ 48" if "i < length (st[d := ?e])" "0 < i" for i
    unfolding f by (rule o(3)) (use that in simp_all)
  show ?thesis unfolding elements_ok_def using m i r by blast
qed

lemma traversal_ready_depth:
  assumes "traversal_ready env se ee src ar d t" shows "d < 2 ^ 48 + 150"
proof (rule ccontr)
  assume big: "\<not> d < 2 ^ 48 + 150"
  have "elements_ok env se ee src ar d (tt_stack t)" "no_loop d (tt_stack t)" "d \<le> length (tt_stack t)"
    using assms by (simp_all add: traversal_ready_def no_loop_def)
  then show False using no_loop_depth [of env se ee src ar d "tt_stack t"] big by simp
qed

lemma directory_begin_next_result:
  assumes inv: "archive_inv env se ee src ar" and lk: "safe_rv (env_lock env)" and hs: "hash_map_safe ho"
    and T: "traversal_sane env se ee src ar t" and st: "tt_state t = SQSH_TREE_TRAVERSAL_STATE_DIRECTORY_BEGIN"
    and eq: "directory_begin_next env ho mem pv ar t = (b, rv, t', ar')"
  shows "safe_rv rv \<and> archive_inv env se ee src ar' \<and> archive_core ar' = archive_core ar \<and>
    (b \<longrightarrow> traversal_sane env se ee src ar' t' \<and> sinks (tt_depth t) t t' \<and> tt_depth t < stack_bound \<and>
      tt_state t' \<noteq> SQSH_TREE_TRAVERSAL_STATE_INIT)"
proof -
  define d where "d = tt_depth t"
  have sh: "length (tt_stack t) = Suc d" "tt_current_file t = Some d" "tt_depth t = d"
    and E: "elements_ok env se ee src ar d (tt_stack t)" and NL: "no_loop d (tt_stack t)"
    and base: "file_sane env se ee src ar (tt_base_file t)" "sqsh_file_inode_ref (tt_base_file t) < 2 ^ 64"
    using T st by (simp_all add: traversal_sane_def traversal_shape_def d_def Let_def)
  have "d \<le> 2 ^ 48 + 128" using no_loop_depth [OF E NL] sh(1) by simp
  then have w: "wrap_add d 1 = Suc d" by (simp add: wrap_add_def)
  define t1 where "t1 = t\<lparr>tt_depth := Suc d\<rparr>"
  define r0 where "r0 = (if RECURSION_CHECK_DEPTH \<le> Suc d then check_recursion t1 else Ok)"
  define t2 where "t2 = t1\<lparr>tt_current_iterator := Some d\<rparr>"
  obtain r1 it where i: "sqsh__directory_iterator_init env ar (te_iterator (tt_stack t ! d)) (te_file (tt_stack t ! d)) = (r1, it)"
    by fastforce
  let ?s = "set_iterator d it t2"
  have ne: "tt_stack t \<noteq> []" using sh(1) by auto
  have main: "(b, rv, t', ar') = (if r0 \<noteq> Ok then (False, r0, t1, ar) else if r1 \<noteq> Ok then (False, r1, ?s, ar)
    else file_next env ho mem pv ar ?s Ok)"
    unfolding eq [symmetric] directory_begin_next_def Let_def using i w sh ne
    by (simp add: r0_def t1_def t2_def current_file_def)
  have f: "file_sane env se ee src ar (te_file (tt_stack t ! d))" using E sh(1) by (simp add: elements_ok_def)
  note I = directory_iterator_init_correct [OF inv f i]
  have safe0: "safe_rv r0" by (simp add: r0_def check_recursion_def Let_def)
  show ?thesis
  proof (cases "r0 = Ok \<and> r1 = Ok")
    case False
    then show ?thesis using main safe0 I(1) inv by (auto split: if_splits)
  next
    case True
    have I2: "directory_iterator_sane env se ee src it" using I(2) True by blast
    have fit: "iterator_fit env se ee src it"
      using I2 directory_iterator_init_base [OF i] True by (simp add: iterator_fit_def)
    have small: "di_remaining_size it < 2 ^ 32" using I2 by (simp add: directory_iterator_sane_def)
    have nl: "no_loop (Suc d) (tt_stack t)" unfolding no_loop_def
    proof (intro allI impI)
      fix j i assume j: "j < Suc d" "RECURSION_CHECK_DEPTH \<le> j + 1" "i < j"
      have L: "length (tt_stack t1) = Suc d" "tt_stack t1 = tt_stack t" using sh(1) by (simp_all add: t1_def)
      show "sqsh_file_inode_ref (te_file (tt_stack t ! i)) \<noteq> sqsh_file_inode_ref (te_file (tt_stack t ! j))"
      proof (cases "j = d")
        case top: True
        then have "check_recursion t1 = Ok" using True j by (simp add: r0_def)
        then show ?thesis using check_recursion_Ok [OF _ L(1)] j top L(2) by simp
      next
        case False
        then show ?thesis using NL j by (simp add: no_loop_def)
      qed
    qed
    have S: "tt_stack ?s = (tt_stack t)[d := (tt_stack t ! d)\<lparr>te_iterator := it\<rparr>]"
      by (simp add: set_iterator_def t2_def t1_def)
    have R: "traversal_ready env se ee src ar d ?s"
      unfolding traversal_ready_def S
      using elements_ok_less [OF E sh(1)] nl sh fit base
      by (simp add: set_iterator_def t2_def t1_def)
    have e: "file_next env ho mem pv ar ?s Ok = (b, rv, t', ar')" using main True by simp
    note N = file_next_result [OF inv lk hs R traversal_ready_depth [OF R] e]
    have "sinks d t ?s" using sh small by (auto simp: sinks_def level_def S) (simp_all add: set_iterator_def t2_def t1_def)
    then have "sinks d t t'" if b using N that sinks_trans by blast
    moreover have "d < stack_bound" using \<open>d \<le> 2 ^ 48 + 128\<close> by (simp add: stack_bound_def)
    ultimately show ?thesis using N sh(3) by simp
  qed
qed

text \<open>Every step keeps the traversal sane while it returns an entry, and the levels decrease.\<close>

lemma traversal_next_result:
  assumes inv: "archive_inv env se ee src ar" and lk: "safe_rv (env_lock env)" and hs: "hash_map_safe ho"
    and T: "traversal_sane env se ee src ar t" and err: "safe_rv err"
    and eq: "sqsh_tree_traversal_next env ho mem pv ar t err = (b, rv, t', ar')"
  shows "safe_rv rv \<and> archive_inv env se ee src ar' \<and> archive_core ar' = archive_core ar \<and>
    (b \<longrightarrow> traversal_sane env se ee src ar' t' \<and> (levels t', levels t) \<in> lexn less_than (Suc stack_bound))"
proof -
  have fn: ?thesis if s: "tt_state t = SQSH_TREE_TRAVERSAL_STATE_DIRECTORY_END \<or> tt_state t = SQSH_TREE_TRAVERSAL_STATE_FILE"
  proof (cases "tt_current_iterator t")
    case None
    then have "b = False" "rv = err" "ar' = ar" using eq s
      by (auto simp: sqsh_tree_traversal_next_def file_next_def)
    then show ?thesis using inv err by simp
  next
    case (Some d)
    have sh: "length (tt_stack t) = Suc d" "tt_depth t = Suc d" "tt_current_file t = Some d"
      using T s Some by (auto simp: traversal_sane_def traversal_shape_def Let_def split: if_splits)
    have E: "elements_ok env se ee src ar (Suc d) (tt_stack t)" using T sh by (simp add: traversal_sane_def)
    have E': "elements_ok env se ee src ar d (tt_stack t)" using E by (simp add: elements_ok_def)
    have "iterator_fit env se ee src (te_iterator (tt_stack t ! d))" using E by (simp add: elements_ok_def)
    then have R: "traversal_ready env se ee src ar d t"
      using T sh Some E' by (simp add: traversal_ready_def traversal_sane_def)
    have e: "file_next env ho mem pv ar t err = (b, rv, t', ar')" using eq s by (auto simp: sqsh_tree_traversal_next_def)
    note N = file_next_result [OF inv lk hs R traversal_ready_depth [OF R] e]
    have "d < stack_bound" using traversal_ready_depth [OF R] by (simp add: stack_bound_def)
    then have "(levels t', levels t) \<in> lexn less_than (Suc stack_bound)" if b
      using N that levels_decrease [of d t t'] by blast
    then show ?thesis using N by blast
  qed
  show ?thesis
  proof (cases "tt_state t")
    case SQSH_TREE_TRAVERSAL_STATE_INIT
    obtain s where e: "rv = err" "ar' = ar" "t' = t\<lparr>tt_state := s\<rparr>"
      "s = SQSH_TREE_TRAVERSAL_STATE_DIRECTORY_BEGIN \<or> s = SQSH_TREE_TRAVERSAL_STATE_FILE"
      using eq SQSH_TREE_TRAVERSAL_STATE_INIT
      by (auto simp: sqsh_tree_traversal_next_def init_next_def split: if_splits)
    have S: "traversal_sane env se ee src ar t'"
      using T SQSH_TREE_TRAVERSAL_STATE_INIT e(3,4)
      by (auto simp: traversal_sane_def traversal_shape_def Let_def)
    have "levels t' = 0 # map (level t) [0 ..< stack_bound]" "levels t = 1 # map (level t) [0 ..< stack_bound]"
      using e(3,4) SQSH_TREE_TRAVERSAL_STATE_INIT by (auto simp: levels_def level_def)
    then have "(levels t', levels t) \<in> lexn less_than (Suc stack_bound)"
      by (simp add: lexn_conv) (intro exI [of _ "[]"], simp)
    then show ?thesis using S e(1,2) inv err by simp
  next
    case SQSH_TREE_TRAVERSAL_STATE_DIRECTORY_BEGIN
    have e: "directory_begin_next env ho mem pv ar t = (b, rv, t', ar')"
      using eq SQSH_TREE_TRAVERSAL_STATE_DIRECTORY_BEGIN by (simp add: sqsh_tree_traversal_next_def)
    note N = directory_begin_next_result [OF inv lk hs T SQSH_TREE_TRAVERSAL_STATE_DIRECTORY_BEGIN e]
    have "(levels t', levels t) \<in> lexn less_than (Suc stack_bound)" if b
      using N that levels_decrease [of "tt_depth t" t t'] by blast
    then show ?thesis using N by blast
  qed (use fn in blast)+
qed

lemma traversal_init_result:
  assumes inv: "archive_inv env se ee src ar" and lk: "safe_rv (env_lock env)" and hs: "hash_map_safe ho"
    and f: "file_sane env se ee src ar file" "sqsh_file_inode_ref file < 2 ^ 64"
    and eq: "sqsh__tree_traversal_init env ho pv ar file = (rv, t, ar')"
  shows "safe_rv rv \<and> archive_inv env se ee src ar' \<and> archive_core ar' = archive_core ar \<and>
    (rv = Ok \<longrightarrow> (\<exists>u. t = Some u \<and> traversal_sane env se ee src ar' u))"
proof -
  obtain r1 g a where i: "sqsh__file_init env ho ar (te_file (zero_element env ar)) (sqsh_file_inode_ref file) = (r1, g, a)"
    by (rule prod_cases3)
  obtain blocks inner where tb: "inode_table_bytes env src ar (sqsh_file_inode_ref file) = (blocks, inner)" by fastforce
  note F = file_init_correct [OF inv lk hs f(2) tb i]
  have core: "archive_core a = archive_core ar" using F by blast
  let ?u = "\<lparr>tt_stack = [(zero_element env ar)\<lparr>te_file := sqsh__file_set_parent_inode_ref g (fl_parent_inode_ref file)\<rparr>],
      tt_depth = 0, tt_max_depth = SIZE_MAX, tt_base_file = file, tt_current_file = Some 0,
      tt_current_iterator = None, tt_state = SQSH_TREE_TRAVERSAL_STATE_INIT\<rparr>"
  have main: "rv = Err SQSH_ERROR_MALLOC_FAILED \<and> ar' = ar \<or> rv = r1 \<and> ar' = a \<and> (r1 = Ok \<longrightarrow> t = Some ?u)"
    using eq i by (auto simp: sqsh__tree_traversal_init_def Let_def split: if_splits)
  have "traversal_sane env se ee src a ?u" if "r1 = Ok"
  proof -
    have "file_sane env se ee src a g" "fl_inode_ref g = sqsh_file_inode_ref file" using F that by blast+
    then show ?thesis using f
      by (simp add: traversal_sane_def traversal_shape_def elements_ok_def no_loop_def file_sane_core [OF core]
          sqsh__file_set_parent_inode_ref_def sqsh_file_inode_ref_def)
  qed
  then show ?thesis using main F inv by auto
qed

section \<open>The path of the current entry\<close>

fun join_path :: "byte list list \<Rightarrow> byte list" where
  "join_path [] = []"
| "join_path [s] = s"
| "join_path (s # ss) = s @ [47] @ join_path ss"

lemma join_path_concat: "ss \<noteq> [] \<Longrightarrow> concat (map (\<lambda>s. s @ [47]) ss) = join_path ss @ [47]"
  by (induction ss rule: join_path.induct) simp_all

lemma length_join_path: "ss \<noteq> [] \<Longrightarrow> sum_list (map (\<lambda>s. length s + 1) ss) = length (join_path ss) + 1"
  by (induction ss rule: join_path.induct) simp_all

definition entry_path where
  "entry_path env t = map (\<lambda>i. entry_name env (te_iterator (tt_stack t ! i))) [0 ..< tt_depth t]"

lemma entry_path_segments:
  assumes "\<forall>i < tt_depth t. entry_loaded env (te_iterator (tt_stack t ! i))"
  shows "path_segments env t = entry_path env t"
    "sqsh_tree_traversal_path_dup env malloc_ok t =
      (Ok, if malloc_ok (length (join_path (entry_path env t)) + 1) then Some (join_path (entry_path env t) @ [0]) else None)"
proof -
  let ?it = "\<lambda>i. te_iterator (tt_stack t ! i)"
  have n: "sqsh_directory_iterator_name2 env (?it i) = (entry_name env (?it i), length (entry_name env (?it i)))"
    if "i < tt_depth t" for i using entry_loaded_name(1) assms that by blast
  show s: "path_segments env t = entry_path env t"
    unfolding path_segments_def entry_path_def using n by (intro map_cong) simp_all
  have l: "map (\<lambda>i. snd (sqsh_directory_iterator_name2 env (?it i)) + 1) [0 ..< tt_depth t]
    = map (\<lambda>s. length s + 1) (entry_path env t)"
    unfolding entry_path_def using n by simp
  have tl: "total_path_length env t = length (join_path (entry_path env t))"
  proof (cases "entry_path env t = []")
    case True
    then show ?thesis using l by (simp add: total_path_length_def Let_def)
  next
    case False
    then show ?thesis unfolding total_path_length_def l Let_def length_join_path [OF False] by simp
  qed
  show "sqsh_tree_traversal_path_dup env malloc_ok t =
      (Ok, if malloc_ok (length (join_path (entry_path env t)) + 1) then Some (join_path (entry_path env t) @ [0]) else None)"
    by (cases "entry_path env t = []")
      (simp_all add: sqsh_tree_traversal_path_dup_def Let_def tl s join_path_concat)
qed

lemma sane_entries:
  assumes "traversal_sane env se ee src ar t" "i < tt_depth t"
  shows "on_entry env (te_iterator (tt_stack t ! i))"
  using assms by (simp add: traversal_sane_def elements_ok_def)

lemma sane_path: "traversal_sane env se ee src ar t \<Longrightarrow> list_all name_valid (entry_path env t)"
  using sane_entries by (fastforce simp: entry_path_def list_all_iff on_entry_def)

lemma sane_file_type: "file_sane env se ee src ar f \<Longrightarrow> sqsh_file_type env f \<noteq> None"
  using file_impl_of_type(1) by (auto simp: file_sane_def get_impl_def sqsh_file_type_def)

lemma sane_type:
  assumes "archive_inv env se ee src ar" and T: "traversal_sane env se ee src ar t"
  shows "sqsh_tree_traversal_type env t \<noteq> None"
proof (cases "tt_current_iterator t")
  case None
  then show ?thesis using T sane_file_type
    by (auto simp: sqsh_tree_traversal_type_def current_iterator_def traversal_sane_def)
next
  case (Some i)
  then have "i < tt_depth t" using T
    by (auto simp: traversal_sane_def traversal_shape_def Let_def split: sqsh_tree_traversal_state.splits if_splits)
  from sane_entries [OF T this] show ?thesis using Some
    by (simp add: sqsh_tree_traversal_type_def current_iterator_def on_entry_def)
qed

section \<open>Going through the tree\<close>

text \<open>One call that delivers an entry, and the loop of the callers.\<close>

inductive traversal_step for env ho mem pv where
  "\<lbrakk>sqsh_tree_traversal_next env ho mem pv ar t err = (True, rv, t', ar'); safe_rv err\<rbrakk>
   \<Longrightarrow> traversal_step env ho mem pv (ar, t) (ar', t')"

inductive_cases traversal_stepE: "traversal_step env ho mem pv (ar, t) (ar', t')"

primrec traverse where
  "traverse 0 env ho mem pv ar t err = (Diverge, [])"
| "traverse (Suc n) env ho mem pv ar t err =
     (case sqsh_tree_traversal_next env ho mem pv ar t err of (has_next, rv, t, ar) \<Rightarrow>
        if has_next
        then (case traverse n env ho mem pv ar t rv of (rv, seen) \<Rightarrow> (rv, (tt_state t, path_segments env t) # seen))
        else (rv, []))"

lemma traversal_steps_sane:
  assumes "(traversal_step env ho mem pv)\<^sup>*\<^sup>* p q" "p = (ar, t)" "q = (ar', t')"
    and "safe_rv (env_lock env)" "hash_map_safe ho"
    and "archive_inv env se ee src ar" "traversal_sane env se ee src ar t"
  shows "archive_inv env se ee src ar' \<and> archive_core ar' = archive_core ar \<and> traversal_sane env se ee src ar' t'"
  using assms
proof (induction arbitrary: ar' t' rule: rtranclp_induct)
  case (step y z)
  obtain a u where y: "y = (a, u)" by (cases y)
  have I: "archive_inv env se ee src a" "archive_core a = archive_core ar" "traversal_sane env se ee src a u"
    using step.IH [OF step.prems(1) y step.prems(3-6)] by simp_all
  obtain err rv where n: "sqsh_tree_traversal_next env ho mem pv a u err = (True, rv, t', ar')" "safe_rv err"
    using step.hyps(2) y step.prems(2) by (auto elim: traversal_stepE)
  show ?case using traversal_next_result [OF I(1) step.prems(3,4) I(3) n(2,1)] I(2) by simp
qed simp

lemma traverse_ends:
  assumes "safe_rv (env_lock env)" "hash_map_safe ho"
  shows "archive_inv env se ee src ar \<Longrightarrow> traversal_sane env se ee src ar t \<Longrightarrow> safe_rv err \<Longrightarrow>
    \<exists>n. safe_rv (fst (traverse n env ho mem pv ar t err))"
proof (induction "levels t" arbitrary: ar t err rule: wf_induct_rule [OF wf_lexn [OF wf_less_than, of "Suc stack_bound"]])
  case (1 t)
  obtain b rv t' ar' where n: "sqsh_tree_traversal_next env ho mem pv ar t err = (b, rv, t', ar')" by (rule prod_cases4)
  note N = traversal_next_result [OF 1(2) assms 1(3,4) n]
  show ?case
  proof (cases b)
    case False
    then show ?thesis using n N by (intro exI [of _ "Suc 0"]) simp
  next
    case True
    then obtain m where m: "safe_rv (fst (traverse m env ho mem pv ar' t' rv))" using 1(1) [of t' ar' rv] N by blast
    have "fst (traverse (Suc m) env ho mem pv ar t err) = fst (traverse m env ho mem pv ar' t' rv)"
      using n True by (simp split: prod.split)
    then show ?thesis using m by metis
  qed
qed

lemma sane_max_depth:
  "traversal_sane env se ee src ar (sqsh_tree_traversal_set_max_depth t d) = traversal_sane env se ee src ar t"
  by (cases "tt_state t") (simp_all add: sqsh_tree_traversal_set_max_depth_def traversal_sane_def traversal_shape_def)

text \<open>
  C9. A traversal is safe on every archive: after every number of steps, from an open file in order and in an
  archive in order, the archive keeps its invariant, every segment of the path is a valid name, the copy of the
  path is the segments with separators between them and a null byte behind them, and stays inside its buffer,
  the type of the current entry is known, and the next step stays inside its memory as well.
\<close>

theorem traversal_steps_safe:
  assumes "archive_inv env se ee src ar" "safe_rv (env_lock env)" "hash_map_safe ho"
    and "file_sane env se ee src ar file" "sqsh_file_inode_ref file < 2 ^ 64"
    and "sqsh__tree_traversal_init env ho pv ar file = (Ok, Some t0, ar0)"
    and "(traversal_step env ho mem pv)\<^sup>*\<^sup>* (ar0, sqsh_tree_traversal_set_max_depth t0 d) (ar1, t1)"
  shows "archive_inv env se ee src ar1 \<and> archive_core ar1 = archive_core ar \<and>
    list_all name_valid (path_segments env t1) \<and> length (path_segments env t1) = tt_depth t1 \<and>
    sqsh_tree_traversal_path_dup env (\<lambda>_. True) t1 = (Ok, Some (join_path (path_segments env t1) @ [0])) \<and>
    sqsh_tree_traversal_type env t1 \<noteq> None \<and>
    safe_rv (fst (snd (sqsh_tree_traversal_next env ho mem pv ar1 t1 Ok)))"
proof -
  note I = traversal_init_result [OF assms(1-6)]
  have I': "archive_inv env se ee src ar0" "archive_core ar0 = archive_core ar"
    "traversal_sane env se ee src ar0 (sqsh_tree_traversal_set_max_depth t0 d)"
    using I by (simp_all add: sane_max_depth)
  have S: "archive_inv env se ee src ar1" "archive_core ar1 = archive_core ar" "traversal_sane env se ee src ar1 t1"
    using traversal_steps_sane [OF assms(7) refl refl assms(2,3) I'(1,3)] I'(2) by simp_all
  have "\<forall>i < tt_depth t1. entry_loaded env (te_iterator (tt_stack t1 ! i))"
    using sane_entries [OF S(3)] by (simp add: on_entry_def)
  note P = entry_path_segments [OF this]
  obtain b rv t' ar' where n: "sqsh_tree_traversal_next env ho mem pv ar1 t1 Ok = (b, rv, t', ar')" by (rule prod_cases4)
  show ?thesis
    using S sane_path [OF S(3)] sane_type [OF S(1,3)] traversal_next_result [OF S(1) assms(2,3) S(3) _ n] n
    by (simp add: P) (simp add: entry_path_def)
qed

text \<open>
  C7. A traversal always ends, on damaged archives and on archives whose directories contain themselves: from
  an open file in order there is a number of steps after which the loop over \<^verbatim>\<open>sqsh_tree_traversal_next\<close> has stopped.
  Behind a depth of 128 no directory is entered inside itself, the directories have at most \<open>2 ^ 48\<close> references,
  and every directory is finite.
\<close>

theorem traversal_ends:
  assumes "archive_inv env se ee src ar" "safe_rv (env_lock env)" "hash_map_safe ho"
    and "file_sane env se ee src ar file" "sqsh_file_inode_ref file < 2 ^ 64"
    and "sqsh__tree_traversal_init env ho pv ar file = (Ok, Some t, ar')"
  shows "\<exists>n. fst (traverse n env ho mem pv ar' (sqsh_tree_traversal_set_max_depth t d) Ok) \<notin> {Diverge, Fault}"
proof -
  have I: "archive_inv env se ee src ar'" "traversal_sane env se ee src ar' (sqsh_tree_traversal_set_max_depth t d)"
    using traversal_init_result [OF assms(1-6)]
    by (simp_all add: sane_max_depth)
  show ?thesis using traverse_ends [OF assms(2,3) I, of Ok mem pv] by (auto simp: safe_rv_def)
qed

end
