(* ===== verification/Sqsh_Preorder.thy ===== *)
theory Sqsh_Preorder
  imports Sqsh_Traversal
begin

text \<open>
  The traversal of \<^verbatim>\<open>libsqsh/src/tree/traversal.c\<close> against its specification: on an archive that holds a tree
  of files, with memory available, it delivers the entries of the tree in preorder, every directory with a
  beginning and an end, down to the given depth.
\<close>

section \<open>The specification\<close>

primrec tree_events :: "nat \<Rightarrow> byte list list \<Rightarrow> entry_tree \<Rightarrow> (sqsh_tree_traversal_state \<times> byte list list) list" where
  "tree_events m p EntryEnd = []"
| "tree_events m p (EntryFile e rest) = (SQSH_TREE_TRAVERSAL_STATE_FILE, p @ [en_name e]) # tree_events m p rest"
| "tree_events m p (EntryDirectory e sub rest) =
     (if Suc (length p) < m
      then (SQSH_TREE_TRAVERSAL_STATE_DIRECTORY_BEGIN, p @ [en_name e]) # tree_events m (p @ [en_name e]) sub @
        [(SQSH_TREE_TRAVERSAL_STATE_DIRECTORY_END, p @ [en_name e])]
      else [(SQSH_TREE_TRAVERSAL_STATE_FILE, p @ [en_name e])]) @ tree_events m p rest"

text \<open>A run of calls that deliver the given entries.\<close>

inductive delivers for env ho mem pv where
  delivers_none: "delivers env ho mem pv (ar, t) [] (ar, t)"
| delivers_some: "\<lbrakk>sqsh_tree_traversal_next env ho mem pv ar t Ok = (True, Ok, t', ar');
     delivers env ho mem pv (ar', t') es q\<rbrakk>
   \<Longrightarrow> delivers env ho mem pv (ar, t) ((tt_state t', path_segments env t') # es) q"

inductive_cases delivers_someE: "delivers env ho mem pv (ar, t) (e # es) q"

lemma delivers_append:
  "delivers env ho mem pv p es q \<Longrightarrow> delivers env ho mem pv q fs r \<Longrightarrow> delivers env ho mem pv p (es @ fs) r"
  by (induction rule: delivers.induct) (auto intro: delivers_some)

lemma delivers_same_next:
  assumes "delivers env ho mem pv (ar, s) es q" "es \<noteq> []"
    and "sqsh_tree_traversal_next env ho mem pv ar t Ok = sqsh_tree_traversal_next env ho mem pv ar s Ok"
  shows "delivers env ho mem pv (ar, t) es q"
proof -
  obtain e es' where e: "es = e # es'" using assms(2) by (cases es) auto
  show ?thesis using assms(1) unfolding e
    by (rule delivers_someE) (use assms(3) in \<open>auto intro: delivers_some\<close>)
qed

lemma traverse_delivers:
  "delivers env ho mem pv p es q \<Longrightarrow> p = (ar, t) \<Longrightarrow> q = (ar', t') \<Longrightarrow>
   traverse n env ho mem pv ar' t' Ok = (rv, seen) \<Longrightarrow>
   traverse (length es + n) env ho mem pv ar t Ok = (rv, es @ seen)"
  by (induction arbitrary: ar t rule: delivers.induct) auto

section \<open>One step on a stored tree\<close>

text \<open>The stack while a directory is read.\<close>

definition reading where
  "reading env t st el \<longleftrightarrow> tt_stack t = st @ [el] \<and> tt_depth t = Suc (length st) \<and>
     tt_current_file t = Some (length st) \<and> tt_current_iterator t = Some (length st) \<and>
     (\<forall>e \<in> set st. entry_loaded env (te_iterator e))"

abbreviation names_of where
  "names_of env st \<equiv> map (\<lambda>e. entry_name env (te_iterator e)) st"

lemma path_segments_stack:
  assumes "tt_stack t = st @ ys" "tt_depth t = length st" "\<forall>e \<in> set st. entry_loaded env (te_iterator e)"
  shows "path_segments env t = names_of env st"
proof -
  have l: "entry_loaded env (te_iterator (tt_stack t ! i))" if "i < tt_depth t" for i
    using that assms by (simp add: nth_append)
  have "path_segments env t = entry_path env t" using entry_path_segments(1) l by blast
  also have "\<dots> = names_of env st"
    by (rule nth_equalityI) (simp_all add: entry_path_def assms(1,2) nth_append)
  finally show ?thesis .
qed

lemma next_is_file_next:
  assumes "file_next env ho mem pv ar t Ok = (True, rv, t', ar')"
    and "tt_state t = SQSH_TREE_TRAVERSAL_STATE_DIRECTORY_END \<or> tt_state t = SQSH_TREE_TRAVERSAL_STATE_FILE"
  shows "sqsh_tree_traversal_next env ho mem pv ar t Ok = (True, rv, t', ar')"
  using assms by (auto simp: sqsh_tree_traversal_next_def)

text \<open>The three outcomes: the end of the directory, an entry, and a directory that is entered.\<close>

lemma reading_end:
  assumes R: "reading env t st el" and E: "entries_left env se ee src ar (te_iterator el) []"
    and bt: "cx_buffer_total (env_buf env)" and mem: "\<forall>n. mem n" and d: "length st < 2 ^ 64 - 1"
  shows "file_next env ho mem pv ar t Ok = (True, Ok, t\<lparr>tt_stack := st, tt_depth := length st,
      tt_current_file := (if st = [] then None else Some (length st - 1)),
      tt_current_iterator := (if st = [] then None else Some (length st - 1)),
      tt_state := SQSH_TREE_TRAVERSAL_STATE_DIRECTORY_END\<rparr>, ar)"
proof -
  obtain b rv it where n: "sqsh_directory_iterator_next env mem (te_iterator el) = (b, rv, it)" by (rule prod_cases3)
  note N = entries_left_next(1,2) [OF E bt mem n]
  have w: "wrap_sub (Suc (length st)) 1 = length st" using d by (simp add: wrap_sub_def)
  show ?thesis using R n N w
    by (simp add: file_next_def reading_def Let_def set_iterator_def pop_stack_def nth_append butlast_append)
qed

lemma reading_entry:
  assumes R: "reading env t st el" and E: "entries_left env se ee src ar (te_iterator el) (e # es)"
    and bt: "cx_buffer_total (env_buf env)" and mem: "\<forall>n. mem n"
  obtains it where "entries_left env se ee src ar it es" "entry_loaded env it" "entry_name env it = en_name e"
    "sqsh_directory_iterator_inode_ref env it = en_inode_ref e"
    "file_next env ho mem pv ar t Ok =
      (let s = t\<lparr>tt_stack := st @ [el\<lparr>te_iterator := it\<rparr>]\<rparr>
       in if tt_depth t < tt_max_depth t \<and> en_type e = Some SQSH_FILE_TYPE_DIRECTORY
          then case push_stack env ho pv ar s of (rv, s, ar) \<Rightarrow> if rv \<noteq> Ok then (False, rv, s, ar) else (True, Ok, s, ar)
          else (True, Ok, s\<lparr>tt_state := SQSH_TREE_TRAVERSAL_STATE_FILE\<rparr>, ar))"
proof -
  obtain b rv it where n: "sqsh_directory_iterator_next env mem (te_iterator el) = (b, rv, it)" by (rule prod_cases3)
  note N = entries_left_next [OF E bt mem n]
  have b: b "rv = Ok" using N(1,2) by simp_all
  have I: "entries_left env se ee src ar it es" "current_entry env it = e" "entry_loaded env it"
    using N(3) [OF b(1)] by simp_all
  have "entry_name env it = en_name e" "sqsh_directory_iterator_inode_ref env it = en_inode_ref e"
    "sqsh_directory_iterator_file_type env it = en_type e"
    using I(2) entry_loaded_name(1) [OF I(3)] by (auto simp: current_entry_def sqsh_directory_iterator_name_def)
  moreover have "set_iterator (length st) it t = t\<lparr>tt_stack := st @ [el\<lparr>te_iterator := it\<rparr>]\<rparr>"
    using R by (simp add: set_iterator_def reading_def nth_append list_update_append)
  ultimately show thesis using that [OF I(1,3)] R n b
    by (simp add: file_next_def reading_def Let_def nth_append)
qed

lemma push_stack_stored:
  fixes ar :: "('u, 'c, 'b, 'e, 'x, 'h) sqsh_archive"
  assumes W: "readable env se ee src ho refs ar" and pv: "\<forall>n. pv n" and R: "reading env s st el"
    and ref: "sqsh_directory_iterator_inode_ref env (te_iterator el) = ref"
    and D: "directory_at env src ar refs ref es"
  obtains f ar' L where "push_stack env ho pv ar s = (Ok, s\<lparr>tt_stack := st @ [el, f],
      tt_current_file := Some (Suc (length st)), tt_state := SQSH_TREE_TRAVERSAL_STATE_DIRECTORY_BEGIN\<rparr>, ar')"
    "readable env se ee src ho refs ar'" "archive_core ar' = archive_core ar"
    "file_sane env se ee src ar' (te_file f)" "sqsh_file_inode_ref (te_file f) = ref"
    "directory_listing env src ar' (te_file f) L" "listing_entries L = es"
    "directory_address env ar' (te_file f) < length (ar_bytes src ar')"
proof -
  have W': "archive_inv env se ee src ar" "hash_map_safe ho" "hash_map_ok ho" "hash_map_total ho" "archive_live env src ar"
    "env_lock env = Ok" "map_agrees env ho refs ar" using W by (simp_all add: readable_def)
  obtain g ar' L where F: "sqsh__file_init env ho ar (te_file (zero_element env ar)) ref = (Ok, g, ar')"
    "file_sane env se ee src ar' g" "sqsh_file_inode_ref g = ref" "refs (sqsh_file_inode env g) = ref"
    "directory_address env ar g < length (ar_bytes src ar)" "directory_listing env src ar g L" "listing_entries L = es"
    "archive_inv env se ee src ar'" "archive_core ar' = archive_core ar" "map_agrees env ho refs ar'"
    by (rule stored_directory_init [OF W'(1-6) D W'(7)])
  let ?f = "(zero_element env ar)\<lparr>te_file := sqsh__file_set_parent_inode_ref g (sqsh_file_inode_ref (current_file s))\<rparr>"
  have e: "push_stack env ho pv ar s = (Ok, s\<lparr>tt_stack := st @ [el, ?f],
      tt_current_file := Some (Suc (length st)), tt_state := SQSH_TREE_TRAVERSAL_STATE_DIRECTORY_BEGIN\<rparr>, ar')"
    using R ref F(1) pv by (simp add: push_stack_def reading_def current_iterator_def nth_append Let_def)
  have l: "directory_listing env src ar' (te_file ?f) L = directory_listing env src ar g L"
    "directory_address env ar' (te_file ?f) = directory_address env ar g"
    using directory_listing_same(1) [of env "te_file ?f" g src ar' L] directory_listing_core(1) [OF F(9), of env src g L]
      directory_listing_same(2) [of env "te_file ?f" g ar'] directory_listing_core(2) [OF F(9), of env g]
    by (simp_all add: set_parent_same)
  show thesis
    by (rule that [OF e readable_core [OF W F(8,9,10)] F(9)])
      (use F l archive_coreD(4) [OF F(9), of src] in \<open>simp_all add: set_parent_same\<close>)
qed

text \<open>A directory that has been announced is opened, and its entries are to come.\<close>

lemma begin_stored:
  fixes ar :: "('u, 'c, 'b, 'e, 'x, 'h) sqsh_archive"
  assumes W: "readable env se ee src ho refs ar"
    and t: "tt_state t = SQSH_TREE_TRAVERSAL_STATE_DIRECTORY_BEGIN" "tt_stack t = st @ [el]" "tt_depth t = length st"
      "tt_current_file t = Some (length st)" "length st < 2 ^ 64 - 1"
    and f: "file_sane env se ee src ar (te_file el)" "directory_listing env src ar (te_file el) L"
      "directory_address env ar (te_file el) < length (ar_bytes src ar)"
    and new: "sqsh_file_inode_ref (te_file el) \<notin> (\<lambda>e. sqsh_file_inode_ref (te_file e)) ` set st"
  obtains it where "entries_left env se ee src ar it (listing_entries L)"
    "sqsh_tree_traversal_next env ho mem pv ar t Ok = file_next env ho mem pv ar
      (t\<lparr>tt_depth := Suc (length st), tt_current_iterator := Some (length st), tt_stack := st @ [el\<lparr>te_iterator := it\<rparr>]\<rparr>) Ok"
proof -
  obtain it where I: "sqsh__directory_iterator_init env ar (te_iterator el) (te_file el) = (Ok, it)"
    "entries_left env se ee src ar it (listing_entries L)"
    using stored_iterator_init [OF _ _ f] W by (metis readable_def)
  have w: "wrap_add (length st) 1 = Suc (length st)" using t(5) by (simp add: wrap_add_def)
  have c: "check_recursion (t\<lparr>tt_depth := Suc (length st)\<rparr>) = Ok"
  proof -
    have "sqsh_file_inode_ref (te_file x) \<noteq> sqsh_file_inode_ref (te_file el)" if "x \<in> set st" for x
      using new that by (metis image_eqI)
    then show ?thesis using t(2) by (auto simp: check_recursion_def Let_def nth_append list_ex_iff)
  qed
  have "directory_begin_next env ho mem pv ar t = file_next env ho mem pv ar
      (t\<lparr>tt_depth := Suc (length st), tt_current_iterator := Some (length st), tt_stack := st @ [el\<lparr>te_iterator := it\<rparr>]\<rparr>) Ok"
    using t(2-4) w c I(1)
    by (simp add: directory_begin_next_def Let_def current_file_def nth_append set_iterator_def list_update_append)
  then show thesis using that [OF I(2)] t(1) by (simp add: sqsh_tree_traversal_next_def)
qed

section \<open>A whole directory\<close>

text \<open>
  The state in which a directory that has been announced is left, and the entries that are delivered from the
  state in which \<open>file_next\<close> reads it.
\<close>

definition left_directory where
  "left_directory t st = t\<lparr>tt_stack := st, tt_depth := length st,
      tt_current_file := (if st = [] then None else Some (length st - 1)),
      tt_current_iterator := (if st = [] then None else Some (length st - 1)),
      tt_state := SQSH_TREE_TRAVERSAL_STATE_DIRECTORY_END\<rparr>"

definition refs_of where
  "refs_of st = (\<lambda>e. sqsh_file_inode_ref (te_file e)) ` set st"

definition going where
  "going t \<longleftrightarrow> tt_state t = SQSH_TREE_TRAVERSAL_STATE_DIRECTORY_END \<or> tt_state t = SQSH_TREE_TRAVERSAL_STATE_FILE"

lemma state_kept:
  "set_iterator i it (t\<lparr>tt_state := s\<rparr>) = (set_iterator i it t)\<lparr>tt_state := s\<rparr>"
  "pop_stack (t\<lparr>tt_state := s\<rparr>) = pop_stack t"
  "push_stack env ho pv ar (t\<lparr>tt_state := s\<rparr>) =
    (case push_stack env ho pv ar t of (rv, t', ar') \<Rightarrow> (rv, if rv = Ok then t' else t\<lparr>tt_state := s\<rparr>, ar'))"
  by (simp_all add: set_iterator_def pop_stack_def push_stack_def current_iterator_def current_file_def Let_def
      split: option.split prod.split)

lemma file_next_state:
  "file_next env ho mem pv ar t Ok = (True, rv, t', ar') \<Longrightarrow>
   file_next env ho mem pv ar (t\<lparr>tt_state := s\<rparr>) Ok = (True, rv, t', ar')"
  by (auto simp: file_next_def state_kept Let_def split: option.splits prod.splits if_splits)

lemma delivers_first:
  assumes "file_next env ho mem pv ar t Ok = (True, Ok, t', ar')" "going t" "delivers env ho mem pv (ar', t') es q"
  shows "delivers env ho mem pv (ar, t) ((tt_state t', path_segments env t') # es) q"
  using next_is_file_next [OF assms(1) assms(2) [unfolded going_def]] assms(3) by (rule delivers_some)

lemma begin_delivers:
  assumes "delivers env ho mem pv (ar, t2\<lparr>tt_state := SQSH_TREE_TRAVERSAL_STATE_FILE\<rparr>) es q" "es \<noteq> []"
    and "sqsh_tree_traversal_next env ho mem pv ar t1 Ok = file_next env ho mem pv ar t2 Ok"
  shows "delivers env ho mem pv (ar, t1) es q"
proof (rule delivers_same_next [OF assms(1,2)])
  let ?t2 = "t2\<lparr>tt_state := SQSH_TREE_TRAVERSAL_STATE_FILE\<rparr>"
  obtain rv t' ar' where x: "sqsh_tree_traversal_next env ho mem pv ar ?t2 Ok = (True, rv, t', ar')"
    using assms(1,2) by (cases rule: delivers.cases) auto
  then have "file_next env ho mem pv ar (t2\<lparr>tt_state := tt_state t2\<rparr>) Ok = (True, rv, t', ar')"
    using file_next_state [of env ho mem pv ar ?t2 rv t' ar' "tt_state t2"] by (simp add: sqsh_tree_traversal_next_def)
  then show "sqsh_tree_traversal_next env ho mem pv ar t1 Ok = sqsh_tree_traversal_next env ho mem pv ar ?t2 Ok"
    using assms(3) x by simp
qed

lemma reading_delivers:
  fixes ar :: "('u, 'c, 'b, 'e, 'x, 'h) sqsh_archive"
  assumes "readable env se ee src ho refs ar" "\<forall>n. mem n" "\<forall>n. pv n"
    and "tree_stored env src ar refs (refs_of (st @ [el])) tree"
    and "reading env t st el" "entries_left env se ee src ar (te_iterator el) (tree_entries tree)"
    and "going t" "length st < tt_max_depth t" "tt_max_depth t < 2 ^ 64"
  shows "\<exists>ar'. delivers env ho mem pv (ar, t) (tree_events (tt_max_depth t) (names_of env st) tree @
      [(SQSH_TREE_TRAVERSAL_STATE_DIRECTORY_END, names_of env st)]) (ar', left_directory t st) \<and>
    readable env se ee src ho refs ar' \<and> archive_core ar' = archive_core ar"
  using assms(1,4-9)
proof (induction tree arbitrary: ar t st el)
  case EntryEnd
  let ?t = "left_directory t st"
  have d: "length st < 2 ^ 64 - 1" using EntryEnd.prems(6,7) by linarith
  have "entries_left env se ee src ar (te_iterator el) []" using EntryEnd.prems(4) by simp
  then have "file_next env ho mem pv ar t Ok = (True, Ok, ?t, ar)"
    unfolding left_directory_def by (rule reading_end [OF EntryEnd.prems(3) _ readable_total [OF EntryEnd.prems(1)] assms(2) d])
  note D = delivers_first [OF this EntryEnd.prems(5) delivers_none]
  have "path_segments env ?t = names_of env st"
    using EntryEnd.prems(3) by (intro path_segments_stack [of _ _ "[]"]) (simp_all add: left_directory_def reading_def)
  then show ?case using D EntryEnd.prems(1) by (auto simp: left_directory_def)
next
  case (EntryFile e rest)
  note R = EntryFile.prems(3)
  have TS: "en_type e \<noteq> Some SQSH_FILE_TYPE_DIRECTORY" "tree_stored env src ar refs (refs_of (st @ [el])) rest"
    using EntryFile.prems(2) by simp_all
  obtain it where I: "entries_left env se ee src ar it (tree_entries rest)" "entry_loaded env it" "entry_name env it = en_name e"
    "sqsh_directory_iterator_inode_ref env it = en_inode_ref e"
    "file_next env ho mem pv ar t Ok = (let s = t\<lparr>tt_stack := st @ [el\<lparr>te_iterator := it\<rparr>]\<rparr>
       in if tt_depth t < tt_max_depth t \<and> en_type e = Some SQSH_FILE_TYPE_DIRECTORY
          then case push_stack env ho pv ar s of (rv, s, ar) \<Rightarrow> if rv \<noteq> Ok then (False, rv, s, ar) else (True, Ok, s, ar)
          else (True, Ok, s\<lparr>tt_state := SQSH_TREE_TRAVERSAL_STATE_FILE\<rparr>, ar))"
    by (rule reading_entry [OF R EntryFile.prems(4) [unfolded tree_entries.simps] readable_total [OF EntryFile.prems(1)] assms(2)])
  let ?el = "el\<lparr>te_iterator := it\<rparr>"
  let ?t = "t\<lparr>tt_stack := st @ [?el], tt_state := SQSH_TREE_TRAVERSAL_STATE_FILE\<rparr>"
  have n: "file_next env ho mem pv ar t Ok = (True, Ok, ?t, ar)" using I(5) TS(1) by (simp add: Let_def)
  have R': "reading env ?t st ?el" using R by (simp add: reading_def)
  have p: "path_segments env ?t = names_of env st @ [en_name e]"
    using R I(2,3) path_segments_stack [of ?t "st @ [?el]" "[]" env] by (simp add: reading_def)
  obtain ar' where D: "delivers env ho mem pv (ar, ?t) (tree_events (tt_max_depth ?t) (names_of env st) rest @
      [(SQSH_TREE_TRAVERSAL_STATE_DIRECTORY_END, names_of env st)]) (ar', left_directory ?t st)"
    "readable env se ee src ho refs ar'" "archive_core ar' = archive_core ar"
    using EntryFile.IH [OF EntryFile.prems(1) _ R'] I(1) TS(2) EntryFile.prems(6,7) by (auto simp: refs_of_def going_def)
  show ?case using delivers_first [OF n EntryFile.prems(5) D(1)] D(2,3) p
    by (auto simp: left_directory_def)
next
  case (EntryDirectory e sub rest)
  note R = EntryDirectory.prems(3) and W = EntryDirectory.prems(1)
  have TS: "en_type e = Some SQSH_FILE_TYPE_DIRECTORY" "en_inode_ref e \<notin> refs_of (st @ [el])"
    "directory_at env src ar refs (en_inode_ref e) (tree_entries sub)"
    "tree_stored env src ar refs (insert (en_inode_ref e) (refs_of (st @ [el]))) sub"
    "tree_stored env src ar refs (refs_of (st @ [el])) rest"
    using EntryDirectory.prems(2) by simp_all
  obtain it where I: "entries_left env se ee src ar it (tree_entries rest)" "entry_loaded env it" "entry_name env it = en_name e"
    "sqsh_directory_iterator_inode_ref env it = en_inode_ref e"
    "file_next env ho mem pv ar t Ok = (let s = t\<lparr>tt_stack := st @ [el\<lparr>te_iterator := it\<rparr>]\<rparr>
       in if tt_depth t < tt_max_depth t \<and> en_type e = Some SQSH_FILE_TYPE_DIRECTORY
          then case push_stack env ho pv ar s of (rv, s, ar) \<Rightarrow> if rv \<noteq> Ok then (False, rv, s, ar) else (True, Ok, s, ar)
          else (True, Ok, s\<lparr>tt_state := SQSH_TREE_TRAVERSAL_STATE_FILE\<rparr>, ar))"
    by (rule reading_entry [OF R EntryDirectory.prems(4) [unfolded tree_entries.simps] readable_total [OF W] assms(2)])
  let ?el = "el\<lparr>te_iterator := it\<rparr>" and ?p = "names_of env st @ [en_name e]" and ?m = "tt_max_depth t"
  have ld: "\<forall>e \<in> set (st @ [?el]). entry_loaded env (te_iterator e)" using R I(2) by (auto simp: reading_def)
  have names: "names_of env (st @ [?el]) = ?p" using I(3) by simp
  show ?case
  proof (cases "Suc (length st) < ?m")
    case False
    let ?t = "t\<lparr>tt_stack := st @ [?el], tt_state := SQSH_TREE_TRAVERSAL_STATE_FILE\<rparr>"
    have n: "file_next env ho mem pv ar t Ok = (True, Ok, ?t, ar)" using I(5) False R by (simp add: Let_def reading_def)
    have R': "reading env ?t st ?el" using R by (simp add: reading_def)
    have p: "path_segments env ?t = ?p"
      using R ld path_segments_stack [of ?t "st @ [?el]" "[]" env] names by (simp add: reading_def)
    obtain ar' where D: "delivers env ho mem pv (ar, ?t) (tree_events (tt_max_depth ?t) (names_of env st) rest @
        [(SQSH_TREE_TRAVERSAL_STATE_DIRECTORY_END, names_of env st)]) (ar', left_directory ?t st)"
      "readable env se ee src ho refs ar'" "archive_core ar' = archive_core ar"
      using EntryDirectory.IH(2) [OF W _ R'] I(1) TS(5) EntryDirectory.prems(6,7) by (auto simp: refs_of_def going_def)
    show ?thesis using delivers_first [OF n EntryDirectory.prems(5) D(1)] D(2,3) p False
      by (auto simp: left_directory_def)
  next
    case True
    let ?s = "t\<lparr>tt_stack := st @ [?el]\<rparr>"
    have Rs: "reading env ?s st ?el" using R by (simp add: reading_def)
    obtain g a1 L where P: "push_stack env ho pv ar ?s = (Ok, ?s\<lparr>tt_stack := st @ [?el, g],
        tt_current_file := Some (Suc (length st)), tt_state := SQSH_TREE_TRAVERSAL_STATE_DIRECTORY_BEGIN\<rparr>, a1)"
      "readable env se ee src ho refs a1" "archive_core a1 = archive_core ar"
      "file_sane env se ee src a1 (te_file g)" "sqsh_file_inode_ref (te_file g) = en_inode_ref e"
      "directory_listing env src a1 (te_file g) L" "listing_entries L = tree_entries sub"
      "directory_address env a1 (te_file g) < length (ar_bytes src a1)"
      using push_stack_stored [OF W assms(3) Rs _ TS(3)] I(4) by auto
    define t1 where "t1 = ?s\<lparr>tt_stack := st @ [?el, g], tt_current_file := Some (Suc (length st)),
        tt_state := SQSH_TREE_TRAVERSAL_STATE_DIRECTORY_BEGIN\<rparr>"
    have n: "file_next env ho mem pv ar t Ok = (True, Ok, t1, a1)"
      using I(5) True TS(1) R P(1) by (simp add: Let_def reading_def t1_def)
    have p1: "path_segments env t1 = ?p"
      using R ld path_segments_stack [of t1 "st @ [?el]" "[g]" env] names by (simp add: reading_def t1_def)
    have b: "length (st @ [?el]) < 2 ^ 64 - 1" using True EntryDirectory.prems(7) by simp
    have new: "sqsh_file_inode_ref (te_file g) \<notin> (\<lambda>e. sqsh_file_inode_ref (te_file e)) ` set (st @ [?el])"
      using TS(2) P(5) by (auto simp: refs_of_def)
    have T1: "tt_state t1 = SQSH_TREE_TRAVERSAL_STATE_DIRECTORY_BEGIN" "tt_stack t1 = (st @ [?el]) @ [g]"
      "tt_depth t1 = length (st @ [?el])" "tt_current_file t1 = Some (length (st @ [?el]))"
      using R by (simp_all add: t1_def reading_def)
    obtain jt where J: "entries_left env se ee src a1 jt (listing_entries L)"
      "sqsh_tree_traversal_next env ho mem pv a1 t1 Ok = file_next env ho mem pv a1
        (t1\<lparr>tt_depth := Suc (length (st @ [?el])), tt_current_iterator := Some (length (st @ [?el])),
           tt_stack := (st @ [?el]) @ [g\<lparr>te_iterator := jt\<rparr>]\<rparr>) Ok"
      by (rule begin_stored [OF P(2) T1 b P(4,6,8) new])
    let ?g = "g\<lparr>te_iterator := jt\<rparr>"
    define t2 where "t2 = t1\<lparr>tt_depth := Suc (length (st @ [?el])), tt_current_iterator := Some (length (st @ [?el])),
           tt_stack := (st @ [?el]) @ [?g]\<rparr>"
    let ?t2 = "t2\<lparr>tt_state := SQSH_TREE_TRAVERSAL_STATE_FILE\<rparr>"
    have R2: "reading env ?t2 (st @ [?el]) ?g" using ld by (simp add: reading_def t2_def t1_def)
    have "refs_of ((st @ [?el]) @ [?g]) = insert (en_inode_ref e) (refs_of (st @ [el]))"
      using P(5) by (auto simp: refs_of_def)
    then have TS2: "tree_stored env src a1 refs (refs_of ((st @ [?el]) @ [?g])) sub"
      using TS(4) by (simp add: tree_stored_core [OF P(3)])
    obtain a2 where D2: "delivers env ho mem pv (a1, ?t2) (tree_events (tt_max_depth ?t2) (names_of env (st @ [?el])) sub @
        [(SQSH_TREE_TRAVERSAL_STATE_DIRECTORY_END, names_of env (st @ [?el]))]) (a2, left_directory ?t2 (st @ [?el]))"
      "readable env se ee src ho refs a2" "archive_core a2 = archive_core a1"
      using EntryDirectory.IH(1) [OF P(2) TS2 R2] J(1) P(7) True EntryDirectory.prems(7)
      by (auto simp: going_def t2_def t1_def)
    let ?t3 = "left_directory ?t2 (st @ [?el])"
    have m2: "tt_max_depth ?t2 = ?m" by (simp add: t2_def t1_def)
    have D1: "delivers env ho mem pv (a1, t1) (tree_events ?m ?p sub @ [(SQSH_TREE_TRAVERSAL_STATE_DIRECTORY_END, ?p)]) (a2, ?t3)"
      using D2(1) unfolding m2 names by (rule begin_delivers) (simp_all add: J(2) t2_def)
    have R3: "reading env ?t3 st ?el" using R by (simp add: reading_def left_directory_def t2_def t1_def)
    have c: "archive_core a2 = archive_core ar" using D2(3) P(3) by simp
    obtain a3 where D3: "delivers env ho mem pv (a2, ?t3) (tree_events (tt_max_depth ?t3) (names_of env st) rest @
        [(SQSH_TREE_TRAVERSAL_STATE_DIRECTORY_END, names_of env st)]) (a3, left_directory ?t3 st)"
      "readable env se ee src ho refs a3" "archive_core a3 = archive_core a2"
      using EntryDirectory.IH(2) [OF D2(2) _ R3] I(1) TS(5) EntryDirectory.prems(6,7)
      by (auto simp: refs_of_def going_def left_directory_def t2_def t1_def tree_stored_core [OF c] entries_left_core [OF c])
    have "left_directory ?t3 st = left_directory t st" "tt_max_depth ?t3 = ?m"
      by (simp_all add: left_directory_def t2_def t1_def)
    then have "delivers env ho mem pv (ar, t) ((tt_state t1, ?p) # (tree_events ?m ?p sub @
        [(SQSH_TREE_TRAVERSAL_STATE_DIRECTORY_END, ?p)]) @ (tree_events ?m (names_of env st) rest @
        [(SQSH_TREE_TRAVERSAL_STATE_DIRECTORY_END, names_of env st)])) (a3, left_directory t st)"
      using delivers_first [OF n EntryDirectory.prems(5) delivers_append [OF D1 D3(1)]] p1 by simp
    then show ?thesis using D3(2,3) c True by (auto simp: t1_def)
  qed
qed

section \<open>The whole traversal\<close>

lemma traversal_init_stored:
  fixes ar :: "('u, 'c, 'b, 'e, 'x, 'h) sqsh_archive"
  assumes W: "readable env se ee src ho refs ar" and pv: "\<forall>n. pv n"
    and f: "sqsh_file_inode_ref file = ref"
    and D: "directory_at env src ar refs ref es"
  obtains el ar' L where "sqsh__tree_traversal_init env ho pv ar file = (Ok, Some \<lparr>tt_stack = [el], tt_depth = 0,
      tt_max_depth = SIZE_MAX, tt_base_file = file, tt_current_file = Some 0, tt_current_iterator = None,
      tt_state = SQSH_TREE_TRAVERSAL_STATE_INIT\<rparr>, ar')"
    "readable env se ee src ho refs ar'" "archive_core ar' = archive_core ar"
    "file_sane env se ee src ar' (te_file el)" "sqsh_file_inode_ref (te_file el) = ref"
    "directory_listing env src ar' (te_file el) L" "listing_entries L = es"
    "directory_address env ar' (te_file el) < length (ar_bytes src ar')"
proof -
  have W': "archive_inv env se ee src ar" "hash_map_safe ho" "hash_map_ok ho" "hash_map_total ho" "archive_live env src ar"
    "env_lock env = Ok" "map_agrees env ho refs ar" using W by (simp_all add: readable_def)
  obtain g ar' L where F: "sqsh__file_init env ho ar (te_file (zero_element env ar)) ref = (Ok, g, ar')"
    "file_sane env se ee src ar' g" "sqsh_file_inode_ref g = ref" "refs (sqsh_file_inode env g) = ref"
    "directory_address env ar g < length (ar_bytes src ar)" "directory_listing env src ar g L" "listing_entries L = es"
    "archive_inv env se ee src ar'" "archive_core ar' = archive_core ar" "map_agrees env ho refs ar'"
    by (rule stored_directory_init [OF W'(1-6) D W'(7)])
  let ?el = "(zero_element env ar)\<lparr>te_file := sqsh__file_set_parent_inode_ref g (fl_parent_inode_ref file)\<rparr>"
  have e: "sqsh__tree_traversal_init env ho pv ar file = (Ok, Some \<lparr>tt_stack = [?el], tt_depth = 0,
      tt_max_depth = SIZE_MAX, tt_base_file = file, tt_current_file = Some 0, tt_current_iterator = None,
      tt_state = SQSH_TREE_TRAVERSAL_STATE_INIT\<rparr>, ar')"
    using F(1) pv f by (simp add: sqsh__tree_traversal_init_def Let_def)
  have l: "directory_listing env src ar' (te_file ?el) L = directory_listing env src ar g L"
    "directory_address env ar' (te_file ?el) = directory_address env ar g"
    using directory_listing_same(1) [of env "te_file ?el" g src ar' L] directory_listing_core(1) [OF F(9), of env src g L]
      directory_listing_same(2) [of env "te_file ?el" g ar'] directory_listing_core(2) [OF F(9), of env g]
    by (simp_all add: set_parent_same)
  show thesis
    by (rule that [OF e readable_core [OF W F(8,9,10)] F(9)])
      (use F l archive_coreD(4) [OF F(9), of src] in \<open>simp_all add: set_parent_same\<close>)
qed

lemma traversal_delivers:
  fixes ar :: "('u, 'c, 'b, 'e, 'x, 'h) sqsh_archive"
  assumes W: "readable env se ee src ho refs ar" and mem: "\<forall>n. mem n" and pv: "\<forall>n. pv n"
    and f: "sqsh_file_inode_ref file = ref" "sqsh_file_type env file = Some SQSH_FILE_TYPE_DIRECTORY"
    and D: "directory_at env src ar refs ref (tree_entries tree)" "tree_stored env src ar refs {ref} tree"
    and m: "0 < m" "m < 2 ^ 64"
  shows "\<exists>t ar' t' ar''. sqsh__tree_traversal_init env ho pv ar file = (Ok, Some t, ar') \<and>
    delivers env ho mem pv (ar', sqsh_tree_traversal_set_max_depth t m)
      ((SQSH_TREE_TRAVERSAL_STATE_DIRECTORY_BEGIN, []) # tree_events m [] tree @ [(SQSH_TREE_TRAVERSAL_STATE_DIRECTORY_END, [])])
      (ar'', t') \<and> tt_state t' = SQSH_TREE_TRAVERSAL_STATE_DIRECTORY_END \<and> tt_current_iterator t' = None"
proof -
  obtain el ar' L where I: "sqsh__tree_traversal_init env ho pv ar file = (Ok, Some \<lparr>tt_stack = [el], tt_depth = 0,
      tt_max_depth = SIZE_MAX, tt_base_file = file, tt_current_file = Some 0, tt_current_iterator = None,
      tt_state = SQSH_TREE_TRAVERSAL_STATE_INIT\<rparr>, ar')"
    "readable env se ee src ho refs ar'" "archive_core ar' = archive_core ar"
    "file_sane env se ee src ar' (te_file el)" "sqsh_file_inode_ref (te_file el) = ref"
    "directory_listing env src ar' (te_file el) L" "listing_entries L = tree_entries tree"
    "directory_address env ar' (te_file el) < length (ar_bytes src ar')"
    by (rule traversal_init_stored [OF W pv f(1) D(1)])
  define t0 where "t0 = \<lparr>tt_stack = [el], tt_depth = 0, tt_max_depth = m, tt_base_file = file, tt_current_file = Some 0,
      tt_current_iterator = None, tt_state = SQSH_TREE_TRAVERSAL_STATE_INIT\<rparr>"
  define t1 where "t1 = t0\<lparr>tt_state := SQSH_TREE_TRAVERSAL_STATE_DIRECTORY_BEGIN\<rparr>"
  have n0: "sqsh_tree_traversal_next env ho mem pv ar' t0 Ok = (True, Ok, t1, ar')"
    using f(2) m(1) by (simp add: sqsh_tree_traversal_next_def init_next_def t0_def t1_def)
  have p1: "path_segments env t1 = []" by (simp add: path_segments_def t1_def t0_def)
  obtain it where J: "entries_left env se ee src ar' it (listing_entries L)"
    "sqsh_tree_traversal_next env ho mem pv ar' t1 Ok = file_next env ho mem pv ar'
      (t1\<lparr>tt_depth := Suc (length []), tt_current_iterator := Some (length []), tt_stack := [] @ [el\<lparr>te_iterator := it\<rparr>]\<rparr>) Ok"
    by (rule begin_stored [OF I(2) _ _ _ _ _ I(4,6,8), where st = "[]" and t = t1 and mem = mem and pv = pv])
      (simp_all add: t1_def t0_def)
  define t2 where "t2 = t1\<lparr>tt_depth := Suc (length []), tt_current_iterator := Some (length []),
      tt_stack := [] @ [el\<lparr>te_iterator := it\<rparr>]\<rparr>"
  let ?t2 = "t2\<lparr>tt_state := SQSH_TREE_TRAVERSAL_STATE_FILE\<rparr>" and ?el = "el\<lparr>te_iterator := it\<rparr>"
  have R: "reading env ?t2 [] ?el" by (simp add: reading_def t2_def t1_def t0_def)
  have TS: "tree_stored env src ar' refs (refs_of ([] @ [?el])) tree"
    using D(2) I(5) by (simp add: refs_of_def tree_stored_core [OF I(3)])
  have M: "tt_max_depth ?t2 = m" by (simp add: t2_def t1_def t0_def)
  obtain a where "delivers env ho mem pv (ar', ?t2) (tree_events m [] tree @
      [(SQSH_TREE_TRAVERSAL_STATE_DIRECTORY_END, [])]) (a, left_directory ?t2 [])"
    using reading_delivers [OF I(2) mem pv TS R] J(1) I(7) m M by (auto simp: going_def)
  then have "delivers env ho mem pv (ar', t1) (tree_events m [] tree @ [(SQSH_TREE_TRAVERSAL_STATE_DIRECTORY_END, [])])
    (a, left_directory ?t2 [])"
    by (rule begin_delivers) (simp_all add: J(2) t2_def)
  from delivers_some [OF n0 this] have "delivers env ho mem pv (ar', t0) ((SQSH_TREE_TRAVERSAL_STATE_DIRECTORY_BEGIN, []) #
      tree_events m [] tree @ [(SQSH_TREE_TRAVERSAL_STATE_DIRECTORY_END, [])]) (a, left_directory ?t2 [])"
    unfolding p1 by (simp add: t1_def)
  then show ?thesis using I(1)
    by (intro exI conjI) (auto simp: sqsh_tree_traversal_set_max_depth_def t0_def left_directory_def)
qed

text \<open>
  C5. A traversal delivers the whole tree: on an archive in order that holds the tree, with memory available,
  the loop over \<^verbatim>\<open>sqsh_tree_traversal_next\<close> goes through the tree in preorder, with the path of every entry; every
  directory less deep than the given depth is delivered twice, before and after what is in it, and
  deeper directories once, like files; and at the end the loop stops without an error.
\<close>

theorem traversal_preorder:
  assumes "readable env se ee src ho refs ar" "\<forall>n. mem n" "\<forall>n. pv n"
    and "sqsh_file_inode_ref file = ref" "sqsh_file_type env file = Some SQSH_FILE_TYPE_DIRECTORY"
    and "directory_at env src ar refs ref (tree_entries tree)" "tree_stored env src ar refs {ref} tree"
    and "0 < m" "m < 2 ^ 64"
  shows "\<exists>t ar'. sqsh__tree_traversal_init env ho pv ar file = (Ok, Some t, ar') \<and>
    traverse (length (tree_events m [] tree) + 3) env ho mem pv ar' (sqsh_tree_traversal_set_max_depth t m) Ok =
      (Ok, (SQSH_TREE_TRAVERSAL_STATE_DIRECTORY_BEGIN, []) # tree_events m [] tree @
        [(SQSH_TREE_TRAVERSAL_STATE_DIRECTORY_END, [])])"
proof -
  let ?es = "(SQSH_TREE_TRAVERSAL_STATE_DIRECTORY_BEGIN, []) # tree_events m [] tree @
        [(SQSH_TREE_TRAVERSAL_STATE_DIRECTORY_END, [])]"
  obtain t ar' t' a where D: "sqsh__tree_traversal_init env ho pv ar file = (Ok, Some t, ar')"
    "delivers env ho mem pv (ar', sqsh_tree_traversal_set_max_depth t m) ?es (a, t')"
    "tt_state t' = SQSH_TREE_TRAVERSAL_STATE_DIRECTORY_END" "tt_current_iterator t' = None"
    using traversal_delivers [OF assms] by blast
  have "traverse 1 env ho mem pv a t' Ok = (Ok, [])"
    using D(3,4) by (simp add: sqsh_tree_traversal_next_def file_next_def)
  from traverse_delivers [OF D(2) refl refl this] show ?thesis using D(1) by (auto simp: eval_nat_numeral)
qed

theorem traversal_preorder_witness:
  "\<exists>f ar t ar'. sqsh_open_by_ref tiny_env list_hash_map tiny_tree_mapped 0 = (Ok, Some f, ar) \<and>
    sqsh__tree_traversal_init tiny_env list_hash_map (\<lambda>_. True) ar f = (Ok, Some t, ar') \<and>
    traverse 7 tiny_env list_hash_map (\<lambda>_. True) (\<lambda>_. True) ar' (sqsh_tree_traversal_set_max_depth t 5) Ok = (Ok,
      [(SQSH_TREE_TRAVERSAL_STATE_DIRECTORY_BEGIN, []), (SQSH_TREE_TRAVERSAL_STATE_DIRECTORY_BEGIN, [[100]]),
       (SQSH_TREE_TRAVERSAL_STATE_FILE, [[100], [112]]), (SQSH_TREE_TRAVERSAL_STATE_DIRECTORY_END, [[100]]),
       (SQSH_TREE_TRAVERSAL_STATE_FILE, [[108]]), (SQSH_TREE_TRAVERSAL_STATE_DIRECTORY_END, [])])"
proof -
  obtain f ar where F: "sqsh_open_by_ref tiny_env list_hash_map tiny_tree_mapped 0 = (Ok, Some f, ar)"
    "sqsh_file_inode_ref f = 0" "sqsh_file_type tiny_env f = Some SQSH_FILE_TYPE_DIRECTORY"
    "readable tiny_env alist_entries alist_entries (\<lambda>u. u) list_hash_map tiny_refs ar"
    "directory_at tiny_env (\<lambda>u. u) ar tiny_refs 0 (tree_entries tiny_tree)"
    "tree_stored tiny_env (\<lambda>u. u) ar tiny_refs {0} tiny_tree"
    by (rule tiny_root_file)
  have e: "tree_events 5 [] tiny_tree = [(SQSH_TREE_TRAVERSAL_STATE_DIRECTORY_BEGIN, [[100]]),
       (SQSH_TREE_TRAVERSAL_STATE_FILE, [[100], [112]]), (SQSH_TREE_TRAVERSAL_STATE_DIRECTORY_END, [[100]]),
       (SQSH_TREE_TRAVERSAL_STATE_FILE, [[108]])]"
    by (simp add: tiny_tree_def)
  show ?thesis
    using traversal_preorder [OF F(4) _ _ F(2,3,5,6), of "\<lambda>_. True" "\<lambda>_. True" 5] F(1) by (auto simp: e)
qed

text \<open>A run that delivers is a sequence of steps, and its last entry is the one the traversal stands on.\<close>

lemma delivers_steps: "delivers env ho mem pv p es q \<Longrightarrow> (traversal_step env ho mem pv)\<^sup>*\<^sup>* p q"
proof (induction rule: delivers.induct)
  case (delivers_some ar t t' ar' es q)
  have "traversal_step env ho mem pv (ar, t) (ar', t')" by (rule traversal_step.intros [OF delivers_some.hyps(1)]) simp
  then show ?case using delivers_some.IH by (rule converse_rtranclp_into_rtranclp)
qed simp

lemma delivers_split: "delivers env ho mem pv p (es @ fs) q \<Longrightarrow> \<exists>r. delivers env ho mem pv p es r \<and> delivers env ho mem pv r fs q"
proof (induction es arbitrary: p)
  case Nil
  then show ?case by (cases p) (auto intro: delivers_none)
next
  case (Cons e es)
  obtain ar t where p: "p = (ar, t)" by (cases p)
  from Cons.prems [unfolded p] show ?case unfolding p
    by (simp del: split_paired_Ex) (erule delivers_someE, use Cons.IH in \<open>blast intro: delivers_some\<close>)
qed

lemma delivers_last: "delivers env ho mem pv p (es @ [e]) (ar, t) \<Longrightarrow> e = (tt_state t, path_segments env t)"
proof -
  assume "delivers env ho mem pv p (es @ [e]) (ar, t)"
  then obtain ar0 t0 where "delivers env ho mem pv (ar0, t0) [e] (ar, t)" using delivers_split by (metis surj_pair)
  then show ?thesis
  proof (rule delivers_someE)
    fix t' ar'
    assume e: "e = (tt_state t', path_segments env t')" and d: "delivers env ho mem pv (ar', t') [] (ar, t)"
    from d have "t' = t" by (cases rule: delivers.cases) simp_all
    then show ?thesis using e by simp
  qed
qed

theorem traversal_steps_safe_witness:
  "\<exists>f ar t ar' ar1 t1. sqsh_open_by_ref tiny_env list_hash_map tiny_tree_mapped 0 = (Ok, Some f, ar) \<and>
    sqsh__tree_traversal_init tiny_env list_hash_map (\<lambda>_. True) ar f = (Ok, Some t, ar') \<and>
    (traversal_step tiny_env list_hash_map (\<lambda>_. True) (\<lambda>_. True))\<^sup>*\<^sup>*
      (ar', sqsh_tree_traversal_set_max_depth t 5) (ar1, t1) \<and> tt_depth t1 = 2 \<and>
    sqsh_tree_traversal_path_dup tiny_env (\<lambda>_. True) t1 = (Ok, Some [100, 47, 112, 0])"
proof -
  obtain f ar where F: "sqsh_open_by_ref tiny_env list_hash_map tiny_tree_mapped 0 = (Ok, Some f, ar)"
    "file_sane tiny_env alist_entries alist_entries (\<lambda>u. u) ar f" "sqsh_file_inode_ref f = 0"
    "sqsh_file_type tiny_env f = Some SQSH_FILE_TYPE_DIRECTORY"
    "readable tiny_env alist_entries alist_entries (\<lambda>u. u) list_hash_map tiny_refs ar"
    "directory_at tiny_env (\<lambda>u. u) ar tiny_refs 0 (tree_entries tiny_tree)"
    "tree_stored tiny_env (\<lambda>u. u) ar tiny_refs {0} tiny_tree"
    by (rule tiny_root_file)
  obtain t ar' t' a where D: "sqsh__tree_traversal_init tiny_env list_hash_map (\<lambda>_. True) ar f = (Ok, Some t, ar')"
    "delivers tiny_env list_hash_map (\<lambda>_. True) (\<lambda>_. True) (ar', sqsh_tree_traversal_set_max_depth t 5)
      ((SQSH_TREE_TRAVERSAL_STATE_DIRECTORY_BEGIN, []) # tree_events 5 [] tiny_tree @
        [(SQSH_TREE_TRAVERSAL_STATE_DIRECTORY_END, [])]) (a, t')"
    using traversal_delivers [OF F(5) _ _ F(3,4,6,7), of "\<lambda>_. True" "\<lambda>_. True" 5] by auto
  have "(SQSH_TREE_TRAVERSAL_STATE_DIRECTORY_BEGIN, []) # tree_events 5 [] tiny_tree @
        [(SQSH_TREE_TRAVERSAL_STATE_DIRECTORY_END, [])] =
      ([(SQSH_TREE_TRAVERSAL_STATE_DIRECTORY_BEGIN, []), (SQSH_TREE_TRAVERSAL_STATE_DIRECTORY_BEGIN, [[100]])] @
       [(SQSH_TREE_TRAVERSAL_STATE_FILE, [[100], [112]])]) @ [(SQSH_TREE_TRAVERSAL_STATE_DIRECTORY_END, [[100]]),
       (SQSH_TREE_TRAVERSAL_STATE_FILE, [[108]]), (SQSH_TREE_TRAVERSAL_STATE_DIRECTORY_END, [])]"
    by (simp add: tiny_tree_def)
  from delivers_split [OF D(2) [unfolded this]] obtain ar1 t1 where
    R: "delivers tiny_env list_hash_map (\<lambda>_. True) (\<lambda>_. True) (ar', sqsh_tree_traversal_set_max_depth t 5)
      ([(SQSH_TREE_TRAVERSAL_STATE_DIRECTORY_BEGIN, []), (SQSH_TREE_TRAVERSAL_STATE_DIRECTORY_BEGIN, [[100]])] @
       [(SQSH_TREE_TRAVERSAL_STATE_FILE, [[100], [112]])]) (ar1, t1)" by auto
  have inv: "archive_inv tiny_env alist_entries alist_entries (\<lambda>u. u) ar" "safe_rv (env_lock tiny_env)"
    using F(5) by (simp_all add: readable_def)
  have ref: "sqsh_file_inode_ref f < 2 ^ 64" by (simp add: F(3))
  note S = traversal_steps_safe [OF inv tiny_hash_map F(2) ref D(1) delivers_steps [OF R]]
  have "path_segments tiny_env t1 = [[100], [112]]" using delivers_last [OF R] by simp
  then have "tt_depth t1 = 2"
    "sqsh_tree_traversal_path_dup tiny_env (\<lambda>_. True) t1 = (Ok, Some [100, 47, 112, 0])" using S by auto
  then show ?thesis using F(1) D(1) delivers_steps [OF R] by blast
qed

theorem traversal_ends_witness:
  "\<exists>f ar t ar' n. sqsh_open_by_ref tiny_env list_hash_map tiny_tree_mapped 0 = (Ok, Some f, ar) \<and>
    sqsh__tree_traversal_init tiny_env list_hash_map (\<lambda>_. True) ar f = (Ok, Some t, ar') \<and>
    fst (traverse n tiny_env list_hash_map (\<lambda>_. False) (\<lambda>_. True) ar' (sqsh_tree_traversal_set_max_depth t 1) Ok)
      \<notin> {Diverge, Fault}"
proof -
  obtain f ar where F: "sqsh_open_by_ref tiny_env list_hash_map tiny_tree_mapped 0 = (Ok, Some f, ar)"
    "file_sane tiny_env alist_entries alist_entries (\<lambda>u. u) ar f" "sqsh_file_inode_ref f = 0"
    "sqsh_file_type tiny_env f = Some SQSH_FILE_TYPE_DIRECTORY"
    "readable tiny_env alist_entries alist_entries (\<lambda>u. u) list_hash_map tiny_refs ar"
    "directory_at tiny_env (\<lambda>u. u) ar tiny_refs 0 (tree_entries tiny_tree)"
    by (rule tiny_root_file)
  obtain t ar' where I: "sqsh__tree_traversal_init tiny_env list_hash_map (\<lambda>_. True) ar f = (Ok, Some t, ar')"
    by (rule traversal_init_stored [OF F(5) _ F(3,6), of "\<lambda>_. True"]) simp_all
  have inv: "archive_inv tiny_env alist_entries alist_entries (\<lambda>u. u) ar" "safe_rv (env_lock tiny_env)"
    using F(5) by (simp_all add: readable_def)
  have ref: "sqsh_file_inode_ref f < 2 ^ 64" by (simp add: F(3))
  show ?thesis using traversal_ends [OF inv tiny_hash_map F(2) ref I] F(1) I by blast
qed

end
