(* ===== verification/Sqsh_Mksqsh.thy ===== *)
theory Sqsh_Mksqsh
  imports Sqsh_Archive
begin

unbundle bit_operations_syntax

text \<open>
  The archive builder (\<^verbatim>\<open>libmksqsh/\<close>): the superblock builder
  (\<^verbatim>\<open>archive/superblock_builder.c\<close>) and the metablock builder (\<^verbatim>\<open>metablock/metablock_builder.c\<close>).
  What they write is read back by the library's own definitions: the refinement
  \<open>superblock_values_call\<close> states every setter as an update of one field of \<open>superblock_values\<close>,
  \<open>metablock_chain\<close> of what the metablock builder wrote is the data in blocks of 8 KiB.

  Both write with \<^verbatim>\<open>fwrite\<close>, an argument here: \<open>fo_write fo xs f\<close> is \<^verbatim>\<open>fwrite(xs, length xs, 1, f)\<close>,
  its result and the stream after it, \<open>fo_bytes\<close> what the stream has received so far. A write
  that fails may have delivered a part of the bytes. The memory of a builder is not
  initialised before \<^verbatim>\<open>mksqsh__superblock_init\<close>, which sets only some fields: a builder starts as
  any 96 bytes and any flags.
\<close>

section \<open>Output streams\<close>

record 'f file_ops =
  fo_write :: "byte list \<Rightarrow> 'f \<Rightarrow> nat \<times> 'f"
  fo_bytes :: "'f \<Rightarrow> byte list"

definition file_ops_ok :: "'f file_ops \<Rightarrow> bool" where
  "file_ops_ok fo \<longleftrightarrow>
     (\<forall>xs f n f'. xs \<noteq> [] \<longrightarrow> fo_write fo xs f = (n, f') \<longrightarrow>
        (\<exists>k. fo_bytes fo f' = fo_bytes fo f @ take k xs) \<and>
        (n = 0 \<or> n = 1 \<and> fo_bytes fo f' = fo_bytes fo f @ xs))"

lemma fwrite_result:
  assumes "file_ops_ok fo" "fo_write fo xs f = (n, f')" "xs \<noteq> []"
  shows "n = 1 \<Longrightarrow> fo_bytes fo f' = fo_bytes fo f @ xs"
    and "\<exists>k. fo_bytes fo f' = fo_bytes fo f @ take k xs"
proof -
  have "(\<exists>k. fo_bytes fo f' = fo_bytes fo f @ take k xs) \<and>
      (n = 0 \<or> n = 1 \<and> fo_bytes fo f' = fo_bytes fo f @ xs)"
    using assms by (simp add: file_ops_ok_def)
  then show "n = 1 \<Longrightarrow> fo_bytes fo f' = fo_bytes fo f @ xs"
    and "\<exists>k. fo_bytes fo f' = fo_bytes fo f @ take k xs" by auto
qed

section \<open>The superblock builder\<close>

definition SQSH_SUPERBLOCK_UNCOMPRESSED_INODES :: "16 word" where
  "SQSH_SUPERBLOCK_UNCOMPRESSED_INODES = 0x0001"
definition SQSH_SUPERBLOCK_UNCOMPRESSED_DATA :: "16 word" where
  "SQSH_SUPERBLOCK_UNCOMPRESSED_DATA = 0x0002"
definition SQSH_SUPERBLOCK_UNCOMPRESSED_FRAGMENTS :: "16 word" where
  "SQSH_SUPERBLOCK_UNCOMPRESSED_FRAGMENTS = 0x0008"
definition SQSH_SUPERBLOCK_ALWAYS_FRAGMENTS :: "16 word" where
  "SQSH_SUPERBLOCK_ALWAYS_FRAGMENTS = 0x0020"
definition SQSH_SUPERBLOCK_DUPLICATES :: "16 word" where
  "SQSH_SUPERBLOCK_DUPLICATES = 0x0040"
definition SQSH_SUPERBLOCK_UNCOMPRESSED_XATTRS :: "16 word" where
  "SQSH_SUPERBLOCK_UNCOMPRESSED_XATTRS = 0x0100"

definition UINT64_MAX :: nat where "UINT64_MAX = 2 ^ 64 - 1"

record MksqshSuperblock =
  ms_data :: "byte list"
  ms_flags :: "16 word"

text \<open>The table of block sizes; the loop looks for the index of the size.\<close>

definition block_sizes :: "nat list" where
  "block_sizes = [4096, 8192, 16384, 32768, 65536, 131072, 262144, 524288, 1048576]"

fun block_size_log_from :: "nat \<Rightarrow> nat list \<Rightarrow> nat \<Rightarrow> nat option" where
  "block_size_log_from i [] block_size = None"
| "block_size_log_from i (s # ss) block_size =
     (if s = block_size then Some (i + 12) else block_size_log_from (Suc i) ss block_size)"

definition block_size_log :: "nat \<Rightarrow> nat option" where
  "block_size_log block_size = block_size_log_from 0 block_sizes block_size"

definition mksqsh__superblock_block_size ::
  "MksqshSuperblock \<Rightarrow> nat \<Rightarrow> rv \<times> MksqshSuperblock" where
  "mksqsh__superblock_block_size sb block_size =
     (if block_size < 4096 \<or> 1048576 < block_size then (Err SQSH_ERROR_BLOCKSIZE_MISMATCH, sb)
      else if block_size AND (block_size - 1) \<noteq> 0 then (Err SQSH_ERROR_BLOCKSIZE_MISMATCH, sb)
      else let sb = sb\<lparr>ms_data := sqsh__data_superblock_block_size_set (ms_data sb) block_size\<rparr>
           in case block_size_log block_size of
                None \<Rightarrow> (Err SQSH_ERROR_BLOCKSIZE_MISMATCH, sb)
              | Some log2_block_size \<Rightarrow>
                  (Ok, sb\<lparr>ms_data := sqsh__data_superblock_block_log_set (ms_data sb) log2_block_size\<rparr>))"

definition mksqsh__superblock_init :: "MksqshSuperblock \<Rightarrow> rv \<times> MksqshSuperblock" where
  "mksqsh__superblock_init sb =
     (let sb = sb\<lparr>ms_data := sqsh__data_superblock_magic_set (ms_data sb) SQSH_SUPERBLOCK_MAGIC\<rparr>;
          sb = sb\<lparr>ms_data := sqsh__data_superblock_version_major_set (ms_data sb) 4\<rparr>;
          sb = sb\<lparr>ms_data := sqsh__data_superblock_version_minor_set (ms_data sb) 0\<rparr>
      in mksqsh__superblock_block_size sb 4096)"

definition mksqsh__superblock_modification_time ::
  "MksqshSuperblock \<Rightarrow> nat \<Rightarrow> rv \<times> MksqshSuperblock" where
  "mksqsh__superblock_modification_time sb mtime =
     (Ok, sb\<lparr>ms_data := sqsh__data_superblock_modification_time_set (ms_data sb) mtime\<rparr>)"

definition mksqsh__superblock_fragment_count ::
  "MksqshSuperblock \<Rightarrow> nat \<Rightarrow> rv \<times> MksqshSuperblock" where
  "mksqsh__superblock_fragment_count sb fragment_count =
     (Ok, sb\<lparr>ms_data := sqsh__data_superblock_fragment_entry_count_set (ms_data sb) fragment_count\<rparr>)"

definition mksqsh__superblock_compression_id ::
  "MksqshSuperblock \<Rightarrow> nat \<Rightarrow> rv \<times> MksqshSuperblock" where
  "mksqsh__superblock_compression_id sb compression_id =
     (Ok, sb\<lparr>ms_data := sqsh__data_superblock_compression_id_set (ms_data sb) compression_id\<rparr>)"

definition mksqsh__superblock_compress_inodes ::
  "MksqshSuperblock \<Rightarrow> bool \<Rightarrow> rv \<times> MksqshSuperblock" where
  "mksqsh__superblock_compress_inodes sb compress_inodes =
     (if compress_inodes
      then (Ok, sb\<lparr>ms_flags := ms_flags sb AND NOT SQSH_SUPERBLOCK_UNCOMPRESSED_INODES\<rparr>)
      else (Ok, sb\<lparr>ms_flags := ms_flags sb OR SQSH_SUPERBLOCK_UNCOMPRESSED_INODES\<rparr>))"

definition mksqsh__superblock_compress_data ::
  "MksqshSuperblock \<Rightarrow> bool \<Rightarrow> rv \<times> MksqshSuperblock" where
  "mksqsh__superblock_compress_data sb compress_data =
     (if compress_data
      then (Ok, sb\<lparr>ms_flags := ms_flags sb AND NOT SQSH_SUPERBLOCK_UNCOMPRESSED_DATA\<rparr>)
      else (Ok, sb\<lparr>ms_flags := ms_flags sb OR SQSH_SUPERBLOCK_UNCOMPRESSED_DATA\<rparr>))"

definition mksqsh__superblock_compress_fragments ::
  "MksqshSuperblock \<Rightarrow> bool \<Rightarrow> rv \<times> MksqshSuperblock" where
  "mksqsh__superblock_compress_fragments sb compress_fragments =
     (if compress_fragments
      then (Ok, sb\<lparr>ms_flags := ms_flags sb AND NOT SQSH_SUPERBLOCK_UNCOMPRESSED_FRAGMENTS\<rparr>)
      else (Ok, sb\<lparr>ms_flags := ms_flags sb OR SQSH_SUPERBLOCK_UNCOMPRESSED_FRAGMENTS\<rparr>))"

text \<open>As the source has it: forcing fragments clears the flag.\<close>

definition mksqsh__superblock_force_fragments ::
  "MksqshSuperblock \<Rightarrow> bool \<Rightarrow> rv \<times> MksqshSuperblock" where
  "mksqsh__superblock_force_fragments sb force_fragments =
     (if force_fragments
      then (Ok, sb\<lparr>ms_flags := ms_flags sb AND NOT SQSH_SUPERBLOCK_ALWAYS_FRAGMENTS\<rparr>)
      else (Ok, sb\<lparr>ms_flags := ms_flags sb OR SQSH_SUPERBLOCK_ALWAYS_FRAGMENTS\<rparr>))"

definition mksqsh__superblock_deduplicate ::
  "MksqshSuperblock \<Rightarrow> bool \<Rightarrow> rv \<times> MksqshSuperblock" where
  "mksqsh__superblock_deduplicate sb deduplicate =
     (if deduplicate
      then (Ok, sb\<lparr>ms_flags := ms_flags sb OR SQSH_SUPERBLOCK_DUPLICATES\<rparr>)
      else (Ok, sb\<lparr>ms_flags := ms_flags sb AND NOT SQSH_SUPERBLOCK_DUPLICATES\<rparr>))"

definition mksqsh__superblock_compress_xattr ::
  "MksqshSuperblock \<Rightarrow> bool \<Rightarrow> rv \<times> MksqshSuperblock" where
  "mksqsh__superblock_compress_xattr sb compress_export =
     (if compress_export
      then (Ok, sb\<lparr>ms_flags := ms_flags sb AND NOT SQSH_SUPERBLOCK_UNCOMPRESSED_XATTRS\<rparr>)
      else (Ok, sb\<lparr>ms_flags := ms_flags sb OR SQSH_SUPERBLOCK_UNCOMPRESSED_XATTRS\<rparr>))"

definition mksqsh__superblock_compression_options ::
  "MksqshSuperblock \<Rightarrow> bool \<Rightarrow> rv \<times> MksqshSuperblock" where
  "mksqsh__superblock_compression_options sb compression_options =
     (if compression_options
      then (Ok, sb\<lparr>ms_flags := ms_flags sb OR word_of_nat SQSH_SUPERBLOCK_COMPRESSOR_OPTIONS\<rparr>)
      else (Ok, sb\<lparr>ms_flags := ms_flags sb AND NOT (word_of_nat SQSH_SUPERBLOCK_COMPRESSOR_OPTIONS)\<rparr>))"

text \<open>The count is a \<^verbatim>\<open>uint32_t\<close>, the field (and the parameter of its setter) a \<^verbatim>\<open>uint16_t\<close>.\<close>

definition mksqsh__superblock_id_count ::
  "MksqshSuperblock \<Rightarrow> nat \<Rightarrow> rv \<times> MksqshSuperblock" where
  "mksqsh__superblock_id_count sb id_count =
     (Ok, sb\<lparr>ms_data := sqsh__data_superblock_id_count_set (ms_data sb) (id_count mod 2 ^ 16)\<rparr>)"

definition mksqsh__superblock_root_inode_ref ::
  "MksqshSuperblock \<Rightarrow> nat \<Rightarrow> rv \<times> MksqshSuperblock" where
  "mksqsh__superblock_root_inode_ref sb root_inode_ref =
     (Ok, sb\<lparr>ms_data := sqsh__data_superblock_root_inode_ref_set (ms_data sb) root_inode_ref\<rparr>)"

definition mksqsh__superblock_inode_count ::
  "MksqshSuperblock \<Rightarrow> nat \<Rightarrow> rv \<times> MksqshSuperblock" where
  "mksqsh__superblock_inode_count sb inode_count =
     (Ok, sb\<lparr>ms_data := sqsh__data_superblock_inode_count_set (ms_data sb) inode_count\<rparr>)"

definition mksqsh__superblock_bytes_used ::
  "MksqshSuperblock \<Rightarrow> nat \<Rightarrow> rv \<times> MksqshSuperblock" where
  "mksqsh__superblock_bytes_used sb bytes_used =
     (Ok, sb\<lparr>ms_data := sqsh__data_superblock_bytes_used_set (ms_data sb) bytes_used\<rparr>)"

definition mksqsh__superblock_id_table_start ::
  "MksqshSuperblock \<Rightarrow> nat \<Rightarrow> rv \<times> MksqshSuperblock" where
  "mksqsh__superblock_id_table_start sb id_table_start =
     (Ok, sb\<lparr>ms_data := sqsh__data_superblock_id_table_start_set (ms_data sb) id_table_start\<rparr>)"

definition mksqsh__superblock_xattr_table_start ::
  "MksqshSuperblock \<Rightarrow> nat \<Rightarrow> rv \<times> MksqshSuperblock" where
  "mksqsh__superblock_xattr_table_start sb xattr_id_table_start =
     (let sb = sb\<lparr>ms_data :=
            sqsh__data_superblock_xattr_id_table_start_set (ms_data sb) xattr_id_table_start\<rparr>
      in if xattr_id_table_start = UINT64_MAX
         then (Ok, sb\<lparr>ms_flags := ms_flags sb OR word_of_nat SQSH_SUPERBLOCK_NO_XATTRS\<rparr>)
         else (Ok, sb\<lparr>ms_flags := ms_flags sb AND NOT (word_of_nat SQSH_SUPERBLOCK_NO_XATTRS)\<rparr>))"

definition mksqsh__superblock_inode_table_start ::
  "MksqshSuperblock \<Rightarrow> nat \<Rightarrow> rv \<times> MksqshSuperblock" where
  "mksqsh__superblock_inode_table_start sb inode_table_start =
     (Ok, sb\<lparr>ms_data := sqsh__data_superblock_inode_table_start_set (ms_data sb) inode_table_start\<rparr>)"

definition mksqsh__superblock_directory_table_start ::
  "MksqshSuperblock \<Rightarrow> nat \<Rightarrow> rv \<times> MksqshSuperblock" where
  "mksqsh__superblock_directory_table_start sb inode_table_start =
     (Ok, sb\<lparr>ms_data :=
        sqsh__data_superblock_directory_table_start_set (ms_data sb) inode_table_start\<rparr>)"

definition mksqsh__superblock_fragment_table_start ::
  "MksqshSuperblock \<Rightarrow> nat \<Rightarrow> rv \<times> MksqshSuperblock" where
  "mksqsh__superblock_fragment_table_start sb export_fragment_table_start =
     (let sb = sb\<lparr>ms_data :=
            sqsh__data_superblock_fragment_table_start_set (ms_data sb) export_fragment_table_start\<rparr>
      in if export_fragment_table_start = UINT64_MAX
         then (Ok, sb\<lparr>ms_flags := ms_flags sb OR word_of_nat SQSH_SUPERBLOCK_NO_FRAGMENTS\<rparr>)
         else (Ok, sb\<lparr>ms_flags := ms_flags sb AND NOT (word_of_nat SQSH_SUPERBLOCK_NO_FRAGMENTS)\<rparr>))"

text \<open>As the source has it: the address that means that there is no table sets the flag.\<close>

definition mksqsh__superblock_export_table_start ::
  "MksqshSuperblock \<Rightarrow> nat \<Rightarrow> rv \<times> MksqshSuperblock" where
  "mksqsh__superblock_export_table_start sb export_table_start =
     (let sb = sb\<lparr>ms_data :=
            sqsh__data_superblock_export_table_start_set (ms_data sb) export_table_start\<rparr>
      in if export_table_start = UINT64_MAX
         then (Ok, sb\<lparr>ms_flags := ms_flags sb OR word_of_nat SQSH_SUPERBLOCK_EXPORTABLE\<rparr>)
         else (Ok, sb\<lparr>ms_flags := ms_flags sb AND NOT (word_of_nat SQSH_SUPERBLOCK_EXPORTABLE)\<rparr>))"

text \<open>On success the C function returns the number of bytes written, \<^verbatim>\<open>sizeof(*data)\<close>.\<close>

definition mksqsh__superblock_write ::
  "'f file_ops \<Rightarrow> MksqshSuperblock \<Rightarrow> 'f \<Rightarrow> rv \<times> nat \<times> MksqshSuperblock \<times> 'f" where
  "mksqsh__superblock_write fo sb f =
     (let sb = sb\<lparr>ms_data := sqsh__data_superblock_flags_set (ms_data sb) (unat (ms_flags sb))\<rparr>
      in case fo_write fo (ms_data sb) f of (n, f) \<Rightarrow>
           if n \<noteq> 1 then (Err SQSH_ERROR_INTERNAL, 0, sb, f)
           else (Ok, sizeof_SqshDataSuperblock, sb, f))"

definition mksqsh__superblock_cleanup :: "MksqshSuperblock \<Rightarrow> rv \<times> MksqshSuperblock" where
  "mksqsh__superblock_cleanup sb = (Ok, sb)"

section \<open>The values of a superblock\<close>

text \<open>
  The abstract superblock: the value of every field, the flags as the set of their bit numbers.
  Every call is an update of it, \<open>superblock_spec\<close>; what the C functions do to the packed
  structure is a refinement of that.
\<close>

record superblock_values =
  sv_inode_count :: nat
  sv_modification_time :: nat
  sv_block_size :: nat
  sv_block_log :: nat
  sv_fragment_count :: nat
  sv_compression_id :: nat
  sv_flags :: "nat set"
  sv_id_count :: nat
  sv_root_inode_ref :: nat
  sv_bytes_used :: nat
  sv_id_table_start :: nat
  sv_xattr_table_start :: nat
  sv_inode_table_start :: nat
  sv_directory_table_start :: nat
  sv_fragment_table_start :: nat
  sv_export_table_start :: nat

definition superblock_values :: "byte list \<Rightarrow> 16 word \<Rightarrow> superblock_values" where
  "superblock_values h flags =
     \<lparr>sv_inode_count = sqsh__data_superblock_inode_count h,
      sv_modification_time = sqsh__data_superblock_modification_time h,
      sv_block_size = sqsh__data_superblock_block_size h,
      sv_block_log = sqsh__data_superblock_block_log h,
      sv_fragment_count = sqsh__data_superblock_fragment_entry_count h,
      sv_compression_id = sqsh__data_superblock_compression_id h,
      sv_flags = {k. bit flags k},
      sv_id_count = sqsh__data_superblock_id_count h,
      sv_root_inode_ref = sqsh__data_superblock_root_inode_ref h,
      sv_bytes_used = sqsh__data_superblock_bytes_used h,
      sv_id_table_start = sqsh__data_superblock_id_table_start h,
      sv_xattr_table_start = sqsh__data_superblock_xattr_id_table_start h,
      sv_inode_table_start = sqsh__data_superblock_inode_table_start h,
      sv_directory_table_start = sqsh__data_superblock_directory_table_start h,
      sv_fragment_table_start = sqsh__data_superblock_fragment_table_start h,
      sv_export_table_start = sqsh__data_superblock_export_table_start h\<rparr>"

datatype superblock_setter =
    Modification_Time nat | Block_Size nat | Fragment_Count nat | Compression_Id nat
  | Compress_Inodes bool | Compress_Data bool | Compress_Fragments bool | Force_Fragments bool
  | Deduplicate bool | Compress_Xattr bool | Compression_Options bool | Id_Count nat
  | Root_Inode_Ref nat | Inode_Count nat | Bytes_Used nat | Id_Table_Start nat
  | Xattr_Table_Start nat | Inode_Table_Start nat | Directory_Table_Start nat
  | Fragment_Table_Start nat | Export_Table_Start nat

fun superblock_call :: "superblock_setter \<Rightarrow> MksqshSuperblock \<Rightarrow> rv \<times> MksqshSuperblock" where
  "superblock_call (Modification_Time v) sb = mksqsh__superblock_modification_time sb v"
| "superblock_call (Block_Size v) sb = mksqsh__superblock_block_size sb v"
| "superblock_call (Fragment_Count v) sb = mksqsh__superblock_fragment_count sb v"
| "superblock_call (Compression_Id v) sb = mksqsh__superblock_compression_id sb v"
| "superblock_call (Compress_Inodes b) sb = mksqsh__superblock_compress_inodes sb b"
| "superblock_call (Compress_Data b) sb = mksqsh__superblock_compress_data sb b"
| "superblock_call (Compress_Fragments b) sb = mksqsh__superblock_compress_fragments sb b"
| "superblock_call (Force_Fragments b) sb = mksqsh__superblock_force_fragments sb b"
| "superblock_call (Deduplicate b) sb = mksqsh__superblock_deduplicate sb b"
| "superblock_call (Compress_Xattr b) sb = mksqsh__superblock_compress_xattr sb b"
| "superblock_call (Compression_Options b) sb = mksqsh__superblock_compression_options sb b"
| "superblock_call (Id_Count v) sb = mksqsh__superblock_id_count sb v"
| "superblock_call (Root_Inode_Ref v) sb = mksqsh__superblock_root_inode_ref sb v"
| "superblock_call (Inode_Count v) sb = mksqsh__superblock_inode_count sb v"
| "superblock_call (Bytes_Used v) sb = mksqsh__superblock_bytes_used sb v"
| "superblock_call (Id_Table_Start v) sb = mksqsh__superblock_id_table_start sb v"
| "superblock_call (Xattr_Table_Start v) sb = mksqsh__superblock_xattr_table_start sb v"
| "superblock_call (Inode_Table_Start v) sb = mksqsh__superblock_inode_table_start sb v"
| "superblock_call (Directory_Table_Start v) sb = mksqsh__superblock_directory_table_start sb v"
| "superblock_call (Fragment_Table_Start v) sb = mksqsh__superblock_fragment_table_start sb v"
| "superblock_call (Export_Table_Start v) sb = mksqsh__superblock_export_table_start sb v"

text \<open>A flag is set or removed; the bit numbers are those of the constants of \<^verbatim>\<open>sqsh_data.h\<close>.\<close>

definition flag_set :: "nat \<Rightarrow> bool \<Rightarrow> superblock_values \<Rightarrow> superblock_values" where
  "flag_set k b v = v\<lparr>sv_flags := if b then insert k (sv_flags v) else sv_flags v - {k}\<rparr>"

definition supported_block_log :: "nat \<Rightarrow> nat option" where
  "supported_block_log v = find (\<lambda>k. v = 2 ^ k) [12..<21]"

fun superblock_spec :: "superblock_setter \<Rightarrow> superblock_values \<Rightarrow> superblock_values" where
  "superblock_spec (Modification_Time v) s = s\<lparr>sv_modification_time := v mod 2 ^ 32\<rparr>"
| "superblock_spec (Block_Size v) s =
     (case supported_block_log v of None \<Rightarrow> s
      | Some k \<Rightarrow> s\<lparr>sv_block_size := v, sv_block_log := k\<rparr>)"
| "superblock_spec (Fragment_Count v) s = s\<lparr>sv_fragment_count := v mod 2 ^ 32\<rparr>"
| "superblock_spec (Compression_Id v) s = s\<lparr>sv_compression_id := v mod 2 ^ 16\<rparr>"
| "superblock_spec (Compress_Inodes b) s = flag_set 0 (\<not> b) s"
| "superblock_spec (Compress_Data b) s = flag_set 1 (\<not> b) s"
| "superblock_spec (Compress_Fragments b) s = flag_set 3 (\<not> b) s"
| "superblock_spec (Force_Fragments b) s = flag_set 5 (\<not> b) s"
| "superblock_spec (Deduplicate b) s = flag_set 6 b s"
| "superblock_spec (Compress_Xattr b) s = flag_set 8 (\<not> b) s"
| "superblock_spec (Compression_Options b) s = flag_set 10 b s"
| "superblock_spec (Id_Count v) s = s\<lparr>sv_id_count := v mod 2 ^ 16\<rparr>"
| "superblock_spec (Root_Inode_Ref v) s = s\<lparr>sv_root_inode_ref := v mod 2 ^ 64\<rparr>"
| "superblock_spec (Inode_Count v) s = s\<lparr>sv_inode_count := v mod 2 ^ 32\<rparr>"
| "superblock_spec (Bytes_Used v) s = s\<lparr>sv_bytes_used := v mod 2 ^ 64\<rparr>"
| "superblock_spec (Id_Table_Start v) s = s\<lparr>sv_id_table_start := v mod 2 ^ 64\<rparr>"
| "superblock_spec (Xattr_Table_Start v) s =
     flag_set 9 (v = UINT64_MAX) (s\<lparr>sv_xattr_table_start := v mod 2 ^ 64\<rparr>)"
| "superblock_spec (Inode_Table_Start v) s = s\<lparr>sv_inode_table_start := v mod 2 ^ 64\<rparr>"
| "superblock_spec (Directory_Table_Start v) s = s\<lparr>sv_directory_table_start := v mod 2 ^ 64\<rparr>"
| "superblock_spec (Fragment_Table_Start v) s =
     flag_set 4 (v = UINT64_MAX) (s\<lparr>sv_fragment_table_start := v mod 2 ^ 64\<rparr>)"
| "superblock_spec (Export_Table_Start v) s =
     flag_set 7 (v = UINT64_MAX) (s\<lparr>sv_export_table_start := v mod 2 ^ 64\<rparr>)"

lemma le_bytes_mod: "le_bytes n (v mod 256 ^ n) = le_bytes n v"
proof (induction n arbitrary: v)
  case (Suc n)
  have "v mod 256 ^ Suc n mod 256 = v mod 256" by (simp add: mod_mod_cancel)
  moreover have "v mod 256 ^ Suc n div 256 = v div 256 mod 256 ^ n"
    by (simp add: mod_mult2_eq)
  ultimately show ?case using Suc.IH [of "v div 256"] by simp
qed simp

lemma get_le_put_le_mod:
  "off + n \<le> length bs \<Longrightarrow> get_le n off (put_le n off v bs) = v mod 256 ^ n"
  using get_le_put_le_same [of off n bs "v mod 256 ^ n"]
  by (simp add: put_le_def le_bytes_mod)

lemma take_put_le: "m \<le> off \<Longrightarrow> off \<le> length bs \<Longrightarrow> take m (put_le n off v bs) = take m bs"
  by (simp add: put_le_def)

lemma flag_bits:
  "{k. bit (w OR push_bit m (1 :: 16 word)) k} = (if m < 16 then insert m {k. bit w k} else {k. bit w k})"
  "{k. bit (w AND NOT (push_bit m (1 :: 16 word))) k} = {k. bit w k} - {m}"
  by (auto simp: bit_simps dest: bit_imp_le_length)

lemma flag_constants:
  "SQSH_SUPERBLOCK_UNCOMPRESSED_INODES = push_bit 0 1"
  "SQSH_SUPERBLOCK_UNCOMPRESSED_DATA = push_bit 1 1"
  "SQSH_SUPERBLOCK_UNCOMPRESSED_FRAGMENTS = push_bit 3 1"
  "word_of_nat SQSH_SUPERBLOCK_NO_FRAGMENTS = push_bit 4 (1 :: 16 word)"
  "SQSH_SUPERBLOCK_ALWAYS_FRAGMENTS = push_bit 5 1"
  "SQSH_SUPERBLOCK_DUPLICATES = push_bit 6 1"
  "word_of_nat SQSH_SUPERBLOCK_EXPORTABLE = push_bit 7 (1 :: 16 word)"
  "SQSH_SUPERBLOCK_UNCOMPRESSED_XATTRS = push_bit 8 1"
  "word_of_nat SQSH_SUPERBLOCK_NO_XATTRS = push_bit 9 (1 :: 16 word)"
  "word_of_nat SQSH_SUPERBLOCK_COMPRESSOR_OPTIONS = push_bit 10 (1 :: 16 word)"
  by (simp_all add: SQSH_SUPERBLOCK_UNCOMPRESSED_INODES_def SQSH_SUPERBLOCK_UNCOMPRESSED_DATA_def
      SQSH_SUPERBLOCK_UNCOMPRESSED_FRAGMENTS_def SQSH_SUPERBLOCK_NO_FRAGMENTS_def
      SQSH_SUPERBLOCK_ALWAYS_FRAGMENTS_def SQSH_SUPERBLOCK_DUPLICATES_def
      SQSH_SUPERBLOCK_EXPORTABLE_def SQSH_SUPERBLOCK_UNCOMPRESSED_XATTRS_def
      SQSH_SUPERBLOCK_NO_XATTRS_def SQSH_SUPERBLOCK_COMPRESSOR_OPTIONS_def)

lemma block_size_log_supported: "block_size_log v = supported_block_log v"
  by (simp add: block_size_log_def block_sizes_def supported_block_log_def upt_rec)

lemma power_of_two_mask:
  fixes v :: nat
  assumes "0 < v" "v AND (v - 1) = 0"
  shows "\<exists>k. v = 2 ^ k"
proof (rule ccontr)
  assume no: "\<nexists>k. v = 2 ^ k"
  obtain k where k: "2 ^ k \<le> v" "v < 2 ^ (k + 1)"
    using ex_power_ivl1 [of 2 v] assms(1) by auto
  then have "2 ^ k < v" using no by (metis le_neq_implies_less)
  then have "v div 2 ^ k = 1" "(v - 1) div 2 ^ k = 1"
    using k by (auto intro!: div_nat_eqI)
  then have "bit v k \<and> bit (v - 1) k" by (simp add: bit_iff_odd)
  then have "bit (v AND (v - 1)) k" by (simp add: bit_and_iff)
  with assms(2) show False by simp
qed

lemma supported_block_log_Some:
  "supported_block_log v = Some k \<longleftrightarrow> 12 \<le> k \<and> k \<le> 20 \<and> v = 2 ^ k"
proof -
  have "supported_block_log v = Some k \<longleftrightarrow>
      (\<exists>i<9. v = 2 ^ (12 + i) \<and> k = 12 + i \<and> (\<forall>j<i. v \<noteq> 2 ^ (12 + j)))"
    unfolding supported_block_log_def find_Some_iff by (simp del: upt_rec_numeral cong: conj_cong)
  also have "\<dots> \<longleftrightarrow> (\<exists>i<9. v = 2 ^ (12 + i) \<and> k = 12 + i)"
    by (auto simp del: power_add)
  also have "\<dots> \<longleftrightarrow> 12 \<le> k \<and> k \<le> 20 \<and> v = 2 ^ k"
    by (auto intro!: exI [of _ "k - 12"])
  finally show ?thesis .
qed

lemma supported_block_log_None:
  assumes "supported_block_log v = None" "4096 \<le> v" "v \<le> 1048576"
  shows "v AND (v - 1) \<noteq> 0"
proof
  assume "v AND (v - 1) = 0"
  then obtain k where k: "v = 2 ^ k" using power_of_two_mask [of v] assms(2) by auto
  then have "(2::nat) ^ 12 \<le> 2 ^ k" "(2::nat) ^ k \<le> 2 ^ 20" using assms(2,3) by simp_all
  then have "12 \<le> k" "k \<le> 20" by (simp_all only: power_increasing_iff one_less_numeral_iff num.inject semiring_norm)
  with k assms(1) supported_block_log_Some [of v k] show False by simp
qed

section \<open>The builder refines the values\<close>

abbreviation builder_values :: "MksqshSuperblock \<Rightarrow> superblock_values" where
  "builder_values sb \<equiv> superblock_values (ms_data sb) (ms_flags sb)"

definition builder_ok :: "MksqshSuperblock \<Rightarrow> bool" where
  "builder_ok sb \<longleftrightarrow> length (ms_data sb) = 96 \<and>
     sqsh__data_superblock_magic (ms_data sb) = SQSH_SUPERBLOCK_MAGIC \<and>
     sqsh__data_superblock_version_major (ms_data sb) = 4 \<and>
     sqsh__data_superblock_version_minor (ms_data sb) = 0 \<and>
     sv_block_log (builder_values sb) \<in> {12..20} \<and>
     sv_block_size (builder_values sb) = 2 ^ sv_block_log (builder_values sb)"

lemmas superblock_fields = superblock_values_def superblock_get_defs superblock_set_defs
  get_le_put_le_mod get_le_put_le_other take_put_le Let_def

lemmas superblock_call_defs =
  mksqsh__superblock_modification_time_def mksqsh__superblock_fragment_count_def
  mksqsh__superblock_compression_id_def mksqsh__superblock_compress_inodes_def
  mksqsh__superblock_compress_data_def mksqsh__superblock_compress_fragments_def
  mksqsh__superblock_force_fragments_def mksqsh__superblock_deduplicate_def
  mksqsh__superblock_compress_xattr_def mksqsh__superblock_compression_options_def
  mksqsh__superblock_id_count_def mksqsh__superblock_root_inode_ref_def
  mksqsh__superblock_inode_count_def mksqsh__superblock_bytes_used_def
  mksqsh__superblock_id_table_start_def mksqsh__superblock_xattr_table_start_def
  mksqsh__superblock_inode_table_start_def mksqsh__superblock_directory_table_start_def
  mksqsh__superblock_fragment_table_start_def mksqsh__superblock_export_table_start_def

lemma block_size_result:
  assumes "length (ms_data sb) = 96"
  shows "mksqsh__superblock_block_size sb v =
     (case supported_block_log v of
        None \<Rightarrow> (Err SQSH_ERROR_BLOCKSIZE_MISMATCH, sb)
      | Some k \<Rightarrow> (Ok, sb\<lparr>ms_data := put_le 2 22 k (put_le 4 12 v (ms_data sb))\<rparr>))"
proof (cases "supported_block_log v")
  case None
  then show ?thesis using supported_block_log_None [of v]
    by (auto simp: mksqsh__superblock_block_size_def)
next
  case (Some k)
  then have k: "12 \<le> k" "k \<le> 20" "v = 2 ^ k" by (simp_all add: supported_block_log_Some)
  then have "(2::nat) ^ 12 \<le> v" "v \<le> 2 ^ 20" by (simp_all only: power_increasing)
  moreover have "v AND (v - 1) = 0" using and_low_mask [of v k] k(3) by (simp add: push_bit_eq_mult)
  ultimately show ?thesis using Some
    by (simp add: mksqsh__superblock_block_size_def block_size_log_supported superblock_set_defs Let_def)
qed

lemma supported_block_log_range:
  "supported_block_log v = Some k \<Longrightarrow> k < 65536 \<and> v < 4294967296"
  by (auto simp: supported_block_log_Some intro: le_less_trans [OF power_increasing [of k 20 "2::nat"]])

lemma call_shape:
  assumes "length (ms_data sb) = 96" and "superblock_call c sb = (rv, sb')"
  shows "length (ms_data sb') = 96 \<and> take 4 (ms_data sb') = take 4 (ms_data sb) \<and>
    get_le 2 28 (ms_data sb') = get_le 2 28 (ms_data sb) \<and>
    get_le 2 30 (ms_data sb') = get_le 2 30 (ms_data sb)"
  using assms
  by (cases c)
    (auto simp: superblock_fields superblock_call_defs block_size_result split: if_splits option.splits)

lemma call_result:
  assumes "length (ms_data sb) = 96" and "superblock_call c sb = (rv, sb')"
  shows "rv = (case c of Block_Size v \<Rightarrow>
           if supported_block_log v = None then Err SQSH_ERROR_BLOCKSIZE_MISMATCH else Ok | _ \<Rightarrow> Ok)"
  using assms
  by (cases c)
    (auto simp: superblock_call_defs Let_def block_size_result split: if_splits option.splits)

lemma values_put:
  assumes "length h = 96"
  shows "superblock_values (put_le 4 4 v h) w = (superblock_values h w)\<lparr>sv_inode_count := v mod 2 ^ 32\<rparr>"
    and "superblock_values (put_le 4 8 v h) w =
           (superblock_values h w)\<lparr>sv_modification_time := v mod 2 ^ 32\<rparr>"
    and "superblock_values (put_le 4 12 v h) w = (superblock_values h w)\<lparr>sv_block_size := v mod 2 ^ 32\<rparr>"
    and "superblock_values (put_le 4 16 v h) w =
           (superblock_values h w)\<lparr>sv_fragment_count := v mod 2 ^ 32\<rparr>"
    and "superblock_values (put_le 2 20 v h) w =
           (superblock_values h w)\<lparr>sv_compression_id := v mod 2 ^ 16\<rparr>"
    and "superblock_values (put_le 2 22 v h) w = (superblock_values h w)\<lparr>sv_block_log := v mod 2 ^ 16\<rparr>"
    and "superblock_values (put_le 2 24 v h) w = superblock_values h w"
    and "superblock_values (put_le 2 26 v h) w = (superblock_values h w)\<lparr>sv_id_count := v mod 2 ^ 16\<rparr>"
    and "superblock_values (put_le 8 32 v h) w =
           (superblock_values h w)\<lparr>sv_root_inode_ref := v mod 2 ^ 64\<rparr>"
    and "superblock_values (put_le 8 40 v h) w = (superblock_values h w)\<lparr>sv_bytes_used := v mod 2 ^ 64\<rparr>"
    and "superblock_values (put_le 8 48 v h) w =
           (superblock_values h w)\<lparr>sv_id_table_start := v mod 2 ^ 64\<rparr>"
    and "superblock_values (put_le 8 56 v h) w =
           (superblock_values h w)\<lparr>sv_xattr_table_start := v mod 2 ^ 64\<rparr>"
    and "superblock_values (put_le 8 64 v h) w =
           (superblock_values h w)\<lparr>sv_inode_table_start := v mod 2 ^ 64\<rparr>"
    and "superblock_values (put_le 8 72 v h) w =
           (superblock_values h w)\<lparr>sv_directory_table_start := v mod 2 ^ 64\<rparr>"
    and "superblock_values (put_le 8 80 v h) w =
           (superblock_values h w)\<lparr>sv_fragment_table_start := v mod 2 ^ 64\<rparr>"
    and "superblock_values (put_le 8 88 v h) w =
           (superblock_values h w)\<lparr>sv_export_table_start := v mod 2 ^ 64\<rparr>"
  using assms by (simp_all add: superblock_fields)

lemma values_flag:
  "m < 16 \<Longrightarrow> superblock_values h (w OR push_bit m 1) = flag_set m True (superblock_values h w)"
  "superblock_values h (w AND NOT (push_bit m 1)) = flag_set m False (superblock_values h w)"
  by (simp_all only: superblock_values_def flag_set_def flag_bits superblock_values.simps if_True if_False)

lemma values_flag_on:
  "superblock_values h (w OR SQSH_SUPERBLOCK_UNCOMPRESSED_INODES) =
     flag_set 0 True (superblock_values h w)"
  "superblock_values h (w OR SQSH_SUPERBLOCK_UNCOMPRESSED_DATA) =
     flag_set 1 True (superblock_values h w)"
  "superblock_values h (w OR SQSH_SUPERBLOCK_UNCOMPRESSED_FRAGMENTS) =
     flag_set 3 True (superblock_values h w)"
  "superblock_values h (w OR (word_of_nat SQSH_SUPERBLOCK_NO_FRAGMENTS)) =
     flag_set 4 True (superblock_values h w)"
  "superblock_values h (w OR SQSH_SUPERBLOCK_ALWAYS_FRAGMENTS) =
     flag_set 5 True (superblock_values h w)"
  "superblock_values h (w OR SQSH_SUPERBLOCK_DUPLICATES) =
     flag_set 6 True (superblock_values h w)"
  "superblock_values h (w OR (word_of_nat SQSH_SUPERBLOCK_EXPORTABLE)) =
     flag_set 7 True (superblock_values h w)"
  "superblock_values h (w OR SQSH_SUPERBLOCK_UNCOMPRESSED_XATTRS) =
     flag_set 8 True (superblock_values h w)"
  "superblock_values h (w OR (word_of_nat SQSH_SUPERBLOCK_NO_XATTRS)) =
     flag_set 9 True (superblock_values h w)"
  "superblock_values h (w OR (word_of_nat SQSH_SUPERBLOCK_COMPRESSOR_OPTIONS)) =
     flag_set 10 True (superblock_values h w)"
  unfolding flag_constants by (rule values_flag(1), simp)+

lemma values_flag_off:
  "superblock_values h (w AND NOT SQSH_SUPERBLOCK_UNCOMPRESSED_INODES) =
     flag_set 0 False (superblock_values h w)"
  "superblock_values h (w AND NOT SQSH_SUPERBLOCK_UNCOMPRESSED_DATA) =
     flag_set 1 False (superblock_values h w)"
  "superblock_values h (w AND NOT SQSH_SUPERBLOCK_UNCOMPRESSED_FRAGMENTS) =
     flag_set 3 False (superblock_values h w)"
  "superblock_values h (w AND NOT (word_of_nat SQSH_SUPERBLOCK_NO_FRAGMENTS)) =
     flag_set 4 False (superblock_values h w)"
  "superblock_values h (w AND NOT SQSH_SUPERBLOCK_ALWAYS_FRAGMENTS) =
     flag_set 5 False (superblock_values h w)"
  "superblock_values h (w AND NOT SQSH_SUPERBLOCK_DUPLICATES) =
     flag_set 6 False (superblock_values h w)"
  "superblock_values h (w AND NOT (word_of_nat SQSH_SUPERBLOCK_EXPORTABLE)) =
     flag_set 7 False (superblock_values h w)"
  "superblock_values h (w AND NOT SQSH_SUPERBLOCK_UNCOMPRESSED_XATTRS) =
     flag_set 8 False (superblock_values h w)"
  "superblock_values h (w AND NOT (word_of_nat SQSH_SUPERBLOCK_NO_XATTRS)) =
     flag_set 9 False (superblock_values h w)"
  "superblock_values h (w AND NOT (word_of_nat SQSH_SUPERBLOCK_COMPRESSOR_OPTIONS)) =
     flag_set 10 False (superblock_values h w)"
  unfolding flag_constants by (rule values_flag(2))+

lemma call_refines:
  assumes "length (ms_data sb) = 96" and "superblock_call c sb = (rv, sb')"
  shows "builder_values sb' = superblock_spec c (builder_values sb)"
proof (cases c)
  case (Block_Size v)
  then show ?thesis using assms supported_block_log_range [of v]
    by (auto simp: block_size_result values_put split: option.splits)
qed (insert assms, auto simp: superblock_set_defs superblock_call_defs values_put
      values_flag_on values_flag_off Let_def split: if_splits)

text \<open>Any number of calls, whatever they return, and what then reaches the stream.\<close>

definition superblock_calls :: "superblock_setter list \<Rightarrow> MksqshSuperblock \<Rightarrow> MksqshSuperblock" where
  "superblock_calls cs sb = fold (\<lambda>c sb. snd (superblock_call c sb)) cs sb"

definition superblock_specs :: "superblock_setter list \<Rightarrow> superblock_values \<Rightarrow> superblock_values" where
  "superblock_specs cs v = fold superblock_spec cs v"

text \<open>The values that the reader's accessors find in 96 bytes of an archive.\<close>

definition header_values :: "byte list \<Rightarrow> superblock_values" where
  "header_values h = superblock_values h (word_of_nat (sqsh__data_superblock_flags h))"

lemma init_result:
  assumes "length (ms_data memory) = 96" and "mksqsh__superblock_init memory = (rv, sb)"
  shows "rv = Ok" and "builder_ok sb"
    and "builder_values sb = superblock_spec (Block_Size 4096) (builder_values memory)"
proof -
  have s: "supported_block_log 4096 = Some 12" by (simp add: supported_block_log_Some)
  have l: "length SQSH_SUPERBLOCK_MAGIC = 4" by (simp add: SQSH_SUPERBLOCK_MAGIC_def)
  have k: "get_le n off (SQSH_SUPERBLOCK_MAGIC @ drop 4 h) = get_le n off h" if "4 \<le> off" for n off and h :: "byte list"
    using that by (simp add: get_le_def window_def drop_append l)
  note r = assms(2) [unfolded mksqsh__superblock_init_def Let_def]
  show "rv = Ok" using r s assms(1) l by (simp add: block_size_result superblock_set_defs)
  show "builder_ok sb" using r s assms(1) l
    by (auto simp: block_size_result superblock_fields builder_ok_def)
  show "builder_values sb = superblock_spec (Block_Size 4096) (builder_values memory)"
    using r s assms(1) l by (auto simp: block_size_result superblock_fields k)
qed

lemma call_ok:
  assumes "builder_ok sb" and "superblock_call c sb = (rv, sb')"
  shows "builder_ok sb'"
proof -
  have l: "length (ms_data sb) = 96" using assms(1) by (simp add: builder_ok_def)
  have "sv_block_log (superblock_spec c v) \<in> {12..20} \<and>
      sv_block_size (superblock_spec c v) = 2 ^ sv_block_log (superblock_spec c v)"
    if "sv_block_log v \<in> {12..20}" "sv_block_size v = 2 ^ sv_block_log v" for v
    using that by (cases c) (auto simp: flag_set_def supported_block_log_Some split: option.split)
  then show ?thesis
    using assms(1) call_shape [OF l assms(2)] call_refines [OF l assms(2)]
    by (simp add: builder_ok_def superblock_get_defs)
qed

lemma calls_refine:
  assumes "builder_ok sb"
  shows "builder_ok (superblock_calls cs sb)"
    and "builder_values (superblock_calls cs sb) = superblock_specs cs (builder_values sb)"
proof -
  have "builder_ok (superblock_calls cs sb) \<and>
      builder_values (superblock_calls cs sb) = superblock_specs cs (builder_values sb)"
    using assms
  proof (induction cs arbitrary: sb)
    case (Cons c cs)
    obtain rv sb1 where c: "superblock_call c sb = (rv, sb1)" by fastforce
    have "length (ms_data sb) = 96" using Cons.prems by (simp add: builder_ok_def)
    from call_refines [OF this c] Cons.IH [OF call_ok [OF Cons.prems c]] c
    show ?case by (simp add: superblock_calls_def superblock_specs_def)
  qed (simp add: superblock_calls_def superblock_specs_def)
  then show "builder_ok (superblock_calls cs sb)"
    and "builder_values (superblock_calls cs sb) = superblock_specs cs (builder_values sb)" by auto
qed

lemma write_result:
  assumes "file_ops_ok fo" "builder_ok sb" "mksqsh__superblock_write fo sb f = (rv, n, sb', f')"
  shows "rv = Ok \<and> n = 96 \<and> (\<exists>h. fo_bytes fo f' = fo_bytes fo f @ h \<and> length h = 96 \<and>
      header_values h = builder_values sb \<and> sqsh__data_superblock_magic h = SQSH_SUPERBLOCK_MAGIC) \<or>
    rv = Err SQSH_ERROR_INTERNAL \<and> n = 0"
proof -
  define h where "h = sqsh__data_superblock_flags_set (ms_data sb) (unat (ms_flags sb))"
  have l: "length (ms_data sb) = 96" using assms(2) by (simp add: builder_ok_def)
  then have "length h = 96" by (simp add: h_def superblock_set_defs)
  then have h: "length h = 96" "h \<noteq> []" by auto
  have "unat (ms_flags sb) < 65536" using unsigned_less [of "ms_flags sb"] by simp
  then have "get_le 2 24 h = unat (ms_flags sb)"
    using l by (simp add: h_def superblock_set_defs get_le_put_le_same)
  then have v: "header_values h = builder_values sb"
    using l by (simp add: header_values_def sqsh__data_superblock_flags_def h_def superblock_set_defs values_put)
  have m: "sqsh__data_superblock_magic h = SQSH_SUPERBLOCK_MAGIC"
    using assms(2) by (simp add: builder_ok_def h_def superblock_fields)
  obtain k g where w: "fo_write fo h f = (k, g)" by fastforce
  have "k \<noteq> 1 \<and> rv = Err SQSH_ERROR_INTERNAL \<and> n = 0 \<or> k = 1 \<and> rv = Ok \<and> n = 96 \<and> f' = g"
    using assms(3) w
    by (auto simp: mksqsh__superblock_write_def Let_def h_def [symmetric] sizeof_SqshDataSuperblock_def
        split: if_splits)
  then show ?thesis using fwrite_result(1) [OF assms(1) w h(2)] h(1) v m by blast
qed

lemma header_accepted:
  assumes "length h = 96" "sqsh__data_superblock_magic h = SQSH_SUPERBLOCK_MAGIC"
    and "header_values h = builder_values sb" "builder_ok sb"
    and "sv_bytes_used (header_values h) \<le> 96 + length rest"
  shows "superblock_check (h @ rest) = Ok"
proof -
  have "sv_block_log (header_values h) \<in> {12..20}"
    "sv_block_size (header_values h) = 2 ^ sv_block_log (header_values h)"
    using assms(3,4) by (simp_all add: builder_ok_def)
  then show ?thesis using assms(1,2,5)
    by (simp add: header_values_def superblock_values_def superblock_check_def superblock_get_defs)
qed

text \<open>A stream with room for a number of bytes; beyond it a write is cut off and fails.\<close>

definition bounded_file :: "(byte list \<times> nat) file_ops" where
  "bounded_file =
     \<lparr>fo_write = (\<lambda>xs (bs, room). if length xs \<le> room then (1, (bs @ xs, room - length xs))
                                   else (0, (bs @ take room xs, 0))),
      fo_bytes = fst\<rparr>"

lemma bounded_file_ok [simp]: "file_ops_ok bounded_file"
proof -
  have "\<exists>k. xs = take k xs" for xs :: "byte list" by (rule exI [of _ "length xs"]) simp
  then show ?thesis by (auto simp: file_ops_ok_def bounded_file_def)
qed

section \<open>Properties of the superblock builder\<close>



text \<open>
  C21. What the builder writes is an archive that the library accepts: a file that begins with
  the header that was written after any sequence of calls, and is at least as long as the number of
  bytes used that the builder was given, passes \<^verbatim>\<open>sqsh__superblock_init\<close> (which fails at most for
  lack of memory or on a failing mapper), and the superblock that is then loaded shows the values of the
  abstract superblock.
\<close>

theorem superblock_written_accepted:
  assumes "file_ops_ok fo" and "length (ms_data memory) = 96"
    and "mksqsh__superblock_init memory = (rv0, sb)"
    and "mksqsh__superblock_write fo (superblock_calls cs sb) f = (Ok, n, sb', f')"
    and "values = superblock_specs cs (superblock_spec (Block_Size 4096) (builder_values memory))"
    and "cx_buffer_ok (env_buf env)" "manager_ok (env_maps env) se src m"
    and "fo_bytes fo f = []" "archive_bytes src m = fo_bytes fo f' @ rest"
    and "sv_bytes_used values \<le> 96 + length rest"
    and "sqsh__superblock_init env m = (rv, loaded)"
  shows "safe_rv rv \<and> (rv = Ok \<longrightarrow> header_values (get_header env loaded) = values) \<and>
    (cache_total (env_maps env) \<and> live_memory_mapper (mp_impl (mm_mapper m)) src \<and>
      cx_buffer_total (env_buf env) \<longrightarrow> rv = Ok)"
proof -
  note I = init_result [OF assms(2,3)] and C = calls_refine [of sb cs]
  obtain h where h: "fo_bytes fo f' = h" "length h = 96"
    "header_values h = builder_values (superblock_calls cs sb)"
    "sqsh__data_superblock_magic h = SQSH_SUPERBLOCK_MAGIC"
    using write_result [OF assms(1) C(1) [OF I(2)] assms(4)] assms(8) by auto
  have v: "header_values h = values" using h(3) C(2) I(2,3) assms(5) by simp
  have "superblock_check (archive_bytes src m) = Ok"
    unfolding assms(9) h(1)
    by (rule header_accepted [OF h(2,4,3) C(1) [OF I(2)]]) (simp add: v assms(10))
  moreover have "window 0 96 (archive_bytes src m) = h"
    using assms(9) h(1,2) by (simp add: window_def)
  ultimately show ?thesis
    using superblock_init_correct [OF assms(6,7,11)] v by auto
qed

theorem superblock_written_accepted_witness:
  "\<exists>bytes. fst (sqsh__superblock_init tiny_env (tiny_manager 64 0 bytes)) = Ok \<and> length bytes = 96 \<and>
     fst (snd (snd (snd (mksqsh__superblock_write bounded_file (superblock_calls
       [Inode_Count 1, Bytes_Used 96, Block_Size 131072]
       (snd (mksqsh__superblock_init \<lparr>ms_data = replicate 96 0, ms_flags = 0\<rparr>))) ([], 96))))) = bytes"
proof -
  let ?m = "\<lparr>ms_data = replicate 96 0, ms_flags = 0\<rparr>" and ?f = "([]::byte list, 96::nat)"
  let ?cs = "[Inode_Count 1, Bytes_Used 96, Block_Size 131072]"
  let ?v = "superblock_specs ?cs (superblock_spec (Block_Size 4096) (builder_values ?m))"
  obtain rv0 sb where i: "mksqsh__superblock_init ?m = (rv0, sb)" by fastforce
  obtain rv n sb' f' where w: "mksqsh__superblock_write bounded_file (superblock_calls ?cs sb) ?f = (rv, n, sb', f')"
    using prod_cases4 by blast
  have l0: "length (ms_data ?m) = 96" by simp
  have l: "length (ms_data (superblock_calls ?cs sb)) = 96"
    using calls_refine(1) [OF init_result(2) [OF l0 i]] by (simp add: builder_ok_def)
  then have ok: "rv = Ok" and n: "length (fst f') = 96" using w
    by (auto simp: mksqsh__superblock_write_def bounded_file_def superblock_set_defs Let_def)
  let ?b = "fst f'"
  have b: "fo_bytes bounded_file ?f = []" "archive_bytes (\<lambda>u. u) (tiny_manager 64 0 ?b) = fo_bytes bounded_file f' @ []"
    using n tiny_archive [of 0 ?b 64] by (simp_all add: bounded_file_def)
  have s1: "supported_block_log 4096 = Some 12" "supported_block_log 131072 = Some 17"
    by (simp_all add: supported_block_log_Some)
  have u: "sv_bytes_used ?v \<le> 96 + length ([]::byte list)" by (simp add: superblock_specs_def s1)
  have ok': "manager_ok (env_maps tiny_env) alist_entries (\<lambda>u. u) (tiny_manager 64 0 ?b)"
    using tiny_manager_ok [of 64 0 ?b] n by simp
  obtain rv1 loaded where s: "sqsh__superblock_init tiny_env (tiny_manager 64 0 ?b) = (rv1, loaded)" by fastforce
  have "rv1 = Ok"
    using superblock_written_accepted [OF bounded_file_ok l0 i w [unfolded ok] refl _ ok' b u s]
      tiny_manager_live by simp
  then show ?thesis using s n i w by (intro exI [of _ ?b]) simp
qed

text \<open>
  Three setters do the opposite of what they are for, or lose a part of their argument; what the
  reader then concludes is not what the caller asked for.
\<close>

lemma superblock_setters_inverted:
  assumes "length (ms_data sb) = 96"
  shows "7 \<notin> sv_flags (builder_values (snd (mksqsh__superblock_export_table_start sb 1000)))"
    and "7 \<in> sv_flags (builder_values (snd (mksqsh__superblock_export_table_start sb UINT64_MAX)))"
    and "5 \<notin> sv_flags (builder_values (snd (mksqsh__superblock_force_fragments sb True)))"
    and "sv_id_count (builder_values (snd (mksqsh__superblock_id_count sb 65536))) = 0"
proof -
  have "builder_values (snd (superblock_call c sb)) = superblock_spec c (builder_values sb)" for c
    by (rule call_refines [OF assms, of c "fst (superblock_call c sb)"]) simp
  from this [of "Export_Table_Start 1000"] this [of "Export_Table_Start UINT64_MAX"]
    this [of "Force_Fragments True"] this [of "Id_Count 65536"]
  show "7 \<notin> sv_flags (builder_values (snd (mksqsh__superblock_export_table_start sb 1000)))"
    and "7 \<in> sv_flags (builder_values (snd (mksqsh__superblock_export_table_start sb UINT64_MAX)))"
    and "5 \<notin> sv_flags (builder_values (snd (mksqsh__superblock_force_fragments sb True)))"
    and "sv_id_count (builder_values (snd (mksqsh__superblock_id_count sb 65536))) = 0"
    by (simp_all add: flag_set_def UINT64_MAX_def)
qed

section \<open>The metablock builder\<close>

record 'f MksqshMetablock =
  mm_buffer :: "byte list"
  mm_outer_ref :: nat
  mm_buffer_size :: nat
  mm_out :: 'f
  mm_flushed :: bool

definition mksqsh__metablock_init :: "'f \<Rightarrow> rv \<times> 'f MksqshMetablock" where
  "mksqsh__metablock_init out =
     (Ok, \<lparr>mm_buffer = replicate 8192 0, mm_outer_ref = 0, mm_buffer_size = 0, mm_out = out,
           mm_flushed = False\<rparr>)"

text \<open>A buffer size beyond the buffer would make \<^verbatim>\<open>fwrite\<close> (and \<^verbatim>\<open>memcpy\<close> below) leave it: \<open>Fault\<close>.\<close>

definition mksqsh__metablock_flush ::
  "'f file_ops \<Rightarrow> 'f MksqshMetablock \<Rightarrow> rv \<times> 'f MksqshMetablock" where
  "mksqsh__metablock_flush fo mb =
     (let header = replicate sizeof_SqshDataMetablock 0
      in if mm_buffer_size mb = 0 then (Ok, mb)
         else
          let header = sqsh__data_metablock_is_compressed_set header False;
              header = sqsh__data_metablock_size_set header (mm_buffer_size mb)
          in case fo_write fo header (mm_out mb) of (rv, out) \<Rightarrow>
             let mb = mb\<lparr>mm_out := out\<rparr>
             in if rv \<noteq> 1 then (Err SQSH_ERROR_INTERNAL, mb)
                else if 8192 < mm_buffer_size mb then (Fault, mb)
                else case fo_write fo (take (mm_buffer_size mb) (mm_buffer mb)) (mm_out mb) of (rv, out) \<Rightarrow>
                  let mb = mb\<lparr>mm_out := out\<rparr>
                  in if rv \<noteq> 1 then (Err SQSH_ERROR_INTERNAL, mb)
                     else (Ok, mb\<lparr>mm_outer_ref := sizeof_SqshDataMetablock + mm_buffer_size mb,
                                  mm_buffer_size := 0, mm_flushed := True\<rparr>))"

lemma flush_empties:
  "mksqsh__metablock_flush fo mb = (Ok, mb') \<Longrightarrow> mm_buffer_size mb' = 0"
  by (auto simp: mksqsh__metablock_flush_def Let_def split: if_splits prod.splits)

function metablock_write_loop ::
  "'f file_ops \<Rightarrow> 'f MksqshMetablock \<Rightarrow> byte list \<Rightarrow> rv \<times> 'f MksqshMetablock" where
  "metablock_write_loop fo mb data =
     (if data = [] then (Ok, mb)
      else if 8192 < mm_buffer_size mb then (Fault, mb)
      else
       let remaining_size = 8192 - mm_buffer_size mb;
           copy_size = min remaining_size (length data);
           mb = mb\<lparr>mm_buffer := take (mm_buffer_size mb) (mm_buffer mb) @ take copy_size data
                     @ drop (mm_buffer_size mb + copy_size) (mm_buffer mb),
                   mm_buffer_size := mm_buffer_size mb + copy_size\<rparr>;
           data = drop copy_size data
       in if mm_buffer_size mb = 8192
          then case mksqsh__metablock_flush fo mb of (rv, mb) \<Rightarrow>
                 if rv \<noteq> Ok then (rv, mb) else metablock_write_loop fo mb data
          else metablock_write_loop fo mb data)"
  by pat_completeness auto
termination
  by (relation "measure (\<lambda>(fo, mb, data). length data + (if mm_buffer_size mb = 8192 then 1 else 0))")
    (auto dest!: flush_empties [OF sym] split: if_splits)

declare metablock_write_loop.simps [simp del]

definition mksqsh__metablock_write ::
  "'f file_ops \<Rightarrow> 'f MksqshMetablock \<Rightarrow> byte list \<Rightarrow> rv \<times> 'f MksqshMetablock" where
  "mksqsh__metablock_write fo mb data = metablock_write_loop fo (mb\<lparr>mm_flushed := False\<rparr>) data"

definition mksqsh__metablock_ref :: "'f MksqshMetablock \<Rightarrow> nat" where
  "mksqsh__metablock_ref mb = sqsh_address_ref_create (mm_outer_ref mb) (mm_buffer_size mb)"

definition mksqsh__metablock_cleanup :: "'f MksqshMetablock \<Rightarrow> rv \<times> 'f MksqshMetablock" where
  "mksqsh__metablock_cleanup mb = (Ok, mb)"

section \<open>What the builder writes\<close>

text \<open>A block as it is stored, and data as full blocks and what is left over.\<close>

definition stored_metablock :: "byte list \<Rightarrow> byte list" where
  "stored_metablock c = sqsh__data_metablock_size_set
     (sqsh__data_metablock_is_compressed_set (replicate 2 0) False) (length c) @ c"

function full_blocks :: "byte list \<Rightarrow> byte list list" where
  "full_blocks xs =
     (if length xs < 8192 then [] else take 8192 xs # full_blocks (drop 8192 xs))"
  by pat_completeness auto
termination by (relation "measure length") auto

function left_over :: "byte list \<Rightarrow> byte list" where
  "left_over xs = (if length xs < 8192 then xs else left_over (drop 8192 xs))"
  by pat_completeness auto
termination by (relation "measure length") auto

declare full_blocks.simps [simp del] left_over.simps [simp del]

definition metablock_chunks :: "byte list \<Rightarrow> byte list list" where
  "metablock_chunks xs = full_blocks xs @ (if left_over xs = [] then [] else [left_over xs])"

lemma blocks_short: "length xs < 8192 \<Longrightarrow> full_blocks xs = [] \<and> left_over xs = xs"
  by (simp add: full_blocks.simps left_over.simps)

lemma blocks_long:
  "length r = 8192 \<Longrightarrow> full_blocks (r @ xs) = r # full_blocks xs \<and> left_over (r @ xs) = left_over xs"
  by (subst full_blocks.simps, subst left_over.simps) simp

lemma left_over_length: "length (left_over xs) < 8192"
  by (induction xs rule: left_over.induct) (subst left_over.simps, auto)

lemma blocks_append:
  "full_blocks (xs @ ys) = full_blocks xs @ full_blocks (left_over xs @ ys) \<and>
   left_over (xs @ ys) = left_over (left_over xs @ ys)"
proof (induction xs rule: left_over.induct)
  case (1 xs)
  show ?case
  proof (cases "length xs < 8192")
    case True
    then show ?thesis by (simp add: blocks_short)
  next
    case False
    then have l: "length (take 8192 xs) = 8192" by simp
    have e: "take 8192 xs @ drop 8192 xs @ ys = xs @ ys" by (metis append_assoc append_take_drop_id)
    have "full_blocks (xs @ ys) = take 8192 xs # full_blocks (drop 8192 xs @ ys)"
      "left_over (xs @ ys) = left_over (drop 8192 xs @ ys)"
      using blocks_long [OF l, of "drop 8192 xs @ ys"] unfolding e by simp_all
    moreover have "full_blocks xs = take 8192 xs # full_blocks (drop 8192 xs)"
      "left_over xs = left_over (drop 8192 xs)"
      using blocks_long [OF l, of "drop 8192 xs"] by simp_all
    ultimately show ?thesis using 1 [OF False] by simp
  qed
qed

lemma blocks_concat: "concat (full_blocks xs) @ left_over xs = xs"
proof (induction xs rule: left_over.induct)
  case (1 xs)
  then show ?case by (subst full_blocks.simps, subst left_over.simps) auto
qed

lemma full_block_length: "c \<in> set (full_blocks xs) \<Longrightarrow> length c = 8192"
proof (induction xs rule: full_blocks.induct)
  case (1 xs)
  then show ?case by (subst (asm) (2) full_blocks.simps) (auto split: if_splits)
qed

lemma length_stored [simp]: "length (stored_metablock c) = 2 + length c"
  by (simp add: stored_metablock_def size_set_header compressed_set_header)

lemma stored_parse:
  assumes "length c \<le> 8192"
  shows "metablock_parse bo impl (pre @ stored_metablock c @ rest) (length pre) = Some (length c, c)"
proof -
  let ?h = "sqsh__data_metablock_size_set
     (sqsh__data_metablock_is_compressed_set (replicate 2 0) False) (length c)"
  have l: "length ?h = 2" by (simp add: size_set_header compressed_set_header)
  have "get_le 2 0 ?h AND 0x7FFF = length c AND 0x7FFF" "get_le 2 0 ?h AND 0x8000 = 0x8000"
    by (simp_all add: size_set_header compressed_set_header header_or_and)
  moreover have "length c AND 0x7FFF = length c" unfolding and_7FFF using assms by simp
  ultimately have "sqsh__data_metablock_size ?h = length c" "\<not> sqsh__data_metablock_is_compressed ?h"
    by (simp_all only: sqsh__data_metablock_size_def sqsh__data_metablock_is_compressed_def)
  moreover have "window (length pre) 2 (pre @ stored_metablock c @ rest) = ?h"
    "window (length pre + 2) (length c) (pre @ stored_metablock c @ rest) = c"
    using l by (simp_all add: window_def stored_metablock_def)
  ultimately show ?thesis using assms
    by (simp add: metablock_parse_def Let_def)
qed

lemma stored_chain:
  assumes "\<forall>c \<in> set cs. length c \<le> 8192"
  shows "metablock_chain bo impl (pre @ concat (map stored_metablock cs)) (length pre) = cs"
  using assms
proof (induction cs arbitrary: pre)
  case Nil
  then show ?case by (simp add: metablock_chain_stop metablock_parse_def)
next
  case (Cons c cs)
  have p: "metablock_parse bo impl (pre @ stored_metablock c @ concat (map stored_metablock cs)) (length pre)
      = Some (length c, c)"
    using Cons.prems by (simp add: stored_parse)
  have "metablock_chain bo impl ((pre @ stored_metablock c) @ concat (map stored_metablock cs))
      (length (pre @ stored_metablock c)) = cs"
    using Cons.prems by (intro Cons.IH) simp
  then show ?case using metablock_chain_step [OF p] by (simp add: add.assoc)
qed

text \<open>The state between two calls: the blocks in the stream and the rest in the buffer.\<close>

definition mb_holds ::
  "'f file_ops \<Rightarrow> byte list \<Rightarrow> byte list list \<Rightarrow> byte list \<Rightarrow> 'f MksqshMetablock \<Rightarrow> bool" where
  "mb_holds fo pre blocks r mb \<longleftrightarrow>
     fo_bytes fo (mm_out mb) = pre @ concat (map stored_metablock blocks) \<and>
     length (mm_buffer mb) = 8192 \<and> length r < 8192 \<and>
     mm_buffer_size mb = length r \<and> take (length r) (mm_buffer mb) = r"

definition never_fails :: "'f file_ops \<Rightarrow> bool" where
  "never_fails fo \<longleftrightarrow> (\<forall>xs f. fst (fo_write fo xs f) = 1)"

lemma flush_result:
  assumes "file_ops_ok fo" "mksqsh__metablock_flush fo mb = (rv, mb')"
    and "length (mm_buffer mb) = 8192" "mm_buffer_size mb \<le> 8192" "0 < mm_buffer_size mb"
  shows "length (mm_buffer mb') = 8192 \<and> mm_buffer_size mb' \<le> 8192 \<and>
    (rv = Ok \<and> mm_buffer_size mb' = 0 \<and> mm_outer_ref mb' = 2 + mm_buffer_size mb \<and>
      fo_bytes fo (mm_out mb') = fo_bytes fo (mm_out mb) @
        stored_metablock (take (mm_buffer_size mb) (mm_buffer mb)) \<or>
     rv = Err SQSH_ERROR_INTERNAL \<and> \<not> never_fails fo)"
proof -
  let ?c = "take (mm_buffer_size mb) (mm_buffer mb)"
  define h where "h = sqsh__data_metablock_size_set
     (sqsh__data_metablock_is_compressed_set (replicate 2 0) False) (mm_buffer_size mb)"
  have "length h = 2" by (simp add: h_def size_set_header compressed_set_header)
  then have h: "h \<noteq> []" by auto
  have c: "?c \<noteq> []" "length ?c = mm_buffer_size mb" using assms(3-5) by auto
  have st: "stored_metablock ?c = h @ ?c" by (simp add: stored_metablock_def h_def c(2) del: length_take)
  obtain n1 g1 where w1: "fo_write fo h (mm_out mb) = (n1, g1)" by fastforce
  obtain n2 g2 where w2: "fo_write fo ?c g1 = (n2, g2)" by fastforce
  have "never_fails fo \<Longrightarrow> n1 = 1 \<and> n2 = 1"
    using w1 w2 unfolding never_fails_def by (metis fst_conv)
  moreover note fwrite_result(1) [OF assms(1) w1 h] fwrite_result(1) [OF assms(1) w2 c(1)]
  ultimately show ?thesis using assms(2-5) w1 w2
    by (auto simp: mksqsh__metablock_flush_def Let_def st h_def [symmetric] sizeof_metablock
        split: if_splits)
qed

lemma write_loop_result:
  assumes ok: "file_ops_ok fo" and "metablock_write_loop fo mb data = (rv, mb')"
    and "mb_holds fo pre blocks r mb"
  shows "rv = Ok \<and> mb_holds fo pre (blocks @ full_blocks (r @ data)) (left_over (r @ data)) mb' \<and>
      mm_outer_ref mb' = (if full_blocks (r @ data) = [] then mm_outer_ref mb else 8194) \<or>
    rv = Err SQSH_ERROR_INTERNAL \<and> \<not> never_fails fo"
  using assms(2,3)
proof (induction data arbitrary: mb blocks r rule: length_induct)
  case (1 data)
  have H: "fo_bytes fo (mm_out mb) = pre @ concat (map stored_metablock blocks)"
    "length (mm_buffer mb) = 8192" "length r < 8192"
    "mm_buffer_size mb = length r" "take (length r) (mm_buffer mb) = r"
    using 1(3) by (simp_all add: mb_holds_def)
  show ?case
  proof (cases "data = []")
    case True
    then show ?thesis using 1(2,3) H(3) by (auto simp: metablock_write_loop.simps blocks_short)
  next
    case False
    define k where "k = min (8192 - length r) (length data)"
    define mb1 where "mb1 = mb\<lparr>mm_buffer := r @ take k data @ drop (length r + k) (mm_buffer mb),
                   mm_buffer_size := length r + k\<rparr>"
    have k: "0 < k" "k \<le> 8192 - length r" "k \<le> length data"
      using False H(3) by (auto simp: k_def)
    let ?c = "r @ take k data" and ?d = "drop k data"
    have d: "r @ data = ?c @ ?d" "length ?d < length data" using k(1) False by simp_all
    have m: "length (mm_buffer mb1) = 8192" "mm_buffer_size mb1 = length ?c"
      "fo_bytes fo (mm_out mb1) = pre @ concat (map stored_metablock blocks)"
      "mm_outer_ref mb1 = mm_outer_ref mb" "take (length ?c) (mm_buffer mb1) = ?c"
      using H(1,2,3) k by (simp_all add: mb1_def)
    have "\<not> 8192 < length r" using H(3) by simp
    then have step: "metablock_write_loop fo mb data =
       (if mm_buffer_size mb1 = 8192
        then case mksqsh__metablock_flush fo mb1 of (rv, mb) \<Rightarrow>
               if rv \<noteq> Ok then (rv, mb) else metablock_write_loop fo mb ?d
        else metablock_write_loop fo mb1 ?d)"
      by (subst metablock_write_loop.simps)
        (simp only: False H(4,5) Let_def k_def [symmetric] mb1_def [symmetric] if_False)
    show ?thesis
    proof (cases "length ?c = 8192")
      case True
      obtain rv1 mb2 where f: "mksqsh__metablock_flush fo mb1 = (rv1, mb2)" by fastforce
      have b: "mm_buffer_size mb1 = 8192" and t: "take 8192 (mm_buffer mb1) = ?c"
        using m(2,5) by (simp_all only: True)
      have F: "length (mm_buffer mb2) = 8192 \<and> (rv1 = Ok \<and> mm_buffer_size mb2 = 0 \<and> mm_outer_ref mb2 = 8194 \<and>
          fo_bytes fo (mm_out mb2) = pre @ concat (map stored_metablock (blocks @ [?c])) \<or>
          rv1 = Err SQSH_ERROR_INTERNAL \<and> \<not> never_fails fo)"
        using flush_result [OF ok f m(1), unfolded b t m(3)] by simp
      show ?thesis
      proof (cases "rv1 = Ok")
        case True1: True
        then have h: "mb_holds fo pre (blocks @ [?c]) [] mb2" using F by (simp add: mb_holds_def)
        have "metablock_write_loop fo mb2 ?d = (rv, mb')"
          using 1(2) step f True m(2) True1 by simp
        from 1(1) [rule_format, OF d(2) this h] F True1
        show ?thesis unfolding d(1) using blocks_long [OF True, of ?d] by auto
      next
        case False
        then show ?thesis using 1(2) step f True m(2) F by auto
      qed
    next
      case False
      then have l: "length ?c < 8192" using k H(3) by auto
      then have "?d = []" by (auto simp: k_def)
      moreover have "mb_holds fo pre blocks ?c mb1" using m l by (simp add: mb_holds_def)
      moreover have "metablock_write_loop fo mb1 ?d = (rv, mb')" using 1(2) step False m(2) by simp
      ultimately show ?thesis unfolding d(1) using l m(4)
        by (auto simp: metablock_write_loop.simps blocks_short)
    qed
  qed
qed

text \<open>Calls of the builder; \<open>metablock_calls\<close> goes on after a failure, \<open>metablock_run\<close> stops.\<close>

datatype metablock_action = Write "byte list" | Flush

fun metablock_op :: "'f file_ops \<Rightarrow> metablock_action \<Rightarrow> 'f MksqshMetablock \<Rightarrow> rv \<times> 'f MksqshMetablock" where
  "metablock_op fo (Write data) mb = mksqsh__metablock_write fo mb data"
| "metablock_op fo Flush mb = mksqsh__metablock_flush fo mb"

fun metablock_run ::
  "'f file_ops \<Rightarrow> metablock_action list \<Rightarrow> 'f MksqshMetablock \<Rightarrow> rv \<times> 'f MksqshMetablock" where
  "metablock_run fo [] mb = (Ok, mb)"
| "metablock_run fo (c # cs) mb = andthen (metablock_op fo c mb) (metablock_run fo cs)"

fun metablock_calls ::
  "'f file_ops \<Rightarrow> metablock_action list \<Rightarrow> 'f MksqshMetablock \<Rightarrow> rv list \<times> 'f MksqshMetablock" where
  "metablock_calls fo [] mb = ([], mb)"
| "metablock_calls fo (c # cs) mb =
     (case metablock_op fo c mb of (rv, mb) \<Rightarrow>
        (case metablock_calls fo cs mb of (rvs, mb) \<Rightarrow> (rv # rvs, mb)))"

fun written_data :: "metablock_action list \<Rightarrow> byte list" where
  "written_data [] = []"
| "written_data (Write data # cs) = data @ written_data cs"
| "written_data (Flush # cs) = written_data cs"

text \<open>Blocks and rest after an operation, without the stream.\<close>

fun metablock_spec :: "metablock_action list \<Rightarrow> byte list list \<times> byte list \<Rightarrow> byte list list \<times> byte list" where
  "metablock_spec [] s = s"
| "metablock_spec (Write data # cs) (bs, r) =
     metablock_spec cs (bs @ full_blocks (r @ data), left_over (r @ data))"
| "metablock_spec (Flush # cs) (bs, r) = metablock_spec cs (if r = [] then bs else bs @ [r], [])"

lemma holds_flushed_mark [simp]: "mb_holds fo pre bs r (mb\<lparr>mm_flushed := b\<rparr>) = mb_holds fo pre bs r mb"
  by (simp add: mb_holds_def)

lemma op_result:
  assumes "file_ops_ok fo" "mb_holds fo pre bs r mb" "metablock_op fo c mb = (rv, mb')"
  shows "rv = Ok \<and> (case metablock_spec [c] (bs, r) of (bs', r') \<Rightarrow> mb_holds fo pre bs' r' mb') \<or>
    rv = Err SQSH_ERROR_INTERNAL \<and> \<not> never_fails fo"
proof (cases c)
  case (Write data)
  then show ?thesis using write_loop_result [OF assms(1), of "mb\<lparr>mm_flushed := False\<rparr>"] assms(2,3)
    by (fastforce simp: mksqsh__metablock_write_def)
next
  case Flush
  have h: "fo_bytes fo (mm_out mb) = pre @ concat (map stored_metablock bs)"
    "length (mm_buffer mb) = 8192" "length r < 8192"
    "mm_buffer_size mb = length r" "take (length r) (mm_buffer mb) = r"
    using assms(2) by (simp_all add: mb_holds_def)
  have f: "mksqsh__metablock_flush fo mb = (rv, mb')" using assms(3) Flush by simp
  show ?thesis
  proof (cases "r = []")
    case True
    then show ?thesis using f h(4) assms(2) Flush by (auto simp: mksqsh__metablock_flush_def)
  next
    case False
    then show ?thesis using flush_result [OF assms(1) f h(2), unfolded h(1,4,5)] h(3) Flush
      by (auto simp: mb_holds_def)
  qed
qed

lemma spec_Cons: "metablock_spec (c # cs) s = metablock_spec cs (metablock_spec [c] s)"
  by (cases s; cases c) simp_all

lemma run_result:
  assumes "file_ops_ok fo" "mb_holds fo pre bs r mb" "metablock_run fo cs mb = (rv, mb')"
  shows "rv = Ok \<and> (case metablock_spec cs (bs, r) of (bs', r') \<Rightarrow> mb_holds fo pre bs' r' mb') \<or>
    rv = Err SQSH_ERROR_INTERNAL \<and> \<not> never_fails fo"
  using assms(2,3)
proof (induction cs arbitrary: bs r mb)
  case (Cons c cs)
  obtain rv1 mb1 where c: "metablock_op fo c mb = (rv1, mb1)" by fastforce
  obtain bs1 r1 where s: "metablock_spec [c] (bs, r) = (bs1, r1)" by fastforce
  note S = op_result [OF assms(1) Cons.prems(1) c]
  show ?case
  proof (cases "rv1 = Ok")
    case True
    then have "mb_holds fo pre bs1 r1 mb1" "metablock_run fo cs mb1 = (rv, mb')"
      using S s Cons.prems(2) c by auto
    from Cons.IH [OF this] show ?thesis unfolding spec_Cons [of c cs] s .
  next
    case False
    then show ?thesis using S Cons.prems(2) c by auto
  qed
qed simp

lemma spec_data:
  assumes "metablock_spec cs (bs, r) = (bs', r')" "length r < 8192" "\<forall>c \<in> set bs. length c \<le> 8192"
  shows "concat bs' @ r' = concat bs @ r @ written_data cs \<and> length r' < 8192 \<and>
    (\<forall>c \<in> set bs'. length c \<le> 8192)"
  using assms
proof (induction cs arbitrary: bs r)
  case (Cons c cs)
  show ?case
  proof (cases c)
    case (Write data)
    have "\<forall>c \<in> set (bs @ full_blocks (r @ data)). length c \<le> 8192"
      using Cons.prems(3) full_block_length [of _ "r @ data"] by auto
    from Cons.IH [OF _ left_over_length this] Cons.prems(1) Write blocks_concat [of "r @ data"]
    show ?thesis by simp
  next
    case Flush
    let ?bs = "if r = [] then bs else bs @ [r]"
    have s: "metablock_spec cs (?bs, []) = (bs', r')" using Cons.prems(1) Flush by simp
    have l: "\<forall>c \<in> set ?bs. length c \<le> 8192" using Cons.prems(2,3) by simp
    have "concat ?bs = concat bs @ r" by simp
    with Cons.IH [OF s _ l] Flush show ?thesis by simp
  qed
qed simp

lemma spec_writes:
  assumes "Flush \<notin> set cs" "length r < 8192"
  shows "metablock_spec cs (bs, r) = (bs @ full_blocks (r @ written_data cs), left_over (r @ written_data cs))"
  using assms
proof (induction cs arbitrary: bs r)
  case Nil
  then show ?case by (simp add: blocks_short)
next
  case (Cons c cs)
  then obtain data where "c = Write data" by (cases c) auto
  then show ?case
    using Cons.IH [of "left_over (r @ data)" "bs @ full_blocks (r @ data)"] Cons.prems left_over_length
      blocks_append [of "r @ data" "written_data cs"] by simp
qed

lemma spec_append: "metablock_spec (cs @ ds) s = metablock_spec ds (metablock_spec cs s)"
proof (induction cs arbitrary: s)
  case (Cons c cs)
  then show ?case using spec_Cons [of c "cs @ ds" s] spec_Cons [of c cs s] by simp
qed simp

lemma init_holds:
  "mksqsh__metablock_init out = (rv, mb) \<Longrightarrow> mb_holds fo (fo_bytes fo out) [] [] mb"
  by (auto simp: mksqsh__metablock_init_def mb_holds_def)

lemma left_over_size: "length (left_over xs) = length xs mod 8192 \<and> (full_blocks xs = [] \<longleftrightarrow> length xs < 8192)"
proof (induction xs rule: left_over.induct)
  case (1 xs)
  show ?case
  proof (cases "length xs < 8192")
    case True
    then show ?thesis by (simp add: blocks_short)
  next
    case False
    then have "length (left_over xs) = (length xs - 8192) mod 8192"
      using 1 by (subst left_over.simps) simp
    then show ?thesis using False by (subst full_blocks.simps) (simp add: le_mod_geq)
  qed
qed

lemma spec_prefix: "\<exists>x r'. metablock_spec cs (bs, r) = (bs @ x, r')"
proof (induction cs arbitrary: bs r)
  case (Cons c cs)
  show ?case
  proof (cases c)
    case (Write data)
    then show ?thesis using Cons.IH [of "bs @ full_blocks (r @ data)" "left_over (r @ data)"] by auto
  next
    case Flush
    then show ?thesis using Cons.IH [of "if r = [] then bs else bs @ [r]" "[]"] by (auto split: if_splits)
  qed
qed simp

lemma run_outer_ref:
  assumes "file_ops_ok fo" "Flush \<notin> set cs" "mb_holds fo pre bs r mb" "metablock_run fo cs mb = (Ok, mb')"
  shows "mm_outer_ref mb' = (if full_blocks (r @ written_data cs) = [] then mm_outer_ref mb else 8194)"
  using assms(2-4)
proof (induction cs arbitrary: bs r mb)
  case Nil
  then show ?case by (simp add: mb_holds_def blocks_short)
next
  case (Cons c cs)
  then obtain data where c: "c = Write data" by (cases c) auto
  obtain rv1 mb1 where w: "metablock_write_loop fo (mb\<lparr>mm_flushed := False\<rparr>) data = (rv1, mb1)" by fastforce
  then have "rv1 = Ok" and run: "metablock_run fo cs mb1 = (Ok, mb')"
    using Cons.prems(3) c by (cases rv1; simp add: mksqsh__metablock_write_def)+
  with write_loop_result [OF assms(1) w, of pre bs r] Cons.prems(2)
  have h: "mb_holds fo pre (bs @ full_blocks (r @ data)) (left_over (r @ data)) mb1"
    "mm_outer_ref mb1 = (if full_blocks (r @ data) = [] then mm_outer_ref mb else 8194)" by auto
  from Cons.IH [OF _ h(1) run] Cons.prems(1) h(2) c blocks_append [of "r @ data" "written_data cs"]
  show ?case by auto
qed

lemma metablock_ref_value:
  assumes "file_ops_ok fo" "mksqsh__metablock_init out = (rv0, mb)"
    and "Flush \<notin> set cs" "metablock_run fo cs mb = (Ok, mb')"
  shows "mm_outer_ref mb' = (if length (written_data cs) < 8192 then 0 else 8194)"
    and "mm_buffer_size mb' = length (written_data cs) mod 8192"
    and "mb_holds fo (fo_bytes fo out) (full_blocks (written_data cs)) (left_over (written_data cs)) mb'"
proof -
  note I = init_holds [OF assms(2), of fo]
  have z: "mm_outer_ref mb = 0" using assms(2) by (auto simp: mksqsh__metablock_init_def)
  show "mm_outer_ref mb' = (if length (written_data cs) < 8192 then 0 else 8194)"
    using run_outer_ref [OF assms(1,3) I assms(4)] left_over_size [of "written_data cs"] z by auto
  show h: "mb_holds fo (fo_bytes fo out) (full_blocks (written_data cs)) (left_over (written_data cs)) mb'"
    using run_result [OF assms(1) I assms(4)] spec_writes [OF assms(3), of "[]" "[]"] by simp
  show "mm_buffer_size mb' = length (written_data cs) mod 8192"
    using h left_over_size [of "written_data cs"] by (simp add: mb_holds_def)
qed

text \<open>
  The end of the last block is not added to the ends of those before it: from the third block on,
  the reference still names the second.
\<close>

lemma metablock_ref_stays_at_second_block:
  assumes "file_ops_ok fo" "mksqsh__metablock_init out = (rv0, mb)"
    and "Flush \<notin> set cs" "metablock_run fo cs mb = (Ok, mb')" "length (written_data cs) = 16384"
  shows "sqsh_address_ref_outer_offset (mksqsh__metablock_ref mb') = 8194"
    and "length (fo_bytes fo (mm_out mb')) = length (fo_bytes fo out) + 2 * 8194"
proof -
  note R = metablock_ref_value [OF assms(1-4)]
  show "sqsh_address_ref_outer_offset (mksqsh__metablock_ref mb') = 8194"
    using R(1,2) assms(5) by (simp add: mksqsh__metablock_ref_def address_ref_create_eq outer_offset_div)
  have "length (full_blocks (written_data cs)) = 2"
    using assms(5) by (subst full_blocks.simps, simp, subst full_blocks.simps, simp, subst full_blocks.simps, simp)
  then obtain a b where ab: "full_blocks (written_data cs) = [a, b]"
    by (auto simp: numeral_2_eq_2 length_Suc_conv)
  then have "length a = 8192" "length b = 8192" using full_block_length [of _ "written_data cs"] by auto
  then show "length (fo_bytes fo (mm_out mb')) = length (fo_bytes fo out) + 2 * 8194"
    using R(3) ab by (simp add: mb_holds_def)
qed

lemma finished_stream:
  assumes "file_ops_ok fo" "mb_holds fo pre bs r mb" "metablock_run fo (cs @ [Flush]) mb = (Ok, mb')"
  shows "\<exists>x. fo_bytes fo (mm_out mb') = pre @ concat (map stored_metablock (bs @ x)) \<and>
    fst (metablock_spec (cs @ [Flush]) (bs, r)) = bs @ x"
proof -
  obtain x r' where s: "metablock_spec (cs @ [Flush]) (bs, r) = (bs @ x, r')" using spec_prefix by blast
  then show ?thesis using run_result [OF assms] by (auto simp: mb_holds_def)
qed

lemma finished_data:
  assumes "length r < 8192" "\<forall>c \<in> set bs. length c \<le> 8192"
    and "fst (metablock_spec (cs @ [Flush]) (bs, r)) = bs'"
  shows "concat bs' = concat bs @ r @ written_data cs" and "\<forall>c \<in> set bs'. length c \<le> 8192"
proof -
  obtain bs1 r1 where s: "metablock_spec cs (bs, r) = (bs1, r1)" by fastforce
  have "bs' = (if r1 = [] then bs1 else bs1 @ [r1])" using assms(3) s by (simp add: spec_append)
  with spec_data [OF s assms(1,2)]
  show "concat bs' = concat bs @ r @ written_data cs" and "\<forall>c \<in> set bs'. length c \<le> 8192" by auto
qed

lemma flush_safe:
  assumes "mksqsh__metablock_flush fo mb = (rv, mb')" "length (mm_buffer mb) = 8192" "mm_buffer_size mb \<le> 8192"
  shows "rv \<in> {Ok, Err SQSH_ERROR_INTERNAL} \<and> length (mm_buffer mb') = 8192 \<and> mm_buffer_size mb' \<le> 8192"
  using assms by (auto simp: mksqsh__metablock_flush_def Let_def split: if_splits prod.splits)

lemma write_loop_safe:
  assumes "metablock_write_loop fo mb data = (rv, mb')"
    and "length (mm_buffer mb) = 8192" "mm_buffer_size mb \<le> 8192"
  shows "rv \<in> {Ok, Err SQSH_ERROR_INTERNAL} \<and> length (mm_buffer mb') = 8192 \<and> mm_buffer_size mb' \<le> 8192"
  using assms
proof (induction fo mb data rule: metablock_write_loop.induct)
  case (1 fo mb data)
  define k where "k = min (8192 - mm_buffer_size mb) (length data)"
  define mb1 where "mb1 = mb\<lparr>mm_buffer := take (mm_buffer_size mb) (mm_buffer mb) @ take k data
      @ drop (mm_buffer_size mb + k) (mm_buffer mb), mm_buffer_size := mm_buffer_size mb + k\<rparr>"
  have m: "length (mm_buffer mb1) = 8192" "mm_buffer_size mb1 \<le> 8192"
    using 1(4,5) by (auto simp: mb1_def k_def)
  note IH = 1(1,2) [OF _ _ refl refl refl refl, folded k_def, folded mb1_def]
  have n: "\<not> 8192 < mm_buffer_size mb" using 1(5) by simp
  have step: "data = [] \<or> metablock_write_loop fo mb data =
       (if mm_buffer_size mb1 = 8192
        then case mksqsh__metablock_flush fo mb1 of (rv, mb) \<Rightarrow>
               if rv \<noteq> Ok then (rv, mb) else metablock_write_loop fo mb (drop k data)
        else metablock_write_loop fo mb1 (drop k data))"
    by (cases "data = []", simp, subst metablock_write_loop.simps)
      (simp only: n Let_def k_def [symmetric] mb1_def [symmetric] if_False simp_thms)
  obtain rv1 mb2 where f: "mksqsh__metablock_flush fo mb1 = (rv1, mb2)" by fastforce
  note F = flush_safe [OF f m]
  show ?case
  proof (cases "data = []")
    case True
    then show ?thesis using 1(3-5) by (auto simp: metablock_write_loop.simps)
  next
    case False
    show ?thesis
    proof (cases "mm_buffer_size mb1 = 8192 \<and> rv1 = Ok")
      case True
      then show ?thesis using IH(1) [OF False n _ f [symmetric]] step False f F 1(3) by auto
    next
      case False1: False
      then show ?thesis using IH(2) [OF False n] step False f F m 1(3) by (auto split: if_splits)
    qed
  qed
qed

text \<open>A stream that never fails.\<close>

definition append_file :: "byte list file_ops" where
  "append_file = \<lparr>fo_write = (\<lambda>xs f. (1, f @ xs)), fo_bytes = (\<lambda>f. f)\<rparr>"

lemma append_file_ok [simp]: "file_ops_ok append_file" "never_fails append_file"
  "fo_bytes append_file f = f"
proof -
  have "\<exists>k. xs = take k xs" for xs :: "byte list" by (rule exI [of _ "length xs"]) simp
  then show "file_ops_ok append_file" by (auto simp: file_ops_ok_def append_file_def)
qed (simp_all add: never_fails_def append_file_def)

lemma run_append:
  "metablock_run fo (cs @ ds) mb = andthen (metablock_run fo cs mb) (metablock_run fo ds)"
  by (induction cs arbitrary: mb) (simp_all add: andthen_assoc cong: andthen_cong)

lemma append_file_run:
  assumes "mksqsh__metablock_init out = (rv0, mb0)" "metablock_run append_file cs mb0 = (rv, mb)"
  shows "rv = Ok"
  using run_result [OF append_file_ok(1) init_holds [OF assms(1)] assms(2)] by simp

section \<open>Properties of the metablock builder\<close>

text \<open>
  C20. What the metablock builder writes, the metablock reader reads. A run of writes and
  flushes, ended by a flush, succeeds unless the stream fails, and then answers with the internal
  error; when it succeeds, the bytes that were in the stream before are untouched and behind them
  stands a chain of metablocks whose contents are, put together, exactly the bytes written,
  in order, whatever decompressor is configured. Without a flush in between, where the blocks end does not depend on how
  the data was cut into writes: every block but the last has 8192 bytes, as the reader's skip needs.
\<close>

theorem metablock_builder_roundtrip:
  assumes "file_ops_ok fo" and "mksqsh__metablock_init out = (rv0, mb)"
    and "metablock_run fo (cs @ [Flush]) mb = (rv, mb')"
    and "start = length (fo_bytes fo out)" "bytes = fo_bytes fo (mm_out mb')"
  shows "rv0 = Ok \<and>
    (rv = Ok \<and> take start bytes = fo_bytes fo out \<and>
       concat (metablock_chain bo impl bytes start) = written_data cs \<and>
       (Flush \<notin> set cs \<longrightarrow> metablock_chain bo impl bytes start = metablock_chunks (written_data cs)) \<or>
     rv = Err SQSH_ERROR_INTERNAL \<and> \<not> never_fails fo)"
proof -
  note I = init_holds [OF assms(2), of fo]
  have ok: "take start bytes = fo_bytes fo out \<and>
       concat (metablock_chain bo impl bytes start) = written_data cs \<and>
       (Flush \<notin> set cs \<longrightarrow> metablock_chain bo impl bytes start = metablock_chunks (written_data cs))"
    if r: "rv = Ok"
  proof -
    obtain bs where b: "bytes = fo_bytes fo out @ concat (map stored_metablock bs)"
      and s: "fst (metablock_spec (cs @ [Flush]) ([], [])) = bs"
      using finished_stream [OF assms(1) I assms(3) [unfolded r]] assms(5) by auto
    note D = finished_data [OF _ _ s, simplified]
    have "metablock_chain bo impl bytes start = bs"
      unfolding b assms(4) by (rule stored_chain [OF D(2)])
    moreover have "bs = metablock_chunks (written_data cs)" if w: "Flush \<notin> set cs"
      using s spec_writes [OF w, of "[]" "[]"] by (auto simp: spec_append metablock_chunks_def)
    moreover have "take start bytes = fo_bytes fo out" using b assms(4) by simp
    ultimately show ?thesis using D(1) by simp
  qed
  show ?thesis
    using run_result [OF assms(1) I assms(3)] ok assms(2) by (auto simp: mksqsh__metablock_init_def)
qed

theorem metablock_builder_roundtrip_witness:
  "concat (metablock_chain list_buffer (Some copy_codec) (mm_out (snd (metablock_run append_file
     ([Write [1, 2], Flush, Write [], Write [3]] @ [Flush]) (snd (mksqsh__metablock_init [9]))))) 1) = [1, 2, 3]"
proof -
  let ?cs = "[Write [1, 2], Flush, Write [], Write [3]]"
  obtain rv0 mb where i: "mksqsh__metablock_init [9::byte] = (rv0, mb)" by fastforce
  obtain rv mb' where r: "metablock_run append_file (?cs @ [Flush]) mb = (rv, mb')" by fastforce
  note R = metablock_builder_roundtrip [OF append_file_ok(1) i r refl refl]
  have "rv = Ok" by (rule append_file_run [OF i r])
  with R [of list_buffer "Some copy_codec"] i r show ?thesis by simp
qed



text \<open>
  C23. The metablock builder is memory safe and total: from a fresh builder, any sequence of
  writes and flushes, with any stream and also after calls that failed, never leaves the 8 KiB
  buffer and returns from every call, with success or with the internal error.
\<close>

theorem metablock_builder_safe:
  assumes "mksqsh__metablock_init out = (rv0, mb)" and "metablock_calls fo cs mb = (rvs, mb')"
  shows "set rvs \<subseteq> {Ok, Err SQSH_ERROR_INTERNAL} \<and> length rvs = length cs \<and>
    length (mm_buffer mb') = 8192 \<and> mm_buffer_size mb' \<le> 8192"
proof -
  have "length (mm_buffer mb) = 8192" "mm_buffer_size mb \<le> 8192"
    using assms(1) by (auto simp: mksqsh__metablock_init_def)
  then show ?thesis using assms(2)
  proof (induction cs arbitrary: mb rvs)
    case (Cons c cs)
    obtain rv1 mb1 where c: "metablock_op fo c mb = (rv1, mb1)" by fastforce
    obtain rvs2 where r: "metablock_calls fo cs mb1 = (rvs2, mb')" "rvs = rv1 # rvs2"
      using Cons.prems(3) c by (auto split: prod.splits)
    have "rv1 \<in> {Ok, Err SQSH_ERROR_INTERNAL} \<and> length (mm_buffer mb1) = 8192 \<and> mm_buffer_size mb1 \<le> 8192"
    proof (cases c)
      case (Write data)
      then have "metablock_write_loop fo (mb\<lparr>mm_flushed := False\<rparr>) data = (rv1, mb1)"
        using c by (simp add: mksqsh__metablock_write_def)
      from write_loop_safe [OF this] show ?thesis using Cons.prems(1,2) by simp
    next
      case Flush
      then show ?thesis using c Cons.prems(1,2) by (intro flush_safe) auto
    qed
    then show ?case using Cons.IH [OF _ _ r(1)] r(2) by auto
  qed simp
qed

theorem metablock_builder_safe_witness:
  "set (fst (metablock_calls bounded_file [Write [1], Flush, Write [2, 3], Flush]
     (snd (mksqsh__metablock_init ([], 4))))) \<subseteq> {Ok, Err SQSH_ERROR_INTERNAL}"
proof -
  obtain rv0 mb where i: "mksqsh__metablock_init ([]::byte list, 4::nat) = (rv0, mb)" by fastforce
  obtain rvs mb' where r: "metablock_calls bounded_file [Write [1], Flush, Write [2, 3], Flush] mb = (rvs, mb')"
    by fastforce
  show ?thesis using metablock_builder_safe [OF i r] i r by simp
qed

end
