(* ===== verification/Spec2Isabelle.thy ===== *)
theory Spec2Isabelle
  imports Sqsh_Prelude Sqsh_Block Sqsh_Data Sqsh_Reader Sqsh_Mapper Sqsh_Extract Sqsh_Metablock
    Sqsh_Archive Sqsh_InodeMap Sqsh_Inode Sqsh_ArchiveInv Sqsh_File Sqsh_FileIterator Sqsh_FileReader
    Sqsh_Directory Sqsh_Listing Sqsh_Xattr Sqsh_Stored Sqsh_Tree Sqsh_Resolve Sqsh_Traversal Sqsh_Preorder Sqsh_Mksqsh
begin

text \<open>
  Verification development of sqsh-tools, a reader for SquashFS archives
  with the beginnings of a writer, as it is written in C
  under \<^verbatim>\<open>src/\<close>.

  \<^bold>\<open>The program.\<close> An archive is a byte sequence behind a memory mapper. Everything the library
  offers is layered on sequential access to it: the map manager cuts it into slices and caches
  them; a map iterator delivers consecutive slices; a reader turns any such chunk iterator into a
  movable window of contiguous bytes, copying into a buffer only where a window crosses chunks.
  The metablock iterator reads a chain of (possibly compressed) metablocks through a map reader and
  the extractor; the metablock reader is the window reader over the decompressed bytes. On top of
  these come the superblock, the lookup tables, the inode map, the inodes, and the contents of
  files, the directories and the extended attributes, and above these the tree: resolving paths, following
  links, and going through all files.

  \<^bold>\<open>Theories.\<close>
  \<^item> \<^verbatim>\<open>Sqsh_Prelude\<close>: bytes, little-endian fields, error codes (\<^verbatim>\<open>include/sqsh_error.h\<close>), the overflow
    checked arithmetic of \<^verbatim>\<open>include/sqsh_common.h\<close>, windows of byte lists.
  \<^item> \<^verbatim>\<open>Sqsh_Block\<close>: block arithmetic and inode references (\<^verbatim>\<open>common/src/utils/block.c\<close>).
  \<^item> \<^verbatim>\<open>Sqsh_Data\<close>: the packed structures (\<^verbatim>\<open>common/src/data/\<close>), each accessor as a field at a byte offset.
  \<^item> \<^verbatim>\<open>Sqsh_Reader\<close>: \<^verbatim>\<open>common/src/reader/reader.c\<close>. The locales \<^verbatim>\<open>chunk_source\<close> and \<^verbatim>\<open>chunk_iterator\<close> state
    what the reader asks of an iterator, and prove the window theorem and memory safety once.
  \<^item> \<^verbatim>\<open>Sqsh_Mapper\<close>: \<^verbatim>\<open>libsqsh/src/mapper/\<close>; the map iterator is an interpretation of those locales.
  \<^item> \<^verbatim>\<open>Sqsh_Extract\<close>: \<^verbatim>\<open>libsqsh/src/extract/\<close>, the cache of decompressed blocks.
  \<^item> \<^verbatim>\<open>Sqsh_Metablock\<close>: \<^verbatim>\<open>libsqsh/src/metablock/\<close>; the metablock iterator is the second interpretation.
  \<^item> \<^verbatim>\<open>Sqsh_Archive\<close>: \<^verbatim>\<open>libsqsh/src/archive/\<close> and \<^verbatim>\<open>libsqsh/src/table/\<close>: superblock, tables, archive record,
    compression options.
  \<^item> \<^verbatim>\<open>Sqsh_InodeMap\<close>: \<^verbatim>\<open>archive/inode_map.c\<close>, both implementations behind the locale \<^verbatim>\<open>inode_map_impl\<close>.
  \<^item> \<^verbatim>\<open>Sqsh_ArchiveInv\<close>: the invariant of an open archive and its preservation by everything that
    loads a part of it on first use.
  \<^item> \<^verbatim>\<open>Sqsh_Inode\<close>: \<^verbatim>\<open>file/inode_*.c\<close>: the table of accessors of each kind of inode.
  \<^item> \<^verbatim>\<open>Sqsh_File\<close>: \<^verbatim>\<open>file/file.c\<close>: loading an inode and its accessors.
  \<^item> \<^verbatim>\<open>Sqsh_FileIterator\<close>: \<^verbatim>\<open>file/fragment_view.c\<close> and \<^verbatim>\<open>file_iterator.c\<close>. What one call delivers is the step
    relation \<^verbatim>\<open>file_chunk\<close> on positions; \<^verbatim>\<open>file_content\<close> is the specification of a file's bytes.
  \<^item> \<^verbatim>\<open>Sqsh_FileReader\<close>: \<^verbatim>\<open>file/file_reader.c\<close>; the file iterator is the third interpretation of the locales.
    Reading a file is memory safe and ends on every archive, and is correct and total on a file
    that is stored completely.
  \<^item> \<^verbatim>\<open>Sqsh_Directory\<close>: \<^verbatim>\<open>libsqsh/src/directory/\<close>: the directory iterator, the index of extended directories, the
    lookup of a name, and what holds of them on any archive.
  \<^item> \<^verbatim>\<open>Sqsh_Listing\<close>: the format of a listing as an encoder, the iterator as a refinement of the list of entries
    still to come, and the properties of directories.
  \<^item> \<^verbatim>\<open>Sqsh_Xattr\<close>: \<^verbatim>\<open>libsqsh/src/xattr/\<close>: the iterator over the extended attributes of a file, its safety, the
    format of the attributes as an encoder, iteration and lookup on it.
  \<^item> \<^verbatim>\<open>Sqsh_Stored\<close>: what it means that an archive holds a tree of files, stated over its bytes, and that opening a
    stored inode or directory finds it; the small tree of the witnesses.
  \<^item> \<^verbatim>\<open>Sqsh_Tree\<close>: \<^verbatim>\<open>tree/path_resolver.c\<close>, \<^verbatim>\<open>walker.c\<close>, and the parts of \<^verbatim>\<open>file/file.c\<close> that open a file by its path. The moves
    of a resolver are the step relation \<^verbatim>\<open>resolver_step\<close>; the invariant holds along every sequence of them, and
    resolving a path ends.
  \<^item> \<^verbatim>\<open>Sqsh_Resolve\<close>: what a path names in a stored tree (\<^verbatim>\<open>tree_resolve\<close>), and that the resolver finds it.
  \<^item> \<^verbatim>\<open>Sqsh_Traversal\<close>: \<^verbatim>\<open>tree/traversal.c\<close>, a state machine over a stack of directories: its invariant, and a
    measure that shows that it ends on every archive.
  \<^item> \<^verbatim>\<open>Sqsh_Preorder\<close>: the traversal of a stored tree delivers its entries in preorder.
  \<^item> \<^verbatim>\<open>Sqsh_Mksqsh\<close>: \<^verbatim>\<open>libmksqsh/\<close>, the builders of superblocks and metablocks: a refinement of the abstract
    values of a superblock, and round trips through the reader's own definitions.

  \<^bold>\<open>Conventions.\<close> A C structure is a record whose fields carry a short prefix. A function that
  returns an error code and changes an object returns the pair of both; the code is \<^verbatim>\<open>Ok\<close>, \<^verbatim>\<open>Err\<close> with
  one of the library's errors, or \<^verbatim>\<open>Fault\<close>, which stands for undefined behaviour of the C code (a read
  outside an object, a missing object) and which the safety theorems exclude. Unsigned integers are
  natural numbers; every place where the C arithmetic can wrap is written out with
  \<^verbatim>\<open>mod\<close>, \<^verbatim>\<open>wrap_add\<close>, \<^verbatim>\<open>wrap_sub\<close> or one of the checked operations, and words are used where the code works
  bitwise. A pointer into memory is the list of bytes that may be read through it. Objects that the
  code shares by pointer (the map manager, the extract managers, the archive) are copied into the
  object that refers to them, and the operations that change a cache return it; caches are
  transparent (properties of \<^verbatim>\<open>Sqsh_Mapper\<close> and \<^verbatim>\<open>Sqsh_Extract\<close>), so the copies cannot be told apart.

  \<^bold>\<open>Parameters.\<close> Code that is not under \<^verbatim>\<open>src/\<close> is a parameter: the cextras buffer (\<^verbatim>\<open>cx_buffer_ops\<close>, with
  the contract \<^verbatim>\<open>cx_buffer_ok\<close>), its reference counted radix tree and LRU (\<^verbatim>\<open>cache_ops\<close>, \<^verbatim>\<open>cache_ok\<close>), its hash
  map (\<^verbatim>\<open>hash_map_ops\<close>, \<^verbatim>\<open>hash_map_ok\<close>), the decompressors (\<^verbatim>\<open>extractor_impl\<close>, \<^verbatim>\<open>extractor_impl_ok\<close>), the memory
  mapper that a user supplies (locale \<^verbatim>\<open>memory_mapper\<close>; the static mapper of the library is an
  interpretation), the mutex (\<^verbatim>\<open>env_lock\<close>) and the output stream of the builders (\<^verbatim>\<open>file_ops\<close>,
  \<^verbatim>\<open>file_ops_ok\<close>). The witnesses instantiate them all with concrete
  functions.

  \<^bold>\<open>Fuel.\<close> The loops whose number of rounds depends on the archive, \<^verbatim>\<open>fill_loop\<close> of the reader,
  \<^verbatim>\<open>metablock_skip_loop\<close>, \<^verbatim>\<open>skip_loop\<close> of the file iterator, \<^verbatim>\<open>index_loop\<close> and \<^verbatim>\<open>lookup_loop\<close> of directories, \<^verbatim>\<open>xattr_lookup_loop\<close>, are recursions over an upper bound of the
  rounds that the state determines (the requested bytes, the rest of the archive, the blocks that
  are left and the zeros due, the rest of a directory); the theorems on them hold without any assumption on the fuel because
  the bound is proved to be enough. Paths: \<^verbatim>\<open>path_resolve_loop\<close> goes round once for a byte of the path, \<^verbatim>\<open>follow_all_loop\<close>
  and the recursion \<^verbatim>\<open>path_resolve_nested\<close> through links are bounded by the number of links that may still be followed
  (\<^verbatim>\<open>symlink_fuel\<close>), and \<^verbatim>\<open>path_resolution_ends\<close> shows that this is enough. The loop \<^verbatim>\<open>traverse\<close> over a traversal has a
  number of rounds as its argument; \<^verbatim>\<open>traversal_ends\<close> shows that some number is enough.

  \<^bold>\<open>Not modelled.\<close> The bindings to zlib, lzma, zstd and lz4, curl, mmap, pthread and stdio only call
  foreign code. The command line tools and FUSE file systems are argument parsing and output around
  the library, and the easy API (\<^verbatim>\<open>libsqsh/src/easy/\<close>) and the trailing context are thin wrappers over the
  iterators. Allocation and release of objects (the \<^verbatim>\<open>_new\<close> and \<^verbatim>\<open>_free\<close> wrappers) has no counterpart in
  a model without addresses.
\<close>

end
